(* ===== verification/Prelude.thy ===== *)
theory Prelude
  imports Main "HOL-Library.Word"
begin

text \<open>
  Shared vocabulary of the development: C strings and the few \<open>string.h\<close> functions the
  program uses, machine widths for unsigned sizes, the error monad of the components
  and the collections of rewrite rules their proofs share.
\<close>

section \<open>Collections\<close>

named_theorems fault_simps \<open>rewrite rules for the error monad\<close>
named_theorems cstr_simps \<open>rewrite rules for C strings\<close>

section \<open>The error monad\<close>

text \<open>
  A fallible operation returns \<open>Inl fault\<close> where the C code would fail or leave the
  memory it owns, and \<open>Inr result\<close> otherwise. \<open>and_then\<close> sequences two of them.
\<close>

fun and_then :: "'e + 'a \<Rightarrow> ('a \<Rightarrow> 'e + 'b) \<Rightarrow> 'e + 'b" where
  "and_then (Inl e) f = Inl e"
| "and_then (Inr x) f = f x"

lemma and_then_Inr_iff [fault_simps]:
  "and_then m f = Inr y \<longleftrightarrow> (\<exists>x. m = Inr x \<and> f x = Inr y)"
  by (cases m) auto

lemma and_then_Inl_iff [fault_simps]:
  "and_then m f = Inl e \<longleftrightarrow> m = Inl e \<or> (\<exists>x. m = Inr x \<and> f x = Inl e)"
  by (cases m) auto

lemma and_then_assoc: "and_then (and_then m f) g = and_then m (\<lambda>x. and_then (f x) g)"
  by (cases m) auto

lemma and_then_cong [fundef_cong]:
  "m = m' \<Longrightarrow> (\<And>x. m' = Inr x \<Longrightarrow> f x = g x) \<Longrightarrow> and_then m f = and_then m' g"
  by (cases m') auto

section \<open>Unsigned sizes\<close>

text \<open>\<open>size_t\<close> has 64 bits on the platforms the program is built for; results that pass its
  range wrap around.\<close>

definition SIZE_MOD :: nat where
  "SIZE_MOD = 2 ^ 64"

definition size_t :: "nat \<Rightarrow> nat" where
  "size_t n = n mod SIZE_MOD"

text \<open>The value \<open>(size_t) -1\<close>.\<close>

definition SIZE_MAX :: nat where
  "SIZE_MAX = SIZE_MOD - 1"

text \<open>Unsigned subtraction \<open>a - b\<close> on \<open>size_t\<close>.\<close>

definition size_sub :: "nat \<Rightarrow> nat \<Rightarrow> nat" where
  "size_sub a b = size_t (a + SIZE_MOD - b)"

lemma size_t_small [simp]: "n < SIZE_MOD \<Longrightarrow> size_t n = n"
  by (simp add: size_t_def)

lemma size_t_less [simp]: "size_t n < SIZE_MOD"
  by (simp add: size_t_def SIZE_MOD_def)

lemma size_sub_le [simp]:
  assumes "b \<le> a" and "a < SIZE_MOD"
  shows "size_sub a b = a - b"
proof -
  have eq: "a + SIZE_MOD - b = (a - b) + SIZE_MOD" using assms(1) by simp
  have "(a - b) mod SIZE_MOD = a - b" using assms(2) by simp
  then show ?thesis unfolding size_sub_def size_t_def eq by simp
qed

section \<open>C strings\<close>

abbreviation NUL :: char where
  "NUL \<equiv> CHR 0x00"

abbreviation CR :: char where
  "CR \<equiv> CHR 0x0D"

abbreviation LF :: char where
  "LF \<equiv> CHR 0x0A"

definition CRLF :: string where
  "CRLF = [CR, LF]"

text \<open>What a C function that takes a \<open>char *\<close> sees of a buffer: the characters before the first
  terminator.\<close>

definition cstr :: "string \<Rightarrow> string" where
  "cstr s = takeWhile (\<lambda>c. c \<noteq> NUL) s"

text \<open>The characters of a proper C string contain no terminator.\<close>

definition is_cstr :: "string \<Rightarrow> bool" where
  "is_cstr s \<longleftrightarrow> NUL \<notin> set s"

lemma cstr_id [cstr_simps]: "is_cstr s \<Longrightarrow> cstr s = s"
  by (auto simp: cstr_def is_cstr_def takeWhile_eq_all_conv)

lemma is_cstr_cstr [simp]: "is_cstr (cstr s)"
  using set_takeWhileD by (fastforce simp: cstr_def is_cstr_def)

lemma cstr_append_NUL [cstr_simps]: "is_cstr s \<Longrightarrow> cstr (s @ NUL # t) = s"
  by (auto simp: cstr_def is_cstr_def takeWhile_append)

lemma is_cstr_append [cstr_simps]: "is_cstr (s @ t) \<longleftrightarrow> is_cstr s \<and> is_cstr t"
  by (auto simp: is_cstr_def)

lemma is_cstr_Nil [cstr_simps]: "is_cstr []"
  by (simp add: is_cstr_def)

lemma is_cstr_Cons [cstr_simps]: "is_cstr (c # s) \<longleftrightarrow> c \<noteq> NUL \<and> is_cstr s"
  by (auto simp: is_cstr_def)

text \<open>\<open>str_equals\<close> and \<open>strn_equals\<close> of \<open>strings_utils.h\<close>: \<open>strcmp\<close> and \<open>strncmp\<close> against zero.\<close>

definition str_equals :: "string \<Rightarrow> string \<Rightarrow> bool" where
  "str_equals a b \<longleftrightarrow> cstr a = cstr b"

definition strn_equals :: "string \<Rightarrow> string \<Rightarrow> nat \<Rightarrow> bool" where
  "strn_equals a b n \<longleftrightarrow> take n (cstr a @ [NUL]) = take n (cstr b @ [NUL])"

text \<open>ASCII \<open>tolower\<close> and the case-insensitive \<open>strncasecmp\<close> and \<open>strcasecmp\<close>.\<close>

definition char_code :: "char \<Rightarrow> nat" where
  "char_code c = of_char c"

definition to_lower :: "char \<Rightarrow> char" where
  "to_lower c = (if 65 \<le> char_code c \<and> char_code c \<le> 90 then char_of (char_code c + 32) else c)"

definition strncase_equals :: "string \<Rightarrow> string \<Rightarrow> nat \<Rightarrow> bool" where
  "strncase_equals a b n \<longleftrightarrow> strn_equals (map to_lower (cstr a)) (map to_lower (cstr b)) n"

definition strcase_equals :: "string \<Rightarrow> string \<Rightarrow> bool" where
  "strcase_equals a b \<longleftrightarrow> map to_lower (cstr a) = map to_lower (cstr b)"

definition is_digit :: "char \<Rightarrow> bool" where
  "is_digit c \<longleftrightarrow> 48 \<le> char_code c \<and> char_code c \<le> 57"

text \<open>\<open>strstr\<close>: the offset of the first occurrence of the needle.\<close>

fun prefix_at :: "string \<Rightarrow> string \<Rightarrow> bool" where
  "prefix_at [] hay = True"
| "prefix_at (c # cs) [] = False"
| "prefix_at (c # cs) (h # hs) = (c = h \<and> prefix_at cs hs)"

fun strstr :: "string \<Rightarrow> string \<Rightarrow> nat option" where
  "strstr [] needle = (if needle = [] then Some 0 else None)"
| "strstr (h # hs) needle =
     (if prefix_at needle (h # hs) then Some 0 else map_option Suc (strstr hs needle))"

lemma prefix_at_append [simp]: "prefix_at n (n @ t)"
  by (induction n) auto

lemma prefix_at_iff: "prefix_at n h \<longleftrightarrow> (\<exists>t. h = n @ t)"
  by (induction n h rule: prefix_at.induct) auto

lemma strstr_Some:
  "strstr h n = Some k \<Longrightarrow> k \<le> length h \<and> (\<exists>t. drop k h = n @ t)"
  by (induction h arbitrary: k) (auto simp: prefix_at_iff split: if_splits)

section \<open>Writing into a fixed buffer\<close>

text \<open>\<open>memcpy\<close> into a buffer at an offset: \<open>None\<close> when the write would pass its end.\<close>

definition buf_write :: "'a list \<Rightarrow> nat \<Rightarrow> 'a list \<Rightarrow> 'a list option" where
  "buf_write b i xs =
     (if i + length xs \<le> length b then Some (take i b @ xs @ drop (i + length xs) b) else None)"

lemma buf_write_Some:
  "buf_write b i xs = Some b' \<longleftrightarrow>
     i + length xs \<le> length b \<and> b' = take i b @ xs @ drop (i + length xs) b"
  by (auto simp: buf_write_def)

lemma buf_write_length: "buf_write b i xs = Some b' \<Longrightarrow> length b' = length b"
  by (auto simp: buf_write_Some)

lemma take_buf_write:
  "buf_write b i xs = Some b' \<Longrightarrow> take (i + length xs) b' = take i b @ xs"
  by (auto simp: buf_write_Some)

lemma take_snoc_update: "i < length xs \<Longrightarrow> take (Suc i) (xs[i := x]) = take i xs @ [x]"
  by (simp add: take_Suc_conv_app_nth)

end
