(* ===== verification/Numbers.thy ===== *)
theory Numbers
  imports Prelude
begin

text \<open>
  Decimal numbers as the program prints and reads them: \<open>printf\<close> with \<open>%u\<close>, \<open>%lu\<close>, \<open>%hu\<close> and
  \<open>PRIu64\<close>, and the part of \<open>sscanf\<close> its formats use. A format is a list of directives; the
  interpreter returns the values of the conversions that were assigned, in order, so the
  return value of \<open>sscanf\<close> is their number.
\<close>

section \<open>Printing\<close>

definition digit_char :: "nat \<Rightarrow> char" where
  "digit_char d = char_of (48 + d)"

fun dec :: "nat \<Rightarrow> string" where
  "dec n = (if n < 10 then [digit_char n] else dec (n div 10) @ [digit_char (n mod 10)])"

declare dec.simps [simp del]

definition digit_value :: "char \<Rightarrow> nat" where
  "digit_value c = char_code c - 48"

text \<open>The value of a digit string, continuing from \<open>acc\<close>.\<close>

definition digits_value :: "nat \<Rightarrow> string \<Rightarrow> nat" where
  "digits_value acc s = foldl (\<lambda>a c. 10 * a + digit_value c) acc s"

lemma char_code_digit_char: "d < 10 \<Longrightarrow> char_code (digit_char d) = 48 + d"
  by (simp add: char_code_def digit_char_def)

lemma is_digit_digit_char [simp]: "d < 10 \<Longrightarrow> is_digit (digit_char d)"
  by (simp add: is_digit_def char_code_digit_char)

lemma digit_value_digit_char [simp]: "d < 10 \<Longrightarrow> digit_value (digit_char d) = d"
  by (simp add: digit_value_def char_code_digit_char)

lemma digit_value_less: "is_digit c \<Longrightarrow> digit_value c < 10"
  by (auto simp: is_digit_def digit_value_def)

lemma dec_nonempty [simp]: "dec n \<noteq> []"
  by (subst dec.simps) simp

lemma dec_digits: "list_all is_digit (dec n)"
proof (induction n rule: dec.induct)
  case (1 n)
  then show ?case by (subst dec.simps) auto
qed

lemma digits_value_dec: "digits_value 0 (dec n) = n"
proof (induction n rule: dec.induct)
  case (1 n)
  show ?case
  proof (cases "n < 10")
    case True
    then show ?thesis by (subst dec.simps) (simp add: digits_value_def)
  next
    case False
    with 1 have "foldl (\<lambda>a c. 10 * a + digit_value c) 0 (dec (n div 10)) = n div 10"
      by (simp add: digits_value_def)
    with False show ?thesis by (subst dec.simps) (simp add: digits_value_def)
  qed
qed

lemma dec_inj: "dec m = dec n \<Longrightarrow> m = n"
  by (metis digits_value_dec)

lemma dec_zero: "dec 0 = ''0''"
  by code_simp

lemma dec_is_cstr [cstr_simps]: "is_cstr (dec n)"
proof -
  have "is_digit NUL \<longleftrightarrow> False" by (simp add: is_digit_def char_code_def)
  then show ?thesis using dec_digits [of n] by (auto simp: is_cstr_def list_all_iff)
qed

lemma dec_hd_digit: "is_digit (hd (dec n))"
  using dec_digits [of n] dec_nonempty [of n] by (cases "dec n") auto

lemma dec_bound: "n < 10 ^ k \<Longrightarrow> 0 < k \<Longrightarrow> length (dec n) \<le> k"
proof (induction n arbitrary: k rule: dec.induct)
  case (1 n)
  show ?case
  proof (cases "n < 10")
    case True
    with "1.prems"(2) show ?thesis by (subst dec.simps) simp
  next
    case False
    obtain j where j: "k = Suc j" "0 < j"
    proof (cases k)
      case 0
      with "1.prems"(2) show ?thesis by simp
    next
      case (Suc j)
      moreover have "0 < j" using Suc False "1.prems"(1) by (cases j) auto
      ultimately show ?thesis using that by blast
    qed
    with "1.prems"(1) have "n div 10 < 10 ^ j" by (simp add: less_mult_imp_div_less mult.commute)
    with "1.IH" [OF False _ j(2)] have "length (dec (n div 10)) \<le> j" by blast
    with False j show ?thesis by (subst dec.simps) simp
  qed
qed

section \<open>Scanning\<close>

definition is_space :: "char \<Rightarrow> bool" where
  "is_space c \<longleftrightarrow> char_code c = 32 \<or> (9 \<le> char_code c \<and> char_code c \<le> 13)"

definition ULONG_MAX :: nat where
  "ULONG_MAX = 2 ^ 64 - 1"

text \<open>\<open>strtoul\<close> with base 10 on input that starts with its sign or first digit: the value, which
  sticks at \<open>ULONG_MAX\<close> and is negated modulo \<open>2 ^ 64\<close> after a minus sign, and the rest.\<close>

definition scan_digits :: "string \<Rightarrow> (nat \<times> string) option" where
  "scan_digits s = (let ds = takeWhile is_digit s in
     if ds = [] then None
     else Some (min ULONG_MAX (digits_value 0 ds), dropWhile is_digit s))"

definition scan_ulong :: "string \<Rightarrow> (nat \<times> string) option" where
  "scan_ulong s = (case s of
     [] \<Rightarrow> None
   | c # cs \<Rightarrow>
       if c = CHR ''-'' then
         (case scan_digits cs of None \<Rightarrow> None
          | Some (v, r) \<Rightarrow> Some (if v = ULONG_MAX then v else (ULONG_MAX + 1 - v) mod (ULONG_MAX + 1), r))
       else if c = CHR ''+'' then scan_digits cs
       else scan_digits s)"

datatype scan_directive =
    Lit char            \<comment> \<open>a character that must match\<close>
  | White               \<comment> \<open>a blank in the format: skips any white space\<close>
  | ConvS nat           \<comment> \<open>\<open>%<width>s\<close>\<close>
  | ConvNotIn nat char  \<comment> \<open>\<open>%<width>[^c]\<close>\<close>
  | ConvULong           \<comment> \<open>\<open>%lu\<close> and \<open>PRIu64\<close>\<close>
  | ConvUShort          \<comment> \<open>\<open>%hu\<close>\<close>

datatype scan_value = VStr string | VNum nat

definition split_upto :: "nat \<Rightarrow> (char \<Rightarrow> bool) \<Rightarrow> string \<Rightarrow> string \<times> string" where
  "split_upto w P s = (let t = takeWhile P (take w s) in (t, drop (length t) s))"

text \<open>One conversion: the value read and the rest of the input, or a failure.\<close>

fun scan_conv :: "scan_directive \<Rightarrow> string \<Rightarrow> (scan_value \<times> string) option" where
  "scan_conv (ConvS w) s =
     (case split_upto w (\<lambda>c. \<not> is_space c) (dropWhile is_space s) of
        (t, r) \<Rightarrow> if t = [] then None else Some (VStr t, r))"
| "scan_conv (ConvNotIn w x) s =
     (case split_upto w (\<lambda>c. c \<noteq> x) s of (t, r) \<Rightarrow> if t = [] then None else Some (VStr t, r))"
| "scan_conv ConvULong s =
     (case scan_ulong (dropWhile is_space s) of None \<Rightarrow> None | Some (v, r) \<Rightarrow> Some (VNum v, r))"
| "scan_conv ConvUShort s =
     (case scan_ulong (dropWhile is_space s) of None \<Rightarrow> None | Some (v, r) \<Rightarrow> Some (VNum (v mod 2 ^ 16), r))"
| "scan_conv _ s = None"

fun sscanf :: "scan_directive list \<Rightarrow> string \<Rightarrow> scan_value list" where
  "sscanf [] s = []"
| "sscanf (Lit c # ds) s =
     (case s of [] \<Rightarrow> [] | x # xs \<Rightarrow> if x = c then sscanf ds xs else [])"
| "sscanf (White # ds) s = sscanf ds (dropWhile is_space s)"
| "sscanf (d # ds) s =
     (case scan_conv d s of None \<Rightarrow> [] | Some (v, r) \<Rightarrow> v # sscanf ds r)"

text \<open>A literal format text, blanks included.\<close>

definition lits :: "string \<Rightarrow> scan_directive list" where
  "lits s = map (\<lambda>c. if c = CHR '' '' then White else Lit c) s"

section \<open>What is printed is read back\<close>

lemma is_space_not_digit: "is_digit c \<Longrightarrow> \<not> is_space c"
  by (auto simp: is_digit_def is_space_def)

lemma dropWhile_space_dec [simp]: "dropWhile is_space (dec n @ r) = dec n @ r"
  using dec_hd_digit [of n] dec_nonempty [of n] is_space_not_digit by (cases "dec n") auto

lemma takeWhile_digits_dec:
  "r = [] \<or> \<not> is_digit (hd r) \<Longrightarrow> takeWhile is_digit (dec n @ r) = dec n \<and> dropWhile is_digit (dec n @ r) = r"
  using dec_digits [of n] by (cases r) (auto simp: list_all_iff)

lemma scan_digits_dec:
  "r = [] \<or> \<not> is_digit (hd r) \<Longrightarrow> n \<le> ULONG_MAX \<Longrightarrow> scan_digits (dec n @ r) = Some (n, r)"
  using takeWhile_digits_dec [of r n] by (simp add: scan_digits_def digits_value_dec Let_def)

lemma scan_ulong_dec:
  assumes "r = [] \<or> \<not> is_digit (hd r)" and "n \<le> ULONG_MAX"
  shows "scan_ulong (dec n @ r) = Some (n, r)"
proof -
  obtain c cs where c: "dec n = c # cs" using dec_nonempty [of n] by (cases "dec n") auto
  with dec_hd_digit [of n] have "c \<noteq> CHR ''-''" "c \<noteq> CHR ''+''"
    by (auto simp: is_digit_def char_code_def)
  with scan_digits_dec [OF assms] c show ?thesis by (simp add: scan_ulong_def)
qed

lemma scan_conv_ulong_dec [simp]:
  "r = [] \<or> \<not> is_digit (hd r) \<Longrightarrow> n \<le> ULONG_MAX \<Longrightarrow>
     scan_conv ConvULong (dec n @ r) = Some (VNum n, r)"
  by (simp add: scan_ulong_dec)

lemma scan_conv_ushort_dec [simp]:
  "r = [] \<or> \<not> is_digit (hd r) \<Longrightarrow> n < 2 ^ 16 \<Longrightarrow>
     scan_conv ConvUShort (dec n @ r) = Some (VNum n, r)"
  by (simp add: scan_ulong_dec ULONG_MAX_def)

lemma split_upto_all:
  "list_all P s \<Longrightarrow> length s \<le> w \<Longrightarrow> r = [] \<or> \<not> P (hd r) \<Longrightarrow> split_upto w P (s @ r) = (s, r)"
proof -
  assume a: "list_all P s" "length s \<le> w" "r = [] \<or> \<not> P (hd r)"
  have "takeWhile P (take (w - length s) r) = []"
    using a(3) by (cases r) (auto simp: take_Cons split: nat.split)
  then have "takeWhile P (take w (s @ r)) = s"
    using a(1,2) by (simp add: takeWhile_append list_all_iff)
  then show ?thesis by (simp add: split_upto_def)
qed

lemma scan_conv_word:
  assumes "s \<noteq> []" and "list_all (\<lambda>c. \<not> is_space c) s" and "length s \<le> w" and "r = [] \<or> is_space (hd r)"
  shows "scan_conv (ConvS w) (s @ r) = Some (VStr s, r)"
proof -
  have "dropWhile is_space (s @ r) = s @ r" using assms(1,2) by (cases s) auto
  moreover have "split_upto w (\<lambda>c. \<not> is_space c) (s @ r) = (s, r)"
    by (rule split_upto_all) (use assms in auto)
  ultimately show ?thesis using assms(1) by simp
qed

lemma sscanf_lits_self:
  "list_all (\<lambda>c. c = CHR '' '' \<or> \<not> is_space c) s \<Longrightarrow> r = [] \<or> \<not> is_space (hd r) \<Longrightarrow>
     (\<And>k. Suc k < length s \<Longrightarrow> s ! k = CHR '' '' \<Longrightarrow> s ! Suc k \<noteq> CHR '' '') \<Longrightarrow>
     sscanf (lits s @ ds) (s @ r) = sscanf ds r"
proof (induction s)
  case Nil
  then show ?case by (simp add: lits_def)
next
  case (Cons c s)
  have next_ok: "\<And>k. Suc k < length s \<Longrightarrow> s ! k = CHR '' '' \<Longrightarrow> s ! Suc k \<noteq> CHR '' ''"
    using Cons.prems(3) by (metis Suc_less_eq length_Cons nth_Cons_Suc)
  have IH: "sscanf (lits s @ ds) (s @ r) = sscanf ds r"
    using Cons.IH Cons.prems(1,2) next_ok by simp
  show ?case
  proof (cases "c = CHR '' ''")
    case True
    have "s @ r = [] \<or> \<not> is_space (hd (s @ r))"
    proof (cases s)
      case Nil
      then show ?thesis using Cons.prems(2) by simp
    next
      case (Cons x xs)
      then have "x \<noteq> CHR '' ''" using Cons.prems(3) [of 0] True by simp
      then show ?thesis using Cons Cons.prems(1) by simp
    qed
    then have "dropWhile is_space (s @ r) = s @ r" by (cases "s @ r") auto
    then show ?thesis using True IH by (simp add: lits_def is_space_def char_code_def)
  next
    case False
    then show ?thesis using IH by (simp add: lits_def)
  qed
qed

end
