(* ===== verification/Session.thy ===== *)
theory Session
  imports Numbers
begin

text \<open>
  The IRC session of libircclient: the types of \<open>session.h\<close>, \<open>dcc.h\<close>, \<open>params.h\<close> and
  \<open>libirc_errors.h\<close>, the error texts of \<open>errors.c\<close>, and the operations of \<open>libircclient.c\<close> that
  queue a line for the server (\<open>irc_send_raw\<close> and the \<open>irc_cmd_*\<close> family). A write past the end
  of \<open>outgoing_buf\<close> would make the list longer than the array, which the session invariant
  rules out.
\<close>

section \<open>States, errors, limits\<close>

datatype libirc_state =
    LIBIRC_STATE_INIT | LIBIRC_STATE_INIT_PASSIVE | LIBIRC_STATE_LISTENING | LIBIRC_STATE_CONNECTING
  | LIBIRC_STATE_CONNECTED | LIBIRC_STATE_DISCONNECTED | LIBIRC_STATE_CONFIRM_SIZE
  | LIBIRC_STATE_REMOVED | LIBIRC_STATE_WAITING_FOR_RESUME_ACK

datatype libirc_error =
    LIBIRC_ERR_OK | LIBIRC_ERR_INVAL | LIBIRC_ERR_RESOLV | LIBIRC_ERR_SOCKET | LIBIRC_ERR_CONNECT
  | LIBIRC_ERR_CLOSED | LIBIRC_ERR_NOMEM | LIBIRC_ERR_ACCEPT | LIBIRC_ERR_NODCCSEND
  | LIBIRC_ERR_READ | LIBIRC_ERR_WRITE | LIBIRC_ERR_STATE | LIBIRC_ERR_TIMEOUT
  | LIBIRC_ERR_OPENFILE | LIBIRC_ERR_TERMINATED | LIBIRC_ERR_NOIPV6 | LIBIRC_ERR_SSL_NOT_SUPPORTED
  | LIBIRC_ERR_SSL_INIT_FAILED | LIBIRC_ERR_CONNECT_SSL_FAILED | LIBIRC_ERR_SSL_CERT_VERIFY_FAILED
  | LIBIRC_BIND_FAILED | LIBIRC_LISTEN_FAILED | LIBIRC_LISTEN_IP_INVALID

fun errcode :: "libirc_error \<Rightarrow> int" where
  "errcode LIBIRC_ERR_OK = 0"
| "errcode LIBIRC_ERR_INVAL = 1"
| "errcode LIBIRC_ERR_RESOLV = 2"
| "errcode LIBIRC_ERR_SOCKET = 3"
| "errcode LIBIRC_ERR_CONNECT = 4"
| "errcode LIBIRC_ERR_CLOSED = 5"
| "errcode LIBIRC_ERR_NOMEM = 6"
| "errcode LIBIRC_ERR_ACCEPT = 7"
| "errcode LIBIRC_ERR_NODCCSEND = 9"
| "errcode LIBIRC_ERR_READ = 10"
| "errcode LIBIRC_ERR_WRITE = 11"
| "errcode LIBIRC_ERR_STATE = 12"
| "errcode LIBIRC_ERR_TIMEOUT = 13"
| "errcode LIBIRC_ERR_OPENFILE = 14"
| "errcode LIBIRC_ERR_TERMINATED = 15"
| "errcode LIBIRC_ERR_NOIPV6 = 16"
| "errcode LIBIRC_ERR_SSL_NOT_SUPPORTED = 17"
| "errcode LIBIRC_ERR_SSL_INIT_FAILED = 18"
| "errcode LIBIRC_ERR_CONNECT_SSL_FAILED = 19"
| "errcode LIBIRC_ERR_SSL_CERT_VERIFY_FAILED = 20"
| "errcode LIBIRC_BIND_FAILED = 21"
| "errcode LIBIRC_LISTEN_FAILED = 22"
| "errcode LIBIRC_LISTEN_IP_INVALID = 23"

definition LIBIRC_ERR_MAX :: int where
  "LIBIRC_ERR_MAX = 24"

definition libirc_strerror :: "string list" where
  "libirc_strerror =
     [''No error'', ''Invalid argument'', ''Host not resolved'', ''Socket error'',
      ''Could not connect'', ''Remote connection closed'', ''Out of memory'',
      ''Could not accept new connection'', ''Object not found'', ''Could not DCC send this object'',
      ''Read error'', ''Write error'', ''Illegal operation for this state'', ''Timeout error'',
      ''Could not open file'', ''IRC session terminated'', ''IPv6 not supported'',
      ''SSL not supported'', ''SSL initialization failed'', ''SSL connection failed'',
      ''SSL certificate verify failed'', ''Socket bind error'', ''Socket listen error'',
      ''The ip for the passive dcc mode is invalid.'']"

definition irc_strerror :: "int \<Rightarrow> string" where
  "irc_strerror ircerrno =
     (if 0 \<le> ircerrno \<and> ircerrno < LIBIRC_ERR_MAX then libirc_strerror ! nat ircerrno
      else ''Invalid irc_errno value'')"

definition LIBIRC_BUFFER_SIZE :: nat where
  "LIBIRC_BUFFER_SIZE = 2048"

definition SSL_PREFIX :: char where
  "SSL_PREFIX = CHR ''#''"

definition SESSIONFL_MOTD_RECEIVED :: "32 word" where
  "SESSIONFL_MOTD_RECEIVED = 1"

definition SESSIONFL_SSL_CONNECTION :: "32 word" where
  "SESSIONFL_SSL_CONNECTION = 2"

definition SESSIONFL_SSL_WRITE_WANTS_READ :: "32 word" where
  "SESSIONFL_SSL_WRITE_WANTS_READ = 4"

definition SESSIONFL_SSL_READ_WANTS_WRITE :: "32 word" where
  "SESSIONFL_SSL_READ_WANTS_WRITE = 8"

definition SESSIONFL_USES_IPV6 :: "32 word" where
  "SESSIONFL_USES_IPV6 = 16"

section \<open>Session records\<close>

text \<open>The functions the client registers with a DCC session, by name: \<open>session\<close> keeps function
  pointers, and the program passes these three.\<close>

datatype dcc_callback = RECV_FILE | RESUME_FILE | RESUME_FILE_REVERSE

text \<open>\<open>struct irc_dcc_session_s\<close>. Integers are the numbers their C types hold; \<open>d_ctx\<close> is the
  index of the client's context or \<open>None\<close> for \<open>NULL\<close>; a closed socket is \<open>-1\<close>.\<close>

record irc_dcc_session =
  d_id :: nat
  d_passive_connection :: bool
  d_token :: nat
  d_ctx :: "nat option"
  d_sock :: int
  d_state :: libirc_state
  d_ssl :: bool
  d_received_file_size :: nat
  d_file_confirm_offset :: nat
  d_remote_ip :: nat
  d_remote_port :: nat
  d_cb :: "dcc_callback option"
  d_reverse_cb :: "dcc_callback option"

text \<open>\<open>struct irc_session_s\<close>. \<open>s_mutex_dcc\<close> counts how often \<open>mutex_dcc\<close>, which is recursive,
  is held; \<open>s_ssl\<close> says whether the \<open>ssl\<close> pointer is set.\<close>

record irc_session =
  s_state :: libirc_state
  s_lasterror :: libirc_error
  s_options :: "32 word"
  s_flags :: "32 word"
  s_sock :: int
  s_ssl :: bool
  s_incoming_buf :: string
  s_incoming_offset :: nat
  s_outgoing_buf :: string
  s_outgoing_offset :: nat
  s_nick :: "string option"
  s_username :: "string option"
  s_realname :: "string option"
  s_server :: "string option"
  s_server_password :: "string option"
  s_dcc_last_id :: nat
  s_dcc_sessions :: "irc_dcc_session list"
  s_mutex_dcc :: int

definition irc_create_session :: irc_session where
  "irc_create_session = \<lparr>s_state = LIBIRC_STATE_INIT, s_lasterror = LIBIRC_ERR_OK, s_options = 0,
     s_flags = 0, s_sock = -1, s_ssl = False,
     s_incoming_buf = replicate LIBIRC_BUFFER_SIZE NUL, s_incoming_offset = 0,
     s_outgoing_buf = replicate LIBIRC_BUFFER_SIZE NUL, s_outgoing_offset = 0,
     s_nick = None, s_username = None, s_realname = None, s_server = None,
     s_server_password = None, s_dcc_last_id = 1, s_dcc_sessions = [], s_mutex_dcc = 0\<rparr>"

definition irc_errno :: "irc_session \<Rightarrow> int" where
  "irc_errno s = errcode (s_lasterror s)"

definition irc_is_connected :: "irc_session \<Rightarrow> bool" where
  "irc_is_connected s \<longleftrightarrow> s_state s = LIBIRC_STATE_CONNECTED \<or> s_state s = LIBIRC_STATE_CONNECTING"

definition has_flag :: "irc_session \<Rightarrow> 32 word \<Rightarrow> bool" where
  "has_flag s f \<longleftrightarrow> and (s_flags s) f \<noteq> 0"

definition irc_option_set :: "irc_session \<Rightarrow> 32 word \<Rightarrow> irc_session" where
  "irc_option_set s option = s\<lparr>s_options := or (s_options s) option\<rparr>"

definition irc_option_reset :: "irc_session \<Rightarrow> 32 word \<Rightarrow> irc_session" where
  "irc_option_reset s option = s\<lparr>s_options := and (s_options s) (not option)\<rparr>"

definition irc_disconnect :: "irc_session \<Rightarrow> irc_session" where
  "irc_disconnect s = s\<lparr>s_sock := -1, s_state := LIBIRC_STATE_INIT\<rparr>"

definition free_ircsession_strings :: "irc_session \<Rightarrow> irc_session" where
  "free_ircsession_strings s = s\<lparr>s_realname := None, s_username := None, s_nick := None,
     s_server := None, s_server_password := None\<rparr>"

section \<open>Queueing a line for the server\<close>

text \<open>Storing bytes into an array from an index on; the list grows when the array would be left.\<close>

definition mem_put :: "'a list \<Rightarrow> nat \<Rightarrow> 'a list \<Rightarrow> 'a list" where
  "mem_put b i xs = take i b @ xs @ drop (i + length xs) b"

text \<open>\<open>msg\<close> is the formatted text; \<open>vsnprintf\<close> keeps 1023 of its characters. The result is the
  session and the status.\<close>

definition irc_send_raw :: "irc_session \<Rightarrow> string \<Rightarrow> irc_session \<times> int" where
  "irc_send_raw s msg =
     (if s_state s \<noteq> LIBIRC_STATE_CONNECTED then (s\<lparr>s_lasterror := LIBIRC_ERR_STATE\<rparr>, 1)
      else let buf = take 1023 (cstr msg) in
        if length buf + 2 \<ge> size_sub LIBIRC_BUFFER_SIZE (s_outgoing_offset s)
        then (s\<lparr>s_lasterror := LIBIRC_ERR_NOMEM\<rparr>, 1)
        else (s\<lparr>s_outgoing_buf := mem_put (s_outgoing_buf s) (s_outgoing_offset s) (buf @ CRLF),
               s_outgoing_offset := s_outgoing_offset s + length buf + 2\<rparr>, 0))"

definition state_error :: "irc_session \<Rightarrow> irc_session \<times> int" where
  "state_error s = (s\<lparr>s_lasterror := LIBIRC_ERR_STATE\<rparr>, 1)"

definition inval_error :: "irc_session \<Rightarrow> irc_session \<times> int" where
  "inval_error s = (s\<lparr>s_lasterror := LIBIRC_ERR_INVAL\<rparr>, 1)"

text \<open>The commands. A pointer argument that may be \<open>NULL\<close> is an \<open>option\<close>.\<close>

definition irc_cmd_quit :: "irc_session \<Rightarrow> string option \<Rightarrow> irc_session \<times> int" where
  "irc_cmd_quit s reason = irc_send_raw s
     (''QUIT :'' @ (case reason of None \<Rightarrow> ''quit'' | Some r \<Rightarrow> r))"

definition irc_cmd_join :: "irc_session \<Rightarrow> string option \<Rightarrow> string option \<Rightarrow> irc_session \<times> int" where
  "irc_cmd_join s channel key = (case channel of None \<Rightarrow> state_error s
     | Some c \<Rightarrow> (case key of Some k \<Rightarrow> irc_send_raw s (''JOIN '' @ c @ '' :'' @ k)
         | None \<Rightarrow> irc_send_raw s (''JOIN '' @ c)))"

definition irc_cmd_part :: "irc_session \<Rightarrow> string option \<Rightarrow> irc_session \<times> int" where
  "irc_cmd_part s channel = (case channel of None \<Rightarrow> state_error s
     | Some c \<Rightarrow> irc_send_raw s (''PART '' @ c))"

definition irc_cmd_topic :: "irc_session \<Rightarrow> string option \<Rightarrow> string option \<Rightarrow> irc_session \<times> int" where
  "irc_cmd_topic s channel topic = (case channel of None \<Rightarrow> state_error s
     | Some c \<Rightarrow> (case topic of Some t \<Rightarrow> irc_send_raw s (''TOPIC '' @ c @ '' :'' @ t)
         | None \<Rightarrow> irc_send_raw s (''TOPIC '' @ c)))"

definition irc_cmd_names :: "irc_session \<Rightarrow> string option \<Rightarrow> irc_session \<times> int" where
  "irc_cmd_names s channel = (case channel of None \<Rightarrow> state_error s
     | Some c \<Rightarrow> irc_send_raw s (''NAMES '' @ c))"

definition irc_cmd_list :: "irc_session \<Rightarrow> string option \<Rightarrow> irc_session \<times> int" where
  "irc_cmd_list s channel = (case channel of Some c \<Rightarrow> irc_send_raw s (''LIST '' @ c)
     | None \<Rightarrow> irc_send_raw s ''LIST'')"

definition irc_cmd_invite :: "irc_session \<Rightarrow> string option \<Rightarrow> string option \<Rightarrow> irc_session \<times> int" where
  "irc_cmd_invite s nick channel = (case (channel, nick) of
       (Some c, Some n) \<Rightarrow> irc_send_raw s (''INVITE '' @ n @ '' '' @ c)
     | _ \<Rightarrow> state_error s)"

definition irc_cmd_kick :: "irc_session \<Rightarrow> string option \<Rightarrow> string option \<Rightarrow> string option
    \<Rightarrow> irc_session \<times> int" where
  "irc_cmd_kick s nick channel comment = (case (channel, nick) of
       (Some c, Some n) \<Rightarrow> (case comment of
            Some t \<Rightarrow> irc_send_raw s (''KICK '' @ c @ '' '' @ n @ '' :'' @ t)
          | None \<Rightarrow> irc_send_raw s (''KICK '' @ c @ '' '' @ n))
     | _ \<Rightarrow> state_error s)"

definition irc_cmd_msg :: "irc_session \<Rightarrow> string option \<Rightarrow> string option \<Rightarrow> irc_session \<times> int" where
  "irc_cmd_msg s nch text = (case (nch, text) of
       (Some n, Some t) \<Rightarrow> irc_send_raw s (''PRIVMSG '' @ n @ '' :'' @ t)
     | _ \<Rightarrow> state_error s)"

definition irc_cmd_notice :: "irc_session \<Rightarrow> string option \<Rightarrow> string option \<Rightarrow> irc_session \<times> int" where
  "irc_cmd_notice s nch text = (case (nch, text) of
       (Some n, Some t) \<Rightarrow> irc_send_raw s (''NOTICE '' @ n @ '' :'' @ t)
     | _ \<Rightarrow> state_error s)"

abbreviation SOH :: char where
  "SOH \<equiv> CHR 0x01"

definition irc_cmd_ctcp_request :: "irc_session \<Rightarrow> string option \<Rightarrow> string option \<Rightarrow> irc_session \<times> int" where
  "irc_cmd_ctcp_request s nick reply = (case (nick, reply) of
       (Some n, Some r) \<Rightarrow> irc_send_raw s (''PRIVMSG '' @ n @ '' :'' @ [SOH] @ r @ [SOH])
     | _ \<Rightarrow> state_error s)"

definition irc_cmd_ctcp_reply :: "irc_session \<Rightarrow> string option \<Rightarrow> string option \<Rightarrow> irc_session \<times> int" where
  "irc_cmd_ctcp_reply s nick reply = (case (nick, reply) of
       (Some n, Some r) \<Rightarrow> irc_send_raw s (''NOTICE '' @ n @ '' :'' @ [SOH] @ r @ [SOH])
     | _ \<Rightarrow> state_error s)"

definition irc_cmd_me :: "irc_session \<Rightarrow> string option \<Rightarrow> string option \<Rightarrow> irc_session \<times> int" where
  "irc_cmd_me s nch text = (case (nch, text) of
       (Some n, Some t) \<Rightarrow> irc_send_raw s (''PRIVMSG '' @ n @ '' :'' @ [SOH] @ ''ACTION '' @ t @ [SOH])
     | _ \<Rightarrow> state_error s)"

definition irc_cmd_channel_mode :: "irc_session \<Rightarrow> string option \<Rightarrow> string option \<Rightarrow> irc_session \<times> int" where
  "irc_cmd_channel_mode s channel mode = (case channel of None \<Rightarrow> inval_error s
     | Some c \<Rightarrow> (case mode of Some m \<Rightarrow> irc_send_raw s (''MODE '' @ c @ '' '' @ m)
         | None \<Rightarrow> irc_send_raw s (''MODE '' @ c)))"

text \<open>\<open>%s\<close> of a \<open>NULL\<close> nick prints \<open>(null)\<close> in glibc; a connected session has a nick.\<close>

definition fmt_s :: "string option \<Rightarrow> string" where
  "fmt_s x = (case x of Some t \<Rightarrow> t | None \<Rightarrow> ''(null)'')"

definition irc_cmd_user_mode :: "irc_session \<Rightarrow> string option \<Rightarrow> irc_session \<times> int" where
  "irc_cmd_user_mode s mode = (case mode of
       Some m \<Rightarrow> irc_send_raw s (''MODE '' @ fmt_s (s_nick s) @ '' '' @ m)
     | None \<Rightarrow> irc_send_raw s (''MODE '' @ fmt_s (s_nick s)))"

definition irc_cmd_nick :: "irc_session \<Rightarrow> string option \<Rightarrow> irc_session \<times> int" where
  "irc_cmd_nick s newnick = (case newnick of None \<Rightarrow> inval_error s
     | Some n \<Rightarrow> irc_send_raw s (''NICK '' @ n))"

definition irc_cmd_whois :: "irc_session \<Rightarrow> string option \<Rightarrow> irc_session \<times> int" where
  "irc_cmd_whois s nick = (case nick of None \<Rightarrow> inval_error s
     | Some n \<Rightarrow> irc_send_raw s (''WHOIS '' @ n @ '' '' @ n))"

text \<open>\<open>irc_target_get_nick\<close> and \<open>irc_target_get_host\<close>: the text stored in the caller's buffer of
  \<open>n\<close> bytes, without its terminator. A length above \<open>n - 1\<close> is cut.\<close>

definition irc_target_get_nick :: "string \<Rightarrow> nat \<Rightarrow> string" where
  "irc_target_get_nick target n =
     (let t = cstr target;
          len = (case strstr t ''!'' of Some p \<Rightarrow> p | None \<Rightarrow> length t) in
      take (min len (size_sub n 1)) t)"

definition irc_target_get_host :: "string \<Rightarrow> nat \<Rightarrow> string" where
  "irc_target_get_host target n =
     (let t = cstr target;
          p = (case strstr t ''!'' of Some k \<Rightarrow> k | None \<Rightarrow> 0) in
      take (min (length (drop p t)) (size_sub n 1)) (drop p t))"

section \<open>The invariant of the buffers\<close>

definition session_wf :: "irc_session \<Rightarrow> bool" where
  "session_wf s \<longleftrightarrow> length (s_outgoing_buf s) = LIBIRC_BUFFER_SIZE \<and> s_outgoing_offset s < LIBIRC_BUFFER_SIZE
     \<and> length (s_incoming_buf s) = LIBIRC_BUFFER_SIZE \<and> s_incoming_offset s < LIBIRC_BUFFER_SIZE"

lemmas session_wf_defs = session_wf_def LIBIRC_BUFFER_SIZE_def

text \<open>The bytes that wait to be sent.\<close>

definition queued :: "irc_session \<Rightarrow> string" where
  "queued s = take (s_outgoing_offset s) (s_outgoing_buf s)"

lemma session_wf_create [simp]: "session_wf irc_create_session"
  by (simp add: session_wf_defs irc_create_session_def)

lemma mem_put_length: "i + length xs \<le> length b \<Longrightarrow> length (mem_put b i xs) = length b"
  by (simp add: mem_put_def)

lemma take_mem_put: "i \<le> length b \<Longrightarrow> take (i + length xs) (mem_put b i xs) = take i b @ xs"
  by (simp add: mem_put_def)

text \<open>The text a call of \<open>irc_send_raw\<close> adds to the queue, and when it does.\<close>

definition sent_text :: "string \<Rightarrow> string" where
  "sent_text msg = take 1023 (cstr msg) @ CRLF"

definition send_accepted :: "irc_session \<Rightarrow> string \<Rightarrow> bool" where
  "send_accepted s msg \<longleftrightarrow> s_state s = LIBIRC_STATE_CONNECTED \<and>
     length (queued s) + length (sent_text msg) < LIBIRC_BUFFER_SIZE"

lemma queued_length: "session_wf s \<Longrightarrow> length (queued s) = s_outgoing_offset s"
  by (simp add: queued_def session_wf_def)

lemma send_raw_accepted:
  assumes "session_wf s" and "send_accepted s msg"
  shows "irc_send_raw s msg =
    (s\<lparr>s_outgoing_buf := mem_put (s_outgoing_buf s) (s_outgoing_offset s) (sent_text msg),
       s_outgoing_offset := s_outgoing_offset s + length (sent_text msg)\<rparr>, 0)"
proof -
  have "\<not> length (take 1023 (cstr msg)) + 2 \<ge> size_sub LIBIRC_BUFFER_SIZE (s_outgoing_offset s)"
    using assms by (auto simp: send_accepted_def queued_length sent_text_def CRLF_def
        session_wf_defs SIZE_MOD_def)
  moreover have "s_state s = LIBIRC_STATE_CONNECTED" using assms(2) by (simp add: send_accepted_def)
  ultimately show ?thesis by (simp add: irc_send_raw_def Let_def sent_text_def CRLF_def)
qed

lemma send_raw_refused:
  assumes "session_wf s" and "\<not> send_accepted s msg"
  shows "\<exists>e. irc_send_raw s msg = (s\<lparr>s_lasterror := e\<rparr>, 1) \<and>
     e = (if s_state s = LIBIRC_STATE_CONNECTED then LIBIRC_ERR_NOMEM else LIBIRC_ERR_STATE)"
proof (cases "s_state s = LIBIRC_STATE_CONNECTED")
  case True
  have "length (take 1023 (cstr msg)) + 2 \<ge> size_sub LIBIRC_BUFFER_SIZE (s_outgoing_offset s)"
    using assms True by (simp add: send_accepted_def queued_length sent_text_def CRLF_def
        session_wf_defs SIZE_MOD_def)
  then show ?thesis using True by (simp add: irc_send_raw_def Let_def)
qed (simp add: irc_send_raw_def)

lemma send_raw_wf:
  assumes "session_wf s"
  shows "session_wf (fst (irc_send_raw s msg))"
proof (cases "send_accepted s msg")
  case True
  then have room: "s_outgoing_offset s + length (sent_text msg) < LIBIRC_BUFFER_SIZE"
    using assms by (simp add: send_accepted_def queued_length)
  then show ?thesis using assms
    by (simp add: send_raw_accepted [OF assms True] session_wf_def mem_put_length)
next
  case False
  then show ?thesis using send_raw_refused [OF assms False] assms by (auto simp: session_wf_def)
qed

lemma send_raw_queued:
  assumes "session_wf s"
  shows "queued (fst (irc_send_raw s msg)) = (if send_accepted s msg then queued s @ sent_text msg else queued s)"
proof (cases "send_accepted s msg")
  case True
  then show ?thesis using assms
    by (simp add: send_raw_accepted [OF assms True] queued_def take_mem_put session_wf_def)
next
  case False
  then show ?thesis using send_raw_refused [OF assms False] by (auto simp: queued_def)
qed

text \<open>What no command of the family touches.\<close>

lemma send_raw_frame:
  "s_state (fst (irc_send_raw s msg)) = s_state s"
  "s_flags (fst (irc_send_raw s msg)) = s_flags s"
  "s_nick (fst (irc_send_raw s msg)) = s_nick s"
  "s_sock (fst (irc_send_raw s msg)) = s_sock s"
  "s_dcc_sessions (fst (irc_send_raw s msg)) = s_dcc_sessions s"
  "s_dcc_last_id (fst (irc_send_raw s msg)) = s_dcc_last_id s"
  "s_mutex_dcc (fst (irc_send_raw s msg)) = s_mutex_dcc s"
  "s_incoming_buf (fst (irc_send_raw s msg)) = s_incoming_buf s"
  "s_incoming_offset (fst (irc_send_raw s msg)) = s_incoming_offset s"
  by (simp_all add: irc_send_raw_def Let_def)

lemma send_raw_status: "snd (irc_send_raw s msg) = 0 \<or> snd (irc_send_raw s msg) = 1"
  by (simp add: irc_send_raw_def Let_def)

section \<open>Error texts\<close>

lemma strerror_table: "length libirc_strerror = nat LIBIRC_ERR_MAX"
  by (simp add: libirc_strerror_def LIBIRC_ERR_MAX_def)

lemma strerror_distinct: "distinct libirc_strerror"
  by (simp add: libirc_strerror_def)

lemma errcode_range: "0 \<le> errcode e \<and> errcode e < LIBIRC_ERR_MAX"
  by (cases e) (simp_all add: LIBIRC_ERR_MAX_def)

lemma errcode_inj: "errcode e = errcode f \<Longrightarrow> e = f"
  by (cases e; cases f; simp)

text \<open>Every error the library sets has a text of its own, and the table is never read out of
  range.\<close>

theorem irc_strerror_injective:
  "irc_strerror (errcode e) = irc_strerror (errcode f) \<longleftrightarrow> e = f"
proof -
  have n: "nat (errcode x) < length libirc_strerror" for x
    using errcode_range [of x] by (simp add: strerror_table)
  have "irc_strerror (errcode x) = libirc_strerror ! nat (errcode x)" for x
    using errcode_range [of x] by (simp add: irc_strerror_def)
  then have "irc_strerror (errcode e) = irc_strerror (errcode f) \<longleftrightarrow> nat (errcode e) = nat (errcode f)"
    using nth_eq_iff_index_eq [OF strerror_distinct n n] by simp
  also have "\<dots> \<longleftrightarrow> errcode e = errcode f" using errcode_range [of e] errcode_range [of f] by auto
  also have "\<dots> \<longleftrightarrow> e = f" using errcode_inj by blast
  finally show ?thesis .
qed

end
