(* ===== verification/Session_Io.thy ===== *)
theory Session_Io
  imports Session
begin

text \<open>
  Moving bytes between the session's buffers and its socket: \<open>session_socket_read\<close>,
  \<open>session_socket_write\<close>, \<open>ssl_recv\<close> and \<open>ssl_send\<close> of \<open>ssl.c\<close>, \<open>libirc_findcrlf\<close> of \<open>utils.c\<close> and
  the branch of \<open>irc_process_select_descriptors\<close> that writes the queue out. What the operating
  system and OpenSSL answer to one call is an argument. The interface \<open>byte_channel\<close> states what
  a queue with partial writes must guarantee; the outgoing buffer implements it.
\<close>

section \<open>Answers of the transport\<close>

datatype ssl_reason = CERT_VERIFY_FAILED | UNKNOWN_PROTOCOL | OTHER_REASON

datatype ssl_error = SSL_ERROR_WANT_READ | SSL_ERROR_WANT_WRITE | SSL_ERROR_FATAL ssl_reason

datatype read_answer = ReadBytes string | ReadClosed | ReadError ssl_error

datatype write_answer = Written nat | WriteClosed | WriteError ssl_error

text \<open>The bytes a read may store and a write may take, as \<open>recv\<close>, \<open>SSL_read\<close>, \<open>send\<close> and
  \<open>SSL_write\<close> document it: a positive number within the bounds of the call.\<close>

definition read_room :: "irc_session \<Rightarrow> nat" where
  "read_room s = size_sub (LIBIRC_BUFFER_SIZE - 1) (s_incoming_offset s)"

definition read_ok :: "irc_session \<Rightarrow> read_answer \<Rightarrow> bool" where
  "read_ok s r = (case r of ReadBytes xs \<Rightarrow> xs \<noteq> [] \<and> length xs \<le> read_room s | _ \<Rightarrow> True)"

definition write_ok :: "irc_session \<Rightarrow> write_answer \<Rightarrow> bool" where
  "write_ok s w = (case w of Written n \<Rightarrow> 0 < n \<and> n \<le> s_outgoing_offset s | _ \<Rightarrow> True)"

section \<open>Reading and writing\<close>

definition ssl_handle_error :: "irc_session \<Rightarrow> ssl_reason \<Rightarrow> irc_session" where
  "ssl_handle_error s reason = (case reason of
     CERT_VERIFY_FAILED \<Rightarrow> s\<lparr>s_lasterror := LIBIRC_ERR_SSL_CERT_VERIFY_FAILED\<rparr>
   | UNKNOWN_PROTOCOL \<Rightarrow> s\<lparr>s_lasterror := LIBIRC_ERR_CONNECT_SSL_FAILED\<rparr>
   | OTHER_REASON \<Rightarrow> s)"

definition store_incoming :: "irc_session \<Rightarrow> string \<Rightarrow> irc_session" where
  "store_incoming s xs = s\<lparr>s_incoming_buf := mem_put (s_incoming_buf s) (s_incoming_offset s) xs\<rparr>"

definition ssl_recv :: "irc_session \<Rightarrow> read_answer \<Rightarrow> irc_session \<times> int" where
  "ssl_recv s r = (case r of
     ReadBytes xs \<Rightarrow> (store_incoming s xs, int (length xs))
   | ReadClosed \<Rightarrow> (s, -1)
   | ReadError SSL_ERROR_WANT_READ \<Rightarrow> (s, 0)
   | ReadError SSL_ERROR_WANT_WRITE \<Rightarrow>
       (s\<lparr>s_flags := or (s_flags s) SESSIONFL_SSL_READ_WANTS_WRITE\<rparr>, 0)
   | ReadError (SSL_ERROR_FATAL reason) \<Rightarrow> (ssl_handle_error s reason, -1))"

definition ssl_send :: "irc_session \<Rightarrow> write_answer \<Rightarrow> irc_session \<times> int" where
  "ssl_send s w = (case w of
     Written n \<Rightarrow> (s, int n)
   | WriteClosed \<Rightarrow> (s, -1)
   | WriteError SSL_ERROR_WANT_READ \<Rightarrow>
       (s\<lparr>s_flags := or (s_flags s) SESSIONFL_SSL_WRITE_WANTS_READ\<rparr>, 0)
   | WriteError SSL_ERROR_WANT_WRITE \<Rightarrow> (s, 0)
   | WriteError (SSL_ERROR_FATAL reason) \<Rightarrow> (ssl_handle_error s reason, -1))"

definition clear_flag :: "irc_session \<Rightarrow> 32 word \<Rightarrow> irc_session" where
  "clear_flag s f = s\<lparr>s_flags := and (s_flags s) (not f)\<rparr>"

text \<open>\<open>r\<close> answers a read, \<open>w\<close> a write; one of them is consulted.\<close>

definition session_socket_read :: "irc_session \<Rightarrow> read_answer \<Rightarrow> write_answer \<Rightarrow> irc_session \<times> int" where
  "session_socket_read s r w =
     (if s_ssl s then
        if has_flag s SESSIONFL_SSL_READ_WANTS_WRITE
        then (fst (ssl_send (clear_flag s SESSIONFL_SSL_READ_WANTS_WRITE) w), 0)
        else ssl_recv s r
      else (case r of ReadBytes xs \<Rightarrow> (store_incoming s xs, int (length xs)) | _ \<Rightarrow> (s, -1)))"

definition session_socket_write :: "irc_session \<Rightarrow> read_answer \<Rightarrow> write_answer \<Rightarrow> irc_session \<times> int" where
  "session_socket_write s r w =
     (if s_ssl s then
        if has_flag s SESSIONFL_SSL_WRITE_WANTS_READ
        then (fst (ssl_recv (clear_flag s SESSIONFL_SSL_WRITE_WANTS_READ) r), 0)
        else ssl_send s w
      else (case w of Written n \<Rightarrow> (s, int n) | _ \<Rightarrow> (s, -1)))"

text \<open>\<open>memmove\<close> of the bytes from \<open>n\<close> up to the end of the data to the front of the buffer.\<close>

definition shift_down :: "string \<Rightarrow> nat \<Rightarrow> nat \<Rightarrow> string" where
  "shift_down b used n = mem_put b 0 (take (used - n) (drop n b))"

text \<open>What \<open>irc_process_select_descriptors\<close> does after a failed read or write of the session.\<close>

definition connection_lost :: "irc_session \<Rightarrow> irc_session \<times> int" where
  "connection_lost s =
     ((if s_lasterror s = LIBIRC_ERR_OK then s\<lparr>s_lasterror := LIBIRC_ERR_TERMINATED\<rparr> else s)
        \<lparr>s_state := LIBIRC_STATE_DISCONNECTED\<rparr>, 1)"

definition process_writable :: "irc_session \<Rightarrow> read_answer \<Rightarrow> write_answer \<Rightarrow> irc_session \<times> int" where
  "process_writable s r w =
     (case session_socket_write s r w of (s, len) \<Rightarrow>
        if len < 0 then connection_lost s
        else let n = nat len;
                 s = (if len > 0 \<and> size_sub (s_outgoing_offset s) n > 0
                      then s\<lparr>s_outgoing_buf := shift_down (s_outgoing_buf s) (s_outgoing_offset s) n\<rparr>
                      else s)
             in (s\<lparr>s_outgoing_offset := size_sub (s_outgoing_offset s) n\<rparr>, 0))"

section \<open>Lines\<close>

text \<open>\<open>libirc_findcrlf\<close>: the offset just after the first line end, 0 when there is none.\<close>

fun findcrlf_from :: "string \<Rightarrow> nat \<Rightarrow> nat" where
  "findcrlf_from (a # b # cs) offset =
     (if a = CR \<and> b = LF then offset + 2 else findcrlf_from (b # cs) (Suc offset))"
| "findcrlf_from _ offset = 0"

definition libirc_findcrlf :: "string \<Rightarrow> nat \<Rightarrow> nat" where
  "libirc_findcrlf buf len = findcrlf_from (take len buf) 0"

text \<open>Whether a text holds a line end, and what the search returns.\<close>

fun has_crlf :: "string \<Rightarrow> bool" where
  "has_crlf (a # b # cs) = (a = CR \<and> b = LF \<or> has_crlf (b # cs))"
| "has_crlf _ = False"

lemma findcrlf_from_none: "\<not> has_crlf s \<Longrightarrow> findcrlf_from s n = 0"
  by (induction s n rule: findcrlf_from.induct) auto

lemma findcrlf_from_line:
  "\<not> has_crlf (pre @ [CR]) \<Longrightarrow> findcrlf_from (pre @ CRLF @ rest) n = n + length pre + 2"
proof (induction pre arbitrary: n)
  case Nil
  then show ?case by (simp add: CRLF_def)
next
  case (Cons a pre)
  show ?case
  proof (cases pre)
    case Nil
    then show ?thesis using Cons by (auto simp: CRLF_def)
  next
    case (Cons b bs)
    then show ?thesis using Cons.IH [of "Suc n"] Cons.prems by auto
  qed
qed

lemma has_crlf_split:
  "has_crlf s \<Longrightarrow> \<exists>pre rest. s = pre @ CRLF @ rest \<and> \<not> has_crlf (pre @ [CR])"
proof (induction s rule: has_crlf.induct)
  case (1 a b cs)
  show ?case
  proof (cases "a = CR \<and> b = LF")
    case True
    then show ?thesis by (intro exI [of _ "[]"] exI [of _ cs]) (simp add: CRLF_def)
  next
    case False
    with 1 obtain pre rest where pre: "b # cs = pre @ CRLF @ rest" "\<not> has_crlf (pre @ [CR])" by auto
    then have "\<not> has_crlf ((a # pre) @ [CR])" using False by (cases pre) (auto simp: CRLF_def)
    then show ?thesis using pre(1) by (intro exI [of _ "a # pre"] exI [of _ rest]) auto
  qed
qed auto

lemma libirc_findcrlf_zero: "libirc_findcrlf buf len = 0 \<longleftrightarrow> \<not> has_crlf (take len buf)"
proof
  assume "libirc_findcrlf buf len = 0"
  then show "\<not> has_crlf (take len buf)"
    using has_crlf_split findcrlf_from_line by (fastforce simp: libirc_findcrlf_def)
qed (simp add: libirc_findcrlf_def findcrlf_from_none)

lemma libirc_findcrlf_line:
  assumes "take len buf = pre @ CRLF @ rest" and "\<not> has_crlf (pre @ [CR])"
  shows "libirc_findcrlf buf len = length pre + 2"
  using findcrlf_from_line [OF assms(2), of rest 0] assms(1) by (simp add: libirc_findcrlf_def)

section \<open>The queue as a channel\<close>

text \<open>
  A queue whose owner adds whole messages, which may be refused, and whose transport takes any
  number of bytes off the front. \<open>enc\<close> is the text a message adds.
\<close>

datatype channel_op = Push string | Pop nat

locale byte_channel =
  fixes content :: "'q \<Rightarrow> string"
    and push :: "string \<Rightarrow> 'q \<Rightarrow> 'q"
    and pop :: "nat \<Rightarrow> 'q \<Rightarrow> 'q"
    and accepts :: "'q \<Rightarrow> string \<Rightarrow> bool"
    and enc :: "string \<Rightarrow> string"
    and inv :: "'q \<Rightarrow> bool"
  assumes content_push: "inv q \<Longrightarrow> content (push m q) = (if accepts q m then content q @ enc m else content q)"
    and content_pop: "inv q \<Longrightarrow> n \<le> length (content q) \<Longrightarrow> content (pop n q) = drop n (content q)"
    and inv_push: "inv q \<Longrightarrow> inv (push m q)"
    and inv_pop: "inv q \<Longrightarrow> n \<le> length (content q) \<Longrightarrow> inv (pop n q)"
begin

text \<open>A run gives the final queue, the bytes that left and the messages that were accepted. A
  transport never takes more than there is.\<close>

fun run_channel :: "channel_op list \<Rightarrow> 'q \<Rightarrow> 'q \<times> string \<times> string list" where
  "run_channel [] q = (q, [], [])"
| "run_channel (Push m # ops) q =
     (case run_channel ops (push m q) of (r, out, ms) \<Rightarrow>
        (r, out, if accepts q m then m # ms else ms))"
| "run_channel (Pop n # ops) q =
     (let k = min n (length (content q)) in
      case run_channel ops (pop k q) of (r, out, ms) \<Rightarrow> (r, take k (content q) @ out, ms))"

lemma run_channel_inv: "inv q \<Longrightarrow> inv (fst (run_channel ops q))"
  by (induction ops q rule: run_channel.induct)
    (auto simp: Let_def inv_push inv_pop split: prod.splits)

text \<open>Nothing is lost, duplicated or reordered.\<close>

lemma channel_fifo:
  "inv q \<Longrightarrow> run_channel ops q = (r, out, ms) \<Longrightarrow> out @ content r = content q @ concat (map enc ms)"
proof (induction ops q arbitrary: r out ms rule: run_channel.induct)
  case (1 q)
  then show ?case by simp
next
  case (2 m ops q)
  obtain r' out' ms' where run: "run_channel ops (push m q) = (r', out', ms')" by (metis prod_cases3)
  have "out' @ content r' = content (push m q) @ concat (map enc ms')"
    using "2.IH" [OF inv_push [OF "2.prems"(1)] run] .
  then show ?case using "2.prems" run by (auto simp: content_push split: if_splits)
next
  case (3 n ops q)
  let ?k = "min n (length (content q))"
  obtain r' out' ms' where run: "run_channel ops (pop ?k q) = (r', out', ms')" by (metis prod_cases3)
  have "out' @ content r' = content (pop ?k q) @ concat (map enc ms')"
    by (rule "3.IH" [OF refl inv_pop run]) (use "3.prems" in auto)
  moreover have "content (pop ?k q) = drop ?k (content q)"
    by (rule content_pop) (use "3.prems" in auto)
  moreover have "take ?k (content q) @ drop ?k (content q) = content q" by (rule append_take_drop_id)
  ultimately show ?case using "3.prems" run by (auto simp: Let_def)
qed

end

section \<open>The outgoing buffer is such a channel\<close>

text \<open>A session on a plain socket that is connected.\<close>

definition plain_session :: "irc_session \<Rightarrow> bool" where
  "plain_session s \<longleftrightarrow> session_wf s \<and> \<not> s_ssl s \<and> s_state s = LIBIRC_STATE_CONNECTED"

text \<open>The transport takes \<open>n\<close> bytes: \<open>send\<close> answers \<open>n\<close>; no bytes means the socket is not ready.\<close>

definition send_some :: "nat \<Rightarrow> irc_session \<Rightarrow> irc_session" where
  "send_some n s = (if n = 0 then s else fst (process_writable s ReadClosed (Written n)))"

definition queue_line :: "string \<Rightarrow> irc_session \<Rightarrow> irc_session" where
  "queue_line m s = fst (irc_send_raw s m)"

lemma shift_down_take:
  assumes "n \<le> used" and "used \<le> length b"
  shows "take (used - n) (shift_down b used n) = drop n (take used b)"
    and "length (shift_down b used n) = length b"
  using assms by (simp_all add: shift_down_def mem_put_def drop_take)

lemma process_writable_plain:
  assumes "plain_session s" and "0 < n" and "n \<le> s_outgoing_offset s"
  shows "queued (fst (process_writable s r (Written n))) = drop n (queued s)"
    and "plain_session (fst (process_writable s r (Written n)))"
    and "snd (process_writable s r (Written n)) = 0"
proof -
  have wf: "length (s_outgoing_buf s) = 2048" "s_outgoing_offset s < 2048" "\<not> s_ssl s"
    using assms(1) by (auto simp: plain_session_def session_wf_defs)
  have sub: "size_sub (s_outgoing_offset s) n = s_outgoing_offset s - n"
    using assms(3) wf(2) by (simp add: SIZE_MOD_def)
  have used: "s_outgoing_offset s \<le> length (s_outgoing_buf s)" using wf by simp
  let ?b = "shift_down (s_outgoing_buf s) (s_outgoing_offset s) n"
  let ?b' = "if 0 < s_outgoing_offset s - n then ?b else s_outgoing_buf s"
  have p: "process_writable s r (Written n) =
    (s\<lparr>s_outgoing_buf := ?b', s_outgoing_offset := s_outgoing_offset s - n\<rparr>, 0)"
    using assms(2) wf(3) sub by (simp add: process_writable_def session_socket_write_def Let_def)
  show "queued (fst (process_writable s r (Written n))) = drop n (queued s)"
    using shift_down_take(1) [OF assms(3) used] by (simp add: p queued_def)
  show "plain_session (fst (process_writable s r (Written n)))"
    using assms(1) wf shift_down_take(2) [OF assms(3) used]
    by (auto simp: p plain_session_def session_wf_defs)
  show "snd (process_writable s r (Written n)) = 0" by (simp add: p)
qed

interpretation outq: byte_channel queued queue_line send_some send_accepted sent_text plain_session
proof (unfold_locales, goal_cases)
  case (1 q m)
  then show ?case by (simp add: queue_line_def send_raw_queued plain_session_def)
next
  case (2 q n)
  then show ?case using process_writable_plain(1) [of q n]
    by (auto simp: send_some_def plain_session_def queued_length)
next
  case (3 q m)
  have "s_ssl (fst (irc_send_raw q m)) = s_ssl q" by (simp add: irc_send_raw_def Let_def)
  with 3 show ?case by (simp add: queue_line_def plain_session_def send_raw_wf send_raw_frame)
next
  case (4 q n)
  then show ?case using process_writable_plain(2) [of q n]
    by (auto simp: send_some_def plain_session_def queued_length)
qed



section \<open>Reads and writes that cross on an SSL session\<close>

text \<open>C33: bytes lost. When OpenSSL wants to read before it can go on writing, the write path reads
  for it; the bytes of that read are stored in the incoming buffer but not counted, so the next
  read overwrites them.\<close>

theorem ssl_write_path_loses_input:
  assumes "session_wf s" and "s_ssl s" and "has_flag s SESSIONFL_SSL_WRITE_WANTS_READ"
    and "read_ok s (ReadBytes xs)"
  shows "snd (session_socket_write s (ReadBytes xs) w) = 0
    \<and> s_incoming_offset (fst (session_socket_write s (ReadBytes xs) w)) = s_incoming_offset s
    \<and> take (length xs) (drop (s_incoming_offset s)
        (s_incoming_buf (fst (session_socket_write s (ReadBytes xs) w)))) = xs"
  using assms by (auto simp: session_socket_write_def ssl_recv_def store_incoming_def clear_flag_def
      mem_put_def session_wf_defs read_ok_def read_room_def)

theorem ssl_write_path_loses_input_witness:
  "let s = irc_create_session\<lparr>s_ssl := True, s_flags := 4\<rparr>
   in snd (session_socket_write s (ReadBytes ''PING'') WriteClosed) = 0
    \<and> s_incoming_offset (fst (session_socket_write s (ReadBytes ''PING'') WriteClosed)) = s_incoming_offset s
    \<and> take (length ''PING'') (drop (s_incoming_offset s)
        (s_incoming_buf (fst (session_socket_write s (ReadBytes ''PING'') WriteClosed)))) = ''PING''"
  unfolding Let_def
  by (rule ssl_write_path_loses_input)
    (simp_all add: session_wf_defs irc_create_session_def has_flag_def SESSIONFL_SSL_WRITE_WANTS_READ_def
      read_ok_def read_room_def SIZE_MOD_def)

text \<open>Bytes sent twice. When OpenSSL wants to write before it can go on reading, the read path
  writes for it; the bytes that write took stay in the queue.\<close>

theorem ssl_read_path_resends_output:
  assumes "s_ssl s" and "has_flag s SESSIONFL_SSL_READ_WANTS_WRITE"
  shows "snd (session_socket_read s r (Written n)) = 0
    \<and> queued (fst (session_socket_read s r (Written n))) = queued s"
  using assms by (simp add: session_socket_read_def ssl_send_def clear_flag_def queued_def)

theorem ssl_read_path_resends_output_witness:
  "let s = irc_create_session\<lparr>s_ssl := True, s_flags := 8,
             s_outgoing_buf := ''QUIT'' @ CRLF @ replicate 2042 NUL, s_outgoing_offset := 6\<rparr>
   in snd (session_socket_read s ReadClosed (Written 6)) = 0
    \<and> queued (fst (session_socket_read s ReadClosed (Written 6))) = queued s"
  unfolding Let_def
  by (rule ssl_read_path_resends_output)
    (simp_all add: has_flag_def SESSIONFL_SSL_READ_WANTS_WRITE_def)

end
