(* ===== verification/Config.thy ===== *)
theory Config
  imports Numbers
begin

text \<open>
  The program's configuration and the helpers around it: \<open>struct xdccGetConfig\<close> with its flag
  bits (\<open>helper.h\<close>), the structures of \<open>argument_parser.h\<close>, the size and speed arithmetic of
  \<open>helper.c\<close> and the option setters of \<open>argument_parser.c\<close>. Main results: the flag operations
  obey the laws of a set of flags, the transfer speeds form a ring of the last eight samples
  whose average stays between their bounds, and what a speed limit text means.
\<close>

section \<open>Structures\<close>

record xdccSendDelay =
  sendDelayInSecs :: nat
  timeToSendCommand :: nat

record dccDownload =
  botNick :: string
  xdccCmd :: string
  md5 :: "string option"

definition NUM_AVERAGE_SPEED_VALUES :: nat where
  "NUM_AVERAGE_SPEED_VALUES = 8"

record dccCurrentSpeed =
  curSpeed :: "nat list"
  speedIndex :: nat
  isSpeedArrayFilled :: bool

record dccDownloadProgress =
  completeFileSize :: nat
  sizeRcvd :: nat
  sizeNow :: nat
  sizeLast :: nat
  averageSpeed :: nat
  completePath :: string
  pr_curSpeed :: dccCurrentSpeed

datatype log_level = LOG_ERR | LOG_QUIET | LOG_WARN | LOG_INFO

fun log_number :: "log_level \<Rightarrow> nat" where
  "log_number LOG_ERR = 0"
| "log_number LOG_QUIET = 1"
| "log_number LOG_WARN = 2"
| "log_number LOG_INFO = 3"

text \<open>\<open>struct xdccGetConfig\<close>; the IRC session is a component of its own.\<close>

record xdccGetConfig =
  c_logLevel :: log_level
  c_dccDownloadArray :: "dccDownload list"
  c_numDownloads :: nat
  c_maxTransferSpeed :: "64 word"
  c_sendDelay :: "xdccSendDelay option"
  c_flags :: "64 word"
  c_ircServer :: "string option"
  c_channelsToJoin :: "string list"
  c_targetDir :: "string option"
  c_nick :: "string option"
  c_login_command :: "string option"
  c_listen_ip :: "string option"
  c_listen_port :: "16 word"
  c_args :: "string option list"
  c_numChannels :: nat
  c_port :: "16 word"

text \<open>The structure as \<open>memset\<close> leaves it.\<close>

definition zero_config :: xdccGetConfig where
  "zero_config = \<lparr>c_logLevel = LOG_ERR, c_dccDownloadArray = [], c_numDownloads = 0,
     c_maxTransferSpeed = 0, c_sendDelay = None, c_flags = 0, c_ircServer = None,
     c_channelsToJoin = [], c_targetDir = None, c_nick = None, c_login_command = None,
     c_listen_ip = None, c_listen_port = 0, c_args = [None, None, None], c_numChannels = 0, c_port = 0\<rparr>"

definition OUTPUT_FLAG :: nat where "OUTPUT_FLAG = 1"
definition ALLOW_ALL_CERTS_FLAG :: nat where "ALLOW_ALL_CERTS_FLAG = 2"
definition USE_IPV4_FLAG :: nat where "USE_IPV4_FLAG = 3"
definition USE_IPV6_FLAG :: nat where "USE_IPV6_FLAG = 4"
definition VERIFY_CHECKSUM_FLAG :: nat where "VERIFY_CHECKSUM_FLAG = 5"
definition SENDED_FLAG :: nat where "SENDED_FLAG = 6"
definition ACCEPT_ALL_NICKS_FLAG :: nat where "ACCEPT_ALL_NICKS_FLAG = 7"
definition DONT_CONFIRM_OFFSETS_FLAG :: nat where "DONT_CONFIRM_OFFSETS_FLAG = 8"
definition ON_CONNECT_EVENT_DONE :: nat where "ON_CONNECT_EVENT_DONE = 9"

lemmas flag_defs = OUTPUT_FLAG_def ALLOW_ALL_CERTS_FLAG_def USE_IPV4_FLAG_def USE_IPV6_FLAG_def
  VERIFY_CHECKSUM_FLAG_def SENDED_FLAG_def ACCEPT_ALL_NICKS_FLAG_def DONT_CONFIRM_OFFSETS_FLAG_def
  ON_CONNECT_EVENT_DONE_def

section \<open>Flag bits\<close>

definition clear_flag_bit :: "64 word \<Rightarrow> nat \<Rightarrow> 64 word" where
  "clear_flag_bit x bitNum = and x (not (push_bit bitNum 1))"

definition set_flag_bit :: "64 word \<Rightarrow> nat \<Rightarrow> 64 word" where
  "set_flag_bit x bitNum = or x (push_bit bitNum 1)"

definition get_flag_bit :: "64 word \<Rightarrow> nat \<Rightarrow> int" where
  "get_flag_bit x bitNum = uint (and (drop_bit bitNum x) 1)"

definition cfg_clear_bit :: "xdccGetConfig \<Rightarrow> nat \<Rightarrow> xdccGetConfig" where
  "cfg_clear_bit c bitNum = c\<lparr>c_flags := clear_flag_bit (c_flags c) bitNum\<rparr>"

definition cfg_set_bit :: "xdccGetConfig \<Rightarrow> nat \<Rightarrow> xdccGetConfig" where
  "cfg_set_bit c bitNum = c\<lparr>c_flags := set_flag_bit (c_flags c) bitNum\<rparr>"

definition cfg_get_bit :: "xdccGetConfig \<Rightarrow> nat \<Rightarrow> bool" where
  "cfg_get_bit c bitNum \<longleftrightarrow> get_flag_bit (c_flags c) bitNum \<noteq> 0"

text \<open>What the code relies on: the flags are independent of each other.\<close>

locale flag_store =
  fixes get :: "'c \<Rightarrow> nat \<Rightarrow> bool"
    and set_on :: "'c \<Rightarrow> nat \<Rightarrow> 'c"
    and set_off :: "'c \<Rightarrow> nat \<Rightarrow> 'c"
  assumes get_on: "m < 64 \<Longrightarrow> n < 64 \<Longrightarrow> get (set_on c m) n = (n = m \<or> get c n)"
    and get_off: "m < 64 \<Longrightarrow> n < 64 \<Longrightarrow> get (set_off c m) n = (n \<noteq> m \<and> get c n)"
begin

text \<open>A sequence of switches: the last one on a flag decides it.\<close>

fun switch_all :: "(nat \<times> bool) list \<Rightarrow> 'c \<Rightarrow> 'c" where
  "switch_all [] c = c"
| "switch_all ((m, on) # sw) c = switch_all sw (if on then set_on c m else set_off c m)"

lemma switch_all_get:
  "list_all (\<lambda>(m, on). m < 64) sw \<Longrightarrow> n < 64 \<Longrightarrow>
     get (switch_all sw c) n = (case map_of (rev sw) n of None \<Rightarrow> get c n | Some on \<Rightarrow> on)"
  by (induction sw c rule: switch_all.induct)
    (auto simp: get_on get_off map_add_def split: option.splits)

end

lemma get_flag_bit_eq: "get_flag_bit x n = (if bit x n then 1 else 0)"
  by (simp add: get_flag_bit_def and_one_eq mod_2_eq_odd bit_iff_odd_drop_bit)

interpretation cfg_flags: flag_store cfg_get_bit cfg_set_bit cfg_clear_bit
  by unfold_locales
    (auto simp: cfg_get_bit_def cfg_set_bit_def cfg_clear_bit_def get_flag_bit_eq set_flag_bit_def
      clear_flag_bit_def bit_or_iff bit_and_iff bit_not_iff bit_exp_iff)

lemma cfg_bits_frame [simp]:
  "c_logLevel (cfg_set_bit c n) = c_logLevel c" "c_logLevel (cfg_clear_bit c n) = c_logLevel c"
  "c_listen_ip (cfg_set_bit c n) = c_listen_ip c" "c_listen_ip (cfg_clear_bit c n) = c_listen_ip c"
  by (simp_all add: cfg_set_bit_def cfg_clear_bit_def)

text \<open>The configuration flags are independent: after any sequence of \<open>cfg_set_bit\<close> and
  \<open>cfg_clear_bit\<close> calls each flag has the value of the last call on it, and an untouched flag the
  one it had.\<close>

theorem cfg_flags_last_switch:
  assumes "list_all (\<lambda>(m, on). m < 64) sw" and "n < 64"
  shows "cfg_get_bit (cfg_flags.switch_all sw c) n
    = (case map_of (rev sw) n of None \<Rightarrow> cfg_get_bit c n | Some on \<Rightarrow> on)"
  by (rule cfg_flags.switch_all_get [OF assms])

theorem cfg_flags_last_switch_witness:
  "cfg_get_bit (cfg_flags.switch_all [(SENDED_FLAG, True), (OUTPUT_FLAG, True), (OUTPUT_FLAG, False)]
      zero_config) SENDED_FLAG
    = (case map_of (rev [(SENDED_FLAG, True), (OUTPUT_FLAG, True), (OUTPUT_FLAG, False)]) SENDED_FLAG of
         None \<Rightarrow> cfg_get_bit zero_config SENDED_FLAG | Some on \<Rightarrow> on)"
  by (rule cfg_flags_last_switch) (simp_all add: flag_defs)

section \<open>Configuration queries\<close>

definition getListenIp :: "xdccGetConfig \<Rightarrow> string" where
  "getListenIp c = (case c_listen_ip c of Some ip \<Rightarrow> ip | None \<Rightarrow> ''127.0.0.1'')"

definition getListenPort :: "xdccGetConfig \<Rightarrow> nat" where
  "getListenPort c = (if c_listen_port c \<noteq> 0 then unat (c_listen_port c) else 0)"

definition ends_with :: "string \<Rightarrow> string \<Rightarrow> bool" where
  "ends_with str suffix =
     (let len_str = length (cstr str); len_suf = length (cstr suffix) in
      if len_suf > len_str then False
      else str_equals (drop (len_str - len_suf) (cstr str)) suffix)"

text \<open>Whether \<open>logprintf\<close> writes a line of a level.\<close>

definition logprintf_writes :: "xdccGetConfig \<Rightarrow> log_level \<Rightarrow> bool" where
  "logprintf_writes c level =
     (if c_logLevel c = LOG_QUIET then False
      else case level of
        LOG_INFO \<Rightarrow> log_number (c_logLevel c) \<ge> log_number LOG_INFO
      | LOG_WARN \<Rightarrow> log_number (c_logLevel c) \<ge> log_number LOG_WARN
      | LOG_ERR \<Rightarrow> log_number (c_logLevel c) \<ge> log_number LOG_ERR
      | LOG_QUIET \<Rightarrow> True)"

section \<open>Sizes\<close>

text \<open>The loop of \<open>pow_uint64\<close>.\<close>

fun pow_uint64 :: "64 word \<Rightarrow> nat \<Rightarrow> 64 word" where
  "pow_uint64 number 0 = 1"
| "pow_uint64 number (Suc e) = pow_uint64 number e * number"

definition sizeNames :: "string list" where
  "sizeNames = [''Byte'', ''KByte'', ''MByte'', ''GByte'', ''TByte'', ''PByte'']"

fun find_size :: "string \<Rightarrow> string list \<Rightarrow> nat \<Rightarrow> nat option" where
  "find_size sz [] i = None"
| "find_size sz (x # xs) i = (if str_equals sz x then Some i else find_size sz xs (Suc i))"

definition getSizeOf :: "32 word \<Rightarrow> string \<Rightarrow> 64 word" where
  "getSizeOf value sz = (case find_size sz sizeNames 0 of
     None \<Rightarrow> - 1
   | Some i \<Rightarrow> ucast value * pow_uint64 1024 i)"

text \<open>\<open>%d\<close>: an optional sign and digits; the value is kept in 64 bits and stored in 32.\<close>

definition scan_int :: "string \<Rightarrow> (32 word \<times> string) option" where
  "scan_int s =
     (let s = dropWhile is_space s;
          neg = (s \<noteq> [] \<and> hd s = CHR ''-'');
          t = (if s \<noteq> [] \<and> (hd s = CHR ''-'' \<or> hd s = CHR ''+'') then tl s else s);
          ds = takeWhile is_digit t in
      if ds = [] then None
      else let v = int (digits_value 0 ds) in
        Some (word_of_int (if neg then max (- (2 ^ 63)) (- v) else min (2 ^ 63 - 1) v),
              dropWhile is_digit t))"

definition NO_SPEED_LIMIT :: "64 word" where
  "NO_SPEED_LIMIT = 0"

definition setMaxTransferSpeed :: "xdccGetConfig \<Rightarrow> string \<Rightarrow> xdccGetConfig" where
  "setMaxTransferSpeed c value =
     (case scan_int (cstr value) of
        None \<Rightarrow> c\<lparr>c_maxTransferSpeed := NO_SPEED_LIMIT\<rparr>
      | Some (val, rest) \<Rightarrow>
          (case scan_conv (ConvS 100) rest of
             Some (VStr sz, _) \<Rightarrow>
               (let maxSpeed = getSizeOf val sz in
                if maxSpeed > 0 then c\<lparr>c_maxTransferSpeed := maxSpeed\<rparr>
                else c\<lparr>c_maxTransferSpeed := NO_SPEED_LIMIT\<rparr>)
           | _ \<Rightarrow> c\<lparr>c_maxTransferSpeed := NO_SPEED_LIMIT\<rparr>))"

text \<open>\<open>now\<close> is what \<open>time\<close> returns.\<close>

definition setDelay :: "nat \<Rightarrow> xdccGetConfig \<Rightarrow> string \<Rightarrow> xdccGetConfig" where
  "setDelay now c value =
     (let val = (case sscanf [ConvULong] (cstr value) of [VNum v] \<Rightarrow> v | _ \<Rightarrow> 0) in
      c\<lparr>c_sendDelay := Some \<lparr>sendDelayInSecs = val, timeToSendCommand = size_t (now + val)\<rparr>\<rparr>)"

lemma pow_uint64_eq: "pow_uint64 x n = x ^ n"
  by (induction n) (simp_all add: mult.commute)

lemma find_size_nth:
  "distinct xs \<Longrightarrow> list_all is_cstr xs \<Longrightarrow> k < length xs \<Longrightarrow> find_size (xs ! k) xs i = Some (i + k)"
proof (induction xs arbitrary: k i)
  case (Cons x xs)
  then show ?case
    by (cases k) (auto simp: str_equals_def cstr_simps list_all_iff)
qed simp

lemma scan_int_dec:
  assumes "v < 2 ^ 63" and "r = [] \<or> \<not> is_digit (hd r)"
  shows "scan_int (dec v @ r) = Some (of_nat v, r)"
proof -
  obtain c cs where c: "dec v = c # cs" using dec_nonempty [of v] by (cases "dec v") auto
  with dec_hd_digit [of v] have d: "is_digit c" by simp
  then have sign: "c \<noteq> CHR ''-''" "c \<noteq> CHR ''+''" "\<not> is_space c"
    using is_space_not_digit by (auto simp: is_digit_def char_code_def)
  have "min (2 ^ 63 - 1) (int v) = int v" using assms(1) by simp
  then show ?thesis
    using takeWhile_digits_dec [OF assms(2), of v] digits_value_dec [of v] sign c d
    by (simp add: scan_int_def Let_def)
qed

lemma sizeNames_props: "distinct sizeNames \<and> list_all is_cstr sizeNames \<and> length sizeNames = 6
   \<and> list_all (\<lambda>s. s \<noteq> [] \<and> list_all (\<lambda>c. \<not> is_space c) s \<and> \<not> is_digit (hd s) \<and> length s \<le> 100) sizeNames"
  by code_simp

text \<open>The text of a speed limit, a number with one of the six units, sets the limit to the
  number times the power of 1024 of the unit, in 64 bits; when that product is zero there is no
  limit, which is the same value.\<close>

theorem setMaxTransferSpeed_meaning:
  assumes "k < 6" and "v < 2 ^ 32"
  shows "c_maxTransferSpeed (setMaxTransferSpeed c (dec v @ sizeNames ! k)) = of_nat v * 1024 ^ k"
proof -
  let ?sz = "sizeNames ! k"
  have k: "k < length sizeNames" using assms(1) sizeNames_props by simp
  have sz: "is_cstr ?sz" "?sz \<noteq> []" "list_all (\<lambda>c. \<not> is_space c) ?sz" "\<not> is_digit (hd ?sz)" "length ?sz \<le> 100"
    using sizeNames_props k by (simp_all add: list_all_length)
  have "cstr (dec v @ ?sz) = dec v @ ?sz" using sz(1) by (simp add: cstr_simps)
  moreover have "scan_int (dec v @ ?sz) = Some (of_nat v, ?sz)"
    by (rule scan_int_dec) (use assms(2) sz in auto)
  moreover have "scan_conv (ConvS 100) ?sz = Some (VStr ?sz, [])"
    using scan_conv_word [OF sz(2,3,5), of "[]"] by simp
  moreover have "getSizeOf (of_nat v) ?sz = of_nat v * 1024 ^ k"
    using find_size_nth [OF _ _ k, of 0] sizeNames_props assms(2)
    by (simp add: getSizeOf_def pow_uint64_eq unsigned_of_nat take_bit_nat_eq_self)
  ultimately show ?thesis
    by (simp add: setMaxTransferSpeed_def Let_def NO_SPEED_LIMIT_def word_gt_0)
qed

theorem setMaxTransferSpeed_meaning_witness:
  "c_maxTransferSpeed (setMaxTransferSpeed zero_config (dec 3 @ sizeNames ! 2)) = of_nat 3 * 1024 ^ 2"
  by (rule setMaxTransferSpeed_meaning) simp_all

section \<open>Transfer speeds\<close>

definition saveCurrentSpeed :: "dccCurrentSpeed \<Rightarrow> nat \<Rightarrow> dccCurrentSpeed" where
  "saveCurrentSpeed st speed =
     (let st = st\<lparr>curSpeed := (curSpeed st)[speedIndex st := speed]\<rparr>;
          st = st\<lparr>speedIndex := (speedIndex st + 1) mod NUM_AVERAGE_SPEED_VALUES\<rparr> in
      if \<not> isSpeedArrayFilled st \<and> speedIndex st = 0 then st\<lparr>isSpeedArrayFilled := True\<rparr> else st)"

text \<open>The averaging loop over the array; the first sample is taken as it is.\<close>

fun average_from :: "nat \<Rightarrow> nat list \<Rightarrow> nat" where
  "average_from acc [] = acc"
| "average_from acc (x # xs) = average_from (size_t (acc + x) div 2) xs"

definition getAverageSpeed :: "dccCurrentSpeed \<Rightarrow> nat \<Rightarrow> nat" where
  "getAverageSpeed st speed =
     (if isSpeedArrayFilled st
      then average_from (size_t (0 + hd (curSpeed st))) (tl (curSpeed st))
      else speed)"

definition newDccProgress :: "string \<Rightarrow> nat \<Rightarrow> dccDownloadProgress" where
  "newDccProgress path complFileSize = \<lparr>completeFileSize = complFileSize, sizeRcvd = 0, sizeNow = 0,
     sizeLast = 0, averageSpeed = 0, completePath = path,
     pr_curSpeed = \<lparr>curSpeed = replicate NUM_AVERAGE_SPEED_VALUES 0, speedIndex = 0,
                    isSpeedArrayFilled = False\<rparr>\<rparr>"

text \<open>The state \<open>outputProgress\<close> keeps between two lines of output.\<close>

definition outputProgress :: "dccDownloadProgress \<Rightarrow> dccDownloadProgress" where
  "outputProgress p =
     (let p = p\<lparr>sizeLast := sizeNow p\<rparr>;
          p = p\<lparr>sizeNow := sizeRcvd p\<rparr>;
          speed = size_sub (sizeNow p) (sizeLast p) in
      if sizeRcvd p > 0
      then (let st = saveCurrentSpeed (pr_curSpeed p) speed in
            p\<lparr>pr_curSpeed := st, averageSpeed := getAverageSpeed st speed\<rparr>)
      else p)"

text \<open>The ring: after the samples \<open>xs\<close> the array holds the last eight of them, each at its index
  modulo eight.\<close>

definition ring :: "dccCurrentSpeed \<Rightarrow> nat list \<Rightarrow> bool" where
  "ring st xs \<longleftrightarrow> length (curSpeed st) = 8 \<and> speedIndex st = length xs mod 8
     \<and> isSpeedArrayFilled st = (8 \<le> length xs)
     \<and> (\<forall>i < length xs. length xs \<le> i + 8 \<longrightarrow> curSpeed st ! (i mod 8) = xs ! i)"

lemma mod8_eq: "n < i + 8 \<Longrightarrow> i < n \<Longrightarrow> (i::nat) mod 8 \<noteq> n mod 8"
proof
  assume a: "n < i + 8" "i < n" "i mod 8 = n mod 8"
  then have "(n - i) mod 8 = 0" by (metis mod_eq_dvd_iff_nat less_imp_le mod_0_imp_dvd dvd_imp_mod_0)
  then show False using a by (simp add: mod_less)
qed

lemma ring_save: "ring st xs \<Longrightarrow> ring (saveCurrentSpeed st x) (xs @ [x])"
proof -
  assume r: "ring st xs"
  have idx: "(Suc (length xs) mod 8 = 0) = (Suc (length xs) mod 8 = 0 \<and> 8 \<le> Suc (length xs))"
    by (metis Suc_neq_Zero linorder_not_less mod_less)
  have "curSpeed (saveCurrentSpeed st x) = (curSpeed st)[length xs mod 8 := x]"
    using r by (simp add: saveCurrentSpeed_def ring_def Let_def)
  moreover have "speedIndex (saveCurrentSpeed st x) = Suc (length xs) mod 8"
    using r by (simp add: saveCurrentSpeed_def ring_def Let_def NUM_AVERAGE_SPEED_VALUES_def mod_Suc_eq)
  moreover have "isSpeedArrayFilled (saveCurrentSpeed st x) = (8 \<le> Suc (length xs))"
    using r idx
    by (auto simp: saveCurrentSpeed_def ring_def Let_def NUM_AVERAGE_SPEED_VALUES_def mod_Suc_eq
        not_le less_Suc_eq dest: le_antisym)
  moreover have "(curSpeed st)[length xs mod 8 := x] ! (i mod 8) = (xs @ [x]) ! i"
    if "i < Suc (length xs)" "Suc (length xs) \<le> i + 8" for i
  proof (cases "i = length xs")
    case True
    then show ?thesis using r by (simp add: ring_def)
  next
    case False
    then have "i mod 8 \<noteq> length xs mod 8" using mod8_eq that by simp
    then show ?thesis using r that False by (simp add: ring_def nth_append)
  qed
  ultimately show ?thesis using r by (simp add: ring_def)
qed

lemma ring_saves: "ring st ys \<Longrightarrow> ring (foldl saveCurrentSpeed st xs) (ys @ xs)"
proof (induction xs arbitrary: st ys)
  case (Cons x xs)
  from Cons.IH [OF ring_save [OF Cons.prems]] show ?case by simp
qed simp

lemma ring_new: "ring (pr_curSpeed (newDccProgress path n)) []"
  by (simp add: ring_def newDccProgress_def NUM_AVERAGE_SPEED_VALUES_def)

lemma average_from_bounds:
  "lo \<le> acc \<Longrightarrow> acc \<le> hi \<Longrightarrow> \<forall>x \<in> set xs. lo \<le> x \<and> x \<le> hi \<Longrightarrow> hi < 2 ^ 63 \<Longrightarrow>
     lo \<le> average_from acc xs \<and> average_from acc xs \<le> hi"
proof (induction xs arbitrary: acc)
  case (Cons x xs)
  have "size_t (acc + x) = acc + x" using Cons.prems by (simp add: SIZE_MOD_def)
  moreover have "lo \<le> (acc + x) div 2" "(acc + x) div 2 \<le> hi" using Cons.prems by auto
  ultimately show ?case using Cons.IH [of "(acc + x) div 2"] Cons.prems by simp
qed simp

lemma ring_set:
  assumes "ring st xs" and "8 \<le> length xs"
  shows "set (curSpeed st) \<subseteq> set (drop (length xs - 8) xs)"
proof
  fix y
  assume "y \<in> set (curSpeed st)"
  then obtain j where j: "j < 8" "curSpeed st ! j = y"
    using assms(1) by (auto simp: ring_def in_set_conv_nth)
  define i where "i = length xs - 8 + (j + 8 - (length xs - 8) mod 8) mod 8"
  have lt: "i < length xs" "length xs \<le> i + 8" using assms(2) by (simp_all add: i_def)
  have "i mod 8 = ((length xs - 8) mod 8 + (j + 8 - (length xs - 8) mod 8)) mod 8"
    unfolding i_def by (simp only: mod_add_eq mod_add_left_eq mod_add_right_eq)
  also have "(length xs - 8) mod 8 + (j + 8 - (length xs - 8) mod 8) = j + 8"
    using mod_less_divisor [of 8 "length xs - 8"] by linarith
  finally have "i mod 8 = j" using j by simp
  then have "xs ! i = y" using assms(1) lt j by (auto simp: ring_def)
  then have "drop (length xs - 8) xs ! (i - (length xs - 8)) = y" and "i - (length xs - 8) < 8"
    using lt by (simp_all add: i_def)
  then show "y \<in> set (drop (length xs - 8) xs)"
    using assms(2) by (metis (no_types, lifting) diff_diff_cancel length_drop nth_mem)
qed

text \<open>The average speed shown is computed from the last eight samples only: with at least
  eight samples it lies between the smallest and the largest of the last eight, and before that
  it is the current speed.\<close>

theorem average_speed_of_last_eight:
  assumes "\<forall>x \<in> set (drop (length xs - 8) xs). lo \<le> x \<and> x \<le> hi" and "hi < 2 ^ 63"
  shows "if 8 \<le> length xs
    then lo \<le> getAverageSpeed (foldl saveCurrentSpeed (pr_curSpeed (newDccProgress path n)) xs) s
       \<and> getAverageSpeed (foldl saveCurrentSpeed (pr_curSpeed (newDccProgress path n)) xs) s \<le> hi
    else getAverageSpeed (foldl saveCurrentSpeed (pr_curSpeed (newDccProgress path n)) xs) s = s"
proof -
  let ?st = "foldl saveCurrentSpeed (pr_curSpeed (newDccProgress path n)) xs"
  have r: "ring ?st xs" using ring_saves [OF ring_new] by simp
  show ?thesis
  proof (cases "8 \<le> length xs")
    case True
    have "length (curSpeed ?st) = 8" using r by (simp add: ring_def)
    then obtain a as where cs: "curSpeed ?st = a # as" by (cases "curSpeed ?st") auto
    then have b: "lo \<le> a \<and> a \<le> hi" "\<forall>x \<in> set as. lo \<le> x \<and> x \<le> hi"
      using ring_set [OF r True] assms(1) by auto
    have "size_t a = a" using b assms(2) by (simp add: SIZE_MOD_def)
    moreover have "isSpeedArrayFilled ?st" using r True by (simp add: ring_def)
    ultimately show ?thesis using cs average_from_bounds [of lo a hi as] b assms(2) True
      by (simp add: getAverageSpeed_def)
  next
    case False
    then show ?thesis using r by (simp add: ring_def getAverageSpeed_def)
  qed
qed

theorem average_speed_of_last_eight_witness:
  "if 8 \<le> length [900, 5, 6, 7, 8, 9, 8, 7, 6::nat]
    then 5 \<le> getAverageSpeed (foldl saveCurrentSpeed (pr_curSpeed (newDccProgress [] 0)) [900, 5, 6, 7, 8, 9, 8, 7, 6]) 6
       \<and> getAverageSpeed (foldl saveCurrentSpeed (pr_curSpeed (newDccProgress [] 0)) [900, 5, 6, 7, 8, 9, 8, 7, 6]) 6 \<le> 9
    else getAverageSpeed (foldl saveCurrentSpeed (pr_curSpeed (newDccProgress [] 0)) [900, 5, 6, 7, 8, 9, 8, 7, 6]) 6 = 6"
  by (rule average_speed_of_last_eight) simp_all

end
