(* ===== verification/World.thy ===== *)
theory World
  imports Session_Io Config
begin

text \<open>
  The state the library's handlers share: the heap blocks of the parsed line, the parser result
  of \<open>irc_line_parser.h\<close>, the session, the configuration, the answers of the operating system
  and the client's own state \<open>'a\<close>, with the callbacks of \<open>libirc_events.h\<close>. A run that leaves
  the behaviour of C, or calls \<open>exit\<close>, ends in a \<open>stop\<close>.
\<close>

section \<open>Heap blocks\<close>

type_synonym addr = nat

datatype stop =
    NullDeref
  | UseAfterFree addr
  | DoubleFree addr
  | OutOfBounds
  | ExitPgm int
  | ParserOverrun
  | Uninitialised

text \<open>A block holds the characters that were allocated, terminator included.\<close>

record heap =
  h_next :: addr
  h_cells :: "addr \<Rightarrow> string option"

definition heap_alloc :: "string \<Rightarrow> heap \<Rightarrow> addr \<times> heap" where
  "heap_alloc block h = (h_next h, h\<lparr>h_next := Suc (h_next h), h_cells := (h_cells h)(h_next h \<mapsto> block)\<rparr>)"

definition heap_block :: "heap \<Rightarrow> addr option \<Rightarrow> stop + string" where
  "heap_block h p = (case p of None \<Rightarrow> Inl NullDeref
     | Some a \<Rightarrow> (case h_cells h a of None \<Rightarrow> Inl (UseAfterFree a) | Some b \<Rightarrow> Inr b))"

text \<open>The C string at a pointer, and \<open>n\<close> bytes of its block from an offset on.\<close>

definition heap_str :: "heap \<Rightarrow> addr option \<Rightarrow> stop + string" where
  "heap_str h p = and_then (heap_block h p) (\<lambda>b. Inr (cstr b))"

definition heap_bytes :: "heap \<Rightarrow> addr option \<Rightarrow> nat \<Rightarrow> nat \<Rightarrow> stop + string" where
  "heap_bytes h p off n = and_then (heap_block h p) (\<lambda>b.
     if off + n \<le> length b then Inr (take n (drop off b)) else Inl OutOfBounds)"

text \<open>\<open>free\<close> and the macro \<open>FREE\<close>, which skips \<open>NULL\<close>.\<close>

definition heap_free :: "addr option \<Rightarrow> heap \<Rightarrow> stop + heap" where
  "heap_free p h = (case p of None \<Rightarrow> Inr h
     | Some a \<Rightarrow> (if h_cells h a = None then Inl (DoubleFree a)
                  else Inr (h\<lparr>h_cells := (h_cells h)(a := None)\<rparr>)))"

section \<open>The parsed line\<close>

definition MAX_PARAMS_ALLOWED :: nat where
  "MAX_PARAMS_ALLOWED = 100"

record irc_parser_result =
  r_nick :: "addr option"
  r_name :: "addr option"
  r_host :: "addr option"
  r_command :: "addr option"
  r_num_params :: nat
  r_params :: "addr option list"

definition empty_result :: irc_parser_result where
  "empty_result = \<lparr>r_nick = None, r_name = None, r_host = None, r_command = None,
     r_num_params = 0, r_params = replicate (MAX_PARAMS_ALLOWED + 1) None\<rparr>"

section \<open>Answers of the operating system\<close>

text \<open>
  Each kind of call takes the next answer of its own tape: return codes of socket calls, data
  reads and writes, steps of a TLS handshake and whether \<open>SSL_pending\<close> reports bytes. When a
  tape is used up the system answers with failure, or with no pending bytes.
\<close>

datatype interest = FDW_READ | FDW_WRITE

record os =
  os_rets :: "int list"
  os_reads :: "read_answer list"
  os_writes :: "write_answer list"
  os_handshake :: "ssl_error option list"
  os_pending :: "bool list"
  os_ready :: "(int \<times> interest) list"
  os_watch :: "(int \<times> interest option) list"
  os_sent :: "(int \<times> string) list"
  os_time :: nat

record 'a world =
  w_heap :: heap
  w_result :: irc_parser_result
  w_session :: irc_session
  w_cfg :: xdccGetConfig
  w_os :: os
  w_app :: 'a

definition os_ret :: "'a world \<Rightarrow> int \<times> 'a world" where
  "os_ret w = (case os_rets (w_os w) of
     [] \<Rightarrow> (-1, w)
   | r # rs \<Rightarrow> (r, w\<lparr>w_os := (w_os w)\<lparr>os_rets := rs\<rparr>\<rparr>))"

definition os_read :: "'a world \<Rightarrow> read_answer \<times> 'a world" where
  "os_read w = (case os_reads (w_os w) of
     [] \<Rightarrow> (ReadClosed, w)
   | r # rs \<Rightarrow> (r, w\<lparr>w_os := (w_os w)\<lparr>os_reads := rs\<rparr>\<rparr>))"

definition os_write :: "'a world \<Rightarrow> write_answer \<times> 'a world" where
  "os_write w = (case os_writes (w_os w) of
     [] \<Rightarrow> (WriteClosed, w)
   | r # rs \<Rightarrow> (r, w\<lparr>w_os := (w_os w)\<lparr>os_writes := rs\<rparr>\<rparr>))"

definition fdwatch_check_fd :: "'a world \<Rightarrow> int \<Rightarrow> interest \<Rightarrow> bool" where
  "fdwatch_check_fd w fd i \<longleftrightarrow> (fd, i) \<in> set (os_ready (w_os w))"

definition on_session :: "(irc_session \<Rightarrow> irc_session) \<Rightarrow> 'a world \<Rightarrow> 'a world" where
  "on_session f w = w\<lparr>w_session := f (w_session w)\<rparr>"

definition w_send :: "(irc_session \<Rightarrow> irc_session \<times> int) \<Rightarrow> 'a world \<Rightarrow> 'a world \<times> int" where
  "w_send cmd w = (case cmd (w_session w) of (s, r) \<Rightarrow> (w\<lparr>w_session := s\<rparr>, r))"

lemma os_ret_frame [simp]:
  "w_heap (snd (os_ret w)) = w_heap w" "w_result (snd (os_ret w)) = w_result w"
  "w_session (snd (os_ret w)) = w_session w" "w_cfg (snd (os_ret w)) = w_cfg w"
  "w_app (snd (os_ret w)) = w_app w"
  by (simp_all add: os_ret_def split: list.splits)

lemma on_session_sel [simp]:
  "w_session (on_session f w) = f (w_session w)" "w_heap (on_session f w) = w_heap w"
  "w_result (on_session f w) = w_result w" "w_cfg (on_session f w) = w_cfg w"
  "w_os (on_session f w) = w_os w" "w_app (on_session f w) = w_app w"
  by (simp_all add: on_session_def)

section \<open>Callbacks\<close>

text \<open>
  \<open>irc_callbacks_t\<close>; an entry that is \<open>NULL\<close> is \<open>None\<close>. An event gets its name and acts on the
  world, whose parser result is its argument. \<open>dcc_cb\<close> and \<open>dcc_reverse_cb\<close> are the functions a
  DCC session may hold, by name: they get the session's id, a status, the client's context, the
  data or \<open>NULL\<close>, a length, and for the reverse one the nick, the file name and the token.
\<close>

type_synonym 'a event = "string \<Rightarrow> 'a world \<Rightarrow> stop + 'a world"

record 'a irc_callbacks =
  event_connect :: "'a event option"
  event_nick :: "'a event option"
  event_quit :: "'a event option"
  event_join :: "'a event option"
  event_part :: "'a event option"
  event_mode :: "'a event option"
  event_umode :: "'a event option"
  event_topic :: "'a event option"
  event_kick :: "'a event option"
  event_channel :: "'a event option"
  event_privmsg :: "'a event option"
  event_notice :: "'a event option"
  event_channel_notice :: "'a event option"
  event_invite :: "'a event option"
  event_ctcp_req :: "'a event option"
  event_ctcp_rep :: "'a event option"
  event_ctcp_action :: "'a event option"
  event_unknown :: "'a event option"
  event_numeric :: "(nat \<Rightarrow> 'a world \<Rightarrow> stop + 'a world) option"
  event_dcc_send_req :: "(addr option \<Rightarrow> string \<Rightarrow> string \<Rightarrow> nat \<Rightarrow> nat \<Rightarrow> 'a world \<Rightarrow> stop + 'a world) option"
  event_dcc_send_req_reverse ::
    "(addr option \<Rightarrow> string \<Rightarrow> string \<Rightarrow> nat \<Rightarrow> nat \<Rightarrow> nat \<Rightarrow> 'a world \<Rightarrow> stop + 'a world) option"
  verify_incoming_dcc_requests_req :: "(addr option \<Rightarrow> 'a world \<Rightarrow> stop + bool) option"
  keep_alive_callback :: "('a world \<Rightarrow> stop + 'a world) option"
  dcc_cb :: "dcc_callback \<Rightarrow> nat \<Rightarrow> int \<Rightarrow> nat option \<Rightarrow> string option \<Rightarrow> nat \<Rightarrow> 'a world \<Rightarrow> stop + 'a world"
  dcc_reverse_cb :: "dcc_callback \<Rightarrow> nat \<Rightarrow> int \<Rightarrow> nat option \<Rightarrow> string option \<Rightarrow> nat \<Rightarrow> addr option
    \<Rightarrow> string \<Rightarrow> nat \<Rightarrow> 'a world \<Rightarrow> stop + 'a world"

text \<open>Calling an event that may be missing.\<close>

definition fire :: "'a event option \<Rightarrow> string \<Rightarrow> 'a world \<Rightarrow> stop + 'a world" where
  "fire ev name w = (case ev of None \<Rightarrow> Inr w | Some f \<Rightarrow> f name w)"

text \<open>Reading the parser result.\<close>

definition result_param :: "'a world \<Rightarrow> nat \<Rightarrow> stop + string" where
  "result_param w i = heap_str (w_heap w) (r_params (w_result w) ! i)"

definition on_result :: "(irc_parser_result \<Rightarrow> irc_parser_result) \<Rightarrow> 'a world \<Rightarrow> 'a world" where
  "on_result f w = w\<lparr>w_result := f (w_result w)\<rparr>"

definition alloc_str :: "string \<Rightarrow> 'a world \<Rightarrow> addr \<times> 'a world" where
  "alloc_str block w = (case heap_alloc block (w_heap w) of (a, h) \<Rightarrow> (a, w\<lparr>w_heap := h\<rparr>))"

definition free_ptr :: "addr option \<Rightarrow> 'a world \<Rightarrow> stop + 'a world" where
  "free_ptr p w = and_then (heap_free p (w_heap w)) (\<lambda>h. Inr (w\<lparr>w_heap := h\<rparr>))"

text \<open>A world before anything happened, and callbacks that are all missing.\<close>

definition fresh_world :: "irc_session \<Rightarrow> xdccGetConfig \<Rightarrow> 'a \<Rightarrow> 'a world" where
  "fresh_world s c app = \<lparr>w_heap = \<lparr>h_next = 0, h_cells = (\<lambda>a. None)\<rparr>, w_result = empty_result, w_session = s,
     w_cfg = c, w_os = \<lparr>os_rets = [], os_reads = [], os_writes = [], os_handshake = [], os_pending = [],
       os_ready = [], os_watch = [], os_sent = [], os_time = 0\<rparr>, w_app = app\<rparr>"

definition no_callbacks :: "'a irc_callbacks" where
  "no_callbacks = \<lparr>event_connect = None, event_nick = None, event_quit = None, event_join = None,
     event_part = None, event_mode = None, event_umode = None, event_topic = None, event_kick = None,
     event_channel = None, event_privmsg = None, event_notice = None, event_channel_notice = None,
     event_invite = None, event_ctcp_req = None, event_ctcp_rep = None, event_ctcp_action = None,
     event_unknown = None, event_numeric = None, event_dcc_send_req = None,
     event_dcc_send_req_reverse = None, verify_incoming_dcc_requests_req = None,
     keep_alive_callback = None,
     dcc_cb = (\<lambda>f i st c d n w. Inr w), dcc_reverse_cb = (\<lambda>f i st c d n nick file token w. Inr w)\<rparr>"

section \<open>Addresses as text\<close>

text \<open>\<open>inet_ntoa\<close> on an address in host order, and \<open>inet_pton\<close> for IPv4: four decimal numbers up
  to 255 without leading zeros.\<close>

definition inet_ntoa :: "nat \<Rightarrow> string" where
  "inet_ntoa ip = dec (ip div 2 ^ 24 mod 256) @ ''.'' @ dec (ip div 2 ^ 16 mod 256) @ ''.''
     @ dec (ip div 2 ^ 8 mod 256) @ ''.'' @ dec (ip mod 256)"

fun split_on :: "char \<Rightarrow> string \<Rightarrow> string list" where
  "split_on x [] = [[]]"
| "split_on x (c # cs) = (if c = x then [] # split_on x cs
     else (case split_on x cs of [] \<Rightarrow> [[c]] | t # ts \<Rightarrow> (c # t) # ts))"

definition octet :: "string \<Rightarrow> nat option" where
  "octet s = (if s \<noteq> [] \<and> length s \<le> 3 \<and> list_all is_digit s \<and> (length s = 1 \<or> hd s \<noteq> CHR ''0'')
     \<and> digits_value 0 s \<le> 255 then Some (digits_value 0 s) else None)"

definition inet_pton :: "string \<Rightarrow> nat option" where
  "inet_pton s = (case map octet (split_on (CHR ''.'') (cstr s)) of
     [Some a, Some b, Some c, Some d] \<Rightarrow> Some (((a * 256 + b) * 256 + c) * 256 + d)
   | _ \<Rightarrow> None)"

lemma split_on_none: "x \<notin> set s \<Longrightarrow> split_on x s = [s]"
  by (induction s) auto

lemma split_on_append: "x \<notin> set s \<Longrightarrow> split_on x (s @ x # t) = s # split_on x t"
  by (induction s) auto

lemma dec_lead: "0 < n \<Longrightarrow> hd (dec n) \<noteq> CHR ''0''"
proof (induction n rule: dec.induct)
  case (1 n)
  show ?case
  proof (cases "n < 10")
    case True
    then have "char_code (hd (dec n)) = 48 + n" by (subst dec.simps) (simp add: char_code_digit_char)
    moreover have "char_code (CHR ''0'') = 48" by (simp add: char_code_def)
    ultimately show ?thesis using "1.prems" by auto
  next
    case False
    then have "dec n = dec (n div 10) @ [digit_char (n mod 10)]" by (subst dec.simps) simp
    then have "hd (dec n) = hd (dec (n div 10))" by (simp add: hd_append)
    then show ?thesis using "1.IH" [OF False] False by simp
  qed
qed

lemma octet_dec: "n < 256 \<Longrightarrow> octet (dec n) = Some n"
proof -
  assume n: "n < 256"
  have "length (dec n) \<le> 3" using dec_bound [of n 3] n by simp
  moreover have "length (dec n) = 1 \<or> hd (dec n) \<noteq> CHR ''0''"
    using dec_lead [of n] dec_zero by (cases "n = 0") auto
  ultimately show ?thesis using n dec_digits [of n] by (simp add: octet_def digits_value_dec)
qed

lemma dec_no_dot: "CHR ''.'' \<notin> set (dec n)"
proof -
  have "\<not> is_digit (CHR ''.'')" by (simp add: is_digit_def char_code_def)
  then show ?thesis using dec_digits [of n] by (auto simp: list_all_iff)
qed

text \<open>The printed form of every IPv4 address is read back as that address.\<close>

lemma inet_pton_ntoa:
  "inet_pton (inet_ntoa ip) = Some (ip mod 2 ^ 32)"
proof -
  have "cstr (inet_ntoa ip) = inet_ntoa ip"
    by (rule cstr_id) (simp add: inet_ntoa_def cstr_simps)
  then have *: "map octet (split_on (CHR ''.'') (cstr (inet_ntoa ip)))
    = [Some (ip div 2 ^ 24 mod 256), Some (ip div 2 ^ 16 mod 256), Some (ip div 2 ^ 8 mod 256), Some (ip mod 256)]"
    by (simp add: inet_ntoa_def split_on_append split_on_none dec_no_dot octet_dec)
  have "((ip div 2 ^ 24 mod 256 * 256 + ip div 2 ^ 16 mod 256) * 256 + ip div 2 ^ 8 mod 256) * 256 + ip mod 256
    = ip mod 2 ^ 32"
    using mod_mult2_eq [of ip 256 "2 ^ 24"] mod_mult2_eq [of "ip div 256" 256 "2 ^ 16"]
      mod_mult2_eq [of "ip div 256 div 256" 256 256] by (simp add: div_mult2_eq [symmetric])
  then show ?thesis by (simp only: inet_pton_def * list.case option.case)
qed

end
