(* ===== verification/Dcc.thy ===== *)
theory Dcc
  imports World
begin

text \<open>
  DCC sessions, \<open>libircclient-src/dcc.c\<close>: the list of sessions and its lock, the parsing of DCC
  requests, accepting, resuming and declining them, receiving a file and confirming offsets. A
  pointer to a DCC session is its \<open>id\<close>, which is unique while fewer than \<open>2 ^ 32\<close> sessions have
  been made. \<open>s_mutex_dcc\<close> is the number of times the lock is held.
\<close>

section \<open>The list and its lock\<close>

definition lock_dcc :: "irc_session \<Rightarrow> irc_session" where
  "lock_dcc s = s\<lparr>s_mutex_dcc := s_mutex_dcc s + 1\<rparr>"

definition unlock_dcc :: "irc_session \<Rightarrow> irc_session" where
  "unlock_dcc s = s\<lparr>s_mutex_dcc := s_mutex_dcc s - 1\<rparr>"

text \<open>The loop of the three searches; a search that locks keeps the lock when it finds something.\<close>

definition find_dcc :: "(irc_dcc_session \<Rightarrow> bool) \<Rightarrow> bool \<Rightarrow> irc_session \<Rightarrow> irc_session \<times> irc_dcc_session option" where
  "find_dcc P lock_list s =
     (let s = (if lock_list then lock_dcc s else s);
          found = find P (s_dcc_sessions s) in
      (if found = None \<and> lock_list then unlock_dcc s else s, found))"

definition libirc_find_dcc_session :: "irc_session \<Rightarrow> nat \<Rightarrow> bool \<Rightarrow> irc_session \<times> irc_dcc_session option" where
  "libirc_find_dcc_session s dccid lock_list = find_dcc (\<lambda>d. d_id d = dccid) lock_list s"

definition libirc_find_dcc_session_by_port :: "irc_session \<Rightarrow> nat \<Rightarrow> bool \<Rightarrow> irc_session \<times> irc_dcc_session option" where
  "libirc_find_dcc_session_by_port s port lock_list = find_dcc (\<lambda>d. d_remote_port d = port) lock_list s"

definition libirc_find_dcc_session_by_token :: "irc_session \<Rightarrow> nat \<Rightarrow> bool \<Rightarrow> irc_session \<times> irc_dcc_session option" where
  "libirc_find_dcc_session_by_token s token lock_list =
     find_dcc (\<lambda>d. d_passive_connection d \<and> d_token d = token) lock_list s"

definition dcc_at :: "irc_session \<Rightarrow> nat \<Rightarrow> irc_dcc_session option" where
  "dcc_at s dccid = find (\<lambda>d. d_id d = dccid) (s_dcc_sessions s)"

definition upd_dcc :: "nat \<Rightarrow> (irc_dcc_session \<Rightarrow> irc_dcc_session) \<Rightarrow> irc_session \<Rightarrow> irc_session" where
  "upd_dcc dccid f s = s\<lparr>s_dcc_sessions :=
     map (\<lambda>d. if d_id d = dccid then f d else d) (s_dcc_sessions s)\<rparr>"

definition set_dcc_state :: "nat \<Rightarrow> libirc_state \<Rightarrow> irc_session \<Rightarrow> irc_session" where
  "set_dcc_state dccid st = upd_dcc dccid (\<lambda>d. d\<lparr>d_state := st\<rparr>)"

definition set_error :: "libirc_error \<Rightarrow> irc_session \<Rightarrow> irc_session" where
  "set_error e s = s\<lparr>s_lasterror := e\<rparr>"

definition libirc_dcc_destroy_nolock :: "irc_session \<Rightarrow> nat \<Rightarrow> irc_session" where
  "libirc_dcc_destroy_nolock s dccid =
     (case libirc_find_dcc_session s dccid False of
        (s, None) \<Rightarrow> s
      | (s, Some _) \<Rightarrow> upd_dcc dccid (\<lambda>d. d\<lparr>d_sock := -1, d_state := LIBIRC_STATE_REMOVED\<rparr>) s)"

definition libirc_remove_dcc_session :: "irc_session \<Rightarrow> nat \<Rightarrow> bool \<Rightarrow> irc_session" where
  "libirc_remove_dcc_session s dccid lock_list =
     (let s = (if lock_list then lock_dcc s else s);
          s = s\<lparr>s_dcc_sessions := filter (\<lambda>d. d_id d \<noteq> dccid) (s_dcc_sessions s)\<rparr> in
      if lock_list then unlock_dcc s else s)"

definition irc_dcc_destroy :: "irc_session \<Rightarrow> nat \<Rightarrow> irc_session \<times> int" where
  "irc_dcc_destroy s dccid =
     (case libirc_find_dcc_session s dccid True of
        (s, None) \<Rightarrow> (s, 1)
      | (s, Some _) \<Rightarrow>
          (unlock_dcc (upd_dcc dccid (\<lambda>d. d\<lparr>d_sock := -1, d_state := LIBIRC_STATE_REMOVED\<rparr>) s), 0))"

section \<open>Receiving\<close>

text \<open>The callback of a session, called with the client's context.\<close>

definition call_dcc_cb ::
  "'a irc_callbacks \<Rightarrow> nat \<Rightarrow> int \<Rightarrow> string option \<Rightarrow> nat \<Rightarrow> 'a world \<Rightarrow> stop + 'a world" where
  "call_dcc_cb cbs dccid status data len w =
     (case dcc_at (w_session w) dccid of
        None \<Rightarrow> Inl (UseAfterFree dccid)
      | Some d \<Rightarrow> (case d_cb d of None \<Rightarrow> Inl NullDeref
          | Some f \<Rightarrow> dcc_cb cbs f dccid status (d_ctx d) data len w))"

text \<open>The callback is called outside the lock.\<close>

definition report_dcc ::
  "'a irc_callbacks \<Rightarrow> nat \<Rightarrow> int \<Rightarrow> string option \<Rightarrow> nat \<Rightarrow> 'a world \<Rightarrow> stop + 'a world" where
  "report_dcc cbs dccid status data len w =
     and_then (call_dcc_cb cbs dccid status data len (on_session unlock_dcc w))
       (\<lambda>w. Inr (on_session lock_dcc w))"

text \<open>One turn of the loop of \<open>recv_dcc_file\<close>; the flag says whether the loop looks for more.\<close>

definition recv_dcc_turn :: "'a irc_callbacks \<Rightarrow> nat \<Rightarrow> 'a world \<Rightarrow> stop + ('a world \<times> bool)" where
  "recv_dcc_turn cbs dccid w =
     (case dcc_at (w_session w) dccid of
        None \<Rightarrow> Inl (UseAfterFree dccid)
      | Some d \<Rightarrow>
          (case os_read w of (r, w) \<Rightarrow>
             let failed = (\<lambda>err. and_then (report_dcc cbs dccid (errcode err) None 0 w)
                   (\<lambda>w. Inr (on_session (\<lambda>s. libirc_dcc_destroy_nolock s dccid) w, False))) in
             case r of
               ReadBytes xs \<Rightarrow>
                 if xs = [] then failed LIBIRC_ERR_CLOSED
                 else and_then
                   (call_dcc_cb cbs dccid 0 (Some xs) (length xs)
                     (on_session (\<lambda>s. upd_dcc dccid
                        (\<lambda>d. d\<lparr>d_file_confirm_offset := size_t (d_file_confirm_offset d + length xs)\<rparr>)
                        (unlock_dcc s)) w))
                   (\<lambda>w. Inr (on_session (\<lambda>s. lock_dcc (set_dcc_state dccid
                        (if cfg_get_bit (w_cfg w) DONT_CONFIRM_OFFSETS_FLAG
                         then LIBIRC_STATE_CONNECTED else LIBIRC_STATE_CONFIRM_SIZE) s)) w, True))
             | ReadClosed \<Rightarrow> failed LIBIRC_ERR_CLOSED
             | ReadError e \<Rightarrow>
                 if \<not> d_ssl d then failed LIBIRC_ERR_READ
                 else (case e of
                     SSL_ERROR_WANT_READ \<Rightarrow> Inr (w, False)
                   | SSL_ERROR_WANT_WRITE \<Rightarrow>
                       Inr (on_session (set_dcc_state dccid LIBIRC_STATE_CONFIRM_SIZE) w, False)
                   | SSL_ERROR_FATAL _ \<Rightarrow> failed LIBIRC_ERR_READ)))"

definition has_ssl :: "'a world \<Rightarrow> nat \<Rightarrow> bool" where
  "has_ssl w dccid = (case dcc_at (w_session w) dccid of None \<Rightarrow> False | Some d \<Rightarrow> d_ssl d)"

text \<open>The loop follows the answers of \<open>SSL_pending\<close>.\<close>

fun recv_dcc_loop :: "'a irc_callbacks \<Rightarrow> nat \<Rightarrow> bool list \<Rightarrow> 'a world \<Rightarrow> stop + 'a world" where
  "recv_dcc_loop cbs dccid [] w = and_then (recv_dcc_turn cbs dccid w) (\<lambda>(w, more). Inr w)"
| "recv_dcc_loop cbs dccid (p # ps) w =
     and_then (recv_dcc_turn cbs dccid w) (\<lambda>(w, more).
       if more \<and> has_ssl w dccid
       then (let w = w\<lparr>w_os := (w_os w)\<lparr>os_pending := ps\<rparr>\<rparr> in
             if p then recv_dcc_loop cbs dccid ps w else Inr w)
       else Inr w)"

definition recv_dcc_file :: "'a irc_callbacks \<Rightarrow> nat \<Rightarrow> 'a world \<Rightarrow> stop + 'a world" where
  "recv_dcc_file cbs dccid w = recv_dcc_loop cbs dccid (os_pending (w_os w)) w"

text \<open>The confirmed offset, cut to 32 bits, in network byte order.\<close>

definition be32 :: "nat \<Rightarrow> string" where
  "be32 n = map char_of [n div 2 ^ 24 mod 256, n div 2 ^ 16 mod 256, n div 2 ^ 8 mod 256, n mod 256]"

definition note_sent :: "int \<Rightarrow> string \<Rightarrow> 'a world \<Rightarrow> 'a world" where
  "note_sent fd xs w = w\<lparr>w_os := (w_os w)\<lparr>os_sent := os_sent (w_os w) @ [(fd, xs)]\<rparr>\<rparr>"

definition send_current_file_offset_to_sender :: "'a irc_callbacks \<Rightarrow> nat \<Rightarrow> 'a world \<Rightarrow> stop + 'a world" where
  "send_current_file_offset_to_sender cbs dccid w =
     (case dcc_at (w_session w) dccid of
        None \<Rightarrow> Inl (UseAfterFree dccid)
      | Some d \<Rightarrow>
          (case os_write w of (r, w) \<Rightarrow>
             let failed = (\<lambda>err. report_dcc cbs dccid (errcode err) None 0 w) in
             case r of
               Written n \<Rightarrow>
                 if n = 0 then failed LIBIRC_ERR_CLOSED
                 else (let w = note_sent (d_sock d) (take n (be32 (d_file_confirm_offset d))) w in
                   if d_received_file_size d = d_file_confirm_offset d
                   then and_then (report_dcc cbs dccid 0 None 0 w)
                          (\<lambda>w. Inr (on_session (\<lambda>s. libirc_dcc_destroy_nolock s dccid) w))
                   else Inr (on_session (set_dcc_state dccid LIBIRC_STATE_CONNECTED) w))
             | WriteClosed \<Rightarrow> failed LIBIRC_ERR_CLOSED
             | WriteError e \<Rightarrow>
                 if \<not> d_ssl d then failed LIBIRC_ERR_WRITE
                 else (case e of
                     SSL_ERROR_WANT_READ \<Rightarrow> Inr (on_session (set_dcc_state dccid LIBIRC_STATE_CONNECTED) w)
                   | SSL_ERROR_WANT_WRITE \<Rightarrow> Inr w
                   | SSL_ERROR_FATAL _ \<Rightarrow> failed LIBIRC_ERR_WRITE)))"

section \<open>The state machine of a session\<close>

text \<open>What the main loop waits for in each state.\<close>

definition dcc_interest :: "libirc_state \<Rightarrow> interest option" where
  "dcc_interest st = (case st of
     LIBIRC_STATE_CONNECTING \<Rightarrow> Some FDW_WRITE
   | LIBIRC_STATE_CONNECTED \<Rightarrow> Some FDW_READ
   | LIBIRC_STATE_CONFIRM_SIZE \<Rightarrow> Some FDW_WRITE
   | LIBIRC_STATE_INIT_PASSIVE \<Rightarrow> Some FDW_READ
   | _ \<Rightarrow> None)"

text \<open>The first loop of \<open>libirc_dcc_add_descriptors\<close> runs over the list it shrinks; \<open>dcc_next\<close> is
  read before a session is freed.\<close>

fun remove_unused :: "irc_dcc_session list \<Rightarrow> irc_session \<Rightarrow> irc_session" where
  "remove_unused [] s = s"
| "remove_unused (d # ds) s = remove_unused ds
     (if d_state d = LIBIRC_STATE_REMOVED then libirc_remove_dcc_session s (d_id d) False else s)"

definition libirc_dcc_add_descriptors :: "'a world \<Rightarrow> 'a world" where
  "libirc_dcc_add_descriptors w =
     (let w = on_session lock_dcc w;
          w = on_session (\<lambda>s. remove_unused (s_dcc_sessions s) s) w;
          w = w\<lparr>w_os := (w_os w)\<lparr>os_watch := os_watch (w_os w) @
                map (\<lambda>d. (d_sock d, dcc_interest (d_state d))) (s_dcc_sessions (w_session w))\<rparr>\<rparr> in
      on_session unlock_dcc w)"

definition handleConnectingState :: "nat \<Rightarrow> irc_dcc_session \<Rightarrow> 'a world \<Rightarrow> 'a world" where
  "handleConnectingState dccid d w =
     (if fdwatch_check_fd w (d_sock d) FDW_WRITE
      then (case os_ret w of (peer, w) \<Rightarrow>
         if peer < 0 then on_session (\<lambda>s. libirc_dcc_destroy_nolock s dccid) w
         else on_session (set_dcc_state dccid LIBIRC_STATE_CONNECTED) w)
      else w)"

definition handleConnectedState :: "'a irc_callbacks \<Rightarrow> nat \<Rightarrow> irc_dcc_session \<Rightarrow> 'a world \<Rightarrow> stop + 'a world" where
  "handleConnectedState cbs dccid d w =
     (if fdwatch_check_fd w (d_sock d) FDW_READ then recv_dcc_file cbs dccid w else Inr w)"

definition handleConfirmSizeState :: "'a irc_callbacks \<Rightarrow> nat \<Rightarrow> irc_dcc_session \<Rightarrow> 'a world \<Rightarrow> stop + 'a world" where
  "handleConfirmSizeState cbs dccid d w =
     (if fdwatch_check_fd w (d_sock d) FDW_WRITE then send_current_file_offset_to_sender cbs dccid w else Inr w)"

definition handleInitPassiveState :: "nat \<Rightarrow> irc_dcc_session \<Rightarrow> 'a world \<Rightarrow> 'a world" where
  "handleInitPassiveState dccid d w =
     (if fdwatch_check_fd w (d_sock d) FDW_READ
      then (case os_ret w of (sock, w) \<Rightarrow>
        (case os_ret w of (nonblocking, w) \<Rightarrow>
          on_session (upd_dcc dccid (\<lambda>d. d\<lparr>d_sock := sock, d_state := LIBIRC_STATE_CONNECTED\<rparr>)) w))
      else w)"

definition process_dcc :: "'a irc_callbacks \<Rightarrow> nat \<Rightarrow> 'a world \<Rightarrow> stop + 'a world" where
  "process_dcc cbs dccid w =
     (case dcc_at (w_session w) dccid of
        None \<Rightarrow> Inl (UseAfterFree dccid)
      | Some d \<Rightarrow> (case d_state d of
            LIBIRC_STATE_CONNECTING \<Rightarrow> Inr (handleConnectingState dccid d w)
          | LIBIRC_STATE_CONNECTED \<Rightarrow> handleConnectedState cbs dccid d w
          | LIBIRC_STATE_CONFIRM_SIZE \<Rightarrow> handleConfirmSizeState cbs dccid d w
          | LIBIRC_STATE_INIT_PASSIVE \<Rightarrow> Inr (handleInitPassiveState dccid d w)
          | _ \<Rightarrow> Inr w))"

text \<open>New sessions go to the front of the list and nothing leaves it here, so the walk visits the
  sessions the list had when it began.\<close>

fun process_dccs :: "'a irc_callbacks \<Rightarrow> nat list \<Rightarrow> 'a world \<Rightarrow> stop + 'a world" where
  "process_dccs cbs [] w = Inr w"
| "process_dccs cbs (i # is) w = and_then (process_dcc cbs i w) (process_dccs cbs is)"

definition libirc_dcc_process_descriptors :: "'a irc_callbacks \<Rightarrow> 'a world \<Rightarrow> stop + 'a world" where
  "libirc_dcc_process_descriptors cbs w =
     (let w = on_session lock_dcc w in
      and_then (process_dccs cbs (map d_id (s_dcc_sessions (w_session w))) w)
        (\<lambda>w. Inr (on_session unlock_dcc w)))"

section \<open>New sessions\<close>

text \<open>The new session's id, or \<open>None\<close> for \<open>LIBIRC_ERR_SOCKET\<close>. With TLS, a context that cannot be
  set up ends the program.\<close>

definition libirc_new_dcc_session ::
  "'a world \<Rightarrow> nat \<Rightarrow> nat \<Rightarrow> nat option \<Rightarrow> bool \<Rightarrow> stop + ('a world \<times> nat option)" where
  "libirc_new_dcc_session w ip port ctx ssl =
     (case os_ret w of (sock, w) \<Rightarrow>
        if sock < 0 then Inr (w, None)
        else (case os_ret w of (nonblocking, w) \<Rightarrow>
          if nonblocking \<noteq> 0 then Inr (w, None)
          else (case (if ssl then os_ret w else (0, w)) of (ssl_rc, w) \<Rightarrow>
            if ssl_rc \<noteq> 0 then Inl (ExitPgm (-1))
            else (let s = lock_dcc (w_session w);
                      dccid = s_dcc_last_id s;
                      d = \<lparr>d_id = dccid, d_passive_connection = False, d_token = 0, d_ctx = ctx,
                           d_sock = sock, d_state = LIBIRC_STATE_INIT, d_ssl = ssl,
                           d_received_file_size = 0, d_file_confirm_offset = 0,
                           d_remote_ip = ip mod 2 ^ 32, d_remote_port = port mod 2 ^ 16,
                           d_cb = None, d_reverse_cb = None\<rparr>;
                      s = s\<lparr>s_dcc_last_id := (s_dcc_last_id s + 1) mod 2 ^ 32,
                            s_dcc_sessions := d # s_dcc_sessions s\<rparr> in
                  Inr (w\<lparr>w_session := unlock_dcc s\<rparr>, Some dccid)))))"

text \<open>\<open>inet_ntoa\<close> of the address a session stores.\<close>

definition dcc_addr :: "'a world \<Rightarrow> nat \<Rightarrow> string" where
  "dcc_addr w dccid = (case dcc_at (w_session w) dccid of None \<Rightarrow> [] | Some d \<Rightarrow> inet_ntoa (d_remote_ip d))"

definition accept_dcc_send ::
  "'a irc_callbacks \<Rightarrow> addr option \<Rightarrow> string \<Rightarrow> nat \<Rightarrow> nat \<Rightarrow> nat \<Rightarrow> bool \<Rightarrow> 'a world \<Rightarrow> stop + 'a world" where
  "accept_dcc_send cbs nick filename ip fsize port ssl w =
     (case event_dcc_send_req cbs of
        None \<Rightarrow> Inr w
      | Some f \<Rightarrow> and_then (libirc_new_dcc_session w ip port None ssl) (\<lambda>(w, r). case r of
            None \<Rightarrow> Inr (on_session (set_error LIBIRC_ERR_SOCKET) w)
          | Some dccid \<Rightarrow>
              and_then (f nick (dcc_addr w dccid) filename fsize dccid w)
                (\<lambda>w. Inr (on_session (upd_dcc dccid (\<lambda>d. d\<lparr>d_received_file_size := fsize\<rparr>)) w))))"

definition accept_reverse_dcc_send ::
  "'a irc_callbacks \<Rightarrow> addr option \<Rightarrow> string \<Rightarrow> nat \<Rightarrow> nat \<Rightarrow> nat \<Rightarrow> bool \<Rightarrow> 'a world \<Rightarrow> stop + 'a world" where
  "accept_reverse_dcc_send cbs nick filename ip fsize token ssl w =
     and_then (libirc_new_dcc_session w ip 0 None ssl) (\<lambda>(w, r). case r of
        None \<Rightarrow> Inr (on_session (set_error LIBIRC_ERR_SOCKET) w)
      | Some dccid \<Rightarrow>
          (let w = on_session (upd_dcc dccid (\<lambda>d. d\<lparr>d_passive_connection := True, d_token := token\<rparr>)) w in
           case os_ret w of (bound, w) \<Rightarrow>
             if bound = -1 then Inr (on_session (set_error LIBIRC_BIND_FAILED) w)
             else (case os_ret w of (listening, w) \<Rightarrow>
               if listening = -1 then Inr (on_session (set_error LIBIRC_LISTEN_FAILED) w)
               else (case event_dcc_send_req_reverse cbs of
                   None \<Rightarrow> Inl NullDeref
                 | Some f \<Rightarrow> f nick (dcc_addr w dccid) filename fsize dccid token w))))"

section \<open>Requests\<close>

datatype dcc_request =
    ReverseSend string nat nat nat        \<comment> \<open>file, address, size, token\<close>
  | Send string nat nat nat bool          \<comment> \<open>file, address, port, size, TLS\<close>
  | AcceptReverse nat nat                 \<comment> \<open>size, token\<close>
  | Accept nat nat                        \<comment> \<open>port, size\<close>
  | UnhandledDcc

definition filename_word :: scan_directive where
  "filename_word = ConvS LIBIRC_BUFFER_SIZE"

text \<open>The formats of \<open>libirc_dcc_request\<close>.\<close>

definition fmt_reverse_send :: "scan_directive list" where
  "fmt_reverse_send = lits ''DCC SEND '' @ [filename_word, White, ConvULong] @ lits '' 0 '' @
     [ConvULong, White, ConvULong]"

definition fmt_send :: "scan_directive list" where
  "fmt_send = lits ''DCC SEND '' @ [filename_word, White, ConvULong, White, ConvUShort, White, ConvULong]"

definition fmt_send_quoted :: "scan_directive list" where
  "fmt_send_quoted = lits ''DCC SEND '' @ [Lit (CHR 0x22), ConvNotIn LIBIRC_BUFFER_SIZE (CHR 0x22),
     Lit (CHR 0x22), White, ConvULong, White, ConvUShort, White, ConvULong]"

definition fmt_send_no_size :: "scan_directive list" where
  "fmt_send_no_size = lits ''DCC SEND '' @ [filename_word, White, ConvULong, White, ConvUShort]"

definition fmt_ssend :: "scan_directive list" where
  "fmt_ssend = lits ''DCC SSEND '' @ [filename_word, White, ConvULong, White, ConvUShort, White, ConvULong]"

definition fmt_accept_reverse :: "scan_directive list" where
  "fmt_accept_reverse = lits ''DCC ACCEPT file.ext 0 '' @ [ConvULong, White, ConvULong]"

definition fmt_accept :: "scan_directive list" where
  "fmt_accept = lits ''DCC ACCEPT file.ext '' @ [ConvUShort, White, ConvULong]"

text \<open>The values when \<open>sscanf\<close> assigned all of them.\<close>

fun scanned_snnn :: "scan_value list \<Rightarrow> (string \<times> nat \<times> nat \<times> nat) option" where
  "scanned_snnn [VStr f, VNum a, VNum b, VNum c] = Some (f, a, b, c)"
| "scanned_snnn _ = None"

fun scanned_snn :: "scan_value list \<Rightarrow> (string \<times> nat \<times> nat) option" where
  "scanned_snn [VStr f, VNum a, VNum b] = Some (f, a, b)"
| "scanned_snn _ = None"

fun scanned_nn :: "scan_value list \<Rightarrow> (nat \<times> nat) option" where
  "scanned_nn [VNum a, VNum b] = Some (a, b)"
| "scanned_nn _ = None"

text \<open>The formats in the order the code tries them.\<close>

definition parse_dcc_request :: "string \<Rightarrow> dcc_request" where
  "parse_dcc_request req =
     (case scanned_snnn (sscanf fmt_reverse_send req) of
        Some (f, ip, fsize, token) \<Rightarrow> ReverseSend f ip fsize token
      | None \<Rightarrow>
     (case scanned_snnn (sscanf fmt_send req) of
        Some (f, ip, port, fsize) \<Rightarrow> Send f ip port fsize False
      | None \<Rightarrow>
     (case scanned_snnn (sscanf fmt_send_quoted req) of
        Some (f, ip, port, fsize) \<Rightarrow> Send f ip port fsize False
      | None \<Rightarrow>
     (case scanned_snn (sscanf fmt_send_no_size req) of
        Some (f, ip, port) \<Rightarrow> Send f ip port 0 False
      | None \<Rightarrow>
     (case scanned_snnn (sscanf fmt_ssend req) of
        Some (f, ip, port, fsize) \<Rightarrow> Send f ip port fsize True
      | None \<Rightarrow>
     (case scanned_nn (sscanf fmt_accept_reverse req) of
        Some (fsize, token) \<Rightarrow> AcceptReverse fsize token
      | None \<Rightarrow>
     (case scanned_nn (sscanf fmt_accept req) of
        Some (port, fsize) \<Rightarrow> Accept port fsize
      | None \<Rightarrow> UnhandledDcc)))))))"

text \<open>The answer to a request to resume. A session in another state is left with the lock held.\<close>

definition handle_dcc_accept_reverse ::
  "'a irc_callbacks \<Rightarrow> addr option \<Rightarrow> nat \<Rightarrow> nat \<Rightarrow> 'a world \<Rightarrow> stop + 'a world" where
  "handle_dcc_accept_reverse cbs nick fsize token w =
     (case libirc_find_dcc_session_by_token (w_session w) token True of
        (s, None) \<Rightarrow> Inr (w\<lparr>w_session := s\<rparr>)
      | (s, Some d) \<Rightarrow>
          if d_state d \<noteq> LIBIRC_STATE_WAITING_FOR_RESUME_ACK then Inr (w\<lparr>w_session := s\<rparr>)
          else (let w = w\<lparr>w_session := unlock_dcc (upd_dcc (d_id d)
                      (\<lambda>d. d\<lparr>d_state := LIBIRC_STATE_INIT_PASSIVE, d_file_confirm_offset := fsize\<rparr>) s)\<rparr> in
                case d_reverse_cb d of
                  None \<Rightarrow> Inl NullDeref
                | Some f \<Rightarrow> dcc_reverse_cb cbs f (d_id d) 1 (d_ctx d) None fsize nick ''file.ext'' token w))"

definition handle_dcc_accept ::
  "'a irc_callbacks \<Rightarrow> nat \<Rightarrow> nat \<Rightarrow> 'a world \<Rightarrow> stop + 'a world" where
  "handle_dcc_accept cbs port fsize w =
     (case libirc_find_dcc_session_by_port (w_session w) port True of
        (s, None) \<Rightarrow> Inr (w\<lparr>w_session := s\<rparr>)
      | (s, Some d) \<Rightarrow>
          if d_state d \<noteq> LIBIRC_STATE_WAITING_FOR_RESUME_ACK then Inr (w\<lparr>w_session := s\<rparr>)
          else (let w = w\<lparr>w_session := unlock_dcc (upd_dcc (d_id d)
                      (\<lambda>d. d\<lparr>d_state := LIBIRC_STATE_INIT, d_file_confirm_offset := fsize\<rparr>) s)\<rparr> in
                case d_cb d of
                  None \<Rightarrow> Inl NullDeref
                | Some f \<Rightarrow> dcc_cb cbs f (d_id d) 1 (d_ctx d) None fsize w))"

definition libirc_dcc_request :: "'a irc_callbacks \<Rightarrow> string \<Rightarrow> 'a world \<Rightarrow> stop + 'a world" where
  "libirc_dcc_request cbs req w =
     (let nick = r_nick (w_result w);
          handle = (\<lambda>w. case parse_dcc_request (cstr req) of
              ReverseSend f ip fsize token \<Rightarrow> accept_reverse_dcc_send cbs nick f ip fsize token False w
            | Send f ip port fsize ssl \<Rightarrow> accept_dcc_send cbs nick f ip fsize port ssl w
            | AcceptReverse fsize token \<Rightarrow> handle_dcc_accept_reverse cbs nick fsize token w
            | Accept port fsize \<Rightarrow> handle_dcc_accept cbs port fsize w
            | UnhandledDcc \<Rightarrow> Inr w) in
      case verify_incoming_dcc_requests_req cbs of
        None \<Rightarrow> handle w
      | Some v \<Rightarrow> and_then (v nick w) (\<lambda>ok. if ok then handle w else Inr w))"

section \<open>The client's operations\<close>

text \<open>The handshake loop: want-read and want-write repeat it.\<close>

fun ssl_connect_loop :: "ssl_error option list \<Rightarrow> bool \<times> ssl_error option list" where
  "ssl_connect_loop [] = (False, [])"
| "ssl_connect_loop (None # hs) = (True, hs)"
| "ssl_connect_loop (Some (SSL_ERROR_FATAL r) # hs) = (False, hs)"
| "ssl_connect_loop (Some _ # hs) = ssl_connect_loop hs"

definition irc_dcc_accept ::
  "'a world \<Rightarrow> nat \<Rightarrow> nat option \<Rightarrow> dcc_callback \<Rightarrow> 'a world \<times> int" where
  "irc_dcc_accept w dccid ctx callback =
     (case libirc_find_dcc_session (w_session w) dccid True of
        (s, None) \<Rightarrow> (w\<lparr>w_session := s\<rparr>, 1)
      | (s, Some d) \<Rightarrow>
          if d_state d \<noteq> LIBIRC_STATE_INIT
          then (w\<lparr>w_session := unlock_dcc (set_error LIBIRC_ERR_STATE s)\<rparr>, 1)
          else (let s = upd_dcc dccid (\<lambda>d. d\<lparr>d_cb := Some callback, d_ctx := ctx\<rparr>) s in
            case os_ret (w\<lparr>w_session := s\<rparr>) of (rc, w) \<Rightarrow>
              if rc \<noteq> 0
              then (w\<lparr>w_session := set_error LIBIRC_ERR_CONNECT (unlock_dcc (libirc_dcc_destroy_nolock s dccid))\<rparr>, 1)
              else if d_ssl d
              then (case ssl_connect_loop (os_handshake (w_os w)) of (ok, hs) \<Rightarrow>
                let w = w\<lparr>w_os := (w_os w)\<lparr>os_handshake := hs\<rparr>\<rparr> in
                if ok then (on_session (\<lambda>s. unlock_dcc (set_dcc_state dccid LIBIRC_STATE_CONNECTED s)) w, 0)
                else (on_session (set_error LIBIRC_ERR_CONNECT) w, 1))
              else (on_session (\<lambda>s. unlock_dcc (set_dcc_state dccid LIBIRC_STATE_CONNECTING s)) w, 0)))"

definition resume_reverse_text :: "nat \<Rightarrow> nat \<Rightarrow> string" where
  "resume_reverse_text filePosition token =
     take 511 (''DCC RESUME file.ext 0 '' @ dec filePosition @ '' '' @ dec token)"

definition irc_dcc_resume_reverse ::
  "'a world \<Rightarrow> nat \<Rightarrow> nat option \<Rightarrow> dcc_callback \<Rightarrow> string option \<Rightarrow> nat \<Rightarrow> nat \<Rightarrow> 'a world \<times> int" where
  "irc_dcc_resume_reverse w dccid ctx callback nick filePosition token =
     (case libirc_find_dcc_session (w_session w) dccid True of
        (s, None) \<Rightarrow> (w\<lparr>w_session := s\<rparr>, 1)
      | (s, Some d) \<Rightarrow>
          if d_state d \<noteq> LIBIRC_STATE_INIT
          then (w\<lparr>w_session := unlock_dcc (set_error LIBIRC_ERR_STATE s)\<rparr>, 1)
          else (let s = upd_dcc dccid (\<lambda>d. d\<lparr>d_reverse_cb := Some callback, d_ctx := ctx\<rparr>) s;
                    s = fst (irc_cmd_ctcp_request s nick (Some (resume_reverse_text filePosition token))) in
                (w\<lparr>w_session := unlock_dcc (set_dcc_state dccid LIBIRC_STATE_WAITING_FOR_RESUME_ACK s)\<rparr>, 0)))"

text \<open>The answer to a reverse request: a plain one with our own address and the peer's token.\<close>

definition accept_reverse_text :: "string \<Rightarrow> nat \<Rightarrow> nat \<Rightarrow> nat \<Rightarrow> nat \<Rightarrow> string" where
  "accept_reverse_text filename ip port fsize token = take 4095
     (if CHR '' '' \<in> set (cstr filename)
      then ''DCC SEND '' @ [CHR 0x22] @ cstr filename @ [CHR 0x22] @ '' '' @ dec ip @ '' '' @ dec port @ '' '' @ dec fsize @ '' '' @ dec token
      else ''DCC SEND '' @ cstr filename @ '' '' @ dec ip @ '' '' @ dec port @ '' '' @ dec fsize @ '' '' @ dec token)"

definition irc_dcc_accept_reverse ::
  "'a world \<Rightarrow> nat \<Rightarrow> nat option \<Rightarrow> dcc_callback \<Rightarrow> string option \<Rightarrow> string \<Rightarrow> nat \<Rightarrow> nat \<Rightarrow> 'a world \<times> int" where
  "irc_dcc_accept_reverse w dccid ctx callback nick filename fsize token =
     (case libirc_find_dcc_session (w_session w) dccid True of
        (s, None) \<Rightarrow> (w\<lparr>w_session := s\<rparr>, 1)
      | (s, Some d) \<Rightarrow>
          if d_state d \<noteq> LIBIRC_STATE_INIT
          then (w\<lparr>w_session := unlock_dcc (set_error LIBIRC_ERR_STATE s)\<rparr>, 1)
          else (case inet_pton (getListenIp (w_cfg w)) of
              None \<Rightarrow> (w\<lparr>w_session := set_error LIBIRC_LISTEN_IP_INVALID s\<rparr>, 1)
            | Some ip \<Rightarrow>
                (let s = fst (irc_cmd_ctcp_request s nick
                       (Some (accept_reverse_text filename ip (getListenPort (w_cfg w)) fsize token)));
                     s = upd_dcc dccid (\<lambda>d. d\<lparr>d_state := LIBIRC_STATE_INIT_PASSIVE, d_cb := Some callback, d_ctx := ctx\<rparr>) s in
                 (w\<lparr>w_session := unlock_dcc s\<rparr>, 0))))"

definition resume_text :: "nat \<Rightarrow> nat \<Rightarrow> string" where
  "resume_text port filePosition = take 511 (''DCC RESUME file.ext '' @ dec port @ '' '' @ dec filePosition)"

definition irc_dcc_resume ::
  "'a world \<Rightarrow> nat \<Rightarrow> nat option \<Rightarrow> dcc_callback \<Rightarrow> string option \<Rightarrow> nat \<Rightarrow> 'a world \<times> int" where
  "irc_dcc_resume w dccid ctx callback nick filePosition =
     (case libirc_find_dcc_session (w_session w) dccid True of
        (s, None) \<Rightarrow> (w\<lparr>w_session := s\<rparr>, 1)
      | (s, Some d) \<Rightarrow>
          if d_state d \<noteq> LIBIRC_STATE_INIT
          then (w\<lparr>w_session := unlock_dcc (set_error LIBIRC_ERR_STATE s)\<rparr>, 1)
          else (let s = upd_dcc dccid (\<lambda>d. d\<lparr>d_cb := Some callback, d_ctx := ctx\<rparr>) s;
                    s = fst (irc_cmd_ctcp_request s nick (Some (resume_text (d_remote_port d) filePosition))) in
                (w\<lparr>w_session := unlock_dcc (set_dcc_state dccid LIBIRC_STATE_WAITING_FOR_RESUME_ACK s)\<rparr>, 0)))"

definition irc_dcc_decline :: "irc_session \<Rightarrow> nat \<Rightarrow> irc_session \<times> int" where
  "irc_dcc_decline s dccid =
     (case libirc_find_dcc_session s dccid True of
        (s, None) \<Rightarrow> (s, 1)
      | (s, Some d) \<Rightarrow>
          if d_state d \<noteq> LIBIRC_STATE_INIT then (unlock_dcc (set_error LIBIRC_ERR_STATE s), 1)
          else (unlock_dcc (libirc_dcc_destroy_nolock s dccid), 0))"

end
