(* ===== verification/Commands.thy ===== *)
theory Commands
  imports Dcc
begin

text \<open>
  The handlers of the IRC commands, \<open>libircclient-src/commands.c\<close>, and the built-in reply to CTCP
  requests of \<open>utils.c\<close>. A handler acts on the parsed line through its pointers, so a parameter
  that is missing, freed or too short is a \<open>stop\<close>.
\<close>

section \<open>Finding the handler\<close>

datatype irc_command_id =
    CmdPing | CmdNick | CmdQuit | CmdJoin | CmdPart | CmdMode | CmdTopic | CmdKick
  | CmdPrivmsg | CmdNotice | CmdInvite | CmdKill | CmdUnknown

definition commands :: "(string \<times> irc_command_id) list" where
  "commands = [(''PING'', CmdPing), (''NICK'', CmdNick), (''QUIT'', CmdQuit), (''JOIN'', CmdJoin),
     (''PART'', CmdPart), (''MODE'', CmdMode), (''TOPIC'', CmdTopic), (''KICK'', CmdKick),
     (''PRIVMSG'', CmdPrivmsg), (''NOTICE'', CmdNotice), (''INVITE'', CmdInvite), (''KILL'', CmdKill)]"

fun find_command :: "(string \<times> irc_command_id) list \<Rightarrow> string \<Rightarrow> nat \<Rightarrow> irc_command_id" where
  "find_command [] commandString n = CmdUnknown"
| "find_command ((name, c) # cs) commandString n =
     (if strn_equals commandString name n then c else find_command cs commandString n)"

definition get_command :: "string \<Rightarrow> nat \<Rightarrow> irc_command_id" where
  "get_command commandString n = (if n = 0 then CmdUnknown else find_command commands commandString n)"

section \<open>Small handlers\<close>

definition irc_ping_command :: "'a irc_callbacks \<Rightarrow> string \<Rightarrow> 'a world \<Rightarrow> stop + 'a world" where
  "irc_ping_command cbs command w =
     (if r_params (w_result w) ! 0 = None then Inr w
      else and_then (result_param w 0) (\<lambda>t.
        Inr (fst (w_send (\<lambda>s. irc_send_raw s (''PONG '' @ t)) w))))"

text \<open>\<open>session->nick\<close> as a string; it is \<open>NULL\<close> before a connection.\<close>

definition own_nick :: "'a world \<Rightarrow> stop + string" where
  "own_nick w = (case s_nick (w_session w) of None \<Rightarrow> Inl NullDeref | Some n \<Rightarrow> Inr (cstr n))"

definition irc_nick_command :: "'a irc_callbacks \<Rightarrow> string \<Rightarrow> 'a world \<Rightarrow> stop + 'a world" where
  "irc_nick_command cbs command w =
     and_then (own_nick w) (\<lambda>nick.
     and_then (heap_str (w_heap w) (r_nick (w_result w))) (\<lambda>from.
     and_then
       (if strn_equals from nick (length nick) \<and> r_num_params (w_result w) > 0
        then and_then (result_param w 0) (\<lambda>t. Inr (on_session (\<lambda>s. s\<lparr>s_nick := Some t\<rparr>) w))
        else Inr w) (\<lambda>w.
     fire (event_nick cbs) command w)))"

definition irc_quit_command :: "'a irc_callbacks \<Rightarrow> string \<Rightarrow> 'a world \<Rightarrow> stop + 'a world" where
  "irc_quit_command cbs command w = fire (event_quit cbs) command w"

definition irc_join_command :: "'a irc_callbacks \<Rightarrow> string \<Rightarrow> 'a world \<Rightarrow> stop + 'a world" where
  "irc_join_command cbs command w = fire (event_join cbs) command w"

definition irc_part_command :: "'a irc_callbacks \<Rightarrow> string \<Rightarrow> 'a world \<Rightarrow> stop + 'a world" where
  "irc_part_command cbs command w = fire (event_part cbs) command w"

definition irc_mode_command :: "'a irc_callbacks \<Rightarrow> string \<Rightarrow> 'a world \<Rightarrow> stop + 'a world" where
  "irc_mode_command cbs command w =
     and_then
       (if r_num_params (w_result w) > 0
        then and_then (own_nick w) (\<lambda>nick. and_then (result_param w 0) (\<lambda>t.
               Inr (strn_equals t nick (length nick))))
        else Inr False) (\<lambda>own.
     if own
     then fire (event_umode cbs) command
            (on_result (\<lambda>r. r\<lparr>r_params := (r_params r)[0 := r_params r ! 1], r_num_params := 1\<rparr>) w)
     else fire (event_mode cbs) command w)"

definition irc_topic_command :: "'a irc_callbacks \<Rightarrow> string \<Rightarrow> 'a world \<Rightarrow> stop + 'a world" where
  "irc_topic_command cbs command w = fire (event_topic cbs) command w"

definition irc_kick_command :: "'a irc_callbacks \<Rightarrow> string \<Rightarrow> 'a world \<Rightarrow> stop + 'a world" where
  "irc_kick_command cbs command w = fire (event_kick cbs) command w"

definition irc_invite_command :: "'a irc_callbacks \<Rightarrow> string \<Rightarrow> 'a world \<Rightarrow> stop + 'a world" where
  "irc_invite_command cbs command w = fire (event_invite cbs) command w"

definition irc_kill_command :: "'a irc_callbacks \<Rightarrow> string \<Rightarrow> 'a world \<Rightarrow> stop + 'a world" where
  "irc_kill_command cbs command w = Inr w"

definition irc_unknown_command :: "'a irc_callbacks \<Rightarrow> string \<Rightarrow> 'a world \<Rightarrow> stop + 'a world" where
  "irc_unknown_command cbs command w = fire (event_unknown cbs) command w"

section \<open>Messages and CTCP\<close>

definition is_dcc_request :: "string \<Rightarrow> bool" where
  "is_dcc_request s \<longleftrightarrow> strncase_equals s ''DCC '' 4"

definition is_action_message :: "string \<Rightarrow> bool" where
  "is_action_message s \<longleftrightarrow> strncase_equals s ''ACTION '' 7"

text \<open>The last character is read only when the first is the CTCP mark, so the string is not empty.\<close>

definition is_ctcp_request :: "string \<Rightarrow> bool" where
  "is_ctcp_request s \<longleftrightarrow> s \<noteq> [] \<and> hd s = SOH \<and> last s = SOH"

definition is_private_message :: "string \<Rightarrow> string \<Rightarrow> bool" where
  "is_private_message s nick \<longleftrightarrow> strncase_equals s nick (length nick)"

text \<open>The number of bytes taken from between the marks; the subtraction wraps around for a message
  of one character.\<close>

definition ctcp_length :: "nat \<Rightarrow> nat \<Rightarrow> nat" where
  "ctcp_length msglen bufsize = min (size_sub msglen 2) (bufsize - 1)"

definition handle_ctcp_request :: "'a irc_callbacks \<Rightarrow> 'a world \<Rightarrow> stop + 'a world" where
  "handle_ctcp_request cbs w =
     and_then (result_param w 1) (\<lambda>msg.
     and_then (heap_bytes (w_heap w) (r_params (w_result w) ! 1) 1 (ctcp_length (length msg) LIBIRC_BUFFER_SIZE)) (\<lambda>bytes.
     let ctcp_buf = cstr bytes in
     if is_dcc_request ctcp_buf then libirc_dcc_request cbs ctcp_buf w
     else if is_action_message ctcp_buf \<and> event_ctcp_action cbs \<noteq> None then
       (case alloc_str (drop 7 ctcp_buf @ replicate 8 NUL) w of (a, w) \<Rightarrow>
          fire (event_ctcp_action cbs) ''ACTION''
            (on_result (\<lambda>r. r\<lparr>r_params := (r_params r)[1 := Some a], r_num_params := 2\<rparr>) w))
     else
       (case alloc_str (ctcp_buf @ [NUL]) w of (a, w) \<Rightarrow>
          fire (event_ctcp_req cbs) ''CTCP''
            (on_result (\<lambda>r. r\<lparr>r_params := (r_params r)[0 := Some a], r_num_params := 1\<rparr>) w))))"

definition irc_privmsg_command :: "'a irc_callbacks \<Rightarrow> string \<Rightarrow> 'a world \<Rightarrow> stop + 'a world" where
  "irc_privmsg_command cbs command w =
     (if r_num_params (w_result w) \<le> 1 then Inr w
      else and_then (result_param w 1) (\<lambda>msg.
        if is_ctcp_request msg then handle_ctcp_request cbs w
        else and_then (own_nick w) (\<lambda>nick. and_then (result_param w 0) (\<lambda>target.
          if is_private_message target nick then fire (event_privmsg cbs) ''PRIVMSG'' w
          else fire (event_channel cbs) ''CHANNEL'' w))))"

text \<open>\<open>FREE\<close> on each of the first \<open>n\<close> parameters, which become \<open>NULL\<close>.\<close>

fun free_params :: "nat \<Rightarrow> nat \<Rightarrow> 'a world \<Rightarrow> stop + 'a world" where
  "free_params i 0 w = Inr w"
| "free_params i (Suc n) w =
     and_then (free_ptr (r_params (w_result w) ! i) w) (\<lambda>w.
       free_params (Suc i) n (on_result (\<lambda>r. r\<lparr>r_params := (r_params r)[i := None]\<rparr>) w))"

text \<open>\<open>sizeof (ctcp_buf)\<close> is the size of a pointer here.\<close>

definition POINTER_SIZE :: nat where
  "POINTER_SIZE = 8"

definition irc_notice_command :: "'a irc_callbacks \<Rightarrow> string \<Rightarrow> 'a world \<Rightarrow> stop + 'a world" where
  "irc_notice_command cbs command w =
     and_then (result_param w 1) (\<lambda>msg.
     if r_num_params (w_result w) > 1 \<and> is_ctcp_request msg \<and> event_ctcp_rep cbs \<noteq> None then
       and_then (heap_bytes (w_heap w) (r_params (w_result w) ! 1) 1 (ctcp_length (length msg) POINTER_SIZE)) (\<lambda>bytes.
       (case alloc_str (bytes @ replicate (LIBIRC_BUFFER_SIZE - length bytes) NUL) w of (a, w) \<Rightarrow>
         and_then (free_params 0 (r_num_params (w_result w)) w) (\<lambda>w.
         fire (event_ctcp_rep cbs) ''CTCP''
           (on_result (\<lambda>r. r\<lparr>r_params := (r_params r)[0 := Some a], r_num_params := 1\<rparr>) w))))
     else
       and_then (own_nick w) (\<lambda>nick. and_then (result_param w 0) (\<lambda>target.
         if is_private_message target nick then fire (event_notice cbs) command w
         else fire (event_channel_notice cbs) command w)))"

definition execute_command :: "'a irc_callbacks \<Rightarrow> irc_command_id \<Rightarrow> string \<Rightarrow> 'a world \<Rightarrow> stop + 'a world" where
  "execute_command cbs c = (case c of
     CmdPing \<Rightarrow> irc_ping_command cbs | CmdNick \<Rightarrow> irc_nick_command cbs | CmdQuit \<Rightarrow> irc_quit_command cbs
   | CmdJoin \<Rightarrow> irc_join_command cbs | CmdPart \<Rightarrow> irc_part_command cbs | CmdMode \<Rightarrow> irc_mode_command cbs
   | CmdTopic \<Rightarrow> irc_topic_command cbs | CmdKick \<Rightarrow> irc_kick_command cbs
   | CmdPrivmsg \<Rightarrow> irc_privmsg_command cbs | CmdNotice \<Rightarrow> irc_notice_command cbs
   | CmdInvite \<Rightarrow> irc_invite_command cbs | CmdKill \<Rightarrow> irc_kill_command cbs
   | CmdUnknown \<Rightarrow> irc_unknown_command cbs)"

section \<open>The built-in CTCP reply\<close>

text \<open>\<open>now\<close> is the time as \<open>strftime\<close> formats it. \<open>sprintf\<close> into \<open>textbuf\<close> must leave room for the
  terminator.\<close>

definition libirc_event_ctcp_internal :: "string \<Rightarrow> 'a event" where
  "libirc_event_ctcp_internal now event w =
     (case r_host (w_result w) of
        None \<Rightarrow> Inr w
      | Some _ \<Rightarrow>
          and_then (heap_str (w_heap w) (r_host (w_result w))) (\<lambda>origin.
          and_then (result_param w 0) (\<lambda>req.
          let nickbuf = irc_target_get_nick origin 128;
              reply = (\<lambda>t. Inr (fst (w_send (\<lambda>s. irc_cmd_ctcp_reply s (Some nickbuf) (Some t)) w))) in
          if strstr req ''PING'' = Some 0 then reply req
          else if str_equals req ''VERSION'' then reply ''VERSION  mIRC v6.16''
          else if str_equals req ''FINGER'' then
            (let t = ''FINGER '' @ (case s_username (w_session w) of Some u \<Rightarrow> u | None \<Rightarrow> ''nobody'') @ '' ('' @
                   (case s_realname (w_session w) of Some r \<Rightarrow> r | None \<Rightarrow> ''noname'') @ '') Idle 0 seconds'' in
             if length t < 256 then reply t else Inl OutOfBounds)
          else if str_equals req ''TIME'' then reply now
          else Inr w)))"

section \<open>Properties of the dispatcher\<close>

lemma strn_equals_prefix:
  assumes "is_cstr s" and "is_cstr name"
  shows "strn_equals s name (length s) \<longleftrightarrow> (\<exists>t. name = s @ t)"
proof -
  have "take (length s) (s @ [NUL]) = s" by simp
  moreover have "take (length s) (name @ [NUL]) = s \<longleftrightarrow> (\<exists>t. name = s @ t)"
  proof
    assume t: "take (length s) (name @ [NUL]) = s"
    show "\<exists>t. name = s @ t"
    proof (cases "length s \<le> length name")
      case True
      then have "take (length s) name = s" using t by simp
      then show ?thesis by (metis append_take_drop_id)
    next
      case False
      then have "take (length s) (name @ [NUL]) = name @ [NUL]" by simp
      then show ?thesis using t assms(1) by (metis in_set_conv_decomp is_cstr_def)
    qed
  qed auto
  ultimately show ?thesis using assms by (auto simp: strn_equals_def cstr_id)
qed

lemma commands_cstr: "list_all (\<lambda>(name, c). is_cstr name) commands"
  by (simp add: commands_def is_cstr_def)

lemma find_command_eq:
  "is_cstr s \<Longrightarrow> list_all (\<lambda>(name, c). is_cstr name) cs \<Longrightarrow>
     find_command cs s (length s) =
       (case find (\<lambda>(name, c). \<exists>t. name = s @ t) cs of None \<Rightarrow> CmdUnknown | Some (name, c) \<Rightarrow> c)"
  by (induction cs) (auto simp: strn_equals_prefix)

lemma full_names_found:
  "list_all (\<lambda>(name, c). get_command name (length name) = c) commands"
  by (simp add: commands_def get_command_def strn_equals_def cstr_def)

text \<open>Which handler a command word gets: the first of the twelve, in table order, whose name
  begins with the word, so every full name finds its own handler, and also \<open>P\<close> is answered as
  \<open>PING\<close>; a word that begins no name is unknown.\<close>

theorem get_command_dispatch:
  assumes "is_cstr s" and "s \<noteq> []"
  shows "get_command s (length s) =
      (case find (\<lambda>(name, c). \<exists>t. name = s @ t) commands of None \<Rightarrow> CmdUnknown | Some (name, c) \<Rightarrow> c)
    \<and> (\<forall>c. (s, c) \<in> set commands \<longrightarrow> get_command s (length s) = c)"
  using find_command_eq [OF assms(1) commands_cstr] full_names_found assms(2)
  by (auto simp: get_command_def list_all_iff)

theorem get_command_dispatch_witness:
  "get_command ''P'' (length ''P'') = CmdPing \<and> get_command ''NICK'' (length ''NICK'') = CmdNick
    \<and> get_command ''X'' (length ''X'') = CmdUnknown"
  using get_command_dispatch [of "''P''"] get_command_dispatch [of "''NICK''"] get_command_dispatch [of "''X''"]
  by (simp add: is_cstr_def commands_def)

end
