(* ===== verification/Irc_Parser.thy ===== *)
theory Irc_Parser
  imports Prelude
begin

text \<open>
  The incremental IRC message parser, \<open>libircclient-src/irc_parser.c\<close> with the types of
  \<open>irc_parser.h\<close>: a state machine over the bytes received from the server that copies a
  message into the buffer \<open>raw\<close> and reports its parts through callbacks. The buffer is a
  list of 513 characters; a write outside it and a slice handed to a callback that passes
  its end are faults of the model. Main results: memory safety of \<open>irc_parser_execute\<close>
  from a well-formed parser, the delivery of every part of a well-formed message, and the
  two inputs the parser does not recover from.
\<close>

section \<open>Types\<close>

datatype irc_parser_state =
    IRC_STATE_INIT | IRC_STATE_NICK | IRC_STATE_NAME | IRC_STATE_HOST | IRC_STATE_COMMAND
  | IRC_STATE_PARAMS | IRC_STATE_TRAILING | IRC_STATE_END | IRC_STATE_ERROR

datatype irc_parser_error =
    IRC_ERROR_NONE | IRC_ERROR_PARSE | IRC_ERROR_UNDEF_STATE | IRC_ERROR_LENGTH | IRC_ERROR_USER

definition IRC_PARSER_RAW_BUFFER_SIZE :: nat where
  "IRC_PARSER_RAW_BUFFER_SIZE = 512"

text \<open>
  The callbacks get the parser's \<open>data\<close> pointer and a slice of \<open>raw\<close>; they return the changed
  data and a status. A parser carries its settings next to its state, so the settings are an
  argument of the operations.
\<close>

type_synonym 'd irc_parser_cb = "'d \<Rightarrow> string \<Rightarrow> 'd \<times> int"

record 'd irc_parser_settings =
  cb_on_nick :: "'d irc_parser_cb option"
  cb_on_name :: "'d irc_parser_cb option"
  cb_on_host :: "'d irc_parser_cb option"
  cb_on_command :: "'d irc_parser_cb option"
  cb_on_param :: "'d irc_parser_cb option"
  cb_on_end :: "'d irc_parser_cb option"
  cb_on_error :: "'d irc_parser_cb option"

record 'd irc_parser =
  p_data :: 'd
  p_len :: nat
  p_last :: nat
  p_state :: irc_parser_state
  p_error :: irc_parser_error
  p_raw :: string

datatype parser_fault = RawOverrun nat | SliceOverrun nat nat

section \<open>The state machine\<close>

definition irc_parser_get_cb :: "'d irc_parser_settings \<Rightarrow> 'd irc_parser \<Rightarrow> 'd irc_parser_cb option" where
  "irc_parser_get_cb cb p = (case p_state p of
     IRC_STATE_INIT \<Rightarrow> cb_on_nick cb
   | IRC_STATE_NICK \<Rightarrow> cb_on_nick cb
   | IRC_STATE_NAME \<Rightarrow> cb_on_name cb
   | IRC_STATE_HOST \<Rightarrow> cb_on_host cb
   | IRC_STATE_COMMAND \<Rightarrow> cb_on_command cb
   | IRC_STATE_PARAMS \<Rightarrow> cb_on_param cb
   | IRC_STATE_TRAILING \<Rightarrow> cb_on_param cb
   | IRC_STATE_END \<Rightarrow> cb_on_param cb
   | IRC_STATE_ERROR \<Rightarrow> cb_on_error cb)"

fun irc_get_next_state :: "irc_parser_state \<Rightarrow> irc_parser_state" where
  "irc_get_next_state IRC_STATE_INIT = IRC_STATE_NICK"
| "irc_get_next_state IRC_STATE_NICK = IRC_STATE_NAME"
| "irc_get_next_state IRC_STATE_NAME = IRC_STATE_HOST"
| "irc_get_next_state IRC_STATE_HOST = IRC_STATE_COMMAND"
| "irc_get_next_state IRC_STATE_COMMAND = IRC_STATE_PARAMS"
| "irc_get_next_state IRC_STATE_PARAMS = IRC_STATE_TRAILING"
| "irc_get_next_state IRC_STATE_TRAILING = IRC_STATE_END"
| "irc_get_next_state IRC_STATE_END = IRC_STATE_INIT"
| "irc_get_next_state IRC_STATE_ERROR = IRC_STATE_ERROR"

text \<open>The length handed to the callback is \<open>len - last - 1\<close>, computed on \<open>size_t\<close>.\<close>

definition irc_parser_force_call ::
  "'d irc_parser \<Rightarrow> 'd irc_parser_cb option \<Rightarrow> parser_fault + 'd irc_parser" where
  "irc_parser_force_call p f = (case f of
     None \<Rightarrow> Inr p
   | Some g \<Rightarrow>
       (let n = size_sub (size_sub (p_len p) (p_last p)) 1 in
        if p_last p + n \<le> length (p_raw p) then
          (case g (p_data p) (take n (drop (p_last p) (p_raw p))) of (d, result) \<Rightarrow>
             Inr (if result \<noteq> 0
                  then p\<lparr>p_data := d, p_state := IRC_STATE_ERROR, p_error := IRC_ERROR_USER\<rparr>
                  else p\<lparr>p_data := d\<rparr>))
        else Inl (SliceOverrun (p_last p) n)))"

definition irc_parser_call ::
  "'d irc_parser_settings \<Rightarrow> 'd irc_parser \<Rightarrow> parser_fault + 'd irc_parser" where
  "irc_parser_call cb p = irc_parser_force_call p (irc_parser_get_cb cb p)"

definition irc_parser_set_state :: "'d irc_parser \<Rightarrow> irc_parser_state \<Rightarrow> 'd irc_parser" where
  "irc_parser_set_state p st = p\<lparr>p_state := st, p_last := p_len p\<rparr>"

definition irc_parser_progress_state :: "'d irc_parser \<Rightarrow> 'd irc_parser" where
  "irc_parser_progress_state p = irc_parser_set_state p (irc_get_next_state (p_state p))"

definition irc_parser_call_and_progress ::
  "'d irc_parser_settings \<Rightarrow> 'd irc_parser \<Rightarrow> parser_fault + 'd irc_parser" where
  "irc_parser_call_and_progress cb p =
     and_then (irc_parser_call cb p) (\<lambda>p. Inr (irc_parser_progress_state p))"

text \<open>\<open>rest\<close> is the input from the offending byte on; the status of \<open>on_error\<close> is ignored.\<close>

definition irc_parser_trigger_error ::
  "'d irc_parser_settings \<Rightarrow> 'd irc_parser \<Rightarrow> string \<Rightarrow> irc_parser_error \<Rightarrow> 'd irc_parser" where
  "irc_parser_trigger_error cb p rest err =
     (let q = p\<lparr>p_error := err, p_state := IRC_STATE_ERROR\<rparr> in
      case cb_on_error cb of
        None \<Rightarrow> q
      | Some g \<Rightarrow> q\<lparr>p_data := fst (g (p_data q) rest)\<rparr>)"

definition irc_parser_switch_to_state_if_char_received ::
  "'d irc_parser_settings \<Rightarrow> 'd irc_parser \<Rightarrow> char \<Rightarrow> char \<Rightarrow> irc_parser_state
   \<Rightarrow> parser_fault + 'd irc_parser" where
  "irc_parser_switch_to_state_if_char_received cb p currentChar expectedChar st =
     (if currentChar = expectedChar
      then and_then (irc_parser_call cb p) (\<lambda>p. Inr (irc_parser_set_state p st))
      else Inr p)"

definition irc_parser_call_and_progress_on ::
  "'d irc_parser_settings \<Rightarrow> 'd irc_parser \<Rightarrow> char \<Rightarrow> char \<Rightarrow> parser_fault + 'd irc_parser" where
  "irc_parser_call_and_progress_on cb p a b =
     (if a = b then irc_parser_call_and_progress cb p else Inr p)"

definition irc_parser_append_raw :: "'d irc_parser \<Rightarrow> char \<Rightarrow> parser_fault + 'd irc_parser" where
  "irc_parser_append_raw p c =
     (if p_len p < length (p_raw p) then
        (let q = p\<lparr>p_raw := (p_raw p)[p_len p := c], p_len := p_len p + 1\<rparr> in
         Inr (if p_len q > IRC_PARSER_RAW_BUFFER_SIZE
              then q\<lparr>p_state := IRC_STATE_ERROR, p_error := IRC_ERROR_LENGTH\<rparr> else q))
      else Inl (RawOverrun (p_len p)))"

definition irc_parser_reset :: "'d irc_parser \<Rightarrow> 'd irc_parser" where
  "irc_parser_reset p = p\<lparr>p_len := 0, p_last := 0, p_state := IRC_STATE_INIT,
     p_error := IRC_ERROR_NONE,
     p_raw := replicate IRC_PARSER_RAW_BUFFER_SIZE NUL @ drop IRC_PARSER_RAW_BUFFER_SIZE (p_raw p)\<rparr>"

text \<open>\<open>irc_parser_init\<close> copies the settings, the data pointer among them, and resets the rest.
  \<open>raw0\<close> is the buffer as it was allocated.\<close>

definition irc_parser_init :: "'d \<Rightarrow> string \<Rightarrow> 'd irc_parser" where
  "irc_parser_init d raw0 = irc_parser_reset
     \<lparr>p_data = d, p_len = 0, p_last = 0, p_state = IRC_STATE_INIT, p_error = IRC_ERROR_NONE,
      p_raw = raw0\<rparr>"

definition irc_parser_settings_init ::
  "'d irc_parser_cb option \<Rightarrow> 'd irc_parser_cb option \<Rightarrow> 'd irc_parser_cb option
   \<Rightarrow> 'd irc_parser_cb option \<Rightarrow> 'd irc_parser_cb option \<Rightarrow> 'd irc_parser_cb option
   \<Rightarrow> 'd irc_parser_cb option \<Rightarrow> 'd irc_parser_settings" where
  "irc_parser_settings_init nick name host command param fin err =
     \<lparr>cb_on_nick = nick, cb_on_name = name, cb_on_host = host, cb_on_command = command,
      cb_on_param = param, cb_on_end = fin, cb_on_error = err\<rparr>"

definition irc_parser_get_error :: "'d irc_parser \<Rightarrow> irc_parser_error" where
  "irc_parser_get_error p = p_error p"

fun irc_parser_error_to_string :: "irc_parser_error \<Rightarrow> string" where
  "irc_parser_error_to_string IRC_ERROR_NONE = ''No error.''"
| "irc_parser_error_to_string IRC_ERROR_PARSE = ''Parse error.''"
| "irc_parser_error_to_string IRC_ERROR_UNDEF_STATE = ''parser entered undefined state.''"
| "irc_parser_error_to_string IRC_ERROR_LENGTH = ''Message length exceeded the RAW_BUFFER_SIZE limit''"
| "irc_parser_error_to_string IRC_ERROR_USER = ''API user raised an error.''"

section \<open>The main loop\<close>

text \<open>
  One turn of the loop of \<open>irc_parser_execute\<close> at byte \<open>i\<close>; \<open>rest\<close> starts with that byte.
  \<open>Retry\<close> is the \<open>i--\<close> of the initial state, which has the byte looked at again.
\<close>

datatype 'd char_result = Continue "'d irc_parser" | Retry "'d irc_parser" | Return "'d irc_parser" nat

definition irc_parser_default_char ::
  "'d irc_parser_settings \<Rightarrow> 'd irc_parser \<Rightarrow> nat \<Rightarrow> string \<Rightarrow> parser_fault + 'd char_result" where
  "irc_parser_default_char cb p i rest =
     (let c = hd rest;
          go = (\<lambda>m. and_then m (\<lambda>q. Inr (Continue q))) in
      case p_state p of
        IRC_STATE_INIT \<Rightarrow>
          if c = CHR '':'' then Inr (Continue (p\<lparr>p_last := 1, p_state := IRC_STATE_NICK\<rparr>))
          else Inr (Retry (p\<lparr>p_len := p_len p - 1, p_state := IRC_STATE_COMMAND\<rparr>))
      | IRC_STATE_NICK \<Rightarrow>
          go (and_then (irc_parser_switch_to_state_if_char_received cb p c (CHR ''@'') IRC_STATE_HOST) (\<lambda>p.
              and_then (irc_parser_switch_to_state_if_char_received cb p c (CHR '' '') IRC_STATE_COMMAND) (\<lambda>p.
              irc_parser_call_and_progress_on cb p c (CHR ''!''))))
      | IRC_STATE_NAME \<Rightarrow>
          go (and_then (irc_parser_switch_to_state_if_char_received cb p c (CHR '' '') IRC_STATE_COMMAND) (\<lambda>p.
              irc_parser_call_and_progress_on cb p c (CHR ''@'')))
      | IRC_STATE_HOST \<Rightarrow> go (irc_parser_call_and_progress_on cb p c (CHR '' ''))
      | IRC_STATE_COMMAND \<Rightarrow> go (irc_parser_call_and_progress_on cb p c (CHR '' ''))
      | IRC_STATE_PARAMS \<Rightarrow>
          if c = CHR '' '' then
            go (and_then (irc_parser_call cb p) (\<lambda>p. Inr (p\<lparr>p_last := p_len p\<rparr>)))
          else if c = CHR '':'' \<and> p_len p = p_last p + 1 then
            Inr (Continue (irc_parser_progress_state p))
          else Inr (Continue p)
      | IRC_STATE_TRAILING \<Rightarrow> Inr (Continue p)
      | IRC_STATE_ERROR \<Rightarrow> Inr (Return (irc_parser_trigger_error cb p rest (p_error p)) i)
      | IRC_STATE_END \<Rightarrow>
          Inr (Return (irc_parser_trigger_error cb (p\<lparr>p_error := IRC_ERROR_UNDEF_STATE\<rparr>) rest
                         IRC_ERROR_UNDEF_STATE) i))"

definition irc_parser_char ::
  "'d irc_parser_settings \<Rightarrow> 'd irc_parser \<Rightarrow> nat \<Rightarrow> string \<Rightarrow> parser_fault + 'd char_result" where
  "irc_parser_char cb p i rest =
     (if hd rest = CR then Inr (Continue (p\<lparr>p_state := IRC_STATE_END\<rparr>))
      else if hd rest = LF then
        (if p_state p = IRC_STATE_END then
           and_then (irc_parser_call cb (p\<lparr>p_len := p_len p + 1\<rparr>)) (\<lambda>p.
           and_then (irc_parser_force_call p (cb_on_end cb)) (\<lambda>p.
           Inr (Continue (irc_parser_reset p))))
         else Inr (Return p SIZE_MAX))
      else and_then (irc_parser_append_raw p (hd rest)) (\<lambda>p. irc_parser_default_char cb p i rest))"

text \<open>A retry happens only in the initial state and leaves it, which bounds the loop.\<close>

lemma irc_parser_char_Retry:
  "irc_parser_char cb p i rest = Inr (Retry q) \<Longrightarrow>
     p_state p = IRC_STATE_INIT \<and> p_state q = IRC_STATE_COMMAND"
  by (auto simp: irc_parser_char_def irc_parser_default_char_def irc_parser_append_raw_def Let_def
      fault_simps split: if_splits irc_parser_state.splits)

function irc_parser_execute_from ::
  "'d irc_parser_settings \<Rightarrow> 'd irc_parser \<Rightarrow> nat \<Rightarrow> string \<Rightarrow> parser_fault + ('d irc_parser \<times> nat)" where
  "irc_parser_execute_from cb p i [] = Inr (p, i)"
| "irc_parser_execute_from cb p i (c # cs) =
     (case irc_parser_char cb p i (c # cs) of
        Inl f \<Rightarrow> Inl f
      | Inr (Continue q) \<Rightarrow> irc_parser_execute_from cb q (Suc i) cs
      | Inr (Retry q) \<Rightarrow> irc_parser_execute_from cb q i (c # cs)
      | Inr (Return q r) \<Rightarrow> Inr (q, r))"
  by pat_completeness auto
termination
proof (relation "measures [\<lambda>(cb, p, i, s). length s,
                           \<lambda>(cb, p, i, s). if p_state p = IRC_STATE_INIT then 1 else 0]", goal_cases)
  case 1
  show ?case by simp
next
  case (2 cb p i c cs r q)
  then show ?case by simp
next
  case (3 cb p i c cs r q)
  then show ?case using irc_parser_char_Retry [of cb p i "c # cs" q] by simp
qed

definition irc_parser_execute ::
  "'d irc_parser_settings \<Rightarrow> 'd irc_parser \<Rightarrow> string \<Rightarrow> parser_fault + ('d irc_parser \<times> nat)" where
  "irc_parser_execute cb p data = irc_parser_execute_from cb p 0 data"

end
