(* ===== verification/Irc_Parser_Safety.thy ===== *)
theory Irc_Parser_Safety
  imports Irc_Parser
begin

text \<open>
  Memory safety of the IRC parser: from a parser whose offsets are in order and inside the
  buffer, \<open>irc_parser_execute\<close> never writes outside \<open>raw\<close> and never hands a callback a slice
  that passes its end, whatever the input and whatever the callbacks do.
\<close>

section \<open>Well-formed parsers\<close>

definition parser_shape :: "'d irc_parser \<Rightarrow> bool" where
  "parser_shape p \<longleftrightarrow> length (p_raw p) = IRC_PARSER_RAW_BUFFER_SIZE + 1 \<and> p_last p \<le> p_len p"

definition parser_wf :: "'d irc_parser \<Rightarrow> bool" where
  "parser_wf p \<longleftrightarrow> parser_shape p \<and> p_len p \<le> IRC_PARSER_RAW_BUFFER_SIZE"

text \<open>What the parser may look like when \<open>irc_parser_execute\<close> has given up on a message: the
  buffer is full, by at most the one byte its size allows for.\<close>

definition parser_stuck :: "'d irc_parser \<Rightarrow> bool" where
  "parser_stuck p \<longleftrightarrow> parser_shape p \<and> p_state p = IRC_STATE_ERROR \<and> p_error p = IRC_ERROR_LENGTH
     \<and> p_len p = IRC_PARSER_RAW_BUFFER_SIZE + 1"

lemmas parser_wf_defs = parser_wf_def parser_shape_def IRC_PARSER_RAW_BUFFER_SIZE_def

section \<open>Preservation by the helpers\<close>

text \<open>The frame of a callback: only the data, the state and the error may change.\<close>

definition same_offsets :: "'d irc_parser \<Rightarrow> 'd irc_parser \<Rightarrow> bool" where
  "same_offsets p q \<longleftrightarrow> p_len q = p_len p \<and> p_last q = p_last p \<and> p_raw q = p_raw p"

lemma force_call_returns:
  assumes "length (p_raw p) = 513" and "p_last p < p_len p" and "p_len p \<le> 514"
  shows "\<exists>q. irc_parser_force_call p f = Inr q \<and> same_offsets p q"
proof (cases f)
  case None
  then show ?thesis by (simp add: irc_parser_force_call_def same_offsets_def)
next
  case (Some g)
  have n: "size_sub (size_sub (p_len p) (p_last p)) 1 = p_len p - p_last p - 1"
    using assms by (simp add: SIZE_MOD_def)
  obtain d r where g: "g (p_data p) (take (p_len p - p_last p - 1) (drop (p_last p) (p_raw p))) = (d, r)"
    by fastforce
  have "p_last p + (p_len p - p_last p - 1) \<le> length (p_raw p)" using assms by simp
  then show ?thesis
    unfolding irc_parser_force_call_def Some option.case Let_def n g prod.case
    by (simp add: same_offsets_def)
qed

lemma call_returns:
  assumes "length (p_raw p) = 513" and "p_last p < p_len p" and "p_len p \<le> 514"
  shows "\<exists>q. irc_parser_call cb p = Inr q \<and> same_offsets p q"
  using force_call_returns [OF assms] by (simp add: irc_parser_call_def)

lemma set_state_offsets [simp]:
  "p_len (irc_parser_set_state p st) = p_len p"
  "p_last (irc_parser_set_state p st) = p_len p"
  "p_raw (irc_parser_set_state p st) = p_raw p"
  "p_state (irc_parser_set_state p st) = st"
  "p_data (irc_parser_set_state p st) = p_data p"
  by (simp_all add: irc_parser_set_state_def)

lemma reset_fields [simp]:
  "p_len (irc_parser_reset p) = 0"
  "p_last (irc_parser_reset p) = 0"
  "p_state (irc_parser_reset p) = IRC_STATE_INIT"
  "p_error (irc_parser_reset p) = IRC_ERROR_NONE"
  "p_data (irc_parser_reset p) = p_data p"
  by (simp_all add: irc_parser_reset_def)

lemma reset_raw_length [simp]:
  "length (p_raw p) = 513 \<Longrightarrow> length (p_raw (irc_parser_reset p)) = 513"
  by (simp add: irc_parser_reset_def IRC_PARSER_RAW_BUFFER_SIZE_def)

lemma parser_wf_reset [simp]:
  "length (p_raw p) = 513 \<Longrightarrow> parser_wf (irc_parser_reset p)"
  by (simp add: parser_wf_defs)

lemma parser_wf_init: "length raw0 = 513 \<Longrightarrow> parser_wf (irc_parser_init d raw0)"
  by (simp add: irc_parser_init_def)

text \<open>\<open>call\<close> followed by a change of state, on a parser that has at least one pending byte.\<close>

definition pending :: "'d irc_parser \<Rightarrow> bool" where
  "pending p \<longleftrightarrow> length (p_raw p) = 513 \<and> p_last p < p_len p \<and> p_len p \<le> 512"

lemma switch_returns:
  assumes "pending p"
  shows "\<exists>q. irc_parser_switch_to_state_if_char_received cb p c e st = Inr q \<and> parser_wf q \<and>
             (c \<noteq> e \<longrightarrow> q = p)"
proof -
  obtain q where "irc_parser_call cb p = Inr q" "same_offsets p q"
    using call_returns assms by (force simp: pending_def)
  then show ?thesis using assms
    by (auto simp: irc_parser_switch_to_state_if_char_received_def pending_def same_offsets_def
        parser_wf_defs)
qed

lemma progress_on_returns:
  assumes "pending p"
  shows "\<exists>q. irc_parser_call_and_progress_on cb p a b = Inr q \<and> parser_wf q"
proof -
  obtain q where "irc_parser_call cb p = Inr q" "same_offsets p q"
    using call_returns assms by (force simp: pending_def)
  then show ?thesis using assms
    by (auto simp: irc_parser_call_and_progress_on_def irc_parser_call_and_progress_def pending_def
        same_offsets_def parser_wf_defs irc_parser_progress_state_def)
qed

section \<open>One byte\<close>

text \<open>The outcomes of one turn of the loop that keep the parser inside its buffer.\<close>

fun good_char_result :: "'d char_result \<Rightarrow> bool" where
  "good_char_result (Continue q) = parser_wf q"
| "good_char_result (Retry q) = parser_wf q"
| "good_char_result (Return q r) = (parser_wf q \<or> parser_stuck q)"

lemma two_switches:
  assumes "pending p" and "e1 \<noteq> e2"
  shows "\<exists>q. and_then (irc_parser_switch_to_state_if_char_received cb p c e1 s1)
     (\<lambda>p. irc_parser_switch_to_state_if_char_received cb p c e2 s2) = Inr q \<and> parser_wf q \<and>
             (c \<noteq> e1 \<and> c \<noteq> e2 \<longrightarrow> q = p)"
proof (cases "c = e1")
  case True
  obtain q where q: "irc_parser_switch_to_state_if_char_received cb p c e1 s1 = Inr q" "parser_wf q"
    using switch_returns [OF assms(1)] by blast
  with True assms(2) show ?thesis
    by (auto simp: irc_parser_switch_to_state_if_char_received_def)
next
  case False
  then have "irc_parser_switch_to_state_if_char_received cb p c e1 s1 = Inr p"
    by (simp add: irc_parser_switch_to_state_if_char_received_def)
  then show ?thesis using switch_returns [OF assms(1), of cb c e2 s2] False by auto
qed

lemma progress_on_other:
  "a \<noteq> b \<Longrightarrow> irc_parser_call_and_progress_on cb p a b = Inr p"
  by (simp add: irc_parser_call_and_progress_on_def)

lemma switch_other:
  "c \<noteq> e \<Longrightarrow> irc_parser_switch_to_state_if_char_received cb p c e st = Inr p"
  by (simp add: irc_parser_switch_to_state_if_char_received_def)

lemma nick_char_returns:
  assumes "pending p"
  shows "\<exists>q. and_then (irc_parser_switch_to_state_if_char_received cb p c (CHR ''@'') IRC_STATE_HOST) (\<lambda>p.
              and_then (irc_parser_switch_to_state_if_char_received cb p c (CHR '' '') IRC_STATE_COMMAND) (\<lambda>p.
              irc_parser_call_and_progress_on cb p c (CHR ''!''))) = Inr q \<and> parser_wf q"
proof (cases "c = CHR ''!''")
  case True
  then show ?thesis using progress_on_returns [OF assms] by (simp add: switch_other)
next
  case False
  then show ?thesis
    using two_switches [OF assms, of "CHR ''@''" "CHR '' ''" cb c IRC_STATE_HOST IRC_STATE_COMMAND]
    by (auto simp: and_then_assoc [symmetric] progress_on_other)
qed

lemma name_char_returns:
  assumes "pending p"
  shows "\<exists>q. and_then (irc_parser_switch_to_state_if_char_received cb p c (CHR '' '') IRC_STATE_COMMAND) (\<lambda>p.
              irc_parser_call_and_progress_on cb p c (CHR ''@'')) = Inr q \<and> parser_wf q"
proof (cases "c = CHR ''@''")
  case True
  then show ?thesis using progress_on_returns [OF assms] by (simp add: switch_other)
next
  case False
  then show ?thesis using switch_returns [OF assms, of cb c "CHR '' ''" IRC_STATE_COMMAND]
    by (auto simp: progress_on_other)
qed

lemma param_call_returns:
  assumes "pending p"
  shows "\<exists>q. and_then (irc_parser_call cb p) (\<lambda>p. Inr (p\<lparr>p_last := p_len p\<rparr>)) = Inr q \<and> parser_wf q"
proof -
  obtain q where "irc_parser_call cb p = Inr q" "same_offsets p q"
    using call_returns assms by (force simp: pending_def)
  then show ?thesis using assms by (auto simp: pending_def same_offsets_def parser_wf_defs)
qed

lemma trigger_error_offsets [simp]:
  "p_len (irc_parser_trigger_error cb p rest err) = p_len p"
  "p_last (irc_parser_trigger_error cb p rest err) = p_last p"
  "p_raw (irc_parser_trigger_error cb p rest err) = p_raw p"
  "p_state (irc_parser_trigger_error cb p rest err) = IRC_STATE_ERROR"
  "p_error (irc_parser_trigger_error cb p rest err) = err"
  by (simp_all add: irc_parser_trigger_error_def Let_def split: option.split)

lemma default_char_good:
  assumes "pending p \<or> parser_stuck p"
  shows "\<exists>r. irc_parser_default_char cb p i rest = Inr r \<and> good_char_result r"
proof (cases "pending p")
  case False
  with assms have "parser_stuck p" by simp
  then show ?thesis
    by (auto simp: irc_parser_default_char_def Let_def parser_stuck_def parser_shape_def)
next
  case True
  then have wf: "parser_wf p" by (auto simp: pending_def parser_wf_defs)
  show ?thesis
  proof (cases "p_state p")
    case IRC_STATE_NICK
    then show ?thesis using nick_char_returns [OF True, of cb "hd rest"]
      by (auto simp: irc_parser_default_char_def Let_def simp del: and_then.simps
          simp: and_then.simps(2))
  next
    case IRC_STATE_NAME
    then show ?thesis using name_char_returns [OF True, of cb "hd rest"]
      by (auto simp: irc_parser_default_char_def Let_def)
  next
    case IRC_STATE_PARAMS
    then show ?thesis using param_call_returns [OF True, of cb] wf
      by (auto simp: irc_parser_default_char_def Let_def irc_parser_progress_state_def parser_wf_defs)
  next
    case IRC_STATE_INIT
    then show ?thesis using True
      by (auto simp: irc_parser_default_char_def Let_def pending_def parser_wf_defs)
  next
    case IRC_STATE_HOST
    then show ?thesis using progress_on_returns [OF True, of cb "hd rest" "CHR '' ''"]
      by (auto simp: irc_parser_default_char_def Let_def)
  next
    case IRC_STATE_COMMAND
    then show ?thesis using progress_on_returns [OF True, of cb "hd rest" "CHR '' ''"]
      by (auto simp: irc_parser_default_char_def Let_def)
  qed (use wf in \<open>auto simp: irc_parser_default_char_def Let_def parser_wf_defs\<close>)
qed

lemma append_raw_returns:
  assumes "parser_wf p"
  shows "\<exists>q. irc_parser_append_raw p c = Inr q \<and> (pending q \<or> parser_stuck q)"
  using assms by (auto simp: irc_parser_append_raw_def Let_def parser_wf_defs pending_def parser_stuck_def)

lemma parser_char_good:
  assumes "parser_wf p"
  shows "\<exists>r. irc_parser_char cb p i rest = Inr r \<and> good_char_result r"
proof (cases "hd rest = LF \<and> p_state p = IRC_STATE_END")
  case True
  let ?p = "p\<lparr>p_len := p_len p + 1\<rparr>"
  have shape: "length (p_raw p) = 513" "p_last p \<le> p_len p" "p_len p \<le> 512"
    using assms by (auto simp: parser_wf_defs)
  obtain q where q: "irc_parser_call cb ?p = Inr q" "same_offsets ?p q"
    using call_returns [of ?p cb] shape by auto
  obtain r where r: "irc_parser_force_call q (cb_on_end cb) = Inr r" "same_offsets q r"
    using force_call_returns [of q "cb_on_end cb"] shape q(2) by (auto simp: same_offsets_def)
  have "parser_wf (irc_parser_reset r)"
    using q(2) r(2) shape by (simp add: same_offsets_def)
  with True q r show ?thesis by (simp add: irc_parser_char_def)
next
  case False
  obtain q where q: "irc_parser_append_raw p (hd rest) = Inr q" "pending q \<or> parser_stuck q"
    using append_raw_returns [OF assms] by blast
  from default_char_good [OF q(2), of cb i rest] q(1) False assms show ?thesis
    by (auto simp: irc_parser_char_def parser_wf_defs)
qed

section \<open>The whole input\<close>

lemma execute_from_safe:
  "parser_wf p \<Longrightarrow>
     \<exists>q r. irc_parser_execute_from cb p i s = Inr (q, r) \<and> (parser_wf q \<or> parser_stuck q)"
proof (induction cb p i s rule: irc_parser_execute_from.induct)
  case (1 cb p i)
  then show ?case by auto
next
  case (2 cb p i c cs)
  from parser_char_good [OF "2.prems", of cb i "c # cs"] obtain r where
    r: "irc_parser_char cb p i (c # cs) = Inr r" "good_char_result r" by blast
  show ?case
  proof (cases r)
    case (Continue q)
    then show ?thesis using r "2.IH"(1) [OF r(1)] by simp
  next
    case (Retry q)
    then show ?thesis using r "2.IH"(2) [OF r(1)] by simp
  next
    case (Return q n)
    then show ?thesis using r by simp
  qed
qed



end
