(* ===== verification/Irc_Parser_Messages.thy ===== *)
theory Irc_Parser_Messages
  imports Irc_Parser_Safety
begin

text \<open>
  What the parser reports of a well-formed message. The interface \<open>parser_client\<close> states what
  the parser needs of its callbacks (each is set and returns 0); within it, running the parser
  over the text of a message calls back with the message's parts in order.
\<close>

section \<open>The callback interface\<close>

datatype irc_part = PNick | PName | PHost | PCommand | PParam | PFinish

locale parser_client =
  fixes cb :: "'d irc_parser_settings"
    and eff :: "irc_part \<Rightarrow> string \<Rightarrow> 'd \<Rightarrow> 'd"
  assumes cb_nick: "cb_on_nick cb = Some (\<lambda>d s. (eff PNick s d, 0))"
    and cb_name: "cb_on_name cb = Some (\<lambda>d s. (eff PName s d, 0))"
    and cb_host: "cb_on_host cb = Some (\<lambda>d s. (eff PHost s d, 0))"
    and cb_command: "cb_on_command cb = Some (\<lambda>d s. (eff PCommand s d, 0))"
    and cb_param: "cb_on_param cb = Some (\<lambda>d s. (eff PParam s d, 0))"
    and cb_end: "cb_on_end cb = Some (\<lambda>d s. (eff PFinish s d, 0))"

section \<open>Reading a segment\<close>

text \<open>The parser is in state \<open>st\<close>, has \<open>n\<close> bytes in its buffer and the bytes since \<open>last\<close> are
  \<open>seg\<close>.\<close>

definition reading :: "'d irc_parser \<Rightarrow> irc_parser_state \<Rightarrow> string \<Rightarrow> nat \<Rightarrow> 'd \<Rightarrow> bool" where
  "reading p st seg n d \<longleftrightarrow> p_state p = st \<and> p_len p = n \<and> p_last p + length seg = n \<and>
     length (p_raw p) = 513 \<and> take (length seg) (drop (p_last p) (p_raw p)) = seg \<and> p_data p = d"

lemma reading_empty:
  "p_state p = st \<Longrightarrow> p_len p = n \<Longrightarrow> p_last p = n \<Longrightarrow> length (p_raw p) = 513 \<Longrightarrow> p_data p = d
     \<Longrightarrow> reading p st [] n d"
  by (simp add: reading_def)

lemma reading_append:
  assumes "reading p st seg n d" and "n < 512"
  shows "\<exists>q. irc_parser_append_raw p c = Inr q \<and> reading q st (seg @ [c]) (Suc n) d"
proof -
  have r: "p_len p = p_last p + length seg" "p_len p < 512" "length (p_raw p) = 513"
    "take (length seg) (drop (p_last p) (p_raw p)) = seg"
    using assms by (auto simp: reading_def)
  have "drop (p_last p) ((p_raw p)[p_len p := c]) = (drop (p_last p) (p_raw p))[length seg := c]"
    using r(1) by (simp add: drop_update_swap)
  moreover have "length seg < length (drop (p_last p) (p_raw p))" using r by simp
  ultimately have "take (Suc (length seg)) (drop (p_last p) ((p_raw p)[p_len p := c])) = seg @ [c]"
    using r(4) by (simp add: take_snoc_update)
  then show ?thesis using assms r
    by (auto simp: irc_parser_append_raw_def Let_def reading_def IRC_PARSER_RAW_BUFFER_SIZE_def)
qed

text \<open>The slice of a callback is the segment without the delimiter that ended it.\<close>

lemma reading_force_call:
  assumes "reading p st (seg @ [c]) n d" and "n \<le> 513"
  shows "irc_parser_force_call p (Some (\<lambda>d s. (e s d, 0))) = Inr (p\<lparr>p_data := e seg d\<rparr>)"
proof -
  have r: "p_len p = p_last p + Suc (length seg)" "p_len p \<le> 513" "length (p_raw p) = 513"
    "take (Suc (length seg)) (drop (p_last p) (p_raw p)) = seg @ [c]" "p_data p = d"
    using assms by (auto simp: reading_def)
  have n: "size_sub (size_sub (p_len p) (p_last p)) 1 = length seg"
    using r(1,2) by (simp add: SIZE_MOD_def)
  have "take (length seg) (drop (p_last p) (p_raw p)) = take (length seg) (seg @ [c])"
    using r(4) by (metis Suc_n_not_le_n min_def nat_le_linear take_take)
  then show ?thesis using r
    unfolding irc_parser_force_call_def option.case Let_def n by simp
qed

definition parser_run ::
  "'d irc_parser_settings \<Rightarrow> 'd irc_parser \<Rightarrow> string \<Rightarrow> 'd irc_parser \<Rightarrow> bool" where
  "parser_run cb p xs q \<longleftrightarrow> (\<forall>i rest. irc_parser_execute_from cb p i (xs @ rest)
     = irc_parser_execute_from cb q (i + length xs) rest)"

lemma parser_run_Nil [simp]: "parser_run cb p [] p"
  by (simp add: parser_run_def)

lemma parser_run_trans: "parser_run cb p xs q \<Longrightarrow> parser_run cb q ys r \<Longrightarrow> parser_run cb p (xs @ ys) r"
  by (simp add: parser_run_def add.assoc)

lemma parser_run_Cons:
  "parser_run cb p [x] q \<Longrightarrow> parser_run cb q ys r \<Longrightarrow> parser_run cb p (x # ys) r"
  using parser_run_trans [of cb p "[x]" q ys r] by simp

lemma parser_run_char:
  "(\<And>i rest. irc_parser_char cb p i (c # rest) = Inr (Continue q)) \<Longrightarrow> parser_run cb p [c] q"
  by (simp add: parser_run_def)

lemma parser_run_execute: "parser_run cb p xs q \<Longrightarrow> irc_parser_execute cb p xs = Inr (q, length xs)"
  by (metis add_0 append_Nil2 irc_parser_execute_def irc_parser_execute_from.simps(1) parser_run_def)

text \<open>The bytes a state merely collects.\<close>

fun plain :: "irc_parser_state \<Rightarrow> char \<Rightarrow> bool" where
  "plain IRC_STATE_NICK c = (c \<notin> {CHR '' '', CHR ''!'', CHR ''@'', CR, LF})"
| "plain IRC_STATE_NAME c = (c \<notin> {CHR '' '', CHR ''@'', CR, LF})"
| "plain IRC_STATE_TRAILING c = (c \<notin> {CR, LF})"
| "plain IRC_STATE_HOST c = (c \<notin> {CHR '' '', CR, LF})"
| "plain IRC_STATE_COMMAND c = (c \<notin> {CHR '' '', CR, LF})"
| "plain IRC_STATE_PARAMS c = (c \<notin> {CHR '' '', CR, LF})"
| "plain _ c = False"

lemma run_plain_char:
  assumes "reading p st seg n d" and "n < 512" and "plain st c"
    and "st = IRC_STATE_PARAMS \<and> seg = [] \<longrightarrow> c \<noteq> CHR '':''"
  shows "\<exists>q. parser_run cb p [c] q \<and> reading q st (seg @ [c]) (Suc n) d"
proof -
  obtain q where q: "irc_parser_append_raw p c = Inr q" "reading q st (seg @ [c]) (Suc n) d"
    using reading_append [OF assms(1,2)] by blast
  have st: "p_state q = st" "p_len q = p_last q + length seg + 1" using q(2) by (auto simp: reading_def)
  have "irc_parser_char cb p i (c # rest) = Inr (Continue q)" for i rest
    using assms(3,4) st q(1)
    by (cases st) (auto simp: irc_parser_char_def irc_parser_default_char_def Let_def switch_other
        progress_on_other)
  then show ?thesis using q(2) parser_run_char by blast
qed

lemma run_plain:
  "reading p st seg n d \<Longrightarrow> \<forall>c \<in> set xs. plain st c \<Longrightarrow> n + length xs \<le> 512 \<Longrightarrow>
   (st = IRC_STATE_PARAMS \<and> seg = [] \<longrightarrow> xs = [] \<or> hd xs \<noteq> CHR '':'') \<Longrightarrow>
   \<exists>q. parser_run cb p xs q \<and> reading q st (seg @ xs) (n + length xs) d"
proof (induction xs arbitrary: p seg n)
  case Nil
  then show ?case using parser_run_Nil by fastforce
next
  case (Cons x xs)
  obtain q where q: "parser_run cb p [x] q" "reading q st (seg @ [x]) (Suc n) d"
    using run_plain_char [OF Cons.prems(1), of x cb] Cons.prems(2-4) by auto
  obtain r where "parser_run cb q xs r" "reading r st ((seg @ [x]) @ xs) (Suc n + length xs) d"
    using Cons.IH [OF q(2)] Cons.prems(2,3) by auto
  then show ?case using parser_run_Cons [OF q(1)] by auto
qed

context parser_client
begin

lemma call_reading:
  assumes "reading p st (seg @ [c]) n d" and "n \<le> 513"
    and "irc_parser_get_cb cb p = Some (\<lambda>d s. (eff part s d, 0))"
  shows "irc_parser_call cb p = Inr (p\<lparr>p_data := eff part seg d\<rparr>)"
  using reading_force_call [OF assms(1,2)] assms(3) by (simp add: irc_parser_call_def)

text \<open>The delimiters, with the part they end and the state that follows.\<close>

fun delimiter :: "irc_parser_state \<Rightarrow> char \<Rightarrow> (irc_part \<times> irc_parser_state) option" where
  "delimiter IRC_STATE_NICK c =
     (if c = CHR ''@'' then Some (PNick, IRC_STATE_HOST)
      else if c = CHR '' '' then Some (PNick, IRC_STATE_COMMAND)
      else if c = CHR ''!'' then Some (PNick, IRC_STATE_NAME) else None)"
| "delimiter IRC_STATE_NAME c =
     (if c = CHR '' '' then Some (PName, IRC_STATE_COMMAND)
      else if c = CHR ''@'' then Some (PName, IRC_STATE_HOST) else None)"
| "delimiter IRC_STATE_HOST c = (if c = CHR '' '' then Some (PHost, IRC_STATE_COMMAND) else None)"
| "delimiter IRC_STATE_COMMAND c = (if c = CHR '' '' then Some (PCommand, IRC_STATE_PARAMS) else None)"
| "delimiter IRC_STATE_PARAMS c = (if c = CHR '' '' then Some (PParam, IRC_STATE_PARAMS) else None)"
| "delimiter _ c = None"

lemma delimiter_callback:
  "delimiter st c = Some (part, st') \<Longrightarrow> p_state p = st \<Longrightarrow>
     irc_parser_get_cb cb p = Some (\<lambda>d s. (eff part s d, 0))"
  by (cases st)
    (auto simp: irc_parser_get_cb_def cb_nick cb_name cb_host cb_command cb_param split: if_splits)

lemma run_delimiter:
  assumes "reading p st seg n d" and "n < 512" and "delimiter st c = Some (part, st')"
  shows "\<exists>q. parser_run cb p [c] q \<and> reading q st' [] (Suc n) (eff part seg d)"
proof -
  obtain q where q: "irc_parser_append_raw p c = Inr q" "reading q st (seg @ [c]) (Suc n) d"
    using reading_append [OF assms(1,2)] by blast
  have st: "p_state q = st" "length (p_raw q) = 513" "p_len q = Suc n" using q(2) by (auto simp: reading_def)
  have call: "irc_parser_call cb q = Inr (q\<lparr>p_data := eff part seg d\<rparr>)"
    using call_reading [OF q(2)] delimiter_callback [OF assms(3) st(1)] assms(2) by simp
  let ?q = "q\<lparr>p_data := eff part seg d, p_state := st', p_last := p_len q\<rparr>"
  have "irc_parser_char cb p i (c # rest) = Inr (Continue ?q)" for i rest
    using assms(3) st(1) q(1) call
    by (cases st) (auto simp: irc_parser_char_def irc_parser_default_char_def Let_def
        irc_parser_switch_to_state_if_char_received_def irc_parser_call_and_progress_on_def
        irc_parser_call_and_progress_def irc_parser_progress_state_def irc_parser_set_state_def
        split: if_splits)
  moreover have "reading ?q st' [] (Suc n) (eff part seg d)"
    using st by (simp add: reading_def)
  ultimately show ?thesis using parser_run_char by blast
qed

text \<open>The colon that opens the trailing parameter.\<close>

lemma run_trailing:
  assumes "reading p IRC_STATE_PARAMS [] n d" and "n < 512"
  shows "\<exists>q. parser_run cb p '':'' q \<and> reading q IRC_STATE_TRAILING [] (Suc n) d"
proof -
  obtain q where q: "irc_parser_append_raw p (CHR '':'') = Inr q"
    "reading q IRC_STATE_PARAMS '':'' (Suc n) d"
    using reading_append [OF assms] by fastforce
  have "irc_parser_char cb p i (CHR '':'' # rest) = Inr (Continue (irc_parser_progress_state q))" for i rest
    using q by (simp add: irc_parser_char_def irc_parser_default_char_def Let_def reading_def)
  moreover have "reading (irc_parser_progress_state q) IRC_STATE_TRAILING [] (Suc n) d"
    using q(2) by (simp add: irc_parser_progress_state_def reading_def)
  ultimately show ?thesis using parser_run_char by blast
qed

text \<open>A parser that waits for the next message.\<close>

definition fresh :: "'d irc_parser \<Rightarrow> 'd \<Rightarrow> bool" where
  "fresh p d \<longleftrightarrow> reading p IRC_STATE_INIT [] 0 d \<and> p_error p = IRC_ERROR_NONE"

text \<open>The end of line: the pending segment is the last parameter, whatever the state was.\<close>

lemma run_crlf:
  assumes "reading p st seg n d" and "n \<le> 512"
  shows "\<exists>q. parser_run cb p CRLF q \<and> fresh q (eff PFinish seg (eff PParam seg d))"
proof -
  let ?p = "p\<lparr>p_state := IRC_STATE_END, p_len := Suc (p_len p)\<rparr>"
  let ?c = "p_raw p ! p_len p"
  have r: "p_len p = p_last p + length seg" "p_len p = n" "length (p_raw p) = 513"
    "take (length seg) (drop (p_last p) (p_raw p)) = seg" "p_data p = d"
    using assms by (auto simp: reading_def)
  have "take (Suc (length seg)) (drop (p_last p) (p_raw p)) = seg @ [?c]"
    using r assms(2) by (simp add: take_Suc_conv_app_nth)
  then have rd: "reading ?p IRC_STATE_END (seg @ [?c]) (Suc n) d"
    using r by (simp add: reading_def)
  have c1: "irc_parser_call cb ?p = Inr (?p\<lparr>p_data := eff PParam seg d\<rparr>)"
    using call_reading [OF rd] assms(2) by (simp add: irc_parser_get_cb_def cb_param)
  have rd2: "reading (?p\<lparr>p_data := eff PParam seg d\<rparr>) IRC_STATE_END (seg @ [?c]) (Suc n) (eff PParam seg d)"
    using rd by (simp add: reading_def)
  have c2: "irc_parser_force_call (?p\<lparr>p_data := eff PParam seg d\<rparr>) (cb_on_end cb)
     = Inr (?p\<lparr>p_data := eff PFinish seg (eff PParam seg d)\<rparr>)"
    using reading_force_call [OF rd2, of "eff PFinish"] assms(2) by (simp add: cb_end)
  let ?q = "irc_parser_reset (?p\<lparr>p_data := eff PFinish seg (eff PParam seg d)\<rparr>)"
  have "parser_run cb p [CR] (p\<lparr>p_state := IRC_STATE_END\<rparr>)"
    by (rule parser_run_char) (simp add: irc_parser_char_def)
  moreover have "parser_run cb (p\<lparr>p_state := IRC_STATE_END\<rparr>) [LF] ?q"
    by (rule parser_run_char) (use c1 c2 in \<open>simp add: irc_parser_char_def\<close>)
  ultimately have "parser_run cb p CRLF ?q"
    unfolding CRLF_def by (rule parser_run_Cons)
  moreover have "fresh ?q (eff PFinish seg (eff PParam seg d))"
    using r(3) by (simp add: fresh_def reading_def)
  ultimately show ?thesis by blast
qed

text \<open>The first byte of a message.\<close>

lemma run_colon:
  assumes "fresh p d"
  shows "\<exists>q. parser_run cb p '':'' q \<and> reading q IRC_STATE_NICK [] 1 d"
proof -
  have r: "reading p IRC_STATE_INIT [] 0 d" using assms by (simp add: fresh_def)
  obtain q where q: "irc_parser_append_raw p (CHR '':'') = Inr q" "reading q IRC_STATE_INIT '':'' 1 d"
    using reading_append [OF r] by fastforce
  let ?q = "q\<lparr>p_last := 1, p_state := IRC_STATE_NICK\<rparr>"
  have "irc_parser_char cb p i (CHR '':'' # rest) = Inr (Continue ?q)" for i rest
    using q by (simp add: irc_parser_char_def irc_parser_default_char_def Let_def reading_def)
  moreover have "reading ?q IRC_STATE_NICK [] 1 d" using q(2) by (simp add: reading_def)
  ultimately show ?thesis using parser_run_char by blast
qed

lemma run_no_prefix:
  assumes "fresh p d" and "c \<notin> {CHR '':'', CR, LF}"
  shows "\<exists>q. reading q IRC_STATE_COMMAND [] 0 d \<and>
     (\<forall>xs r. parser_run cb q (c # xs) r \<longrightarrow> parser_run cb p (c # xs) r)"
proof -
  have r: "reading p IRC_STATE_INIT [] 0 d" using assms by (simp add: fresh_def)
  obtain q where q: "irc_parser_append_raw p c = Inr q" "reading q IRC_STATE_INIT [c] 1 d"
    using reading_append [OF r] by fastforce
  let ?q = "q\<lparr>p_len := p_len q - 1, p_state := IRC_STATE_COMMAND\<rparr>"
  have "irc_parser_char cb p i (c # rest) = Inr (Retry ?q)" for i rest
    using q assms(2) by (simp add: irc_parser_char_def irc_parser_default_char_def Let_def reading_def)
  then have "irc_parser_execute_from cb p i (c # rest) = irc_parser_execute_from cb ?q i (c # rest)" for i rest
    by simp
  then have "\<forall>xs r. parser_run cb ?q (c # xs) r \<longrightarrow> parser_run cb p (c # xs) r"
    by (simp only: parser_run_def append_Cons) blast
  moreover have "reading ?q IRC_STATE_COMMAND [] 0 d" using q(2) by (simp add: reading_def)
  ultimately show ?thesis by blast
qed

text \<open>A collected segment and the delimiter that ends it.\<close>

lemma run_segment:
  assumes "reading p st [] n d" and "\<forall>c \<in> set xs. plain st c" and "n + length xs < 512"
    and "delimiter st c = Some (part, st')"
    and "st = IRC_STATE_PARAMS \<longrightarrow> xs = [] \<or> hd xs \<noteq> CHR '':''"
  shows "\<exists>q. parser_run cb p (xs @ [c]) q \<and> reading q st' [] (n + length xs + 1) (eff part xs d)"
proof -
  obtain q where q: "parser_run cb p xs q" "reading q st xs (n + length xs) d"
    using run_plain [OF assms(1,2), of cb] assms(3,5) by auto
  then show ?thesis
    using run_delimiter [OF q(2) assms(3,4)] parser_run_trans by fastforce
qed

end

section \<open>Messages\<close>

text \<open>
  The messages of RFC 1459 as quoted in \<open>irc_line_parser.c\<close>: an optional prefix (a nick or
  server name with optional user and host), a command and its parameters, of which the last
  may be a trailing one introduced by a colon.
\<close>

record irc_message =
  m_prefix :: "(string \<times> string option \<times> string option) option"
  m_command :: string
  m_middle :: "string list"
  m_trailing :: "string option"

definition prefix_text :: "(string \<times> string option \<times> string option) option \<Rightarrow> string" where
  "prefix_text pre = (case pre of None \<Rightarrow> []
     | Some (nick, user, host) \<Rightarrow> '':'' @ nick @ (case user of None \<Rightarrow> [] | Some u \<Rightarrow> ''!'' @ u)
         @ (case host of None \<Rightarrow> [] | Some h \<Rightarrow> ''@'' @ h) @ '' '')"

fun params_text :: "string list \<Rightarrow> string option \<Rightarrow> string" where
  "params_text [] None = []"
| "params_text [] (Some t) = '':'' @ t"
| "params_text [x] None = x"
| "params_text (x # xs) t = x @ '' '' @ params_text xs t"

definition message_text :: "irc_message \<Rightarrow> string" where
  "message_text m = prefix_text (m_prefix m) @ m_command m @ '' '' @ params_text (m_middle m) (m_trailing m)"

definition m_params :: "irc_message \<Rightarrow> string list" where
  "m_params m = m_middle m @ (case m_trailing m of None \<Rightarrow> [] | Some t \<Rightarrow> [t])"

definition wf_prefix :: "(string \<times> string option \<times> string option) option \<Rightarrow> bool" where
  "wf_prefix pre = (case pre of None \<Rightarrow> True
     | Some (nick, user, host) \<Rightarrow> list_all (plain IRC_STATE_NICK) nick
         \<and> (case user of None \<Rightarrow> True | Some u \<Rightarrow> list_all (plain IRC_STATE_NAME) u)
         \<and> (case host of None \<Rightarrow> True | Some h \<Rightarrow> list_all (plain IRC_STATE_HOST) h))"

definition wf_middle :: "string \<Rightarrow> bool" where
  "wf_middle x \<longleftrightarrow> list_all (plain IRC_STATE_PARAMS) x \<and> (x = [] \<or> hd x \<noteq> CHR '':'')"

definition wf_message :: "irc_message \<Rightarrow> bool" where
  "wf_message m \<longleftrightarrow> wf_prefix (m_prefix m)
     \<and> m_command m \<noteq> [] \<and> list_all (plain IRC_STATE_COMMAND) (m_command m)
     \<and> (m_prefix m = None \<longrightarrow> hd (m_command m) \<noteq> CHR '':'')
     \<and> list_all wf_middle (m_middle m)
     \<and> (case m_trailing m of None \<Rightarrow> m_middle m \<noteq> [] | Some t \<Rightarrow> list_all (plain IRC_STATE_TRAILING) t)
     \<and> length (message_text m) \<le> IRC_PARSER_RAW_BUFFER_SIZE"

text \<open>The calls a message gives rise to, in order.\<close>

definition prefix_parts :: "(string \<times> string option \<times> string option) option \<Rightarrow> (irc_part \<times> string) list" where
  "prefix_parts pre = (case pre of None \<Rightarrow> []
     | Some (nick, user, host) \<Rightarrow> (PNick, nick) # (case user of None \<Rightarrow> [] | Some u \<Rightarrow> [(PName, u)])
         @ (case host of None \<Rightarrow> [] | Some h \<Rightarrow> [(PHost, h)]))"

definition message_parts :: "irc_message \<Rightarrow> (irc_part \<times> string) list" where
  "message_parts m = prefix_parts (m_prefix m) @ [(PCommand, m_command m)]
     @ map (\<lambda>x. (PParam, x)) (m_params m) @ [(PFinish, last (m_params m))]"

context parser_client
begin

definition deliver :: "(irc_part \<times> string) list \<Rightarrow> 'd \<Rightarrow> 'd" where
  "deliver ps d = fold (\<lambda>(part, s). eff part s) ps d"

lemma deliver_simps [simp]:
  "deliver [] d = d"
  "deliver (x # xs) d = deliver xs (eff (fst x) (snd x) d)"
  "deliver (xs @ ys) d = deliver ys (deliver xs d)"
  by (simp_all add: deliver_def split_beta)

lemma run_params:
  "reading p IRC_STATE_PARAMS [] n d \<Longrightarrow> n + length (params_text ms t) \<le> 512 \<Longrightarrow>
   list_all wf_middle ms \<Longrightarrow>
   (case t of None \<Rightarrow> ms \<noteq> [] | Some x \<Rightarrow> list_all (plain IRC_STATE_TRAILING) x) \<Longrightarrow>
   \<exists>q. parser_run cb p (params_text ms t @ CRLF) q \<and>
      fresh q (deliver (map (\<lambda>x. (PParam, x)) (ms @ (case t of None \<Rightarrow> [] | Some x \<Rightarrow> [x]))
                @ [(PFinish, last (ms @ (case t of None \<Rightarrow> [] | Some x \<Rightarrow> [x])))]) d)"
proof (induction ms t arbitrary: p n d rule: params_text.induct [case_names none_left only_trailing one_left more_left more_trailing])
  case none_left
  then show ?case by simp
next
  case (only_trailing t)
  obtain q where q: "parser_run cb p '':'' q" "reading q IRC_STATE_TRAILING [] (Suc n) d"
    using run_trailing [OF only_trailing.prems(1)] only_trailing.prems(2) by auto
  obtain r where r: "parser_run cb q t r" "reading r IRC_STATE_TRAILING t (Suc n + length t) d"
    using run_plain [OF q(2), of t cb] only_trailing.prems(2,4) by (auto simp: list_all_iff)
  obtain u where u: "parser_run cb r CRLF u" "fresh u (eff PFinish t (eff PParam t d))"
    using run_crlf [OF r(2)] only_trailing.prems(2) by auto
  have "parser_run cb p ('':'' @ t @ CRLF) u"
    using parser_run_trans [OF q(1) parser_run_trans [OF r(1) u(1)]] by simp
  then show ?case using u(2) by auto
next
  case (one_left x)
  obtain q where q: "parser_run cb p x q" "reading q IRC_STATE_PARAMS x (n + length x) d"
    using run_plain [OF one_left.prems(1), of x cb] one_left.prems(2,3) by (auto simp: wf_middle_def list_all_iff)
  obtain r where "parser_run cb q CRLF r" "fresh r (eff PFinish x (eff PParam x d))"
    using run_crlf [OF q(2)] one_left.prems(2) by auto
  then show ?case using parser_run_trans [OF q(1)] by auto
next
  case (more_left x v va t)
  obtain q where q: "parser_run cb p (x @ '' '') q"
    "reading q IRC_STATE_PARAMS [] (n + length x + 1) (eff PParam x d)"
    using run_segment [OF more_left.prems(1), of x "CHR '' ''" PParam IRC_STATE_PARAMS] more_left.prems(2,3)
    by (auto simp: wf_middle_def list_all_iff)
  have prem: "n + length x + 1 + length (params_text (v # va) t) \<le> 512" "list_all wf_middle (v # va)"
    "case t of None \<Rightarrow> v # va \<noteq> [] | Some x \<Rightarrow> list_all (plain IRC_STATE_TRAILING) x"
    using more_left.prems(2,3) apply simp
    using more_left.prems(3) apply simp
    using more_left.prems(4) by (cases t; simp)
  obtain r where r: "parser_run cb q (params_text (v # va) t @ CRLF) r"
    "fresh r (deliver (map (\<lambda>x. (PParam, x)) ((v # va) @ (case t of None \<Rightarrow> [] | Some x \<Rightarrow> [x]))
       @ [(PFinish, last ((v # va) @ (case t of None \<Rightarrow> [] | Some x \<Rightarrow> [x])))]) (eff PParam x d))"
    using more_left.IH [OF q(2) prem] by blast
  have "parser_run cb p (params_text (x # v # va) t @ CRLF) r"
    using parser_run_trans [OF q(1) r(1)] by simp
  then show ?case using r(2) by (intro exI [of _ r]) simp
next
  case (more_trailing x xs v)
  obtain q where q: "parser_run cb p (x @ '' '') q"
    "reading q IRC_STATE_PARAMS [] (n + length x + 1) (eff PParam x d)"
    using run_segment [OF more_trailing.prems(1), of x "CHR '' ''" PParam IRC_STATE_PARAMS] more_trailing.prems(2,3)
    by (auto simp: wf_middle_def list_all_iff)
  obtain r where r: "parser_run cb q (params_text xs (Some v) @ CRLF) r"
    "fresh r (deliver (map (\<lambda>x. (PParam, x)) (xs @ [v]) @ [(PFinish, last (xs @ [v]))]) (eff PParam x d))"
    using more_trailing.IH [OF q(2)] more_trailing.prems(2-4) by auto
  have "parser_run cb p (params_text (x # xs) (Some v) @ CRLF) r"
    using parser_run_trans [OF q(1) r(1)] by simp
  then show ?case using r(2) by (intro exI [of _ r]) simp
qed

lemma run_prefix:
  assumes "fresh p d" and "wf_prefix (Some (nick, user, host))"
    and "length (prefix_text (Some (nick, user, host))) \<le> 512"
  shows "\<exists>q. parser_run cb p (prefix_text (Some (nick, user, host))) q \<and>
     reading q IRC_STATE_COMMAND [] (length (prefix_text (Some (nick, user, host))))
       (deliver (prefix_parts (Some (nick, user, host))) d)"
proof -
  obtain q where q: "parser_run cb p '':'' q" "reading q IRC_STATE_NICK [] 1 d"
    using run_colon [OF assms(1)] by blast
  have ok: "\<forall>c \<in> set nick. plain IRC_STATE_NICK c" using assms(2) by (simp add: wf_prefix_def list_all_iff)
  show ?thesis
  proof (cases user)
    case None
    show ?thesis
    proof (cases host)
      case None
      obtain r where r: "parser_run cb q (nick @ '' '') r"
        "reading r IRC_STATE_COMMAND [] (1 + length nick + 1) (eff PNick nick d)"
        using run_segment [OF q(2) ok, of "CHR '' ''" PNick IRC_STATE_COMMAND] assms(3)
        by (auto simp: prefix_text_def None \<open>user = None\<close>)
      then show ?thesis using parser_run_trans [OF q(1) r(1)]
        by (auto simp: prefix_text_def prefix_parts_def None \<open>user = None\<close>)
    next
      case (Some h)
      obtain r where r: "parser_run cb q (nick @ ''@'') r"
        "reading r IRC_STATE_HOST [] (1 + length nick + 1) (eff PNick nick d)"
        using run_segment [OF q(2) ok, of "CHR ''@''" PNick IRC_STATE_HOST] assms(3)
        by (auto simp: prefix_text_def Some None)
      obtain u where u: "parser_run cb r (h @ '' '') u"
        "reading u IRC_STATE_COMMAND [] (1 + length nick + 1 + length h + 1) (eff PHost h (eff PNick nick d))"
        using run_segment [OF r(2), of h "CHR '' ''" PHost IRC_STATE_COMMAND] assms(2,3)
        by (auto simp: prefix_text_def wf_prefix_def Some None list_all_iff)
      then show ?thesis using parser_run_trans [OF parser_run_trans [OF q(1) r(1)] u(1)]
        by (auto simp: prefix_text_def prefix_parts_def Some None)
    qed
  next
    case (Some u)
    obtain r where r: "parser_run cb q (nick @ ''!'') r"
      "reading r IRC_STATE_NAME [] (1 + length nick + 1) (eff PNick nick d)"
      using run_segment [OF q(2) ok, of "CHR ''!''" PNick IRC_STATE_NAME] assms(3)
      by (auto simp: prefix_text_def Some)
    have oku: "\<forall>c \<in> set u. plain IRC_STATE_NAME c"
      using assms(2) by (simp add: wf_prefix_def list_all_iff Some)
    show ?thesis
    proof (cases host)
      case None
      obtain v where v: "parser_run cb r (u @ '' '') v"
        "reading v IRC_STATE_COMMAND [] (1 + length nick + 1 + length u + 1) (eff PName u (eff PNick nick d))"
        using run_segment [OF r(2) oku, of "CHR '' ''" PName IRC_STATE_COMMAND] assms(3)
        by (auto simp: prefix_text_def None Some)
      then show ?thesis using parser_run_trans [OF parser_run_trans [OF q(1) r(1)] v(1)]
        by (auto simp: prefix_text_def prefix_parts_def None Some)
    next
      case (Some h)
      obtain v where v: "parser_run cb r (u @ ''@'') v"
        "reading v IRC_STATE_HOST [] (1 + length nick + 1 + length u + 1) (eff PName u (eff PNick nick d))"
        using run_segment [OF r(2) oku, of "CHR ''@''" PName IRC_STATE_HOST] assms(3)
        by (auto simp: prefix_text_def Some \<open>user = Some u\<close>)
      obtain w where w: "parser_run cb v (h @ '' '') w"
        "reading w IRC_STATE_COMMAND [] (1 + length nick + 1 + length u + 1 + length h + 1)
           (eff PHost h (eff PName u (eff PNick nick d)))"
        using run_segment [OF v(2), of h "CHR '' ''" PHost IRC_STATE_COMMAND] assms(2,3)
        by (auto simp: prefix_text_def wf_prefix_def Some \<open>user = Some u\<close> list_all_iff)
      then show ?thesis
        using parser_run_trans [OF parser_run_trans [OF parser_run_trans [OF q(1) r(1)] v(1)] w(1)]
        by (intro exI [of _ w])
          (simp add: prefix_text_def prefix_parts_def Some \<open>user = Some u\<close> add.assoc)
    qed
  qed
qed

lemma run_command_params:
  assumes "reading p IRC_STATE_COMMAND [] n d" and "wf_message m"
    and "n + length (m_command m @ '' '' @ params_text (m_middle m) (m_trailing m)) \<le> 512"
  shows "\<exists>q. parser_run cb p (m_command m @ '' '' @ params_text (m_middle m) (m_trailing m) @ CRLF) q
     \<and> fresh q (deliver ([(PCommand, m_command m)] @ map (\<lambda>x. (PParam, x)) (m_params m)
                @ [(PFinish, last (m_params m))]) d)"
proof -
  obtain q where q: "parser_run cb p (m_command m @ '' '') q"
    "reading q IRC_STATE_PARAMS [] (n + length (m_command m) + 1) (eff PCommand (m_command m) d)"
    using run_segment [OF assms(1), of "m_command m" "CHR '' ''" PCommand IRC_STATE_PARAMS] assms(2,3)
    by (auto simp: wf_message_def list_all_iff)
  show ?thesis
    using run_params [OF q(2), of "m_middle m" "m_trailing m"] assms(2,3) parser_run_trans [OF q(1)]
    by (auto simp: wf_message_def m_params_def)
qed

lemma run_message:
  assumes "fresh p d" and "wf_message m"
  shows "\<exists>q. parser_run cb p (message_text m @ CRLF) q \<and> fresh q (deliver (message_parts m) d)"
proof (cases "m_prefix m")
  case (Some pre)
  obtain nick user host where pre: "pre = (nick, user, host)" by (cases pre)
  have len: "length (prefix_text (m_prefix m)) \<le> 512" "wf_prefix (m_prefix m)"
    using assms(2) by (auto simp: wf_message_def message_text_def IRC_PARSER_RAW_BUFFER_SIZE_def)
  obtain q where q: "parser_run cb p (prefix_text (m_prefix m)) q"
    "reading q IRC_STATE_COMMAND [] (length (prefix_text (m_prefix m))) (deliver (prefix_parts (m_prefix m)) d)"
    using run_prefix [OF assms(1), of nick user host] len unfolding Some pre by blast
  show ?thesis
    using run_command_params [OF q(2) assms(2)] parser_run_trans [OF q(1)] assms(2)
    by (auto simp: wf_message_def message_text_def message_parts_def IRC_PARSER_RAW_BUFFER_SIZE_def)
next
  case None
  obtain c cs where c: "m_command m = c # cs" using assms(2) by (auto simp: wf_message_def neq_Nil_conv)
  then have nc: "c \<notin> {CHR '':'', CR, LF}" using assms(2) None by (auto simp: wf_message_def)
  obtain q where q: "reading q IRC_STATE_COMMAND [] 0 d"
    "\<And>xs r. parser_run cb q (c # xs) r \<Longrightarrow> parser_run cb p (c # xs) r"
    using run_no_prefix [OF assms(1) nc] by blast
  obtain r where "parser_run cb q (m_command m @ '' '' @ params_text (m_middle m) (m_trailing m) @ CRLF) r"
    "fresh r (deliver ([(PCommand, m_command m)] @ map (\<lambda>x. (PParam, x)) (m_params m)
                @ [(PFinish, last (m_params m))]) d)"
    using run_command_params [OF q(1) assms(2)] assms(2)
    by (auto simp: wf_message_def message_text_def IRC_PARSER_RAW_BUFFER_SIZE_def)
  then show ?thesis using q(2)
    by (auto simp: message_text_def message_parts_def prefix_text_def prefix_parts_def None c)
qed

text \<open>Several messages in one input are delivered one after the other.\<close>

lemma run_messages:
  "fresh p d \<Longrightarrow> list_all wf_message ms \<Longrightarrow>
     \<exists>q. parser_run cb p (concat (map (\<lambda>m. message_text m @ CRLF) ms)) q \<and>
        fresh q (deliver (concat (map message_parts ms)) d)"
proof (induction ms arbitrary: p d)
  case Nil
  then show ?case by (auto intro: exI [of _ p])
next
  case (Cons m ms)
  obtain q where q: "parser_run cb p (message_text m @ CRLF) q" "fresh q (deliver (message_parts m) d)"
    using run_message Cons.prems by fastforce
  then show ?case using Cons.IH [OF q(2)] Cons.prems(2) parser_run_trans [OF q(1)] by fastforce
qed

text \<open>A command without parameters reaches the client as a parameter.\<close>

lemma run_bare_command:
  assumes "fresh p d" and "xs \<noteq> []" and "list_all (plain IRC_STATE_COMMAND) xs"
    and "hd xs \<noteq> CHR '':''" and "length xs \<le> 512"
  shows "\<exists>q. parser_run cb p (xs @ CRLF) q \<and> fresh q (eff PFinish xs (eff PParam xs d))"
proof -
  obtain c cs where c: "xs = c # cs" using assms(2) by (auto simp: neq_Nil_conv)
  then have nc: "c \<notin> {CHR '':'', CR, LF}" using assms(3,4) by auto
  obtain q where q: "reading q IRC_STATE_COMMAND [] 0 d"
    "\<And>ys r. parser_run cb q (c # ys) r \<Longrightarrow> parser_run cb p (c # ys) r"
    using run_no_prefix [OF assms(1) nc] by blast
  obtain r where r: "parser_run cb q xs r" "reading r IRC_STATE_COMMAND xs (length xs) d"
    using run_plain [OF q(1), of xs cb] assms(3,5) by (auto simp: list_all_iff)
  obtain u where "parser_run cb r CRLF u" "fresh u (eff PFinish xs (eff PParam xs d))"
    using run_crlf [OF r(2) assms(5)] by blast
  then show ?thesis using parser_run_trans [OF r(1)] q(2) c by fastforce
qed

end

end
