(* ===== verification/Irc_Parser_Recovery.thy ===== *)
theory Irc_Parser_Recovery
  imports Irc_Parser_Messages
begin

text \<open>
  What the parser does with input that is no message: a line longer than its buffer and a
  carriage return inside a line, for any client of the interface \<open>parser_client\<close>.
\<close>

definition collecting :: "irc_parser_state \<Rightarrow> bool" where
  "collecting st \<longleftrightarrow> st \<in> {IRC_STATE_NICK, IRC_STATE_NAME, IRC_STATE_HOST, IRC_STATE_COMMAND,
     IRC_STATE_PARAMS, IRC_STATE_TRAILING}"

definition text_byte :: "char \<Rightarrow> bool" where
  "text_byte c \<longleftrightarrow> c \<noteq> CR \<and> c \<noteq> LF"

context parser_client
begin

lemma collect_byte:
  assumes "reading p st seg n d" and "collecting st" and "n < 512" and "text_byte c"
  shows "\<exists>q st' seg' d'. parser_run cb p [c] q \<and> reading q st' seg' (Suc n) d' \<and> collecting st'"
proof (cases "\<exists>part st'. delimiter st c = Some (part, st')")
  case True
  then obtain part st' where d: "delimiter st c = Some (part, st')" by blast
  then have "collecting st'" using assms(2) by (cases st) (auto simp: collecting_def split: if_splits)
  then show ?thesis using run_delimiter [OF assms(1,3) d] by blast
next
  case False
  then have none: "delimiter st c = None" by (cases "delimiter st c") auto
  have plain: "plain st c" using none assms(2,4)
    by (cases st) (auto simp: collecting_def text_byte_def split: if_splits)
  show ?thesis
  proof (cases "st = IRC_STATE_PARAMS \<and> seg = [] \<and> c = CHR '':''")
    case True
    then show ?thesis using run_trailing [of p n d] assms(1,3) by (fastforce simp: collecting_def)
  next
    case False
    then show ?thesis using run_plain_char [OF assms(1,3) plain] assms(2) by blast
  qed
qed

lemma collect_bytes:
  "reading p st seg n d \<Longrightarrow> collecting st \<Longrightarrow> n + length xs \<le> 512 \<Longrightarrow> list_all text_byte xs \<Longrightarrow>
     \<exists>q st' seg' d'. parser_run cb p xs q \<and> reading q st' seg' (n + length xs) d' \<and> collecting st'"
proof (induction xs arbitrary: p st seg n d)
  case Nil
  then show ?case using parser_run_Nil by fastforce
next
  case (Cons x xs)
  then obtain q st' seg' d' where q: "parser_run cb p [x] q" "reading q st' seg' (Suc n) d'" "collecting st'"
    using collect_byte [OF Cons.prems(1,2), of x] by auto
  obtain r st'' seg'' d'' where r: "parser_run cb q xs r" "reading r st'' seg'' (Suc n + length xs) d''" "collecting st''"
    using Cons.IH [OF q(2,3)] Cons.prems(3,4) by auto
  then show ?case using parser_run_Cons [OF q(1) r(1)] by (metis add_Suc_shift length_Cons)
qed

lemma collect_line:
  assumes "fresh p d" and "xs \<noteq> []" and "length xs \<le> 512" and "list_all text_byte xs"
  shows "\<exists>q st seg d'. parser_run cb p xs q \<and> reading q st seg (length xs) d' \<and> collecting st"
proof -
  obtain c cs where xs: "xs = c # cs" using assms(2) by (cases xs) auto
  show ?thesis
  proof (cases "c = CHR '':''")
    case True
    obtain q where q: "parser_run cb p '':'' q" "reading q IRC_STATE_NICK [] 1 d"
      using run_colon [OF assms(1)] by blast
    have pre: "collecting IRC_STATE_NICK" "1 + length cs \<le> 512" "list_all text_byte cs"
      using assms(3,4) by (simp_all add: xs collecting_def)
    obtain r st seg d' where r: "parser_run cb q cs r" "reading r st seg (1 + length cs) d'" "collecting st"
      using collect_bytes [OF q(2) pre] by blast
    have "parser_run cb p xs r" using parser_run_Cons [OF q(1) r(1)] by (simp add: xs True)
    moreover have "reading r st seg (length xs) d'" using r(2) by (simp add: xs)
    ultimately show ?thesis using r(3) by blast
  next
    case False
    then have nc: "c \<notin> {CHR '':'', CR, LF}" using assms(4) by (auto simp: xs text_byte_def)
    obtain q where q: "reading q IRC_STATE_COMMAND [] 0 d"
      and step: "\<forall>ys r. parser_run cb q (c # ys) r \<longrightarrow> parser_run cb p (c # ys) r"
      using run_no_prefix [OF assms(1) nc] by blast
    have pre: "collecting IRC_STATE_COMMAND" "0 + length xs \<le> 512" using assms(3) by (simp_all add: collecting_def)
    obtain r st seg d' where r: "parser_run cb q xs r" "reading r st seg (0 + length xs) d'" "collecting st"
      using collect_bytes [OF q pre assms(4)] by blast
    have "parser_run cb p xs r" using step r(1) by (simp add: xs)
    moreover have "reading r st seg (length xs) d'" using r(2) by simp
    ultimately show ?thesis using r(3) by blast
  qed
qed

text \<open>The byte that does not fit.\<close>

lemma overlong_stuck:
  assumes "fresh p d" and "list_all text_byte xs" and "512 < length xs"
  shows "\<exists>q. irc_parser_execute cb p (xs @ rest) = Inr (q, 512) \<and> parser_stuck q"
proof -
  let ?ys = "take 512 xs"
  obtain c cs where cs: "drop 512 xs = c # cs" using assms(3) by (cases "drop 512 xs") auto
  have xs: "xs = ?ys @ c # cs" using cs by (metis append_take_drop_id)
  have "list_all text_byte (?ys @ c # cs)" using assms(2) xs by simp
  then have t: "list_all text_byte ?ys" "text_byte c" by auto
  obtain q st seg d' where q: "parser_run cb p ?ys q" "reading q st seg 512 d'" "collecting st"
  proof -
    have "?ys \<noteq> []" "length ?ys = 512" using assms(3) by auto
    then show ?thesis using collect_line [OF assms(1) _ _ t(1)] that by auto
  qed
  have sh: "p_len q = 512" "length (p_raw q) = 513" "p_last q \<le> 512" using q(2) by (auto simp: reading_def)
  let ?r = "q\<lparr>p_raw := (p_raw q)[512 := c], p_len := 513, p_state := IRC_STATE_ERROR, p_error := IRC_ERROR_LENGTH\<rparr>"
  have app: "irc_parser_append_raw q c = Inr ?r"
    using sh by (simp add: irc_parser_append_raw_def Let_def IRC_PARSER_RAW_BUFFER_SIZE_def)
  let ?e = "irc_parser_trigger_error cb ?r (c # cs @ rest) IRC_ERROR_LENGTH"
  have "irc_parser_char cb q 512 (c # cs @ rest) = Inr (Return ?e 512)"
    using t(2) app by (simp add: irc_parser_char_def text_byte_def irc_parser_default_char_def Let_def)
  then have "irc_parser_execute_from cb q 512 (c # cs @ rest) = Inr (?e, 512)" by simp
  moreover have "irc_parser_execute cb p (xs @ rest) = irc_parser_execute_from cb q 512 (c # cs @ rest)"
    using q(1) assms(3) unfolding irc_parser_execute_def
    by (subst xs) (simp add: parser_run_def)
  moreover have "parser_stuck ?e"
    using sh by (simp add: parser_stuck_def parser_shape_def IRC_PARSER_RAW_BUFFER_SIZE_def)
  ultimately show ?thesis by (intro exI [of _ ?e]) simp
qed

text \<open>A carriage return inside a line.\<close>

lemma stray_return:
  assumes "fresh p d" and "xs \<noteq> []" and "length xs < 512" and "list_all text_byte xs" and "text_byte c"
  shows "\<exists>q. irc_parser_execute cb p (xs @ CR # c # rest) = Inr (q, Suc (length xs))
     \<and> p_state q = IRC_STATE_ERROR \<and> p_error q = IRC_ERROR_UNDEF_STATE \<and> p_len q = Suc (length xs)
     \<and> length (p_raw q) = 513"
proof -
  obtain q st seg d' where q: "parser_run cb p xs q" "reading q st seg (length xs) d'" "collecting st"
    using collect_line [OF assms(1,2) _ assms(4)] assms(3) by auto
  have sh: "p_len q = length xs" "length (p_raw q) = 513" using q(2) by (auto simp: reading_def)
  let ?n = "length xs"
  let ?a = "q\<lparr>p_state := IRC_STATE_END\<rparr>"
  let ?r = "?a\<lparr>p_raw := (p_raw q)[?n := c], p_len := Suc ?n\<rparr>"
  have app: "irc_parser_append_raw ?a c = Inr ?r"
    using sh assms(3) by (simp add: irc_parser_append_raw_def Let_def IRC_PARSER_RAW_BUFFER_SIZE_def)
  let ?e = "irc_parser_trigger_error cb (?r\<lparr>p_error := IRC_ERROR_UNDEF_STATE\<rparr>) (c # rest) IRC_ERROR_UNDEF_STATE"
  have "irc_parser_char cb q i (CR # c # rest) = Inr (Continue ?a)" for i by (simp add: irc_parser_char_def)
  moreover have "irc_parser_char cb ?a i (c # rest) = Inr (Return ?e i)" for i
    using assms(5) app by (simp add: irc_parser_char_def text_byte_def irc_parser_default_char_def Let_def)
  ultimately have "irc_parser_execute_from cb q ?n (CR # c # rest) = Inr (?e, Suc ?n)" by simp
  moreover have "irc_parser_execute cb p (xs @ CR # c # rest) = irc_parser_execute_from cb q ?n (CR # c # rest)"
    using q(1) unfolding irc_parser_execute_def by (simp add: parser_run_def)
  ultimately show ?thesis using sh assms(3) by (intro exI [of _ ?e]) simp
qed

end

text \<open>A parser in the error state looks at the first byte of its input only.\<close>

lemma error_refuses:
  assumes "p_state p = IRC_STATE_ERROR" and "p_len p < 512" and "length (p_raw p) = 513" and "text_byte c"
  shows "\<exists>q. irc_parser_execute cb p (c # rest) = Inr (q, 0) \<and> p_state q = IRC_STATE_ERROR
     \<and> p_len q = Suc (p_len p) \<and> length (p_raw q) = 513"
proof -
  let ?r = "p\<lparr>p_raw := (p_raw p)[p_len p := c], p_len := Suc (p_len p)\<rparr>"
  have "irc_parser_append_raw p c = Inr ?r"
    using assms by (simp add: irc_parser_append_raw_def Let_def IRC_PARSER_RAW_BUFFER_SIZE_def)
  then have "irc_parser_char cb p 0 (c # rest) = Inr (Return (irc_parser_trigger_error cb ?r (c # rest) (p_error ?r)) 0)"
    using assms by (simp add: irc_parser_char_def text_byte_def irc_parser_default_char_def Let_def)
  then show ?thesis using assms by (simp add: irc_parser_execute_def)
qed

lemma stuck_faults:
  "parser_stuck p \<Longrightarrow> text_byte c \<Longrightarrow> irc_parser_execute cb p (c # rest) = Inl (RawOverrun 513)"
  by (simp add: irc_parser_execute_def irc_parser_char_def text_byte_def irc_parser_append_raw_def
      parser_stuck_def parser_shape_def IRC_PARSER_RAW_BUFFER_SIZE_def)

end
