(* ===== verification/Line_Parser.thy ===== *)
theory Line_Parser
  imports Commands Irc_Parser_Recovery
begin

text \<open>
  The line parser, \<open>libircclient-src/irc_line_parser.c\<close>: the callbacks that copy the parts of a
  message into heap blocks, the dispatch of a finished message and the release of the result.
  The parser's data is the world, or the \<open>stop\<close> a callback ran into. These callbacks provide the
  interface \<open>parser_client\<close>.
\<close>

section \<open>Storing the parts\<close>

text \<open>The block \<open>calloc_and_copy_string\<close> makes: the text up to a terminator, padded with zeros.\<close>

definition calloc_and_copy_string :: "string \<Rightarrow> string" where
  "calloc_and_copy_string at = cstr at @ replicate (length at + 1 - length (cstr at)) NUL"

definition on_nick :: "string \<Rightarrow> 'a world \<Rightarrow> stop + 'a world" where
  "on_nick at w = (case alloc_str (calloc_and_copy_string at) w of (a, w) \<Rightarrow>
     Inr (on_result (\<lambda>r. r\<lparr>r_nick := Some a\<rparr>) w))"

definition on_name :: "string \<Rightarrow> 'a world \<Rightarrow> stop + 'a world" where
  "on_name at w = (case alloc_str (calloc_and_copy_string at) w of (a, w) \<Rightarrow>
     Inr (on_result (\<lambda>r. r\<lparr>r_name := Some a\<rparr>) w))"

definition on_host :: "string \<Rightarrow> 'a world \<Rightarrow> stop + 'a world" where
  "on_host at w = (case alloc_str (calloc_and_copy_string at) w of (a, w) \<Rightarrow>
     Inr (on_result (\<lambda>r. r\<lparr>r_host := Some a\<rparr>) w))"

definition on_command :: "string \<Rightarrow> 'a world \<Rightarrow> stop + 'a world" where
  "on_command at w = (case alloc_str (calloc_and_copy_string at) w of (a, w) \<Rightarrow>
     Inr (on_result (\<lambda>r. r\<lparr>r_command := Some a\<rparr>) w))"

definition on_param :: "string \<Rightarrow> 'a world \<Rightarrow> stop + 'a world" where
  "on_param at w =
     (if r_num_params (w_result w) < MAX_PARAMS_ALLOWED
      then (case alloc_str (calloc_and_copy_string at) w of (a, w) \<Rightarrow>
         Inr (on_result (\<lambda>r. r\<lparr>r_params := (r_params r)[r_num_params r := Some a],
                               r_num_params := r_num_params r + 1\<rparr>) w))
      else Inr w)"

definition on_error :: "string \<Rightarrow> 'a world \<Rightarrow> stop + 'a world" where
  "on_error at w = Inr w"

definition free_parser_result :: "'a world \<Rightarrow> stop + 'a world" where
  "free_parser_result w =
     and_then (free_ptr (r_nick (w_result w)) w) (\<lambda>w.
     and_then (free_ptr (r_name (w_result w)) (on_result (\<lambda>r. r\<lparr>r_nick := None\<rparr>) w)) (\<lambda>w.
     and_then (free_ptr (r_host (w_result w)) (on_result (\<lambda>r. r\<lparr>r_name := None\<rparr>) w)) (\<lambda>w.
     and_then (free_ptr (r_command (w_result w)) (on_result (\<lambda>r. r\<lparr>r_host := None\<rparr>) w)) (\<lambda>w.
     let w = on_result (\<lambda>r. r\<lparr>r_command := None\<rparr>) w in
     and_then (free_params 0 (r_num_params (w_result w)) w) (\<lambda>w.
     Inr (on_result (\<lambda>r. r\<lparr>r_num_params := 0\<rparr>) w))))))"

text \<open>The sender as text, \<open>nick!name@host\<close>; a host without a name is left out.\<close>

definition create_prefix_from_result :: "'a world \<Rightarrow> stop + string" where
  "create_prefix_from_result w =
     (let r = w_result w; h = w_heap w in
      if r_nick r = None then Inr []
      else and_then (heap_str h (r_nick r)) (\<lambda>nick.
        if r_name r = None then Inr nick
        else and_then (heap_str h (r_name r)) (\<lambda>name.
          if r_host r = None then Inr (nick @ ''!'' @ name)
          else and_then (heap_str h (r_host r)) (\<lambda>host. Inr (nick @ ''!'' @ name @ ''@'' @ host)))))"

section \<open>Dispatch\<close>

definition is_numeric_command :: "string \<Rightarrow> bool" where
  "is_numeric_command command \<longleftrightarrow> length command = 3 \<and> list_all is_digit command"

definition handle_parser_result :: "'a irc_callbacks \<Rightarrow> string \<Rightarrow> 'a world \<Rightarrow> stop + 'a world" where
  "handle_parser_result cbs at w =
     (if r_command (w_result w) = None then Inr w
      else and_then (heap_str (w_heap w) (r_command (w_result w))) (\<lambda>command.
        if is_numeric_command command then
          (let code = digits_value 0 command in
           and_then
             (if (code = 376 \<or> code = 422) \<and> \<not> has_flag (w_session w) SESSIONFL_MOTD_RECEIVED
              then fire (event_connect cbs) ''CONNECT''
                (on_session (\<lambda>s. s\<lparr>s_flags := or (s_flags s) SESSIONFL_MOTD_RECEIVED\<rparr>) w)
              else Inr w) (\<lambda>w.
           case event_numeric cbs of None \<Rightarrow> Inr w | Some f \<Rightarrow> f code w))
        else execute_command cbs (get_command command (length command)) command w))"

text \<open>A callback of the parser runs on the world unless an earlier one stopped.\<close>

definition line_cb :: "(string \<Rightarrow> 'a world \<Rightarrow> stop + 'a world) \<Rightarrow> (stop + 'a world) irc_parser_cb" where
  "line_cb f d at = (and_then d (f at), 0)"

definition line_parser_settings :: "'a irc_callbacks \<Rightarrow> (stop + 'a world) irc_parser_settings" where
  "line_parser_settings cbs = irc_parser_settings_init (Some (line_cb on_nick)) (Some (line_cb on_name))
     (Some (line_cb on_host)) (Some (line_cb on_command)) (Some (line_cb on_param))
     (Some (line_cb (handle_parser_result cbs))) (Some (line_cb on_error))"

text \<open>\<open>Calloc\<close> gives the parser a zeroed buffer of 513 bytes.\<close>

definition create_line_parser :: "'a world \<Rightarrow> (stop + 'a world) irc_parser" where
  "create_line_parser w =
     irc_parser_init (Inr w) (replicate (IRC_PARSER_RAW_BUFFER_SIZE + 1) NUL)"

section \<open>The interface of the parser\<close>

fun line_step :: "'a irc_callbacks \<Rightarrow> irc_part \<Rightarrow> string \<Rightarrow> 'a world \<Rightarrow> stop + 'a world" where
  "line_step cbs PNick = on_nick"
| "line_step cbs PName = on_name"
| "line_step cbs PHost = on_host"
| "line_step cbs PCommand = on_command"
| "line_step cbs PParam = on_param"
| "line_step cbs PFinish = handle_parser_result cbs"

definition line_effect :: "'a irc_callbacks \<Rightarrow> irc_part \<Rightarrow> string \<Rightarrow> stop + 'a world \<Rightarrow> stop + 'a world" where
  "line_effect cbs part at d = and_then d (line_step cbs part at)"

interpretation line: parser_client "line_parser_settings cbs" "line_effect cbs" for cbs :: "'a irc_callbacks"
  by unfold_locales
    (simp_all add: line_parser_settings_def irc_parser_settings_init_def line_cb_def line_effect_def fun_eq_iff)

end
