(* ===== verification/Line_Memory.thy ===== *)
theory Line_Memory
  imports Line_Parser
begin

text \<open>
  The heap blocks of a parsed line: what the parser's callbacks store for a well-formed message,
  that \<open>free_parser_result\<close> releases all of it, and the messages after which it does not, or that
  make a handler read through a bad pointer.
\<close>

section \<open>Slots\<close>

text \<open>The pointers of the result by number: nick, name, host, command, then the parameters.\<close>

definition slot :: "irc_parser_result \<Rightarrow> nat \<Rightarrow> addr option" where
  "slot r k = (if k = 0 then r_nick r else if k = 1 then r_name r else if k = 2 then r_host r
     else if k = 3 then r_command r
     else if k - 4 < length (r_params r) then r_params r ! (k - 4) else None)"

text \<open>The result shows the texts \<open>tx\<close>: every pointer that is set is live and has a block of its own,
  its text and a terminator, and the other
  blocks are those of \<open>base\<close>.\<close>

fun slot_ok :: "(addr \<Rightarrow> string option) \<Rightarrow> (addr \<Rightarrow> string option) \<Rightarrow> addr option \<Rightarrow> string option \<Rightarrow> bool" where
  "slot_ok base c None t = (t = None)"
| "slot_ok base c (Some a) t = (base a = None \<and> (\<exists>s. c a = Some (s @ [NUL]) \<and> is_cstr s \<and> t = Some s))"

lemma on_result_sel [simp]:
  "w_heap (on_result f w) = w_heap w" "w_result (on_result f w) = f (w_result w)"
  "w_session (on_result f w) = w_session w" "w_cfg (on_result f w) = w_cfg w"
  "w_os (on_result f w) = w_os w" "w_app (on_result f w) = w_app w"
  by (simp_all add: on_result_def)

definition shows_line :: "(addr \<Rightarrow> string option) \<Rightarrow> (nat \<Rightarrow> string option) \<Rightarrow> 'a world \<Rightarrow> bool" where
  "shows_line base tx w \<longleftrightarrow>
     (let r = w_result w; c = h_cells (w_heap w) in
      (\<forall>k. slot_ok base c (slot r k) (tx k))
      \<and> (\<forall>j k a. slot r j = Some a \<longrightarrow> slot r k = Some a \<longrightarrow> j = k)
      \<and> (\<forall>a. (\<forall>k. slot r k \<noteq> Some a) \<longrightarrow> c a = base a)
      \<and> (\<forall>a. h_next (w_heap w) \<le> a \<longrightarrow> c a = None)
      \<and> length (r_params r) = MAX_PARAMS_ALLOWED + 1)"

lemma shows_line_read:
  assumes "shows_line base tx w" and "tx k = Some t"
  shows "heap_str (w_heap w) (slot (w_result w) k) = Inr t"
proof -
  have "slot_ok base (h_cells (w_heap w)) (slot (w_result w) k) (tx k)"
    using assms(1) unfolding shows_line_def Let_def by blast
  then show ?thesis using assms(2)
    by (cases "slot (w_result w) k") (auto simp: heap_str_def heap_block_def cstr_append_NUL)
qed

lemma shows_line_none:
  assumes "shows_line base tx w"
  shows "tx k = None \<longleftrightarrow> slot (w_result w) k = None"
proof -
  have "slot_ok base (h_cells (w_heap w)) (slot (w_result w) k) (tx k)"
    using assms unfolding shows_line_def Let_def by blast
  then show ?thesis by (cases "slot (w_result w) k") auto
qed

lemma calloc_copy: "is_cstr at \<Longrightarrow> calloc_and_copy_string at = at @ [NUL]"
  by (simp add: calloc_and_copy_string_def cstr_id)

text \<open>Storing into an empty slot.\<close>

lemma shows_line_store:
  assumes "shows_line base tx w" and "tx k = None" and "is_cstr at"
    and "alloc_str (calloc_and_copy_string at) w = (a, v)"
    and "slot (f (w_result w)) = (slot (w_result w))(k := Some a)"
    and "length (r_params (f (w_result w))) = length (r_params (w_result w))"
  shows "shows_line base (tx(k := Some at)) (on_result f v)"
proof -
  let ?h = "w_heap w" and ?r = "w_result w"
  let ?b = "calloc_and_copy_string at"
  have v: "a = h_next ?h" "w_heap v = ?h\<lparr>h_next := Suc (h_next ?h), h_cells := (h_cells ?h)(h_next ?h \<mapsto> ?b)\<rparr>"
    "w_result v = ?r"
    using assms(4) by (auto simp: alloc_str_def heap_alloc_def)
  have s: "\<And>k. slot_ok base (h_cells ?h) (slot ?r k) (tx k)"
    "\<And>j k a. slot ?r j = Some a \<Longrightarrow> slot ?r k = Some a \<Longrightarrow> j = k"
    "\<And>a. (\<forall>k. slot ?r k \<noteq> Some a) \<Longrightarrow> h_cells ?h a = base a"
    "\<And>a. h_next ?h \<le> a \<Longrightarrow> h_cells ?h a = None"
    "length (r_params ?r) = MAX_PARAMS_ALLOWED + 1"
    using assms(1) unfolding shows_line_def Let_def by blast+
  have fresh: "slot ?r j \<noteq> Some a" for j
    using s(1) [of j] s(4) [of a] v(1) by (cases "slot ?r j") auto
  have base: "base a = None" using s(3) [of a] s(4) [of a] fresh v(1) by simp
  have 1: "slot_ok base ((h_cells ?h)(a \<mapsto> ?b)) (slot (f ?r) j) ((tx(k := Some at)) j)" for j
  proof (cases "j = k")
    case True
    then show ?thesis using base assms(3,5) by (simp add: calloc_copy)
  next
    case False
    then show ?thesis using s(1) [of j] fresh [of j] assms(5) by (cases "slot ?r j") auto
  qed
  have 2: "i = j" if "slot (f ?r) i = Some x" "slot (f ?r) j = Some x" for i j x
    using that s(2) [of i x j] fresh assms(5) by (metis fun_upd_apply)
  have 3: "((h_cells ?h)(a \<mapsto> ?b)) x = base x" if "\<forall>j. slot (f ?r) j \<noteq> Some x" for x
  proof -
    have "x \<noteq> a" using that [rule_format, of k] assms(5) by auto
    moreover have "slot ?r j \<noteq> Some x" for j
      using that [rule_format, of j] assms(5) assms(2) shows_line_none [OF assms(1), of k]
      by (cases "j = k") auto
    ultimately show ?thesis using s(3) by simp
  qed
  show ?thesis
    unfolding shows_line_def Let_def using 1 2 3 s(4,5) v assms(6) by simp
qed

text \<open>Freeing a slot and setting it to \<open>NULL\<close>.\<close>

lemma shows_line_free:
  assumes "shows_line base tx w" and "slot (f (w_result w)) = (slot (w_result w))(k := None)"
    and "length (r_params (f (w_result w))) = length (r_params (w_result w))"
  shows "\<exists>v. free_ptr (slot (w_result w) k) w = Inr v \<and> v = w\<lparr>w_heap := w_heap v\<rparr>
     \<and> shows_line base (tx(k := None)) (on_result f v)"
proof -
  let ?h = "w_heap w" and ?r = "w_result w"
  have s: "\<And>k. slot_ok base (h_cells ?h) (slot ?r k) (tx k)"
    "\<And>j k a. slot ?r j = Some a \<Longrightarrow> slot ?r k = Some a \<Longrightarrow> j = k"
    "\<And>a. (\<forall>k. slot ?r k \<noteq> Some a) \<Longrightarrow> h_cells ?h a = base a"
    "\<And>a. h_next ?h \<le> a \<Longrightarrow> h_cells ?h a = None"
    "length (r_params ?r) = MAX_PARAMS_ALLOWED + 1"
    using assms(1) unfolding shows_line_def Let_def by blast+
  show ?thesis
  proof (cases "slot ?r k")
    case None
    then have same: "slot (f ?r) = slot ?r" "tx(k := None) = tx"
      using assms(2) s(1) [of k] by (auto simp: fun_eq_iff)
    have "shows_line base tx (on_result f w)"
      using s assms(3) unfolding shows_line_def Let_def by (simp add: same)
    then show ?thesis using None same by (simp add: free_ptr_def heap_free_def)
  next
    case (Some a)
    let ?c = "(h_cells ?h)(a := None)"
    let ?v = "w\<lparr>w_heap := ?h\<lparr>h_cells := ?c\<rparr>\<rparr>"
    have a: "h_cells ?h a \<noteq> None" "base a = None" using s(1) [of k] Some by auto
    have 1: "slot_ok base ?c (slot (f ?r) j) ((tx(k := None)) j)" for j
      using s(1) [of j] s(2) [of j a k] Some assms(2) by (cases "slot ?r j") auto
    have 2: "i = j" if "slot (f ?r) i = Some x" "slot (f ?r) j = Some x" for i j x
      using that s(2) [of i x j] assms(2) by (auto split: if_splits)
    have 3: "?c x = base x" if "\<forall>j. slot (f ?r) j \<noteq> Some x" for x
    proof (cases "x = a")
      case False
      then have "slot ?r j \<noteq> Some x" for j
        using that [rule_format, of j] assms(2) Some by (cases "j = k") auto
      then show ?thesis using s(3) False by simp
    qed (use a in simp)
    have "shows_line base (tx(k := None)) (on_result f ?v)"
      unfolding shows_line_def Let_def using 1 2 3 s(4,5) assms(3) by simp
    moreover have "free_ptr (slot ?r k) w = Inr ?v" using a Some by (simp add: free_ptr_def heap_free_def)
    ultimately show ?thesis by (intro exI [of _ ?v]) simp
  qed
qed

section \<open>Storing a message\<close>

definition same_rest :: "'a world \<Rightarrow> 'a world \<Rightarrow> bool" where
  "same_rest w v \<longleftrightarrow> w_session v = w_session w \<and> w_cfg v = w_cfg w \<and> w_os v = w_os w \<and> w_app v = w_app w"

lemma same_rest_refl [simp]: "same_rest w w"
  by (simp add: same_rest_def)

lemma same_rest_trans: "same_rest w v \<Longrightarrow> same_rest v u \<Longrightarrow> same_rest w u"
  by (simp add: same_rest_def)

lemma alloc_rest: "alloc_str b w = (a, v) \<Longrightarrow> same_rest w v \<and> w_result v = w_result w"
  by (auto simp: alloc_str_def heap_alloc_def same_rest_def)

text \<open>\<open>n\<close> parameters are stored.\<close>

definition holds_line :: "(addr \<Rightarrow> string option) \<Rightarrow> (nat \<Rightarrow> string option) \<Rightarrow> nat \<Rightarrow> 'a world \<Rightarrow> bool" where
  "holds_line base tx n w \<longleftrightarrow> shows_line base tx w \<and> r_num_params (w_result w) = n
     \<and> (\<forall>k. 4 + n \<le> k \<longrightarrow> tx k = None)"

fun part_slot :: "irc_part \<Rightarrow> nat" where
  "part_slot PNick = 0"
| "part_slot PName = 1"
| "part_slot PHost = 2"
| "part_slot PCommand = 3"
| "part_slot _ = 4"

lemma slot_updates:
  "slot (r\<lparr>r_nick := p\<rparr>) = (slot r)(0 := p)"
  "slot (r\<lparr>r_name := p\<rparr>) = (slot r)(1 := p)"
  "slot (r\<lparr>r_host := p\<rparr>) = (slot r)(2 := p)"
  "slot (r\<lparr>r_command := p\<rparr>) = (slot r)(3 := p)"
  "slot (r\<lparr>r_num_params := n\<rparr>) = slot r"
  "i < length (r_params r) \<Longrightarrow> slot (r\<lparr>r_params := (r_params r)[i := p]\<rparr>) = (slot r)(4 + i := p)"
  "i < length (r_params r) \<Longrightarrow> slot (r\<lparr>r_params := (r_params r)[i := p], r_num_params := n\<rparr>) = (slot r)(4 + i := p)"
  by (auto simp: slot_def fun_eq_iff nth_list_update)

lemma store_part:
  assumes "holds_line base tx n w" and "part \<in> {PNick, PName, PHost, PCommand}"
    and "tx (part_slot part) = None" and "is_cstr at"
  shows "\<exists>v. line_step cbs part at w = Inr v \<and> holds_line base (tx(part_slot part := Some at)) n v \<and> same_rest w v"
proof -
  obtain a u where a: "alloc_str (calloc_and_copy_string at) w = (a, u)" by (cases "alloc_str (calloc_and_copy_string at) w")
  have sl: "shows_line base tx w" using assms(1) by (simp add: holds_line_def)
  have u: "w_result u = w_result w" "same_rest w u" using alloc_rest [OF a] by auto
  have st: "shows_line base (tx(part_slot part := Some at)) (on_result f u)"
    if "slot (f (w_result w)) = (slot (w_result w))(part_slot part := Some a)"
      "length (r_params (f (w_result w))) = length (r_params (w_result w))" for f
    using shows_line_store [where f = f, OF sl assms(3,4) a] that by blast
  have h: "holds_line base (tx(part_slot part := Some at)) n (on_result f u)"
    if "slot (f (w_result w)) = (slot (w_result w))(part_slot part := Some a)"
      "r_params (f (w_result w)) = r_params (w_result w)"
      "r_num_params (f (w_result w)) = r_num_params (w_result w)" for f
  proof -
    have "part_slot part < 4" using assms(2) by auto
    then show ?thesis using st [of f] that assms(1) u(1) by (auto simp: holds_line_def)
  qed
  have r: "same_rest w (on_result f u)" for f using u(2) by (simp add: same_rest_def)
  show ?thesis
  proof (cases part)
    case PNick
    then show ?thesis using h [of "\<lambda>r. r\<lparr>r_nick := Some a\<rparr>"] r by (simp add: on_nick_def a slot_updates)
  next
    case PName
    then show ?thesis using h [of "\<lambda>r. r\<lparr>r_name := Some a\<rparr>"] r by (simp add: on_name_def a slot_updates)
  next
    case PHost
    then show ?thesis using h [of "\<lambda>r. r\<lparr>r_host := Some a\<rparr>"] r by (simp add: on_host_def a slot_updates)
  next
    case PCommand
    then show ?thesis using h [of "\<lambda>r. r\<lparr>r_command := Some a\<rparr>"] r by (simp add: on_command_def a slot_updates)
  qed (use assms(2) in auto)
qed

lemma store_param:
  assumes "holds_line base tx n w" and "n < MAX_PARAMS_ALLOWED" and "is_cstr at"
  shows "\<exists>v. line_step cbs PParam at w = Inr v \<and> holds_line base (tx(4 + n := Some at)) (Suc n) v \<and> same_rest w v"
proof -
  obtain a u where a: "alloc_str (calloc_and_copy_string at) w = (a, u)" by (cases "alloc_str (calloc_and_copy_string at) w")
  have u: "w_result u = w_result w" "same_rest w u" using alloc_rest [OF a] by auto
  let ?f = "\<lambda>r. r\<lparr>r_params := (r_params r)[r_num_params r := Some a], r_num_params := r_num_params r + 1\<rparr>"
  have sl: "shows_line base tx w" "tx (4 + n) = None" "r_num_params (w_result w) = n"
    using assms(1) by (auto simp: holds_line_def)
  have len: "length (r_params (w_result w)) = MAX_PARAMS_ALLOWED + 1" using sl(1) unfolding shows_line_def Let_def by blast
  have "slot (?f (w_result w)) = (slot (w_result w))(4 + n := Some a)"
    using slot_updates(7) [of n "w_result w"] len assms(2) sl(3) by simp
  then have "shows_line base (tx(4 + n := Some at)) (on_result ?f u)"
    using shows_line_store [where f = ?f, OF sl(1,2) assms(3) a] by simp
  then have "holds_line base (tx(4 + n := Some at)) (Suc n) (on_result ?f u)"
    using assms(1) u(1) by (simp add: holds_line_def)
  moreover have "line_step cbs PParam at w = Inr (on_result ?f u)"
    using assms(2) sl(3) by (simp add: on_param_def a)
  ultimately show ?thesis using u(2) by (simp add: same_rest_def)
qed

text \<open>Running the callbacks over a list of parts.\<close>

definition deliver_line :: "'a irc_callbacks \<Rightarrow> (irc_part \<times> string) list \<Rightarrow> stop + 'a world \<Rightarrow> stop + 'a world" where
  "deliver_line cbs ps d = fold (\<lambda>(part, at) d. and_then d (line_step cbs part at)) ps d"

lemma deliver_line_simps [simp]:
  "deliver_line cbs [] d = d"
  "deliver_line cbs ((part, at) # ps) (Inr w) = deliver_line cbs ps (line_step cbs part at w)"
  "deliver_line cbs (ps @ qs) d = deliver_line cbs qs (deliver_line cbs ps d)"
  by (simp_all add: deliver_line_def)

lemma deliver_line_eq: "parser_client.deliver (line_effect cbs) = deliver_line cbs"
proof -
  have "line_effect cbs = (\<lambda>part at d. and_then d (line_step cbs part at))"
    by (simp add: line_effect_def fun_eq_iff)
  then show ?thesis
    by (intro ext) (subst parser_client.deliver_def [OF line.parser_client_axioms], simp add: deliver_line_def)
qed

definition with_params :: "nat \<Rightarrow> string list \<Rightarrow> (nat \<Rightarrow> string option) \<Rightarrow> nat \<Rightarrow> string option" where
  "with_params n ps tx k = (if 4 + n \<le> k \<and> k < 4 + n + length ps then Some (ps ! (k - 4 - n)) else tx k)"

lemma with_params_Nil [simp]: "with_params n [] tx = tx"
  by (auto simp: with_params_def fun_eq_iff)

lemma with_params_Cons: "with_params (Suc n) ps (tx(4 + n := Some p)) = with_params n (p # ps) tx"
  by (auto simp: with_params_def fun_eq_iff nth_Cons' not_less_eq_eq le_Suc_eq)

lemma store_params:
  "holds_line base tx n w \<Longrightarrow> n + length ps \<le> MAX_PARAMS_ALLOWED \<Longrightarrow> list_all is_cstr ps \<Longrightarrow>
     \<exists>v. deliver_line cbs (map (\<lambda>x. (PParam, x)) ps) (Inr w) = Inr v
       \<and> holds_line base (with_params n ps tx) (n + length ps) v \<and> same_rest w v"
proof (induction ps arbitrary: n tx w)
  case (Cons p ps)
  obtain u where u: "line_step cbs PParam p w = Inr u" "holds_line base (tx(4 + n := Some p)) (Suc n) u" "same_rest w u"
    using store_param [OF Cons.prems(1), of p cbs] Cons.prems(2,3) by auto
  obtain v where v: "deliver_line cbs (map (\<lambda>x. (PParam, x)) ps) (Inr u) = Inr v"
    "holds_line base (with_params (Suc n) ps (tx(4 + n := Some p))) (Suc n + length ps) v" "same_rest u v"
    using Cons.IH [OF u(2)] Cons.prems(2,3) by (auto simp del: fun_upd_apply)
  have "holds_line base (with_params n (p # ps) tx) (n + length (p # ps)) v"
    using v(2) unfolding with_params_Cons by simp
  moreover have "deliver_line cbs (map (\<lambda>x. (PParam, x)) (p # ps)) (Inr w) = Inr v"
    using u(1) v(1) by simp
  ultimately show ?case using same_rest_trans [OF u(3) v(3)] by blast
qed auto

text \<open>The texts of a message.\<close>

definition prefix_view :: "(string \<times> string option \<times> string option) option \<Rightarrow> nat \<Rightarrow> string option" where
  "prefix_view pre k = (case pre of None \<Rightarrow> None
     | Some (nick, user, host) \<Rightarrow> if k = 0 then Some nick else if k = 1 then user else if k = 2 then host else None)"

definition message_view :: "irc_message \<Rightarrow> nat \<Rightarrow> string option" where
  "message_view m = with_params 0 (m_params m) ((prefix_view (m_prefix m))(3 := Some (m_command m)))"

definition cstr_message :: "irc_message \<Rightarrow> bool" where
  "cstr_message m \<longleftrightarrow> (case m_prefix m of None \<Rightarrow> True
      | Some (n, u, h) \<Rightarrow> is_cstr n \<and> (case u of None \<Rightarrow> True | Some u \<Rightarrow> is_cstr u)
          \<and> (case h of None \<Rightarrow> True | Some h \<Rightarrow> is_cstr h))
    \<and> is_cstr (m_command m) \<and> list_all is_cstr (m_params m) \<and> length (m_params m) \<le> MAX_PARAMS_ALLOWED"

text \<open>A world with no line: the result is empty.\<close>

definition no_line :: "'a world \<Rightarrow> bool" where
  "no_line w \<longleftrightarrow> w_result w = empty_result \<and> (\<forall>a. h_next (w_heap w) \<le> a \<longrightarrow> h_cells (w_heap w) a = None)"

lemma slot_empty: "slot empty_result k = None"
proof -
  have "replicate (MAX_PARAMS_ALLOWED + 1) None ! i = None" if "i < MAX_PARAMS_ALLOWED + 1" for i
    using that by (rule nth_replicate)
  then show ?thesis by (simp add: slot_def empty_result_def del: replicate_Suc)
qed

lemma no_line_holds: "no_line w \<Longrightarrow> holds_line (h_cells (w_heap w)) (\<lambda>k. None) 0 w"
  by (auto simp: no_line_def holds_line_def shows_line_def slot_empty Let_def) (simp_all add: empty_result_def)

lemma store_prefix:
  assumes "holds_line base (\<lambda>k. None) 0 w" and "cstr_message m"
  shows "\<exists>v. deliver_line cbs (prefix_parts (m_prefix m)) (Inr w) = Inr v
    \<and> holds_line base (prefix_view (m_prefix m)) 0 v \<and> same_rest w v"
proof (cases "m_prefix m")
  case None
  moreover have "prefix_view None = (\<lambda>k. None)" by (simp add: prefix_view_def fun_eq_iff)
  ultimately show ?thesis using assms(1) by (auto simp: prefix_parts_def)
next
  case (Some pre)
  obtain n u h where pre: "pre = (n, u, h)" by (cases pre)
  have c: "is_cstr n" "u = Some x \<Longrightarrow> is_cstr x" "h = Some x \<Longrightarrow> is_cstr x" for x
    using assms(2) by (auto simp: cstr_message_def Some pre split: option.splits)
  obtain v where v: "line_step cbs PNick n w = Inr v" "holds_line base ((\<lambda>k. None)(0 := Some n)) 0 v" "same_rest w v"
    using store_part [OF assms(1), of PNick n cbs] c(1) by auto
  define tx where "tx = (\<lambda>k::nat. if k = 0 then Some n else if k = 1 then u else None)"
  have "\<exists>v'. deliver_line cbs (case u of None \<Rightarrow> [] | Some u \<Rightarrow> [(PName, u)]) (Inr v) = Inr v'
     \<and> holds_line base tx 0 v' \<and> same_rest w v'"
  proof (cases u)
    case None
    then have "tx = (\<lambda>k. None)(0 := Some n)" by (auto simp: tx_def)
    then show ?thesis using None v by auto
  next
    case (Some x)
    have "((\<lambda>k. None)(0 := Some n))(1 := Some x) = tx" by (auto simp: tx_def Some fun_eq_iff)
    then show ?thesis
      using store_part [OF v(2), of PName x cbs] c(2) [OF Some] same_rest_trans [OF v(3)] Some by auto
  qed
  then obtain v' where v': "deliver_line cbs (case u of None \<Rightarrow> [] | Some u \<Rightarrow> [(PName, u)]) (Inr v) = Inr v'"
    "holds_line base tx 0 v'" "same_rest w v'" by blast
  have "\<exists>x. deliver_line cbs (case h of None \<Rightarrow> [] | Some h \<Rightarrow> [(PHost, h)]) (Inr v') = Inr x
     \<and> holds_line base (prefix_view (Some (n, u, h))) 0 x \<and> same_rest w x"
  proof (cases h)
    case None
    then have "prefix_view (Some (n, u, h)) = tx" by (auto simp: tx_def prefix_view_def fun_eq_iff)
    then show ?thesis using None v' by auto
  next
    case (Some x)
    have "tx(2 := Some x) = prefix_view (Some (n, u, h))" by (auto simp: tx_def prefix_view_def Some fun_eq_iff)
    moreover have "tx 2 = None" by (simp add: tx_def)
    ultimately show ?thesis
      using store_part [OF v'(2), of PHost x cbs] c(3) [OF Some] same_rest_trans [OF v'(3)] Some by auto
  qed
  then show ?thesis using v(1) v'(1) by (auto simp: prefix_parts_def Some pre)
qed

lemma store_message:
  assumes "no_line w" and "cstr_message m"
  shows "\<exists>v. deliver_line cbs (message_parts m) (Inr w) = handle_parser_result cbs (last (m_params m)) v
    \<and> holds_line (h_cells (w_heap w)) (message_view m) (length (m_params m)) v \<and> same_rest w v"
proof -
  let ?base = "h_cells (w_heap w)"
  obtain u where u: "deliver_line cbs (prefix_parts (m_prefix m)) (Inr w) = Inr u"
    "holds_line ?base (prefix_view (m_prefix m)) 0 u" "same_rest w u"
    using store_prefix [OF no_line_holds [OF assms(1)] assms(2)] by blast
  have "prefix_view (m_prefix m) 3 = None" by (simp add: prefix_view_def split: option.splits)
  then obtain x where x: "line_step cbs PCommand (m_command m) u = Inr x"
    "holds_line ?base ((prefix_view (m_prefix m))(3 := Some (m_command m))) 0 x" "same_rest u x"
    using store_part [OF u(2), of PCommand "m_command m" cbs] assms(2) by (auto simp: cstr_message_def)
  obtain v where v: "deliver_line cbs (map (\<lambda>x. (PParam, x)) (m_params m)) (Inr x) = Inr v"
    "holds_line ?base (message_view m) (length (m_params m)) v" "same_rest x v"
    using store_params [OF x(2), of "m_params m" cbs] assms(2) by (auto simp: cstr_message_def message_view_def)
  have "deliver_line cbs (message_parts m) (Inr w) = handle_parser_result cbs (last (m_params m)) v"
    unfolding message_parts_def deliver_line_simps(3) u(1) using x(1) v(1) by simp
  then show ?thesis using v same_rest_trans [OF same_rest_trans [OF u(3) x(3)] v(3)] by blast
qed

section \<open>Releasing a line\<close>

text \<open>\<open>free\<close> of a pointer that is part of what the world shows.\<close>

lemma free_step:
  assumes "shows_line base tx w" and "slot (f (w_result w)) = (slot (w_result w))(k := None)"
    and "length (r_params (f (w_result w))) = length (r_params (w_result w))"
  shows "\<exists>v. free_ptr (slot (w_result w) k) w = Inr v \<and> w_result v = w_result w \<and> same_rest w v
    \<and> shows_line base (tx(k := None)) (on_result f v)"
proof -
  obtain v where v: "free_ptr (slot (w_result w) k) w = Inr v" "v = w\<lparr>w_heap := w_heap v\<rparr>"
    "shows_line base (tx(k := None)) (on_result f v)"
    using shows_line_free [where f = f and k = k, OF assms(1)] assms(2,3) by blast
  have "w_result v = w_result w" "same_rest w v"
    by (subst v(2), simp)+ (subst v(2), simp add: same_rest_def)
  then show ?thesis using v by blast
qed

lemma free_params_ok:
  "shows_line base tx w \<Longrightarrow> i + n \<le> MAX_PARAMS_ALLOWED + 1 \<Longrightarrow>
     \<exists>v. free_params i n w = Inr v \<and> same_rest w v
       \<and> shows_line base (\<lambda>k. if 4 + i \<le> k \<and> k < 4 + i + n then None else tx k) v
       \<and> w_result v = (w_result w)\<lparr>r_params := r_params (w_result v)\<rparr>"
proof (induction n arbitrary: i tx w)
  case 0
  have "(\<lambda>k. if 4 + i \<le> k \<and> k < 4 + i + 0 then None else tx k) = tx" by (auto simp: fun_eq_iff)
  then show ?case using 0 by (auto simp: same_rest_def)
next
  case (Suc n)
  let ?f = "\<lambda>r. r\<lparr>r_params := (r_params r)[i := None]\<rparr>"
  have len: "length (r_params (w_result w)) = MAX_PARAMS_ALLOWED + 1"
    using Suc.prems(1) unfolding shows_line_def Let_def by blast
  have i: "i < length (r_params (w_result w))" using len Suc.prems(2) by simp
  have f: "slot (?f (w_result w)) = (slot (w_result w))(4 + i := None)" using slot_updates(6) [OF i] by simp
  have "\<exists>v. free_ptr (slot (w_result w) (4 + i)) w = Inr v \<and> w_result v = w_result w \<and> same_rest w v
    \<and> shows_line base (tx(4 + i := None)) (on_result ?f v)"
    by (rule free_step [where f = ?f, OF Suc.prems(1) f]) simp
  then obtain u where u: "free_ptr (slot (w_result w) (4 + i)) w = Inr u" "w_result u = w_result w" "same_rest w u"
    "shows_line base (tx(4 + i := None)) (on_result ?f u)"
    by blast
  have slot: "slot (w_result w) (4 + i) = r_params (w_result w) ! i" using i by (simp add: slot_def)
  obtain v where v: "free_params (Suc i) n (on_result ?f u) = Inr v" "same_rest (on_result ?f u) v"
    "shows_line base (\<lambda>k. if 4 + Suc i \<le> k \<and> k < 4 + Suc i + n then None else (tx(4 + i := None)) k) v"
    "w_result v = (w_result (on_result ?f u))\<lparr>r_params := r_params (w_result v)\<rparr>"
    using Suc.IH [OF u(4), of "Suc i"] Suc.prems(2) by auto
  have "(\<lambda>k. if 4 + Suc i \<le> k \<and> k < 4 + Suc i + n then None else (tx(4 + i := None)) k)
    = (\<lambda>k. if 4 + i \<le> k \<and> k < 4 + i + Suc n then None else tx k)" by (auto simp: fun_eq_iff)
  moreover have "same_rest w v" using u(3) v(2) by (simp add: same_rest_def)
  moreover have "w_result v = (w_result w)\<lparr>r_params := r_params (w_result v)\<rparr>"
    by (subst v(4)) (simp add: u(2))
  ultimately show ?case using u(1) v(1,3) slot by auto
qed

lemma free_parser_result_ok:
  assumes "holds_line base tx n w" and "n \<le> MAX_PARAMS_ALLOWED"
  shows "\<exists>v. free_parser_result w = Inr v \<and> no_line v \<and> h_cells (w_heap v) = base \<and> same_rest w v"
proof -
  have s: "shows_line base tx w" "r_num_params (w_result w) = n" "\<And>k. 4 + n \<le> k \<Longrightarrow> tx k = None"
    using assms(1) by (auto simp: holds_line_def)
  let ?f0 = "\<lambda>r. r\<lparr>r_nick := None\<rparr>" and ?f1 = "\<lambda>r. r\<lparr>r_name := None\<rparr>"
  let ?f2 = "\<lambda>r. r\<lparr>r_host := None\<rparr>" and ?f3 = "\<lambda>r. r\<lparr>r_command := None\<rparr>"
  have sl: "slot r 0 = r_nick r" "slot r 1 = r_name r" "slot r 2 = r_host r" "slot r 3 = r_command r" for r
    by (simp_all add: slot_def)
  have "\<exists>v. free_ptr (slot (w_result w) 0) w = Inr v \<and> w_result v = w_result w \<and> same_rest w v
    \<and> shows_line base (tx(0 := None)) (on_result ?f0 v)"
    by (rule free_step [OF s(1)]) (simp_all add: slot_updates)
  then obtain a where a: "free_ptr (r_nick (w_result w)) w = Inr a" "w_result a = w_result w" "same_rest w a"
    "shows_line base (tx(0 := None)) (on_result ?f0 a)"
    unfolding sl by blast
  let ?a = "on_result ?f0 a"
  have "\<exists>v. free_ptr (slot (w_result ?a) 1) ?a = Inr v \<and> w_result v = w_result ?a \<and> same_rest ?a v
    \<and> shows_line base (tx(0 := None, 1 := None)) (on_result ?f1 v)"
    by (rule free_step [OF a(4)]) (simp_all add: slot_updates)
  then obtain b where b: "free_ptr (r_name (w_result ?a)) ?a = Inr b" "w_result b = w_result ?a" "same_rest ?a b"
    "shows_line base (tx(0 := None, 1 := None)) (on_result ?f1 b)"
    unfolding sl by blast
  let ?b = "on_result ?f1 b"
  have "\<exists>v. free_ptr (slot (w_result ?b) 2) ?b = Inr v \<and> w_result v = w_result ?b \<and> same_rest ?b v
    \<and> shows_line base (tx(0 := None, 1 := None, 2 := None)) (on_result ?f2 v)"
    by (rule free_step [OF b(4)]) (simp_all add: slot_updates)
  then obtain c where c: "free_ptr (r_host (w_result ?b)) ?b = Inr c" "w_result c = w_result ?b" "same_rest ?b c"
    "shows_line base (tx(0 := None, 1 := None, 2 := None)) (on_result ?f2 c)"
    unfolding sl by blast
  let ?c = "on_result ?f2 c"
  have "\<exists>v. free_ptr (slot (w_result ?c) 3) ?c = Inr v \<and> w_result v = w_result ?c \<and> same_rest ?c v
    \<and> shows_line base (tx(0 := None, 1 := None, 2 := None, 3 := None)) (on_result ?f3 v)"
    by (rule free_step [OF c(4)]) (simp_all add: slot_updates)
  then obtain d where d: "free_ptr (r_command (w_result ?c)) ?c = Inr d" "w_result d = w_result ?c" "same_rest ?c d"
    "shows_line base (tx(0 := None, 1 := None, 2 := None, 3 := None)) (on_result ?f3 d)"
    unfolding sl by blast
  let ?d = "on_result ?f3 d"
  have nd: "r_num_params (w_result ?d) = n" using s(2) a(2) b(2) c(2) d(2) by simp
  obtain e where e: "free_params 0 n ?d = Inr e" "same_rest ?d e"
    "shows_line base (\<lambda>k. if 4 + 0 \<le> k \<and> k < 4 + 0 + n then None else (tx(0 := None, 1 := None, 2 := None, 3 := None)) k) e"
    "w_result e = (w_result ?d)\<lparr>r_params := r_params (w_result e)\<rparr>"
    using free_params_ok [OF d(4), of 0 n] assms(2) by auto
  let ?e = "on_result (\<lambda>r. r\<lparr>r_num_params := 0\<rparr>) e"
  have empty: "(\<lambda>k. if 4 + 0 \<le> k \<and> k < 4 + 0 + n then None else (tx(0 := None, 1 := None, 2 := None, 3 := None)) k)
    = (\<lambda>k. None)" using s(3) by (auto simp: fun_eq_iff)
  then have se: "shows_line base (\<lambda>k. None) e" using e(3) by (simp only:)
  have none: "slot (w_result e) k = None" for k using shows_line_none [OF se, of k] by simp
  have len: "length (r_params (w_result e)) = MAX_PARAMS_ALLOWED + 1"
    using se unfolding shows_line_def Let_def by blast
  have "r_params (w_result e) ! i = None" if "i < MAX_PARAMS_ALLOWED + 1" for i
    using none [of "4 + i"] that len by (simp add: slot_def)
  then have params: "r_params (w_result e) = replicate (MAX_PARAMS_ALLOWED + 1) None"
    using len by (intro nth_equalityI) (simp_all del: replicate_Suc)
  have fields: "r_nick (w_result e) = None" "r_name (w_result e) = None" "r_host (w_result e) = None" "r_command (w_result e) = None"
    using none [of 0, unfolded sl] none [of 1, unfolded sl] none [of 2, unfolded sl] none [of 3, unfolded sl] by blast+
  have "w_result ?e = empty_result"
    unfolding empty_result_def on_result_sel using params fields
    by (cases "w_result e") (simp del: replicate_Suc)
  moreover have "h_cells (w_heap e) = base"
  proof
    fix x
    have "(\<forall>k. slot (w_result e) k \<noteq> Some x) \<longrightarrow> h_cells (w_heap e) x = base x"
      using se unfolding shows_line_def Let_def by blast
    then show "h_cells (w_heap e) x = base x" using none by simp
  qed
  moreover have "\<forall>x. h_next (w_heap e) \<le> x \<longrightarrow> h_cells (w_heap e) x = None"
    using se unfolding shows_line_def Let_def by blast
  moreover have "free_parser_result w = Inr ?e"
    using a(1) b(1) c(1) d(1) e(1) nd by (simp add: free_parser_result_def Let_def)
  moreover have "same_rest w ?e" using a(3) b(3) c(3) d(3) e(2) by (simp add: same_rest_def)
  ultimately show ?thesis by (auto simp: no_line_def)
qed

section \<open>From the bytes to the handler\<close>

text \<open>A parser that waits for a message, with its data.\<close>

definition idle_parser :: "'d irc_parser \<Rightarrow> 'd \<Rightarrow> bool" where
  "idle_parser p d \<longleftrightarrow> reading p IRC_STATE_INIT [] 0 d \<and> p_error p = IRC_ERROR_NONE"

lemma fresh_idle: "parser_client.fresh p d = idle_parser p (d :: stop + 'a world)"
  by (simp add: parser_client.fresh_def [OF line.parser_client_axioms] idle_parser_def)

lemma idle_create: "idle_parser (create_line_parser w) (Inr w)"
  by (simp add: idle_parser_def create_line_parser_def irc_parser_init_def irc_parser_reset_def
      reading_def IRC_PARSER_RAW_BUFFER_SIZE_def)

lemma line_message:
  assumes "idle_parser p (Inr w)" and "no_line w" and "wf_message m" and "cstr_message m"
  shows "\<exists>q v. irc_parser_execute (line_parser_settings cbs) p (message_text m @ CRLF)
        = Inr (q, length (message_text m) + 2)
     \<and> idle_parser q (handle_parser_result cbs (last (m_params m)) v)
     \<and> holds_line (h_cells (w_heap w)) (message_view m) (length (m_params m)) v \<and> same_rest w v"
proof -
  obtain v where v: "deliver_line cbs (message_parts m) (Inr w) = handle_parser_result cbs (last (m_params m)) v"
    "holds_line (h_cells (w_heap w)) (message_view m) (length (m_params m)) v" "same_rest w v"
    using store_message [OF assms(2,4)] by blast
  have "parser_client.fresh p (Inr w)" using assms(1) by (simp add: fresh_idle)
  then obtain q where q: "parser_run (line_parser_settings cbs) p (message_text m @ CRLF) q"
    "parser_client.fresh q (parser_client.deliver (line_effect cbs) (message_parts m) (Inr w))"
    using line.run_message [OF _ assms(3)] by blast
  have "idle_parser q (handle_parser_result cbs (last (m_params m)) v)"
    using q(2) by (simp add: fresh_idle deliver_line_eq v(1))
  moreover have "irc_parser_execute (line_parser_settings cbs) p (message_text m @ CRLF)
     = Inr (q, length (message_text m) + 2)"
    using parser_run_execute [OF q(1)] by (simp add: CRLF_def)
  ultimately show ?thesis using v by blast
qed

lemma view_command:
  assumes "holds_line base (message_view m) n v"
  shows "r_command (w_result v) \<noteq> None" and "heap_str (w_heap v) (r_command (w_result v)) = Inr (m_command m)"
proof -
  have s: "shows_line base (message_view m) v" using assms by (simp add: holds_line_def)
  have t: "message_view m 3 = Some (m_command m)" by (simp add: message_view_def with_params_def)
  show "heap_str (w_heap v) (r_command (w_result v)) = Inr (m_command m)"
    using shows_line_read [OF s t] by (simp add: slot_def)
  show "r_command (w_result v) \<noteq> None"
    using shows_line_none [OF s, of 3] t by (simp add: slot_def)
qed

lemma view_param:
  assumes "holds_line base (message_view m) n v" and "i < length (m_params m)" and "i < MAX_PARAMS_ALLOWED + 1"
  shows "result_param v i = Inr (m_params m ! i)"
proof -
  have s: "shows_line base (message_view m) v" using assms by (simp add: holds_line_def)
  have t: "message_view m (4 + i) = Some (m_params m ! i)" using assms(2) by (simp add: message_view_def with_params_def)
  have "length (r_params (w_result v)) = MAX_PARAMS_ALLOWED + 1" using s unfolding shows_line_def Let_def by blast
  then show ?thesis using shows_line_read [OF s t] assms(3) by (simp add: slot_def result_param_def)
qed

lemma view_no_param:
  assumes "holds_line base (message_view m) n v" and "length (m_params m) \<le> i" and "i < MAX_PARAMS_ALLOWED + 1"
  shows "r_params (w_result v) ! i = None"
proof -
  have s: "shows_line base (message_view m) v" using assms by (simp add: holds_line_def)
  have t: "message_view m (4 + i) = None"
    using assms(2) by (simp add: message_view_def with_params_def prefix_view_def split: option.splits)
  have "length (r_params (w_result v)) = MAX_PARAMS_ALLOWED + 1" using s unfolding shows_line_def Let_def by blast
  then show ?thesis using shows_line_none [OF s, of "4 + i"] t assms(3) by (simp add: slot_def)
qed

lemma view_sender:
  assumes "holds_line base (message_view m) n v" and "m_prefix m = None"
  shows "r_nick (w_result v) = None"
proof -
  have s: "shows_line base (message_view m) v" using assms by (simp add: holds_line_def)
  have "message_view m 0 = None" using assms(2) by (simp add: message_view_def with_params_def prefix_view_def)
  then show ?thesis using shows_line_none [OF s, of 0] by (simp add: slot_def)
qed

lemma view_num: "holds_line base tx n v \<Longrightarrow> r_num_params (w_result v) = n"
  by (simp add: holds_line_def)

lemma handle_text_command:
  assumes "holds_line base (message_view m) n v" and "\<not> is_numeric_command (m_command m)"
  shows "handle_parser_result cbs at v = execute_command cbs (get_command (m_command m) (length (m_command m))) (m_command m) v"
  using view_command [OF assms(1)] assms(2) by (auto simp: handle_parser_result_def)

section \<open>Messages that are handled and released\<close>

text \<open>Events that leave the parsed line alone.\<close>

definition leaves_line :: "'a world \<Rightarrow> 'a world \<Rightarrow> bool" where
  "leaves_line w v \<longleftrightarrow> w_heap v = w_heap w \<and> w_result v = w_result w"

definition quiet_event :: "'a event option \<Rightarrow> bool" where
  "quiet_event ev \<longleftrightarrow> (\<forall>name w v. fire ev name w = Inr v \<longrightarrow> leaves_line w v)"

definition quiet_events :: "'a irc_callbacks \<Rightarrow> bool" where
  "quiet_events cbs \<longleftrightarrow> list_all quiet_event [event_connect cbs, event_nick cbs, event_quit cbs,
     event_join cbs, event_part cbs, event_mode cbs, event_topic cbs, event_kick cbs,
     event_channel cbs, event_privmsg cbs, event_notice cbs, event_channel_notice cbs,
     event_invite cbs, event_unknown cbs]
   \<and> (\<forall>f c w v. event_numeric cbs = Some f \<longrightarrow> f c w = Inr v \<longrightarrow> leaves_line w v)"

lemma quiet_fire: "quiet_event ev \<Longrightarrow> fire ev name w = Inr v \<Longrightarrow> leaves_line w v"
  by (simp add: quiet_event_def)

lemma leaves_refl [simp]: "leaves_line w w"
  by (simp add: leaves_line_def)

lemma leaves_session [simp]:
  "leaves_line w (on_session f w)" "leaves_line (on_session f w) v = leaves_line w v"
  by (simp_all add: leaves_line_def)

lemma w_send_leaves [simp]: "leaves_line w (fst (w_send cmd w))"
  by (simp add: w_send_def leaves_line_def split: prod.splits)

text \<open>Messages whose handler does not replace a parameter: no mode of our own nick and no CTCP.\<close>

definition harmless :: "string \<Rightarrow> irc_message \<Rightarrow> bool" where
  "harmless nick m \<longleftrightarrow>
     (let c = get_command (m_command m) (length (m_command m)) in
      (c = CmdMode \<longrightarrow> \<not> strn_equals (hd (m_params m)) nick (length nick))
      \<and> (c = CmdPrivmsg \<or> c = CmdNotice \<longrightarrow> 1 < length (m_params m) \<longrightarrow> \<not> is_ctcp_request (m_params m ! 1)))"

lemma wf_message_params: "wf_message m \<Longrightarrow> m_params m \<noteq> []"
  by (auto simp: wf_message_def m_params_def split: option.splits)

lemma harmless_handler:
  assumes h: "holds_line base (message_view m) (length (m_params m)) v" and w: "wf_message m" "cstr_message m"
    and nick: "s_nick (w_session v) = Some nick" "is_cstr nick" and q: "quiet_events cbs"
    and ok: "\<not> is_numeric_command (m_command m) \<longrightarrow> harmless nick m"
    and res: "handle_parser_result cbs at v = Inr u"
  shows "leaves_line v u"
proof (cases "is_numeric_command (m_command m)")
  case True
  obtain x where x: "(if (digits_value 0 (m_command m) = 376 \<or> digits_value 0 (m_command m) = 422)
       \<and> \<not> has_flag (w_session v) SESSIONFL_MOTD_RECEIVED
     then fire (event_connect cbs) ''CONNECT'' (on_session (\<lambda>s. s\<lparr>s_flags := or (s_flags s) SESSIONFL_MOTD_RECEIVED\<rparr>) v)
     else Inr v) = Inr x"
    "(case event_numeric cbs of None \<Rightarrow> Inr x | Some f \<Rightarrow> f (digits_value 0 (m_command m)) x) = Inr u"
    using res view_command [OF h] True by (auto simp: handle_parser_result_def Let_def and_then_Inr_iff)
  have conn: "leaves_line y z" if "fire (event_connect cbs) nm y = Inr z" for nm y z
    using quiet_fire that q by (auto simp: quiet_events_def)
  have "leaves_line v x" using x(1) by (auto dest!: conn split: if_splits)
  moreover have "leaves_line x u" using x(2) q by (auto simp: quiet_events_def split: option.splits)
  ultimately show ?thesis by (simp add: leaves_line_def)
next
  case False
  let ?n = "length (m_params m)"
  have n: "r_num_params (w_result v) = ?n" "0 < ?n" "?n \<le> MAX_PARAMS_ALLOWED"
    using view_num [OF h] wf_message_params [OF w(1)] w(2) by (auto simp: cstr_message_def)
  have p: "i < ?n \<Longrightarrow> result_param v i = Inr (m_params m ! i)" for i
    using view_param [OF h, of i] n(3) by simp
  have p1: "?n \<le> 1 \<Longrightarrow> result_param v 1 = Inl NullDeref"
    using view_no_param [OF h, of 1] by (simp add: result_param_def heap_str_def heap_block_def MAX_PARAMS_ALLOWED_def)
  have own: "own_nick v = Inr nick" using nick by (simp add: own_nick_def cstr_id)
  have ev: "leaves_line y z" if "fire e nm y = Inr z" "e \<in> {event_connect cbs, event_nick cbs, event_quit cbs,
     event_join cbs, event_part cbs, event_mode cbs, event_topic cbs, event_kick cbs,
     event_channel cbs, event_privmsg cbs, event_notice cbs, event_channel_notice cbs,
     event_invite cbs, event_unknown cbs}" for e nm y z
    using q that quiet_fire by (auto simp: quiet_events_def)
  have hd: "m_params m ! 0 = hd (m_params m)" using n(2) by (simp add: hd_conv_nth)
  have ex: "execute_command cbs (get_command (m_command m) (length (m_command m))) (m_command m) v = Inr u"
    using res handle_text_command [OF h False] by simp
  have hm: "harmless nick m" using ok False by simp
  show ?thesis
  proof (cases "get_command (m_command m) (length (m_command m))")
    case CmdPing
    then show ?thesis using ex p [of 0] n by (auto simp: execute_command_def irc_ping_command_def split: if_splits)
  next
    case CmdNick
    then show ?thesis using ex own p [of 0] n
      by (auto simp: execute_command_def irc_nick_command_def and_then_Inr_iff split: if_splits dest!: ev)
  next
    case CmdMode
    then have "\<not> strn_equals (hd (m_params m)) nick (length nick)" using hm by (simp add: harmless_def)
    then show ?thesis using ex own p [of 0] n hd CmdMode
      by (auto simp: execute_command_def irc_mode_command_def dest!: ev)
  next
    case CmdPrivmsg
    then have c: "1 < ?n \<longrightarrow> \<not> is_ctcp_request (m_params m ! 1)" using hm by (simp add: harmless_def)
    show ?thesis
    proof (cases "?n \<le> 1")
      case True
      then show ?thesis using ex n CmdPrivmsg by (simp add: execute_command_def irc_privmsg_command_def)
    next
      case False
      then show ?thesis using ex own p [of 0] p [of 1] n c CmdPrivmsg
        by (auto simp: execute_command_def irc_privmsg_command_def dest!: ev split: if_splits)
    qed
  next
    case CmdNotice
    then have c: "1 < ?n \<longrightarrow> \<not> is_ctcp_request (m_params m ! 1)" using hm by (simp add: harmless_def)
    show ?thesis
    proof (cases "?n \<le> 1")
      case True
      then show ?thesis using ex p1 CmdNotice by (simp add: execute_command_def irc_notice_command_def)
    next
      case False
      then show ?thesis using ex own p [of 0] p [of 1] n c CmdNotice
        by (auto simp: execute_command_def irc_notice_command_def dest!: ev split: if_splits)
    qed
  qed (use ex in \<open>auto dest!: ev simp: execute_command_def irc_quit_command_def irc_join_command_def
      irc_part_command_def irc_topic_command_def irc_kick_command_def irc_invite_command_def
      irc_kill_command_def irc_unknown_command_def\<close>)
qed


end
