(* ===== verification/Line_Faults.thy ===== *)
theory Line_Faults
  imports Line_Memory
begin

text \<open>
  Lines a server may send for which the handlers of \<open>commands.c\<close> leave the bounds of C, each
  shown from the bytes of the line to the fault, and the messages the parser of
  \<open>irc_parser.c\<close> does not recover from.
\<close>

section \<open>A concrete session\<close>

definition me_world :: "unit world" where
  "me_world = fresh_world (irc_create_session\<lparr>s_nick := Some ''me'', s_state := LIBIRC_STATE_CONNECTED\<rparr>) zero_config ()"

definition me_parser :: "(stop + unit world) irc_parser" where
  "me_parser = create_line_parser me_world"

lemma me_ready:
  "idle_parser me_parser (Inr me_world)" "no_line me_world" "s_nick (w_session me_world) = Some ''me''"
  by (simp_all add: me_parser_def idle_create me_world_def fresh_world_def no_line_def)

lemma quiet_none: "quiet_events no_callbacks"
  by (simp add: quiet_events_def quiet_event_def no_callbacks_def fire_def)


section \<open>Bad pointers\<close>

text \<open>A \<open>NICK\<close> message without a prefix is compared through a null pointer.\<close>

theorem nick_without_prefix_faults:
  assumes "idle_parser p (Inr w)" and "no_line w" and "wf_message m" and "cstr_message m"
    and "s_nick (w_session w) = Some nick" and "m_command m = ''NICK''" and "m_prefix m = None"
  shows "\<exists>q n. irc_parser_execute (line_parser_settings cbs) p (message_text m @ CRLF) = Inr (q, n)
     \<and> p_data q = Inl NullDeref"
proof -
  obtain q v where q: "irc_parser_execute (line_parser_settings cbs) p (message_text m @ CRLF)
        = Inr (q, length (message_text m) + 2)"
     "idle_parser q (handle_parser_result cbs (last (m_params m)) v)"
     "holds_line (h_cells (w_heap w)) (message_view m) (length (m_params m)) v" "same_rest w v"
    using line_message [OF assms(1-4)] by blast
  have "get_command (m_command m) (length (m_command m)) = CmdNick"
    using assms(6) by (simp add: get_command_def commands_def strn_equals_def cstr_def)
  then have "handle_parser_result cbs (last (m_params m)) v = Inl NullDeref"
    using handle_text_command [OF q(3)] assms(5,6) q(4) view_sender [OF q(3) assms(7)]
    by (simp add: is_numeric_command_def execute_command_def irc_nick_command_def own_nick_def same_rest_def
        heap_str_def heap_block_def)
  then show ?thesis using q(1,2) by (auto simp: idle_parser_def reading_def)
qed

theorem nick_without_prefix_faults_witness:
  "let m = \<lparr>m_prefix = None, m_command = ''NICK'', m_middle = [''x''], m_trailing = None\<rparr>
   in \<exists>q n. irc_parser_execute (line_parser_settings no_callbacks) me_parser (message_text m @ CRLF) = Inr (q, n)
     \<and> p_data q = Inl NullDeref"
  unfolding Let_def
  by (rule nick_without_prefix_faults [OF me_ready(1,2) _ _ me_ready(3)])
    (simp_all add: wf_message_def wf_prefix_def wf_middle_def message_text_def prefix_text_def
      IRC_PARSER_RAW_BUFFER_SIZE_def cstr_message_def is_cstr_def m_params_def MAX_PARAMS_ALLOWED_def)

text \<open>A \<open>NOTICE\<close> with a target and no text takes the length of a null pointer, whatever the
  callbacks.\<close>

theorem notice_without_text_faults:
  assumes "idle_parser p (Inr w)" and "no_line w" and "wf_message m" and "cstr_message m"
    and "m_command m = ''NOTICE''" and "length (m_params m) = 1"
  shows "\<exists>q n. irc_parser_execute (line_parser_settings cbs) p (message_text m @ CRLF) = Inr (q, n)
     \<and> p_data q = Inl NullDeref"
proof -
  obtain q v where q: "irc_parser_execute (line_parser_settings cbs) p (message_text m @ CRLF)
        = Inr (q, length (message_text m) + 2)"
     "idle_parser q (handle_parser_result cbs (last (m_params m)) v)"
     "holds_line (h_cells (w_heap w)) (message_view m) (length (m_params m)) v" "same_rest w v"
    using line_message [OF assms(1-4)] by blast
  have "get_command (m_command m) (length (m_command m)) = CmdNotice"
    using assms(5) by (simp add: get_command_def commands_def strn_equals_def cstr_def)
  moreover have "result_param v 1 = Inl NullDeref"
    using view_no_param [OF q(3), of 1] assms(6)
    by (simp add: result_param_def heap_str_def heap_block_def MAX_PARAMS_ALLOWED_def)
  ultimately have "handle_parser_result cbs (last (m_params m)) v = Inl NullDeref"
    using handle_text_command [OF q(3)] assms(5)
    by (simp add: is_numeric_command_def execute_command_def irc_notice_command_def)
  then show ?thesis using q(1,2) by (auto simp: idle_parser_def reading_def)
qed

theorem notice_without_text_faults_witness:
  "let m = \<lparr>m_prefix = None, m_command = ''NOTICE'', m_middle = [''x''], m_trailing = None\<rparr>
   in \<exists>q n. irc_parser_execute (line_parser_settings no_callbacks) me_parser (message_text m @ CRLF) = Inr (q, n)
     \<and> p_data q = Inl NullDeref"
  unfolding Let_def
  by (rule notice_without_text_faults [OF me_ready(1,2)])
    (simp_all add: wf_message_def wf_prefix_def wf_middle_def message_text_def prefix_text_def
      IRC_PARSER_RAW_BUFFER_SIZE_def cstr_message_def is_cstr_def m_params_def MAX_PARAMS_ALLOWED_def)

lemma view_block:
  assumes "holds_line base (message_view m) n v" and "i < length (m_params m)" and "i < MAX_PARAMS_ALLOWED + 1"
  shows "heap_block (w_heap v) (r_params (w_result v) ! i) = Inr (m_params m ! i @ [NUL])"
proof -
  have s: "shows_line base (message_view m) v" using assms by (simp add: holds_line_def)
  have t: "message_view m (4 + i) = Some (m_params m ! i)" using assms(2) by (simp add: message_view_def with_params_def)
  have "length (r_params (w_result v)) = MAX_PARAMS_ALLOWED + 1" using s unfolding shows_line_def Let_def by blast
  then have "slot (w_result v) (4 + i) = r_params (w_result v) ! i" using assms(3) by (simp add: slot_def)
  moreover have "slot_ok base (h_cells (w_heap v)) (slot (w_result v) (4 + i)) (message_view m (4 + i))"
    using s unfolding shows_line_def Let_def by blast
  ultimately show ?thesis using t by (cases "r_params (w_result v) ! i") (auto simp: heap_block_def)
qed

text \<open>A \<open>PRIVMSG\<close> whose text is a single CTCP mark: two is taken from its length 1, and 2047
  bytes are copied from a block of two.\<close>

theorem privmsg_single_mark_faults:
  assumes "idle_parser p (Inr w)" and "no_line w" and "wf_message m" and "cstr_message m"
    and "m_command m = ''PRIVMSG''" and "m_params m = [target, [SOH]]"
  shows "\<exists>q n. irc_parser_execute (line_parser_settings cbs) p (message_text m @ CRLF) = Inr (q, n)
     \<and> p_data q = Inl OutOfBounds"
proof -
  obtain q v where q: "irc_parser_execute (line_parser_settings cbs) p (message_text m @ CRLF)
        = Inr (q, length (message_text m) + 2)"
     "idle_parser q (handle_parser_result cbs (last (m_params m)) v)"
     "holds_line (h_cells (w_heap w)) (message_view m) (length (m_params m)) v" "same_rest w v"
    using line_message [OF assms(1-4)] by blast
  have c: "get_command (m_command m) (length (m_command m)) = CmdPrivmsg"
    using assms(5) by (simp add: get_command_def commands_def strn_equals_def cstr_def)
  have n: "r_num_params (w_result v) = 2" using view_num [OF q(3)] assms(6) by simp
  have one: "result_param v 1 = Inr [SOH]" and
    block: "heap_block (w_heap v) (r_params (w_result v) ! 1) = Inr [SOH, NUL]"
    using view_param [OF q(3), of 1] view_block [OF q(3), of 1] assms(6) by (simp_all add: MAX_PARAMS_ALLOWED_def)
  have len: "ctcp_length 1 LIBIRC_BUFFER_SIZE = 2047"
    by (simp add: ctcp_length_def size_sub_def size_t_def SIZE_MOD_def LIBIRC_BUFFER_SIZE_def)
  have "handle_ctcp_request cbs v = Inl OutOfBounds"
    using one block len by (simp add: handle_ctcp_request_def heap_bytes_def)
  then have "irc_privmsg_command cbs ''PRIVMSG'' v = Inl OutOfBounds"
    using n one by (simp add: irc_privmsg_command_def is_ctcp_request_def)
  then have "handle_parser_result cbs (last (m_params m)) v = Inl OutOfBounds"
    using handle_text_command [OF q(3)] assms(5) c by (simp add: is_numeric_command_def execute_command_def)
  then show ?thesis using q(1,2) by (auto simp: idle_parser_def reading_def)
qed

theorem privmsg_single_mark_faults_witness:
  "let m = \<lparr>m_prefix = None, m_command = ''PRIVMSG'', m_middle = [''me''], m_trailing = Some [SOH]\<rparr>
   in \<exists>q n. irc_parser_execute (line_parser_settings no_callbacks) me_parser (message_text m @ CRLF) = Inr (q, n)
     \<and> p_data q = Inl OutOfBounds"
  unfolding Let_def
  by (rule privmsg_single_mark_faults [OF me_ready(1,2)])
    (simp_all add: wf_message_def wf_prefix_def wf_middle_def message_text_def prefix_text_def
      IRC_PARSER_RAW_BUFFER_SIZE_def cstr_message_def is_cstr_def m_params_def MAX_PARAMS_ALLOWED_def)

section \<open>A mode of our own nick\<close>

lemma free_ptr_Inr: "free_ptr p w = Inr v \<longleftrightarrow> (\<exists>h. heap_free p (w_heap w) = Inr h \<and> v = w\<lparr>w_heap := h\<rparr>)"
  by (auto simp: free_ptr_def and_then_Inr_iff)

lemma heap_free_cells: "heap_free p h = Inr h' \<Longrightarrow> h_cells h' a = (if p = Some a then None else h_cells h a)"
  by (auto simp: heap_free_def split: option.splits if_splits)

text \<open>The heap after the four texts before the parameters are freed.\<close>

definition free_head :: "irc_parser_result \<Rightarrow> heap \<Rightarrow> stop + heap" where
  "free_head r h = and_then (heap_free (r_nick r) h) (\<lambda>h. and_then (heap_free (r_name r) h) (\<lambda>h.
     and_then (heap_free (r_host r) h) (heap_free (r_command r))))"

definition cleared :: "irc_parser_result \<Rightarrow> irc_parser_result" where
  "cleared r = r\<lparr>r_nick := None, r_name := None, r_host := None, r_command := None\<rparr>"

lemma free_parser_result_split:
  "free_parser_result w = and_then (free_head (w_result w) (w_heap w)) (\<lambda>h.
     and_then (free_params 0 (r_num_params (w_result w)) (w\<lparr>w_heap := h, w_result := cleared (w_result w)\<rparr>)) (\<lambda>w.
     Inr (on_result (\<lambda>r. r\<lparr>r_num_params := 0\<rparr>) w)))"
  by (simp add: free_parser_result_def free_head_def free_ptr_def and_then_assoc on_result_def cleared_def Let_def)

text \<open>C32: after a mode of our own nick with a mode text, the second parameter of the result points to
  a block that was freed: the line is released without a fault, the pointer stays, and any handler
  that reads it uses freed memory. The first block of the line is never freed.\<close>

theorem own_mode_leaves_dangling:
  assumes "idle_parser p (Inr w)" and "no_line w" and "wf_message m" and "cstr_message m"
    and "quiet_event (event_umode cbs)" and "s_nick (w_session w) = Some nick" and "is_cstr nick"
    and "m_command m = ''MODE''" and "m_params m = nick # modes # rest"
  shows "\<exists>q n v. irc_parser_execute (line_parser_settings cbs) p (message_text m @ CRLF) = Inr (q, n)
     \<and> idle_parser q (fire (event_umode cbs) ''MODE'' v)
     \<and> (\<forall>u. p_data q = Inr u \<longrightarrow> (\<exists>z a b. free_parser_result u = Inr z
          \<and> r_params (w_result z) ! 1 = Some a \<and> result_param z 1 = Inl (UseAfterFree a)
          \<and> h_cells (w_heap w) b = None \<and> h_cells (w_heap z) b = Some (nick @ [NUL])))"
proof -
  obtain q v where q: "irc_parser_execute (line_parser_settings cbs) p (message_text m @ CRLF)
        = Inr (q, length (message_text m) + 2)"
     "idle_parser q (handle_parser_result cbs (last (m_params m)) v)"
     "holds_line (h_cells (w_heap w)) (message_view m) (length (m_params m)) v" "same_rest w v"
    using line_message [OF assms(1-4)] by blast
  let ?r = "w_result v" and ?h = "w_heap v"
  let ?f = "\<lambda>r. r\<lparr>r_params := (r_params r)[0 := r_params r ! 1], r_num_params := 1\<rparr>"
  have c: "get_command (m_command m) (length (m_command m)) = CmdMode"
    using assms(8) by (simp add: get_command_def commands_def strn_equals_def cstr_def)
  have n: "r_num_params ?r = Suc (Suc (length rest))" using view_num [OF q(3)] assms(9) by simp
  have sl: "shows_line (h_cells (w_heap w)) (message_view m) v" using q(3) by (simp add: holds_line_def)
  have len: "length (r_params ?r) = MAX_PARAMS_ALLOWED + 1" using sl unfolding shows_line_def Let_def by blast
  have zero: "result_param v 0 = Inr nick" using view_param [OF q(3), of 0] assms(9) by simp
  have "handle_parser_result cbs (last (m_params m)) v = fire (event_umode cbs) ''MODE'' (on_result ?f v)"
    using handle_text_command [OF q(3)] assms(6-8) c q(4) n zero
    by (simp add: is_numeric_command_def execute_command_def irc_mode_command_def own_nick_def same_rest_def
        cstr_id strn_equals_def)
  then have run: "idle_parser q (fire (event_umode cbs) ''MODE'' (on_result ?f v))" using q(2) by simp
  obtain a where a: "r_params ?r ! 1 = Some a"
    using view_block [OF q(3), of 1] assms(9) by (auto simp: MAX_PARAMS_ALLOWED_def heap_block_def split: option.splits)
  obtain b where b: "r_params ?r ! 0 = Some b" "h_cells ?h b = Some (nick @ [NUL])"
    using view_block [OF q(3), of 0] assms(9) by (auto simp: heap_block_def split: option.splits)
  have slots: "slot ?r 4 = Some b" "slot ?r 5 = Some a" using a b len by (simp_all add: slot_def MAX_PARAMS_ALLOWED_def)
  have inj: "\<And>i j x. slot ?r i = Some x \<Longrightarrow> slot ?r j = Some x \<Longrightarrow> i = j"
    using sl unfolding shows_line_def Let_def by blast
  then have ab: "a \<noteq> b" using slots by fastforce
  have base: "h_cells (w_heap w) b = None"
  proof -
    have "slot_ok (h_cells (w_heap w)) (h_cells ?h) (slot ?r 4) (message_view m 4)"
      using sl unfolding shows_line_def Let_def by blast
    then show ?thesis using slots(1) by simp
  qed
  have heads: "r_nick ?r \<noteq> Some b" "r_name ?r \<noteq> Some b" "r_host ?r \<noteq> Some b" "r_command ?r \<noteq> Some b"
    using inj [of 0 b 4] inj [of 1 b 4] inj [of 2 b 4] inj [of 3 b 4] slots(1) by (auto simp: slot_def)
  obtain z where "free_parser_result v = Inr z"
    using free_parser_result_ok [OF q(3)] assms(4) by (auto simp: cstr_message_def)
  then obtain h where h: "free_head ?r ?h = Inr h"
    "free_params 0 (Suc (Suc (length rest))) (v\<lparr>w_heap := h, w_result := cleared ?r\<rparr>) \<noteq> Inl e" for e
    unfolding free_parser_result_split n by (auto simp: and_then_Inr_iff)
  have hb: "h_cells h b = Some (nick @ [NUL])"
    using h(1) heads b(2) by (auto simp: free_head_def and_then_Inr_iff heap_free_cells)
  have "h_cells h a \<noteq> None"
  proof
    assume none: "h_cells h a = None"
    have f0: "free_ptr (Some b) (v\<lparr>w_heap := h, w_result := cleared ?r\<rparr>)
      = Inr (v\<lparr>w_heap := h\<lparr>h_cells := (h_cells h)(b := None)\<rparr>, w_result := cleared ?r\<rparr>)"
      using hb by (simp add: free_ptr_def heap_free_def)
    have "free_params 0 (Suc (Suc (length rest))) (v\<lparr>w_heap := h, w_result := cleared ?r\<rparr>) = Inl (DoubleFree a)"
      using f0 none ab a b(1) by (simp add: cleared_def on_result_def free_ptr_def heap_free_def)
    then show False using h(2) by blast
  qed
  then have ha: "heap_free (Some a) h = Inr (h\<lparr>h_cells := (h_cells h)(a := None)\<rparr>)"
    by (simp add: heap_free_def)
  have "\<exists>z a b. free_parser_result u = Inr z
          \<and> r_params (w_result z) ! 1 = Some a \<and> result_param z 1 = Inl (UseAfterFree a)
          \<and> h_cells (w_heap w) b = None \<and> h_cells (w_heap z) b = Some (nick @ [NUL])"
    if u: "p_data q = Inr u" for u
  proof -
    have "fire (event_umode cbs) ''MODE'' (on_result ?f v) = Inr u"
      using u run by (simp add: idle_parser_def reading_def)
    then have u2: "w_heap u = ?h" "w_result u = ?f ?r"
      using quiet_fire [OF assms(5)] by (auto simp: leaves_line_def)
    have "free_head (?f ?r) ?h = Inr h" using h(1) by (simp add: free_head_def)
    then have "free_parser_result u = Inr (u\<lparr>w_heap := h\<lparr>h_cells := (h_cells h)(a := None)\<rparr>,
       w_result := (cleared (?f ?r))\<lparr>r_params := (r_params (?f ?r))[0 := None], r_num_params := 0\<rparr>\<rparr>)"
      unfolding free_parser_result_split u2
      using a len ha by (simp add: cleared_def on_result_def free_ptr_def)
    then show ?thesis using a len hb ab base
      by (auto simp: result_param_def heap_str_def heap_block_def)
  qed
  then show ?thesis using q(1) run by blast
qed

theorem own_mode_leaves_dangling_witness:
  "let m = \<lparr>m_prefix = None, m_command = ''MODE'', m_middle = [''me'', ''+i''], m_trailing = None\<rparr>
   in \<exists>q n v. irc_parser_execute (line_parser_settings no_callbacks) me_parser (message_text m @ CRLF) = Inr (q, n)
     \<and> idle_parser q (fire (event_umode no_callbacks) ''MODE'' v)
     \<and> (\<forall>u. p_data q = Inr u \<longrightarrow> (\<exists>z a b. free_parser_result u = Inr z
          \<and> r_params (w_result z) ! 1 = Some a \<and> result_param z 1 = Inl (UseAfterFree a)
          \<and> h_cells (w_heap me_world) b = None \<and> h_cells (w_heap z) b = Some (''me'' @ [NUL])))"
  unfolding Let_def
  by (rule own_mode_leaves_dangling [OF me_ready(1,2) _ _ _ me_ready(3), where modes = "''+i''" and rest = "[]"])
    (simp_all add: wf_message_def wf_prefix_def wf_middle_def message_text_def prefix_text_def
      IRC_PARSER_RAW_BUFFER_SIZE_def cstr_message_def is_cstr_def m_params_def MAX_PARAMS_ALLOWED_def
      quiet_event_def no_callbacks_def fire_def)

section \<open>Input the parser does not recover from\<close>

text \<open>Reads of the session handed to the parser one after the other.\<close>

fun feed_lines :: "'d irc_parser_settings \<Rightarrow> 'd irc_parser \<Rightarrow> string list \<Rightarrow> parser_fault + 'd irc_parser" where
  "feed_lines cb p [] = Inr p"
| "feed_lines cb p (x # xs) = and_then (irc_parser_execute cb p x) (\<lambda>(q, n). feed_lines cb q xs)"

definition starts_text :: "string \<Rightarrow> bool" where
  "starts_text x \<longleftrightarrow> x \<noteq> [] \<and> text_byte (hd x)"

lemma feed_refused:
  assumes "list_all starts_text xs"
  shows "p_state p = IRC_STATE_ERROR \<Longrightarrow> p_len p + length xs \<le> 512 \<Longrightarrow> length (p_raw p) = 513 \<Longrightarrow>
     \<exists>q. feed_lines (line_parser_settings cbs) p xs = Inr q \<and> p_state q = IRC_STATE_ERROR
        \<and> p_data q = p_data p"
  using assms
proof (induction xs arbitrary: p)
  case Nil
  then show ?case by simp
next
  case (Cons x xs)
  then obtain c cs where x: "x = c # cs" "text_byte c" by (cases x) (auto simp: starts_text_def)
  obtain q where q: "irc_parser_execute (line_parser_settings cbs) p (c # cs) = Inr (q, 0)"
    "p_state q = IRC_STATE_ERROR" "p_len q = Suc (p_len p)" "length (p_raw q) = 513"
    using error_refuses [of p c "line_parser_settings cbs" cs] Cons.prems x by auto
  have "p_data q = p_data p"
    using q(1) Cons.prems x(2)
    by (cases "p_data p") (auto simp: irc_parser_execute_def irc_parser_char_def text_byte_def irc_parser_append_raw_def
        irc_parser_default_char_def irc_parser_trigger_error_def Let_def line_parser_settings_def
        irc_parser_settings_init_def line_cb_def on_error_def IRC_PARSER_RAW_BUFFER_SIZE_def
        split: if_splits)
  then show ?case using Cons.IH [of q] q Cons.prems x(1) by auto
qed

lemma feed_overruns:
  assumes "list_all starts_text xs"
  shows "p_state p = IRC_STATE_ERROR \<Longrightarrow> p_len p \<le> 513 \<Longrightarrow> length (p_raw p) = 513 \<Longrightarrow> 513 - p_len p < length xs \<Longrightarrow>
     feed_lines (line_parser_settings cbs) p xs = Inl (RawOverrun 513)"
  using assms
proof (induction xs arbitrary: p)
  case Nil
  then show ?case by simp
next
  case (Cons x xs)
  then obtain c cs where x: "x = c # cs" "text_byte c" by (cases x) (auto simp: starts_text_def)
  show ?case
  proof (cases "p_len p = 513")
    case True
    then show ?thesis using Cons.prems x
      by (simp add: irc_parser_execute_def irc_parser_char_def text_byte_def irc_parser_append_raw_def)
  next
    case False
    then have "\<exists>q. irc_parser_execute (line_parser_settings cbs) p (c # cs) = Inr (q, 0)
       \<and> p_state q = IRC_STATE_ERROR \<and> p_len q = Suc (p_len p) \<and> length (p_raw q) = 513"
      using Cons.prems x(2)
      by (auto simp: irc_parser_execute_def irc_parser_char_def text_byte_def irc_parser_append_raw_def
          irc_parser_default_char_def irc_parser_trigger_error_def Let_def IRC_PARSER_RAW_BUFFER_SIZE_def
          split: option.splits)
    then obtain q where q: "irc_parser_execute (line_parser_settings cbs) p (c # cs) = Inr (q, 0)"
      "p_state q = IRC_STATE_ERROR" "p_len q = Suc (p_len p)" "length (p_raw q) = 513" by blast
    then show ?thesis using Cons.IH [of q] Cons.prems x(1) False by auto
  qed
qed

text \<open>C31: a line of later than 512 bytes stops the parser after byte 512 and leaves it unusable: the
  first byte of whatever the server sends next is written past the end of the buffer.\<close>

theorem overlong_line_overruns:
  assumes "idle_parser p (Inr w)" and "list_all text_byte xs" and "512 < length xs" and "text_byte c"
  shows "\<exists>q. irc_parser_execute (line_parser_settings cbs) p (xs @ rest) = Inr (q, 512)
     \<and> irc_parser_execute (line_parser_settings cbs) q (c # later) = Inl (RawOverrun 513)"
  using parser_client.overlong_stuck [OF line.parser_client_axioms _ assms(2,3), of p "Inr w" cbs rest]
    assms(1,4) stuck_faults by (auto simp: fresh_idle)

theorem overlong_line_overruns_witness:
  "\<exists>q. irc_parser_execute (line_parser_settings no_callbacks) me_parser (replicate 600 (CHR ''a'') @ CRLF) = Inr (q, 512)
     \<and> irc_parser_execute (line_parser_settings no_callbacks) q (CHR ''P'' # ''ING x'') = Inl (RawOverrun 513)"
  by (rule overlong_line_overruns [OF me_ready(1)]) (simp_all add: text_byte_def list_all_iff)

text \<open>A carriage return inside a line ends the connection's useful life: the parser stops there,
  ignores every later line without handling it, and after 512 bytes in all writes past its
  buffer.\<close>

theorem stray_return_stops_parser:
  assumes "idle_parser p (Inr w)" and "xs \<noteq> []" and "length xs < 512" and "list_all text_byte xs" and "text_byte c"
    and "list_all starts_text later"
  shows "\<exists>q. irc_parser_execute (line_parser_settings cbs) p (xs @ CR # c # rest) = Inr (q, Suc (length xs))
     \<and> (if length xs + length later < 512
        then \<exists>r. feed_lines (line_parser_settings cbs) q later = Inr r \<and> p_data r = p_data q
        else length xs + length later > 512 \<longrightarrow>
          feed_lines (line_parser_settings cbs) q later = Inl (RawOverrun 513))"
proof -
  obtain q where q: "irc_parser_execute (line_parser_settings cbs) p (xs @ CR # c # rest) = Inr (q, Suc (length xs))"
    "p_state q = IRC_STATE_ERROR" "p_len q = Suc (length xs)" "length (p_raw q) = 513"
    using parser_client.stray_return [OF line.parser_client_axioms _ assms(2-5), of p "Inr w" cbs rest] assms(1)
    by (auto simp: fresh_idle)
  show ?thesis
  proof (intro exI [of _ q] conjI q(1))
    show "if length xs + length later < 512
        then \<exists>r. feed_lines (line_parser_settings cbs) q later = Inr r \<and> p_data r = p_data q
        else length xs + length later > 512 \<longrightarrow>
          feed_lines (line_parser_settings cbs) q later = Inl (RawOverrun 513)"
      using feed_refused [OF assms(6) q(2), of cbs] feed_overruns [OF assms(6) q(2), of cbs] q(3,4) assms(3)
      by (cases "length xs + length later < 512") auto
  qed
qed

theorem stray_return_stops_parser_witness:
  "\<exists>q. irc_parser_execute (line_parser_settings no_callbacks) me_parser (''PING'' @ CR # CHR ''x'' # CRLF) = Inr (q, Suc (length ''PING''))
     \<and> (if length ''PING'' + length [''PING y''] < 512
        then \<exists>r. feed_lines (line_parser_settings no_callbacks) q [''PING y''] = Inr r \<and> p_data r = p_data q
        else length ''PING'' + length [''PING y''] > 512 \<longrightarrow>
          feed_lines (line_parser_settings no_callbacks) q [''PING y''] = Inl (RawOverrun 513))"
  by (rule stray_return_stops_parser [OF me_ready(1)]) (simp_all add: text_byte_def starts_text_def)

end
