(* ===== verification/Dcc_Requests.thy ===== *)
theory Dcc_Requests
  imports Dcc
begin

text \<open>
  The DCC requests as text: what \<open>libirc_dcc_request\<close> reads of the requests bots send and of the
  answers the program itself sends, and the quoted file names and default ports it gets wrong.
\<close>

section \<open>Scanning step by step\<close>

lemma scan_word_step:
  assumes "f \<noteq> []" and "list_all (\<lambda>c. \<not> is_space c) f" and "length f \<le> LIBIRC_BUFFER_SIZE"
    and "r = [] \<or> is_space (hd r)"
  shows "sscanf (filename_word # ds) (f @ r) = VStr f # sscanf ds r"
  using scan_conv_word [OF assms] by (simp add: filename_word_def)

lemma scan_blank_step:
  "r = [] \<or> \<not> is_space (hd r) \<Longrightarrow> sscanf (White # ds) (CHR '' '' # r) = sscanf ds r"
proof -
  assume "r = [] \<or> \<not> is_space (hd r)"
  then have "dropWhile is_space r = r" by (cases r) auto
  then show ?thesis by (simp add: is_space_def char_code_def)
qed

lemma scan_blank_dec: "sscanf (White # ds) (CHR '' '' # dec n @ r) = sscanf ds (dec n @ r)"
  by (simp add: is_space_def char_code_def)

lemma scan_num_step:
  "r = [] \<or> \<not> is_digit (hd r) \<Longrightarrow> n \<le> ULONG_MAX \<Longrightarrow>
     sscanf (ConvULong # ds) (dec n @ r) = VNum n # sscanf ds r"
  using scan_conv_ulong_dec [of r n] by simp

lemma scan_short_step:
  "r = [] \<or> \<not> is_digit (hd r) \<Longrightarrow> n < 2 ^ 16 \<Longrightarrow>
     sscanf (ConvUShort # ds) (dec n @ r) = VNum n # sscanf ds r"
  using scan_conv_ushort_dec [of r n] by simp

lemma blank_not_digit: "\<not> is_digit (CHR '' '')"
  by (simp add: is_digit_def char_code_def)

lemma blank_space: "is_space (CHR '' '')"
  by (simp add: is_space_def char_code_def)

lemma space_codes:
  "is_space (CHR '' '')" "\<not> is_space (CHR ''D'')" "\<not> is_space (CHR ''S'')" "\<not> is_space (CHR ''A'')"
  "\<not> is_space (CHR 0x22)" "\<not> is_space (CHR ''f'')"
  by (simp_all add: is_space_def char_code_def)

lemma word_starts: "f \<noteq> [] \<Longrightarrow> list_all (\<lambda>c. \<not> is_space c) f \<Longrightarrow> dropWhile is_space (f @ r) = f @ r"
  by (cases f) auto

lemma scan_send_word:
  assumes "f \<noteq> []" and "list_all (\<lambda>c. \<not> is_space c) f"
  shows "sscanf (lits ''DCC SEND '' @ ds) (''DCC SEND '' @ f @ r) = sscanf ds (f @ r)"
    and "sscanf (lits ''DCC SSEND '' @ ds) (''DCC SSEND '' @ f @ r) = sscanf ds (f @ r)"
  by (simp_all add: lits_def space_codes word_starts [OF assms])

text \<open>A zero port in the second place is what the reverse format looks for.\<close>

lemma scan_zero_port:
  "sscanf (lits '' 0 '' @ ds) (CHR '' '' # dec 0 @ CHR '' '' # dec n @ r) = sscanf ds (dec n @ r)"
  by (simp add: lits_def dec_zero is_space_def char_code_def)

lemma scan_other_port:
  "0 < port \<Longrightarrow> sscanf (lits '' 0 '' @ ds) (CHR '' '' # dec port @ r) = []"
proof -
  assume port: "0 < port"
  obtain c cs where c: "dec port = c # cs" using dec_nonempty [of port] by (cases "dec port") auto
  have "c \<noteq> CHR ''0''" using dec_lead [OF port] c by simp
  moreover have "dropWhile is_space (c # cs @ r) = c # cs @ r"
    using dropWhile_space_dec [of port r] c by simp
  ultimately show ?thesis
    using c blank_space by (simp add: lits_def)
qed

lemma scan_last_steps:
  "n \<le> ULONG_MAX \<Longrightarrow> sscanf (ConvULong # ds) (dec n) = VNum n # sscanf ds []"
  "n < 2 ^ 16 \<Longrightarrow> sscanf (ConvUShort # ds) (dec n) = VNum n # sscanf ds []"
  "sscanf (White # ds) (CHR '' '' # dec n) = sscanf ds (dec n)"
  using scan_num_step [of "[]" n ds] scan_short_step [of "[]" n ds] scan_blank_dec [of ds n "[]"]
  by simp_all

declare sscanf.simps [simp del] scan_conv.simps [simp del]

lemma sscanf_end [simp]: "sscanf [] s = []"
  by (simp add: sscanf.simps)

lemmas scan_steps = scan_last_steps scan_word_step scan_num_step scan_short_step scan_blank_dec scan_zero_port
  scan_other_port blank_not_digit blank_space

definition file_word :: "string \<Rightarrow> bool" where
  "file_word f \<longleftrightarrow> f \<noteq> [] \<and> list_all (\<lambda>c. \<not> is_space c) f \<and> length f \<le> LIBIRC_BUFFER_SIZE"

lemma send_prefix:
  "file_word f \<Longrightarrow> sscanf (lits ''DCC SEND '' @ filename_word # ds) (''DCC SEND '' @ f @ CHR '' '' # r)
     = VStr f # sscanf ds (CHR '' '' # r)"
proof -
  assume f: "file_word f"
  show ?thesis
    using scan_send_word(1) [of f "filename_word # ds" "CHR '' '' # r"]
      scan_word_step [of f "CHR '' '' # r" ds] f
    by (simp add: file_word_def blank_space)
qed

lemma reverse_fails:
  assumes "file_word f" and "ip \<le> ULONG_MAX" and "0 < port"
  shows "scanned_snnn (sscanf fmt_reverse_send (''DCC SEND '' @ f @ '' '' @ dec ip @ '' '' @ dec port @ r)) = None"
  using send_prefix [OF assms(1)] assms by (simp add: fmt_reverse_send_def scan_steps)

section \<open>Requests a bot sends\<close>

text \<open>C20: an ordinary DCC SEND request is understood exactly: for every file name without white
  space that fits the buffer, every address, size and non-zero port, the request text gives back
  these four values.\<close>

theorem dcc_send_roundtrip:
  assumes "file_word f" and "ip \<le> ULONG_MAX" and "0 < port" and "port < 2 ^ 16" and "fsize \<le> ULONG_MAX"
  shows "parse_dcc_request (''DCC SEND '' @ f @ '' '' @ dec ip @ '' '' @ dec port @ '' '' @ dec fsize)
    = Send f ip port fsize False"
proof -
  have "scanned_snnn (sscanf fmt_send (''DCC SEND '' @ f @ '' '' @ dec ip @ '' '' @ dec port @ '' '' @ dec fsize))
    = Some (f, ip, port, fsize)"
    using send_prefix [OF assms(1)] assms
    by (simp add: fmt_send_def scan_steps)
  then show ?thesis using reverse_fails [OF assms(1-3), of "'' '' @ dec fsize"]
    by (simp add: parse_dcc_request_def)
qed

theorem dcc_send_roundtrip_witness:
  "parse_dcc_request (''DCC SEND '' @ ''a.mkv'' @ '' '' @ dec 3232235777 @ '' '' @ dec 5000 @ '' '' @ dec 700)
    = Send ''a.mkv'' 3232235777 5000 700 False"
  by (rule dcc_send_roundtrip)
    (simp_all add: file_word_def is_space_def char_code_def LIBIRC_BUFFER_SIZE_def ULONG_MAX_def)

text \<open>A request with port zero and a token is understood as a reverse one, with these values.\<close>

theorem dcc_reverse_send_roundtrip:
  assumes "file_word f" and "ip \<le> ULONG_MAX" and "fsize \<le> ULONG_MAX" and "token \<le> ULONG_MAX"
  shows "parse_dcc_request (''DCC SEND '' @ f @ '' '' @ dec ip @ '' '' @ dec 0 @ '' '' @ dec fsize @ '' '' @ dec token)
    = ReverseSend f ip fsize token"
proof -
  have "scanned_snnn (sscanf fmt_reverse_send
      (''DCC SEND '' @ f @ '' '' @ dec ip @ '' '' @ dec 0 @ '' '' @ dec fsize @ '' '' @ dec token))
    = Some (f, ip, fsize, token)"
    using send_prefix [OF assms(1)] assms
    by (simp add: fmt_reverse_send_def scan_steps)
  then show ?thesis by (simp add: parse_dcc_request_def)
qed

theorem dcc_reverse_send_roundtrip_witness:
  "parse_dcc_request (''DCC SEND '' @ ''a.mkv'' @ '' '' @ dec 1 @ '' '' @ dec 0 @ '' '' @ dec 700 @ '' '' @ dec 9)
    = ReverseSend ''a.mkv'' 1 700 9"
  by (rule dcc_reverse_send_roundtrip)
    (simp_all add: file_word_def is_space_def char_code_def LIBIRC_BUFFER_SIZE_def ULONG_MAX_def)

definition quoted_file :: "string \<Rightarrow> char \<Rightarrow> string \<Rightarrow> bool" where
  "quoted_file a c b \<longleftrightarrow> list_all (\<lambda>x. \<not> is_space x) a \<and> \<not> is_space c \<and> \<not> is_digit c
     \<and> c \<noteq> CHR ''+'' \<and> c \<noteq> CHR ''-'' \<and> CHR 0x22 \<notin> set (a @ c # b)
     \<and> length (a @ CHR '' '' # c # b) \<le> LIBIRC_BUFFER_SIZE"

lemma scan_no_number:
  assumes "\<not> is_space c" and "\<not> is_digit c" and "c \<noteq> CHR ''+''" and "c \<noteq> CHR ''-''"
  shows "sscanf (White # ConvULong # ds) (CHR '' '' # c # b) = []"
  using assms by (simp add: sscanf.simps scan_conv.simps space_codes scan_ulong_def scan_digits_def)

lemma quoted_word:
  assumes "quoted_file a c b"
  shows "file_word (CHR 0x22 # a)"
  using assms by (simp add: quoted_file_def file_word_def space_codes)

lemma quoted_not_plain:
  assumes "quoted_file a c b"
  shows "sscanf (lits ''DCC SEND '' @ filename_word # White # ConvULong # ds)
      (''DCC SEND '' @ (CHR 0x22 # a @ CHR '' '' # c # b) @ r) = [VStr (CHR 0x22 # a)]"
  using send_prefix [OF quoted_word [OF assms], of "White # ConvULong # ds" "c # b @ r"]
    scan_no_number [of c ds "b @ r"] assms by (simp add: quoted_file_def)

lemma scan_quoted:
  assumes "quoted_file a c b"
  shows "sscanf (lits ''DCC SEND '' @ [Lit (CHR 0x22), ConvNotIn LIBIRC_BUFFER_SIZE (CHR 0x22), Lit (CHR 0x22)] @ ds)
      (''DCC SEND '' @ [CHR 0x22] @ (a @ CHR '' '' # c # b) @ [CHR 0x22] @ r)
    = VStr (a @ CHR '' '' # c # b) # sscanf ds r"
proof -
  have "split_upto LIBIRC_BUFFER_SIZE (\<lambda>x. x \<noteq> CHR 0x22) ((a @ CHR '' '' # c # b) @ CHR 0x22 # r)
    = (a @ CHR '' '' # c # b, CHR 0x22 # r)"
    by (rule split_upto_all) (use assms in \<open>auto simp: quoted_file_def list_all_iff\<close>)
  then show ?thesis by (simp add: sscanf.simps scan_conv.simps lits_def space_codes)
qed

text \<open>A file name with blanks is understood when it is quoted, provided the word after the first
  blank does not look like a number.\<close>

theorem dcc_send_quoted_roundtrip:
  assumes "quoted_file a c b" and "ip \<le> ULONG_MAX" and "port < 2 ^ 16" and "fsize \<le> ULONG_MAX"
  shows "parse_dcc_request (''DCC SEND '' @ [CHR 0x22] @ (a @ CHR '' '' # c # b) @ [CHR 0x22] @
      '' '' @ dec ip @ '' '' @ dec port @ '' '' @ dec fsize)
    = Send (a @ CHR '' '' # c # b) ip port fsize False"
proof -
  let ?r = "[CHR 0x22] @ '' '' @ dec ip @ '' '' @ dec port @ '' '' @ dec fsize"
  let ?req = "''DCC SEND '' @ [CHR 0x22] @ (a @ CHR '' '' # c # b) @ ?r"
  have plain: "sscanf (lits ''DCC SEND '' @ filename_word # White # ConvULong # ds) ?req = [VStr (CHR 0x22 # a)]" for ds
    using quoted_not_plain [OF assms(1), of ds ?r] by simp
  have rev: "scanned_snnn (sscanf fmt_reverse_send ?req) = None"
    using plain [of "lits '' 0 '' @ [ConvULong, White, ConvULong]"] by (simp add: fmt_reverse_send_def)
  have snd: "scanned_snnn (sscanf fmt_send ?req) = None"
    using plain [of "[White, ConvUShort, White, ConvULong]"] by (simp add: fmt_send_def)
  have "scanned_snnn (sscanf fmt_send_quoted ?req) = Some (a @ CHR '' '' # c # b, ip, port, fsize)"
    using scan_quoted [OF assms(1), of "[White, ConvULong, White, ConvUShort, White, ConvULong]"] assms
    by (simp add: fmt_send_quoted_def scan_steps)
  then show ?thesis using rev snd by (simp add: parse_dcc_request_def)
qed

theorem dcc_send_quoted_roundtrip_witness:
  "parse_dcc_request (''DCC SEND '' @ [CHR 0x22] @ (''a'' @ CHR '' '' # CHR ''b'' # ''.mkv'') @ [CHR 0x22] @
      '' '' @ dec 1 @ '' '' @ dec 2 @ '' '' @ dec 3)
    = Send (''a'' @ CHR '' '' # CHR ''b'' # ''.mkv'') 1 2 3 False"
  by (rule dcc_send_quoted_roundtrip)
    (simp_all add: quoted_file_def is_space_def is_digit_def char_code_def LIBIRC_BUFFER_SIZE_def ULONG_MAX_def)

text \<open>A quoted file name whose words are numbers is misread, because the formats without quotes
  are tried first: the request for the file \<open>part 1 2 3.mkv\<close> is taken for the file \<open>"part\<close> from
  address 1 and port 2.\<close>

theorem dcc_send_quoted_misread:
  assumes "file_word (CHR 0x22 # a)" and "i \<le> ULONG_MAX" and "0 < p" and "p < 2 ^ 16" and "n \<le> ULONG_MAX"
    and "b \<noteq> []" and "\<not> is_digit (hd b)"
  shows "parse_dcc_request (''DCC SEND '' @ [CHR 0x22] @
      (a @ '' '' @ dec i @ '' '' @ dec p @ '' '' @ dec n @ b) @ [CHR 0x22] @ rest)
    = Send (CHR 0x22 # a) i p n False"
proof -
  let ?r = "'' '' @ dec n @ b @ [CHR 0x22] @ rest"
  let ?f = "CHR 0x22 # a"
  have b: "\<not> is_digit (hd (b @ CHR 0x22 # rest))" using assms(6,7) by simp
  have "scanned_snnn (sscanf fmt_send (''DCC SEND '' @ ?f @ '' '' @ dec i @ '' '' @ dec p @ ?r))
    = Some (?f, i, p, n)"
    using send_prefix [OF assms(1)] assms b by (simp add: fmt_send_def scan_steps)
  then show ?thesis
    using reverse_fails [OF assms(1-3), of ?r] by (simp add: parse_dcc_request_def)
qed

theorem dcc_send_quoted_misread_witness:
  "parse_dcc_request (''DCC SEND '' @ [CHR 0x22] @
      (''part'' @ '' '' @ dec 1 @ '' '' @ dec 2 @ '' '' @ dec 3 @ ''.mkv'') @ [CHR 0x22] @ '' 3232235777 5000 700'')
    = Send (CHR 0x22 # ''part'') 1 2 3 False"
  by (rule dcc_send_quoted_misread)
    (simp_all add: file_word_def is_space_def is_digit_def char_code_def LIBIRC_BUFFER_SIZE_def ULONG_MAX_def)

section \<open>The answers the program sends\<close>

lemma accept_text_plain:
  assumes "file_word f" and "is_cstr f" and "length f \<le> 1000"
    and "ip < 2 ^ 32" and "port < 2 ^ 16" and "fsize \<le> ULONG_MAX" and "token \<le> ULONG_MAX"
  shows "accept_reverse_text f ip port fsize token =
    ''DCC SEND '' @ f @ '' '' @ dec ip @ '' '' @ dec port @ '' '' @ dec fsize @ '' '' @ dec token"
proof -
  have "CHR '' '' \<notin> set f" using assms(1) by (auto simp: file_word_def list_all_iff space_codes)
  moreover have "length (dec ip) \<le> 20" "length (dec port) \<le> 20" "length (dec fsize) \<le> 20" "length (dec token) \<le> 20"
    using assms by (auto intro!: dec_bound simp: ULONG_MAX_def)
  ultimately show ?thesis using assms(2,3) by (simp add: accept_reverse_text_def cstr_id)
qed

text \<open>The answer to a reverse request reads as an ordinary request for the same file that gives
  our address and our port, when a port is configured.\<close>

theorem accept_reverse_text_understood:
  assumes "file_word f" and "is_cstr f" and "length f \<le> 1000"
    and "ip < 2 ^ 32" and "0 < port" and "port < 2 ^ 16" and "fsize \<le> ULONG_MAX" and "token \<le> ULONG_MAX"
  shows "parse_dcc_request (accept_reverse_text f ip port fsize token) = Send f ip port fsize False"
proof -
  have ip: "ip \<le> ULONG_MAX" using assms(4) by (simp add: ULONG_MAX_def)
  have "scanned_snnn (sscanf fmt_send (''DCC SEND '' @ f @ '' '' @ dec ip @ '' '' @ dec port @ '' '' @ dec fsize @ '' '' @ dec token))
    = Some (f, ip, port, fsize)"
    using send_prefix [OF assms(1)] assms ip by (simp add: fmt_send_def scan_steps)
  then show ?thesis
    using reverse_fails [OF assms(1) ip assms(5), of "'' '' @ dec fsize @ '' '' @ dec token"]
      accept_text_plain [OF assms(1-4,6-8)]
    by (simp add: parse_dcc_request_def)
qed

theorem accept_reverse_text_understood_witness:
  "parse_dcc_request (accept_reverse_text ''a.mkv'' 1 55554 700 9) = Send ''a.mkv'' 1 55554 700 False"
  by (rule accept_reverse_text_understood)
    (simp_all add: file_word_def is_cstr_def is_space_def char_code_def LIBIRC_BUFFER_SIZE_def ULONG_MAX_def)

text \<open>Without a configured port the answer names port 0, so it reads as another reverse request
  and never tells the bot where to connect.\<close>

theorem accept_reverse_default_port:
  assumes "c_listen_port c = 0" and "file_word f" and "is_cstr f" and "length f \<le> 1000"
    and "ip < 2 ^ 32" and "fsize \<le> ULONG_MAX" and "token \<le> ULONG_MAX"
  shows "parse_dcc_request (accept_reverse_text f ip (getListenPort c) fsize token) = ReverseSend f ip fsize token"
proof -
  have ip: "ip \<le> ULONG_MAX" using assms(5) by (simp add: ULONG_MAX_def)
  have port: "getListenPort c = 0" using assms(1) by (simp add: getListenPort_def)
  show ?thesis
    using dcc_reverse_send_roundtrip [OF assms(2) ip assms(6,7)] accept_text_plain [OF assms(2-5) _ assms(6,7), of 0]
    unfolding port by simp
qed

theorem accept_reverse_default_port_witness:
  "parse_dcc_request (accept_reverse_text ''a.mkv'' 1 (getListenPort zero_config) 700 9) = ReverseSend ''a.mkv'' 1 700 9"
  by (rule accept_reverse_default_port)
    (simp_all add: zero_config_def file_word_def is_cstr_def is_space_def char_code_def LIBIRC_BUFFER_SIZE_def ULONG_MAX_def)

text \<open>The bot's answer to a resume request, for a file position and the port or the token of the
  request, is understood exactly.\<close>

theorem dcc_accept_roundtrip:
  assumes "position \<le> ULONG_MAX" and "port < 2 ^ 16" and "token \<le> ULONG_MAX" and "0 < port"
  shows "parse_dcc_request (''DCC ACCEPT file.ext '' @ dec port @ '' '' @ dec position) = Accept port position
    \<and> parse_dcc_request (''DCC ACCEPT file.ext 0 '' @ dec position @ '' '' @ dec token) = AcceptReverse position token"
proof -
  have other: "sscanf (lits ''DCC SEND '' @ ds) (''DCC ACCEPT '' @ r) = []"
    "sscanf (lits ''DCC SSEND '' @ ds) (''DCC ACCEPT '' @ r) = []" for ds r
    by (simp_all add: lits_def sscanf.simps space_codes)
  have none: "scanned_snnn (sscanf fmt_reverse_send (''DCC ACCEPT '' @ r)) = None"
    "scanned_snnn (sscanf fmt_send (''DCC ACCEPT '' @ r)) = None"
    "scanned_snnn (sscanf fmt_send_quoted (''DCC ACCEPT '' @ r)) = None"
    "scanned_snn (sscanf fmt_send_no_size (''DCC ACCEPT '' @ r)) = None"
    "scanned_snnn (sscanf fmt_ssend (''DCC ACCEPT '' @ r)) = None" for r
    unfolding fmt_reverse_send_def fmt_send_def fmt_send_quoted_def fmt_send_no_size_def fmt_ssend_def other
    by simp_all
  have rest: "parse_dcc_request (''DCC ACCEPT '' @ r) =
    (case scanned_nn (sscanf fmt_accept_reverse (''DCC ACCEPT '' @ r)) of
        Some (fsize, token) \<Rightarrow> AcceptReverse fsize token
      | None \<Rightarrow> (case scanned_nn (sscanf fmt_accept (''DCC ACCEPT '' @ r)) of
           Some (port, fsize) \<Rightarrow> Accept port fsize | None \<Rightarrow> UnhandledDcc))" for r
    unfolding parse_dcc_request_def none by simp
  obtain c cs where c: "dec port = c # cs" using dec_nonempty [of port] by (cases "dec port") auto
  have c0: "c \<noteq> CHR ''0''" "\<not> is_space c"
    using dec_lead [OF assms(4)] dec_hd_digit [of port] is_space_not_digit c by auto
  have a0: "sscanf fmt_accept_reverse (''DCC ACCEPT '' @ ''file.ext '' @ dec port @ '' '' @ dec position) = []"
    using c0 by (simp add: fmt_accept_reverse_def lits_def sscanf.simps space_codes c)
  have a1: "sscanf fmt_accept (''DCC ACCEPT '' @ ''file.ext '' @ dec port @ '' '' @ dec position)
    = sscanf [ConvUShort, White, ConvULong] (dec port @ '' '' @ dec position)"
    using c0 by (simp add: fmt_accept_def lits_def sscanf.simps(2-3) space_codes c)
  have "parse_dcc_request (''DCC ACCEPT '' @ ''file.ext '' @ dec port @ '' '' @ dec position) = Accept port position"
    unfolding rest a0 a1 using assms by (simp add: scan_steps)
  moreover have b: "sscanf fmt_accept_reverse (''DCC ACCEPT '' @ ''file.ext 0 '' @ dec position @ '' '' @ dec token)
    = sscanf [ConvULong, White, ConvULong] (dec position @ '' '' @ dec token)"
    by (simp add: fmt_accept_reverse_def lits_def sscanf.simps(2-3) space_codes) (simp add: is_space_def char_code_def)
  have "parse_dcc_request (''DCC ACCEPT '' @ ''file.ext 0 '' @ dec position @ '' '' @ dec token) = AcceptReverse position token"
    unfolding rest b using assms by (simp add: scan_steps)
  ultimately show ?thesis by simp
qed

theorem dcc_accept_roundtrip_witness:
  "parse_dcc_request (''DCC ACCEPT file.ext '' @ dec 5000 @ '' '' @ dec 100) = Accept 5000 100
    \<and> parse_dcc_request (''DCC ACCEPT file.ext 0 '' @ dec 100 @ '' '' @ dec 7) = AcceptReverse 100 7"
  by (rule dcc_accept_roundtrip) (simp_all add: ULONG_MAX_def)

end
