(* ===== verification/Sds.thy ===== *)
theory Sds
  imports World
begin

text \<open>
  The dynamic strings of \<open>sds.c\<close>, as the program uses them: a string is the list of its
  characters, its length is stored and not found by a terminator. Trimming, cutting out a range,
  searching, comparing, splitting and joining. The storage of a string (header type, spare room)
  is the subject of the theory \<open>Sds_Memory\<close>.
\<close>

type_synonym sds = string

definition sdsnew :: "string \<Rightarrow> sds" where
  "sdsnew init = cstr init"

definition sdscatlen :: "sds \<Rightarrow> string \<Rightarrow> sds" where
  "sdscatlen s t = s @ t"

definition sdsupdatelen :: "sds \<Rightarrow> sds" where
  "sdsupdatelen s = cstr s"

definition sdsgrowzero :: "sds \<Rightarrow> nat \<Rightarrow> sds" where
  "sdsgrowzero s len = (if len \<le> length s then s else s @ replicate (len - length s) NUL)"

text \<open>\<open>strchr\<close> finds the terminator of \<open>cset\<close> too, so zero bytes at the ends are trimmed.\<close>

definition in_cset :: "string \<Rightarrow> char \<Rightarrow> bool" where
  "in_cset cset c \<longleftrightarrow> c = NUL \<or> c \<in> set (cstr cset)"

definition sdstrim :: "sds \<Rightarrow> string \<Rightarrow> sds" where
  "sdstrim s cset = rev (dropWhile (in_cset cset) (rev (dropWhile (in_cset cset) s)))"

text \<open>\<open>len\<close> is compared as an \<open>unsigned int\<close> with \<open>start\<close> and as an \<open>unsigned long\<close> with \<open>end\<close>.\<close>

definition sdsrange :: "sds \<Rightarrow> int \<Rightarrow> int \<Rightarrow> sds" where
  "sdsrange s start fin =
     (let len = int (length s) in
      if len = 0 then s
      else
        (let start = (if start < 0 then max 0 (len + start) else start);
             fin = (if fin < 0 then max 0 (len + fin) else fin) in
         if start > fin then []
         else if start \<ge> len mod 2 ^ 32 then []
         else
           (let fin = (if fin \<ge> len then len - 1 else fin);
                newlen = (if start > fin then 0 else fin - start + 1) in
            take (nat newlen) (drop (nat start) s))))"

fun memcmp_sign :: "string \<Rightarrow> string \<Rightarrow> int" where
  "memcmp_sign (a # as) (b # bs) =
     (if a = b then memcmp_sign as bs else if char_code a < char_code b then -1 else 1)"
| "memcmp_sign _ _ = 0"

definition sdscmp :: "sds \<Rightarrow> sds \<Rightarrow> int" where
  "sdscmp s1 s2 =
     (let minlen = min (length s1) (length s2);
          cmp = memcmp_sign (take minlen s1) (take minlen s2) in
      if cmp = 0 then (if length s1 > length s2 then 1 else if length s1 < length s2 then -1 else 0) else cmp)"

definition sdscontains :: "sds \<Rightarrow> string \<Rightarrow> bool" where
  "sdscontains s chars \<longleftrightarrow> list_ex (\<lambda>c. c \<in> set chars) s"

definition sdstolower :: "sds \<Rightarrow> sds" where
  "sdstolower s = map to_lower s"

text \<open>Splitting by a separator, which is not empty. \<open>tok\<close> is the token being read; the search stops
  where the separator no longer fits, which the text left over shows. A text shorter than the
  separator less one makes the bound of the loop wrap around.\<close>

fun split_from :: "string \<Rightarrow> nat \<Rightarrow> string \<Rightarrow> string \<Rightarrow> string list" where
  "split_from sep 0 tok s = [tok @ s]"
| "split_from sep (Suc fuel) tok s =
     (if length s < length sep then [tok @ s]
      else if prefix_at sep s then tok # split_from sep fuel [] (drop (length sep) s)
      else split_from sep fuel (tok @ [hd s]) (tl s))"

definition sdssplitlen :: "string \<Rightarrow> string \<Rightarrow> stop + sds list option" where
  "sdssplitlen s sep =
     (if sep = [] then Inr None
      else if s = [] then Inr (Some [])
      else if length s < length sep - 1 then Inl OutOfBounds
      else Inr (Some (split_from sep (Suc (length s)) [] s)))"

fun sdsjoinsds :: "sds list \<Rightarrow> string \<Rightarrow> sds" where
  "sdsjoinsds [] sep = []"
| "sdsjoinsds [s] sep = s"
| "sdsjoinsds (s # ss) sep = s @ sep @ sdsjoinsds ss sep"

section \<open>Trimming\<close>

lemma sdstrim_id:
  "s = [] \<or> (\<not> in_cset cset (hd s) \<and> \<not> in_cset cset (last s)) \<Longrightarrow> sdstrim s cset = s"
proof -
  assume a: "s = [] \<or> (\<not> in_cset cset (hd s) \<and> \<not> in_cset cset (last s))"
  show ?thesis
  proof (cases "s = []")
    case False
    then have "dropWhile (in_cset cset) s = s" using a by (cases s) auto
    moreover have "dropWhile (in_cset cset) (rev s) = rev s" using a False by (cases "rev s") (auto simp: hd_rev [symmetric])
    ultimately show ?thesis by (simp add: sdstrim_def)
  qed (simp add: sdstrim_def)
qed

lemma sdstrim_ends:
  assumes "sdstrim s cset \<noteq> []"
  shows "\<not> in_cset cset (hd (sdstrim s cset)) \<and> \<not> in_cset cset (last (sdstrim s cset))"
proof -
  let ?a = "dropWhile (in_cset cset) s"
  let ?b = "dropWhile (in_cset cset) (rev ?a)"
  have b: "?b \<noteq> []" using assms by (simp add: sdstrim_def)
  have "\<not> in_cset cset (hd ?b)" using b by (rule hd_dropWhile)
  moreover have "hd (rev ?b) = hd ?a"
  proof -
    have "rev ?a = takeWhile (in_cset cset) (rev ?a) @ ?b" by simp
    then have "?a = rev ?b @ rev (takeWhile (in_cset cset) (rev ?a))" by (metis rev_append rev_rev_ident)
    then show ?thesis using b by (metis hd_append2 rev_is_Nil_conv)
  qed
  moreover have "?a \<noteq> []" using b by (metis dropWhile.simps(1) rev.simps(1))
  then have "\<not> in_cset cset (hd ?a)" by (rule hd_dropWhile)
  ultimately show ?thesis using b by (simp add: sdstrim_def last_rev)
qed

section \<open>Splitting and joining\<close>

lemma split_from_join:
  "sep \<noteq> [] \<Longrightarrow> sdsjoinsds (split_from sep fuel tok s) sep = tok @ s \<and> split_from sep fuel tok s \<noteq> []"
proof (induction sep fuel tok s rule: split_from.induct)
  case (2 sep fuel tok s)
  show ?case
  proof (cases "length s < length sep \<or> \<not> prefix_at sep s")
    case True
    then show ?thesis using 2 by (cases s) auto
  next
    case False
    then obtain t where "s = sep @ t" by (auto simp: prefix_at_iff)
    moreover obtain x xs where "split_from sep fuel [] t = x # xs"
      using 2 False calculation by (cases "split_from sep fuel [] t") auto
    ultimately show ?thesis using 2 False by auto
  qed
qed simp

lemma split_from_single:
  "length s \<le> fuel \<Longrightarrow> \<forall>t \<in> set (split_from [c] (Suc fuel) tok s). c \<notin> set t \<or> c \<in> set tok"
proof (induction fuel arbitrary: tok s)
  case 0
  then show ?case by (cases s) auto
next
  case (Suc fuel)
  show ?case
  proof (cases s)
    case (Cons x xs)
    show ?thesis
    proof (cases "x = c")
      case True
      have "\<forall>t \<in> set (split_from [c] (Suc fuel) [] xs). c \<notin> set t \<or> c \<in> set ([] :: string)"
        by (rule Suc.IH) (use Suc.prems Cons in auto)
      then show ?thesis using Cons True by (auto simp del: split_from.simps(2) simp: split_from.simps(2) [of _ "Suc fuel"])
    next
      case False
      have "\<forall>t \<in> set (split_from [c] (Suc fuel) (tok @ [x]) xs). c \<notin> set t \<or> c \<in> set (tok @ [x])"
        by (rule Suc.IH) (use Suc.prems Cons in auto)
      then show ?thesis using Cons False by (auto simp del: split_from.simps(2) simp: split_from.simps(2) [of _ "Suc fuel"])
    qed
  qed simp
qed

text \<open>Splitting loses nothing: joining the tokens with the separator gives the text back, and
  for a separator of one character, the only kind the program uses, no token holds it.\<close>

theorem sdssplit_join:
  assumes "sep \<noteq> []" and "s \<noteq> []" and "length sep \<le> Suc (length s)"
  shows "\<exists>ts. sdssplitlen s sep = Inr (Some ts) \<and> sdsjoinsds ts sep = s
     \<and> (length sep = 1 \<longrightarrow> list_all (\<lambda>t. hd sep \<notin> set t) ts)"
proof -
  let ?ts = "split_from sep (Suc (length s)) [] s"
  have "sdssplitlen s sep = Inr (Some ?ts)" using assms by (auto simp: sdssplitlen_def)
  moreover have "sdsjoinsds ?ts sep = s" using split_from_join [OF assms(1), of "Suc (length s)" "[]" s] by (metis append_Nil)
  moreover have "list_all (\<lambda>t. hd sep \<notin> set t) ?ts" if "length sep = 1"
  proof -
    have "sep = [hd sep]" using that by (cases sep) auto
    then show ?thesis using split_from_single [of s "length s" "hd sep" "[]"] by (auto simp: list_all_iff)
  qed
  ultimately show ?thesis by blast
qed

theorem sdssplit_join_witness:
  "\<exists>ts. sdssplitlen ''#a,#b'' '','' = Inr (Some ts) \<and> sdsjoinsds ts '','' = ''#a,#b''
     \<and> (length '','' = 1 \<longrightarrow> list_all (\<lambda>t. hd '','' \<notin> set t) ts)"
  by (rule sdssplit_join) simp_all

end
