(* ===== verification/Sds_Memory.thy ===== *)
theory Sds_Memory
  imports Sds
begin

text \<open>
  The storage of the dynamic strings, \<open>sds.c\<close> and \<open>sds.h\<close>: the header with the type in the low bits of its
  flags byte, the stored length and capacity at the width of the type, and the buffer behind it. Each
  operation is written with its reads and writes; one that leaves the buffer is a fault. What \<open>malloc\<close> and
  \<open>realloc\<close> return is an argument: \<open>None\<close> for failure, else what the new memory holds.
\<close>

section \<open>Header and buffer\<close>

record sdshdr =
  h_flags :: nat
  h_len :: nat
  h_alloc :: nat
  h_buf :: string

definition SDS_MAX_PREALLOC :: nat where
  "SDS_MAX_PREALLOC = 1024 * 1024"

text \<open>\<open>flags & SDS_TYPE_MASK\<close> and \<open>SDS_TYPE_5_LEN(flags)\<close>. The types 5, 8, 16, 32 and 64 are numbered from 0.\<close>

definition sds_type :: "sdshdr \<Rightarrow> nat" where
  "sds_type s = h_flags s mod 8"

definition SDS_TYPE_5_LEN :: "nat \<Rightarrow> nat" where
  "SDS_TYPE_5_LEN f = f div 8"

definition field_bits :: "nat \<Rightarrow> nat" where
  "field_bits t = (if t = 1 then 8 else if t = 2 then 16 else if t = 3 then 32 else 64)"

definition has_fields :: "nat \<Rightarrow> bool" where
  "has_fields t \<longleftrightarrow> 1 \<le> t \<and> t \<le> 4"

definition sdslen :: "sdshdr \<Rightarrow> nat" where
  "sdslen s = (if sds_type s = 0 then SDS_TYPE_5_LEN (h_flags s) else if has_fields (sds_type s) then h_len s else 0)"

text \<open>The difference is an \<open>int\<close> for the two small types and has 32 or 64 bits for the others.\<close>

definition sdsavail :: "sdshdr \<Rightarrow> nat" where
  "sdsavail s =
     (let t = sds_type s in
      if t = 1 \<or> t = 2 \<or> t = 4 then size_sub (h_alloc s) (h_len s)
      else if t = 3 then (h_alloc s + 2 ^ 32 - h_len s) mod 2 ^ 32 else 0)"

definition sdssetlen :: "nat \<Rightarrow> sdshdr \<Rightarrow> sdshdr" where
  "sdssetlen newlen s =
     (let t = sds_type s in
      if t = 0 then s\<lparr>h_flags := 8 * newlen mod 256\<rparr>
      else if has_fields t then s\<lparr>h_len := newlen mod 2 ^ field_bits t\<rparr> else s)"

definition sdsinclen :: "nat \<Rightarrow> sdshdr \<Rightarrow> sdshdr" where
  "sdsinclen inc s =
     (let t = sds_type s in
      if t = 0 then s\<lparr>h_flags := 8 * ((SDS_TYPE_5_LEN (h_flags s) + inc) mod 256) mod 256\<rparr>
      else if has_fields t then s\<lparr>h_len := (h_len s + inc) mod 2 ^ field_bits t\<rparr> else s)"

definition sdsalloc :: "sdshdr \<Rightarrow> nat" where
  "sdsalloc s = (if sds_type s = 0 then SDS_TYPE_5_LEN (h_flags s) else if has_fields (sds_type s) then h_alloc s else 0)"

definition sdssetalloc :: "nat \<Rightarrow> sdshdr \<Rightarrow> sdshdr" where
  "sdssetalloc newlen s =
     (let t = sds_type s in if has_fields t then s\<lparr>h_alloc := newlen mod 2 ^ field_bits t\<rparr> else s)"

definition sdsHdrSize :: "nat \<Rightarrow> nat" where
  "sdsHdrSize t = (if t = 0 then 1 else if t = 1 then 3 else if t = 2 then 5 else if t = 3 then 9 else if t = 4 then 17 else 0)"

definition sdsReqType :: "nat \<Rightarrow> nat" where
  "sdsReqType n = (if n < 2 ^ 5 then 0 else if n < 2 ^ 8 then 1 else if n < 2 ^ 16 then 2 else if n < 2 ^ 32 then 3 else 4)"

definition sdsAllocSize :: "sdshdr \<Rightarrow> nat" where
  "sdsAllocSize s = size_t (sdsHdrSize (sds_type s) + sdsalloc s + 1)"

text \<open>How far before the characters the allocation begins, which is what \<open>sdsfree\<close> hands to \<open>free\<close>;
  nothing is released for \<open>NULL\<close>.\<close>

definition sdsAllocPtr :: "sdshdr \<Rightarrow> nat" where
  "sdsAllocPtr s = sdsHdrSize (sds_type s)"

definition sdsfree :: "sdshdr option \<Rightarrow> nat option" where
  "sdsfree s = (case s of None \<Rightarrow> None | Some s \<Rightarrow> Some (sdsHdrSize (h_flags s mod 8)))"

section \<open>Memory\<close>

text \<open>\<open>n\<close> bytes of memory that starts with \<open>j\<close>, and the part of an allocation of \<open>hdr + n + 1\<close> bytes behind
  the header.\<close>

definition fill :: "nat \<Rightarrow> string \<Rightarrow> string" where
  "fill n j = take n (j @ replicate n NUL)"

definition room :: "nat \<Rightarrow> nat \<Rightarrow> nat" where
  "room hdr n = size_t (hdr + n + 1) - hdr"

definition put :: "nat \<Rightarrow> string \<Rightarrow> sdshdr \<Rightarrow> stop + sdshdr" where
  "put i xs s = (if i + length xs \<le> length (h_buf s) then Inr (s\<lparr>h_buf := mem_put (h_buf s) i xs\<rparr>) else Inl OutOfBounds)"

definition bytes_at :: "nat \<Rightarrow> nat \<Rightarrow> sdshdr \<Rightarrow> stop + string" where
  "bytes_at i n s = (if i + n \<le> length (h_buf s) then Inr (take n (drop i (h_buf s))) else Inl OutOfBounds)"

text \<open>\<open>NULL\<close> from an operation that could not allocate.\<close>

type_synonym sds_result = "stop + sdshdr option"

definition and_some :: "sds_result \<Rightarrow> (sdshdr \<Rightarrow> sds_result) \<Rightarrow> sds_result" where
  "and_some m f = and_then m (\<lambda>r. case r of None \<Rightarrow> Inr None | Some s \<Rightarrow> f s)"

definition done_with :: "stop + sdshdr \<Rightarrow> sds_result" where
  "done_with m = and_then m (\<lambda>s. Inr (Some s))"

section \<open>Creating\<close>

text \<open>What a new string is filled with: \<open>SDS_NOINIT\<close>, \<open>NULL\<close> or the bytes at a pointer.\<close>

datatype sds_init = NoInit | NullInit | InitBytes string

definition sdsnewlen :: "string option \<Rightarrow> sds_init \<Rightarrow> nat \<Rightarrow> sds_result" where
  "sdsnewlen a init initlen =
     (let t = sdsReqType initlen; t = (if t = 0 \<and> initlen = 0 then 1 else t) in
      case a of None \<Rightarrow> Inr None
      | Some j \<Rightarrow>
          (let n = room (sdsHdrSize t) initlen;
               buf = (case init of NullInit \<Rightarrow> replicate n NUL | _ \<Rightarrow> fill n j);
               s = \<lparr>h_flags = (if t = 0 then 8 * initlen mod 256 else t),
                    h_len = (if t = 0 then 0 else initlen mod 2 ^ field_bits t),
                    h_alloc = (if t = 0 then 0 else initlen mod 2 ^ field_bits t), h_buf = buf\<rparr> in
           done_with (and_then
             (case init of
                InitBytes xs \<Rightarrow> if initlen = 0 then Inr s
                  else if length xs < initlen then Inl OutOfBounds else put 0 (take initlen xs) s
              | _ \<Rightarrow> Inr s)
             (put initlen [NUL]))))"

definition sdsempty :: "string option \<Rightarrow> sds_result" where
  "sdsempty a = sdsnewlen a (InitBytes [NUL]) 0"

definition sdsdup :: "string option \<Rightarrow> sdshdr \<Rightarrow> sds_result" where
  "sdsdup a s = sdsnewlen a (InitBytes (h_buf s)) (sdslen s)"

section \<open>Growing and shrinking\<close>

definition sdsMakeRoomFor :: "string option \<Rightarrow> nat \<Rightarrow> sdshdr \<Rightarrow> sds_result" where
  "sdsMakeRoomFor a addlen s =
     (if sdsavail s \<ge> addlen then Inr (Some s)
      else
        (let oldtype = sds_type s; len = sdslen s;
             newlen = size_t (len + addlen);
             newlen = (if newlen < SDS_MAX_PREALLOC then newlen * 2 else size_t (newlen + SDS_MAX_PREALLOC));
             t = sdsReqType newlen; t = (if t = 0 then 1 else t);
             n = room (sdsHdrSize t) newlen in
         case a of None \<Rightarrow> Inr None
         | Some j \<Rightarrow>
             done_with (and_then
               (if oldtype = t then Inr (s\<lparr>h_buf := fill n (h_buf s @ j)\<rparr>)
                else and_then (bytes_at 0 (len + 1) s) (\<lambda>xs.
                  and_then (put 0 xs \<lparr>h_flags = t, h_len = 0, h_alloc = 0, h_buf = fill n j\<rparr>) (\<lambda>s.
                  Inr (sdssetlen len s))))
               (\<lambda>s. Inr (sdssetalloc newlen s)))))"

definition sdsRemoveFreeSpace :: "string option \<Rightarrow> sdshdr \<Rightarrow> sds_result" where
  "sdsRemoveFreeSpace a s =
     (let oldtype = sds_type s; len = sdslen s in
      if sdsavail s = 0 then Inr (Some s)
      else
        (let t = sdsReqType len in
         case a of None \<Rightarrow> Inr None
         | Some j \<Rightarrow>
             done_with (and_then
               (if oldtype = t \<or> t > 1 then Inr (s\<lparr>h_buf := fill (room (sdsHdrSize oldtype) len) (h_buf s @ j)\<rparr>)
                else and_then (bytes_at 0 (len + 1) s) (\<lambda>xs.
                  and_then (put 0 xs \<lparr>h_flags = t, h_len = 0, h_alloc = 0, h_buf = fill (room (sdsHdrSize t) len) j\<rparr>) (\<lambda>s.
                  Inr (sdssetlen len s))))
               (\<lambda>s. Inr (sdssetalloc len s)))))"

definition sdsIncrLen :: "nat \<Rightarrow> sdshdr \<Rightarrow> stop + sdshdr" where
  "sdsIncrLen incr s =
     (let t = sds_type s in
      if t = 0 then
        (let oldlen = SDS_TYPE_5_LEN (h_flags s); len = size_t (oldlen + incr) in
         put len [NUL] (s\<lparr>h_flags := 8 * len mod 256\<rparr>))
      else if has_fields t then
        (let len = (h_len s + incr) mod 2 ^ field_bits t in put len [NUL] (s\<lparr>h_len := len\<rparr>))
      else put 0 [NUL] s)"

section \<open>Changing the text\<close>

text \<open>The bytes \<open>t\<close> are all of \<open>len\<close>.\<close>

definition sdscatlen_mem :: "string option \<Rightarrow> string \<Rightarrow> sdshdr \<Rightarrow> sds_result" where
  "sdscatlen_mem a t s =
     (let curlen = sdslen s in
      and_some (sdsMakeRoomFor a (length t) s) (\<lambda>s.
      done_with (and_then (put curlen t s) (\<lambda>s.
        put (curlen + length t) [NUL] (sdssetlen (curlen + length t) s)))))"

definition sdscat :: "string option \<Rightarrow> string \<Rightarrow> sdshdr \<Rightarrow> sds_result" where
  "sdscat a t s = sdscatlen_mem a (cstr t) s"

definition sdscatsds :: "string option \<Rightarrow> sdshdr \<Rightarrow> sdshdr \<Rightarrow> sds_result" where
  "sdscatsds a t s = and_then (bytes_at 0 (sdslen t) t) (\<lambda>xs. sdscatlen_mem a xs s)"

definition sdscpylen :: "string option \<Rightarrow> string \<Rightarrow> sdshdr \<Rightarrow> sds_result" where
  "sdscpylen a t s =
     and_some (if sdsalloc s < length t then sdsMakeRoomFor a (size_sub (length t) (sdslen s)) s else Inr (Some s)) (\<lambda>s.
     done_with (and_then (put 0 t s) (\<lambda>s. and_then (put (length t) [NUL] s) (\<lambda>s. Inr (sdssetlen (length t) s)))))"

definition sdscpy :: "string option \<Rightarrow> string \<Rightarrow> sdshdr \<Rightarrow> sds_result" where
  "sdscpy a t s = sdscpylen a (cstr t) s"

definition sdsgrowzero_mem :: "string option \<Rightarrow> nat \<Rightarrow> sdshdr \<Rightarrow> sds_result" where
  "sdsgrowzero_mem a len s =
     (let curlen = sdslen s in
      if len \<le> curlen then Inr (Some s)
      else and_some (sdsMakeRoomFor a (len - curlen) s) (\<lambda>s.
        done_with (and_then (put curlen (replicate (len - curlen + 1) NUL) s) (\<lambda>s. Inr (sdssetlen len s)))))"

definition sdsclear :: "sdshdr \<Rightarrow> stop + sdshdr" where
  "sdsclear s = put 0 [NUL] (sdssetlen 0 s)"

definition sdsupdatelen_mem :: "sdshdr \<Rightarrow> stop + sdshdr" where
  "sdsupdatelen_mem s = (if NUL \<in> set (h_buf s) then Inr (sdssetlen (length (cstr (h_buf s))) s) else Inl OutOfBounds)"

text \<open>The pieces of a string that stay: \<open>memmove\<close> to the front, the terminator, the length.\<close>

definition keep_range :: "nat \<Rightarrow> nat \<Rightarrow> sdshdr \<Rightarrow> stop + sdshdr" where
  "keep_range start newlen s =
     and_then (if start \<noteq> 0 \<and> newlen \<noteq> 0 then and_then (bytes_at start newlen s) (\<lambda>xs. put 0 xs s) else Inr s) (\<lambda>s.
     and_then (put newlen [NUL] s) (\<lambda>s. Inr (sdssetlen newlen s)))"

text \<open>The loops of \<open>sdstrim\<close>, with the end one past the last character.\<close>

fun trim_start :: "string \<Rightarrow> string \<Rightarrow> nat \<Rightarrow> nat \<Rightarrow> nat" where
  "trim_start buf cset sp 0 = sp"
| "trim_start buf cset sp (Suc left) = (if in_cset cset (buf ! sp) then trim_start buf cset (Suc sp) left else sp)"

fun trim_end :: "string \<Rightarrow> string \<Rightarrow> nat \<Rightarrow> nat \<Rightarrow> nat" where
  "trim_end buf cset sp 0 = sp"
| "trim_end buf cset sp (Suc left) =
     (if left > 0 \<and> in_cset cset (buf ! (sp + left)) then trim_end buf cset sp left else sp + Suc left)"

definition sdstrim_mem :: "string \<Rightarrow> sdshdr \<Rightarrow> stop + sdshdr" where
  "sdstrim_mem cset s =
     (let len = sdslen s; sp = trim_start (h_buf s) cset 0 len;
          ep = trim_end (h_buf s) cset sp (len - sp) in
      keep_range sp (ep - sp) s)"

definition range_bounds :: "nat \<Rightarrow> int \<Rightarrow> int \<Rightarrow> nat \<times> nat" where
  "range_bounds n start fin =
     (let len = int n;
          start = (if start < 0 then max 0 (len + start) else start);
          fin = (if fin < 0 then max 0 (len + fin) else fin);
          newlen = (if start > fin then 0 else fin - start + 1) in
      if newlen = 0 then (0, 0)
      else if start \<ge> len mod 2 ^ 32 then (nat start, 0)
      else (let fin = (if fin \<ge> len then len - 1 else fin) in
        (nat start, nat (if start > fin then 0 else fin - start + 1))))"

definition sdsrange_mem :: "int \<Rightarrow> int \<Rightarrow> sdshdr \<Rightarrow> stop + sdshdr" where
  "sdsrange_mem start fin s =
     (if sdslen s = 0 then Inr s
      else (case range_bounds (sdslen s) start fin of (start, newlen) \<Rightarrow> keep_range start newlen s))"

text \<open>The loops over the characters.\<close>

definition map_text :: "(char \<Rightarrow> char) \<Rightarrow> sdshdr \<Rightarrow> stop + sdshdr" where
  "map_text f s = and_then (bytes_at 0 (sdslen s) s) (\<lambda>xs. put 0 (map f xs) s)"

definition sdstolower_mem :: "sdshdr \<Rightarrow> stop + sdshdr" where
  "sdstolower_mem = map_text to_lower"

definition to_upper :: "char \<Rightarrow> char" where
  "to_upper c = (if 97 \<le> char_code c \<and> char_code c \<le> 122 then char_of (char_code c - 32) else c)"

definition sdstoupper_mem :: "sdshdr \<Rightarrow> stop + sdshdr" where
  "sdstoupper_mem = map_text to_upper"

text \<open>\<open>src\<close> and \<open>dst\<close> have \<open>setlen\<close> characters each; the first match counts.\<close>

definition map_char :: "string \<Rightarrow> string \<Rightarrow> char \<Rightarrow> char" where
  "map_char src dst c = (case map_of (zip src dst) c of None \<Rightarrow> c | Some d \<Rightarrow> d)"

definition sdsmapchars :: "string \<Rightarrow> string \<Rightarrow> sdshdr \<Rightarrow> stop + sdshdr" where
  "sdsmapchars src dst = map_text (map_char src dst)"

end
