(* ===== verification/Sds_Refine.thy ===== *)
theory Sds_Refine
  imports Sds_Memory
begin

text \<open>
  The stored strings implement the strings as values: every operation on the header and the buffer
  keeps the representation, stays inside the buffer, and gives the value the abstract operation gives.
\<close>

section \<open>The representation\<close>

text \<open>The header is consistent and the buffer holds the capacity and the terminator.\<close>

definition sds_ok :: "sdshdr \<Rightarrow> bool" where
  "sds_ok s \<longleftrightarrow> h_flags s < 256 \<and> sds_type s \<le> 4
     \<and> (sds_type s \<noteq> 0 \<longrightarrow> h_len s \<le> h_alloc s \<and> h_alloc s < 2 ^ field_bits (sds_type s))
     \<and> sdsalloc s < length (h_buf s)"

definition sds_wf :: "sdshdr \<Rightarrow> bool" where
  "sds_wf s \<longleftrightarrow> sds_ok s \<and> h_buf s ! sdslen s = NUL"

definition sds_text :: "sdshdr \<Rightarrow> string" where
  "sds_text s = take (sdslen s) (h_buf s)"

lemma field_bits_size: "2 ^ field_bits t \<le> SIZE_MOD"
  by (simp add: field_bits_def SIZE_MOD_def)

lemma ok_facts:
  assumes "sds_ok s"
  shows "sdslen s \<le> sdsalloc s" "sdsalloc s < SIZE_MOD" "sdslen s < length (h_buf s)"
    "sdsavail s = (if sds_type s = 0 then 0 else sdsalloc s - sdslen s)" "sds_type s = 0 \<Longrightarrow> sdsalloc s = sdslen s \<and> sdslen s < 32"
proof -
  show le: "sdslen s \<le> sdsalloc s" using assms by (auto simp: sds_ok_def sdslen_def sdsalloc_def has_fields_def)
  show alloc: "sdsalloc s < SIZE_MOD"
  proof (cases "sds_type s = 0")
    case True
    then have "sdsalloc s = h_flags s div 8" "h_flags s < 256"
      using assms by (simp_all add: sds_ok_def sdsalloc_def SDS_TYPE_5_LEN_def)
    moreover have "h_flags s div 8 \<le> h_flags s" by (rule div_le_dividend)
    ultimately show ?thesis by (simp add: SIZE_MOD_def)
  next
    case False
    then show ?thesis using assms field_bits_size [of "sds_type s"] by (auto simp: sds_ok_def sdsalloc_def has_fields_def)
  qed
  show "sdslen s < length (h_buf s)" using assms le by (simp add: sds_ok_def)
  show "sds_type s = 0 \<Longrightarrow> sdsalloc s = sdslen s \<and> sdslen s < 32"
    using assms by (auto simp: sds_ok_def sdsalloc_def sdslen_def SDS_TYPE_5_LEN_def intro: less_mult_imp_div_less)
  show "sdsavail s = (if sds_type s = 0 then 0 else sdsalloc s - sdslen s)"
  proof (cases "sds_type s = 0 \<or> sds_type s = 3")
    case True
    have "(h_alloc s + 2 ^ 32 - h_len s) mod 2 ^ 32 = h_alloc s - h_len s" if "sds_type s = 3"
    proof -
      have h: "h_len s \<le> h_alloc s" "h_alloc s < 2 ^ 32" using assms that by (auto simp: sds_ok_def field_bits_def)
      then have "h_alloc s + 2 ^ 32 - h_len s = (h_alloc s - h_len s) + 2 ^ 32" by simp
      then show ?thesis using h(2) by (simp only: mod_add_self2) simp
    qed
    then show ?thesis using True
      by (auto simp: sdsavail_def sdsalloc_def sdslen_def has_fields_def Let_def)
  next
    case False
    then have "sds_type s = 1 \<or> sds_type s = 2 \<or> sds_type s = 4" using assms by (auto simp: sds_ok_def)
    then show ?thesis using alloc le by (auto simp: sdsavail_def sdsalloc_def sdslen_def has_fields_def Let_def)
  qed
qed

text \<open>Storing a length that fits.\<close>

lemma setlen_ok:
  assumes "sds_ok s" and "n \<le> sdsalloc s"
  shows "sds_ok (sdssetlen n s)" "sdslen (sdssetlen n s) = n" "h_buf (sdssetlen n s) = h_buf s"
    "sds_type (sdssetlen n s) = sds_type s"
proof -
  have "sds_ok (sdssetlen n s) \<and> sdslen (sdssetlen n s) = n \<and> h_buf (sdssetlen n s) = h_buf s
     \<and> sds_type (sdssetlen n s) = sds_type s"
  proof (cases "sds_type s = 0")
    case True
    then have n: "n < 32" "sdsalloc s < length (h_buf s)" using assms ok_facts(5) [OF assms(1)] by (auto simp: sds_ok_def)
    moreover have "8 * n mod 256 = 8 * n" using n(1) by simp
    ultimately show ?thesis using True assms(2)
      by (auto simp: sdssetlen_def Let_def sds_ok_def sds_type_def sdslen_def sdsalloc_def SDS_TYPE_5_LEN_def)
  next
    case False
    then have t: "has_fields (sds_type s)" using assms(1) by (simp add: sds_ok_def has_fields_def)
    then have "n < 2 ^ field_bits (sds_type s)" using assms False by (auto simp: sds_ok_def sdsalloc_def)
    then show ?thesis using False t assms
      by (simp add: sdssetlen_def Let_def sds_ok_def sds_type_def sdslen_def sdsalloc_def)
  qed
  then show "sds_ok (sdssetlen n s)" "sdslen (sdssetlen n s) = n" "h_buf (sdssetlen n s) = h_buf s"
    "sds_type (sdssetlen n s) = sds_type s" by auto
qed

lemma buf_ok:
  "length b = length (h_buf s) \<Longrightarrow> sds_ok (s\<lparr>h_buf := b\<rparr>) = sds_ok s"
  "sdslen (s\<lparr>h_buf := b\<rparr>) = sdslen s" "sdsalloc (s\<lparr>h_buf := b\<rparr>) = sdsalloc s" "sds_type (s\<lparr>h_buf := b\<rparr>) = sds_type s"
  by (simp_all add: sds_ok_def sdslen_def sdsalloc_def sds_type_def)

lemma put_ok:
  assumes "i + length xs \<le> length (h_buf s)"
  shows "put i xs s = Inr (s\<lparr>h_buf := mem_put (h_buf s) i xs\<rparr>)" "length (mem_put (h_buf s) i xs) = length (h_buf s)"
  using assms by (simp_all add: put_def mem_put_length)

text \<open>A new text and its terminator are written, and the length is stored.\<close>

lemma wfI:
  assumes "sds_ok s" and "n \<le> sdsalloc s" and "take n (h_buf s) = t" and "h_buf s ! n = NUL"
  shows "sds_wf (sdssetlen n s)" "sds_text (sdssetlen n s) = t"
  using setlen_ok [OF assms(1,2)] assms(3,4) by (simp_all add: sds_wf_def sds_text_def)

lemma nth_mem_put: "i + length xs \<le> length b \<Longrightarrow> k < length b \<Longrightarrow>
   mem_put b i xs ! k = (if k < i then b ! k else if k < i + length xs then xs ! (k - i) else b ! k)"
  by (auto simp: mem_put_def nth_append)

section \<open>Creating\<close>

lemma reqtype_facts:
  assumes "n < SIZE_MOD" and "t = sdsReqType n"
  shows "t \<le> 4" "t \<noteq> 0 \<Longrightarrow> n < 2 ^ field_bits t" "t = 0 \<Longrightarrow> n < 32" "sdsHdrSize t \<le> 17"
  using assms by (auto simp: sdsReqType_def field_bits_def SIZE_MOD_def sdsHdrSize_def split: if_splits)

lemma room_size: "n < 2 ^ 63 \<Longrightarrow> hdr \<le> 17 \<Longrightarrow> room hdr n = n + 1"
  by (simp add: room_def size_t_def SIZE_MOD_def)

lemma fill_length [simp]: "length (fill n j) = n"
  by (simp add: fill_def)

lemma hdr_size: "sdsHdrSize t \<le> 17"
  by (simp add: sdsHdrSize_def)

text \<open>A header of the smallest type that holds a length, or of one that can grow.\<close>

lemma new_header:
  assumes "n < 2 ^ 63" and "t = sdsReqType n \<or> (sdsReqType n = 0 \<and> t = 1)" and "length b = n + 1"
    and "s = \<lparr>h_flags = (if t = 0 then 8 * n mod 256 else t), h_len = (if t = 0 then 0 else n mod 2 ^ field_bits t),
        h_alloc = (if t = 0 then 0 else n mod 2 ^ field_bits t), h_buf = b\<rparr>"
  shows "sds_ok s" "sdslen s = n" "sdsalloc s = n" "h_buf s = b"
proof -
  have n: "n < SIZE_MOD" using assms(1) by (simp add: SIZE_MOD_def)
  have t: "t \<le> 4" "t \<noteq> 0 \<Longrightarrow> n < 2 ^ field_bits t" "t = 0 \<Longrightarrow> n < 32"
    using assms(2) reqtype_facts [OF n, of "sdsReqType n"] by (auto simp: field_bits_def)
  have "sds_ok s \<and> sdslen s = n \<and> sdsalloc s = n"
  proof (cases "t = 0")
    case True
    then have "8 * n mod 256 = 8 * n" using t(3) by simp
    then show ?thesis using True t(3) assms(3,4)
      by (simp add: sds_ok_def sds_type_def sdslen_def sdsalloc_def SDS_TYPE_5_LEN_def)
  next
    case False
    then show ?thesis using t assms(3,4)
      by (simp add: sds_ok_def sds_type_def sdslen_def sdsalloc_def has_fields_def)
  qed
  then show "sds_ok s" "sdslen s = n" "sdsalloc s = n" by auto
  show "h_buf s = b" using assms(4) by simp
qed

lemma sdsnewlen_ok:
  assumes "length xs \<ge> n" and "n < 2 ^ 63"
  shows "\<exists>s. sdsnewlen (Some j) (InitBytes xs) n = Inr (Some s) \<and> sds_wf s \<and> sds_text s = take n xs \<and> sdsalloc s = n"
proof -
  define t where "t = (if sdsReqType n = 0 \<and> n = 0 then 1 else sdsReqType n)"
  let ?s = "\<lparr>h_flags = (if t = 0 then 8 * n mod 256 else t), h_len = (if t = 0 then 0 else n mod 2 ^ field_bits t),
     h_alloc = (if t = 0 then 0 else n mod 2 ^ field_bits t), h_buf = fill (n + 1) j\<rparr>"
  have t: "t = sdsReqType n \<or> (sdsReqType n = 0 \<and> t = 1)" by (auto simp: t_def)
  have h: "sds_ok ?s" "sdslen ?s = n" "sdsalloc ?s = n" by (rule new_header [OF assms(2) t _ refl]; simp)+
  have r: "room (sdsHdrSize t) n = n + 1" by (rule room_size [OF assms(2) hdr_size])
  let ?b = "mem_put (mem_put (fill (n + 1) j) 0 (take n xs)) n [NUL]"
  have len: "length (mem_put (fill (n + 1) j) 0 (take n xs)) = n + 1" using assms(1) by (simp add: mem_put_length)
  have b: "length ?b = n + 1" "take n ?b = take n xs" "?b ! n = NUL"
    using assms(1) len by (simp_all add: mem_put_def nth_append)
  have "sdsnewlen (Some j) (InitBytes xs) n = Inr (Some (?s\<lparr>h_buf := ?b\<rparr>))"
    using assms(1) len unfolding sdsnewlen_def t_def [symmetric] Let_def r
    by (auto simp: put_def done_with_def mem_put_def)
  moreover have "sds_wf (?s\<lparr>h_buf := ?b\<rparr>) \<and> sds_text (?s\<lparr>h_buf := ?b\<rparr>) = take n xs \<and> sdsalloc (?s\<lparr>h_buf := ?b\<rparr>) = n"
    using h b buf_ok [of ?b ?s] by (simp add: sds_wf_def sds_text_def)
  ultimately show ?thesis by blast
qed

section \<open>Growing\<close>

lemma mem_put_front: "length xs \<le> length b \<Longrightarrow> take (length xs) (mem_put b 0 xs) = xs"
  by (simp add: mem_put_def)

lemma take_fill: "n \<le> m \<Longrightarrow> n \<le> length b \<Longrightarrow> take n (fill m (b @ j)) = take n b"
  by (simp add: fill_def)

text \<open>Storing a new capacity.\<close>

lemma setalloc_ok:
  assumes "has_fields (sds_type s)" and "sds_type s = sdsReqType n \<or> sds_type s = 1 \<and> n < 2 ^ 8 \<or> sdsReqType n < sds_type s"
    and "n < SIZE_MOD" and "h_len s \<le> n" and "n < length (h_buf s)" and "h_flags s < 256"
  shows "sds_ok (sdssetalloc n s)" "sdslen (sdssetalloc n s) = sdslen s" "sdsalloc (sdssetalloc n s) = n"
    "h_buf (sdssetalloc n s) = h_buf s"
proof -
  have "n < 2 ^ field_bits (sds_type s)"
    using assms(1-3) by (auto simp: has_fields_def sdsReqType_def field_bits_def SIZE_MOD_def split: if_splits)
  then show "sds_ok (sdssetalloc n s)" "sdslen (sdssetalloc n s) = sdslen s" "sdsalloc (sdssetalloc n s) = n"
    "h_buf (sdssetalloc n s) = h_buf s"
    using assms by (auto simp: sdssetalloc_def Let_def sds_ok_def sds_type_def sdslen_def sdsalloc_def has_fields_def)
qed

lemma makeroom_size:
  assumes "n < 2 ^ 62" and "m = (if n < SDS_MAX_PREALLOC then n * 2 else size_t (n + SDS_MAX_PREALLOC))"
  shows "n \<le> m" "m < 2 ^ 63" "0 < n \<Longrightarrow> 0 < m"
  using assms by (auto simp: SDS_MAX_PREALLOC_def size_t_def SIZE_MOD_def)

lemma copied_ok:
  assumes "sds_ok s" and "t = sdsReqType m \<or> (sdsReqType m = 0 \<and> t = 1)" and "m < 2 ^ 63" and "sdslen s \<le> m"
    and "t \<noteq> 0 \<or> sdslen s < 32"
  shows "\<exists>u. and_then (bytes_at 0 (sdslen s + 1) s) (\<lambda>xs.
      and_then (put 0 xs \<lparr>h_flags = t, h_len = 0, h_alloc = 0, h_buf = fill (m + 1) j\<rparr>) (\<lambda>v. Inr (sdssetlen (sdslen s) v))) = Inr u
    \<and> sds_type u = t \<and> h_flags u < 256 \<and> (t \<noteq> 0 \<longrightarrow> h_len u = sdslen s) \<and> sdslen u = sdslen s \<and> length (h_buf u) = m + 1
    \<and> take (sdslen s + 1) (h_buf u) = take (sdslen s + 1) (h_buf s)"
proof -
  let ?n = "sdslen s"
  have n: "?n < length (h_buf s)" by (rule ok_facts(3) [OF assms(1)])
  have m: "m < SIZE_MOD" using assms(3) by (simp add: SIZE_MOD_def)
  have t: "t \<le> 4" "t \<noteq> 0 \<Longrightarrow> m < 2 ^ field_bits t" using assms(2) reqtype_facts [OF m refl] by (auto simp: field_bits_def)
  let ?xs = "take (?n + 1) (h_buf s)"
  let ?b = "mem_put (fill (m + 1) j) 0 ?xs"
  have xs: "length ?xs = ?n + 1" using n by simp
  have b: "length ?b = m + 1" "take (?n + 1) ?b = ?xs"
    using xs assms(4) mem_put_front [of ?xs "fill (m + 1) j"] by (simp_all add: mem_put_length)
  let ?v = "\<lparr>h_flags = t, h_len = 0, h_alloc = 0, h_buf = ?b\<rparr>"
  have ty: "sds_type ?v = t" using t(1) by (simp add: sds_type_def)
  have "sds_type (sdssetlen ?n ?v) = t \<and> h_flags (sdssetlen ?n ?v) < 256 \<and> (t \<noteq> 0 \<longrightarrow> h_len (sdssetlen ?n ?v) = ?n)
     \<and> sdslen (sdssetlen ?n ?v) = ?n \<and> h_buf (sdssetlen ?n ?v) = ?b"
  proof (cases "t = 0")
    case True
    then have "8 * ?n mod 256 = 8 * ?n" using assms(5) by simp
    then show ?thesis using True ty by (simp add: sdssetlen_def sdslen_def sds_type_def SDS_TYPE_5_LEN_def Let_def)
  next
    case False
    then have "has_fields t" "?n < 2 ^ field_bits t" using t assms(4) by (auto simp: has_fields_def)
    then show ?thesis using False ty t(1) by (simp add: sdssetlen_def sdslen_def sds_type_def Let_def)
  qed
  then show ?thesis using n xs b assms(4) by (auto simp: bytes_at_def put_def)
qed

lemma MakeRoom_ok:
  assumes "sds_ok s" and "sdslen s + addlen < 2 ^ 62"
  shows "\<exists>t. sdsMakeRoomFor (Some j) addlen s = Inr (Some t) \<and> sds_ok t \<and> sdslen t = sdslen s
     \<and> take (sdslen s + 1) (h_buf t) = take (sdslen s + 1) (h_buf s) \<and> sdslen s + addlen \<le> sdsalloc t"
proof (cases "sdsavail s \<ge> addlen")
  case True
  then have "sdslen s + addlen \<le> sdsalloc s" using ok_facts(1,4,5) [OF assms(1)] by (auto split: if_splits)
  then show ?thesis using True assms(1) by (simp add: sdsMakeRoomFor_def)
next
  case False
  let ?n = "sdslen s"
  have pos: "0 < addlen" using False by simp
  have nl: "size_t (?n + addlen) = ?n + addlen" using assms(2) by (simp add: size_t_def SIZE_MOD_def)
  define m where "m = (if ?n + addlen < SDS_MAX_PREALLOC then (?n + addlen) * 2 else size_t (?n + addlen + SDS_MAX_PREALLOC))"
  note m = makeroom_size [OF assms(2) m_def]
  have mm: "m < SIZE_MOD" using m(2) by (simp add: SIZE_MOD_def)
  define t where "t = (if sdsReqType m = 0 then 1 else sdsReqType m)"
  have t: "t = sdsReqType m \<or> (sdsReqType m = 0 \<and> t = 1)" "t \<noteq> 0" "has_fields t" "t = sdsReqType m \<or> t = 1 \<and> m < 2 ^ 8"
    using reqtype_facts [OF mm refl] by (auto simp: t_def has_fields_def)
  have r: "room (sdsHdrSize t) m = m + 1" by (rule room_size [OF m(2) hdr_size])
  have eq: "sdsMakeRoomFor (Some j) addlen s = done_with (and_then
       (if sds_type s = t then Inr (s\<lparr>h_buf := fill (m + 1) (h_buf s @ j)\<rparr>)
        else and_then (bytes_at 0 (?n + 1) s) (\<lambda>xs.
          and_then (put 0 xs \<lparr>h_flags = t, h_len = 0, h_alloc = 0, h_buf = fill (m + 1) j\<rparr>) (\<lambda>v. Inr (sdssetlen ?n v))))
       (\<lambda>s. Inr (sdssetalloc m s)))"
    using False unfolding sdsMakeRoomFor_def Let_def nl m_def [symmetric] t_def [symmetric] r by simp
  obtain u where u: "(if sds_type s = t then Inr (s\<lparr>h_buf := fill (m + 1) (h_buf s @ j)\<rparr>)
        else and_then (bytes_at 0 (?n + 1) s) (\<lambda>xs.
          and_then (put 0 xs \<lparr>h_flags = t, h_len = 0, h_alloc = 0, h_buf = fill (m + 1) j\<rparr>) (\<lambda>v. Inr (sdssetlen ?n v)))) = (Inr u :: stop + sdshdr)"
    "sds_type u = t" "h_flags u < 256" "h_len u = ?n" "sdslen u = ?n" "length (h_buf u) = m + 1"
    "take (?n + 1) (h_buf u) = take (?n + 1) (h_buf s)"
  proof (cases "sds_type s = t")
    case True
    have "h_len s = ?n" using True t(2,3) by (simp add: sdslen_def)
    moreover have "take (?n + 1) (fill (m + 1) (h_buf s @ j)) = take (?n + 1) (h_buf s)"
      by (rule take_fill) (use m(1) ok_facts(3) [OF assms(1)] in simp_all)
    moreover have "h_flags s < 256" using assms(1) by (simp add: sds_ok_def)
    ultimately show thesis using True by (intro that [of "s\<lparr>h_buf := fill (m + 1) (h_buf s @ j)\<rparr>"]) (simp_all add: buf_ok)
  next
    case False
    then show thesis using copied_ok [OF assms(1) t(1) m(2), of j] m(1) t(2) that by auto
  qed
  have a: "sds_ok (sdssetalloc m u)" "sdslen (sdssetalloc m u) = ?n" "sdsalloc (sdssetalloc m u) = m"
    "h_buf (sdssetalloc m u) = h_buf u"
    using setalloc_ok [of u m] t(3,4) u mm m(1) by auto
  have "sdsMakeRoomFor (Some j) addlen s = Inr (Some (sdssetalloc m u))" using eq u(1) by (simp add: done_with_def)
  then show ?thesis using a u(7) m(1) by auto
qed

section \<open>Operations on the text\<close>

lemma setlen_buf: "sdssetlen n (s\<lparr>h_buf := b\<rparr>) = (sdssetlen n s)\<lparr>h_buf := b\<rparr>"
  by (simp add: sdssetlen_def sds_type_def Let_def)

lemma stored_ok:
  assumes "sds_ok s" and "n \<le> sdsalloc s" and "length b = length (h_buf s)" and "take n b = t" and "b ! n = NUL"
  shows "sds_wf ((sdssetlen n s)\<lparr>h_buf := b\<rparr>) \<and> sds_text ((sdssetlen n s)\<lparr>h_buf := b\<rparr>) = t"
  using setlen_ok [OF assms(1,2)] assms(3-5) by (simp add: sds_wf_def sds_text_def buf_ok)

lemma text_length: "sds_ok s \<Longrightarrow> length (sds_text s) = sdslen s"
  using ok_facts(3) [of s] by (simp add: sds_text_def)

lemma wf_text:
  assumes "sds_wf s"
  shows "take (Suc (sdslen s)) (h_buf s) = sds_text s @ [NUL]" "sds_ok s" "length (sds_text s) = sdslen s"
  using assms ok_facts(3) [of s] by (simp_all add: sds_wf_def sds_text_def take_Suc_conv_app_nth)

text \<open>More room: the text is the old one.\<close>

lemma MakeRoom_text:
  assumes "sds_wf s" and "length (sds_text s) + addlen < 2 ^ 62"
  shows "\<exists>t. sdsMakeRoomFor (Some j) addlen s = Inr (Some t) \<and> sds_wf t \<and> sds_text t = sds_text s
     \<and> sdslen s + addlen \<le> sdsalloc t"
proof -
  have ok: "sds_ok s" "sdslen s + addlen < 2 ^ 62" using assms wf_text(2,3) [OF assms(1)] by auto
  obtain t where t: "sdsMakeRoomFor (Some j) addlen s = Inr (Some t)" "sds_ok t" "sdslen t = sdslen s"
    "take (sdslen s + 1) (h_buf t) = take (sdslen s + 1) (h_buf s)" "sdslen s + addlen \<le> sdsalloc t"
    using MakeRoom_ok [OF ok] by blast
  have "take (Suc (sdslen s)) (h_buf t) = sds_text t @ [h_buf t ! sdslen t]"
    using t(3) ok_facts(3) [OF t(2)] by (simp add: sds_text_def take_Suc_conv_app_nth)
  then have "sds_text t @ [h_buf t ! sdslen t] = sds_text s @ [NUL]" using t(4) wf_text(1) [OF assms(1)] by simp
  then show ?thesis using t by (auto simp: sds_wf_def)
qed

text \<open>Text written from a position on, with the terminator behind it.\<close>

lemma append_stored:
  assumes "sds_ok s" and "i + length xs \<le> sdsalloc s"
  shows "\<exists>u. and_then (put i xs s) (\<lambda>s. put (i + length xs) [NUL] (sdssetlen (i + length xs) s)) = Inr u
    \<and> sds_wf u \<and> sds_text u = take i (h_buf s) @ xs"
proof -
  let ?n = "i + length xs"
  let ?a = "mem_put (h_buf s) i xs"
  let ?b = "mem_put ?a ?n [NUL]"
  have room: "?n < length (h_buf s)" using assms by (simp add: sds_ok_def)
  then have a: "length ?a = length (h_buf s)" "take ?n ?a = take i (h_buf s) @ xs" by (simp_all add: mem_put_length take_mem_put)
  then have b: "length ?b = length (h_buf s)" "take ?n ?b = take i (h_buf s) @ xs" "?b ! ?n = NUL"
    using room by (simp_all add: mem_put_def nth_append)
  have "and_then (put i xs s) (\<lambda>s. put ?n [NUL] (sdssetlen ?n s)) = Inr ((sdssetlen ?n s)\<lparr>h_buf := ?b\<rparr>)"
    using room a(1) by (simp add: put_def setlen_buf)
  then show ?thesis using stored_ok [OF assms b] by blast
qed

lemma sdscatlen_refines:
  assumes "sds_wf s" and "length (sds_text s) + length t < 2 ^ 62"
  shows "\<exists>u. sdscatlen_mem (Some j) t s = Inr (Some u) \<and> sds_wf u \<and> sds_text u = sdscatlen (sds_text s) t"
proof -
  obtain r where r: "sdsMakeRoomFor (Some j) (length t) s = Inr (Some r)" "sds_wf r" "sds_text r = sds_text s"
    "sdslen s + length t \<le> sdsalloc r"
    using MakeRoom_text [OF assms] by blast
  have "sdslen r = sdslen s" using r(2,3) assms(1) wf_text(3) by metis
  then have "take (sdslen s) (h_buf r) = sds_text s" using r(3) by (simp add: sds_text_def)
  then show ?thesis using append_stored [OF wf_text(2) [OF r(2)] r(4)] r(1)
    by (auto simp: sdscatlen_mem_def and_some_def done_with_def sdscatlen_def Let_def)
qed

lemma setlen_buf_same [simp]: "h_buf (sdssetlen n s) = h_buf s"
  by (simp add: sdssetlen_def Let_def)

lemma setlen_put: "put i xs (sdssetlen n s) = and_then (put i xs s) (\<lambda>s. Inr (sdssetlen n s))"
  by (simp add: put_def setlen_buf)

lemma append_then_setlen:
  assumes "sds_ok s" and "i + length xs \<le> sdsalloc s"
  shows "\<exists>u. and_then (put i xs s) (\<lambda>s. and_then (put (i + length xs) [NUL] s) (\<lambda>s. Inr (sdssetlen (i + length xs) s))) = Inr u
    \<and> sds_wf u \<and> sds_text u = take i (h_buf s) @ xs"
  using append_stored [OF assms] by (simp add: setlen_put)

lemma sdscpylen_refines:
  assumes "sds_wf s" and "length t < 2 ^ 62"
  shows "\<exists>u. sdscpylen (Some j) t s = Inr (Some u) \<and> sds_wf u \<and> sds_text u = t"
proof -
  obtain r where r: "(if sdsalloc s < length t then sdsMakeRoomFor (Some j) (size_sub (length t) (sdslen s)) s
       else Inr (Some s)) = Inr (Some r)" "sds_ok r" "length t \<le> sdsalloc r"
  proof (cases "sdsalloc s < length t")
    case True
    note f = ok_facts [OF wf_text(2) [OF assms(1)]]
    have "size_sub (length t) (sdslen s) = length t - sdslen s"
      using True f(1) assms(2) by (intro size_sub_le) (auto simp: SIZE_MOD_def)
    moreover have "length (sds_text s) + (length t - sdslen s) < 2 ^ 62"
      using True f(1) assms wf_text(3) [OF assms(1)] by simp
    ultimately show thesis using that MakeRoom_text [OF assms(1), of "length t - sdslen s" j] True f(1) wf_text(2) by auto
  qed (use that assms wf_text(2) in auto)
  have "\<exists>u. and_then (put 0 t r) (\<lambda>s. and_then (put (length t) [NUL] s) (\<lambda>s. Inr (sdssetlen (length t) s))) = Inr u
     \<and> sds_wf u \<and> sds_text u = t"
    using append_then_setlen [OF r(2), of 0 t] r(3) by simp
  then show ?thesis unfolding sdscpylen_def r(1) by (auto simp: and_some_def done_with_def)
qed

lemma sdsgrowzero_refines:
  assumes "sds_wf s" and "length (sds_text s) < 2 ^ 62" and "n < 2 ^ 62"
  shows "\<exists>u. sdsgrowzero_mem (Some j) n s = Inr (Some u) \<and> sds_wf u \<and> sds_text u = sdsgrowzero (sds_text s) n"
proof (cases "n \<le> sdslen s")
  case True
  then show ?thesis using assms(1) wf_text(3) [OF assms(1)] by (simp add: sdsgrowzero_mem_def sdsgrowzero_def)
next
  case False
  let ?k = "n - sdslen s"
  have "length (sds_text s) + ?k < 2 ^ 62" using False assms(3) wf_text(3) [OF assms(1)] by simp
  then obtain r where r: "sdsMakeRoomFor (Some j) ?k s = Inr (Some r)" "sds_wf r" "sds_text r = sds_text s"
    "sdslen s + ?k \<le> sdsalloc r"
    using MakeRoom_text [OF assms(1)] by blast
  have len: "sdslen r = sdslen s" using r(2,3) assms(1) wf_text(3) by metis
  let ?b = "mem_put (h_buf r) (sdslen s) (replicate (?k + 1) NUL)"
  have alloc: "n \<le> sdsalloc r" using r(4) False by simp
  then have room: "n < length (h_buf r)" using wf_text(2) [OF r(2)] by (simp add: sds_ok_def)
  have b: "length ?b = length (h_buf r)" "?b ! n = NUL"
    using room False by (simp_all add: mem_put_length nth_mem_put)
  have "take (sdslen s) (h_buf r) = sds_text s" using r(3) len by (simp add: sds_text_def)
  then have t: "take n ?b = sds_text s @ replicate ?k NUL"
    using room False wf_text(3) [OF assms(1)]
    by (simp add: mem_put_def replicate_append_same [symmetric] del: replicate_Suc)
  have "put (sdslen s) (replicate (?k + 1) NUL) r = Inr (r\<lparr>h_buf := ?b\<rparr>)" using room False by (intro put_ok) simp
  then have "sdsgrowzero_mem (Some j) n s = Inr (Some ((sdssetlen n r)\<lparr>h_buf := ?b\<rparr>))"
    using r(1) False by (simp add: sdsgrowzero_mem_def Let_def and_some_def done_with_def setlen_buf)
  then show ?thesis using stored_ok [OF wf_text(2) [OF r(2)] alloc b(1) t b(2)] False wf_text(3) [OF assms(1)]
    by (simp add: sdsgrowzero_def)
qed

lemma sdsclear_refines:
  assumes "sds_wf s"
  shows "\<exists>u. sdsclear s = Inr u \<and> sds_wf u \<and> sds_text u = []"
  using append_stored [OF wf_text(2) [OF assms], of 0 "[]"] by (auto simp: sdsclear_def put_def mem_put_def)

lemma cstr_stop: "cstr (x @ NUL # y) = cstr x"
  by (induction x) (simp_all add: cstr_def)

lemma terminator_found: "NUL \<in> set b \<Longrightarrow> take (length (cstr b)) b = cstr b \<and> b ! length (cstr b) = NUL"
  by (induction b) (auto simp: cstr_def)

lemma sdsupdatelen_refines:
  assumes "sds_wf s"
  shows "\<exists>u. sdsupdatelen_mem s = Inr u \<and> sds_wf u \<and> sds_text u = sdsupdatelen (sds_text s)"
proof -
  note ok = wf_text [OF assms] and f = ok_facts [OF wf_text(2) [OF assms]]
  have buf: "h_buf s = sds_text s @ NUL # drop (Suc (sdslen s)) (h_buf s)"
    using ok(1) by (metis append_Cons append_Nil append_assoc append_take_drop_id)
  have c: "cstr (h_buf s) = cstr (sds_text s)" by (subst buf) (rule cstr_stop)
  have z: "NUL \<in> set (h_buf s)" by (subst buf) simp
  moreover have "length (cstr (h_buf s)) \<le> sdsalloc s"
    using f(1) ok(3) c length_takeWhile_le [of "\<lambda>x. x \<noteq> NUL" "sds_text s"] by (simp add: cstr_def)
  moreover have "take (length (cstr (h_buf s))) (h_buf s) = cstr (h_buf s)" "h_buf s ! length (cstr (h_buf s)) = NUL"
    using terminator_found [OF z] by auto
  ultimately show ?thesis by (auto simp: sdsupdatelen_mem_def sdsupdatelen_def c [symmetric] intro: wfI [OF ok(2)])
qed

section \<open>Cutting\<close>

lemma keep_range_refines:
  assumes "sds_wf s" and "i + n \<le> sdslen s"
  shows "\<exists>u. keep_range i n s = Inr u \<and> sds_wf u \<and> sds_text u = take n (drop i (sds_text s))"
proof -
  note ok = wf_text(2,3) [OF assms(1)] and f = ok_facts [OF wf_text(2) [OF assms(1)]]
  let ?xs = "take n (drop i (h_buf s))"
  have xs: "length ?xs = n" "?xs = take n (drop i (sds_text s))"
    using assms(2) f(3) by (auto simp: sds_text_def drop_take take_take min_def)
  have n: "0 + length ?xs \<le> sdsalloc s" using xs(1) assms(2) f(1) by simp
  have "keep_range i n s = and_then (put 0 ?xs s) (\<lambda>s. and_then (put (0 + length ?xs) [NUL] s) (\<lambda>s. Inr (sdssetlen (0 + length ?xs) s)))"
    if "n \<noteq> 0 \<and> i \<noteq> 0"
    using that assms(2) f(3) xs(1) by (simp add: keep_range_def bytes_at_def)
  moreover have "keep_range i n s = and_then (put n [] s) (\<lambda>s. and_then (put (n + 0) [NUL] s) (\<lambda>s. Inr (sdssetlen (n + 0) s)))"
    if "n = 0 \<or> i = 0"
    using that assms(2) f(3) by (auto simp: keep_range_def put_def mem_put_def)
  ultimately show ?thesis using append_then_setlen [OF ok(1) n] append_then_setlen [OF ok(1), of n "[]", unfolded list.size] assms(2) f(1) xs(2)
    by (cases "n \<noteq> 0 \<and> i \<noteq> 0") (auto simp: sds_text_def take_take min_def)
qed

lemma trim_start_eq: "sp + left \<le> length b \<Longrightarrow>
   trim_start b cset sp left = sp + length (takeWhile (in_cset cset) (take left (drop sp b)))"
  by (induction b cset sp left rule: trim_start.induct) (auto simp: Cons_nth_drop_Suc [symmetric])

lemma trim_end_eq: "sp + left \<le> length b \<Longrightarrow> left = 0 \<or> \<not> in_cset cset (b ! sp) \<Longrightarrow>
   trim_end b cset sp left = sp + length (dropWhile (in_cset cset) (rev (take left (drop sp b))))"
proof (induction b cset sp left rule: trim_end.induct)
  case (2 b cset sp left)
  then show ?case by (cases left) (auto simp: take_Suc_conv_app_nth)
qed simp

lemma sdstrim_refines:
  assumes "sds_wf s"
  shows "\<exists>u. sdstrim_mem cset s = Inr u \<and> sds_wf u \<and> sds_text u = sdstrim (sds_text s) cset"
proof -
  note f = ok_facts [OF wf_text(2) [OF assms]] and len = wf_text(3) [OF assms]
  let ?p = "in_cset cset" and ?x = "sds_text s"
  let ?k = "length (takeWhile ?p ?x)" and ?y = "dropWhile (in_cset cset) (sds_text s)"
  let ?z = "dropWhile ?p (rev ?y)"
  have k: "?k \<le> sdslen s" using len length_takeWhile_le [of ?p ?x] by simp
  have sp: "trim_start (h_buf s) cset 0 (sdslen s) = ?k" using f(3) by (simp add: trim_start_eq sds_text_def)
  have y: "take (sdslen s - ?k) (drop ?k (h_buf s)) = ?y"
    using k by (simp add: dropWhile_eq_drop sds_text_def drop_take)
  have "sdslen s - ?k = 0 \<or> \<not> ?p (h_buf s ! ?k)"
    using nth_length_takeWhile [of ?p ?x] len k by (cases "?k < sdslen s") (auto simp: sds_text_def)
  then have ep: "trim_end (h_buf s) cset ?k (sdslen s - ?k) = ?k + length ?z"
    using f(3) k y by (simp add: trim_end_eq)
  have z: "length ?z \<le> sdslen s - ?k"
    using length_dropWhile_le [of ?p "rev ?y"] len by (simp add: dropWhile_eq_drop)
  then have "\<exists>u. keep_range ?k (length ?z) s = Inr u \<and> sds_wf u \<and> sds_text u = take (length ?z) (drop ?k ?x)"
    using k by (intro keep_range_refines [OF assms]) simp
  moreover have "take (length ?z) (drop ?k ?x) = rev ?z"
  proof -
    have "rev ?y = takeWhile ?p (rev ?y) @ ?z" by simp
    then have "?y = rev ?z @ rev (takeWhile ?p (rev ?y))" by (metis rev_append rev_rev_ident)
    then have "take (length ?z) ?y = rev ?z" by (metis append_eq_conv_conj length_rev)
    then show ?thesis by (simp add: dropWhile_eq_drop)
  qed
  ultimately show ?thesis by (simp add: sdstrim_mem_def sdstrim_def sp ep Let_def)
qed

lemma sdsrange_refines:
  assumes "sds_wf s"
  shows "\<exists>u. sdsrange_mem start fin s = Inr u \<and> sds_wf u \<and> sds_text u = sdsrange (sds_text s) start fin"
proof (cases "sdslen s = 0")
  case True
  then show ?thesis using assms wf_text(3) [OF assms] by (simp add: sdsrange_mem_def sdsrange_def)
next
  case False
  note len = wf_text(3) [OF assms]
  obtain i n where b: "range_bounds (sdslen s) start fin = (i, n)" by fastforce
  define a where "a = (if start < 0 then max 0 (int (sdslen s) + start) else start)"
  define e where "e = (if fin < 0 then max 0 (int (sdslen s) + fin) else fin)"
  have pos: "0 \<le> a" "0 \<le> e" by (simp_all add: a_def e_def)
  have m: "int (sdslen s) mod 2 ^ 32 \<le> int (sdslen s)" by (simp add: zmod_le_nonneg_dividend)
  have r: "sdsrange (sds_text s) start fin = (if a > e \<or> a \<ge> int (sdslen s) mod 2 ^ 32 then []
      else take (nat (min e (int (sdslen s) - 1) - a + 1)) (drop (nat a) (sds_text s)))"
    using False m unfolding sdsrange_def Let_def len a_def [symmetric] e_def [symmetric] by (auto simp: min_def)
  have rb: "range_bounds (sdslen s) start fin = (if a > e then (0, 0) else if a \<ge> int (sdslen s) mod 2 ^ 32 then (nat a, 0)
      else (nat a, nat (min e (int (sdslen s) - 1) - a + 1)))"
    using m pos unfolding range_bounds_def Let_def a_def [symmetric] e_def [symmetric] by (auto simp: min_def)
  have v: "sdsrange (sds_text s) start fin = take n (drop i (sds_text s)) \<and> (n \<noteq> 0 \<longrightarrow> i + n \<le> sdslen s)"
    using b pos m unfolding r rb by (auto simp: min_def split: if_splits)
  have "keep_range i n s = keep_range 0 n s" if "n = 0" using that by (simp add: keep_range_def)
  moreover have "\<exists>u. keep_range 0 n s = Inr u \<and> sds_wf u \<and> sds_text u = []" if "n = 0"
    using that keep_range_refines [OF assms, of 0 0] by simp
  moreover have "\<exists>u. keep_range i n s = Inr u \<and> sds_wf u \<and> sds_text u = take n (drop i (sds_text s))" if "n \<noteq> 0"
    using v that by (intro keep_range_refines [OF assms]) simp
  ultimately show ?thesis using False b v by (cases "n = 0") (auto simp: sdsrange_mem_def)
qed

section \<open>Changing every character\<close>

lemma map_text_refines:
  assumes "sds_wf s"
  shows "\<exists>u. map_text f s = Inr u \<and> sds_wf u \<and> sds_text u = map f (sds_text s)"
proof -
  note ok = wf_text [OF assms] and l = ok_facts(3) [OF wf_text(2) [OF assms]]
  let ?b = "mem_put (h_buf s) 0 (map f (sds_text s))"
  have "map_text f s = Inr (s\<lparr>h_buf := ?b\<rparr>)"
    using l ok(3) by (simp add: map_text_def bytes_at_def put_def sds_text_def)
  moreover have "length ?b = length (h_buf s)" "take (sdslen s) ?b = map f (sds_text s)" "?b ! sdslen s = NUL"
    using l ok(3) assms by (simp_all add: mem_put_def nth_append sds_wf_def)
  ultimately show ?thesis using assms by (simp add: sds_wf_def buf_ok sds_text_def)
qed

section \<open>Giving room back\<close>

lemma RemoveFreeSpace_refines:
  assumes "sds_wf s" and "length (sds_text s) < 2 ^ 62"
  shows "\<exists>u. sdsRemoveFreeSpace (Some j) s = Inr (Some u) \<and> sds_wf u \<and> sds_text u = sds_text s"
proof (cases "sdsavail s = 0")
  case True
  then show ?thesis using assms by (simp add: sdsRemoveFreeSpace_def)
next
  case False
  let ?n = "sdslen s"
  let ?t = "sdsReqType ?n"
  note ok = wf_text [OF assms(1)] and f = ok_facts [OF wf_text(2) [OF assms(1)]]
  have n: "?n < 2 ^ 63" using assms(2) ok(3) by simp
  have nn: "?n < SIZE_MOD" using n by (simp add: SIZE_MOD_def)
  have old: "has_fields (sds_type s)" using False f(4) ok(2) by (auto simp: has_fields_def sds_ok_def split: if_splits)
  have r: "room (sdsHdrSize k) ?n = ?n + 1" for k by (rule room_size [OF n hdr_size])
  let ?m = "if sds_type s = ?t \<or> ?t > 1 then Inr (s\<lparr>h_buf := fill (?n + 1) (h_buf s @ j)\<rparr>)
      else and_then (bytes_at 0 (?n + 1) s) (\<lambda>xs.
        and_then (put 0 xs \<lparr>h_flags = ?t, h_len = 0, h_alloc = 0, h_buf = fill (?n + 1) j\<rparr>) (\<lambda>v. Inr (sdssetlen ?n v)))"
  have eq: "sdsRemoveFreeSpace (Some j) s = done_with (and_then ?m (\<lambda>s. Inr (sdssetalloc ?n s)))"
    using False unfolding sdsRemoveFreeSpace_def Let_def r by simp
  have "\<exists>u. ?m = Inr u \<and> sds_ok (sdssetalloc ?n u) \<and> sdslen (sdssetalloc ?n u) = ?n
     \<and> take (?n + 1) (h_buf (sdssetalloc ?n u)) = take (?n + 1) (h_buf s)"
  proof (cases "sds_type s = ?t \<or> ?t > 1")
    case True
    let ?u = "s\<lparr>h_buf := fill (?n + 1) (h_buf s @ j)\<rparr>"
    have "h_len s = ?n" using old by (auto simp: sdslen_def has_fields_def)
    moreover have "h_flags s < 256" "?n < 2 ^ field_bits (sds_type s)"
      using ok(2) f(1) old by (auto simp: sds_ok_def sdsalloc_def has_fields_def)
    ultimately have "sds_ok (sdssetalloc ?n ?u) \<and> sdslen (sdssetalloc ?n ?u) = ?n \<and> h_buf (sdssetalloc ?n ?u) = fill (?n + 1) (h_buf s @ j)"
      using old by (auto simp: sdssetalloc_def Let_def sds_ok_def sds_type_def sdslen_def sdsalloc_def has_fields_def)
    moreover have "take (?n + 1) (fill (?n + 1) (h_buf s @ j)) = take (?n + 1) (h_buf s)"
      by (rule take_fill) (use f(3) in simp_all)
    ultimately show ?thesis using True by auto
  next
    case False
    have t: "?t \<le> 1" "?t \<noteq> 0 \<or> ?n < 32" using False by (auto simp: sdsReqType_def split: if_splits)
    obtain u where u: "?m = Inr u" "sds_type u = ?t" "h_flags u < 256" "?t \<noteq> 0 \<longrightarrow> h_len u = ?n" "sdslen u = ?n"
      "length (h_buf u) = ?n + 1" "take (?n + 1) (h_buf u) = take (?n + 1) (h_buf s)"
      using copied_ok [OF ok(2), of ?t ?n j] n t(2) False by auto
    show ?thesis
    proof (cases "?t = 0")
      case True
      then have "sds_ok u" using u ok_facts by (auto simp: sds_ok_def sdsalloc_def sdslen_def)
      moreover have "sdssetalloc ?n u = u" using u(2) True by (simp add: sdssetalloc_def has_fields_def)
      ultimately show ?thesis using u by auto
    next
      case t1: False
      then have "has_fields (sds_type u)" "sds_type u = sdsReqType ?n" "h_len u \<le> ?n" using u(2,4) t(1) by (auto simp: has_fields_def)
      then show ?thesis using setalloc_ok [of u ?n] u nn by auto
    qed
  qed
  then obtain u where u: "?m = Inr u" "sds_ok (sdssetalloc ?n u)" "sdslen (sdssetalloc ?n u) = ?n"
    "take (?n + 1) (h_buf (sdssetalloc ?n u)) = take (?n + 1) (h_buf s)" by blast
  let ?u = "sdssetalloc ?n u"
  have "take (Suc ?n) (h_buf ?u) = sds_text ?u @ [h_buf ?u ! ?n]"
    using u(3) ok_facts(3) [OF u(2)] by (simp add: sds_text_def take_Suc_conv_app_nth)
  then have "sds_text ?u = sds_text s \<and> h_buf ?u ! ?n = NUL" using u(4) ok(1) by simp
  then show ?thesis using eq u by (auto simp: sds_wf_def done_with_def)
qed

text \<open>Bytes that a caller has put behind the text become part of it.\<close>

lemma IncrLen_ok:
  assumes "sds_ok s" and "sds_type s \<noteq> 0" and "sdslen s + k \<le> sdsalloc s"
  shows "\<exists>u. sdsIncrLen k s = Inr u \<and> sds_wf u \<and> sds_text u = take (sdslen s + k) (h_buf s)"
proof -
  have t: "has_fields (sds_type s)" "h_len s = sdslen s" "sdslen s + k < 2 ^ field_bits (sds_type s)"
    using assms by (auto simp: sds_ok_def has_fields_def sdslen_def sdsalloc_def)
  then have "sdsIncrLen k s = put (sdslen s + k) [NUL] (sdssetlen (sdslen s + k) s)"
    using assms(2) by (simp add: sdsIncrLen_def sdssetlen_def Let_def)
  moreover have "Suc (sdslen s + k) \<le> length (h_buf s)" using assms by (simp add: sds_ok_def)
  ultimately show ?thesis using append_stored [of s "sdslen s + k" "[]"] assms by (auto simp: put_def mem_put_def)
qed

section \<open>Any sequence of operations\<close>

datatype sds_op =
    Cat string
  | Cpy string
  | Growzero nat
  | MakeRoom nat
  | RemoveFree
  | Clear
  | Updatelen
  | Trim string
  | CutRange int int
  | Lower
  | Upper
  | Mapchars string string

definition run_op :: "string \<Rightarrow> sds_op \<Rightarrow> sdshdr \<Rightarrow> sds_result" where
  "run_op j p s = (case p of
     Cat t \<Rightarrow> sdscatlen_mem (Some j) t s
   | Cpy t \<Rightarrow> sdscpylen (Some j) t s
   | Growzero n \<Rightarrow> sdsgrowzero_mem (Some j) n s
   | MakeRoom n \<Rightarrow> sdsMakeRoomFor (Some j) n s
   | RemoveFree \<Rightarrow> sdsRemoveFreeSpace (Some j) s
   | Clear \<Rightarrow> done_with (sdsclear s)
   | Updatelen \<Rightarrow> done_with (sdsupdatelen_mem s)
   | Trim cset \<Rightarrow> done_with (sdstrim_mem cset s)
   | CutRange a b \<Rightarrow> done_with (sdsrange_mem a b s)
   | Lower \<Rightarrow> done_with (sdstolower_mem s)
   | Upper \<Rightarrow> done_with (sdstoupper_mem s)
   | Mapchars a b \<Rightarrow> done_with (sdsmapchars a b s))"

fun run_ops :: "(string \<times> sds_op) list \<Rightarrow> sdshdr \<Rightarrow> sds_result" where
  "run_ops [] s = Inr (Some s)"
| "run_ops ((j, p) # ps) s = and_some (run_op j p s) (run_ops ps)"

text \<open>The same operation on the text alone, and the length it asks for.\<close>

definition op_text :: "sds_op \<Rightarrow> sds \<Rightarrow> sds" where
  "op_text p x = (case p of
     Cat t \<Rightarrow> sdscatlen x t
   | Cpy t \<Rightarrow> t
   | Growzero n \<Rightarrow> sdsgrowzero x n
   | MakeRoom n \<Rightarrow> x
   | RemoveFree \<Rightarrow> x
   | Clear \<Rightarrow> []
   | Updatelen \<Rightarrow> sdsupdatelen x
   | Trim cset \<Rightarrow> sdstrim x cset
   | CutRange a b \<Rightarrow> sdsrange x a b
   | Lower \<Rightarrow> sdstolower x
   | Upper \<Rightarrow> map to_upper x
   | Mapchars a b \<Rightarrow> map (map_char a b) x)"

definition op_size :: "sds_op \<Rightarrow> nat" where
  "op_size p = (case p of Cat t \<Rightarrow> length t | Cpy t \<Rightarrow> length t | Growzero n \<Rightarrow> n | MakeRoom n \<Rightarrow> n | _ \<Rightarrow> 0)"

lemma sdstrim_length: "length (sdstrim x c) \<le> length x"
  using length_dropWhile_le [of "in_cset c" x] length_dropWhile_le [of "in_cset c" "rev (dropWhile (in_cset c) x)"]
  by (simp add: sdstrim_def)

lemma sdsrange_length: "length (sdsrange x a b) \<le> length x"
proof -
  have le: "length (take k (drop i x)) \<le> length x" for k i by simp
  show ?thesis unfolding sdsrange_def Let_def by (simp only: le list.size le0 order_refl split: if_split) simp
qed

lemma op_length: "length (op_text p x) \<le> length x + op_size p"
  by (cases p) (auto simp: op_text_def op_size_def sdscatlen_def sdsgrowzero_def sdsupdatelen_def cstr_def
      length_takeWhile_le sdstrim_length sdsrange_length sdstolower_def)

lemma run_op_refines:
  assumes "sds_wf s" and "length (sds_text s) + op_size p < 2 ^ 62"
  shows "\<exists>u. run_op j p s = Inr (Some u) \<and> sds_wf u \<and> sds_text u = op_text p (sds_text s)"
proof (cases p)
  case (MakeRoom n)
  then show ?thesis using MakeRoom_text [OF assms(1), of n j] assms(2) by (auto simp: run_op_def op_text_def op_size_def)
next
  case RemoveFree
  then show ?thesis using RemoveFreeSpace_refines [OF assms(1)] assms(2) by (simp add: run_op_def op_text_def)
next
  case Clear
  then show ?thesis using sdsclear_refines [OF assms(1)] by (auto simp: run_op_def op_text_def done_with_def)
next
  case Updatelen
  then show ?thesis using sdsupdatelen_refines [OF assms(1)] by (auto simp: run_op_def op_text_def done_with_def)
next
  case (Trim c)
  then show ?thesis using sdstrim_refines [OF assms(1), of c] by (auto simp: run_op_def op_text_def done_with_def)
next
  case (CutRange a b)
  then show ?thesis using sdsrange_refines [OF assms(1), of a b] by (auto simp: run_op_def op_text_def done_with_def)
next
  case Lower
  then show ?thesis using map_text_refines [OF assms(1), of to_lower]
    by (auto simp: run_op_def op_text_def done_with_def sdstolower_mem_def sdstolower_def)
next
  case Upper
  then show ?thesis using map_text_refines [OF assms(1), of to_upper]
    by (auto simp: run_op_def op_text_def done_with_def sdstoupper_mem_def)
next
  case (Mapchars a b)
  then show ?thesis using map_text_refines [OF assms(1), of "map_char a b"]
    by (auto simp: run_op_def op_text_def done_with_def sdsmapchars_def)
qed (use assms sdscatlen_refines [OF assms(1)] sdscpylen_refines [OF assms(1)] sdsgrowzero_refines [OF assms(1)]
   in \<open>simp_all add: run_op_def op_text_def op_size_def\<close>)

lemma run_ops_refines:
  "sds_wf s \<Longrightarrow> length (sds_text s) + (\<Sum>(j, p) \<leftarrow> ps. op_size p) < 2 ^ 62 \<Longrightarrow>
   \<exists>u. run_ops ps s = Inr (Some u) \<and> sds_wf u \<and> sds_text u = fold (\<lambda>(j, p). op_text p) ps (sds_text s)"
proof (induction ps arbitrary: s)
  case (Cons q ps)
  obtain j p where q: "q = (j, p)" by fastforce
  obtain u where u: "run_op j p s = Inr (Some u)" "sds_wf u" "sds_text u = op_text p (sds_text s)"
    using run_op_refines [OF Cons.prems(1), of p j] Cons.prems(2) q by auto
  have "length (sds_text u) + (\<Sum>(j, p) \<leftarrow> ps. op_size p) < 2 ^ 62"
    using Cons.prems(2) op_length [of p "sds_text s"] u(3) q by simp
  then show ?case using Cons.IH [OF u(2)] u q by (simp add: and_some_def)
qed simp

text \<open>C7: A string that is created and then changed by any sequence of operations holds, as long as the
  lengths asked for stay below \<open>2 ^ 62\<close> and memory is found, exactly the text the operations give as
  functions on texts, whatever the fresh memory held: no operation leaves the buffer, a change of the
  header type loses nothing, the stored length and capacity are right and the terminator is in place.\<close>

theorem sds_operations_refine:
  assumes "n \<le> length init" and "n + (\<Sum>(j, p) \<leftarrow> ps. op_size p) < 2 ^ 62"
  shows "\<exists>u. and_some (sdsnewlen (Some j) (InitBytes init) n) (run_ops ps) = Inr (Some u)
    \<and> sds_text u = fold (\<lambda>(j, p). op_text p) ps (take n init) \<and> length (sds_text u) = sdslen u
    \<and> sdslen u \<le> sdsalloc u \<and> sdsalloc u < length (h_buf u) \<and> h_buf u ! sdslen u = NUL"
proof -
  have "n < 2 ^ 63" using assms(2) by simp
  then obtain s where s: "sdsnewlen (Some j) (InitBytes init) n = Inr (Some s)" "sds_wf s" "sds_text s = take n init"
    using sdsnewlen_ok [OF assms(1)] by blast
  then obtain u where "run_ops ps s = Inr (Some u)" "sds_wf u" "sds_text u = fold (\<lambda>(j, p). op_text p) ps (take n init)"
    using run_ops_refines [OF s(2), of ps] assms by auto
  then show ?thesis using s(1) wf_text [of u] ok_facts [of u] by (auto simp: and_some_def sds_wf_def sds_ok_def)
qed

theorem sds_operations_refine_witness:
  "\<exists>u. and_some (sdsnewlen (Some ''zzz'') (InitBytes ''Hello'') 5)
      (run_ops [([], Cat '' World  ''), (''qqqq'', Trim '' ''), ([], CutRange (-5) (-1)), ([], Lower)]) = Inr (Some u)
    \<and> sds_text u = ''world''"
proof -
  have "fold (\<lambda>(j, p). op_text p) [([] :: string, Cat '' World  ''), (''qqqq'', Trim '' ''), ([], CutRange (-5) (-1)), ([], Lower)]
      (take 5 ''Hello'') = ''world''" by code_simp
  then show ?thesis
    using sds_operations_refine [of 5 "''Hello''" "[([], Cat '' World  ''), (''qqqq'', Trim '' ''), ([], CutRange (-5) (-1)), ([], Lower)]" "''zzz''"]
    by (auto simp: op_size_def)
qed

end
