(* ===== verification/Sds_Text.thy ===== *)
theory Sds_Text
  imports Sds_Refine Numbers
begin

text \<open>
  Putting text together at the end of a stored string: numbers, \<open>sdscatprintf\<close> with its growing buffer,
  \<open>sdscatfmt\<close> with its own directives, and joining. What \<open>printf\<close> makes of its format and arguments is
  the argument \<open>out\<close>.
\<close>

section \<open>Numbers\<close>

definition SDS_LLSTR_SIZE :: nat where
  "SDS_LLSTR_SIZE = 21"

text \<open>The digits, the last one first.\<close>

fun digits_rev :: "nat \<Rightarrow> string" where
  "digits_rev v = digit_char (v mod 10) # (if v div 10 = 0 then [] else digits_rev (v div 10))"

declare digits_rev.simps [simp del]

text \<open>The loop that reverses the characters between two positions.\<close>

function swap_ends :: "string \<Rightarrow> nat \<Rightarrow> nat \<Rightarrow> string" where
  "swap_ends b i k = (if i < k then swap_ends (b[i := b ! k, k := b ! i]) (Suc i) (k - 1) else b)"
  by pat_completeness auto
termination by (relation "measure (\<lambda>(b, i, k). k - i)") auto

declare swap_ends.simps [simp del]

text \<open>The buffer afterwards and the length.\<close>

definition number2str :: "string \<Rightarrow> string \<Rightarrow> stop + string \<times> nat" where
  "number2str rv buf =
     (if length rv + 1 > length buf then Inl OutOfBounds
      else Inr (swap_ends (mem_put buf 0 (rv @ [NUL])) 0 (length rv - 1), length rv))"

text \<open>Negating the smallest value overflows; it is taken to wrap around.\<close>

definition sdsll2str :: "string \<Rightarrow> int \<Rightarrow> stop + string \<times> nat" where
  "sdsll2str buf v = number2str (digits_rev (nat ((if v < 0 then - v else v) mod 2 ^ 64)) @ (if v < 0 then ''-'' else [])) buf"

definition sdsull2str :: "string \<Rightarrow> nat \<Rightarrow> stop + string \<times> nat" where
  "sdsull2str buf v = number2str (digits_rev v) buf"

definition sdsfromlonglong :: "string option \<Rightarrow> string \<Rightarrow> int \<Rightarrow> sds_result" where
  "sdsfromlonglong a stack v =
     and_then (sdsll2str (fill SDS_LLSTR_SIZE stack) v) (\<lambda>(buf, len). sdsnewlen a (InitBytes buf) len)"

text \<open>A signed number as text.\<close>

definition int_text :: "int \<Rightarrow> string" where
  "int_text v = (if v < 0 then ''-'' else []) @ dec (nat \<bar>v\<bar>)"

lemma digits_rev_dec: "digits_rev v = rev (dec v)"
proof (induction v rule: digits_rev.induct)
  case (1 v)
  then show ?case by (subst digits_rev.simps, subst dec.simps) auto
qed

lemma swap_ends_nth:
  "k < length b \<Longrightarrow> length (swap_ends b i k) = length b \<and>
   (\<forall>m < length b. swap_ends b i k ! m = (if i \<le> m \<and> m \<le> k then b ! (i + k - m) else b ! m))"
proof (induction b i k rule: swap_ends.induct)
  case (1 b i k)
  show ?case
  proof (cases "i < k")
    case True
    let ?c = "b[i := b ! k, k := b ! i]"
    have step: "swap_ends b i k = swap_ends ?c (Suc i) (k - 1)" using True by (subst swap_ends.simps) simp
    have "k - 1 < length ?c" using 1(2) by simp
    then have "length (swap_ends ?c (Suc i) (k - 1)) = length ?c \<and> (\<forall>m < length ?c. swap_ends ?c (Suc i) (k - 1) ! m =
        (if Suc i \<le> m \<and> m \<le> k - 1 then ?c ! (Suc i + (k - 1) - m) else ?c ! m))" by (rule 1(1) [OF True])
    then show ?thesis unfolding step using True 1(2) by (auto simp: nth_list_update)
  next
    case False
    then have "swap_ends b i k = b" by (subst swap_ends.simps) simp
    moreover have "i + k - m = m" if "i \<le> m" "m \<le> k" for m using False that by simp
    ultimately show ?thesis using False by auto
  qed
qed

lemma number2str_ok:
  assumes "length rv < length buf" and "rv \<noteq> []"
  shows "\<exists>b. number2str rv buf = Inr (b, length rv) \<and> take (length rv) b = rev rv \<and> length b = length buf"
proof -
  let ?a = "mem_put buf 0 (rv @ [NUL])"
  let ?b = "swap_ends ?a 0 (length rv - 1)"
  have a: "length ?a = length buf" "\<forall>m < length rv. ?a ! m = rv ! m"
    using assms(1) by (simp_all add: mem_put_def nth_append)
  have b: "length ?b = length ?a" "\<forall>m < length ?a. ?b ! m = (if m \<le> length rv - 1 then ?a ! (length rv - 1 - m) else ?a ! m)"
    using swap_ends_nth [of "length rv - 1" ?a 0] assms a(1) by auto
  have "take (length rv) ?b = rev rv"
  proof (rule nth_equalityI)
    show "length (take (length rv) ?b) = length (rev rv)" using b(1) a(1) assms(1) by simp
    fix m assume "m < length (take (length rv) ?b)"
    then have "m < length rv" by simp
    moreover from this have "m \<le> length rv - 1" by simp
    ultimately show "take (length rv) ?b ! m = rev rv ! m"
      using a b assms by (simp add: rev_nth)
  qed
  then show ?thesis using assms(1) a(1) b(1) by (simp add: number2str_def)
qed

lemma sdsll2str_ok:
  assumes "- (2 ^ 63) \<le> v" and "v < 2 ^ 63" and "length buf = SDS_LLSTR_SIZE"
  shows "\<exists>b. sdsll2str buf v = Inr (b, length (int_text v)) \<and> take (length (int_text v)) b = int_text v
    \<and> length b = SDS_LLSTR_SIZE"
proof -
  let ?n = "nat ((if v < 0 then - v else v) mod 2 ^ 64)"
  have n: "?n = nat \<bar>v\<bar>" using assms(1,2) by simp
  have "nat \<bar>v\<bar> < 10 ^ 19" using assms(1,2) by simp
  then have l: "length (dec (nat \<bar>v\<bar>)) \<le> 19" by (rule dec_bound) simp
  let ?r = "digits_rev (nat \<bar>v\<bar>) @ (if v < 0 then ''-'' else [])"
  have r: "rev ?r = int_text v" "length ?r = length (int_text v)" "?r \<noteq> []" by (simp_all add: digits_rev_dec int_text_def)
  have "length ?r < length buf" using l assms(3) by (cases "v < 0") (simp_all add: digits_rev_dec SDS_LLSTR_SIZE_def)
  then show ?thesis using number2str_ok [of ?r buf] r assms(3) by (simp only: sdsll2str_def n) auto
qed

lemma sdsull2str_ok:
  assumes "v < 2 ^ 64" and "length buf = SDS_LLSTR_SIZE"
  shows "\<exists>b. sdsull2str buf v = Inr (b, length (dec v)) \<and> take (length (dec v)) b = dec v \<and> length b = SDS_LLSTR_SIZE"
proof -
  have "v < 10 ^ 20" using assms(1) by simp
  then have "length (dec v) \<le> 20" by (rule dec_bound) simp
  then have "length (digits_rev v) < length buf" "digits_rev v \<noteq> []"
    using assms(2) by (simp_all add: digits_rev_dec SDS_LLSTR_SIZE_def)
  then show ?thesis using number2str_ok [of "digits_rev v" buf] assms(2) by (simp add: sdsull2str_def digits_rev_dec)
qed

lemma sdsfromlonglong_ok:
  assumes "- (2 ^ 63) \<le> v" and "v < 2 ^ 63"
  shows "\<exists>s. sdsfromlonglong (Some j) stack v = Inr (Some s) \<and> sds_wf s \<and> sds_text s = int_text v"
proof -
  obtain b where b: "sdsll2str (fill SDS_LLSTR_SIZE stack) v = Inr (b, length (int_text v))"
    "take (length (int_text v)) b = int_text v" "length b = SDS_LLSTR_SIZE"
    using sdsll2str_ok [OF assms, of "fill SDS_LLSTR_SIZE stack"] by auto
  have l: "length (int_text v) \<le> length b" using b(2) by (metis length_take min.cobounded1)
  then have "length (int_text v) < 2 ^ 63" using b(3) by (simp add: SDS_LLSTR_SIZE_def)
  then show ?thesis using sdsnewlen_ok [OF l, of j] b(1,2) by (auto simp: sdsfromlonglong_def)
qed

section \<open>Formatted printing\<close>

text \<open>\<open>malloc\<close> by the size asked for. A round writes a terminator to the last place but one, lets
  \<open>vsnprintf\<close> write what fits, and looks at that place again.\<close>

definition vsnprintf :: "string \<Rightarrow> string \<Rightarrow> string" where
  "vsnprintf buf out = (if buf = [] then [] else mem_put buf 0 (take (length buf - 1) out @ [NUL]))"

partial_function (option) vprintf_loop ::
  "(nat \<Rightarrow> string option) \<Rightarrow> string \<Rightarrow> string \<Rightarrow> (stop + string option) option" where
  "vprintf_loop malloc out buf =
     (let buflen = length buf in
      if buflen < 2 then Some (Inl OutOfBounds)
      else
        (let buf = vsnprintf (buf[buflen - 2 := NUL]) out in
         if buf ! (buflen - 2) \<noteq> NUL then
           (let buflen = size_t (buflen * 2) in
            case malloc buflen of None \<Rightarrow> Some (Inr None)
            | Some j \<Rightarrow> vprintf_loop malloc out (fill buflen j))
         else Some (Inr (Some buf))))"

definition sdscatvprintf ::
  "(nat \<Rightarrow> string option) \<Rightarrow> string option \<Rightarrow> string \<Rightarrow> string \<Rightarrow> string \<Rightarrow> sdshdr \<Rightarrow> sds_result option" where
  "sdscatvprintf malloc a stack fmt out s =
     (let buflen = size_t (length fmt * 2);
          start = (if buflen > 1024 then map_option (fill buflen) (malloc buflen) else Some (fill 1024 stack)) in
      case start of None \<Rightarrow> Some (Inr None)
      | Some buf \<Rightarrow>
          (case vprintf_loop malloc out buf of None \<Rightarrow> None
           | Some (Inl e) \<Rightarrow> Some (Inl e)
           | Some (Inr None) \<Rightarrow> Some (Inr None)
           | Some (Inr (Some buf)) \<Rightarrow> Some (sdscat a buf s)))"

text \<open>One round: done when the text fits with two places to spare, else a buffer of twice the size.\<close>

lemma vsnprintf_look:
  assumes "2 \<le> length buf" and "is_cstr out"
  shows "vsnprintf (buf[length buf - 2 := NUL]) out ! (length buf - 2) \<noteq> NUL \<longleftrightarrow> length buf - 2 < length out"
proof -
  let ?b = "buf[length buf - 2 := NUL]"
  let ?w = "take (length buf - 1) out @ [NUL]"
  have ne: "buf \<noteq> []" using assms(1) by auto
  have look: "mem_put ?b 0 ?w ! (length buf - 2) = (if length buf - 2 < length ?w then ?w ! (length buf - 2) else NUL)"
    using assms(1) by (subst nth_mem_put) auto
  have "out ! (length buf - 2) \<noteq> NUL" if "length buf - 2 < length out"
    using assms(2) nth_mem [OF that] unfolding is_cstr_def by metis
  then show ?thesis using ne look assms(1) by (auto simp: vsnprintf_def nth_append min_def)
qed

lemma vsnprintf_fits:
  assumes "length out \<le> length buf - 2" and "2 \<le> length buf" and "is_cstr out"
  shows "cstr (vsnprintf buf out) = out"
proof -
  have "buf \<noteq> []" "length out \<le> length buf - 1" using assms(1,2) by auto
  then show ?thesis using assms(3) by (simp add: vsnprintf_def mem_put_def cstr_simps)
qed

text \<open>The buffer doubles until the text fits.\<close>

lemma vprintf_loop_ends:
  assumes "is_cstr out" and "length out + 2 < 2 ^ 62" and mem: "\<And>n. n < 2 ^ 63 \<Longrightarrow> malloc n \<noteq> None"
  shows "2 \<le> length buf \<Longrightarrow> \<exists>b. vprintf_loop malloc out buf = Some (Inr (Some b)) \<and> cstr b = out"
proof (induction "length out + 2 - length buf" arbitrary: buf rule: less_induct)
  case less
  note step = vprintf_loop.simps [of malloc out buf]
  show ?case
  proof (cases "length buf - 2 < length out")
    case True
    let ?n = "length buf * 2"
    have n: "?n < 2 ^ 63" "size_t ?n = ?n" using assms(2) True by (auto simp: SIZE_MOD_def)
    obtain j where j: "malloc ?n = Some j" using mem [OF n(1)] by blast
    have "\<exists>b. vprintf_loop malloc out (fill ?n j) = Some (Inr (Some b)) \<and> cstr b = out"
      by (rule less.hyps) (use less.prems True assms(2) in auto)
    then show ?thesis using True j n(2) less.prems vsnprintf_look [OF less.prems assms(1)] by (subst step) simp
  next
    case False
    then have "cstr (vsnprintf (buf[length buf - 2 := NUL]) out) = out"
      using less.prems assms(1) by (intro vsnprintf_fits) simp_all
    then show ?thesis using False less.prems vsnprintf_look [OF less.prems assms(1)] by (subst step) simp
  qed
qed

lemma sdscatvprintf_ok:
  assumes "sds_wf s" and "is_cstr out" and "length (sds_text s) + length out + 2 < 2 ^ 62" and "length fmt < 2 ^ 62"
    and mem: "\<forall>n < 2 ^ 63. malloc n \<noteq> None"
  shows "\<exists>u. sdscatvprintf malloc (Some j) stack fmt out s = Some (Inr (Some u)) \<and> sds_wf u \<and> sds_text u = sds_text s @ out"
proof -
  let ?n = "length fmt * 2"
  have n: "size_t ?n = ?n" "?n < 2 ^ 63" using assms(4) by (simp_all add: SIZE_MOD_def)
  obtain m where m: "malloc ?n = Some m" using mem n(2) by blast
  let ?buf = "if ?n > 1024 then fill ?n m else fill 1024 stack"
  have two: "2 \<le> length ?buf" by auto
  obtain b where b: "vprintf_loop malloc out ?buf = Some (Inr (Some b))" "cstr b = out"
    using vprintf_loop_ends [OF assms(2) _ _ two, of malloc] assms(3) mem by auto
  obtain u where "sdscatlen_mem (Some j) out s = Inr (Some u)" "sds_wf u" "sds_text u = sds_text s @ out"
    using sdscatlen_refines [OF assms(1), of out j] assms(3) by (auto simp: sdscatlen_def)
  then show ?thesis using b m by (auto simp: sdscatvprintf_def sdscat_def Let_def n(1) split: if_splits)
qed

text \<open>C8: \<open>sdscatprintf\<close> always returns, however long the printed text is and whatever the buffers held
  before: the loop that prints again into a buffer of twice the size ends, and the string has the
  whole printed text behind its own, not the part that fitted into the first buffer.\<close>

theorem sdscatvprintf_returns:
  assumes "sds_wf s" and "is_cstr out" and "length (sds_text s) + length out + 2 < 2 ^ 62" and "length fmt < 2 ^ 62"
    and mem: "\<forall>n < 2 ^ 63. malloc n \<noteq> None"
  shows "\<exists>u. sdscatvprintf malloc (Some j) stack fmt out s = Some (Inr (Some u)) \<and> sds_wf u \<and> sds_text u = sds_text s @ out"
  by (rule sdscatvprintf_ok [OF assms])

theorem sdscatvprintf_returns_witness:
  "\<exists>u. sdscatvprintf (\<lambda>n. Some []) (Some []) [] ''%s'' (replicate 3000 CHR ''a'') \<lparr>h_flags = 1, h_len = 0, h_alloc = 0, h_buf = [NUL]\<rparr>
      = Some (Inr (Some u)) \<and> sds_wf u
    \<and> sds_text u = sds_text \<lparr>h_flags = 1, h_len = 0, h_alloc = 0, h_buf = [NUL]\<rparr> @ replicate 3000 CHR ''a''"
proof (rule sdscatvprintf_returns)
  show "sds_wf \<lparr>h_flags = 1, h_len = 0, h_alloc = 0, h_buf = [NUL]\<rparr>" by code_simp
qed (simp_all add: is_cstr_def sds_text_def)

section \<open>Formatting without \<open>printf\<close>\<close>

text \<open>The arguments behind the format. \<open>%s\<close> reads a text up to its terminator, \<open>%S\<close> all of a stored string.\<close>

datatype fmt_arg = TextArg string | IntArg int | LongArg int | UIntArg nat | ULongArg nat

text \<open>The results of \<open>sdsMakeRoomFor\<close> are used without a check.\<close>

definition make_room :: "string option \<Rightarrow> nat \<Rightarrow> sdshdr \<Rightarrow> stop + sdshdr" where
  "make_room a n s = and_then (sdsMakeRoomFor a n s) (\<lambda>r. case r of None \<Rightarrow> Inl NullDeref | Some s \<Rightarrow> Inr s)"

definition cat_piece :: "string option \<Rightarrow> string \<Rightarrow> nat \<Rightarrow> sdshdr \<Rightarrow> stop + nat \<times> sdshdr" where
  "cat_piece a t i s =
     and_then (if sdsavail s < length t then make_room a (length t) s else Inr s) (\<lambda>s.
     and_then (put i t s) (\<lambda>s. Inr (i + length t, sdsinclen (length t) s)))"

definition cat_char :: "char \<Rightarrow> nat \<Rightarrow> sdshdr \<Rightarrow> stop + nat \<times> sdshdr" where
  "cat_char c i s = and_then (put i [c] s) (\<lambda>s. Inr (i + 1, sdsinclen 1 s))"

text \<open>One directive: the character behind the percent sign, with the arguments that are left.\<close>

definition cat_directive ::
  "string option \<Rightarrow> string \<Rightarrow> char \<Rightarrow> fmt_arg list \<Rightarrow> nat \<Rightarrow> sdshdr \<Rightarrow> stop + fmt_arg list \<times> nat \<times> sdshdr" where
  "cat_directive a stack c args i s =
     (let num = (\<lambda>m args. and_then m (\<lambda>(buf, l). and_then (cat_piece a (take l buf) i s) (\<lambda>r. Inr (args, r)))) in
      if c = CHR ''s'' \<or> c = CHR ''S'' then
        (case args of TextArg t # args \<Rightarrow>
             and_then (cat_piece a (if c = CHR ''s'' then cstr t else t) i s) (\<lambda>r. Inr (args, r))
         | _ \<Rightarrow> Inl OutOfBounds)
      else if c = CHR ''i'' then
        (case args of IntArg v # args \<Rightarrow> num (sdsll2str (fill SDS_LLSTR_SIZE stack) v) args | _ \<Rightarrow> Inl OutOfBounds)
      else if c = CHR ''I'' then
        (case args of LongArg v # args \<Rightarrow> num (sdsll2str (fill SDS_LLSTR_SIZE stack) v) args | _ \<Rightarrow> Inl OutOfBounds)
      else if c = CHR ''u'' then
        (case args of UIntArg v # args \<Rightarrow> num (sdsull2str (fill SDS_LLSTR_SIZE stack) v) args | _ \<Rightarrow> Inl OutOfBounds)
      else if c = CHR ''U'' then
        (case args of ULongArg v # args \<Rightarrow> num (sdsull2str (fill SDS_LLSTR_SIZE stack) v) args | _ \<Rightarrow> Inl OutOfBounds)
      else and_then (cat_char c i s) (\<lambda>r. Inr (args, r)))"

text \<open>The loop over the format. A percent sign at the end stores the terminator, and the loop goes on
  behind the format.\<close>

fun catfmt_loop :: "string option \<Rightarrow> string \<Rightarrow> string \<Rightarrow> fmt_arg list \<Rightarrow> nat \<Rightarrow> sdshdr \<Rightarrow> stop + nat \<times> sdshdr" where
  "catfmt_loop a stack [] args i s = Inr (i, s)"
| "catfmt_loop a stack (c # f) args i s =
     and_then (if sdsavail s = 0 then make_room a 1 s else Inr s) (\<lambda>s.
       if c = CHR ''%'' then
         (case f of [] \<Rightarrow> Inl OutOfBounds
          | d # f \<Rightarrow> and_then (cat_directive a stack d args i s) (\<lambda>(args, i, s). catfmt_loop a stack f args i s))
       else and_then (cat_char c i s) (\<lambda>(i, s). catfmt_loop a stack f args i s))"

definition sdscatfmt :: "string option \<Rightarrow> string \<Rightarrow> string \<Rightarrow> fmt_arg list \<Rightarrow> sdshdr \<Rightarrow> stop + sdshdr" where
  "sdscatfmt a stack fmt args s =
     (let initlen = sdslen s; f = cstr fmt in
      and_then (make_room a (size_t (initlen + length f * 2)) s) (\<lambda>s.
      and_then (catfmt_loop a stack f args initlen s) (\<lambda>(i, s). put i [NUL] s)))"

text \<open>What the format stands for, when every directive has its argument, in the range of its type.\<close>

definition directive_text :: "char \<Rightarrow> fmt_arg list \<Rightarrow> (string \<times> fmt_arg list) option" where
  "directive_text c args =
     (if c = CHR ''s'' then (case args of TextArg t # r \<Rightarrow> Some (cstr t, r) | _ \<Rightarrow> None)
      else if c = CHR ''S'' then (case args of TextArg t # r \<Rightarrow> Some (t, r) | _ \<Rightarrow> None)
      else if c = CHR ''i'' then (case args of IntArg v # r \<Rightarrow> if - (2 ^ 31) \<le> v \<and> v < 2 ^ 31 then Some (int_text v, r) else None | _ \<Rightarrow> None)
      else if c = CHR ''I'' then (case args of LongArg v # r \<Rightarrow> if - (2 ^ 63) \<le> v \<and> v < 2 ^ 63 then Some (int_text v, r) else None | _ \<Rightarrow> None)
      else if c = CHR ''u'' then (case args of UIntArg v # r \<Rightarrow> if v < 2 ^ 32 then Some (dec v, r) else None | _ \<Rightarrow> None)
      else if c = CHR ''U'' then (case args of ULongArg v # r \<Rightarrow> if v < 2 ^ 64 then Some (dec v, r) else None | _ \<Rightarrow> None)
      else Some ([c], args))"

fun fmt_text :: "string \<Rightarrow> fmt_arg list \<Rightarrow> string option" where
  "fmt_text [] args = Some []"
| "fmt_text (c # f) args =
     (if c = CHR ''%'' then
        (case f of [] \<Rightarrow> None
         | d # f \<Rightarrow> (case directive_text d args of None \<Rightarrow> None | Some (t, args) \<Rightarrow> map_option ((@) t) (fmt_text f args)))
      else map_option ((#) c) (fmt_text f args))"

lemma inclen_ok:
  assumes "sds_ok s" and "sds_type s \<noteq> 0" and "sdslen s + n \<le> sdsalloc s"
  shows "sds_ok (sdsinclen n s)" "sdslen (sdsinclen n s) = sdslen s + n" "h_buf (sdsinclen n s) = h_buf s"
    "sds_type (sdsinclen n s) = sds_type s"
proof -
  have "sdsinclen n s = sdssetlen (sdslen s + n) s"
    using assms by (auto simp: sdsinclen_def sdssetlen_def sdslen_def sds_ok_def has_fields_def Let_def)
  then show "sds_ok (sdsinclen n s)" "sdslen (sdsinclen n s) = sdslen s + n" "h_buf (sdsinclen n s) = h_buf s"
    "sds_type (sdsinclen n s) = sds_type s" using setlen_ok [OF assms(1,3)] by auto
qed

lemma make_room_ok:
  assumes "sds_ok s" and "length (sds_text s) + n < 2 ^ 62" and "0 < n"
  shows "\<exists>t. (if sdsavail s < n then make_room (Some j) n s else Inr s) = Inr t \<and> sds_ok t \<and> sds_text t = sds_text s
    \<and> sdslen t = sdslen s \<and> sdslen t + n \<le> sdsalloc t \<and> sds_type t \<noteq> 0"
proof -
  obtain t where t: "sdsMakeRoomFor (Some j) n s = Inr (Some t)" "sds_ok t" "sdslen t = sdslen s"
    "take (sdslen s + 1) (h_buf t) = take (sdslen s + 1) (h_buf s)" "sdslen s + n \<le> sdsalloc t"
    using MakeRoom_ok [OF assms(1)] assms(2) text_length [OF assms(1)] by auto
  have "sds_text t = sds_text s"
    using t(3) arg_cong [OF t(4), of "take (sdslen s)"] by (simp add: sds_text_def take_take min_def)
  moreover have "sds_type t \<noteq> 0" using ok_facts(5) [OF t(2)] t(3,5) assms(3) by auto
  moreover have "t = s" if "\<not> sdsavail s < n" using t(1) that by (simp add: sdsMakeRoomFor_def)
  ultimately show ?thesis using t by (auto simp: make_room_def)
qed

lemma put_inclen:
  assumes "sds_ok s" and "sds_type s \<noteq> 0" and "sdslen s + length t \<le> sdsalloc s"
  shows "\<exists>u. and_then (put (sdslen s) t s) (\<lambda>v. Inr (sdslen s + length t, sdsinclen (length t) v)) = Inr (sdslen u, u)
    \<and> sds_ok u \<and> sds_text u = sds_text s @ t"
proof -
  let ?b = "mem_put (h_buf s) (sdslen s) t"
  let ?s = "s\<lparr>h_buf := ?b\<rparr>"
  have room: "sdslen s + length t < length (h_buf s)" using assms by (simp add: sds_ok_def)
  then have b: "length ?b = length (h_buf s)" "take (sdslen s + length t) ?b = sds_text s @ t"
    by (simp_all add: mem_put_length take_mem_put sds_text_def)
  note u = inclen_ok [of ?s "length t", unfolded buf_ok, OF _ assms(2,3)]
  have "sds_ok ?s" using assms(1) b(1) by (simp add: buf_ok)
  then show ?thesis using room b u by (intro exI [of _ "sdsinclen (length t) ?s"]) (simp add: put_def sds_text_def)
qed

lemma cat_piece_ok:
  assumes "sds_ok s" and "sds_type s \<noteq> 0" and "length (sds_text s) + length t < 2 ^ 62"
  shows "\<exists>u. cat_piece (Some j) t (sdslen s) s = Inr (sdslen u, u) \<and> sds_ok u \<and> sds_text u = sds_text s @ t"
proof (cases "t = []")
  case True
  have "sdslen s + length t \<le> sdsalloc s" using True ok_facts(1) [OF assms(1)] by simp
  then show ?thesis using put_inclen [OF assms(1,2), of t] True by (simp add: cat_piece_def)
next
  case False
  then obtain r where r: "(if sdsavail s < length t then make_room (Some j) (length t) s else Inr s) = Inr r" "sds_ok r"
    "sds_text r = sds_text s" "sdslen r = sdslen s" "sdslen r + length t \<le> sdsalloc r" "sds_type r \<noteq> 0"
    using make_room_ok [OF assms(1), of "length t" j] assms(3) by auto
  then show ?thesis using put_inclen [OF r(2,6,5)] by (simp add: cat_piece_def)
qed

lemma cat_char_ok:
  assumes "sds_ok s" and "sds_type s \<noteq> 0" and "sdslen s + 1 \<le> sdsalloc s"
  shows "\<exists>u. cat_char c (sdslen s) s = Inr (sdslen u, u) \<and> sds_ok u \<and> sds_text u = sds_text s @ [c]"
  using put_inclen [OF assms(1,2), of "[c]"] assms(3) by (simp add: cat_char_def)

lemma cat_number_ok:
  assumes "sds_ok s" and "sds_type s \<noteq> 0" and "length (sds_text s) + length t < 2 ^ 62"
    and "\<exists>b. m = Inr (b, length t) \<and> take (length t) b = t \<and> length b = SDS_LLSTR_SIZE"
  shows "\<exists>u. and_then m (\<lambda>(buf, l). and_then (cat_piece (Some j) (take l buf) (sdslen s) s) (\<lambda>r. Inr (args, r))) = Inr (args, sdslen u, u)
     \<and> sds_ok u \<and> sds_text u = sds_text s @ t"
  using cat_piece_ok [OF assms(1-3), of j] assms(4) by auto

lemma cat_directive_ok:
  assumes "sds_ok s" and "sds_type s \<noteq> 0" and "sdslen s + 1 \<le> sdsalloc s"
    and "directive_text c args = Some (t, args')" and "length (sds_text s) + length t < 2 ^ 62"
  shows "\<exists>u. cat_directive (Some j) stack c args (sdslen s) s = Inr (args', sdslen u, u) \<and> sds_ok u
    \<and> sds_text u = sds_text s @ t"
proof -
  note piece = cat_piece_ok [OF assms(1,2,5), of j]
  note num = cat_number_ok [OF assms(1,2,5), of _ j args']
  have buf: "length (fill SDS_LLSTR_SIZE stack) = SDS_LLSTR_SIZE" by simp
  consider (str) "c = CHR ''s'' \<or> c = CHR ''S''" | (int) v where "c = CHR ''i''" "args = IntArg v # args'" "t = int_text v" "- (2 ^ 31) \<le> v" "v < 2 ^ 31"
    | (long) v where "c = CHR ''I''" "args = LongArg v # args'" "t = int_text v" "- (2 ^ 63) \<le> v" "v < 2 ^ 63"
    | (uint) v where "c = CHR ''u''" "args = UIntArg v # args'" "t = dec v" "v < 2 ^ 32"
    | (ulong) v where "c = CHR ''U''" "args = ULongArg v # args'" "t = dec v" "v < 2 ^ 64"
    | (other) "c \<notin> set ''sSiIuU''" "t = [c]" "args' = args"
    using assms(4) by (auto simp: directive_text_def split: if_splits list.splits fmt_arg.splits)
  then show ?thesis
  proof cases
    case str
    then obtain x where "args = TextArg x # args'" "t = (if c = CHR ''s'' then cstr x else x)"
      using assms(4) by (auto simp: directive_text_def split: if_splits list.splits fmt_arg.splits)
    then show ?thesis using piece str by (auto simp: cat_directive_def Let_def)
  next
    case (int v)
    have "\<exists>b. sdsll2str (fill SDS_LLSTR_SIZE stack) v = Inr (b, length t) \<and> take (length t) b = t \<and> length b = SDS_LLSTR_SIZE"
      unfolding int(3) by (rule sdsll2str_ok) (use int(4,5) in simp_all)
    then show ?thesis using num int by (simp add: cat_directive_def Let_def)
  next
    case (long v)
    then show ?thesis using num sdsll2str_ok [OF long(4,5) buf] by (simp add: cat_directive_def Let_def)
  next
    case (uint v)
    have "\<exists>b. sdsull2str (fill SDS_LLSTR_SIZE stack) v = Inr (b, length t) \<and> take (length t) b = t \<and> length b = SDS_LLSTR_SIZE"
      unfolding uint(3) by (rule sdsull2str_ok) (use uint(4) in simp_all)
    then show ?thesis using num uint by (simp add: cat_directive_def Let_def)
  next
    case (ulong v)
    then show ?thesis using num sdsull2str_ok [OF ulong(4) buf] by (simp add: cat_directive_def Let_def)
  next
    case other
    then show ?thesis using cat_char_ok [OF assms(1-3), of c] by (auto simp: cat_directive_def Let_def)
  qed
qed

lemma catfmt_loop_ok:
  "fmt_text f args = Some t \<Longrightarrow> sds_ok s \<Longrightarrow> length (sds_text s) + length t + 1 < 2 ^ 62 \<Longrightarrow>
   \<exists>u. catfmt_loop (Some j) stack f args (sdslen s) s = Inr (sdslen u, u) \<and> sds_ok u \<and> sds_text u = sds_text s @ t"
proof (induction f args arbitrary: s t rule: fmt_text.induct)
  case (2 c f args)
  obtain r where r: "(if sdsavail s = 0 then make_room (Some j) 1 s else Inr s) = Inr r" "sds_ok r" "sds_text r = sds_text s"
    "sdslen r = sdslen s" "sdslen r + 1 \<le> sdsalloc r" "sds_type r \<noteq> 0"
    using make_room_ok [OF 2(4), of 1 j] 2(5) by auto
  show ?case
  proof (cases "c = CHR ''%''")
    case True
    obtain d g x args' y where g: "f = d # g" "directive_text d args = Some (x, args')" "fmt_text g args' = Some y" "t = x @ y"
      using 2(3) True by (auto split: list.splits option.splits)
    obtain v where v: "cat_directive (Some j) stack d args (sdslen r) r = Inr (args', sdslen v, v)" "sds_ok v" "sds_text v = sds_text r @ x"
      using cat_directive_ok [OF r(2,6,5) g(2)] 2(5) r(3) g(4) by auto
    have "\<exists>u. catfmt_loop (Some j) stack g args' (sdslen v) v = Inr (sdslen u, u) \<and> sds_ok u \<and> sds_text u = sds_text v @ y"
      by (rule 2(1) [OF True g(1) g(2) refl g(3) v(2)]) (use 2(5) g(4) v(3) r(3) in simp)
    then show ?thesis using r v g True by auto
  next
    case False
    obtain y where y: "fmt_text f args = Some y" "t = c # y" using 2(3) False by auto
    obtain v where v: "cat_char c (sdslen r) r = Inr (sdslen v, v)" "sds_ok v" "sds_text v = sds_text r @ [c]"
      using cat_char_ok [OF r(2,6,5)] by blast
    have "\<exists>u. catfmt_loop (Some j) stack f args (sdslen v) v = Inr (sdslen u, u) \<and> sds_ok u \<and> sds_text u = sds_text v @ y"
      by (rule 2(2) [OF False y(1) v(2)]) (use 2(5) y(2) v(3) r(3) in simp)
    then show ?thesis using r v y False by auto
  qed
qed simp

lemma sdscatfmt_ok:
  assumes "sds_wf s" and "is_cstr fmt" and "fmt_text fmt args = Some t"
    and "2 * length (sds_text s) + 2 * length fmt < 2 ^ 62" and "length (sds_text s) + length t + 1 < 2 ^ 62"
  shows "\<exists>u. sdscatfmt (Some j) stack fmt args s = Inr u \<and> sds_wf u \<and> sds_text u = sds_text s @ t"
proof -
  have len: "sdslen s = length (sds_text s)" using wf_text(3) [OF assms(1)] by simp
  let ?n = "sdslen s + length fmt * 2"
  have n: "size_t ?n = ?n" "length (sds_text s) + ?n < 2 ^ 62" using assms(4) len by (simp_all add: SIZE_MOD_def)
  obtain r where r: "sdsMakeRoomFor (Some j) ?n s = Inr (Some r)" "sds_wf r" "sds_text r = sds_text s"
    using MakeRoom_text [OF assms(1) n(2)] by blast
  have rl: "sdslen r = sdslen s" using wf_text(3) [OF r(2)] r(3) len by simp
  obtain u where u: "catfmt_loop (Some j) stack fmt args (sdslen r) r = Inr (sdslen u, u)" "sds_ok u" "sds_text u = sds_text r @ t"
    using catfmt_loop_ok [OF assms(3) wf_text(2) [OF r(2)]] assms(5) r(3) by auto
  have eq: "sdscatfmt (Some j) stack fmt args s = put (sdslen u) [NUL] u"
    using r(1) u(1) assms(2) rl by (simp add: sdscatfmt_def Let_def cstr_id n(1) make_room_def)
  let ?b = "mem_put (h_buf u) (sdslen u) [NUL]"
  have room: "sdslen u < length (h_buf u)" by (rule ok_facts(3) [OF u(2)])
  then have b: "length ?b = length (h_buf u)" "take (sdslen u) ?b = sds_text u" "?b ! sdslen u = NUL"
    by (simp_all add: mem_put_length mem_put_def sds_text_def nth_append)
  have "sds_wf (u\<lparr>h_buf := ?b\<rparr>)" "sds_text (u\<lparr>h_buf := ?b\<rparr>) = sds_text u"
    using u(2) b by (simp_all add: sds_wf_def buf_ok sds_text_def)
  then show ?thesis using eq room u(3) r(3) by (simp add: put_def)
qed



text \<open>A percent sign that ends the format takes the reading behind the format.\<close>

lemma catfmt_trailing_percent:
  "sdsavail s \<noteq> 0 \<Longrightarrow> catfmt_loop a stack ''%'' args i s = Inl OutOfBounds"
  by simp

section \<open>Joining\<close>

text \<open>A result that is not checked before it is used again.\<close>

fun append_all :: "(string \<Rightarrow> 'b \<Rightarrow> stop + 'b option) \<Rightarrow> string list \<Rightarrow> 'b option \<Rightarrow> stop + 'b option" where
  "append_all f [] r = Inr r"
| "append_all f (t # ts) r = (case r of None \<Rightarrow> Inl NullDeref | Some b \<Rightarrow> and_then (f t b) (append_all f ts))"

text \<open>What the loops of \<open>sdsjoin\<close> and \<open>sdsjoinsds\<close> append, one after the other.\<close>

fun join_pieces :: "string list \<Rightarrow> string \<Rightarrow> string list" where
  "join_pieces [] sep = []"
| "join_pieces [x] sep = [x]"
| "join_pieces (x # xs) sep = x # sep # join_pieces xs sep"

definition sdsjoin :: "string option \<Rightarrow> string list \<Rightarrow> string \<Rightarrow> sds_result" where
  "sdsjoin a argv sep = and_then (sdsempty a) (append_all (sdscat a) (join_pieces argv sep))"

definition sdsjoinsds_mem :: "string option \<Rightarrow> string list \<Rightarrow> string \<Rightarrow> sds_result" where
  "sdsjoinsds_mem a argv sep = and_then (sdsempty a) (append_all (sdscatlen_mem a) (join_pieces argv sep))"

text \<open>Anything that can be appended to: appending many texts gives all of them in order.\<close>

locale text_buffer =
  fixes good :: "'b \<Rightarrow> bool" and content :: "'b \<Rightarrow> string" and add_text :: "string \<Rightarrow> 'b \<Rightarrow> stop + 'b option" and limit :: nat
  assumes append_law: "good b \<Longrightarrow> length (content b) + length t < limit \<Longrightarrow>
    \<exists>c. add_text t b = Inr (Some c) \<and> good c \<and> content c = content b @ t"
begin

lemma append_all_law:
  "good b \<Longrightarrow> length (content b) + length (concat ts) < limit \<Longrightarrow>
   \<exists>c. append_all add_text ts (Some b) = Inr (Some c) \<and> good c \<and> content c = content b @ concat ts"
proof (induction ts arbitrary: b)
  case (Cons t ts)
  have "length (content b) + length t < limit" using Cons.prems(2) by simp
  then obtain c where c: "add_text t b = Inr (Some c)" "good c" "content c = content b @ t"
    using append_law [OF Cons.prems(1)] by blast
  then show ?case using Cons.IH [OF c(2)] Cons.prems(2) by auto
qed simp

end

interpretation stored: text_buffer sds_wf sds_text "sdscatlen_mem (Some j)" "2 ^ 62" for j
  using sdscatlen_refines by unfold_locales (simp add: sdscatlen_def)

lemma concat_join_pieces: "concat (join_pieces ts sep) = sdsjoinsds ts sep"
  by (induction ts sep rule: join_pieces.induct) simp_all

lemma sdsempty_ok: "\<exists>s. sdsempty (Some j) = Inr (Some s) \<and> sds_wf s \<and> sds_text s = []"
  using sdsnewlen_ok [of 0 "[NUL]" j] by (auto simp: sdsempty_def)

lemma sdsjoinsds_refines:
  assumes "length (sdsjoinsds ts sep) < 2 ^ 62"
  shows "\<exists>u. sdsjoinsds_mem (Some j) ts sep = Inr (Some u) \<and> sds_wf u \<and> sds_text u = sdsjoinsds ts sep"
proof -
  obtain s where "sdsempty (Some j) = Inr (Some s)" "sds_wf s" "sds_text s = []" using sdsempty_ok by blast
  then show ?thesis using stored.append_all_law [of s "join_pieces ts sep" j] assms
    by (auto simp: sdsjoinsds_mem_def concat_join_pieces)
qed

text \<open>C strings are appended up to their terminator.\<close>

lemma append_all_cstr: "append_all (sdscat a) ts r = append_all (sdscatlen_mem a) (map cstr ts) r"
proof (induction ts arbitrary: r)
  case (Cons t ts)
  have "append_all (sdscat a) ts = append_all (sdscatlen_mem a) (map cstr ts)" using Cons by blast
  then show ?case by (simp add: sdscat_def [of a t] split: option.split)
qed simp

lemma map_join_pieces: "map f (join_pieces ts sep) = join_pieces (map f ts) (f sep)"
  by (induction ts sep rule: join_pieces.induct) simp_all

lemma sdsjoin_refines:
  assumes "length (sdsjoinsds (map cstr ts) (cstr sep)) < 2 ^ 62"
  shows "\<exists>u. sdsjoin (Some j) ts sep = Inr (Some u) \<and> sds_wf u \<and> sds_text u = sdsjoinsds (map cstr ts) (cstr sep)"
proof -
  have "sdsjoin (Some j) ts sep = sdsjoinsds_mem (Some j) (map cstr ts) (cstr sep)"
    unfolding sdsjoin_def sdsjoinsds_mem_def append_all_cstr map_join_pieces ..
  then show ?thesis using sdsjoinsds_refines [OF assms] by simp
qed

end
