(* ===== verification/Sds_Args.thy ===== *)
theory Sds_Args
  imports Sds Numbers
begin

text \<open>
  The quoted form of a string and the reading of a line of arguments: \<open>sdscatrepr\<close> and
  \<open>sdssplitargs\<close>. The reader takes the line from left to right; a line of C ends with a zero byte, here with
  the list. The classes of characters are those of the C locale.
\<close>

section \<open>Writing\<close>

definition is_print :: "char \<Rightarrow> bool" where
  "is_print c \<longleftrightarrow> 32 \<le> char_code c \<and> char_code c \<le> 126"

text \<open>A digit of \<open>%02x\<close>.\<close>

definition hex_char :: "nat \<Rightarrow> char" where
  "hex_char n = (if n < 10 then char_of (48 + n) else char_of (87 + n))"

definition repr_char :: "char \<Rightarrow> string" where
  "repr_char c =
     (if c = CHR 0x5C \<or> c = CHR 0x22 then [CHR 0x5C, c]
      else if c = LF then [CHR 0x5C, CHR ''n'']
      else if c = CR then [CHR 0x5C, CHR ''r'']
      else if c = CHR 0x09 then [CHR 0x5C, CHR ''t'']
      else if c = CHR 0x07 then [CHR 0x5C, CHR ''a'']
      else if c = CHR 0x08 then [CHR 0x5C, CHR ''b'']
      else if is_print c then [c]
      else [CHR 0x5C, CHR ''x'', hex_char (char_code c div 16), hex_char (char_code c mod 16)])"

definition sdscatrepr :: "sds \<Rightarrow> string \<Rightarrow> sds" where
  "sdscatrepr s p = foldl (\<lambda>s c. s @ repr_char c) (s @ [CHR 0x22]) p @ [CHR 0x22]"

section \<open>Reading\<close>

definition is_hex_digit :: "char \<Rightarrow> bool" where
  "is_hex_digit c \<longleftrightarrow> is_digit c \<or> (97 \<le> char_code c \<and> char_code c \<le> 102) \<or> (65 \<le> char_code c \<and> char_code c \<le> 70)"

definition hex_digit_to_int :: "char \<Rightarrow> nat" where
  "hex_digit_to_int c =
     (if is_digit c then char_code c - 48
      else if 97 \<le> char_code c \<and> char_code c \<le> 102 then char_code c - 87
      else if 65 \<le> char_code c \<and> char_code c \<le> 70 then char_code c - 55
      else 0)"

definition unescape :: "char \<Rightarrow> char" where
  "unescape c =
     (if c = CHR ''n'' then LF else if c = CHR ''r'' then CR else if c = CHR ''t'' then CHR 0x09
      else if c = CHR ''b'' then CHR 0x08 else if c = CHR ''a'' then CHR 0x07 else c)"

datatype quoting = Plain | Double | Single

text \<open>The loop that reads one argument: the argument and the rest of the line, \<open>None\<close> at the jumps to
  \<open>err\<close>.\<close>

fun read_token :: "quoting \<Rightarrow> string \<Rightarrow> string \<Rightarrow> (string \<times> string) option" where
  "read_token Plain cur [] = Some (cur, [])"
| "read_token Double cur [] = None"
| "read_token Single cur [] = None"
| "read_token Double cur (c # r) =
     (if c = CHR 0x5C then
        (case r of
           [] \<Rightarrow> read_token Double (cur @ [c]) []
         | d # r1 \<Rightarrow>
             (case r1 of
                h # k # r2 \<Rightarrow>
                  if d = CHR ''x'' \<and> is_hex_digit h \<and> is_hex_digit k
                  then read_token Double (cur @ [char_of (hex_digit_to_int h * 16 + hex_digit_to_int k)]) r2
                  else read_token Double (cur @ [unescape d]) r1
              | _ \<Rightarrow> read_token Double (cur @ [unescape d]) r1))
      else if c = CHR 0x22 then (if r \<noteq> [] \<and> \<not> is_space (hd r) then None else Some (cur, r))
      else read_token Double (cur @ [c]) r)"
| "read_token Single cur (c # r) =
     (if c = CHR 0x5C \<and> r \<noteq> [] \<and> hd r = CHR 0x27 then read_token Single (cur @ [CHR 0x27]) (tl r)
      else if c = CHR 0x27 then (if r \<noteq> [] \<and> \<not> is_space (hd r) then None else Some (cur, r))
      else read_token Single (cur @ [c]) r)"
| "read_token Plain cur (c # r) =
     (if c = CHR '' '' \<or> c = LF \<or> c = CR \<or> c = CHR 0x09 then Some (cur, r)
      else if c = CHR 0x22 then read_token Double cur r
      else if c = CHR 0x27 then read_token Single cur r
      else read_token Plain (cur @ [c]) r)"

lemmas read_step = read_token.simps(4)

declare read_step [simp del]

lemma read_token_shorter: "read_token q cur p = Some (t, r) \<Longrightarrow> length r \<le> length p \<and> (p \<noteq> [] \<longrightarrow> length r < length p)"
proof (induction q cur p rule: read_token.induct)
  case (4 cur c r0)
  note step = 4(7) [unfolded read_step]
  show ?case
  proof (cases "c = CHR 0x5C")
    case True
    show ?thesis
    proof (cases r0)
      case Nil
      then show ?thesis using step True 4(1) by simp
    next
      case (Cons d r1)
      show ?thesis
      proof (cases "\<exists>h k r2. r1 = h # k # r2 \<and> d = CHR ''x'' \<and> is_hex_digit h \<and> is_hex_digit k")
        case hex: True
        then obtain h k r2 where h: "r1 = h # k # r2" "d = CHR ''x''" "is_hex_digit h" "is_hex_digit k" by blast
        then show ?thesis using step True Cons 4(4) [OF True Cons h(1) refl] by auto
      next
        case False
        then have "read_token Double (cur @ [unescape d]) r1 = Some (t, r)" using step True Cons by (auto split: list.splits if_splits)
        moreover have "length r \<le> length r1" if "read_token Double (cur @ [unescape d]) r1 = Some (t, r)"
          using 4(2,3,5) True Cons False that by (cases r1; cases "tl r1") auto
        ultimately show ?thesis using Cons by auto
      qed
    qed
  next
    case False
    then show ?thesis using step 4(6) by (auto split: if_splits)
  qed
qed (auto split: if_splits)

text \<open>The loop over the line.\<close>

function split_args :: "string list \<Rightarrow> string \<Rightarrow> string list option" where
  "split_args acc line =
     (let p = dropWhile is_space line in
      if p = [] then Some acc
      else (case read_token Plain [] p of None \<Rightarrow> None | Some (t, r) \<Rightarrow> split_args (acc @ [t]) r))"
  by pat_completeness auto
termination
proof (relation "measure (length \<circ> snd)", goal_cases)
  case (2 acc line p q t r)
  then have "length r < length p" using read_token_shorter [of Plain "[]" p t r] by simp
  moreover have "length p \<le> length line" using 2(1) length_dropWhile_le by simp
  ultimately show ?case by simp
qed simp

declare split_args.simps [simp del]

definition sdssplitargs :: "string \<Rightarrow> string list option" where
  "sdssplitargs line = split_args [] (cstr line)"

section \<open>Round trip\<close>

lemma hex_char_facts: "n < 16 \<Longrightarrow> is_hex_digit (hex_char n) \<and> hex_digit_to_int (hex_char n) = n"
  by (auto simp: hex_char_def is_hex_digit_def hex_digit_to_int_def is_digit_def char_code_def)

lemma code_parts: "char_code c div 16 < 16" "char_code c mod 16 < 16" "char_of (char_code c) = c"
proof -
  have "char_code c < 256" by (simp add: char_code_def)
  then show "char_code c div 16 < 16" by (simp add: less_mult_imp_div_less)
  show "char_code c mod 16 < 16" by simp
  show "char_of (char_code c) = c" by (simp add: char_code_def)
qed

text \<open>A written character is read back as itself.\<close>

lemma read_repr_char: "read_token Double cur (repr_char c @ r) = read_token Double (cur @ [c]) r"
proof -
  have esc: "read_token Double cur (CHR 0x5C # d # r) = read_token Double (cur @ [unescape d]) r" if "d \<noteq> CHR ''x''" for d
    using that by (cases r; cases "tl r") (auto simp: read_step [of _ "CHR 0x5C"])
  have hex: "read_token Double cur (CHR 0x5C # CHR ''x'' # hex_char (char_code c div 16) # hex_char (char_code c mod 16) # r)
     = read_token Double (cur @ [c]) r"
    using hex_char_facts code_parts [of c] by (simp add: read_step [of _ "CHR 0x5C"] div_mult_mod_eq)
  have plain: "read_token Double cur (c # r) = read_token Double (cur @ [c]) r" if "c \<noteq> CHR 0x5C" "c \<noteq> CHR 0x22"
    using that by (simp add: read_step)
  show ?thesis
    unfolding repr_char_def by (auto simp: esc hex unescape_def intro: plain)
qed

lemma read_repr:
  "r = [] \<or> is_space (hd r) \<Longrightarrow> read_token Double cur (concat (map repr_char p) @ CHR 0x22 # r) = Some (cur @ p, r)"
  by (induction p arbitrary: cur) (auto simp: read_repr_char read_step)

lemma sdscatrepr_eq: "sdscatrepr s p = s @ CHR 0x22 # concat (map repr_char p) @ [CHR 0x22]"
proof -
  have "foldl (\<lambda>s c. s @ repr_char c) s p = s @ concat (map repr_char p)" for s by (induction p arbitrary: s) simp_all
  then show ?thesis by (simp add: sdscatrepr_def)
qed

lemma repr_is_cstr: "is_cstr (concat (map repr_char p))"
proof -
  have h: "hex_char n \<noteq> NUL" if "n < 16" for n
    using hex_char_facts [OF that] by (auto simp: is_hex_digit_def is_digit_def char_code_def)
  have "is_cstr (repr_char c)" for c
    using h [OF code_parts(1) [of c]] h [OF code_parts(2) [of c]] by (auto simp: repr_char_def is_cstr_def is_print_def char_code_def)
  then show ?thesis by (induction p) (simp_all add: cstr_simps)
qed

text \<open>A line with every argument in its quoted form.\<close>

definition repr_line :: "string list \<Rightarrow> string" where
  "repr_line ps = sdsjoinsds (map (sdscatrepr []) ps) '' ''"

lemma split_repr:
  assumes "r = [] \<or> is_space (hd r)"
  shows "split_args acc (sdscatrepr [] p @ r) = split_args (acc @ [p]) r"
proof -
  have "\<not> is_space CHR 0x22" by code_simp
  then have "dropWhile is_space (sdscatrepr [] p @ r) = sdscatrepr [] p @ r" by (simp add: sdscatrepr_eq)
  moreover have "read_token Plain [] (sdscatrepr [] p @ r) = Some (p, r)"
    using read_repr [OF assms, of "[]" p] by (simp add: sdscatrepr_eq)
  moreover have "sdscatrepr [] p \<noteq> []" by (simp add: sdscatrepr_eq)
  ultimately show ?thesis by (subst split_args.simps) simp
qed

lemma split_blank: "split_args acc (CHR '' '' # r) = split_args acc r"
proof -
  have "is_space CHR '' ''" by code_simp
  then show ?thesis by (subst (1 2) split_args.simps) simp
qed

lemma split_repr_line: "split_args acc (repr_line ps) = Some (acc @ ps)"
proof (induction ps arbitrary: acc)
  case Nil
  show ?case by (subst split_args.simps) (simp add: repr_line_def)
next
  case (Cons p ps)
  show ?case
  proof (cases ps)
    case Nil
    have "split_args (acc @ [p]) [] = Some (acc @ [p])" by (subst split_args.simps) simp
    then show ?thesis using Nil split_repr [of "[]" acc p] by (simp add: repr_line_def)
  next
    case (Cons q qs)
    then have "repr_line (p # ps) = sdscatrepr [] p @ CHR '' '' # repr_line ps" by (simp add: repr_line_def)
    moreover have "is_space CHR '' ''" by code_simp
    ultimately show ?thesis using Cons.IH split_repr [of "CHR '' '' # repr_line ps" acc p] by (simp add: split_blank)
  qed
qed

text \<open>C22: Arguments of any bytes, zero bytes, quotes and backslashes included, are the same after they have
  been written in their quoted form on one line and the line has been split again.\<close>

theorem quoted_arguments_roundtrip: "sdssplitargs (repr_line ps) = Some ps"
proof -
  have "is_cstr (repr_line ps)"
  proof (induction ps rule: induct_list012)
    case (3 p q ps)
    then show ?case using repr_is_cstr [of p] by (simp add: repr_line_def sdscatrepr_eq cstr_simps)
  qed (use repr_is_cstr in \<open>simp_all add: repr_line_def sdscatrepr_eq cstr_simps\<close>)
  then show ?thesis using split_repr_line [of "[]" ps] by (simp add: sdssplitargs_def cstr_id)
qed

end
