(* ===== verification/Settings.thy ===== *)
theory Settings
  imports Sds
begin

text \<open>
  Where the configuration comes from: the configuration file (\<open>config.c\<close>), the options and
  arguments of the command line (\<open>argument_parser.c\<close>, as the events \<open>argp_parse\<close> reports), the
  channels and the bots with their commands.
\<close>

section \<open>Numbers with a base prefix\<close>

text \<open>\<open>strtoul (s, NULL, 0)\<close>: blanks, a sign, and digits in base 16, 8 or 10 by their prefix.\<close>

definition hex_value :: "char \<Rightarrow> nat option" where
  "hex_value c = (let n = char_code c in
     if 48 \<le> n \<and> n \<le> 57 then Some (n - 48)
     else if 97 \<le> n \<and> n \<le> 102 then Some (n - 87)
     else if 65 \<le> n \<and> n \<le> 70 then Some (n - 55) else None)"

definition digit_in :: "nat \<Rightarrow> char \<Rightarrow> bool" where
  "digit_in base c \<longleftrightarrow> (case hex_value c of None \<Rightarrow> False | Some v \<Rightarrow> v < base)"

definition value_in :: "nat \<Rightarrow> string \<Rightarrow> nat" where
  "value_in base s = foldl (\<lambda>a c. base * a + (case hex_value c of None \<Rightarrow> 0 | Some v \<Rightarrow> v)) 0 s"

definition unsigned_auto :: "string \<Rightarrow> nat" where
  "unsigned_auto s =
     (if s \<noteq> [] \<and> hd s = CHR ''0'' then
        (if 2 < length s \<and> (s ! 1 = CHR ''x'' \<or> s ! 1 = CHR ''X'') \<and> digit_in 16 (s ! 2)
         then value_in 16 (takeWhile (digit_in 16) (drop 2 s))
         else value_in 8 (takeWhile (digit_in 8) s))
      else value_in 10 (takeWhile (digit_in 10) s))"

definition strtoul_auto :: "string \<Rightarrow> nat" where
  "strtoul_auto s =
     (let t = dropWhile is_space (cstr s) in
      if t \<noteq> [] \<and> hd t = CHR ''-''
      then (let v = unsigned_auto (tl t) in if v > ULONG_MAX then ULONG_MAX else (ULONG_MAX + 1 - v) mod (ULONG_MAX + 1))
      else min ULONG_MAX (unsigned_auto (if t \<noteq> [] \<and> hd t = CHR ''+'' then tl t else t)))"

definition unsigned_short :: "nat \<Rightarrow> 16 word" where
  "unsigned_short n = of_nat n"

section \<open>The configuration file\<close>

type_synonym config_step = "xdccGetConfig \<Rightarrow> string \<Rightarrow> stop + xdccGetConfig"

definition verifyChecksumsCallback :: config_step where
  "verifyChecksumsCallback c value =
     Inr (if str_equals value ''true'' then cfg_set_bit c VERIFY_CHECKSUM_FLAG
          else cfg_clear_bit c VERIFY_CHECKSUM_FLAG)"

definition allowAllCertsCallback :: config_step where
  "allowAllCertsCallback c value =
     Inr (if str_equals value ''true'' then cfg_set_bit c ALLOW_ALL_CERTS_FLAG
          else cfg_clear_bit c ALLOW_ALL_CERTS_FLAG)"

definition downloadDirCallback :: config_step where
  "downloadDirCallback c value = Inr (c\<lparr>c_targetDir := Some value\<rparr>)"

definition confirmFileOffsetsCallback :: config_step where
  "confirmFileOffsetsCallback c value =
     Inr (if str_equals value ''true'' then cfg_clear_bit c DONT_CONFIRM_OFFSETS_FLAG
          else cfg_set_bit c DONT_CONFIRM_OFFSETS_FLAG)"

definition maxTransferSpeedCallback :: config_step where
  "maxTransferSpeedCallback c value = Inr (setMaxTransferSpeed c value)"

definition listenIpCallback :: config_step where
  "listenIpCallback c value =
     (if inet_pton value = None then Inl (ExitPgm (-1)) else Inr (c\<lparr>c_listen_ip := Some value\<rparr>))"

definition listenPortCallback :: config_step where
  "listenPortCallback c value = Inr (c\<lparr>c_listen_port := unsigned_short (strtoul_auto value)\<rparr>)"

definition parseLogLevel :: config_step where
  "parseLogLevel c value =
     Inr (if str_equals value ''information'' then c\<lparr>c_logLevel := LOG_INFO\<rparr>
          else if str_equals value ''warn'' then c\<lparr>c_logLevel := LOG_WARN\<rparr>
          else if str_equals value ''error'' then c\<lparr>c_logLevel := LOG_ERR\<rparr>
          else if str_equals value ''quiet'' then c\<lparr>c_logLevel := LOG_QUIET\<rparr>
          else c)"

definition configLineCallbacks :: "(string \<times> config_step) list" where
  "configLineCallbacks = [(''downloadDir'', downloadDirCallback), (''logLevel'', parseLogLevel),
     (''allowAllCerts'', allowAllCertsCallback), (''verifyChecksums'', verifyChecksumsCallback),
     (''confirmFileOffsets'', confirmFileOffsetsCallback), (''maxTransferSpeed'', maxTransferSpeedCallback),
     (''listenIp'', listenIpCallback), (''listenPort'', listenPortCallback)]"

fun apply_callbacks :: "(string \<times> config_step) list \<Rightarrow> string \<Rightarrow> string \<Rightarrow> xdccGetConfig \<Rightarrow> stop + xdccGetConfig" where
  "apply_callbacks [] type value c = Inr c"
| "apply_callbacks ((name, f) # cbs) type value c =
     and_then (if str_equals type name then f c value else Inr c) (apply_callbacks cbs type value)"

fun key_and_value :: "sds list option \<Rightarrow> (sds \<times> sds) option" where
  "key_and_value (Some [type, value]) = Some (type, value)"
| "key_and_value _ = None"

definition tab :: char where
  "tab = CHR 0x09"

definition parseConfigLine :: "xdccGetConfig \<Rightarrow> string \<Rightarrow> stop + xdccGetConfig" where
  "parseConfigLine c line =
     and_then (sdssplitlen line ''='') (\<lambda>r. case key_and_value r of
        None \<Rightarrow> Inr c
      | Some (type, value) \<Rightarrow>
          apply_callbacks configLineCallbacks (sdstrim type ('' '' @ [tab])) (sdstrim value ('' '' @ [tab])) c)"

text \<open>The first character is read of a line whose terminator comes first, too.\<close>

definition ignoreLine :: "string \<Rightarrow> bool" where
  "ignoreLine line \<longleftrightarrow> cstr line = [] \<or> hd line = CHR ''#''"

fun parse_lines :: "string list \<Rightarrow> xdccGetConfig \<Rightarrow> stop + xdccGetConfig" where
  "parse_lines [] c = Inr c"
| "parse_lines (l # ls) c =
     (let line = sdstrim l ('' '' @ [CR, tab]) in
      and_then (if ignoreLine line then Inr c else parseConfigLine c line) (parse_lines ls))"

definition parseConfigString :: "xdccGetConfig \<Rightarrow> string \<Rightarrow> stop + xdccGetConfig" where
  "parseConfigString c content =
     and_then (sdssplitlen content [LF]) (\<lambda>r. case r of None \<Rightarrow> Inr c | Some ls \<Rightarrow> parse_lines ls c)"

definition line_of :: "string \<Rightarrow> string" where
  "line_of s = s @ [LF]"

definition getDefaultConfigContent :: "string \<Rightarrow> string" where
  "getDefaultConfigContent home =
     line_of ''# default directory where to store the downloads'' @
     line_of (''downloadDir='' @ home @ ''/Downloads'') @
     line_of ''# default logging level, valid options: information, warn, error, quiet'' @
     line_of ''logLevel=information'' @
     line_of ''# allow all certificates and dont validate them'' @
     line_of ''#allowAllCerts=true'' @
     line_of ''# stay connected after downloads finished to automatically verify checksums'' @
     line_of ''verifyChecksums=false'' @
     line_of ''# Do not send file offsets to the bots if set to false. Can be used on bots where the transfer gets stucked after a short while.'' @
     line_of ''confirmFileOffsets=false'' @
     line_of ''# Limit the maximum transfer speed for the downloads in each xdccget instance to the specified value per seconds. valid suffixes are KByte, MByte and TByte'' @
     line_of ''#maxTransferSpeed=1MByte'' @
     line_of ''# Sets the listen ip for passive dcc transfers. Should normally your external ip address.'' @
     line_of ''#listenIp=85.48.89.195'' @
     line_of ''# Sets the listen port for passive dcc transfers. This port needs to be forwared in your router, such that external TCP acknowledgements are not blocked.'' @
     line_of ''#listenPort=55554''"

text \<open>\<open>parseConfigFile\<close>; \<open>file\<close> is the content of the file when there is one, and a missing file is
  written with the default content first.\<close>

definition parseConfigFile :: "string \<Rightarrow> string option \<Rightarrow> xdccGetConfig \<Rightarrow> stop + xdccGetConfig" where
  "parseConfigFile home file c =
     parseConfigString c (case file of None \<Rightarrow> getDefaultConfigContent home | Some content \<Rightarrow> content)"

section \<open>Options\<close>

definition set_quiet_loglevel :: "xdccGetConfig \<Rightarrow> xdccGetConfig" where
  "set_quiet_loglevel c = c\<lparr>c_logLevel := LOG_QUIET\<rparr>"

definition set_warn_loglevel :: "xdccGetConfig \<Rightarrow> xdccGetConfig" where
  "set_warn_loglevel c = c\<lparr>c_logLevel := LOG_WARN\<rparr>"

definition set_info_loglevel :: "xdccGetConfig \<Rightarrow> xdccGetConfig" where
  "set_info_loglevel c = c\<lparr>c_logLevel := LOG_INFO\<rparr>"

definition set_verify_checksum :: "xdccGetConfig \<Rightarrow> xdccGetConfig" where
  "set_verify_checksum c = cfg_set_bit c VERIFY_CHECKSUM_FLAG"

definition set_target_dir :: "xdccGetConfig \<Rightarrow> string \<Rightarrow> xdccGetConfig" where
  "set_target_dir c arg = c\<lparr>c_targetDir := Some (sdsnew arg)\<rparr>"

definition set_nickname :: "xdccGetConfig \<Rightarrow> string \<Rightarrow> xdccGetConfig" where
  "set_nickname c arg = c\<lparr>c_nick := Some (sdsnew arg)\<rparr>"

definition set_login_command :: "xdccGetConfig \<Rightarrow> string \<Rightarrow> xdccGetConfig" where
  "set_login_command c arg = c\<lparr>c_login_command := Some (sdsnew arg)\<rparr>"

definition set_port :: "xdccGetConfig \<Rightarrow> string \<Rightarrow> xdccGetConfig" where
  "set_port c arg = c\<lparr>c_port := unsigned_short (strtoul_auto arg)\<rparr>"

definition set_accept_all_nicks :: "xdccGetConfig \<Rightarrow> xdccGetConfig" where
  "set_accept_all_nicks c = cfg_set_bit c ACCEPT_ALL_NICKS_FLAG"

definition set_dont_confirm_offsets :: "xdccGetConfig \<Rightarrow> xdccGetConfig" where
  "set_dont_confirm_offsets c = cfg_set_bit c DONT_CONFIRM_OFFSETS_FLAG"

definition set_throttle_download :: "xdccGetConfig \<Rightarrow> string \<Rightarrow> xdccGetConfig" where
  "set_throttle_download c arg = setMaxTransferSpeed c (sdstrim (sdsnew arg) ('' '' @ [tab]))"

definition set_delay_command :: "nat \<Rightarrow> xdccGetConfig \<Rightarrow> string \<Rightarrow> xdccGetConfig" where
  "set_delay_command now c arg = setDelay now c (sdstrim (sdsnew arg) ('' '' @ [tab]))"

definition set_listen_ip :: "xdccGetConfig \<Rightarrow> string \<Rightarrow> stop + xdccGetConfig" where
  "set_listen_ip c arg =
     (if inet_pton arg = None then Inl (ExitPgm (-1))
      else Inr (c\<lparr>c_listen_ip := Some (sdstrim (sdsnew arg) ('' '' @ [tab]))\<rparr>))"

definition set_accept_all_certs :: "xdccGetConfig \<Rightarrow> xdccGetConfig" where
  "set_accept_all_certs c = cfg_set_bit c ALLOW_ALL_CERTS_FLAG"

definition set_listen_port :: "xdccGetConfig \<Rightarrow> string \<Rightarrow> xdccGetConfig" where
  "set_listen_port c arg = c\<lparr>c_listen_port := unsigned_short (strtoul_auto arg)\<rparr>"

definition set_use_ipv4 :: "xdccGetConfig \<Rightarrow> xdccGetConfig" where
  "set_use_ipv4 c = cfg_set_bit c USE_IPV4_FLAG"

definition set_use_ipv6 :: "xdccGetConfig \<Rightarrow> xdccGetConfig" where
  "set_use_ipv6 c = cfg_set_bit c USE_IPV6_FLAG"

text \<open>The keys of the table \<open>options\<close>; \<open>argp\<close> gives an argument with the ones that take one.\<close>

datatype opt_key =
    Key_q | Key_v | Key_w | Key_i | Key_c | Key_d string | Key_n string | Key_l string | Key_p string
  | OPT_ACCEPT_ALL_NICKS | OPT_ACCEPT_ALL_CERTS | OPT_DONT_CONFIRM_OFFSETS
  | OPT_THROTTLE_DOWNLOAD string | OPT_DELAY_COMMAND string
  | OPT_LISTEN_IP_COMMAND string | OPT_LISTEN_PORT_COMMAND string | Key_4 | Key_6
  | ARGP_KEY_ARG nat string | ARGP_KEY_END nat

text \<open>\<open>argp_usage\<close> prints the usage and exits with status 64.\<close>

fun parse_opt :: "nat \<Rightarrow> opt_key \<Rightarrow> xdccGetConfig \<Rightarrow> stop + xdccGetConfig" where
  "parse_opt now Key_q c = Inr (set_quiet_loglevel c)"
| "parse_opt now Key_v c = Inr (set_info_loglevel c)"
| "parse_opt now Key_w c = Inr (set_warn_loglevel c)"
| "parse_opt now Key_i c = Inr (set_info_loglevel c)"
| "parse_opt now Key_c c = Inr (set_verify_checksum c)"
| "parse_opt now (Key_d arg) c = Inr (set_target_dir c arg)"
| "parse_opt now (Key_n arg) c = Inr (set_nickname c arg)"
| "parse_opt now (Key_l arg) c = Inr (set_login_command c arg)"
| "parse_opt now (Key_p arg) c = Inr (set_port c arg)"
| "parse_opt now OPT_ACCEPT_ALL_NICKS c = Inr (set_accept_all_nicks c)"
| "parse_opt now OPT_ACCEPT_ALL_CERTS c = Inr (set_accept_all_certs c)"
| "parse_opt now OPT_DONT_CONFIRM_OFFSETS c = Inr (set_dont_confirm_offsets c)"
| "parse_opt now (OPT_THROTTLE_DOWNLOAD arg) c = Inr (set_throttle_download c arg)"
| "parse_opt now (OPT_DELAY_COMMAND arg) c = Inr (set_delay_command now c arg)"
| "parse_opt now (OPT_LISTEN_IP_COMMAND arg) c = set_listen_ip c arg"
| "parse_opt now (OPT_LISTEN_PORT_COMMAND arg) c = Inr (set_listen_port c arg)"
| "parse_opt now Key_4 c = Inr (set_use_ipv4 c)"
| "parse_opt now Key_6 c = Inr (set_use_ipv6 c)"
| "parse_opt now (ARGP_KEY_ARG n arg) c =
     (if n \<ge> 3 then Inl (ExitPgm 64) else Inr (c\<lparr>c_args := (c_args c)[n := Some arg]\<rparr>))"
| "parse_opt now (ARGP_KEY_END n) c = (if n < 3 then Inl (ExitPgm 64) else Inr c)"

text \<open>A command line as \<open>argp_parse\<close> sees it: options and positional arguments in order. It counts
  the arguments and reports the end.\<close>

datatype arg_item = Opt opt_key | Arg string

fun argp_parse :: "nat \<Rightarrow> nat \<Rightarrow> arg_item list \<Rightarrow> xdccGetConfig \<Rightarrow> stop + xdccGetConfig" where
  "argp_parse now n [] c = parse_opt now (ARGP_KEY_END n) c"
| "argp_parse now n (Opt k # items) c = and_then (parse_opt now k c) (argp_parse now n items)"
| "argp_parse now n (Arg a # items) c = and_then (parse_opt now (ARGP_KEY_ARG n a) c) (argp_parse now (Suc n) items)"

definition parseArguments :: "nat \<Rightarrow> arg_item list \<Rightarrow> xdccGetConfig \<Rightarrow> stop + xdccGetConfig" where
  "parseArguments now items c = argp_parse now 0 items c"

section \<open>Channels and downloads\<close>

definition newDccDownload :: "string \<Rightarrow> string \<Rightarrow> dccDownload" where
  "newDccDownload nick cmd = \<lparr>botNick = nick, xdccCmd = cmd, md5 = None\<rparr>"

text \<open>The command is copied with the terminator that ends the string, as \<open>cmdLen - 1\<close> counts it.
  Without a blank, \<open>spaceFound\<close> stays 0.\<close>

definition parseDccDownload :: "string \<Rightarrow> sds \<times> sds" where
  "parseDccDownload s =
     (let t = cstr s;
          spaceFound = length (takeWhile (\<lambda>c. c \<noteq> CHR '' '') t);
          spaceFound = (if spaceFound < length t then spaceFound else 0) in
      (take spaceFound t, take (length t - spaceFound) (drop (Suc spaceFound) (t @ [NUL]))))"

definition parseChannels :: "string \<Rightarrow> stop + sds list option" where
  "parseChannels s = and_then (sdssplitlen (cstr s) '','') (\<lambda>r.
     Inr (map_option (map (\<lambda>t. sdstrim t ('' '' @ [tab]))) r))"

definition parseDccDownloads :: "string \<Rightarrow> stop + (dccDownload list \<times> nat) option" where
  "parseDccDownloads s = and_then (sdssplitlen (cstr s) '','') (\<lambda>r.
     Inr (map_option (\<lambda>ts. (map (\<lambda>t. case parseDccDownload (sdstrim t ('' '' @ [tab])) of
        (nick, cmd) \<Rightarrow> newDccDownload nick cmd) ts, length ts)) r))"

section \<open>What a configuration file sets\<close>

lemma split_from_token:
  assumes "c \<notin> set l"
  shows "length (l @ c # rest) < fuel \<Longrightarrow>
     split_from [c] fuel tok (l @ c # rest) = (tok @ l) # split_from [c] (fuel - Suc (length l)) [] rest"
  using assms
proof (induction l arbitrary: fuel tok)
  case Nil
  then show ?case by (cases fuel) auto
next
  case (Cons x l)
  then obtain f where "fuel = Suc f" by (cases fuel) auto
  then show ?case using Cons by (auto simp: less_Suc_eq_le)
qed

lemma split_from_last:
  assumes "c \<notin> set l"
  shows "length l < fuel \<Longrightarrow> split_from [c] fuel tok l = [tok @ l]"
  using assms
proof (induction l arbitrary: fuel tok)
  case Nil
  then show ?case by (cases fuel) auto
next
  case (Cons x l)
  then obtain f where "fuel = Suc f" by (cases fuel) auto
  then show ?case using Cons by auto
qed

text \<open>Splitting what was joined by a separator of one character.\<close>

lemma split_from_joined:
  "length (sdsjoinsds ts [c]) < fuel \<Longrightarrow> list_all (\<lambda>t. c \<notin> set t) ts \<Longrightarrow> ts \<noteq> [] \<Longrightarrow>
     split_from [c] fuel [] (sdsjoinsds ts [c]) = ts"
proof (induction ts arbitrary: fuel)
  case (Cons t ts)
  show ?case
  proof (cases ts)
    case Nil
    then show ?thesis using Cons.prems split_from_last [of c t fuel "[]"] by simp
  next
    case (Cons u us)
    then have "split_from [c] fuel [] (t @ c # sdsjoinsds ts [c])
      = t # split_from [c] (fuel - Suc (length t)) [] (sdsjoinsds ts [c])"
      using Cons.prems split_from_token [of c t "sdsjoinsds ts [c]" fuel "[]"] by simp
    moreover have "split_from [c] (fuel - Suc (length t)) [] (sdsjoinsds ts [c]) = ts"
      by (rule Cons.IH) (use Cons.prems Cons in auto)
    ultimately show ?thesis using Cons by simp
  qed
qed simp

lemma sdssplit_joined:
  "list_all (\<lambda>t. c \<notin> set t) ts \<Longrightarrow> sdsjoinsds ts [c] \<noteq> [] \<Longrightarrow> sdssplitlen (sdsjoinsds ts [c]) [c] = Inr (Some ts)"
  using split_from_joined [of ts c "Suc (length (sdsjoinsds ts [c]))"] by (cases ts) (auto simp: sdssplitlen_def)

text \<open>A line of a file, comment or setting; an empty line is a comment here.\<close>

datatype config_item = Comment string | Setting string string

fun config_line :: "config_item \<Rightarrow> string" where
  "config_line (Comment t) = (if t = [] then [] else CHR ''#'' # t)"
| "config_line (Setting k v) = k @ ''='' @ v"

definition trimmed :: "string \<Rightarrow> bool" where
  "trimmed t \<longleftrightarrow> t = [] \<or> (\<not> in_cset ('' '' @ [CR, tab]) (hd t) \<and> \<not> in_cset ('' '' @ [CR, tab]) (last t))"

fun config_item_ok :: "config_item \<Rightarrow> bool" where
  "config_item_ok (Comment t) \<longleftrightarrow> LF \<notin> set t \<and> is_cstr t"
| "config_item_ok (Setting k v) \<longleftrightarrow> LF \<notin> set (k @ v) \<and> is_cstr (k @ v) \<and> CHR ''='' \<notin> set (k @ v)
     \<and> k \<noteq> [] \<and> v \<noteq> [] \<and> hd k \<noteq> CHR ''#'' \<and> trimmed k \<and> trimmed v"

fun item_effect :: "config_item \<Rightarrow> xdccGetConfig \<Rightarrow> stop + xdccGetConfig" where
  "item_effect (Comment t) c = Inr c"
| "item_effect (Setting k v) c = apply_callbacks configLineCallbacks k v c"

fun items_effect :: "config_item list \<Rightarrow> xdccGetConfig \<Rightarrow> stop + xdccGetConfig" where
  "items_effect [] c = Inr c"
| "items_effect (i # is) c = and_then (item_effect i c) (items_effect is)"

lemma trim_trimmed: "trimmed t \<Longrightarrow> sdstrim t ('' '' @ [tab]) = t" "trimmed t \<Longrightarrow> sdstrim t ('' '' @ [CR, tab]) = t"
  by (rule sdstrim_id; auto simp: trimmed_def in_cset_def cstr_def tab_def)+

lemma comment_trim: "\<exists>u. sdstrim (CHR ''#'' # t) ('' '' @ [CR, tab]) = CHR ''#'' # u"
proof -
  let ?P = "in_cset ('' '' @ [CR, tab])"
  have "\<not> ?P (CHR ''#'')" by (simp add: in_cset_def cstr_def tab_def)
  moreover from this have "dropWhile ?P (rev t @ [CHR ''#'']) = dropWhile ?P (rev t) @ [CHR ''#'']"
    by (cases "\<forall>x \<in> set (rev t). ?P x") (auto simp: dropWhile_append)
  ultimately show ?thesis by (simp add: sdstrim_def)
qed

lemma config_line_no_LF: "config_item_ok i \<Longrightarrow> LF \<notin> set (config_line i)"
  by (cases i) auto

lemma parse_item: "config_item_ok i \<Longrightarrow> parse_lines (config_line i # ls) c = and_then (item_effect i c) (parse_lines ls)"
proof (cases i)
  case (Comment t)
  show ?thesis
  proof (cases "t = []")
    case True
    then show ?thesis using Comment by (simp add: sdstrim_def ignoreLine_def cstr_def)
  next
    case False
    then show ?thesis using Comment comment_trim [of t] by (auto simp: ignoreLine_def)
  qed
next
  case (Setting k v)
  assume ok: "config_item_ok i"
  have kv: "trimmed k" "trimmed v" "k \<noteq> []" "v \<noteq> []" "is_cstr k" using ok Setting by (auto simp: cstr_simps)
  have "trimmed (k @ ''='' @ v)" using kv by (auto simp: trimmed_def)
  then have line: "sdstrim (k @ ''='' @ v) ('' '' @ [CR, tab]) = k @ ''='' @ v" by (rule trim_trimmed)
  have "\<not> ignoreLine (k @ ''='' @ v)"
    using kv ok Setting by (cases k) (auto simp: ignoreLine_def cstr_def is_cstr_def)
  moreover have "sdssplitlen (k @ ''='' @ v) ''='' = Inr (Some [k, v])"
    using sdssplit_joined [of "CHR ''=''" "[k, v]"] ok Setting by simp
  ultimately show ?thesis using line kv trim_trimmed(1) by (simp add: Setting parseConfigLine_def)
qed

lemma parse_items: "list_all config_item_ok is \<Longrightarrow> parse_lines (map config_line is) c = items_effect is c"
proof (induction "is" arbitrary: c)
  case (Cons i "is")
  then show ?case using parse_item [of i "map config_line is" c]
    by (cases "item_effect i c") (simp_all del: parse_lines.simps(2))
qed simp

text \<open>C37: a configuration file of comments and settings has the effect of its settings in order, each
  through the function its name selects.\<close>

theorem config_file_effect:
  assumes "list_all config_item_ok is" and "sdsjoinsds (map config_line is) [LF] \<noteq> []"
  shows "parseConfigString c (sdsjoinsds (map config_line is) [LF]) = items_effect is c"
proof -
  have "list_all (\<lambda>t. LF \<notin> set t) (map config_line is)"
    using assms(1) config_line_no_LF by (auto simp: list_all_iff)
  then have "sdssplitlen (sdsjoinsds (map config_line is) [LF]) [LF] = Inr (Some (map config_line is))"
    using assms(2) by (rule sdssplit_joined)
  then show ?thesis using parse_items [OF assms(1)] by (simp add: parseConfigString_def)
qed

theorem config_file_effect_witness:
  "parseConfigString zero_config (sdsjoinsds (map config_line [Comment '' limit'', Setting ''listenPort'' ''55554'']) [LF])
     = items_effect [Comment '' limit'', Setting ''listenPort'' ''55554''] zero_config"
  by (rule config_file_effect) (simp_all add: is_cstr_def trimmed_def in_cset_def cstr_def tab_def)

definition default_items :: "string \<Rightarrow> config_item list" where
  "default_items home =
     [Comment '' default directory where to store the downloads'', Setting ''downloadDir'' (home @ ''/Downloads''),
      Comment '' default logging level, valid options: information, warn, error, quiet'',
      Setting ''logLevel'' ''information'', Comment '' allow all certificates and dont validate them'',
      Comment ''allowAllCerts=true'',
      Comment '' stay connected after downloads finished to automatically verify checksums'',
      Setting ''verifyChecksums'' ''false'',
      Comment '' Do not send file offsets to the bots if set to false. Can be used on bots where the transfer gets stucked after a short while.'',
      Setting ''confirmFileOffsets'' ''false'',
      Comment '' Limit the maximum transfer speed for the downloads in each xdccget instance to the specified value per seconds. valid suffixes are KByte, MByte and TByte'',
      Comment ''maxTransferSpeed=1MByte'',
      Comment '' Sets the listen ip for passive dcc transfers. Should normally your external ip address.'',
      Comment ''listenIp=85.48.89.195'',
      Comment '' Sets the listen port for passive dcc transfers. This port needs to be forwared in your router, such that external TCP acknowledgements are not blocked.'',
      Comment ''listenPort=55554'', Comment []]"

text \<open>The file the program writes when there is none stores downloads in the home directory,
  logs information, does not verify checksums and does not confirm offsets to the bots.\<close>

theorem default_config_effect:
  assumes "is_cstr home" and "LF \<notin> set home" and "CHR ''='' \<notin> set home" and "trimmed home"
  shows "parseConfigFile home None c = Inr (cfg_set_bit (cfg_clear_bit
     (c\<lparr>c_targetDir := Some (home @ ''/Downloads''), c_logLevel := LOG_INFO\<rparr>)
       VERIFY_CHECKSUM_FLAG) DONT_CONFIRM_OFFSETS_FLAG)"
proof -
  have content: "getDefaultConfigContent home = sdsjoinsds (map config_line (default_items home)) [LF]"
    by (simp add: getDefaultConfigContent_def default_items_def line_of_def)
  have "trimmed (home @ ''/Downloads'')"
    using assms(4) by (cases home) (auto simp: trimmed_def in_cset_def cstr_def tab_def)
  then have ok: "list_all config_item_ok (default_items home)"
    using assms by (simp add: default_items_def cstr_simps trimmed_def in_cset_def cstr_def tab_def)
  have "parseConfigFile home None c = items_effect (default_items home) c"
    unfolding parseConfigFile_def option.case content
    by (rule config_file_effect [OF ok]) (simp add: default_items_def)
  also have "\<dots> = Inr (cfg_set_bit (cfg_clear_bit
     (c\<lparr>c_targetDir := Some (home @ ''/Downloads''), c_logLevel := LOG_INFO\<rparr>)
       VERIFY_CHECKSUM_FLAG) DONT_CONFIRM_OFFSETS_FLAG)"
    by (simp add: default_items_def configLineCallbacks_def str_equals_def cstr_def downloadDirCallback_def
        parseLogLevel_def verifyChecksumsCallback_def confirmFileOffsetsCallback_def)
  finally show ?thesis .
qed

theorem default_config_effect_witness:
  "parseConfigFile ''/home/me'' None zero_config = Inr (cfg_set_bit (cfg_clear_bit
     (zero_config\<lparr>c_targetDir := Some (''/home/me'' @ ''/Downloads''), c_logLevel := LOG_INFO\<rparr>)
       VERIFY_CHECKSUM_FLAG) DONT_CONFIRM_OFFSETS_FLAG)"
  by (rule default_config_effect) (simp_all add: is_cstr_def trimmed_def in_cset_def cstr_def tab_def)

section \<open>Command lines\<close>

fun positional :: "arg_item list \<Rightarrow> string list" where
  "positional [] = []"
| "positional (Arg a # items) = a # positional items"
| "positional (Opt k # items) = positional items"

text \<open>Options a command line can hold, with an address where one is asked for.\<close>

fun option_ok :: "opt_key \<Rightarrow> bool" where
  "option_ok (ARGP_KEY_ARG n a) = False"
| "option_ok (ARGP_KEY_END n) = False"
| "option_ok (OPT_LISTEN_IP_COMMAND a) = (inet_pton a \<noteq> None)"
| "option_ok _ = True"

fun item_ok :: "arg_item \<Rightarrow> bool" where
  "item_ok (Arg a) = True"
| "item_ok (Opt k) = option_ok k"

lemma cfg_bit_args [simp]:
  "c_args (cfg_set_bit c n) = c_args c" "c_args (cfg_clear_bit c n) = c_args c"
  by (simp_all add: cfg_set_bit_def cfg_clear_bit_def)

lemma setMaxTransferSpeed_args [simp]: "c_args (setMaxTransferSpeed c v) = c_args c"
  by (auto simp: setMaxTransferSpeed_def Let_def split: option.splits prod.splits scan_value.splits)

lemma option_keeps_args: "option_ok k \<Longrightarrow> \<exists>c'. parse_opt now k c = Inr c' \<and> c_args c' = c_args c"
  by (cases k) (auto simp: set_quiet_loglevel_def set_info_loglevel_def set_warn_loglevel_def
      set_verify_checksum_def set_target_dir_def set_nickname_def set_login_command_def set_port_def
      set_accept_all_nicks_def set_accept_all_certs_def set_dont_confirm_offsets_def
      set_throttle_download_def set_delay_command_def setDelay_def Let_def set_listen_ip_def
      set_listen_port_def set_use_ipv4_def set_use_ipv6_def)

lemma argp_counts:
  "list_all item_ok items \<Longrightarrow> n \<le> 3 \<Longrightarrow> length (c_args c) = 3 \<Longrightarrow>
     (n + length (positional items) = 3 \<longrightarrow>
        (\<exists>c'. argp_parse now n items c = Inr c' \<and> c_args c' = take n (c_args c) @ map Some (positional items)))
     \<and> (n + length (positional items) \<noteq> 3 \<longrightarrow> argp_parse now n items c = Inl (ExitPgm 64))"
proof (induction items arbitrary: n c)
  case Nil
  then show ?case by auto
next
  case (Cons i items)
  show ?case
  proof (cases i)
    case (Opt k)
    then obtain c' where c': "parse_opt now k c = Inr c'" "c_args c' = c_args c"
      using option_keeps_args Cons.prems(1) by fastforce
    then show ?thesis using Cons.IH [of n c'] Cons.prems Opt by auto
  next
    case (Arg a)
    show ?thesis
    proof (cases "n = 3")
      case True
      then show ?thesis using Arg by simp
    next
      case False
      let ?c = "c\<lparr>c_args := (c_args c)[n := Some a]\<rparr>"
      have "take (Suc n) (c_args ?c) = take n (c_args c) @ [Some a]"
        using False Cons.prems by (simp add: take_snoc_update)
      then show ?thesis using Cons.IH [of "Suc n" ?c] Cons.prems Arg False by auto
    qed
  qed
qed

text \<open>A command line with valid options is accepted exactly when it has three arguments, which
  become the server, the channels and the bots, whatever the options between them; with fewer or
  more the program prints its usage and exits.\<close>

theorem command_line_arguments:
  assumes "list_all item_ok items" and "length (c_args c) = 3"
  shows "if length (positional items) = 3
     then \<exists>c'. parseArguments now items c = Inr c' \<and> c_args c' = map Some (positional items)
     else parseArguments now items c = Inl (ExitPgm 64)"
  using argp_counts [OF assms(1) _ assms(2), of 0 now] unfolding parseArguments_def
  by (cases "length (positional items) = 3") auto

theorem command_line_arguments_witness:
  "if length (positional [Opt Key_q, Arg ''irc.net'', Arg ''#c'', Opt (Key_p ''6697''), Arg ''bot xdcc send 1'']) = 3
   then \<exists>c'. parseArguments 0 [Opt Key_q, Arg ''irc.net'', Arg ''#c'', Opt (Key_p ''6697''), Arg ''bot xdcc send 1''] zero_config
       = Inr c' \<and> c_args c' = map Some (positional [Opt Key_q, Arg ''irc.net'', Arg ''#c'', Opt (Key_p ''6697''), Arg ''bot xdcc send 1''])
   else parseArguments 0 [Opt Key_q, Arg ''irc.net'', Arg ''#c'', Opt (Key_p ''6697''), Arg ''bot xdcc send 1''] zero_config
     = Inl (ExitPgm 64)"
  by (rule command_line_arguments) (simp_all add: zero_config_def)

section \<open>Bots and channels\<close>

definition no_edge_blank :: "string \<Rightarrow> bool" where
  "no_edge_blank t \<longleftrightarrow> t = [] \<or> (\<not> in_cset ('' '' @ [tab]) (hd t) \<and> \<not> in_cset ('' '' @ [tab]) (last t))"

definition bot_ok :: "string \<times> string \<Rightarrow> bool" where
  "bot_ok = (\<lambda>(nick, cmd). nick \<noteq> [] \<and> cmd \<noteq> [] \<and> is_cstr (nick @ cmd) \<and> CHR '','' \<notin> set (nick @ cmd)
     \<and> CHR '' '' \<notin> set nick \<and> hd nick \<noteq> tab \<and> last cmd \<noteq> CHR '' '' \<and> last cmd \<noteq> tab)"

definition bot_entry :: "string \<times> string \<Rightarrow> string" where
  "bot_entry = (\<lambda>(nick, cmd). nick @ '' '' @ cmd)"

lemma parseDccDownload_entry:
  "bot_ok (nick, cmd) \<Longrightarrow> parseDccDownload (bot_entry (nick, cmd)) = (nick, cmd @ [NUL])"
proof -
  assume ok: "bot_ok (nick, cmd)"
  have "cstr (nick @ '' '' @ cmd) = nick @ '' '' @ cmd" using ok by (simp add: bot_ok_def cstr_simps)
  moreover have "takeWhile (\<lambda>c. c \<noteq> CHR '' '') (nick @ '' '' @ cmd) = nick"
    using ok by (auto simp: bot_ok_def takeWhile_append)
  ultimately show ?thesis using ok by (simp add: parseDccDownload_def bot_entry_def Let_def)
qed

lemma last_in_cset: "is_cstr t \<Longrightarrow> t \<noteq> [] \<Longrightarrow> last t \<noteq> NUL"
  unfolding is_cstr_def by (metis last_in_set)

lemma entry_trim: "bot_ok b \<Longrightarrow> sdstrim (bot_entry b) ('' '' @ [tab]) = bot_entry b"
proof (cases b)
  case (Pair nick cmd)
  assume ok: "bot_ok b"
  then have "nick \<noteq> []" "cmd \<noteq> []" "last cmd \<noteq> NUL" "hd nick \<noteq> NUL" "hd nick \<noteq> CHR '' ''"
    using last_in_cset [of cmd] by (auto simp: bot_ok_def Pair cstr_simps) (auto simp: is_cstr_def dest: hd_in_set)
  then show ?thesis using ok
    by (intro sdstrim_id) (auto simp: bot_ok_def bot_entry_def Pair in_cset_def cstr_def tab_def)
qed

lemma entry_plain: "bot_ok b \<Longrightarrow> CHR '','' \<notin> set (bot_entry b) \<and> is_cstr (bot_entry b) \<and> bot_entry b \<noteq> []"
  by (cases b) (auto simp: bot_ok_def bot_entry_def cstr_simps)

lemma joined_cstr: "list_all is_cstr ts \<Longrightarrow> c \<noteq> NUL \<Longrightarrow> is_cstr (sdsjoinsds ts [c])"
  by (induction ts "[c]" rule: sdsjoinsds.induct) (auto simp: cstr_simps)

lemma joined_nonempty: "ts \<noteq> [] \<Longrightarrow> hd ts \<noteq> [] \<Longrightarrow> sdsjoinsds ts [c] \<noteq> []"
  by (cases ts; cases "tl ts") auto

text \<open>The third argument gives one download for each bot, in order: for entries \<open>nick command\<close>
  separated by commas the nick is the word before the first blank and the command the rest, stored
  with its terminator.\<close>

theorem downloads_roundtrip:
  assumes "bots \<noteq> []" and "list_all bot_ok bots"
  shows "parseDccDownloads (sdsjoinsds (map bot_entry bots) '','')
     = Inr (Some (map (\<lambda>(nick, cmd). newDccDownload nick (cmd @ [NUL])) bots, length bots))"
proof -
  let ?s = "sdsjoinsds (map bot_entry bots) '',''"
  have e: "\<And>b. b \<in> set bots \<Longrightarrow> CHR '','' \<notin> set (bot_entry b) \<and> is_cstr (bot_entry b) \<and> bot_entry b \<noteq> []"
    using assms(2) entry_plain by (auto simp: list_all_iff)
  have "is_cstr ?s" by (rule joined_cstr) (use e in \<open>auto simp: list_all_iff\<close>)
  then have c: "cstr ?s = ?s" by (rule cstr_id)
  have "?s \<noteq> []" by (rule joined_nonempty) (use assms e in \<open>auto simp: hd_map\<close>)
  then have sp: "sdssplitlen ?s '','' = Inr (Some (map bot_entry bots))"
    by (intro sdssplit_joined) (use e in \<open>auto simp: list_all_iff\<close>)
  have "map (\<lambda>t. case parseDccDownload (sdstrim t ('' '' @ [tab])) of (nick, cmd) \<Rightarrow> newDccDownload nick cmd)
      (map bot_entry bots) = map (\<lambda>(nick, cmd). newDccDownload nick (cmd @ [NUL])) bots"
    using assms(2) entry_trim parseDccDownload_entry by (auto simp: list_all_iff)
  then show ?thesis by (simp add: parseDccDownloads_def c sp)
qed

theorem downloads_roundtrip_witness:
  "parseDccDownloads (sdsjoinsds (map bot_entry [(''bot'', ''xdcc send 1''), (''b2'', ''xdcc send 2'')]) '','')
     = Inr (Some (map (\<lambda>(nick, cmd). newDccDownload nick (cmd @ [NUL])) [(''bot'', ''xdcc send 1''), (''b2'', ''xdcc send 2'')],
         length [(''bot'', ''xdcc send 1''), (''b2'', ''xdcc send 2'')]))"
  by (rule downloads_roundtrip) (simp_all add: bot_ok_def is_cstr_def tab_def)

text \<open>A bot without a command loses its name: the nick is empty and the command is the name
  without its first character.\<close>

theorem bot_without_command:
  assumes "is_cstr nick" and "nick \<noteq> []" and "CHR '' '' \<notin> set nick"
  shows "parseDccDownload nick = ([], tl nick @ [NUL])"
proof -
  have "takeWhile (\<lambda>c. c \<noteq> CHR '' '') nick = nick" using assms(3) by (auto simp: takeWhile_eq_all_conv)
  then show ?thesis using assms by (cases nick) (simp_all add: parseDccDownload_def cstr_id Let_def)
qed

theorem bot_without_command_witness:
  "parseDccDownload ''bot'' = ([], tl ''bot'' @ [NUL])"
  by (rule bot_without_command) (simp_all add: is_cstr_def)

end
