(* ===== verification/Colors.thy ===== *)
theory Colors
  imports World "HOL-Library.Sublist"
begin

text \<open>
  Colour codes, \<open>libircclient-src/colors.c\<close>: the conversion of mIRC control characters into tags,
  or their removal, and the conversion of tags back. Both run twice over the text, once to count
  and once to write, so a second pass that writes more than the first counted leaves its block.
\<close>

section \<open>Control characters to tags\<close>

definition LIBIRC_COLORPARSER_MAXCOLORS :: nat where
  "LIBIRC_COLORPARSER_MAXCOLORS = 15"

definition color_replacement_table :: "string list" where
  "color_replacement_table = [''WHITE'', ''BLACK'', ''DARKBLUE'', ''DARKGREEN'', ''RED'', ''BROWN'',
     ''PURPLE'', ''OLIVE'', ''YELLOW'', ''GREEN'', ''TEAL'', ''CYAN'', ''BLUE'', ''MAGENTA'',
     ''DARKGRAY'', ''LIGHTGRAY'']"

text \<open>The bits of the mask, and what a pass carries from one character to the next.\<close>

record color_state =
  k_bold :: bool
  k_underline :: bool
  k_reverse :: bool
  k_color :: bool
  k_bg :: nat

definition no_mask :: "nat \<Rightarrow> color_state" where
  "no_mask bg = \<lparr>k_bold = False, k_underline = False, k_reverse = False, k_color = False, k_bg = bg\<rparr>"

definition libirc_colorparser_closetags :: "color_state \<Rightarrow> color_state \<times> string" where
  "libirc_colorparser_closetags k = (no_mask (k_bg k),
     (if k_bold k then ''[/B]'' else []) @ (if k_underline k then ''[/U]'' else []) @
     (if k_reverse k then ''[/I]'' else []) @ (if k_color k then ''[/COLOR]'' else []))"

text \<open>\<open>libirc_colorparser_applymask\<close> for each of the three toggles.\<close>

definition apply_bold :: "color_state \<Rightarrow> color_state \<times> string" where
  "apply_bold k = (k\<lparr>k_bold := \<not> k_bold k\<rparr>, if k_bold k then ''[/B]'' else ''[B]'')"

definition apply_underline :: "color_state \<Rightarrow> color_state \<times> string" where
  "apply_underline k = (k\<lparr>k_underline := \<not> k_underline k\<rparr>, if k_underline k then ''[/U]'' else ''[U]'')"

definition apply_reverse :: "color_state \<Rightarrow> color_state \<times> string" where
  "apply_reverse k = (k\<lparr>k_reverse := \<not> k_reverse k\<rparr>, if k_reverse k then ''[/I]'' else ''[I]'')"

definition color_start :: "nat \<Rightarrow> nat \<Rightarrow> string" where
  "color_start color bg =
     (if bg \<noteq> 0 then ''[COLOR='' @ color_replacement_table ! color @ ''/'' @ color_replacement_table ! bg @ '']''
      else ''[COLOR='' @ color_replacement_table ! color @ '']'')"

definition libirc_colorparser_applycolor :: "color_state \<Rightarrow> nat \<Rightarrow> nat \<Rightarrow> color_state \<times> string" where
  "libirc_colorparser_applycolor k color bg =
     (k\<lparr>k_color := True\<rparr>, (if k_color k then ''[/COLOR]'' else []) @ color_start color bg)"

text \<open>A colour number of one or two digits, and the background after a comma.\<close>

definition digit_at :: "string \<Rightarrow> nat \<Rightarrow> bool" where
  "digit_at s i \<longleftrightarrow> i < length s \<and> is_digit (s ! i)"

definition color_number :: "string \<Rightarrow> nat \<times> string" where
  "color_number s =
     (if digit_at s 1 then (digit_value (s ! 0) * 10 + digit_value (s ! 1), drop 2 s)
      else (digit_value (s ! 0), drop 1 s))"

definition background_number :: "string \<Rightarrow> nat option \<times> string" where
  "background_number s =
     (if s \<noteq> [] \<and> hd s = CHR '','' \<and> digit_at s 1
      then (case color_number (drop 1 s) of (n, rest) \<Rightarrow> (Some n, rest))
      else (None, s))"

text \<open>One pass over the text after \<open>p\<close>.\<close>

definition after_color :: "bool \<Rightarrow> color_state \<Rightarrow> string \<Rightarrow> color_state \<times> string \<times> string" where
  "after_color strip k s =
     (if digit_at s 0 then
        (case color_number s of (color, rest) \<Rightarrow>
        (case background_number rest of (bg, rest') \<Rightarrow>
           if color \<le> LIBIRC_COLORPARSER_MAXCOLORS
              \<and> (case bg of None \<Rightarrow> True | Some b \<Rightarrow> b \<le> LIBIRC_COLORPARSER_MAXCOLORS) \<and> \<not> strip
           then (let k = (case bg of None \<Rightarrow> k | Some b \<Rightarrow> k\<lparr>k_bg := b\<rparr>) in
                 case libirc_colorparser_applycolor k color (k_bg k) of (k, out) \<Rightarrow> (k, out, rest'))
           else (k, [], rest')))
      else (k, [], s))"

definition control_char :: "bool \<Rightarrow> color_state \<Rightarrow> char \<Rightarrow> color_state \<times> string" where
  "control_char strip k c =
     (if c = CHR 0x02 then (if strip then (k, []) else apply_bold k)
      else if c = CHR 0x1F then (if strip then (k, []) else apply_underline k)
      else if c = CHR 0x16 then (if strip then (k, []) else apply_reverse k)
      else if c = CHR 0x0F then (if strip then (k, []) else libirc_colorparser_closetags k)
      else (k, [c]))"

lemma color_number_length: "length (snd (color_number s)) \<le> length s"
  by (simp add: color_number_def)

lemma background_number_length: "length (snd (background_number s)) \<le> length s"
  using color_number_length [of "drop 1 s"] by (auto simp: background_number_def split: prod.splits)

lemma after_color_length: "length (snd (snd (after_color strip k s))) \<le> length s"
  using color_number_length [of s] background_number_length [of "snd (color_number s)"]
  by (auto simp: after_color_def Let_def split: prod.splits)

function color_pass :: "bool \<Rightarrow> color_state \<Rightarrow> string \<Rightarrow> color_state \<times> string" where
  "color_pass strip k [] = libirc_colorparser_closetags k"
| "color_pass strip k (c # s) =
     (if c = CHR 0x03 then
        (case after_color strip k s of (k, out, rest) \<Rightarrow>
         case color_pass strip k rest of (k, t) \<Rightarrow> (k, out @ t))
      else
        (case control_char strip k c of (k, out) \<Rightarrow>
         case color_pass strip k s of (k, t) \<Rightarrow> (k, out @ t)))"
  by pat_completeness auto
termination
proof (relation "measure (\<lambda>(strip, k, s). length s)", goal_cases)
  case 1
  show ?case by simp
next
  case prems: 2
  then show ?case using after_color_length by (metis case_prod_conv in_measure le_imp_less_Suc length_Cons snd_conv)
qed auto

text \<open>The second pass starts with the background the first ended with; the block has room for what
  the first counted, terminator included.\<close>

definition libirc_colorparser_irc2code :: "string \<Rightarrow> bool \<Rightarrow> stop + string" where
  "libirc_colorparser_irc2code source strip =
     (case color_pass strip (no_mask 0) (cstr source) of (k, counted) \<Rightarrow>
        let written = snd (color_pass strip k (cstr source)) in
        if length written < length counted + 1 then Inr written else Inl OutOfBounds)"

definition irc_color_strip_from_mirc :: "string \<Rightarrow> stop + string" where
  "irc_color_strip_from_mirc message = libirc_colorparser_irc2code message True"

definition irc_color_convert_from_mirc :: "string \<Rightarrow> stop + string" where
  "irc_color_convert_from_mirc message = libirc_colorparser_irc2code message False"

section \<open>Tags to control characters\<close>

fun index_of :: "string \<Rightarrow> string list \<Rightarrow> nat option" where
  "index_of x [] = None"
| "index_of x (y # ys) = (if x = y then Some 0 else map_option Suc (index_of x ys))"

definition libirc_colorparser_colorlookup :: "string \<Rightarrow> nat option" where
  "libirc_colorparser_colorlookup color = index_of color color_replacement_table"

text \<open>\<open>strchr\<close>: the offset of the first occurrence of a character.\<close>

fun char_index :: "char \<Rightarrow> string \<Rightarrow> nat option" where
  "char_index x [] = None"
| "char_index x (c # cs) = (if c = x then Some 0 else map_option Suc (char_index x cs))"

lemma char_index_less: "char_index x s = Some i \<Longrightarrow> i < length s"
  by (induction s arbitrary: i) (auto split: if_splits)

text \<open>\<open>%02d\<close> of a number below 100.\<close>

definition two_digits :: "nat \<Rightarrow> string" where
  "two_digits n = [digit_char (n div 10), digit_char (n mod 10)]"

text \<open>The replacement of a tag, for a text that starts with its opening bracket, and the offset of
  the closing one.\<close>

definition color_tag :: "string \<Rightarrow> string option" where
  "color_tag spec =
     (case char_index (CHR ''/'') spec of
        None \<Rightarrow> map_option (\<lambda>c. CHR 0x03 # two_digits c) (libirc_colorparser_colorlookup spec)
      | Some i \<Rightarrow>
          (case (libirc_colorparser_colorlookup (take i spec), libirc_colorparser_colorlookup (drop (Suc i) spec)) of
             (Some c, Some b) \<Rightarrow> Some (CHR 0x03 # two_digits c @ '','' @ two_digits b)
           | _ \<Rightarrow> None))"

definition tag_replacement :: "string \<Rightarrow> string option" where
  "tag_replacement tag =
     (if tag = ''/COLOR'' then Some [CHR 0x0F]
      else if prefix_at ''COLOR='' tag then color_tag (drop 6 tag)
      else if tag = ''B'' \<or> tag = ''/B'' then Some [CHR 0x02]
      else if tag = ''U'' \<or> tag = ''/U'' then Some [CHR 0x1F]
      else if tag = ''I'' \<or> tag = ''/I'' then Some [CHR 0x16]
      else None)"

text \<open>The search for the closing bracket is made unless the opening one ends the text; its result
  is used even when the tag's length does not fit.\<close>

definition find_tag :: "string \<Rightarrow> nat option \<times> string option" where
  "find_tag s =
     (if length s \<le> 1 then (None, None)
      else (case char_index (CHR '']'') s of
          None \<Rightarrow> (None, None)
        | Some k \<Rightarrow> (Some k, if 1 < k \<and> k < 31 then tag_replacement (take (k - 1) (drop 1 s)) else None)))"

text \<open>The text left to look at after the terminator was passed is not the message any more.\<close>

function convert_tags :: "string \<Rightarrow> stop + string" where
  "convert_tags cur =
     (case char_index (CHR ''['') cur of
        None \<Rightarrow> Inr cur
      | Some i \<Rightarrow>
          (case find_tag (drop i cur) of
             (Some k, Some val) \<Rightarrow>
               and_then (convert_tags (drop (i + k + 1) cur)) (\<lambda>t. Inr (take i cur @ val @ t))
           | (Some k, None) \<Rightarrow>
               and_then (convert_tags (drop (i + k + 1) cur)) (\<lambda>t. Inr (take (i + k + 1) cur @ t))
           | (None, _) \<Rightarrow> Inl OutOfBounds))"
  by pat_completeness auto
termination
proof (relation "measure length", goal_cases)
  case 1
  show ?case by simp
next
  case prems: 2
  then show ?case using char_index_less by fastforce
next
  case prems: 3
  then show ?case using char_index_less by fastforce
qed

definition irc_color_convert_to_mirc :: "string \<Rightarrow> stop + string" where
  "irc_color_convert_to_mirc source = convert_tags (cstr source)"

section \<open>Removing the codes\<close>

definition control_codes :: "char list" where
  "control_codes = [CHR 0x02, CHR 0x1F, CHR 0x16, CHR 0x0F, CHR 0x03]"

lemma subseq_set: "subseq t s \<Longrightarrow> set t \<subseteq> set s"
  by (auto elim: list_emb_set)

lemma subseq_drop: "subseq t (drop n s) \<Longrightarrow> subseq t s"
  by (metis append_take_drop_id list_emb_append2)

lemma color_number_drop: "\<exists>n. snd (color_number s) = drop n s"
  by (auto simp: color_number_def)

lemma background_number_drop: "\<exists>n. snd (background_number s) = drop n s"
proof -
  obtain n where n: "snd (color_number (drop 1 s)) = drop n (drop 1 s)" using color_number_drop by blast
  have "snd (background_number s) = s \<or> snd (background_number s) = drop (n + 1) s"
    using n by (auto simp: background_number_def split: prod.splits)
  then show ?thesis by (metis drop0)
qed

lemma after_color_strip: "\<exists>n. after_color True k s = (k, [], drop n s)"
proof (cases "digit_at s 0")
  case True
  obtain c r where c: "color_number s = (c, r)" by (cases "color_number s")
  obtain b q where b: "background_number r = (b, q)" by (cases "background_number r")
  obtain n m where "r = drop n s" "q = drop m r"
    using color_number_drop [of s] background_number_drop [of r] c b by auto
  then show ?thesis using True c b by (auto simp: after_color_def)
next
  case False
  then show ?thesis by (auto simp: after_color_def intro: exI [of _ 0])
qed

lemma strip_pass:
  "snd (libirc_colorparser_closetags k) = [] \<Longrightarrow> \<exists>t. color_pass True k s = (fst (libirc_colorparser_closetags k), t)
     \<and> subseq t s \<and> set t \<inter> set control_codes = {}
     \<and> (set s \<inter> set control_codes = {} \<longrightarrow> t = s)"
proof (induction True k s rule: color_pass.induct)
  case (1 k)
  then show ?case by (cases "libirc_colorparser_closetags k") auto
next
  case (2 k c s)
  show ?case
  proof (cases "c = CHR 0x03")
    case True
    obtain n where n: "after_color True k s = (k, [], drop n s)" using after_color_strip by blast
    then obtain t where t: "color_pass True k (drop n s) = (fst (libirc_colorparser_closetags k), t)"
      "subseq t (drop n s)" "set t \<inter> set control_codes = {}"
      using "2.hyps"(1) [OF True n [symmetric] refl "2.prems"] by auto
    then show ?thesis using True n subseq_drop [OF t(2)] by (auto simp: control_codes_def)
  next
    case False
    show ?thesis
    proof (cases "c \<in> set control_codes")
      case True
      then have "control_char True k c = (k, [])" using False by (auto simp: control_char_def control_codes_def)
      then show ?thesis using "2.hyps"(2) [OF False] "2.prems" False True by auto
    next
      case other: False
      then have "control_char True k c = (k, [c])" by (simp add: control_char_def control_codes_def)
      then show ?thesis using "2.hyps"(2) [OF False] "2.prems" False other by auto
    qed
  qed
qed

lemma strip_result:
  "\<exists>t. irc_color_strip_from_mirc m = Inr t \<and> subseq t (cstr m) \<and> set t \<inter> set control_codes = {}
     \<and> (set (cstr m) \<inter> set control_codes = {} \<longrightarrow> t = cstr m)"
proof -
  have k: "libirc_colorparser_closetags (no_mask 0) = (no_mask 0, [])"
    by (simp add: libirc_colorparser_closetags_def no_mask_def)
  obtain t where "color_pass True (no_mask 0) (cstr m) = (no_mask 0, t)" "subseq t (cstr m)"
    "set t \<inter> set control_codes = {}" "set (cstr m) \<inter> set control_codes = {} \<longrightarrow> t = cstr m"
    using strip_pass [of "no_mask 0" "cstr m"] k by auto
  then show ?thesis by (simp add: irc_color_strip_from_mirc_def libirc_colorparser_irc2code_def)
qed

text \<open>Removing the colour codes never leaves its block; the result is the text without the codes:
  characters of the message in their order, none of them a control code, and removing the codes
  again changes nothing.\<close>

theorem irc_color_strip_idempotent:
  "\<exists>t. irc_color_strip_from_mirc m = Inr t \<and> subseq t (cstr m) \<and> set t \<inter> set control_codes = {}
     \<and> irc_color_strip_from_mirc t = Inr t"
proof -
  obtain t where t: "irc_color_strip_from_mirc m = Inr t" "subseq t (cstr m)" "set t \<inter> set control_codes = {}"
    using strip_result by blast
  have "is_cstr t" using subseq_set [OF t(2)] is_cstr_cstr [of m] by (auto simp: is_cstr_def)
  then have "cstr t = t" by (rule cstr_id)
  then have "irc_color_strip_from_mirc t = Inr t" using strip_result [of t] t(3) by auto
  then show ?thesis using t by blast
qed

section \<open>Tags and back\<close>

text \<open>The codes the three toggles of the mask stand for.\<close>

definition pending_toggles :: "color_state \<Rightarrow> string" where
  "pending_toggles k = (if k_bold k then [CHR 0x02] else []) @ (if k_underline k then [CHR 0x1F] else [])
     @ (if k_reverse k then [CHR 0x16] else [])"

text \<open>Texts whose only codes are the toggles, and that hold no bracket.\<close>

definition toggle_text :: "string \<Rightarrow> bool" where
  "toggle_text s \<longleftrightarrow> is_cstr s \<and> CHR 0x03 \<notin> set s \<and> CHR 0x0F \<notin> set s \<and> CHR ''['' \<notin> set s"

definition toggle :: "char \<Rightarrow> color_state \<Rightarrow> color_state" where
  "toggle c k = fst (control_char False k c)"

lemma convert_plain:
  assumes "c \<noteq> CHR ''[''"
  shows "convert_tags (c # s) = and_then (convert_tags s) (\<lambda>t. Inr (c # t))"
proof (cases "char_index (CHR ''['') s")
  case None
  then show ?thesis using assms by (subst (1 2) convert_tags.simps) simp
next
  case (Some i)
  then have "char_index (CHR ''['') (c # s) = Some (Suc i)" using assms by simp
  then show ?thesis using Some
    by (cases "find_tag (drop i s)"; cases "fst (find_tag (drop i s))"; cases "snd (find_tag (drop i s))";
      subst (1 2) convert_tags.simps) (simp_all add: and_then_assoc)
qed

lemma convert_open:
  "convert_tags (CHR ''['' # s) = (case find_tag (CHR ''['' # s) of
      (Some k, Some val) \<Rightarrow> and_then (convert_tags (drop k s)) (\<lambda>t. Inr (val @ t))
    | (Some k, None) \<Rightarrow> and_then (convert_tags (drop k s)) (\<lambda>t. Inr (take (k + 1) (CHR ''['' # s) @ t))
    | (None, _) \<Rightarrow> Inl OutOfBounds)"
  by (subst convert_tags.simps) (auto split: option.splits prod.splits)

lemma convert_toggle_tags:
  "convert_tags (''[B]'' @ s) = and_then (convert_tags s) (\<lambda>t. Inr (CHR 0x02 # t))"
  "convert_tags (''[/B]'' @ s) = and_then (convert_tags s) (\<lambda>t. Inr (CHR 0x02 # t))"
  "convert_tags (''[U]'' @ s) = and_then (convert_tags s) (\<lambda>t. Inr (CHR 0x1F # t))"
  "convert_tags (''[/U]'' @ s) = and_then (convert_tags s) (\<lambda>t. Inr (CHR 0x1F # t))"
  "convert_tags (''[I]'' @ s) = and_then (convert_tags s) (\<lambda>t. Inr (CHR 0x16 # t))"
  "convert_tags (''[/I]'' @ s) = and_then (convert_tags s) (\<lambda>t. Inr (CHR 0x16 # t))"
  by (simp_all add: convert_open find_tag_def tag_replacement_def del: convert_tags.simps)

lemma convert_none [simp]: "convert_tags [] = Inr []"
  by simp

declare convert_tags.simps [simp del]

lemma convert_closed:
  "\<not> k_color k \<Longrightarrow> convert_tags (snd (libirc_colorparser_closetags k)) = Inr (pending_toggles k)"
proof -
  assume k: "\<not> k_color k"
  have last: "convert_tags ''[/B]'' = Inr [CHR 0x02]" "convert_tags ''[/U]'' = Inr [CHR 0x1F]"
    "convert_tags ''[/I]'' = Inr [CHR 0x16]"
    using convert_toggle_tags(2,4,6) [of "[]"] by simp_all
  show ?thesis using k last convert_toggle_tags(2) [of "''[/U]''"] convert_toggle_tags(2) [of "''[/I]''"]
      convert_toggle_tags(4) [of "''[/I]''"] convert_toggle_tags(2) [of "''[/U][/I]''"]
    by (auto simp: libirc_colorparser_closetags_def pending_toggles_def)
qed

lemma toggle_pass:
  "\<not> k_color k \<Longrightarrow> toggle_text s \<Longrightarrow> \<exists>out. color_pass False k s = (no_mask (k_bg k), out)
     \<and> convert_tags out = Inr (s @ pending_toggles (fold toggle s k)) \<and> is_cstr out"
proof (induction s arbitrary: k)
  case Nil
  obtain k' out where o: "libirc_colorparser_closetags k = (k', out)" by (cases "libirc_colorparser_closetags k")
  have "is_cstr out" using o by (auto simp: libirc_colorparser_closetags_def is_cstr_def)
  then show ?case using convert_closed [OF Nil(1)] o by (auto simp: libirc_colorparser_closetags_def)
next
  case (Cons c s)
  have c: "c \<noteq> CHR 0x03" "c \<noteq> CHR 0x0F" "c \<noteq> CHR ''[''" "c \<noteq> NUL" and s: "toggle_text s"
    using Cons.prems(2) by (auto simp: toggle_text_def is_cstr_def)
  have same: "\<not> k_color (toggle c k)" "k_bg (toggle c k) = k_bg k"
    using Cons.prems(1) c by (auto simp: toggle_def control_char_def apply_bold_def apply_underline_def apply_reverse_def)
  obtain out where out: "color_pass False (toggle c k) s = (no_mask (k_bg k), out)"
    "convert_tags out = Inr (s @ pending_toggles (fold toggle s (toggle c k)))" "is_cstr out"
    using Cons.IH [OF same(1) s] same(2) by auto
  obtain t where t: "control_char False k c = (toggle c k, t)" by (cases "control_char False k c") (auto simp: toggle_def)
  have "color_pass False k (c # s) = (no_mask (k_bg k), t @ out)" using c(1) t out(1) by simp
  moreover have "convert_tags (t @ out) = Inr (c # s @ pending_toggles (fold toggle s (toggle c k)))"
  proof -
    have "convert_tags (t @ out) = and_then (convert_tags out) (\<lambda>r. Inr (c # r))"
      using t c convert_plain [OF c(3), of out] convert_toggle_tags [of out]
      by (auto simp: control_char_def apply_bold_def apply_underline_def apply_reverse_def split: if_splits)
    then show ?thesis using out(2) by simp
  qed
  moreover have "is_cstr (t @ out)" using t c out(3)
    by (auto simp: control_char_def apply_bold_def apply_underline_def apply_reverse_def is_cstr_def split: if_splits)
  ultimately show ?case by (intro exI [of _ "t @ out"]) simp
qed



lemma plain_pass:
  "set t \<inter> set control_codes = {} \<Longrightarrow> color_pass strip k (t @ s) = (case color_pass strip k s of (k, out) \<Rightarrow> (k, t @ out))"
  by (induction t) (auto simp: control_codes_def control_char_def split: prod.splits)

lemma two_digit_color:
  "n \<le> 99 \<Longrightarrow> color_number (two_digits n @ s) = (n, s)"
  "n \<le> 99 \<Longrightarrow> digit_at (two_digits n @ s) 0" "n \<le> 99 \<Longrightarrow> digit_at (two_digits n @ s) 1"
  by (simp_all add: color_number_def two_digits_def digit_at_def is_digit_digit_char digit_value_digit_char)

lemma color_pass_number:
  assumes "n \<le> 15" and "s \<noteq> [] \<Longrightarrow> hd s \<noteq> CHR '',''" and "\<not> k_color k"
  shows "color_pass False k (CHR 0x03 # two_digits n @ s) = (case color_pass False (k\<lparr>k_color := True\<rparr>) s of
     (k', out) \<Rightarrow> (k', color_start n (k_bg k) @ out))"
  using assms by (auto simp: after_color_def two_digit_color background_number_def libirc_colorparser_applycolor_def
      LIBIRC_COLORPARSER_MAXCOLORS_def split: prod.splits)

lemma color_pass_background:
  assumes "n \<le> 15" and "g \<le> 15" and "k_color k" and "k_bg k = old"
  shows "color_pass False k (CHR 0x03 # two_digits n @ '','' @ two_digits g) =
     (no_mask g, ''[/COLOR]'' @ color_start n g @ snd (libirc_colorparser_closetags (k\<lparr>k_bg := g\<rparr>)))"
  using assms two_digit_color(1) [of n "'','' @ two_digits g"] two_digit_color(1) [of g "[]"] two_digit_color(2,3) [of g "[]"]
    two_digit_color(2) [of n "'','' @ two_digits g"]
  by (auto simp: after_color_def background_number_def libirc_colorparser_applycolor_def digit_at_def
      LIBIRC_COLORPARSER_MAXCOLORS_def libirc_colorparser_closetags_def no_mask_def split: prod.splits)

text \<open>A background colour after a text in another colour makes the second pass write more than
  the first counted: the message is written past its block.\<close>

theorem color_background_overflows:
  assumes "a \<le> 15" and "b \<le> 15" and "0 < g" and "g \<le> 15" and "set t \<inter> set control_codes = {}"
    and "is_cstr t" and "t \<noteq> []" and "hd t \<noteq> CHR '',''"
  shows "irc_color_convert_from_mirc (CHR 0x03 # two_digits a @ t @ CHR 0x03 # two_digits b @ '','' @ two_digits g)
     = Inl OutOfBounds"
proof -
  let ?tail = "CHR 0x03 # two_digits b @ '','' @ two_digits g"
  let ?m = "CHR 0x03 # two_digits a @ t @ ?tail"
  have nul: "digit_char d \<noteq> NUL" if "d < 10" for d
    using is_digit_digit_char [OF that] by (auto simp: is_digit_def char_code_def)
  have digits: "is_cstr (two_digits n)" if "n \<le> 99" for n
  proof -
    have "n div 10 < 10" "n mod 10 < 10" using that by auto
    then show ?thesis using nul [of "n div 10"] nul [of "n mod 10"] by (auto simp: is_cstr_def two_digits_def)
  qed
  have m: "cstr ?m = ?m"
    using digits [of a] digits [of b] digits [of g] assms by (intro cstr_id) (simp add: cstr_simps)
  have pass: "color_pass False (no_mask bg) ?m = (no_mask g, color_start a bg @ t @
      ''[/COLOR]'' @ color_start b g @ ''[/COLOR]'')" for bg
  proof -
    have "color_pass False (no_mask bg) ?m = (case color_pass False ((no_mask bg)\<lparr>k_color := True\<rparr>) (t @ ?tail) of
        (k', out) \<Rightarrow> (k', color_start a (k_bg (no_mask bg)) @ out))"
      by (rule color_pass_number) (use assms in \<open>auto simp: no_mask_def hd_append\<close>)
    also have "color_pass False ((no_mask bg)\<lparr>k_color := True\<rparr>) (t @ ?tail)
       = (no_mask g, t @ ''[/COLOR]'' @ color_start b g @ ''[/COLOR]'')"
      unfolding plain_pass [OF assms(5)] using assms(2,4)
      by (subst color_pass_background) (simp_all add: no_mask_def libirc_colorparser_closetags_def)
    finally show ?thesis by (simp add: no_mask_def)
  qed
  have "length (color_start a 0) < length (color_start a g)" using assms(3) by (simp add: color_start_def)
  then show ?thesis
    unfolding irc_color_convert_from_mirc_def libirc_colorparser_irc2code_def m pass Let_def prod.case snd_conv
    by simp
qed

theorem color_background_overflows_witness:
  "irc_color_convert_from_mirc (CHR 0x03 # two_digits 4 @ ''hi'' @ CHR 0x03 # two_digits 1 @ '','' @ two_digits 8)
     = Inl OutOfBounds"
  by (rule color_background_overflows) (simp_all add: control_codes_def is_cstr_def)

end
