(* ===== verification/Files.thy ===== *)
theory Files
  imports Settings Colors
begin

text \<open>
  The application's state and its files. A file is a path with its content; an open file
  (\<open>file.h\<close>, built with \<open>FILE_API\<close>) is written at its position, or at the end when it was opened
  for appending. The state keeps every download context that was allocated, a pointer being its
  index, and the variables of \<open>xdccget.c\<close>.
\<close>

section \<open>State\<close>

record file_io =
  f_path :: string
  f_append :: bool
  f_pos :: nat

text \<open>\<open>fd\<close> of a context: not assigned yet, \<open>NULL\<close>, or an open file.\<close>

datatype fd_slot = FdUnset | FdNull | FdOpen file_io

record dccDownloadContext =
  x_progress :: dccDownloadProgress
  x_fd :: fd_slot

record app =
  a_contexts :: "dccDownloadContext list"
  a_downloadContext :: "nat option list"
  a_numActiveDownloads :: nat
  a_finishedDownloads :: nat
  a_lastDownload :: "nat option"
  a_curDownload :: "nat option"
  a_sleepTime :: nat
  a_alarm :: nat
  a_files :: "string \<Rightarrow> string option"
  a_dirs :: "string \<Rightarrow> bool"
  a_checksums :: "(string \<times> string) list"

type_synonym app_world = "app world"

definition on_app :: "(app \<Rightarrow> app) \<Rightarrow> app_world \<Rightarrow> app_world" where
  "on_app f w = w\<lparr>w_app := f (w_app w)\<rparr>"

definition on_context :: "nat \<Rightarrow> (dccDownloadContext \<Rightarrow> dccDownloadContext) \<Rightarrow> app_world \<Rightarrow> app_world" where
  "on_context i f w = on_app (\<lambda>a. a\<lparr>a_contexts := (a_contexts a)[i := f (a_contexts a ! i)]\<rparr>) w"

lemma on_app_sel [simp]:
  "w_app (on_app f w) = f (w_app w)" "w_session (on_app f w) = w_session w" "w_cfg (on_app f w) = w_cfg w"
  "w_os (on_app f w) = w_os w" "w_heap (on_app f w) = w_heap w" "w_result (on_app f w) = w_result w"
  by (simp_all add: on_app_def)

lemma on_context_sel [simp]:
  "w_session (on_context i f w) = w_session w" "w_cfg (on_context i f w) = w_cfg w"
  "w_os (on_context i f w) = w_os w" "w_heap (on_context i f w) = w_heap w"
  "w_result (on_context i f w) = w_result w"
  by (simp_all add: on_context_def)

section \<open>Leaving the program\<close>

text \<open>\<open>doCleanUp\<close> closes the files of unfinished downloads; a context whose file was never assigned
  holds whatever \<open>malloc\<close> left there. The result is the fault it runs into.\<close>

fun cleanup_contexts :: "dccDownloadContext list \<Rightarrow> nat option list \<Rightarrow> stop option" where
  "cleanup_contexts cs [] = None"
| "cleanup_contexts cs (None # ps) = None"
| "cleanup_contexts cs (Some i # ps) =
     (let c = cs ! i in
      if sizeRcvd (x_progress c) \<noteq> completeFileSize (x_progress c) \<and> x_fd c = FdUnset
      then Some Uninitialised else cleanup_contexts cs ps)"

definition doCleanUp :: "app_world \<Rightarrow> stop option" where
  "doCleanUp w = cleanup_contexts (a_contexts (w_app w))
     (take (c_numDownloads (w_cfg w)) (a_downloadContext (w_app w)))"

definition exitPgm :: "int \<Rightarrow> app_world \<Rightarrow> stop" where
  "exitPgm retCode w = (case doCleanUp w of None \<Rightarrow> ExitPgm retCode | Some f \<Rightarrow> f)"

definition EXIT_FAILURE :: int where
  "EXIT_FAILURE = 1"

section \<open>Files\<close>

datatype open_mode = ModeRead | ModeWrite | ModeAppend

text \<open>\<open>fopen\<close> fails when the system says so, or when a file to read is missing; for writing it empties
  the file, for appending it makes a missing one.\<close>

definition file_Open :: "string \<Rightarrow> open_mode \<Rightarrow> app_world \<Rightarrow> stop + (file_io \<times> app_world)" where
  "file_Open path m w =
     (case os_ret w of (r, w) \<Rightarrow>
        if r < 0 \<or> (m = ModeRead \<and> a_files (w_app w) path = None) then Inl (exitPgm EXIT_FAILURE w)
        else (let old = (case (m, a_files (w_app w) path) of
              (ModeWrite, _) \<Rightarrow> [] | (_, Some t) \<Rightarrow> t | (_, None) \<Rightarrow> []) in
          Inr (\<lparr>f_path = path, f_append = (m = ModeAppend), f_pos = 0\<rparr>,
               on_app (\<lambda>a. a\<lparr>a_files := (a_files a)(path \<mapsto> old)\<rparr>) w)))"

text \<open>Writing past the end leaves zero bytes between.\<close>

definition write_at :: "string \<Rightarrow> nat \<Rightarrow> string \<Rightarrow> string" where
  "write_at t pos xs = take pos (t @ replicate (pos - length t) NUL) @ xs @ drop (pos + length xs) t"

definition file_content :: "app_world \<Rightarrow> string \<Rightarrow> string" where
  "file_content w path = (case a_files (w_app w) path of None \<Rightarrow> [] | Some t \<Rightarrow> t)"

text \<open>The file of a context. What is not a context holds no file that was assigned.\<close>

definition fd_of :: "nat \<Rightarrow> app_world \<Rightarrow> fd_slot" where
  "fd_of i w = (if i < length (a_contexts (w_app w)) then x_fd (a_contexts (w_app w) ! i) else FdUnset)"

definition file_Write :: "nat \<Rightarrow> string \<Rightarrow> app_world \<Rightarrow> stop + app_world" where
  "file_Write i xs w =
     (case fd_of i w of
        FdUnset \<Rightarrow> Inl Uninitialised
      | FdNull \<Rightarrow> Inl NullDeref
      | FdOpen f \<Rightarrow>
         (case os_ret w of (r, w) \<Rightarrow>
           if r < 0 then Inl (exitPgm EXIT_FAILURE w)
           else (let t = file_content w (f_path f);
                     pos = (if f_append f then length t else f_pos f) in
                 Inr (on_app (\<lambda>a. a\<lparr>a_files := (a_files a)(f_path f \<mapsto> write_at t pos xs)\<rparr>)
                       (on_context i (\<lambda>c. c\<lparr>x_fd := FdOpen (f\<lparr>f_pos := pos + length xs\<rparr>)\<rparr>) w)))))"

definition file_Seek :: "nat \<Rightarrow> nat \<Rightarrow> app_world \<Rightarrow> stop + app_world" where
  "file_Seek i offset w =
     (case fd_of i w of
        FdUnset \<Rightarrow> Inl Uninitialised
      | FdNull \<Rightarrow> Inl NullDeref
      | FdOpen f \<Rightarrow>
         (case os_ret w of (r, w) \<Rightarrow>
           if r < 0 then Inl (exitPgm EXIT_FAILURE w)
           else Inr (on_context i (\<lambda>c. c\<lparr>x_fd := FdOpen (f\<lparr>f_pos := offset\<rparr>)\<rparr>) w)))"

text \<open>\<open>fread\<close> of a regular file gives the bytes that are left, up to the count.\<close>

definition file_Read :: "file_io \<Rightarrow> nat \<Rightarrow> app_world \<Rightarrow> string \<times> file_io" where
  "file_Read f n w =
     (let xs = take n (drop (f_pos f) (file_content w (f_path f))) in (xs, f\<lparr>f_pos := f_pos f + length xs\<rparr>))"

text \<open>\<open>Close\<close> followed by the caller's assignment of \<open>NULL\<close>.\<close>

definition file_Close :: "nat \<Rightarrow> app_world \<Rightarrow> stop + app_world" where
  "file_Close i w =
     (case fd_of i w of
        FdUnset \<Rightarrow> Inl Uninitialised
      | FdNull \<Rightarrow> Inr w
      | FdOpen f \<Rightarrow>
         (case os_ret w of (r, w) \<Rightarrow>
           if r < 0 then Inl (exitPgm EXIT_FAILURE w)
           else Inr (on_context i (\<lambda>c. c\<lparr>x_fd := FdNull\<rparr>) w)))"

section \<open>Reading a whole file\<close>

definition FILE_READ_BUFFER_SIZE :: nat where
  "FILE_READ_BUFFER_SIZE = 8192"

text \<open>\<open>readFile\<close> hands the pieces to a callback until one is not full; the callback may not return.\<close>

function read_pieces :: "(string \<Rightarrow> 'c \<Rightarrow> 'c option) \<Rightarrow> file_io \<Rightarrow> app_world \<Rightarrow> 'c \<Rightarrow> 'c option" where
  "read_pieces callback f w ctx =
     (case file_Read f FILE_READ_BUFFER_SIZE w of (xs, f') \<Rightarrow>
        Option.bind (callback xs ctx) (\<lambda>ctx.
          if length xs = FILE_READ_BUFFER_SIZE then read_pieces callback f' w ctx else Some ctx))"
  by pat_completeness auto
termination
  by (relation "measure (\<lambda>(cb, f, w, ctx). length (file_content w (f_path f)) - f_pos f)")
    (auto simp: file_Read_def Let_def FILE_READ_BUFFER_SIZE_def)

declare read_pieces.simps [simp del]

definition readFile :: "string \<Rightarrow> (string \<Rightarrow> 'c \<Rightarrow> 'c option) \<Rightarrow> 'c \<Rightarrow> app_world \<Rightarrow> stop + ('c option \<times> app_world)" where
  "readFile filename callback ctx w =
     and_then (file_Open filename ModeRead w) (\<lambda>(f, w).
     let r = read_pieces callback f w ctx in
     case os_ret w of (rc, w) \<Rightarrow> if rc < 0 then Inl (exitPgm EXIT_FAILURE w) else Inr (r, w))"

text \<open>\<open>readTextFile\<close>: every piece is cut at its first terminator.\<close>

definition TextReaderCallback :: "string \<Rightarrow> string \<Rightarrow> string option" where
  "TextReaderCallback xs content = Some (content @ cstr xs)"

definition readTextFile :: "string \<Rightarrow> app_world \<Rightarrow> stop + (string option \<times> app_world)" where
  "readTextFile filePath w = readFile filePath TextReaderCallback [] w"

definition file_exists :: "app_world \<Rightarrow> string \<Rightarrow> bool" where
  "file_exists w path \<longleftrightarrow> a_files (w_app w) path \<noteq> None"

definition dir_exists :: "app_world \<Rightarrow> string \<Rightarrow> bool" where
  "dir_exists w path \<longleftrightarrow> a_dirs (w_app w) path"

definition get_file_size :: "app_world \<Rightarrow> string \<Rightarrow> nat" where
  "get_file_size w path = size_t (length (file_content w path))"

end
