(* ===== verification/Dcc_Lists.thy ===== *)
theory Dcc_Lists
  imports Dcc
begin

text \<open>
  The session list under the operations of \<open>dcc.c\<close>: which sessions an operation keeps, how deep
  it leaves the lock, and what the processing loop needs of the client's callbacks, stated as
  the interface \<open>dcc_client\<close>.
\<close>

section \<open>Looking sessions up\<close>

lemma find_exists: "(\<exists>d. find P xs = Some d) \<longleftrightarrow> (\<exists>d \<in> set xs. P d)"
  by (induction xs) auto

lemma dcc_at_some_iff: "(\<exists>d. dcc_at s i = Some d) \<longleftrightarrow> i \<in> d_id ` set (s_dcc_sessions s)"
  unfolding dcc_at_def find_exists by auto

lemma dcc_at_id: "dcc_at s i = Some d \<Longrightarrow> d_id d = i \<and> d \<in> set (s_dcc_sessions s)"
  by (auto simp: dcc_at_def find_Some_iff)

lemma find_map_id:
  "(\<And>x. d_id (f x) = d_id x) \<Longrightarrow>
     find (\<lambda>d. d_id d = i) (map (\<lambda>d. if d_id d = j then f d else d) xs) =
     map_option (\<lambda>d. if i = j then f d else d) (find (\<lambda>d. d_id d = i) xs)"
  by (induction xs) auto

lemma dcc_at_upd:
  "(\<And>x. d_id (f x) = d_id x) \<Longrightarrow>
     dcc_at (upd_dcc j f s) i = map_option (\<lambda>d. if i = j then f d else d) (dcc_at s i)"
  by (simp add: dcc_at_def upd_dcc_def find_map_id)

lemma dcc_at_frame [simp]:
  "dcc_at (lock_dcc s) i = dcc_at s i" "dcc_at (unlock_dcc s) i = dcc_at s i"
  "dcc_at (set_error e s) i = dcc_at s i"
  by (simp_all add: dcc_at_def lock_dcc_def unlock_dcc_def set_error_def)

lemma dcc_at_set_state:
  "dcc_at (set_dcc_state j st s) i = map_option (\<lambda>d. if i = j then d\<lparr>d_state := st\<rparr> else d) (dcc_at s i)"
  by (simp add: set_dcc_state_def dcc_at_upd)

lemma lock_unlock [simp]: "unlock_dcc (lock_dcc s) = s" "lock_dcc (unlock_dcc s) = s"
  by (simp_all add: lock_dcc_def unlock_dcc_def)

lemma find_session_true:
  "libirc_find_dcc_session s i True = (case dcc_at s i of None \<Rightarrow> (s, None) | Some d \<Rightarrow> (lock_dcc s, Some d))"
  by (auto simp: libirc_find_dcc_session_def find_dcc_def dcc_at_def lock_dcc_def unlock_dcc_def Let_def
      split: option.splits)

lemma find_session_false: "libirc_find_dcc_session s i False = (s, dcc_at s i)"
  by (simp add: libirc_find_dcc_session_def find_dcc_def dcc_at_def Let_def)

lemma destroy_nolock_eq:
  "libirc_dcc_destroy_nolock s i = upd_dcc i (\<lambda>d. d\<lparr>d_sock := -1, d_state := LIBIRC_STATE_REMOVED\<rparr>) s"
proof (cases "dcc_at s i")
  case None
  then have "\<forall>d \<in> set (s_dcc_sessions s). d_id d \<noteq> i" by (auto simp: dcc_at_def find_None_iff)
  then have "map (\<lambda>d. if d_id d = i then f d else d) (s_dcc_sessions s) = s_dcc_sessions s" for f
    by (intro map_idI) auto
  then show ?thesis using None
    by (simp add: libirc_dcc_destroy_nolock_def find_session_false upd_dcc_def)
qed (simp add: libirc_dcc_destroy_nolock_def find_session_false)

section \<open>What an operation keeps\<close>

text \<open>The lock is as deep as before, every session is still there, new ones in front, and a
  session that had a callback has one.\<close>

definition has_cb :: "irc_session \<Rightarrow> nat \<Rightarrow> bool" where
  "has_cb s i \<longleftrightarrow> (\<exists>d. dcc_at s i = Some d \<and> d_cb d \<noteq> None)"

definition keeps_dcc :: "irc_session \<Rightarrow> irc_session \<Rightarrow> bool" where
  "keeps_dcc s t \<longleftrightarrow> s_mutex_dcc t = s_mutex_dcc s
     \<and> (\<exists>new. map d_id (s_dcc_sessions t) = new @ map d_id (s_dcc_sessions s))
     \<and> (\<forall>i. has_cb s i \<longrightarrow> has_cb t i)"

lemma has_cb_frame [simp]:
  "has_cb (lock_dcc s) i = has_cb s i" "has_cb (unlock_dcc s) i = has_cb s i"
  "has_cb (set_error e s) i = has_cb s i"
  by (simp_all add: has_cb_def)

lemma has_cb_cong: "s_dcc_sessions t = s_dcc_sessions s \<Longrightarrow> has_cb t i = has_cb s i"
  by (simp add: has_cb_def dcc_at_def)

lemma keeps_refl [simp]: "keeps_dcc s s"
  by (simp add: keeps_dcc_def)

lemma keeps_trans: "keeps_dcc s t \<Longrightarrow> keeps_dcc t u \<Longrightarrow> keeps_dcc s u"
  by (auto simp: keeps_dcc_def)

lemma keeps_at: "keeps_dcc s t \<Longrightarrow> dcc_at s i = Some d \<Longrightarrow> \<exists>d'. dcc_at t i = Some d'"
proof -
  assume k: "keeps_dcc s t" and "dcc_at s i = Some d"
  then have "i \<in> set (map d_id (s_dcc_sessions s))" using dcc_at_some_iff [of s i] by auto
  moreover obtain new where "map d_id (s_dcc_sessions t) = new @ map d_id (s_dcc_sessions s)"
    using k by (auto simp: keeps_dcc_def)
  ultimately have "i \<in> set (map d_id (s_dcc_sessions t))" by simp
  then show ?thesis using dcc_at_some_iff [of t i] by auto
qed

lemma keeps_cb: "keeps_dcc s t \<Longrightarrow> has_cb s i \<Longrightarrow> has_cb t i"
  by (simp add: keeps_dcc_def)

lemma has_cb_upd:
  "(\<And>x. d_id (f x) = d_id x) \<Longrightarrow> (\<And>x. d_cb x \<noteq> None \<Longrightarrow> d_cb (f x) \<noteq> None) \<Longrightarrow>
     has_cb s j \<Longrightarrow> has_cb (upd_dcc i f s) j"
  unfolding has_cb_def by (elim exE conjE, rule_tac x = "if j = i then f d else d" in exI)
    (simp add: dcc_at_upd)

lemma keeps_upd:
  assumes "\<And>x. d_id (f x) = d_id x" and "\<And>x. d_cb x \<noteq> None \<Longrightarrow> d_cb (f x) \<noteq> None"
  shows "keeps_dcc s (upd_dcc i f s)"
proof -
  have "map d_id (s_dcc_sessions (upd_dcc i f s)) = map d_id (s_dcc_sessions s)"
    using assms(1) by (simp add: upd_dcc_def)
  moreover have "s_mutex_dcc (upd_dcc i f s) = s_mutex_dcc s" by (simp add: upd_dcc_def)
  ultimately show ?thesis using has_cb_upd [of f s _ i] assms by (auto simp: keeps_dcc_def)
qed

lemma keeps_state: "keeps_dcc s (set_dcc_state i st s)"
  unfolding set_dcc_state_def by (rule keeps_upd) simp_all

lemma keeps_destroy: "keeps_dcc s (libirc_dcc_destroy_nolock s i)"
  unfolding destroy_nolock_eq by (rule keeps_upd) simp_all

lemma keeps_error [simp]: "keeps_dcc s (set_error e s)"
  by (simp add: keeps_dcc_def) (simp add: set_error_def)

lemma keeps_raw: "keeps_dcc s (fst (irc_send_raw s m))"
  using has_cb_cong [OF send_raw_frame(5)] by (simp add: keeps_dcc_def send_raw_frame)

lemma ctcp_request_cases:
  "(\<exists>m. fst (irc_cmd_ctcp_request s n t) = fst (irc_send_raw s m))
     \<or> fst (irc_cmd_ctcp_request s n t) = set_error LIBIRC_ERR_STATE s"
  by (cases n; cases t) (auto simp: irc_cmd_ctcp_request_def state_error_def set_error_def)

lemma keeps_ctcp: "keeps_dcc s (fst (irc_cmd_ctcp_request s n t))"
  using ctcp_request_cases [of s n t] keeps_raw keeps_error by metis

text \<open>A section between locking and unlocking.\<close>

lemma lock_frame [simp]:
  "s_dcc_sessions (lock_dcc s) = s_dcc_sessions s" "s_dcc_sessions (unlock_dcc s) = s_dcc_sessions s"
  "s_mutex_dcc (lock_dcc s) = s_mutex_dcc s + 1" "s_mutex_dcc (unlock_dcc s) = s_mutex_dcc s - 1"
  by (simp_all add: lock_dcc_def unlock_dcc_def)

lemma keeps_unlocked: "keeps_dcc (lock_dcc s) t \<Longrightarrow> keeps_dcc s (unlock_dcc t)"
  by (simp add: keeps_dcc_def)

lemma keeps_locked: "keeps_dcc (unlock_dcc s) t \<Longrightarrow> keeps_dcc s (lock_dcc t)"
  by (simp add: keeps_dcc_def)

section \<open>Sessions that transfer have a callback\<close>

definition active_state :: "libirc_state \<Rightarrow> bool" where
  "active_state st \<longleftrightarrow> st = LIBIRC_STATE_CONNECTING \<or> st = LIBIRC_STATE_CONNECTED
     \<or> st = LIBIRC_STATE_CONFIRM_SIZE \<or> st = LIBIRC_STATE_INIT_PASSIVE"

definition callbacks_set :: "irc_session \<Rightarrow> bool" where
  "callbacks_set s \<longleftrightarrow> (\<forall>d \<in> set (s_dcc_sessions s). active_state (d_state d) \<longrightarrow> d_cb d \<noteq> None)"

lemma callbacks_set_frame [simp]:
  "callbacks_set (lock_dcc s) = callbacks_set s" "callbacks_set (unlock_dcc s) = callbacks_set s"
  "callbacks_set (set_error e s) = callbacks_set s"
  by (simp_all add: callbacks_set_def lock_dcc_def unlock_dcc_def set_error_def)

lemma callbacks_set_upd:
  assumes "callbacks_set s"
    and "\<And>d. d \<in> set (s_dcc_sessions s) \<Longrightarrow> d_id d = i \<Longrightarrow> active_state (d_state (f d)) \<Longrightarrow> d_cb (f d) \<noteq> None"
  shows "callbacks_set (upd_dcc i f s)"
  using assms by (auto simp: callbacks_set_def upd_dcc_def)

lemma callbacks_set_destroy: "callbacks_set s \<Longrightarrow> callbacks_set (libirc_dcc_destroy_nolock s i)"
  unfolding destroy_nolock_eq by (rule callbacks_set_upd) (simp_all add: active_state_def)

lemma callbacks_set_raw: "callbacks_set s \<Longrightarrow> callbacks_set (fst (irc_send_raw s m))"
  by (simp add: callbacks_set_def send_raw_frame)

lemma callbacks_set_ctcp: "callbacks_set s \<Longrightarrow> callbacks_set (fst (irc_cmd_ctcp_request s n t))"
  using ctcp_request_cases [of s n t] callbacks_set_raw callbacks_set_frame(3) by metis

section \<open>The client's side of the interface\<close>

text \<open>
  What the processing loop needs of the callbacks: they keep the list and the lock, and every
  session that transfers keeps a callback. With unique ids this holds of the operations of
  \<open>dcc.c\<close> a callback may call.
\<close>

definition dcc_inv :: "irc_session \<Rightarrow> bool" where
  "dcc_inv s \<longleftrightarrow> callbacks_set s \<and> distinct (map d_id (s_dcc_sessions s))"

lemma dcc_inv_frame [simp]:
  "dcc_inv (lock_dcc s) = dcc_inv s" "dcc_inv (unlock_dcc s) = dcc_inv s"
  by (simp_all add: dcc_inv_def lock_dcc_def unlock_dcc_def callbacks_set_def)

lemma upd_dcc_ids: "(\<And>x. d_id (f x) = d_id x) \<Longrightarrow>
    map d_id (s_dcc_sessions (upd_dcc i f s)) = map d_id (s_dcc_sessions s)"
  by (simp add: upd_dcc_def)

lemma dcc_inv_unique: "dcc_inv s \<Longrightarrow> d \<in> set (s_dcc_sessions s) \<Longrightarrow> dcc_at s (d_id d) = Some d"
  unfolding dcc_inv_def dcc_at_def
proof (elim conjE, induction "s_dcc_sessions s" arbitrary: s)
  case Nil
  then show ?case by simp
next
  case (Cons x xs)
  have "find (\<lambda>e. d_id e = d_id d) xs = Some d" if "d \<in> set xs"
    using Cons(1) [of "s\<lparr>s_dcc_sessions := xs\<rparr>"] Cons(2-) that
    by (auto simp: callbacks_set_def Cons(2) [symmetric])
  then show ?case using Cons(2-) by (auto simp: Cons(2) [symmetric])
qed

lemma dcc_inv_upd:
  assumes "dcc_inv s" and "\<And>x. d_id (f x) = d_id x"
    and "\<And>d. dcc_at s i = Some d \<Longrightarrow> active_state (d_state (f d)) \<Longrightarrow> d_cb (f d) \<noteq> None"
  shows "dcc_inv (upd_dcc i f s)"
proof -
  have "callbacks_set (upd_dcc i f s)"
    using assms(1,3) dcc_inv_unique [OF assms(1)]
    by (intro callbacks_set_upd) (auto simp: dcc_inv_def)
  then show ?thesis using assms(1) upd_dcc_ids [of f i s, OF assms(2)] by (simp add: dcc_inv_def)
qed

lemma dcc_inv_destroy: "dcc_inv s \<Longrightarrow> dcc_inv (libirc_dcc_destroy_nolock s i)"
  unfolding destroy_nolock_eq by (rule dcc_inv_upd) (simp_all add: active_state_def)

locale dcc_client =
  fixes cbs :: "'a irc_callbacks"
  assumes cb_keeps: "dcc_cb cbs f i st c d n w = Inr w' \<Longrightarrow> dcc_inv (w_session w) \<Longrightarrow>
      keeps_dcc (w_session w) (w_session w') \<and> dcc_inv (w_session w')"
begin

text \<open>A fault of a callback.\<close>

definition cb_faults :: "stop \<Rightarrow> bool" where
  "cb_faults e \<longleftrightarrow> (\<exists>f i st c d n w. dcc_cb cbs f i st c d n w = Inl e)"

text \<open>What a step of the loop guarantees.\<close>

definition step_ok :: "'a world \<Rightarrow> stop + 'a world \<Rightarrow> bool" where
  "step_ok w r \<longleftrightarrow> (case r of Inl e \<Rightarrow> cb_faults e
     | Inr w' \<Rightarrow> keeps_dcc (w_session w) (w_session w') \<and> dcc_inv (w_session w'))"

lemma report_ok:
  assumes "dcc_inv (w_session w)" and "dcc_at (w_session w) i = Some d" and "d_cb d \<noteq> None"
  shows "step_ok w (report_dcc cbs i st c n w)"
proof -
  obtain f where f: "d_cb d = Some f" using assms(3) by auto
  let ?w = "on_session unlock_dcc w"
  have call: "call_dcc_cb cbs i st c n ?w = dcc_cb cbs f i st (d_ctx d) c n ?w"
    using assms(2) f by (simp add: call_dcc_cb_def)
  show ?thesis
  proof (cases "dcc_cb cbs f i st (d_ctx d) c n ?w")
    case (Inl e)
    then have "cb_faults e" unfolding cb_faults_def by blast
    then show ?thesis unfolding step_ok_def report_dcc_def call Inl by simp
  next
    case (Inr w')
    then show ?thesis using cb_keeps [OF Inr] assms(1) keeps_locked
      unfolding step_ok_def report_dcc_def call by simp
  qed
qed

lemma step_ok_session:
  assumes "step_ok w r" and "\<And>s. keeps_dcc s (f s)" and "\<And>s. dcc_inv s \<Longrightarrow> dcc_inv (f s)"
  shows "step_ok w (and_then r (\<lambda>w. Inr (on_session f w)))"
  using assms keeps_trans by (cases r) (auto simp: step_ok_def)

lemma step_ok_start: "w_session v = w_session w \<Longrightarrow> step_ok v r = step_ok w r"
  by (cases r) (simp_all add: step_ok_def)

lemma step_ok_then:
  assumes "step_ok w r" and "\<And>v. r = Inr v \<Longrightarrow> keeps_dcc (w_session w) (w_session v) \<Longrightarrow>
     dcc_inv (w_session v) \<Longrightarrow> step_ok v (g v)"
  shows "step_ok w (and_then r g)"
proof (cases r)
  case (Inr v)
  with assms(1) have v: "keeps_dcc (w_session w) (w_session v)" "dcc_inv (w_session v)"
    by (auto simp: step_ok_def)
  show ?thesis using assms(2) [OF Inr v] v keeps_trans unfolding Inr
    by (cases "g v") (auto simp: step_ok_def)
qed (use assms(1) in \<open>simp add: step_ok_def\<close>)

lemma step_ok_from: "keeps_dcc (w_session w) (w_session v) \<Longrightarrow> step_ok v r \<Longrightarrow> step_ok w r"
  using keeps_trans by (cases r) (auto simp: step_ok_def)

lemma os_read_session [simp]: "w_session (snd (os_read w)) = w_session w"
  by (simp add: os_read_def split: list.splits)

lemma os_write_session [simp]: "w_session (snd (os_write w)) = w_session w"
  by (simp add: os_write_def split: list.splits)

lemma failed_ok:
  assumes "dcc_inv (w_session w)" and "dcc_at (w_session w) i = Some d" and "d_cb d \<noteq> None"
  shows "step_ok w (and_then (report_dcc cbs i st c n w)
     (\<lambda>w. Inr (on_session (\<lambda>s. libirc_dcc_destroy_nolock s i) w)))"
  by (rule step_ok_session [OF report_ok [OF assms]]) (simp_all add: keeps_destroy dcc_inv_destroy)

lemma step_ok_upd:
  assumes "dcc_inv (w_session w)" and "\<And>s. keeps_dcc s (f s)" and "dcc_inv (f (w_session w))"
  shows "step_ok w (Inr (on_session f w))"
  using assms by (simp add: step_ok_def)

lemma dcc_inv_state: "dcc_inv s \<Longrightarrow> has_cb s i \<or> \<not> active_state st \<Longrightarrow> dcc_inv (set_dcc_state i st s)"
  unfolding set_dcc_state_def by (rule dcc_inv_upd) (auto simp: has_cb_def)

text \<open>One turn of the receiving loop.\<close>

definition drop_flag :: "stop + ('a world \<times> bool) \<Rightarrow> stop + 'a world" where
  "drop_flag m = and_then m (\<lambda>(w, more). Inr w)"

lemma drop_flag_simps [simp]:
  "drop_flag (Inr (v, b)) = Inr v"
  "drop_flag (and_then m (\<lambda>v. Inr (g v, b))) = and_then m (\<lambda>v. Inr (g v))"
  by (cases m; simp add: drop_flag_def)+

lemma received_ok:
  assumes "dcc_inv (w_session w)" and "has_cb (w_session w) i"
  shows "step_ok w (and_then (call_dcc_cb cbs i 0 (Some xs) n (on_session (\<lambda>s. upd_dcc i
      (\<lambda>d. d\<lparr>d_file_confirm_offset := g d\<rparr>) (unlock_dcc s)) w))
    (\<lambda>w. Inr (on_session (\<lambda>s. lock_dcc (set_dcc_state i (h w) s)) w)))"
proof -
  let ?u = "on_session (\<lambda>s. upd_dcc i (\<lambda>d. d\<lparr>d_file_confirm_offset := g d\<rparr>) (unlock_dcc s)) w"
  obtain d where d: "dcc_at (w_session w) i = Some d" "d_cb d \<noteq> None" using assms(2) by (auto simp: has_cb_def)
  have ku: "keeps_dcc (unlock_dcc (w_session w)) (w_session ?u)" by (simp add: keeps_upd)
  have iu: "dcc_inv (w_session ?u)"
    using assms(1) by (simp, intro dcc_inv_upd)
      (auto simp: dcc_inv_def callbacks_set_def dest: dcc_at_id)
  have hu: "has_cb (w_session ?u) i" by (rule keeps_cb [OF ku]) (simp add: assms(2))
  then obtain d' f where f: "dcc_at (w_session ?u) i = Some d'" "d_cb d' = Some f" by (auto simp: has_cb_def)
  have call: "call_dcc_cb cbs i 0 (Some xs) n ?u = dcc_cb cbs f i 0 (d_ctx d') (Some xs) n ?u"
    using f by (simp add: call_dcc_cb_def)
  show ?thesis
  proof (cases "dcc_cb cbs f i 0 (d_ctx d') (Some xs) n ?u")
    case (Inl e)
    then have "cb_faults e" unfolding cb_faults_def by blast
    then show ?thesis unfolding step_ok_def call Inl by simp
  next
    case (Inr v)
    have v: "keeps_dcc (w_session ?u) (w_session v)" "dcc_inv (w_session v)"
      using cb_keeps [OF Inr iu] by auto
    have "has_cb (w_session v) i" using keeps_cb [OF v(1) hu] .
    then have iv: "dcc_inv (set_dcc_state i (h v) (w_session v))" using v(2) by (simp add: dcc_inv_state)
    have "keeps_dcc (unlock_dcc (w_session w)) (set_dcc_state i (h v) (w_session v))"
      using keeps_trans [OF keeps_trans [OF ku v(1)] keeps_state] .
    then show ?thesis using iv keeps_locked unfolding step_ok_def call Inr by simp
  qed
qed

lemma turn_ok:
  assumes "dcc_inv (w_session w)" and "has_cb (w_session w) i"
  shows "step_ok w (drop_flag (recv_dcc_turn cbs i w))"
proof -
  obtain d where d: "dcc_at (w_session w) i = Some d" "d_cb d \<noteq> None" using assms(2) by (auto simp: has_cb_def)
  obtain r v where r: "os_read w = (r, v)" by (cases "os_read w")
  have sv: "w_session v = w_session w" using os_read_session [of w] r by simp
  have v: "dcc_inv (w_session v)" "dcc_at (w_session v) i = Some d" "has_cb (w_session v) i"
    using assms d sv by simp_all
  have failed: "step_ok v (drop_flag (and_then (report_dcc cbs i st None 0 v)
      (\<lambda>w. Inr (on_session (\<lambda>s. libirc_dcc_destroy_nolock s i) w, False))))" for st
    using failed_ok [OF v(1,2) d(2)] by simp
  have "step_ok v (drop_flag (recv_dcc_turn cbs i w))"
  proof (cases r)
    case (ReadBytes xs)
    show ?thesis
    proof (cases "xs = []")
      case True
      then show ?thesis using failed ReadBytes by (simp add: recv_dcc_turn_def d(1) r Let_def)
    next
      case False
      then show ?thesis using received_ok [OF v(1,3)] ReadBytes
        by (simp add: recv_dcc_turn_def d(1) r Let_def)
    qed
  next
    case ReadClosed
    then show ?thesis using failed by (simp add: recv_dcc_turn_def d(1) r Let_def)
  next
    case (ReadError e)
    have conf: "step_ok v (Inr (on_session (set_dcc_state i LIBIRC_STATE_CONFIRM_SIZE) v))"
      by (rule step_ok_upd) (simp_all add: v keeps_state dcc_inv_state)
    show ?thesis using failed ReadError v(1) conf
      by (cases e) (simp_all add: recv_dcc_turn_def d(1) r Let_def step_ok_def)
  qed
  then show ?thesis using step_ok_start [OF sv] by simp
qed

lemma and_then_drop:
  "and_then m (\<lambda>(w, more). Inr w) = drop_flag m"
  by (simp add: drop_flag_def)

lemma loop_ok:
  "dcc_inv (w_session w) \<Longrightarrow> has_cb (w_session w) i \<Longrightarrow> step_ok w (recv_dcc_loop cbs i ps w)"
proof (induction ps arbitrary: w)
  case Nil
  then show ?case using turn_ok [OF Nil] by (simp add: and_then_drop)
next
  case (Cons p ps)
  have turn: "step_ok w (drop_flag (recv_dcc_turn cbs i w))" using turn_ok [OF Cons.prems] .
  show ?case
  proof (cases "recv_dcc_turn cbs i w")
    case (Inl e)
    then show ?thesis using turn by (simp add: drop_flag_def)
  next
    case (Inr vm)
    obtain v more where vm: "vm = (v, more)" by (cases vm)
    have v: "keeps_dcc (w_session w) (w_session v)" "dcc_inv (w_session v)"
      using turn by (auto simp: Inr vm step_ok_def)
    let ?v = "v\<lparr>w_os := (w_os v)\<lparr>os_pending := ps\<rparr>\<rparr>"
    have "step_ok ?v (recv_dcc_loop cbs i ps ?v)"
      by (rule Cons.IH) (use v keeps_cb [OF v(1) Cons.prems(2)] in auto)
    then have rest: "step_ok v (recv_dcc_loop cbs i ps ?v)" using step_ok_start [of ?v v] by simp
    have "step_ok v (if more \<and> has_ssl v i then (if p then recv_dcc_loop cbs i ps ?v else Inr ?v) else Inr v)"
      using rest v by (simp add: step_ok_def)
    then have "step_ok w (if more \<and> has_ssl v i then (if p then recv_dcc_loop cbs i ps ?v else Inr ?v) else Inr v)"
      using step_ok_from [OF v(1)] by blast
    then show ?thesis by (auto simp: Inr vm Let_def split: if_splits)
  qed
qed

lemma send_ok:
  assumes "dcc_inv (w_session w)" and "has_cb (w_session w) i"
  shows "step_ok w (send_current_file_offset_to_sender cbs i w)"
proof -
  obtain d where d: "dcc_at (w_session w) i = Some d" "d_cb d \<noteq> None" using assms(2) by (auto simp: has_cb_def)
  obtain r v where r: "os_write w = (r, v)" by (cases "os_write w")
  have sv: "w_session v = w_session w" using os_write_session [of w] r by simp
  have sn: "w_session (note_sent fd xs v) = w_session v" for fd xs by (simp add: note_sent_def)
  have v: "dcc_inv (w_session v)" "dcc_at (w_session v) i = Some d" "has_cb (w_session v) i"
    using assms d sv by simp_all
  have failed: "step_ok v (report_dcc cbs i st None 0 v)" for st using report_ok [OF v(1,2) d(2)] .
  have fin: "step_ok v (and_then (report_dcc cbs i 0 None 0 (note_sent fd xs v))
     (\<lambda>w. Inr (on_session (\<lambda>s. libirc_dcc_destroy_nolock s i) w)))" for fd xs
    using failed_ok [of "note_sent fd xs v" i d 0 None 0] v d(2) step_ok_start [OF sn] by (simp add: sn)
  have cont: "step_ok v (Inr (on_session (set_dcc_state i LIBIRC_STATE_CONNECTED) u))" if "w_session u = w_session v" for u
    using v that by (simp add: step_ok_def keeps_state dcc_inv_state)
  have "step_ok v (send_current_file_offset_to_sender cbs i w)"
  proof (cases r)
    case (Written n)
    then show ?thesis using failed fin cont [OF sn]
      by (simp add: send_current_file_offset_to_sender_def d(1) r Let_def)
  next
    case WriteClosed
    then show ?thesis using failed by (simp add: send_current_file_offset_to_sender_def d(1) r Let_def)
  next
    case (WriteError e)
    then show ?thesis using failed cont [OF refl] v(1)
      by (cases e) (simp_all add: send_current_file_offset_to_sender_def d(1) r Let_def step_ok_def)
  qed
  then show ?thesis using step_ok_start [OF sv] by simp
qed

lemma active_has_cb:
  "dcc_inv s \<Longrightarrow> dcc_at s i = Some d \<Longrightarrow> active_state (d_state d) \<Longrightarrow> has_cb s i"
  using dcc_at_id by (fastforce simp: dcc_inv_def callbacks_set_def has_cb_def)

lemma process_ok:
  assumes "dcc_inv (w_session w)" and "dcc_at (w_session w) i = Some d"
  shows "step_ok w (process_dcc cbs i w)"
proof -
  have skip: "step_ok w (Inr w)" using assms(1) by (simp add: step_ok_def)
  have cb: "active_state (d_state d) \<Longrightarrow> has_cb (w_session w) i" using active_has_cb [OF assms] .
  have ret: "w_session (snd (os_ret u)) = w_session u" for u :: "'a world" by simp
  show ?thesis
  proof (cases "d_state d")
    case LIBIRC_STATE_CONNECTING
    then have "has_cb (w_session w) i" using cb by (simp add: active_state_def)
    moreover obtain rc u where u: "os_ret w = (rc, u)" by (cases "os_ret w")
    ultimately have "step_ok w (Inr (handleConnectingState i d w))"
      using assms(1) ret [of w]
      by (simp add: handleConnectingState_def step_ok_def keeps_state keeps_destroy dcc_inv_destroy
          dcc_inv_state)
    then show ?thesis by (simp add: process_dcc_def assms(2) LIBIRC_STATE_CONNECTING)
  next
    case LIBIRC_STATE_CONNECTED
    then show ?thesis using loop_ok [OF assms(1)] cb skip
      by (simp add: process_dcc_def assms(2) handleConnectedState_def recv_dcc_file_def active_state_def)
  next
    case LIBIRC_STATE_CONFIRM_SIZE
    then show ?thesis using send_ok [OF assms(1)] cb skip
      by (simp add: process_dcc_def assms(2) handleConfirmSizeState_def active_state_def)
  next
    case LIBIRC_STATE_INIT_PASSIVE
    then have h: "has_cb (w_session w) i" using cb by (simp add: active_state_def)
    have u: "dcc_inv (upd_dcc i (\<lambda>d. d\<lparr>d_sock := k, d_state := LIBIRC_STATE_CONNECTED\<rparr>) (w_session w))" for k
      by (rule dcc_inv_upd [OF assms(1)]) (use h in \<open>auto simp: has_cb_def\<close>)
    have "keeps_dcc s (upd_dcc i (\<lambda>d. d\<lparr>d_sock := k, d_state := LIBIRC_STATE_CONNECTED\<rparr>) s)" for s k
      by (rule keeps_upd) simp_all
    moreover obtain r1 v1 r2 v2 where o: "os_ret w = (r1, v1)" "os_ret v1 = (r2, v2)"
      by (metis prod.exhaust)
    ultimately have "step_ok w (Inr (handleInitPassiveState i d w))"
      using assms(1) ret [of w] ret [of v1] u
      by (simp add: handleInitPassiveState_def step_ok_def)
    then show ?thesis by (simp add: process_dcc_def assms(2) LIBIRC_STATE_INIT_PASSIVE)
  qed (use skip in \<open>simp_all add: process_dcc_def assms(2)\<close>)
qed

lemma process_all_ok:
  "dcc_inv (w_session w) \<Longrightarrow> \<forall>i \<in> set is. \<exists>d. dcc_at (w_session w) i = Some d \<Longrightarrow>
     step_ok w (process_dccs cbs is w)"
proof (induction "is" arbitrary: w)
  case Nil
  then show ?case by (simp add: step_ok_def)
next
  case (Cons i "is")
  then obtain d where d: "dcc_at (w_session w) i = Some d" by auto
  have "step_ok v (process_dccs cbs is v)"
    if v: "keeps_dcc (w_session w) (w_session v)" "dcc_inv (w_session v)" for v
  proof (rule Cons.IH [OF v(2)])
    show "\<forall>j \<in> set is. \<exists>d. dcc_at (w_session v) j = Some d"
      using keeps_at [OF v(1)] Cons.prems(2) by (metis list.set_intros(2))
  qed
  then show ?case using step_ok_then [OF process_ok [OF Cons.prems(1) d]] by simp
qed

lemma process_descriptors_ok:
  assumes "dcc_inv (w_session w)"
  shows "step_ok w (libirc_dcc_process_descriptors cbs w)"
proof -
  let ?w = "on_session lock_dcc w"
  let ?r = "process_dccs cbs (map d_id (s_dcc_sessions (w_session ?w))) ?w"
  have ok: "step_ok ?w ?r"
    by (rule process_all_ok) (use assms dcc_at_some_iff in auto)
  have eq: "libirc_dcc_process_descriptors cbs w = and_then ?r (\<lambda>w. Inr (on_session unlock_dcc w))"
    by (simp add: libirc_dcc_process_descriptors_def Let_def)
  show ?thesis using ok keeps_unlocked unfolding eq by (cases ?r) (auto simp: step_ok_def)
qed

end

end
