(* ===== verification/Download.thy ===== *)
theory Download
  imports Files Dcc_Lists Commands
begin

text \<open>
  The application, \<open>xdccget.c\<close>: the events it handles, the requests it sends to the bots, the files
  it opens for offers it accepts, the callbacks that store and resume a file, and the throttling.
  Output is left out; a pointer to a download context is its index in \<open>a_contexts\<close>.
\<close>

section \<open>Checksums in notices\<close>

text \<open>\<open>strncpy\<close> from an offset after the keyword; beyond the terminator there is nothing to read.\<close>

definition copy_md5 :: "string \<Rightarrow> nat \<Rightarrow> stop + string" where
  "copy_md5 s k = (if k \<le> length s then Inr (take 32 (drop k s)) else Inl OutOfBounds)"

definition extractMD5 :: "string \<Rightarrow> stop + string option" where
  "extractMD5 s =
     (case strstr s ''md5sum'' of
        Some p \<Rightarrow> and_then (copy_md5 s (p + 8)) (\<lambda>t. Inr (Some t))
      | None \<Rightarrow> (case strstr s ''MD5'' of
          Some p \<Rightarrow> and_then (copy_md5 s (p + 4)) (\<lambda>t. Inr (Some t))
        | None \<Rightarrow> (case strstr s ''md5'' of
            Some p \<Rightarrow> and_then (copy_md5 s (p + 4)) (\<lambda>t. Inr (Some t))
          | None \<Rightarrow> Inr None)))"

definition startChecksumThread :: "string \<Rightarrow> string \<Rightarrow> app_world \<Rightarrow> app_world" where
  "startChecksumThread md5sum path = on_app (\<lambda>a. a\<lparr>a_checksums := a_checksums a @ [(md5sum, path)]\<rparr>)"

definition progress_of :: "app_world \<Rightarrow> nat \<Rightarrow> dccDownloadProgress" where
  "progress_of w i = x_progress (a_contexts (w_app w) ! i)"

definition set_first_md5 :: "string \<Rightarrow> app_world \<Rightarrow> stop + app_world" where
  "set_first_md5 hash w =
     (case c_dccDownloadArray (w_cfg w) of
        [] \<Rightarrow> Inl NullDeref
      | d # ds \<Rightarrow> Inr (w\<lparr>w_cfg := (w_cfg w)\<lparr>c_dccDownloadArray := d\<lparr>md5 := Some hash\<rparr> # ds\<rparr>\<rparr>))"

definition checkMD5ChecksumNotice :: "string \<Rightarrow> app_world \<Rightarrow> stop + app_world" where
  "checkMD5ChecksumNotice event w =
     (if \<not> str_equals event ''NOTICE'' \<or> r_num_params (w_result w) \<noteq> 2 then Inr w
      else and_then (result_param w 1) (\<lambda>t. and_then (extractMD5 t) (\<lambda>hash. case hash of
        None \<Rightarrow> Inr w
      | Some s \<Rightarrow> (case a_lastDownload (w_app w) of
          None \<Rightarrow> if c_numDownloads (w_cfg w) = 1 then set_first_md5 s w else Inr w
        | Some i \<Rightarrow> Inr (startChecksumThread s (completePath (progress_of w i)) w)))))"

section \<open>Events\<close>

text \<open>\<open>dump_event\<close>: the text of the parameters without colour codes, for the log.\<close>

fun dump_params :: "nat \<Rightarrow> nat \<Rightarrow> app_world \<Rightarrow> stop + string" where
  "dump_params i 0 w = Inr []"
| "dump_params i (Suc n) w =
     and_then (result_param w i) (\<lambda>t. and_then (irc_color_strip_from_mirc t) (\<lambda>plain.
     and_then (dump_params (Suc i) n w) (\<lambda>rest. Inr ((if i = 0 then [] else ''|'') @ plain @ rest))))"

definition dump_event :: "string \<Rightarrow> app_world \<Rightarrow> stop + app_world" where
  "dump_event event w =
     and_then (dump_params 0 (r_num_params (w_result w)) w) (\<lambda>text.
     and_then (case r_nick (w_result w) of None \<Rightarrow> Inr ''NULL'' | Some a \<Rightarrow> heap_str (w_heap w) (Some a)) (\<lambda>origin.
     Inr w))"

text \<open>A command whose status only goes to the log.\<close>

definition app_send :: "(irc_session \<Rightarrow> irc_session \<times> int) \<Rightarrow> app_world \<Rightarrow> app_world" where
  "app_send cmd w = fst (w_send cmd w)"

fun join_all :: "string list \<Rightarrow> app_world \<Rightarrow> app_world" where
  "join_all [] w = w"
| "join_all (c # cs) w = join_all cs (app_send (\<lambda>s. irc_cmd_join s (Some (cstr c)) None) w)"

definition join_channels :: "app_world \<Rightarrow> app_world" where
  "join_channels w = join_all (take (c_numChannels (w_cfg w)) (c_channelsToJoin (w_cfg w))) w"

fun request_all :: "dccDownload list \<Rightarrow> app_world \<Rightarrow> app_world" where
  "request_all [] w = w"
| "request_all (d # ds) w =
     request_all ds (app_send (\<lambda>s. irc_cmd_msg s (Some (cstr (botNick d))) (Some (cstr (xdccCmd d)))) w)"

definition send_xdcc_requests :: "app_world \<Rightarrow> app_world" where
  "send_xdcc_requests w =
     (if cfg_get_bit (w_cfg w) SENDED_FLAG then w
      else (let w = request_all (c_dccDownloadArray (w_cfg w)) w in
            w\<lparr>w_cfg := cfg_set_bit (w_cfg w) SENDED_FLAG\<rparr>))"

definition isPasswordAccepted :: "string \<Rightarrow> bool" where
  "isPasswordAccepted message \<longleftrightarrow>
     list_ex (\<lambda>t. strstr message t \<noteq> None) [''Password accepted'', ''You are now identified'', ''I recognize you'']"

definition send_login_command :: "string \<Rightarrow> app_world \<Rightarrow> app_world" where
  "send_login_command login w =
     (let cmd = sdstrim login ('' '' @ [tab]);
          w = w\<lparr>w_cfg := (w_cfg w)\<lparr>c_login_command := Some cmd\<rparr>\<rparr> in
      if length cmd \<ge> 9
      then app_send (\<lambda>s. irc_cmd_msg s (Some (cstr (sdsrange cmd 0 8)))
             (Some (cstr (sdsrange cmd 9 (int (length cmd)))))) w
      else w)"

definition on_connect_event :: "app_world \<Rightarrow> app_world" where
  "on_connect_event w =
     (if cfg_get_bit (w_cfg w) ON_CONNECT_EVENT_DONE then w
      else (let w = (case c_login_command (w_cfg w) of Some l \<Rightarrow> send_login_command l w | None \<Rightarrow> join_channels w) in
            w\<lparr>w_cfg := cfg_set_bit (w_cfg w) ON_CONNECT_EVENT_DONE\<rparr>))"

definition check_connected_event :: "string \<Rightarrow> app_world \<Rightarrow> stop + app_world" where
  "check_connected_event event w =
     (if \<not> str_equals event ''NOTICE'' \<or> r_num_params (w_result w) \<noteq> 2 then Inr w
      else and_then (result_param w 1) (\<lambda>t.
        Inr (if strstr t ''You are connected'' \<noteq> None then on_connect_event w else w)))"

definition xg_event_notice :: "app event" where
  "xg_event_notice event w =
     and_then (dump_event event w) (\<lambda>w. and_then (checkMD5ChecksumNotice event w) (check_connected_event event))"

definition xg_event_mode :: "app event" where
  "xg_event_mode event w =
     (if c_login_command (w_cfg w) \<noteq> None \<and> r_num_params (w_result w) > 1
      then and_then (result_param w 1) (\<lambda>t. Inr (if str_equals t ''+v'' then send_xdcc_requests w else w))
      else Inr w)"

definition xg_event_umode :: "app event" where
  "xg_event_umode event w =
     (if c_login_command (w_cfg w) \<noteq> None
      then and_then (result_param w 0) (\<lambda>t. Inr (if str_equals t ''+r'' then join_channels w else w))
      else Inr w)"

definition xg_event_join :: "app event" where
  "xg_event_join event w =
     (let w = app_send (\<lambda>s. irc_cmd_user_mode s (Some ''+i'')) w in
      Inr (if c_sendDelay (w_cfg w) = None \<and> c_login_command (w_cfg w) = None then send_xdcc_requests w else w))"

definition xg_event_connect :: "app event" where
  "xg_event_connect event w = and_then (dump_event event w) (\<lambda>w. Inr (on_connect_event w))"

text \<open>\<open>strrchr\<close>: what follows the last occurrence of a character.\<close>

definition after_last :: "char \<Rightarrow> string \<Rightarrow> string option" where
  "after_last c s = (if c \<in> set s then Some (rev (takeWhile (\<lambda>x. x \<noteq> c) (rev s))) else None)"

text \<open>\<open>dns\<close> is what \<open>gethostbyname\<close> finds for a host name.\<close>

definition xg_event_numeric :: "(string \<Rightarrow> nat option) \<Rightarrow> nat \<Rightarrow> app_world \<Rightarrow> stop + app_world" where
  "xg_event_numeric dns event w =
     (if event = 1 \<and> r_num_params (w_result w) \<ge> 2 then
        and_then (dump_event (dec event) w) (\<lambda>w. and_then (result_param w 1) (\<lambda>t.
        Inr (case after_last (CHR ''@'') t of
            None \<Rightarrow> w
          | Some host \<Rightarrow> (case dns host of
              Some ip \<Rightarrow> if c_listen_ip (w_cfg w) = None
                then w\<lparr>w_cfg := (w_cfg w)\<lparr>c_listen_ip := Some (inet_ntoa ip)\<rparr>\<rparr> else w
            | None \<Rightarrow> w))))
      else Inr w)"

section \<open>Who may send us a file\<close>

fun nick_listed :: "dccDownload list \<Rightarrow> stop + string \<Rightarrow> stop + bool" where
  "nick_listed [] nick = Inr False"
| "nick_listed (d # ds) nick =
     and_then nick (\<lambda>n. if strcase_equals (botNick d) n then Inr True else nick_listed ds nick)"

text \<open>The array is not \<open>NULL\<close> once \<open>main\<close> has parsed the command line.\<close>

definition isValidRequestFromNick :: "addr option \<Rightarrow> app_world \<Rightarrow> stop + bool" where
  "isValidRequestFromNick nick w =
     (if cfg_get_bit (w_cfg w) ACCEPT_ALL_NICKS_FLAG then Inr True
      else nick_listed (c_dccDownloadArray (w_cfg w)) (heap_str (w_heap w) nick))"

section \<open>Storing a file\<close>

text \<open>What follows the last byte: the file is closed, and the program leaves or checks the sum.\<close>

definition report_finished :: "app_world \<Rightarrow> stop + app_world" where
  "report_finished w =
     (let w = on_app (\<lambda>a. a\<lparr>a_finishedDownloads := a_finishedDownloads a + 1\<rparr>) w in
      if \<not> cfg_get_bit (w_cfg w) VERIFY_CHECKSUM_FLAG
      then Inr (if a_finishedDownloads (w_app w) = a_numActiveDownloads (w_app w)
                then app_send (\<lambda>s. irc_cmd_quit s (Some ''Goodbye!'')) w else w)
      else if c_numDownloads (w_cfg w) = 1
      then (case c_dccDownloadArray (w_cfg w) of
          [] \<Rightarrow> Inl NullDeref
        | d # _ \<Rightarrow> (case md5 d of
            None \<Rightarrow> Inr w
          | Some hash \<Rightarrow> (case a_lastDownload (w_app w) of
              None \<Rightarrow> Inl NullDeref
            | Some l \<Rightarrow> Inr (startChecksumThread hash (completePath (progress_of w l)) w))))
      else Inr w)"

definition finish_download :: "nat \<Rightarrow> app_world \<Rightarrow> stop + app_world" where
  "finish_download i w =
     (let w = on_app (\<lambda>a. a\<lparr>a_alarm := 0\<rparr>) w;
          w = on_context i (\<lambda>c. c\<lparr>x_progress := outputProgress (x_progress c)\<rparr>) w;
          w = on_app (\<lambda>a. a\<lparr>a_lastDownload := a_curDownload a\<rparr>) w in
      and_then (file_Close i w) report_finished)"

definition count_received :: "nat \<Rightarrow> nat \<Rightarrow> app_world \<Rightarrow> app_world" where
  "count_received i n = on_context i (\<lambda>c. c\<lparr>x_progress := (x_progress c)
     \<lparr>sizeRcvd := size_t (sizeRcvd (x_progress c) + n)\<rparr>\<rparr>)"

definition callback_dcc_recv_file ::
  "nat \<Rightarrow> int \<Rightarrow> nat option \<Rightarrow> string option \<Rightarrow> nat \<Rightarrow> app_world \<Rightarrow> stop + app_world" where
  "callback_dcc_recv_file dccid status ctx data len w =
     (case (data, ctx) of
        (Some xs, Some i) \<Rightarrow>
          if len = 0 \<or> status \<noteq> 0 then Inr w
          else and_then (file_Write i (take len xs) (count_received i len w)) (\<lambda>w.
             if sizeRcvd (progress_of w i) = completeFileSize (progress_of w i)
             then finish_download i w else Inr w)
      | _ \<Rightarrow> Inr w)"

definition set_position :: "nat \<Rightarrow> nat \<Rightarrow> app_world \<Rightarrow> app_world" where
  "set_position i pos = on_context i (\<lambda>c. c\<lparr>x_progress := (x_progress c)
     \<lparr>sizeRcvd := pos, sizeNow := pos, sizeLast := pos\<rparr>\<rparr>)"

text \<open>A status that is not zero ends the program.\<close>

definition or_exit :: "app_world \<times> int \<Rightarrow> stop + app_world" where
  "or_exit r = (case r of (w, rc) \<Rightarrow> if rc \<noteq> 0 then Inl (exitPgm EXIT_FAILURE w) else Inr w)"

definition callback_dcc_resume_file ::
  "nat \<Rightarrow> int \<Rightarrow> nat option \<Rightarrow> string option \<Rightarrow> nat \<Rightarrow> app_world \<Rightarrow> stop + app_world" where
  "callback_dcc_resume_file dccid status ctx data len w =
     (case ctx of
        None \<Rightarrow> Inl NullDeref
      | Some i \<Rightarrow> and_then (file_Seek i len w) (\<lambda>w.
          or_exit (irc_dcc_accept (set_position i len w) dccid ctx RECV_FILE)))"

definition pointer_str :: "app_world \<Rightarrow> addr option \<Rightarrow> stop + string option" where
  "pointer_str w p = (case p of None \<Rightarrow> Inr None | Some a \<Rightarrow> and_then (heap_str (w_heap w) (Some a)) (\<lambda>t. Inr (Some t)))"

definition callback_dcc_resume_file_reverse ::
  "nat \<Rightarrow> int \<Rightarrow> nat option \<Rightarrow> string option \<Rightarrow> nat \<Rightarrow> addr option \<Rightarrow> string \<Rightarrow> nat
     \<Rightarrow> app_world \<Rightarrow> stop + app_world" where
  "callback_dcc_resume_file_reverse dccid status ctx data len nick filename token w =
     (case ctx of
        None \<Rightarrow> Inl NullDeref
      | Some i \<Rightarrow> and_then (file_Seek i len w) (\<lambda>w.
          and_then (pointer_str w nick) (\<lambda>n.
          let w = set_position i len w in
          or_exit (irc_dcc_accept_reverse w dccid ctx RECV_FILE n filename
            (completeFileSize (progress_of w i)) token))))"

section \<open>Offers of files\<close>

definition getAbsolutePath :: "string \<Rightarrow> string" where
  "getAbsolutePath dir =
     (if \<not> str_equals (sdsrange dir (-1) (-1)) ''/'' then cstr dir @ ''/'' else cstr dir)"

definition getCompletePath :: "string \<Rightarrow> string \<Rightarrow> string" where
  "getCompletePath dir filename = getAbsolutePath dir @ sdsnew filename"

definition containsIllegalChars :: "string \<Rightarrow> bool" where
  "containsIllegalChars filename = sdscontains (sdsnew filename) [CHR ''/'', CHR 0x5C]"

definition target_dir :: "app_world \<Rightarrow> stop + string" where
  "target_dir w = (case c_targetDir (w_cfg w) of None \<Rightarrow> Inl NullDeref | Some d \<Rightarrow> Inr d)"

text \<open>The new context's index. The array has one entry for each download of the command line.\<close>

definition prepareRecvFileRequest :: "string \<Rightarrow> nat \<Rightarrow> app_world \<Rightarrow> stop + (nat \<times> app_world)" where
  "prepareRecvFileRequest filename fsize w =
     (if containsIllegalChars filename then Inl (exitPgm EXIT_FAILURE w)
      else and_then (target_dir w) (\<lambda>dir.
        let path = getAbsolutePath dir;
            w = (if dir_exists w path then w
                 else (case os_ret w of (r, w) \<Rightarrow>
                   if r = 0 then on_app (\<lambda>a. a\<lparr>a_dirs := (a_dirs a)(path := True)\<rparr>) w else w));
            i = length (a_contexts (w_app w));
            n = a_numActiveDownloads (w_app w);
            ctx = \<lparr>x_progress = newDccProgress (getCompletePath dir filename) fsize, x_fd = FdUnset\<rparr> in
        if n < length (a_downloadContext (w_app w))
        then Inr (i, on_app (\<lambda>a. a\<lparr>a_contexts := a_contexts a @ [ctx], a_curDownload := Some i,
               a_downloadContext := (a_downloadContext a)[n := Some i], a_numActiveDownloads := n + 1\<rparr>) w)
        else Inl OutOfBounds))"

definition assign_fd :: "nat \<Rightarrow> file_io \<times> app_world \<Rightarrow> app_world" where
  "assign_fd i r = (case r of (f, w) \<Rightarrow> on_context i (\<lambda>c. c\<lparr>x_fd := FdOpen f\<rparr>) w)"

definition recvFileRequest ::
  "addr option \<Rightarrow> string \<Rightarrow> string \<Rightarrow> nat \<Rightarrow> nat \<Rightarrow> app_world \<Rightarrow> stop + app_world" where
  "recvFileRequest nick addr filename fsize dccid w =
     and_then (prepareRecvFileRequest filename fsize w) (\<lambda>(i, w).
     and_then (target_dir w) (\<lambda>dir.
     let path = getCompletePath dir filename;
         accept = (\<lambda>w. or_exit (irc_dcc_accept w dccid (Some i) RECV_FILE)) in
     if file_exists w path then
       and_then (file_Open path ModeAppend w) (\<lambda>r.
         let w = assign_fd i r; fileSize = get_file_size w path in
         if fsize = fileSize then Inl (exitPgm EXIT_FAILURE w)
         else if fileSize = 0 then accept w
         else and_then (pointer_str w nick) (\<lambda>n.
           or_exit (irc_dcc_resume w dccid (Some i) RESUME_FILE n fileSize)))
     else and_then (file_Open path ModeWrite w) (\<lambda>r. accept (assign_fd i r))))"

definition recvFileRequestReverse ::
  "addr option \<Rightarrow> string \<Rightarrow> string \<Rightarrow> nat \<Rightarrow> nat \<Rightarrow> nat \<Rightarrow> app_world \<Rightarrow> stop + app_world" where
  "recvFileRequestReverse nick addr filename fsize dccid token w =
     and_then (prepareRecvFileRequest filename fsize w) (\<lambda>(i, w).
     and_then (target_dir w) (\<lambda>dir.
     let path = getCompletePath dir filename;
         accept = (\<lambda>w. and_then (pointer_str w nick) (\<lambda>n.
           or_exit (irc_dcc_accept_reverse w dccid (Some i) RECV_FILE n filename fsize token))) in
     if file_exists w path then
       and_then (file_Open path ModeAppend w) (\<lambda>r.
         let w = assign_fd i r; fileSize = get_file_size w path in
         if fsize = fileSize then Inl (exitPgm EXIT_FAILURE w)
         else if fileSize = 0 then accept w
         else and_then (pointer_str w nick) (\<lambda>n.
           or_exit (irc_dcc_resume_reverse w dccid (Some i) RESUME_FILE_REVERSE n fileSize token)))
     else and_then (file_Open path ModeWrite w) (\<lambda>r. accept (assign_fd i r))))"

section \<open>Throttling and output\<close>

text \<open>The active downloads, through the array.\<close>

fun active_sum :: "(dccDownloadProgress \<Rightarrow> nat) \<Rightarrow> nat option list \<Rightarrow> nat \<Rightarrow> app_world \<Rightarrow> stop + nat" where
  "active_sum f ps 0 w = Inr 0"
| "active_sum f [] (Suc n) w = Inl OutOfBounds"
| "active_sum f (None # ps) (Suc n) w = Inl NullDeref"
| "active_sum f (Some i # ps) (Suc n) w =
     and_then (active_sum f ps n w) (\<lambda>s. Inr (size_t (f (progress_of w i) + s)))"

definition getCurrentTransferSpeed :: "app_world \<Rightarrow> stop + nat" where
  "getCurrentTransferSpeed w =
     active_sum averageSpeed (a_downloadContext (w_app w)) (a_numActiveDownloads (w_app w)) w"

definition getAdjustmentValue :: "nat \<Rightarrow> nat \<Rightarrow> nat" where
  "getAdjustmentValue a b = (if b \<noteq> 0 then a div b else 1)"

text \<open>\<open>sleeptime_t\<close> has 32 bits.\<close>

definition next_sleep :: "nat \<Rightarrow> nat \<Rightarrow> nat \<Rightarrow> nat" where
  "next_sleep currentSpeed maxSpeed sleepTime =
     (if currentSpeed > maxSpeed
      then (sleepTime + size_t (getAdjustmentValue currentSpeed maxSpeed * 5)) mod 2 ^ 32
      else (let adjustment = size_t (getAdjustmentValue maxSpeed currentSpeed * 5) in
            if sleepTime \<ge> adjustment then sleepTime - adjustment else 0))"

definition getSleepTime :: "app_world \<Rightarrow> stop + (nat \<times> app_world)" where
  "getSleepTime w =
     and_then (getCurrentTransferSpeed w) (\<lambda>currentSpeed.
     if c_maxTransferSpeed (w_cfg w) = NO_SPEED_LIMIT then Inr (0, w)
     else (let t = next_sleep currentSpeed (unat (c_maxTransferSpeed (w_cfg w))) (a_sleepTime (w_app w)) in
           Inr (t, on_app (\<lambda>a. a\<lparr>a_sleepTime := t\<rparr>) w)))"

definition sleeping :: "app_world \<Rightarrow> stop + app_world" where
  "sleeping w = and_then (getSleepTime w) (\<lambda>(t, w). Inr w)"

definition shouldSendXdccRequests :: "app_world \<Rightarrow> bool" where
  "shouldSendXdccRequests w \<longleftrightarrow>
     (case c_sendDelay (w_cfg w) of None \<Rightarrow> False
      | Some d \<Rightarrow> \<not> cfg_get_bit (w_cfg w) SENDED_FLAG \<and> timeToSendCommand d < os_time (w_os w))"

fun output_active :: "nat option list \<Rightarrow> nat \<Rightarrow> app_world \<Rightarrow> stop + app_world" where
  "output_active ps 0 w = Inr w"
| "output_active [] (Suc n) w = Inl OutOfBounds"
| "output_active (None # ps) (Suc n) w = Inl NullDeref"
| "output_active (Some i # ps) (Suc n) w =
     output_active ps n (on_context i (\<lambda>c. c\<lparr>x_progress := outputProgress (x_progress c)\<rparr>) w)"

definition output_all_progesses :: "app_world \<Rightarrow> stop + app_world" where
  "output_all_progesses w = output_active (a_downloadContext (w_app w)) (a_numActiveDownloads (w_app w)) w"

definition print_output_callback :: "app_world \<Rightarrow> stop + app_world" where
  "print_output_callback w =
     (let w = (if shouldSendXdccRequests w then send_xdcc_requests w else w) in
      and_then
        (if cfg_get_bit (w_cfg w) OUTPUT_FLAG
         then and_then (output_all_progesses w) (\<lambda>w. Inr (w\<lparr>w_cfg := cfg_clear_bit (w_cfg w) OUTPUT_FLAG\<rparr>))
         else Inr w) sleeping)"

text \<open>The signal handlers.\<close>

definition interrupt_handler :: "app_world \<Rightarrow> stop + app_world" where
  "interrupt_handler w =
     (if irc_is_connected (w_session w) then Inr (app_send (\<lambda>s. irc_cmd_quit s (Some ''Goodbye!'')) w)
      else Inl (exitPgm 0 w))"

definition output_handler :: "app_world \<Rightarrow> app_world" where
  "output_handler w =
     (let w = on_app (\<lambda>a. a\<lparr>a_alarm := 1\<rparr>) w in w\<lparr>w_cfg := cfg_set_bit (w_cfg w) OUTPUT_FLAG\<rparr>)"

section \<open>The callbacks together\<close>

text \<open>A callback function by its name. The reverse one is never stored as an ordinary callback, nor
  the other way round.\<close>

fun xg_dcc_cb :: "dcc_callback \<Rightarrow> nat \<Rightarrow> int \<Rightarrow> nat option \<Rightarrow> string option \<Rightarrow> nat \<Rightarrow> app_world \<Rightarrow> stop + app_world" where
  "xg_dcc_cb RECV_FILE = callback_dcc_recv_file"
| "xg_dcc_cb RESUME_FILE = callback_dcc_resume_file"
| "xg_dcc_cb RESUME_FILE_REVERSE = (\<lambda>i st c d n w. Inl NullDeref)"

fun xg_dcc_reverse_cb :: "dcc_callback \<Rightarrow> nat \<Rightarrow> int \<Rightarrow> nat option \<Rightarrow> string option \<Rightarrow> nat \<Rightarrow> addr option
    \<Rightarrow> string \<Rightarrow> nat \<Rightarrow> app_world \<Rightarrow> stop + app_world" where
  "xg_dcc_reverse_cb RESUME_FILE_REVERSE = callback_dcc_resume_file_reverse"
| "xg_dcc_reverse_cb _ = (\<lambda>i st c d n nick file token w. Inl NullDeref)"

text \<open>\<open>initCallbacks\<close>, with what \<open>main\<close> and \<open>irc_create_session\<close> add: the check of the sender and the
  built-in answer to CTCP requests.\<close>

definition initCallbacks :: "(string \<Rightarrow> nat option) \<Rightarrow> string \<Rightarrow> app irc_callbacks" where
  "initCallbacks dns now = no_callbacks
     \<lparr>event_connect := Some xg_event_connect, event_join := Some xg_event_join,
      event_dcc_send_req := Some recvFileRequest, event_dcc_send_req_reverse := Some recvFileRequestReverse,
      event_ctcp_rep := Some dump_event, event_ctcp_action := Some dump_event,
      event_unknown := Some dump_event, event_privmsg := Some dump_event,
      event_notice := Some xg_event_notice, event_umode := Some xg_event_umode,
      event_mode := Some xg_event_mode, event_numeric := Some (xg_event_numeric dns),
      event_ctcp_req := Some (libirc_event_ctcp_internal now),
      verify_incoming_dcc_requests_req := Some isValidRequestFromNick,
      keep_alive_callback := Some print_output_callback,
      dcc_cb := xg_dcc_cb, dcc_reverse_cb := xg_dcc_reverse_cb\<rparr>"

section \<open>The start of the program\<close>

definition initial_app :: "nat \<Rightarrow> app" where
  "initial_app n = \<lparr>a_contexts = [], a_downloadContext = replicate n None, a_numActiveDownloads = 0,
     a_finishedDownloads = 0, a_lastDownload = None, a_curDownload = None, a_sleepTime = 0, a_alarm = 0,
     a_files = (\<lambda>p. None), a_dirs = (\<lambda>p. False), a_checksums = []\<rparr>"

definition default_config :: "string \<Rightarrow> xdccGetConfig" where
  "default_config home = zero_config\<lparr>c_logLevel := LOG_WARN, c_port := 6667,
     c_maxTransferSpeed := NO_SPEED_LIMIT, c_targetDir := Some (home @ ''/'' @ ''Downloads'')\<rparr>"

text \<open>\<open>main\<close> up to the creation of the session; \<open>nick\<close> is the random nick of 24 letters.\<close>

definition main_config :: "string \<Rightarrow> string option \<Rightarrow> nat \<Rightarrow> arg_item list \<Rightarrow> string \<Rightarrow> stop + xdccGetConfig" where
  "main_config home file now items nick =
     and_then (parseConfigFile home file (default_config home)) (\<lambda>c.
     and_then (parseArguments now items c) (\<lambda>c.
     case c_args c of
       [Some server, Some channels, Some bots] \<Rightarrow>
         and_then (parseChannels channels) (\<lambda>chs.
         and_then (parseDccDownloads bots) (\<lambda>ds.
         let c = c\<lparr>c_ircServer := Some server\<rparr>;
             c = (case chs of None \<Rightarrow> c | Some l \<Rightarrow> c\<lparr>c_channelsToJoin := l, c_numChannels := length l\<rparr>);
             c = (case ds of None \<Rightarrow> c | Some (l, n) \<Rightarrow> c\<lparr>c_dccDownloadArray := l, c_numDownloads := n\<rparr>) in
         Inr (if c_nick c = None then c\<lparr>c_nick := Some nick\<rparr> else c)))
     | _ \<Rightarrow> Inl NullDeref))"

end
