(* ===== verification/Irc_Connect.thy ===== *)
theory Irc_Connect
  imports Dcc
begin

text \<open>
  Connecting to the server, \<open>libircclient.c\<close>: the choice of an address, opening the socket, waiting
  for the connection, the registration that is queued when it stands, and the end of a session; and
  the random numbers of \<open>os_unix.c\<close> with the nick they make. What \<open>getaddrinfo\<close> and \<open>random\<close> give are
  arguments; return codes of system calls come from the tape.
\<close>

section \<open>Random numbers\<close>

text \<open>\<open>r\<close> is what \<open>random\<close> returned, which is not negative, so C's remainder is this one.\<close>

definition rand_range :: "nat \<Rightarrow> int \<Rightarrow> int \<Rightarrow> int" where
  "rand_range r low high = (if high = 0 then 0 else int r mod \<bar>high\<bar> + low)"

definition nick_chars :: string where
  "nick_chars = ''abcdefghiklmnopqrstuvwxyzABCDEFGHIJHKLMOPQRSTUVWXYZ''"

text \<open>One random number for each letter.\<close>

definition createRandomNick :: "nat list \<Rightarrow> string" where
  "createRandomNick rs = map (\<lambda>r. nick_chars ! nat (rand_range r 0 (int (length nick_chars) - 1))) rs"

section \<open>The socket\<close>

datatype address_family = AF_UNSPEC | AF_INET | AF_INET6

text \<open>\<open>ssl_init\<close> is one answer of the tape: whether OpenSSL gave a connection object for the socket.\<close>

definition ssl_init :: "'a world \<Rightarrow> 'a world \<times> libirc_error" where
  "ssl_init w = (case os_ret w of (rc, w) \<Rightarrow>
     if rc = 0 then (on_session (\<lambda>s. s\<lparr>s_ssl := True\<rparr>) w, LIBIRC_ERR_OK) else (w, LIBIRC_ERR_SSL_INIT_FAILED))"

definition fail_with :: "libirc_error \<Rightarrow> 'a world \<Rightarrow> 'a world" where
  "fail_with e = on_session (\<lambda>s. s\<lparr>s_lasterror := e\<rparr>)"

definition init_socket :: "'a world \<Rightarrow> 'a world \<times> int" where
  "init_socket w =
     (case os_ret w of (sock, w) \<Rightarrow>
        let w = on_session (\<lambda>s. s\<lparr>s_sock := sock\<rparr>) w in
        if sock < 0 then (fail_with LIBIRC_ERR_SOCKET w, 1)
        else (case os_ret w of (nonblocking, w) \<Rightarrow>
          if nonblocking \<noteq> 0 then (fail_with LIBIRC_ERR_SOCKET w, 1)
          else if has_flag (w_session w) SESSIONFL_SSL_CONNECTION
          then (case ssl_init w of (w, rc) \<Rightarrow> if rc \<noteq> LIBIRC_ERR_OK then (fail_with rc w, 1) else (w, 0))
          else (w, 0)))"

text \<open>The two functions differ in the type of the address only.\<close>

definition try_to_connect :: "'a world \<Rightarrow> 'a world \<times> int" where
  "try_to_connect w =
     (case init_socket w of (w, ret) \<Rightarrow>
        if ret \<noteq> 0 then (fail_with LIBIRC_ERR_SOCKET w, -1)
        else (case os_ret w of (ret, w) \<Rightarrow>
          if ret \<noteq> 0 then (fail_with LIBIRC_ERR_SOCKET w, -1) else (w, 0)))"

definition isConnectionEstablished :: "'a world \<Rightarrow> 'a world \<times> bool" where
  "isConnectionEstablished w =
     (case os_ret w of (sockname, w) \<Rightarrow>
        if sockname \<ge> 0 then (w, True)
        else (case os_ret w of (peername, w) \<Rightarrow> (w, peername \<ge> 0)))"

text \<open>The first answer is whether the watcher reports the socket as writable.\<close>

definition hasConnection :: "'a world \<Rightarrow> 'a world \<times> bool" where
  "hasConnection w =
     (case os_ret w of (writable, w) \<Rightarrow> if writable > 0 then isConnectionEstablished w else (w, False))"

definition socket_close :: "'a world \<Rightarrow> 'a world" where
  "socket_close = on_session (\<lambda>s. s\<lparr>s_sock := -1\<rparr>)"

section \<open>Connecting\<close>

text \<open>The loop over the addresses from the selected one on. The status is \<open>0\<close> once a connection
  stands.\<close>

fun connect_first :: "address_family list \<Rightarrow> 'a world \<Rightarrow> 'a world \<times> int" where
  "connect_first [] w = (fail_with LIBIRC_ERR_CONNECT w, 1)"
| "connect_first (family # rest) w =
     (case (if family = AF_INET \<or> family = AF_INET6 then try_to_connect w else (w, -1)) of (w, ret) \<Rightarrow>
        if ret = -1 then (w, 1)
        else (case hasConnection w of (w, ok) \<Rightarrow>
          if ok then (w, 0) else connect_first rest (socket_close w)))"

text \<open>The names are stored; a server name that starts with the prefix asks for TLS.\<close>

definition store_names ::
  "string \<Rightarrow> string option \<Rightarrow> string \<Rightarrow> string option \<Rightarrow> string option \<Rightarrow> irc_session \<Rightarrow> irc_session" where
  "store_names server password nick username realname s =
     (let s = free_ircsession_strings s;
          tls = (server \<noteq> [] \<and> hd server = SSL_PREFIX);
          s = (if tls then s\<lparr>s_flags := or (s_flags s) SESSIONFL_SSL_CONNECTION\<rparr> else s) in
      s\<lparr>s_username := username, s_server_password := password, s_realname := realname, s_nick := Some nick,
        s_server := Some (if tls then tl server else server)\<rparr>)"

text \<open>\<open>dns\<close> gives the addresses of a name, \<open>r\<close> is the random number that selects one.\<close>

definition irc_connect_generic ::
  "'a world \<Rightarrow> string option \<Rightarrow> string option \<Rightarrow> string option \<Rightarrow> string option \<Rightarrow> string option
     \<Rightarrow> address_family \<Rightarrow> (string \<Rightarrow> address_family list option) \<Rightarrow> nat \<Rightarrow> 'a world \<times> int" where
  "irc_connect_generic w server password nick username realname protocol_family dns r =
     (case (server, nick) of
        (Some server, Some nick) \<Rightarrow>
          if s_state (w_session w) \<noteq> LIBIRC_STATE_INIT then (fail_with LIBIRC_ERR_STATE w, 1)
          else
            (let w = on_session (store_names server password nick username realname) w in
             case Option.bind (s_server (w_session w)) dns of
               None \<Rightarrow> (fail_with LIBIRC_ERR_RESOLV w, 1)
             | Some addresses \<Rightarrow>
                 (let selected = nat (rand_range r 0 (int (length addresses) - 1)) in
                  case connect_first (drop selected addresses) w of (w, ret) \<Rightarrow>
                    if ret \<noteq> 0 then (w, 1)
                    else (on_session (\<lambda>s. s\<lparr>s_state := LIBIRC_STATE_CONNECTING,
                            s_flags := (if protocol_family = AF_INET6 then or (s_flags s) SESSIONFL_USES_IPV6
                              else s_flags s)\<rparr>) w, 0)))
      | _ \<Rightarrow> (fail_with LIBIRC_ERR_INVAL w, 1))"

text \<open>The three ways the program connects, by the options of the command line.\<close>

type_synonym resolver = "string \<Rightarrow> address_family \<Rightarrow> address_family list option"

definition irc_connect ::
  "'a world \<Rightarrow> string option \<Rightarrow> string option \<Rightarrow> string option \<Rightarrow> string option \<Rightarrow> string option
     \<Rightarrow> resolver \<Rightarrow> nat \<Rightarrow> 'a world \<times> int" where
  "irc_connect w server password nick username realname dns r =
     irc_connect_generic w server password nick username realname AF_UNSPEC (\<lambda>name. dns name AF_UNSPEC) r"

definition irc_connect4 ::
  "'a world \<Rightarrow> string option \<Rightarrow> string option \<Rightarrow> string option \<Rightarrow> string option \<Rightarrow> string option
     \<Rightarrow> resolver \<Rightarrow> nat \<Rightarrow> 'a world \<times> int" where
  "irc_connect4 w server password nick username realname dns r =
     irc_connect_generic w server password nick username realname AF_INET (\<lambda>name. dns name AF_INET) r"

definition irc_connect6 ::
  "'a world \<Rightarrow> string option \<Rightarrow> string option \<Rightarrow> string option \<Rightarrow> string option \<Rightarrow> string option
     \<Rightarrow> resolver \<Rightarrow> nat \<Rightarrow> 'a world \<times> int" where
  "irc_connect6 w server password nick username realname dns r =
     irc_connect_generic w server password nick username realname AF_INET6 (\<lambda>name. dns name AF_INET6) r"

definition connect_to_server :: "'a world \<Rightarrow> resolver \<Rightarrow> nat \<Rightarrow> 'a world \<times> int" where
  "connect_to_server w dns r =
     (let c = w_cfg w in
      if cfg_get_bit c USE_IPV4_FLAG then irc_connect4 w (c_ircServer c) None (c_nick c) None None dns r
      else if cfg_get_bit c USE_IPV6_FLAG then irc_connect6 w (c_ircServer c) None (c_nick c) None None dns r
      else irc_connect w (c_ircServer c) None (c_nick c) None None dns r)"

text \<open>The three functions differ in the family of the addresses.\<close>

lemma connect_to_server_eq:
  "connect_to_server w dns r =
     (let c = w_cfg w;
          family = (if cfg_get_bit c USE_IPV4_FLAG then AF_INET else if cfg_get_bit c USE_IPV6_FLAG then AF_INET6 else AF_UNSPEC) in
      irc_connect_generic w (c_ircServer c) None (c_nick c) None None family (\<lambda>name. dns name family) r)"
  by (simp add: connect_to_server_def irc_connect_def irc_connect4_def irc_connect6_def Let_def)

section \<open>When the connection stands\<close>

text \<open>A line of \<open>snprintf\<close> into 256 bytes; \<open>NULL\<close> for \<open>%s\<close> is not defined.\<close>

definition line256 :: "string \<Rightarrow> string" where
  "line256 t = take 255 t"

text \<open>The lines a client introduces itself with.\<close>

definition introduce :: "'a world \<Rightarrow> stop + 'a world" where
  "introduce w =
     (let w = (case s_server_password (w_session w) of
            None \<Rightarrow> w
          | Some p \<Rightarrow> fst (w_send (\<lambda>s. irc_send_raw s (line256 (''PASS '' @ cstr p))) w)) in
      case s_nick (w_session w) of
        None \<Rightarrow> Inl NullDeref
      | Some nick \<Rightarrow>
          (let real = (case s_realname (w_session w) of None \<Rightarrow> ''realname'' | Some t \<Rightarrow> cstr t);
               w = fst (w_send (\<lambda>s. irc_send_raw s (line256 (''NICK '' @ cstr nick))) w) in
           Inr (fst (w_send (\<lambda>s. irc_send_raw s
             (line256 (''USER '' @ cstr nick @ '' '' @ cstr nick @ '' unknown :'' @ real))) w))))"

definition handle_connecting_state :: "'a world \<Rightarrow> stop + ('a world \<times> int)" where
  "handle_connecting_state w =
     (case os_ret w of (sockname, w) \<Rightarrow>
      case (if sockname < 0 then (-1, w) else os_ret w) of (peername, w) \<Rightarrow>
        if peername < 0
        then Inr (on_session (\<lambda>s. s\<lparr>s_state := LIBIRC_STATE_DISCONNECTED, s_lasterror := LIBIRC_ERR_CONNECT\<rparr>) w, 1)
        else and_then (introduce (on_session (\<lambda>s. s\<lparr>s_state := LIBIRC_STATE_CONNECTED\<rparr>) w)) (\<lambda>w. Inr (w, 0)))"

section \<open>The end of a session\<close>

fun remove_sessions :: "irc_dcc_session list \<Rightarrow> irc_session \<Rightarrow> irc_session" where
  "remove_sessions [] s = s"
| "remove_sessions (d # ds) s =
     remove_sessions ds (libirc_remove_dcc_session s (d_id d) False)"

definition irc_destroy_session :: "irc_session \<Rightarrow> irc_session" where
  "irc_destroy_session s =
     (let s = free_ircsession_strings s;
          s = (if s_sock s \<ge> 0 then s\<lparr>s_sock := -1\<rparr> else s);
          s = remove_sessions (s_dcc_sessions s) s in
      s\<lparr>s_ssl := False\<rparr>)"

end
