(* ===== verification/Trust.thy ===== *)
theory Trust
  imports Download Irc_Connect Sds_Refine
begin

text \<open>
  Whether a certificate is accepted: the callback OpenSSL asks about every certificate, the question at
  the console and the folder of certificates the user trusts (\<open>helper.c\<close>). A certificate is a value of
  OpenSSL; its text in PEM form and \<open>X509_check_ca\<close> are arguments.
\<close>

section \<open>The question\<close>

text \<open>\<open>fgets\<close> with a buffer of \<open>n\<close> bytes: the line it stores and the input that is left.\<close>

definition fgets :: "nat \<Rightarrow> string \<Rightarrow> (string \<times> string) option" where
  "fgets n input =
     (if input = [] then None
      else
        (let l = take (n - 1) input;
             line = (if LF \<in> set l then takeWhile (\<lambda>c. c \<noteq> LF) l @ [LF] else l) in
         Some (line, drop (length line) input)))"

definition to_lowercase :: "string \<Rightarrow> string" where
  "to_lowercase str = map to_lower (cstr str)"

text \<open>The buffer of ten bytes first holds what was on the stack, and still does at the end of the input.\<close>

definition ask_for_yes_via_console_input :: "string \<Rightarrow> string \<Rightarrow> stop + bool \<times> string" where
  "ask_for_yes_via_console_input stack stdin =
     (let old = fill 10 stack;
          (ret, input, rest) = (case fgets 10 stdin of
             None \<Rightarrow> (False, old, stdin) | Some (l, r) \<Rightarrow> (True, mem_put old 0 (l @ [NUL]), r));
          k = length (takeWhile (\<lambda>c. c \<noteq> NUL \<and> c \<noteq> LF) input) in
      if k \<ge> length input then Inl OutOfBounds
      else
        (let input = input[k := NUL] in
         if \<not> ret then Inr (False, rest)
         else (let s = to_lowercase input in Inr (s = ''y'' \<or> s = ''yes'', rest))))"

section \<open>The folder\<close>

definition get_custom_local_certs_folder :: "string \<Rightarrow> string" where
  "get_custom_local_certs_folder home = home @ ''/'' @ ''.xdccget'' @ ''/'' @ ''local-trusted-certs''"

text \<open>A name of 29 random letters; the string it is written to has 30 characters, and the last one stays.\<close>

definition cert_path :: "string \<Rightarrow> string \<Rightarrow> nat list \<Rightarrow> string" where
  "cert_path home init rs =
     get_custom_local_certs_folder home @ ''/'' @ cstr (mem_put (take 30 init) 0 (createRandomNick (take 29 rs))) @ ''.pem''"

text \<open>The loop that looks for a name that is not taken; \<open>rss\<close> are the random numbers of each round.\<close>

fun free_cert_path :: "(string \<Rightarrow> bool) \<Rightarrow> string \<Rightarrow> string \<Rightarrow> nat list list \<Rightarrow> string option" where
  "free_cert_path taken home init [] = None"
| "free_cert_path taken home init (rs # rss) =
     (let path = cert_path home init rs in if taken path then free_cert_path taken home init rss else Some path)"

text \<open>The file is emptied when it is opened; a failure to write leaves it so.\<close>

definition write_x509_certificate_to_file :: "string \<Rightarrow> string \<Rightarrow> app_world \<Rightarrow> int \<times> app_world" where
  "write_x509_certificate_to_file pem path w =
     (case os_ret w of (r, w) \<Rightarrow>
        if r < 0 then (-1, w)
        else (case os_ret w of (r, w) \<Rightarrow>
          if r = 0 then (-1, on_app (\<lambda>a. a\<lparr>a_files := (a_files a)(path \<mapsto> [])\<rparr>) w)
          else (0, on_app (\<lambda>a. a\<lparr>a_files := (a_files a)(path \<mapsto> pem)\<rparr>) w)))"

text \<open>\<open>lit\<close> is the memory that can be read at the empty string literal, from which 30 bytes are copied. The
  result is \<open>None\<close> when the given random numbers never give a free name.\<close>

definition add_x509_cert_to_local_ca_folder ::
  "string \<Rightarrow> string \<Rightarrow> nat list list \<Rightarrow> string \<Rightarrow> app_world \<Rightarrow> (stop + app_world) option" where
  "add_x509_cert_to_local_ca_folder home lit rss pem w =
     (case sdsnewlen (Some []) (InitBytes lit) 30 of
        Inl e \<Rightarrow> Some (Inl e)
      | Inr _ \<Rightarrow>
         (let folder = get_custom_local_certs_folder home;
              w = (if dir_exists w folder then w
                   else (case os_ret w of (r, w) \<Rightarrow>
                     if r = 0 then on_app (\<lambda>a. a\<lparr>a_dirs := (a_dirs a)(folder := True)\<rparr>) w else w)) in
          case free_cert_path (file_exists w) home lit rss of None \<Rightarrow> None
          | Some path \<Rightarrow> Some (Inr (snd (write_x509_certificate_to_file pem path w)))))"

section \<open>The callback\<close>

text \<open>What OpenSSL says of the certificate it is at.\<close>

record 'c store_ctx =
  t_cert :: "'c option"
  t_chain :: "'c list option"
  t_error :: int

definition X509_V_ERR_DEPTH_ZERO_SELF_SIGNED_CERT :: int where
  "X509_V_ERR_DEPTH_ZERO_SELF_SIGNED_CERT = 18"

definition X509_V_ERR_SELF_SIGNED_CERT_IN_CHAIN :: int where
  "X509_V_ERR_SELF_SIGNED_CERT_IN_CHAIN = 19"

definition get_ca_cert_of_chain :: "'c list option \<Rightarrow> 'c option" where
  "get_ca_cert_of_chain chain = (case chain of None \<Rightarrow> None | Some cs \<Rightarrow> if length cs > 1 then Some (cs ! (length cs - 1)) else None)"

text \<open>What surrounds the program: the home directory, the stack, the literal and the random numbers.\<close>

record surroundings =
  r_home :: string
  r_stack :: string
  r_lit :: string
  r_rand :: "nat list list"

definition ask_and_add ::
  "surroundings \<Rightarrow> string option \<Rightarrow> int \<Rightarrow> string \<Rightarrow> app_world \<Rightarrow> (stop + int \<times> string \<times> app_world) option" where
  "ask_and_add v pem verify_result stdin w =
     (case ask_for_yes_via_console_input (r_stack v) stdin of
        Inl e \<Rightarrow> Some (Inl e)
      | Inr (False, rest) \<Rightarrow> Some (Inr (verify_result, rest, w))
      | Inr (True, rest) \<Rightarrow>
         (case pem of None \<Rightarrow> Some (Inr (1, rest, w))
          | Some p \<Rightarrow>
             map_option (\<lambda>r. and_then r (\<lambda>w. Inr (1, rest, w)))
               (add_x509_cert_to_local_ca_folder (r_home v) (r_lit v) (r_rand v) p w)))"

definition openssl_check_certificate_callback ::
  "('c \<Rightarrow> int) \<Rightarrow> ('c \<Rightarrow> string) \<Rightarrow> surroundings \<Rightarrow> int \<Rightarrow> 'c store_ctx \<Rightarrow> string \<Rightarrow> app_world
     \<Rightarrow> (stop + int \<times> string \<times> app_world) option" where
  "openssl_check_certificate_callback check_ca pem v verify_result ctx stdin w =
     (case t_cert ctx of
        None \<Rightarrow> Some (Inr (0, stdin, w))
      | Some cert \<Rightarrow>
          if cfg_get_bit (w_cfg w) ALLOW_ALL_CERTS_FLAG then Some (Inr (1, stdin, w))
          else if verify_result = 0 then
            (if t_error ctx = X509_V_ERR_SELF_SIGNED_CERT_IN_CHAIN \<or> t_error ctx = X509_V_ERR_DEPTH_ZERO_SELF_SIGNED_CERT
             then ask_and_add v (Some (pem cert)) verify_result stdin w
             else (case get_ca_cert_of_chain (t_chain ctx) of
                 Some ca \<Rightarrow> ask_and_add v (if check_ca cert \<noteq> 0 then Some (pem ca) else None) verify_result stdin w
               | None \<Rightarrow> ask_and_add v None verify_result stdin w))
          else Some (Inr (verify_result, stdin, w)))"

section \<open>What an answer is\<close>

text \<open>What the user types up to the end of the line, nine characters at most, decides.\<close>

definition typed_yes :: "string \<Rightarrow> bool" where
  "typed_yes stdin \<longleftrightarrow>
     map to_lower (takeWhile (\<lambda>c. c \<noteq> NUL \<and> c \<noteq> LF) (take 9 stdin)) \<in> {''y'', ''yes''}"

lemma takeWhile_update: "k = length (takeWhile p xs) \<Longrightarrow> k < length xs \<Longrightarrow> (\<And>c. p c \<Longrightarrow> c \<noteq> NUL) \<Longrightarrow>
   cstr (xs[k := NUL]) = takeWhile p xs"
  by (induction xs arbitrary: k) (auto simp: cstr_def)

lemma fgets_line:
  assumes "stdin \<noteq> []"
  shows "\<exists>l r. fgets 10 stdin = Some (l, r) \<and> stdin = l @ r \<and> length l \<le> 9
    \<and> takeWhile (\<lambda>c. c \<noteq> NUL \<and> c \<noteq> LF) (l @ [NUL]) = takeWhile (\<lambda>c. c \<noteq> NUL \<and> c \<noteq> LF) (take 9 stdin)"
proof -
  let ?p = "\<lambda>c. c \<noteq> NUL \<and> c \<noteq> LF"
  let ?t = "take 9 stdin"
  let ?l = "if LF \<in> set ?t then takeWhile (\<lambda>c. c \<noteq> LF) ?t @ [LF] else ?t"
  have nul: "takeWhile ?p (x @ [NUL]) = takeWhile ?p x" for x by (induction x) simp_all
  have "\<exists>y. ?t = ?l @ y"
  proof (cases "LF \<in> set ?t")
    case True
    then obtain u v where u: "?t = u @ LF # v" "LF \<notin> set u" using split_list_first by fastforce
    have "takeWhile (\<lambda>c. c \<noteq> LF) (u @ LF # v) = u" using u(2) by (induction u) auto
    then have "?t = ?l @ v" using True u(1) by simp
    then show ?thesis by blast
  qed simp
  then obtain y where y: "?t = ?l @ y" by blast
  then have st: "stdin = ?l @ y @ drop 9 stdin" by (metis append_assoc append_take_drop_id)
  have "length ?l \<le> length ?t" using y by (metis length_append le_add1)
  then have len: "length ?l \<le> 9" by (metis le_trans length_take min.cobounded2)
  have "takeWhile ?p (takeWhile (\<lambda>c. c \<noteq> LF) x @ [LF]) = takeWhile ?p x" for x by (induction x) auto
  then have "takeWhile ?p (?l @ [NUL]) = takeWhile ?p ?t" unfolding nul by simp
  moreover have "fgets 10 stdin = Some (?l, drop (length ?l) stdin)" using assms by (simp add: fgets_def Let_def)
  moreover have "stdin = ?l @ drop (length ?l) stdin" using st by (metis append_eq_conv_conj)
  ultimately show ?thesis using len by blast
qed

lemma ask_answer:
  assumes "stdin \<noteq> []"
  shows "\<exists>l rest. stdin = l @ rest \<and> length l \<le> 9 \<and> fgets 10 stdin = Some (l, rest)
    \<and> ask_for_yes_via_console_input stack stdin = Inr (typed_yes stdin, rest)"
proof -
  let ?p = "\<lambda>c. c \<noteq> NUL \<and> c \<noteq> LF"
  obtain l r where f: "fgets 10 stdin = Some (l, r)" "stdin = l @ r" "length l \<le> 9"
    "takeWhile ?p (l @ [NUL]) = takeWhile ?p (take 9 stdin)" using fgets_line [OF assms] by blast
  let ?b = "mem_put (fill 10 stack) 0 (l @ [NUL])"
  have b: "?b = (l @ [NUL]) @ drop (length l + 1) (fill 10 stack)" by (simp add: mem_put_def)
  have tw: "takeWhile ?p ?b = takeWhile ?p (take 9 stdin)" unfolding b f(4) [symmetric] by (subst takeWhile_append1 [of NUL]) simp_all
  have k: "length (takeWhile ?p ?b) < length ?b"
    using f(3,4) length_takeWhile_le [of ?p "take 9 stdin"] unfolding tw by (simp add: b)
  have "cstr (?b[length (takeWhile ?p ?b) := NUL]) = takeWhile ?p ?b" by (rule takeWhile_update [OF refl k]) simp
  then have "ask_for_yes_via_console_input stack stdin = Inr (typed_yes stdin, r)"
    using k f(1) by (simp add: ask_for_yes_via_console_input_def to_lowercase_def typed_yes_def tw Let_def)
  then show ?thesis using f by blast
qed

lemma ask_yes: "ask_for_yes_via_console_input stack stdin = Inr (True, rest) \<Longrightarrow> typed_yes stdin"
proof (cases "stdin = []")
  case True
  assume "ask_for_yes_via_console_input stack stdin = Inr (True, rest)"
  then show ?thesis using True by (auto simp: ask_for_yes_via_console_input_def fgets_def Let_def split: if_splits)
qed (use ask_answer [of stdin stack] in auto)

text \<open>The rest of an answer that is too long answers the next question.\<close>

lemma overlong_answer_answers_twice:
  "ask_for_yes_via_console_input stack ''no thanksyes'' = Inr (False, ''yes'')
   \<and> ask_for_yes_via_console_input stack ''yes'' = Inr (True, [])"
proof -
  have t: "\<not> typed_yes ''no thanksyes''" "typed_yes ''yes''" by code_simp+
  have f: "fgets 10 ''no thanksyes'' = Some (''no thanks'', ''yes'')" "fgets 10 ''yes'' = Some (''yes'', [])" by code_simp+
  show ?thesis using ask_answer [of "''no thanksyes''" stack] ask_answer [of "''yes''" stack] t f by auto
qed

section \<open>What is added\<close>

lemma free_cert_path_free: "free_cert_path taken home init rss = Some p \<Longrightarrow>
   \<not> taken p \<and> (\<exists>n. p = get_custom_local_certs_folder home @ ''/'' @ n @ ''.pem'')"
  by (induction taken home init rss rule: free_cert_path.induct) (auto simp: Let_def cert_path_def split: if_splits)

lemma write_cert_files:
  "q \<noteq> p \<Longrightarrow> a_files (w_app (snd (write_x509_certificate_to_file pem p w))) q = a_files (w_app w) q"
  by (auto simp: write_x509_certificate_to_file_def split: prod.splits) (metis os_ret_frame(5) snd_conv)+

lemma add_cert_files:
  assumes "add_x509_cert_to_local_ca_folder home lit rss pem w = Some (Inr w')"
  shows "\<exists>p n. p = get_custom_local_certs_folder home @ ''/'' @ n @ ''.pem'' \<and> \<not> file_exists w p
    \<and> (\<forall>q. q \<noteq> p \<longrightarrow> a_files (w_app w') q = a_files (w_app w) q)"
proof -
  let ?f = "get_custom_local_certs_folder home"
  define v where "v = (if dir_exists w ?f then w else (case os_ret w of (r, w) \<Rightarrow>
    if r = 0 then on_app (\<lambda>a. a\<lparr>a_dirs := (a_dirs a)(?f := True)\<rparr>) w else w))"
  have same: "a_files (w_app v) = a_files (w_app w)"
    using os_ret_frame(5) [of w] by (cases "os_ret w") (auto simp: v_def)
  obtain p where p: "free_cert_path (file_exists v) home lit rss = Some p" "w' = snd (write_x509_certificate_to_file pem p v)"
    using assms unfolding add_x509_cert_to_local_ca_folder_def Let_def v_def [symmetric]
    by (auto split: sum.splits option.splits)
  have "\<not> file_exists w p" using free_cert_path_free [OF p(1)] same by (simp add: file_exists_def)
  then show ?thesis using free_cert_path_free [OF p(1)] write_cert_files [of _ p pem v] same p(2) by auto
qed

text \<open>Only a new file of the folder, and only after a yes.\<close>

definition adds_only :: "string \<Rightarrow> string \<Rightarrow> app_world \<Rightarrow> app_world \<Rightarrow> bool" where
  "adds_only home stdin w w' \<longleftrightarrow> (\<forall>q. a_files (w_app w') q \<noteq> a_files (w_app w) q \<longrightarrow>
     typed_yes stdin \<and> \<not> file_exists w q \<and> (\<exists>n. q = get_custom_local_certs_folder home @ ''/'' @ n @ ''.pem''))"

lemma ask_and_add_safe:
  assumes "ask_and_add v pem verify_result stdin w = Some (Inr (r, rest, w'))"
  shows "(r = verify_result \<or> r = 1 \<and> typed_yes stdin) \<and> adds_only (r_home v) stdin w w'"
proof -
  obtain ok rest' where a: "ask_for_yes_via_console_input (r_stack v) stdin = Inr (ok, rest')"
    using assms by (auto simp: ask_and_add_def split: sum.splits)
  show ?thesis
  proof (cases "ok \<and> pem \<noteq> None")
    case True
    then obtain p where p: "pem = Some p" by auto
    have y: "typed_yes stdin" using a True ask_yes by auto
    obtain x where x: "add_x509_cert_to_local_ca_folder (r_home v) (r_lit v) (r_rand v) p w = Some (Inr x)" "w' = x" "r = 1"
      using assms a True p by (auto simp: ask_and_add_def and_then_Inr_iff)
    then show ?thesis using add_cert_files [OF x(1)] y unfolding adds_only_def by metis
  next
    case False
    then show ?thesis using assms a ask_yes by (cases ok) (auto simp: ask_and_add_def adds_only_def)
  qed
qed


text \<open>The string for the file name of an accepted certificate is made from the empty literal with a length
  of 30: unless the memory behind the literal happens to be readable, saving a self-signed
  certificate the user has said yes to reads out of bounds.\<close>

theorem accepted_certificate_overreads:
  assumes "t_cert ctx = Some c" and "\<not> cfg_get_bit (w_cfg w) ALLOW_ALL_CERTS_FLAG"
    and "t_error ctx = X509_V_ERR_DEPTH_ZERO_SELF_SIGNED_CERT" and "stdin \<noteq> []" and "typed_yes stdin" and "length (r_lit v) < 30"
  shows "openssl_check_certificate_callback check_ca pem v 0 ctx stdin w = Some (Inl OutOfBounds)"
proof -
  obtain rest where "ask_for_yes_via_console_input (r_stack v) stdin = Inr (True, rest)"
    using ask_answer [OF assms(4)] assms(5) by auto
  moreover have "sdsnewlen (Some []) (InitBytes (r_lit v)) 30 = Inl OutOfBounds"
    using assms(6) by (simp add: sdsnewlen_def Let_def done_with_def)
  ultimately show ?thesis using assms(1-3)
    by (simp add: openssl_check_certificate_callback_def ask_and_add_def add_x509_cert_to_local_ca_folder_def)
qed

lemma free_cert_path_ends: "rs \<in> set rss \<Longrightarrow> \<not> taken (cert_path home init rs) \<Longrightarrow> \<exists>p. free_cert_path taken home init rss = Some p"
  by (induction taken home init rss rule: free_cert_path.induct) (auto simp: Let_def)

text \<open>A yes is enough when the literal is long enough and one of the random names is free.\<close>

lemma yes_accepts:
  assumes "t_cert ctx = Some c" and "\<not> cfg_get_bit (w_cfg w) ALLOW_ALL_CERTS_FLAG"
    and "t_error ctx = X509_V_ERR_DEPTH_ZERO_SELF_SIGNED_CERT" and "stdin \<noteq> []" and "typed_yes stdin"
    and "30 \<le> length (r_lit v)" and "rs \<in> set (r_rand v)" and "\<not> file_exists w (cert_path (r_home v) (r_lit v) rs)"
  shows "\<exists>rest w'. openssl_check_certificate_callback check_ca pem v 0 ctx stdin w = Some (Inr (1, rest, w'))"
proof -
  obtain rest where ask: "ask_for_yes_via_console_input (r_stack v) stdin = Inr (True, rest)"
    using ask_answer [OF assms(4)] assms(5) by auto
  obtain s where s: "sdsnewlen (Some []) (InitBytes (r_lit v)) 30 = Inr (Some s)"
    using sdsnewlen_ok [OF assms(6), of "[]"] by auto
  let ?f = "get_custom_local_certs_folder (r_home v)"
  define x where "x = (if dir_exists w ?f then w else (case os_ret w of (r, w) \<Rightarrow>
    if r = 0 then on_app (\<lambda>a. a\<lparr>a_dirs := (a_dirs a)(?f := True)\<rparr>) w else w))"
  have "a_files (w_app x) = a_files (w_app w)"
    using os_ret_frame(5) [of w] by (cases "os_ret w") (auto simp: x_def)
  then obtain p where p: "free_cert_path (file_exists x) (r_home v) (r_lit v) (r_rand v) = Some p"
    using free_cert_path_ends [OF assms(7)] assms(8) by (metis file_exists_def)
  have "add_x509_cert_to_local_ca_folder (r_home v) (r_lit v) (r_rand v) (pem c) w
     = Some (Inr (snd (write_x509_certificate_to_file (pem c) p x)))"
    unfolding add_x509_cert_to_local_ca_folder_def Let_def x_def [symmetric] s by (simp add: p)
  then show ?thesis using assms(1-3) ask by (simp add: openssl_check_certificate_callback_def ask_and_add_def)
qed

section \<open>Witnesses\<close>

definition demo_surroundings :: "string \<Rightarrow> surroundings" where
  "demo_surroundings lit = \<lparr>r_home = ''/h'', r_stack = [], r_lit = lit, r_rand = [replicate 29 0]\<rparr>"

definition demo_trust_world :: app_world where
  "demo_trust_world = fresh_world irc_create_session zero_config (initial_app 1)"

definition demo_self_signed :: "nat store_ctx" where
  "demo_self_signed = \<lparr>t_cert = Some 7, t_chain = Some [7], t_error = 18\<rparr>"

abbreviation demo_callback :: "string \<Rightarrow> (stop + int \<times> string \<times> app_world) option" where
  "demo_callback lit \<equiv> openssl_check_certificate_callback (\<lambda>c. 0) (\<lambda>c. ''PEM'') (demo_surroundings lit) 0 demo_self_signed
     (''Yes'' @ [LF]) demo_trust_world"

lemma demo_facts:
  "t_cert demo_self_signed = Some 7" "t_error demo_self_signed = X509_V_ERR_DEPTH_ZERO_SELF_SIGNED_CERT"
  "\<not> cfg_get_bit (w_cfg demo_trust_world) ALLOW_ALL_CERTS_FLAG" "typed_yes (''Yes'' @ [LF])"
  by (simp add: demo_self_signed_def, code_simp, code_simp, code_simp)


theorem accepted_certificate_overreads_witness: "demo_callback [NUL] = Some (Inl OutOfBounds)"
  by (rule accepted_certificate_overreads [OF demo_facts(1,3,2) _ demo_facts(4)]) (simp_all add: demo_surroundings_def)

end
