(* ===== verification/Tls_Context.thy ===== *)
theory Tls_Context
  imports Trust
begin

text \<open>
  The TLS context of the program (\<open>ssl.c\<close>): a variable of the file that the first connection fills and
  every later one uses. What OpenSSL and the folder of certificates answer is a record; the context keeps the
  settings that were made.
\<close>

section \<open>State\<close>

record 'c ssl_ctx =
  k_ciphers :: "string option"
  k_verify_peer :: bool
  k_default_paths :: bool
  k_min_proto :: nat
  k_modes :: bool
  k_store :: "'c list"

text \<open>What \<open>SSL_CTX_new\<close> makes: no verification and no lower bound for the protocol.\<close>

definition SSL_CTX_new :: "'c ssl_ctx" where
  "SSL_CTX_new = \<lparr>k_ciphers = None, k_verify_peer = False, k_default_paths = False, k_min_proto = 0, k_modes = False, k_store = []\<rparr>"

record 'c ssl_answers =
  n_init_ssl :: int
  n_rand_status :: int
  n_ctx_new :: bool
  n_cipher_list :: int
  n_default_paths :: int
  n_min_proto :: int
  n_store_paths :: int
  n_dir :: "string list option"
  n_pem :: "string \<Rightarrow> 'c option"
  n_add :: "'c \<Rightarrow> bool"
  n_ssl_new :: bool
  n_set_fd :: int

definition isSslIntitialized :: "'c ssl_ctx option \<Rightarrow> bool" where
  "isSslIntitialized k \<longleftrightarrow> k \<noteq> None"

section \<open>Certificates of the folder\<close>

definition is_pem_cert_file :: "string \<Rightarrow> bool" where
  "is_pem_cert_file filename \<longleftrightarrow>
     ends_with filename ''.pem'' \<or> ends_with filename ''.crt'' \<or> ends_with filename ''.cer''"

definition add_pem_file_to_store :: "'c ssl_answers \<Rightarrow> string \<Rightarrow> 'c list \<Rightarrow> int \<times> 'c list" where
  "add_pem_file_to_store a path store =
     (case n_pem a path of None \<Rightarrow> (0, store) | Some c \<Rightarrow> (1, if n_add a c then store @ [c] else store))"

definition PATH_MAX :: nat where
  "PATH_MAX = 4096"

fun load_entries :: "'c ssl_answers \<Rightarrow> string \<Rightarrow> string list \<Rightarrow> 'c list \<Rightarrow> 'c list" where
  "load_entries a dirpath [] store = store"
| "load_entries a dirpath (name # names) store =
     (if (name @ [NUL]) ! 0 = CHR ''.'' then load_entries a dirpath names store
      else if \<not> is_pem_cert_file name then load_entries a dirpath names store
      else load_entries a dirpath names
        (snd (add_pem_file_to_store a (take (PATH_MAX - 1) (dirpath @ ''/'' @ name)) store)))"

definition load_pems_from_dir_into_store :: "'c ssl_answers \<Rightarrow> string \<Rightarrow> 'c list \<Rightarrow> int \<times> 'c list" where
  "load_pems_from_dir_into_store a dirpath store =
     (case n_dir a of None \<Rightarrow> (0, store) | Some names \<Rightarrow> (1, load_entries a dirpath names store))"

text \<open>The Windows version goes through the entries of a search, tells folders apart, does not skip
  names that start with a dot, and returns whether a certificate was read.\<close>

definition MAX_PATH :: nat where
  "MAX_PATH = 260"

fun load_entries_windows :: "'c ssl_answers \<Rightarrow> string \<Rightarrow> (string \<times> bool) list \<Rightarrow> int \<times> 'c list \<Rightarrow> int \<times> 'c list" where
  "load_entries_windows a dirpath [] r = r"
| "load_entries_windows a dirpath ((name, is_folder) # entries) (found, store) =
     (if is_folder then load_entries_windows a dirpath entries (found, store)
      else if \<not> is_pem_cert_file name then load_entries_windows a dirpath entries (found, store)
      else (case add_pem_file_to_store a (take (MAX_PATH - 1) (dirpath @ [char_of (92 :: nat)] @ name)) store of
          (read, store) \<Rightarrow> load_entries_windows a dirpath entries (if read \<noteq> 0 then 1 else found, store)))"

definition load_pems_from_dir_windows ::
  "'c ssl_answers \<Rightarrow> string \<Rightarrow> (string \<times> bool) list option \<Rightarrow> 'c list \<Rightarrow> int \<times> 'c list" where
  "load_pems_from_dir_windows a dirpath search store =
     (case search of None \<Rightarrow> (0, store) | Some entries \<Rightarrow> load_entries_windows a dirpath entries (0, store))"

lemma load_entries_windows_from:
  "c \<in> set (snd (load_entries_windows a dirpath entries r)) \<Longrightarrow> c \<in> set (snd r) \<or>
    (\<exists>name. (name, False) \<in> set entries \<and> is_pem_cert_file name
      \<and> n_pem a (take (MAX_PATH - 1) (dirpath @ [char_of (92 :: nat)] @ name)) = Some c)"
proof (induction a dirpath entries r rule: load_entries_windows.induct)
  case (2 a dirpath name is_folder entries found store)
  show ?case
  proof (cases "is_folder \<or> \<not> is_pem_cert_file name")
    case True
    with 2 show ?thesis by (auto split: if_splits)
  next
    case False
    obtain rd st where r: "add_pem_file_to_store a (take (MAX_PATH - 1) (dirpath @ [char_of (92 :: nat)] @ name)) store = (rd, st)"
      by fastforce
    have "c \<in> set st \<Longrightarrow> c \<in> set store \<or> n_pem a (take (MAX_PATH - 1) (dirpath @ [char_of (92 :: nat)] @ name)) = Some c"
      using r by (auto simp: add_pem_file_to_store_def split: option.splits if_splits)
    with 2 False r show ?thesis by (auto split: if_splits)
  qed
qed simp

text \<open>Only files with the name of a certificate are trusted there, too, but hidden ones are not skipped.\<close>

lemma windows_store_from:
  assumes "c \<in> set (snd (load_pems_from_dir_windows a dirpath search []))"
  shows "\<exists>entries name. search = Some entries \<and> (name, False) \<in> set entries \<and> is_pem_cert_file name
    \<and> n_pem a (take (MAX_PATH - 1) (dirpath @ [char_of (92 :: nat)] @ name)) = Some c"
  using assms load_entries_windows_from [of c a dirpath _ "(0, [])"]
  by (fastforce simp: load_pems_from_dir_windows_def split: option.splits)

section \<open>The context\<close>

definition PREFERRED_CIPHERS :: string where
  "PREFERRED_CIPHERS = ''ALL:!RC4:!PSK:!SRP:!ADH:!LOW:!EXP:!MD5:!aNULL@STRENGTH''"

definition TLS1_2_VERSION :: nat where
  "TLS1_2_VERSION = 0x0303"

text \<open>The variable afterwards and the status. It is set before the settings are made, and stays set when one
  of them fails.\<close>

definition initSslContext ::
  "'c ssl_answers \<Rightarrow> string \<Rightarrow> bool \<Rightarrow> 'c ssl_ctx option \<Rightarrow> 'c ssl_ctx option \<times> libirc_error" where
  "initSslContext a home has_callback k =
     (if n_init_ssl a = 0 then (k, LIBIRC_ERR_SSL_INIT_FAILED)
      else if n_rand_status a \<noteq> 1 then (k, LIBIRC_ERR_SSL_INIT_FAILED)
      else if \<not> n_ctx_new a then (None, LIBIRC_ERR_SSL_INIT_FAILED)
      else
        (let k = SSL_CTX_new in
         if n_cipher_list a \<noteq> 1 then (Some k, LIBIRC_ERR_SSL_INIT_FAILED)
         else
           (let k = k\<lparr>k_ciphers := Some PREFERRED_CIPHERS, k_verify_peer := has_callback\<rparr> in
            if n_default_paths a = 0 then (Some k, LIBIRC_ERR_SSL_INIT_FAILED)
            else
              (let k = k\<lparr>k_default_paths := True\<rparr> in
               if n_min_proto a = 0 then (Some k, LIBIRC_ERR_SSL_INIT_FAILED)
               else
                 (let k = k\<lparr>k_min_proto := TLS1_2_VERSION, k_modes := True\<rparr> in
                  if n_store_paths a \<noteq> 1 then (Some k, LIBIRC_ERR_SSL_INIT_FAILED)
                  else
                    (let store = snd (load_pems_from_dir_into_store a (get_custom_local_certs_folder home) []) in
                     (Some (k\<lparr>k_store := store\<rparr>), LIBIRC_ERR_OK)))))))"

text \<open>A connection takes the settings of the context. The result is the variable, the connection and the
  status.\<close>

definition ssl_init_connection ::
  "'c ssl_answers \<Rightarrow> string \<Rightarrow> bool \<Rightarrow> 'c ssl_ctx option \<Rightarrow> 'c ssl_ctx option \<times> 'c ssl_ctx option \<times> libirc_error" where
  "ssl_init_connection a home has_callback k =
     (let (k, ret) = (if isSslIntitialized k then (k, LIBIRC_ERR_OK) else initSslContext a home has_callback k) in
      if ret \<noteq> LIBIRC_ERR_OK then (k, None, ret)
      else if \<not> n_ssl_new a then (k, None, LIBIRC_ERR_SSL_INIT_FAILED)
      else if n_set_fd a \<noteq> 1 then (k, k, LIBIRC_ERR_SSL_INIT_FAILED)
      else (k, k, LIBIRC_ERR_OK))"

section \<open>Properties\<close>

lemma load_entries_from:
  "c \<in> set (load_entries a dirpath names store) \<Longrightarrow> c \<in> set store \<or>
    (\<exists>name \<in> set names. is_pem_cert_file name \<and> (name @ [NUL]) ! 0 \<noteq> CHR ''.''
      \<and> n_pem a (take (PATH_MAX - 1) (dirpath @ ''/'' @ name)) = Some c)"
proof (induction a dirpath names store rule: load_entries.induct)
  case (2 a dirpath name names store)
  then show ?case by (auto simp: add_pem_file_to_store_def split: if_splits option.splits)
qed simp

text \<open>A certificate of a visible certificate file of the folder.\<close>

definition in_folder :: "'c ssl_answers \<Rightarrow> string \<Rightarrow> 'c \<Rightarrow> bool" where
  "in_folder a home x \<longleftrightarrow> (\<exists>names. n_dir a = Some names \<and> (\<exists>name \<in> set names. is_pem_cert_file name
     \<and> (name @ [NUL]) ! 0 \<noteq> CHR ''.''
     \<and> n_pem a (take (PATH_MAX - 1) (get_custom_local_certs_folder home @ ''/'' @ name)) = Some x))"

lemma initSslContext_ok:
  assumes "initSslContext a home cb k = (Some k', LIBIRC_ERR_OK)"
  shows "k_verify_peer k' = cb \<and> k_min_proto k' = TLS1_2_VERSION \<and> k_ciphers k' = Some PREFERRED_CIPHERS
    \<and> (\<forall>x \<in> set (k_store k'). in_folder a home x)"
proof -
  have k: "k' = SSL_CTX_new\<lparr>k_ciphers := Some PREFERRED_CIPHERS, k_verify_peer := cb, k_default_paths := True,
    k_min_proto := TLS1_2_VERSION, k_modes := True,
    k_store := snd (load_pems_from_dir_into_store a (get_custom_local_certs_folder home) [])\<rparr>"
    using assms by (auto simp: initSslContext_def Let_def split: if_splits)
  have "in_folder a home x" if "x \<in> set (k_store k')" for x
    using that load_entries_from [of x a "get_custom_local_certs_folder home" _ "[]"] unfolding k in_folder_def
    by (fastforce simp: load_pems_from_dir_into_store_def split: option.splits)
  then show ?thesis by (simp add: k)
qed


definition demo_answers :: "nat ssl_answers" where
  "demo_answers = \<lparr>n_init_ssl = 1, n_rand_status = 1, n_ctx_new = True, n_cipher_list = 1, n_default_paths = 1,
     n_min_proto = 1, n_store_paths = 1, n_dir = Some [''.x.pem'', ''a.pem'', ''readme''], n_pem = (\<lambda>p. Some 7),
     n_add = (\<lambda>c. True), n_ssl_new = True, n_set_fd = 1\<rparr>"




end
