(* ===== verification/Getopt.thy ===== *)
theory Getopt
  imports Config
begin

text \<open>
  The option parser of the Windows build, \<open>getopt.c\<close>. Its static variables are a record; a pointer into
  the word that is being read is the word and a position. The error texts go to the terminal and are left
  out. \<open>argv\<close> has \<open>nargc\<close> words, and \<open>NULL\<close> behind them.
\<close>

section \<open>State\<close>

datatype arg_kind = no_argument | required_argument | optional_argument

record long_option =
  o_name :: string
  o_has_arg :: arg_kind
  o_flag :: "nat option"
  o_val :: int

record getopt_state =
  g_argv :: "string list"
  g_optind :: nat
  g_optopt :: int
  g_optreset :: bool
  g_optarg :: "string option"
  g_text :: string
  g_at :: nat
  g_nonopt_start :: "nat option"
  g_nonopt_end :: "nat option"
  g_index :: nat
  g_flags :: "nat \<Rightarrow> int"

definition initial_getopt :: "string list \<Rightarrow> getopt_state" where
  "initial_getopt argv = \<lparr>g_argv = argv, g_optind = 1, g_optopt = 63, g_optreset = False, g_optarg = None, g_text = [], g_at = 0,
     g_nonopt_start = None, g_nonopt_end = None, g_index = 0, g_flags = (\<lambda>f. 0)\<rparr>"

text \<open>\<open>place\<close>, what it points to, and \<open>EMSG\<close>.\<close>

definition place :: "getopt_state \<Rightarrow> string" where
  "place st = drop (g_at st) (g_text st)"

definition to_EMSG :: "getopt_state \<Rightarrow> getopt_state" where
  "to_EMSG st = st\<lparr>g_text := [], g_at := 0\<rparr>"

definition char_at :: "string \<Rightarrow> nat \<Rightarrow> char" where
  "char_at s i = (if i < length s then s ! i else NUL)"

datatype getopt_fault = DivisionByZero | OutsideArgv

type_synonym getopt_result = "getopt_fault + getopt_state \<times> int"

definition BADCH :: int where
  "BADCH = 63"

definition BADARG :: "string \<Rightarrow> int" where
  "BADARG options = (if char_at options 0 = CHR '':'' then 58 else 63)"

definition INORDER :: int where
  "INORDER = 1"

section \<open>Exchanging blocks\<close>

text \<open>The remainder by zero is undefined.\<close>

function c_gcd :: "nat \<Rightarrow> nat \<Rightarrow> getopt_fault + nat" where
  "c_gcd a b = (if b = 0 then Inl DivisionByZero else if a mod b \<noteq> 0 then c_gcd b (a mod b) else Inr b)"
  by pat_completeness auto
termination by (relation "measure snd") auto

declare c_gcd.simps [simp del]

text \<open>The inner loop: \<open>k\<close> rounds are left.\<close>

fun permute_cycle :: "nat \<Rightarrow> nat \<Rightarrow> nat \<Rightarrow> nat \<Rightarrow> nat \<Rightarrow> nat \<Rightarrow> string list \<Rightarrow> string list" where
  "permute_cycle nnonopts nopts panonopt_end cstart 0 pos nargv = nargv"
| "permute_cycle nnonopts nopts panonopt_end cstart (Suc k) pos nargv =
     (let pos = (if pos \<ge> panonopt_end then pos - nnonopts else pos + nopts);
          swap = nargv ! pos in
      permute_cycle nnonopts nopts panonopt_end cstart k pos (nargv[pos := nargv ! cstart, cstart := swap]))"

definition permute_args :: "nat \<Rightarrow> nat \<Rightarrow> nat \<Rightarrow> string list \<Rightarrow> getopt_fault + string list" where
  "permute_args panonopt_start panonopt_end opt_end nargv =
     (let nnonopts = panonopt_end - panonopt_start; nopts = opt_end - panonopt_end in
      and_then (c_gcd nnonopts nopts) (\<lambda>ncycle.
        (let cyclelen = (opt_end - panonopt_start) div ncycle in
         if opt_end > length nargv then Inl OutsideArgv
         else Inr (fold (\<lambda>i nargv. permute_cycle nnonopts nopts panonopt_end (panonopt_end + i) cyclelen (panonopt_end + i) nargv)
            [0..<ncycle] nargv))))"

section \<open>Long options\<close>

text \<open>The loop over the table: the match, and whether it is ambiguous. \<open>len\<close> characters of the word count.\<close>

definition IDENTICAL_INTERPRETATION :: "long_option \<Rightarrow> long_option \<Rightarrow> bool" where
  "IDENTICAL_INTERPRETATION x y \<longleftrightarrow> o_has_arg x = o_has_arg y \<and> o_flag x = o_flag y \<and> o_val x = o_val y"

fun find_long :: "long_option list \<Rightarrow> string \<Rightarrow> nat \<Rightarrow> bool \<Rightarrow> long_option list \<Rightarrow> nat \<Rightarrow> nat option \<Rightarrow> bool \<Rightarrow> nat option \<times> bool" where
  "find_long opts cur len short_too [] i m ambiguous = (m, ambiguous)"
| "find_long opts cur len short_too (p # ps) i m ambiguous =
     (if \<not> strn_equals cur (o_name p) len then find_long opts cur len short_too ps (Suc i) m ambiguous
      else if length (o_name p) = len then (Some i, False)
      else if short_too \<and> len = 1 then find_long opts cur len short_too ps (Suc i) m ambiguous
      else (case m of
          None \<Rightarrow> find_long opts cur len short_too ps (Suc i) (Some i) ambiguous
        | Some k \<Rightarrow> find_long opts cur len short_too ps (Suc i) m
            (if \<not> IDENTICAL_INTERPRETATION p (opts ! k) then True else ambiguous)))"

definition split_equal :: "string \<Rightarrow> nat \<times> string option" where
  "split_equal cur =
     (if CHR ''='' \<in> set cur
      then (let n = length (takeWhile (\<lambda>c. c \<noteq> CHR ''='') cur) in (n, Some (drop (Suc n) cur)))
      else (length cur, None))"

definition parse_long_options :: "string \<Rightarrow> long_option list \<Rightarrow> bool \<Rightarrow> getopt_state \<Rightarrow> getopt_state \<times> int" where
  "parse_long_options options long short_too st =
     (let cur = place st;
          st = st\<lparr>g_optind := Suc (g_optind st)\<rparr>;
          (len, has_equal) = split_equal cur;
          (m, ambiguous) = find_long long cur len short_too long 0 None False in
      if ambiguous then (st\<lparr>g_optopt := 0\<rparr>, BADCH)
      else
        (case m of
           None \<Rightarrow>
             if short_too then (st\<lparr>g_optind := g_optind st - 1\<rparr>, -1)
             else (st\<lparr>g_optopt := 0\<rparr>, BADCH)
         | Some i \<Rightarrow>
             (let p = long ! i; code = (if o_flag p = None then o_val p else 0) in
              if o_has_arg p = no_argument \<and> has_equal \<noteq> None then (st\<lparr>g_optopt := code\<rparr>, BADARG options)
              else
                (let st = (if o_has_arg p = no_argument then st
                       else case has_equal of
                         Some v \<Rightarrow> st\<lparr>g_optarg := Some v\<rparr>
                       | None \<Rightarrow>
                           if o_has_arg p = required_argument
                           then st\<lparr>g_optarg := (if g_optind st < length (g_argv st) then Some (g_argv st ! g_optind st) else None),
                                   g_optind := Suc (g_optind st)\<rparr>
                           else st) in
                 if o_has_arg p = required_argument \<and> g_optarg st = None
                 then (st\<lparr>g_optopt := code, g_optind := g_optind st - 1\<rparr>, BADARG options)
                 else
                   (let st = st\<lparr>g_index := i\<rparr> in
                    case o_flag p of
                      Some f \<Rightarrow> (st\<lparr>g_flags := (g_flags st)(f := o_val p)\<rparr>, 0)
                    | None \<Rightarrow> (st, o_val p))))))"

section \<open>The scanner\<close>

text \<open>\<open>strchr\<close> on the short options: the place it finds. The terminator is found behind the last one.\<close>

definition strchr :: "string \<Rightarrow> char \<Rightarrow> nat option" where
  "strchr s c = (let k = length (takeWhile (\<lambda>x. x \<noteq> c) s) in if k < length s \<or> c = NUL then Some k else None)"

text \<open>The permutation that ends a scan when options followed the words that are not options.\<close>

definition finish_scan :: "getopt_state \<Rightarrow> getopt_fault + getopt_state" where
  "finish_scan st = (case (g_nonopt_start st, g_nonopt_end st) of
     (Some s, Some e) \<Rightarrow> and_then (permute_args s e (g_optind st) (g_argv st)) (\<lambda>v.
        Inr (st\<lparr>g_argv := v, g_optind := g_optind st - (e - s), g_nonopt_start := None, g_nonopt_end := None\<rparr>))
   | _ \<Rightarrow> Inr (st\<lparr>g_nonopt_start := None, g_nonopt_end := None\<rparr>))"

text \<open>The part behind the label \<open>start\<close>: \<open>None\<close> goes on with the word that \<open>place\<close> points to.\<close>

function next_word :: "bool \<Rightarrow> bool \<Rightarrow> string \<Rightarrow> nat \<Rightarrow> getopt_state \<Rightarrow> getopt_fault + getopt_state \<times> int option" where
  "next_word allargs permute options nargc st =
     (if \<not> (g_optreset st \<or> place st = []) then Inr (st, None)
      else
        (let st = st\<lparr>g_optreset := False\<rparr>; i = g_optind st in
         if i \<ge> nargc then
           (let st = to_EMSG st;
                st = (if g_nonopt_end st = None then (case g_nonopt_start st of Some s \<Rightarrow> st\<lparr>g_optind := s\<rparr> | None \<Rightarrow> st) else st) in
            and_then (finish_scan st) (\<lambda>st. Inr (st, Some (-1))))
         else
           (let a = g_argv st ! i in
            if char_at a 0 \<noteq> CHR ''-'' \<or> (length a = 1 \<and> strchr options CHR ''-'' = None) then
              (let st = to_EMSG st in
               if allargs then Inr (st\<lparr>g_optarg := Some a, g_optind := Suc i\<rparr>, Some INORDER)
               else if \<not> permute then Inr (st, Some (-1))
               else
                 (case (g_nonopt_start st, g_nonopt_end st) of
                    (None, _) \<Rightarrow> next_word allargs permute options nargc (st\<lparr>g_nonopt_start := Some i, g_optind := Suc i\<rparr>)
                  | (Some s, None) \<Rightarrow> next_word allargs permute options nargc (st\<lparr>g_optind := Suc i\<rparr>)
                  | (Some s, Some e) \<Rightarrow>
                      and_then (permute_args s e i (g_argv st)) (\<lambda>v.
                        next_word allargs permute options nargc
                          (st\<lparr>g_argv := v, g_nonopt_start := Some (i - (e - s)), g_nonopt_end := None, g_optind := Suc i\<rparr>))))
            else
              (let st = (if g_nonopt_start st \<noteq> None \<and> g_nonopt_end st = None then st\<lparr>g_nonopt_end := Some i\<rparr> else st);
                   st = st\<lparr>g_text := a, g_at := (if length a > 1 then 1 else 0)\<rparr> in
               if a = ''--'' then
                 and_then (finish_scan (to_EMSG (st\<lparr>g_optind := Suc i\<rparr>))) (\<lambda>st. Inr (st, Some (-1)))
               else Inr (st, None)))))"
  by pat_completeness auto
termination by (relation "measure (\<lambda>(allargs, permute, options, nargc, st). nargc - g_optind st)") (auto simp: to_EMSG_def)

declare next_word.simps [simp del]

text \<open>\<open>-W\<close> with a long option, and an option letter.\<close>

definition short_option ::
  "string \<Rightarrow> long_option list option \<Rightarrow> nat \<Rightarrow> getopt_state \<Rightarrow> getopt_result" where
  "short_option options long nargc st =
     (let c = char_at (place st) 0; optchar = int (char_code c);
          st = st\<lparr>g_at := Suc (g_at st)\<rparr>; at_end = (place st = []);
          bump = (\<lambda>st. if at_end then st\<lparr>g_optind := Suc (g_optind st)\<rparr> else st) in
      case strchr options c of
        None \<Rightarrow>
          if c = CHR ''-'' \<and> at_end then Inr (st, -1)
          else Inr (bump st\<lparr>g_optopt := optchar\<rparr>, BADCH)
      | Some k \<Rightarrow>
          if c = CHR '':'' \<or> (c = CHR ''-'' \<and> \<not> at_end) then Inr (bump st\<lparr>g_optopt := optchar\<rparr>, BADCH)
          else if long \<noteq> None \<and> c = CHR ''W'' \<and> char_at options (Suc k) = CHR '';'' then
            (let st' = bump st in
             if at_end \<and> g_optind st' \<ge> nargc then Inr (to_EMSG (st'\<lparr>g_optopt := optchar\<rparr>), BADARG options)
             else
               (let st' = (if at_end then st'\<lparr>g_text := g_argv st' ! g_optind st', g_at := 0\<rparr> else st');
                    (st', code) = parse_long_options options (the long) False st' in
                Inr (to_EMSG st', code)))
          else if char_at options (Suc k) \<noteq> CHR '':'' then Inr (bump st, optchar)
          else if \<not> at_end then
            Inr (to_EMSG (st\<lparr>g_optarg := Some (place st), g_optind := Suc (g_optind st)\<rparr>), optchar)
          else if char_at options (Suc (Suc k)) \<noteq> CHR '':'' then
            (let i = Suc (g_optind st) in
             if i \<ge> nargc then Inr (to_EMSG (st\<lparr>g_optarg := None, g_optind := i, g_optopt := optchar\<rparr>), BADARG options)
             else Inr (to_EMSG (st\<lparr>g_optarg := Some (g_argv st ! i), g_optind := Suc i\<rparr>), optchar))
          else Inr (to_EMSG (st\<lparr>g_optarg := None, g_optind := Suc (g_optind st)\<rparr>), optchar))"

text \<open>\<open>posix\<close> says whether \<open>POSIXLY_CORRECT\<close> is set. \<open>place\<close> differs from \<open>nargv[optind]\<close> when it has moved on
  in the word.\<close>

definition getopt_internal ::
  "bool \<Rightarrow> nat \<Rightarrow> string \<Rightarrow> long_option list option \<Rightarrow> bool \<Rightarrow> bool \<Rightarrow> getopt_state \<Rightarrow> getopt_result" where
  "getopt_internal posix nargc options long permute longonly st =
     (let st = (if g_optind st = 0 then st\<lparr>g_optind := 1, g_optreset := True\<rparr> else st);
          first = char_at options 0;
          allargs = (first = CHR ''-'');
          permute = (if \<not> allargs \<and> (posix \<or> first = CHR ''+'') then False else permute);
          options = (if first = CHR ''+'' \<or> first = CHR ''-'' then drop 1 options else options);
          st = st\<lparr>g_optarg := None\<rparr>;
          st = (if g_optreset st then st\<lparr>g_nonopt_start := None, g_nonopt_end := None\<rparr> else st) in
      and_then (next_word allargs permute options nargc st) (\<lambda>(st, ret).
        case ret of Some code \<Rightarrow> Inr (st, code)
        | None \<Rightarrow>
            (case long of
               Some table \<Rightarrow>
                 if g_at st \<noteq> 0 \<and> (char_at (place st) 0 = CHR ''-'' \<or> longonly) then
                   (let c = char_at (place st) 0;
                        short_too = (c \<noteq> CHR ''-'' \<and> c \<noteq> CHR '':'' \<and> strchr options c \<noteq> None);
                        st = (if c = CHR ''-'' then st\<lparr>g_at := Suc (g_at st)\<rparr> else st);
                        (st, code) = parse_long_options options table short_too st in
                    if code \<noteq> -1 then Inr (to_EMSG st, code) else short_option options long nargc st)
                 else short_option options long nargc st
             | None \<Rightarrow> short_option options long nargc st)))"

definition getopt :: "bool \<Rightarrow> nat \<Rightarrow> string \<Rightarrow> getopt_state \<Rightarrow> getopt_result" where
  "getopt posix nargc options = getopt_internal posix nargc options None False False"

definition getopt_long :: "bool \<Rightarrow> nat \<Rightarrow> string \<Rightarrow> long_option list \<Rightarrow> getopt_state \<Rightarrow> getopt_result" where
  "getopt_long posix nargc options long = getopt_internal posix nargc options (Some long) True False"

definition getopt_long_only :: "bool \<Rightarrow> nat \<Rightarrow> string \<Rightarrow> long_option list \<Rightarrow> getopt_state \<Rightarrow> getopt_result" where
  "getopt_long_only posix nargc options long = getopt_internal posix nargc options (Some long) True True"

end
