(* ===== verification/Getopt_Permute.thy ===== *)
theory Getopt_Permute
  imports Getopt
begin

text \<open>
  The exchange of two blocks by cycles is the exchange of two blocks. The positions are counted from the
  start of the first block, modulo the length of both; every cycle covers one residue modulo the greatest
  common divisor.
\<close>

lemma c_gcd_ok: "0 < b \<Longrightarrow> c_gcd a b = Inr (gcd a b)"
proof (induction a b rule: c_gcd.induct)
  case (1 a b)
  show ?case
  proof (cases "a mod b = 0")
    case True
    then have "gcd a b = b" by (simp add: gcd_proj2_iff mod_eq_0_iff_dvd)
    then show ?thesis using 1(2) True by (subst c_gcd.simps) simp
  next
    case False
    then have "c_gcd b (a mod b) = Inr (gcd b (a mod b))" using 1 by simp
    moreover have "gcd b (a mod b) = gcd a b" using gcd_red_nat [of a b] by simp
    ultimately show ?thesis using 1(2) False by (subst c_gcd.simps) simp
  qed
qed

section \<open>One cycle\<close>

text \<open>The position of round \<open>k\<close> of cycle \<open>i\<close>, and the position a word comes from.\<close>

definition cycle_pos :: "nat \<Rightarrow> nat \<Rightarrow> nat \<Rightarrow> nat \<Rightarrow> nat \<Rightarrow> nat" where
  "cycle_pos s p q i k = s + (p + i + k * q) mod (p + q)"

definition comes_from :: "nat \<Rightarrow> nat \<Rightarrow> nat \<Rightarrow> nat \<Rightarrow> nat" where
  "comes_from s p q y = s + (y - s + p) mod (p + q)"

lemma mod_step:
  fixes x p q :: nat
  assumes "x < p + q" and "0 < p" and "0 < q"
  shows "(x + q) mod (p + q) = (if x \<ge> p then x - p else x + q)"
proof (cases "x \<ge> p")
  case True
  then have "x + q = (x - p) + (p + q)" by arith
  then have "(x + q) mod (p + q) = (x - p) mod (p + q)" by (metis mod_add_self2)
  then show ?thesis using True assms by simp
qed (use assms in simp)

lemma cycle_pos_next:
  assumes "0 < p" and "0 < q"
  shows "cycle_pos s p q i (Suc k) =
    (if cycle_pos s p q i k \<ge> s + p then cycle_pos s p q i k - p else cycle_pos s p q i k + q)"
proof -
  let ?x = "(p + i + k * q) mod (p + q)"
  have "(p + i + Suc k * q) mod (p + q) = (?x + q) mod (p + q)" by (simp add: mod_simps add.assoc add.commute add.left_commute)
  moreover have "?x < p + q" using assms by simp
  ultimately show ?thesis using mod_step [OF _ assms, of ?x] by (auto simp: cycle_pos_def)
qed

lemma comes_from_next:
  assumes "0 < p" and "0 < q"
  shows "comes_from s p q (cycle_pos s p q i (Suc k)) = cycle_pos s p q i k"
proof -
  have eq: "(p + i + Suc k * q) + p = (p + i + k * q) + (p + q)" by simp
  have "((p + i + Suc k * q) mod (p + q) + p) mod (p + q) = ((p + i + Suc k * q) + p) mod (p + q)" by (simp only: mod_add_left_eq)
  also have "\<dots> = (p + i + k * q) mod (p + q)" unfolding eq by (simp only: mod_add_self2)
  finally show ?thesis by (simp add: comes_from_def cycle_pos_def)
qed

text \<open>The length of a cycle.\<close>

lemma cycle_length:
  assumes "0 < p" and "0 < q" and "L = (p + q) div gcd p q"
  shows "p + q = gcd p q * L" "0 < L" "cycle_pos s p q i L = cycle_pos s p q i 0"
    "inj_on (cycle_pos s p q i) {0..<L}"
proof -
  let ?g = "gcd p q"
  have g: "0 < ?g" "?g dvd p + q" "?g dvd q" using assms(1) by simp_all
  show n: "p + q = ?g * L" unfolding assms(3) by (rule dvd_mult_div_cancel [OF g(2), symmetric])
  show pos: "0 < L" using n assms(1) by (cases L) simp_all
  obtain r where r: "q = ?g * r" using g(3) by (rule dvdE)
  have "L * q = (p + q) * r" using n r by (metis mult.assoc mult.commute)
  then have "(p + i + L * q) mod (p + q) = (p + i) mod (p + q)" by simp
  then show "cycle_pos s p q i L = cycle_pos s p q i 0" by (simp add: cycle_pos_def)
  have cop: "coprime L r"
  proof -
    have "gcd (p + q) q = ?g" by simp
    then have "gcd (?g * L) (?g * r) = ?g" using n r by metis
    then have "?g * gcd L r = ?g" by (metis gcd_mult_distrib_nat)
    then show ?thesis using g(1) assms(1) by (simp add: coprime_iff_gcd_eq_1)
  qed
  have neq: "cycle_pos s p q i j \<noteq> cycle_pos s p q i k" if "j < k" "k < L" for j k
  proof
    assume "cycle_pos s p q i j = cycle_pos s p q i k"
    then have "(p + i + k * q) mod (p + q) = (p + i + j * q) mod (p + q)" by (simp add: cycle_pos_def)
    moreover have "p + i + j * q \<le> p + i + k * q" using that(1) by simp
    ultimately have "p + q dvd (p + i + k * q) - (p + i + j * q)" by (simp only: mod_eq_dvd_iff_nat)
    moreover have "(p + i + k * q) - (p + i + j * q) = (k - j) * q" by (simp add: diff_mult_distrib)
    ultimately have "?g * L dvd ?g * ((k - j) * r)" using n r by (metis mult.left_commute)
    then have "L dvd (k - j) * r" using g(1) assms(1) by simp
    then have "L dvd k - j" using cop by (simp add: coprime_dvd_mult_left_iff)
    then show False using that by (auto dest: dvd_imp_le)
  qed
  show "inj_on (cycle_pos s p q i) {0..<L}"
  proof (rule inj_onI)
    fix j k assume "j \<in> {0..<L}" "k \<in> {0..<L}" "cycle_pos s p q i j = cycle_pos s p q i k"
    then show "j = k" using neq [of j k] neq [of k j] by (cases j k rule: linorder_cases) auto
  qed
qed

text \<open>A cycle covers its residue.\<close>

lemma cycle_covers:
  assumes "0 < p" and "0 < q" and "L = (p + q) div gcd p q" and "i < gcd p q"
  shows "cycle_pos s p q i ` {0..<L} = {y. s \<le> y \<and> y < s + p + q \<and> (y - s) mod gcd p q = i}" (is "?X = ?C")
proof (rule card_seteq)
  let ?g = "gcd p q"
  note len = cycle_length [OF assms(1-3)]
  show "finite ?C" by (rule finite_subset [of _ "{..<s + p + q}"]) auto
  show "?X \<subseteq> ?C"
  proof (rule image_subsetI)
    fix k
    have "(p + i + k * q) mod (p + q) mod ?g = (p + i + k * q) mod ?g" using len(1) by (simp add: mod_mod_cancel)
    moreover have "(p + i + k * q) mod ?g = i"
    proof -
      have "?g dvd p + k * q" by simp
      then have "(i + (p + k * q)) mod ?g = i mod ?g" by (metis dvd_eq_mod_eq_0 mod_add_right_eq add_0_right)
      then show ?thesis using assms(4) by (simp add: add.assoc add.left_commute)
    qed
    ultimately show "cycle_pos s p q i k \<in> ?C" using assms(1) by (simp add: cycle_pos_def add.assoc)
  qed
  have "?C \<subseteq> (\<lambda>t. s + i + t * ?g) ` {0..<L}"
  proof
    fix y assume y: "y \<in> ?C"
    let ?t = "(y - s) div ?g"
    have "y - s = ?t * ?g + i" using y div_mult_mod_eq [of "y - s" ?g] by simp
    moreover have "?t < L"
    proof (rule less_mult_imp_div_less)
      have "y < s + L * ?g" using y len(1) by (simp add: add.assoc mult.commute)
      then show "y - s < L * ?g" using y by (simp add: less_diff_conv2 add.commute)
    qed
    ultimately show "y \<in> (\<lambda>t. s + i + t * ?g) ` {0..<L}" using y by (intro image_eqI [of _ _ ?t]) auto
  qed
  then have "card ?C \<le> L" using surj_card_le [of "{0..<L}" ?C] by simp
  also have "L = card ?X" using card_image [OF len(4)] by simp
  finally show "card ?C \<le> card ?X" .
qed

text \<open>What a cycle does to the words: each word of the cycle moves on to the next position.\<close>

lemma permute_cycle_moves:
  fixes v :: "string list"
  assumes "0 < p" and "0 < q" and "L = (p + q) div gcd p q" and "s + p + q \<le> length v"
    and c: "c = cycle_pos s p q i 0"
  shows "j < L \<Longrightarrow> length u = length v \<Longrightarrow>
    (\<forall>y < length v. u ! y = (if y = c then v ! cycle_pos s p q i j
       else if y \<in> cycle_pos s p q i ` {1..j} then v ! comes_from s p q y else v ! y)) \<Longrightarrow>
    (let w = permute_cycle p q (s + p) c (L - j) (cycle_pos s p q i j) u in
      length w = length v \<and> (\<forall>y < length v. w ! y =
        (if y \<in> cycle_pos s p q i ` {0..<L} then v ! comes_from s p q y else v ! y)))"
proof (induction "L - j" arbitrary: j u)
  case 0
  then show ?case by simp
next
  case (Suc k)
  let ?X = "cycle_pos s p q i"
  note len = cycle_length [OF assms(1-3)]
  have inside: "?X m < length v" for m using assms(1,4) by (simp add: cycle_pos_def less_le_trans [OF mod_less_divisor])
    (metis add_gr_0 add_less_cancel_left add.assoc less_le_trans mod_less_divisor)
  have step: "permute_cycle p q (s + p) c (L - j) (?X j) u
      = permute_cycle p q (s + p) c (L - Suc j) (?X (Suc j)) (u[?X (Suc j) := u ! c, c := u ! ?X (Suc j)])"
  proof -
    have "L - j = Suc (L - Suc j)" using Suc.prems(1) by simp
    then show ?thesis using cycle_pos_next [OF assms(1,2), of s i j] by (simp add: Let_def)
  qed
  have uc: "u ! c = v ! ?X j" using Suc.prems(3) inside [of 0] c by simp
  show ?case
  proof (cases "Suc j < L")
    case True
    have new: "?X (Suc j) \<noteq> c" "?X (Suc j) \<notin> ?X ` {1..j}"
      using inj_onD [OF len(4)] True unfolding c by (fastforce, fastforce)
    let ?u = "u[?X (Suc j) := u ! c, c := u ! ?X (Suc j)]"
    have val: "u ! ?X (Suc j) = v ! ?X (Suc j)" using Suc.prems(3) inside [of "Suc j"] new by simp
    have orig: "comes_from s p q (?X (Suc j)) = ?X j" by (rule comes_from_next [OF assms(1,2)])
    have img: "?X ` {1..Suc j} = insert (?X (Suc j)) (?X ` {1..j})" by (simp add: atLeastAtMostSuc_conv)
    have "?u ! y = (if y = c then v ! ?X (Suc j) else if y \<in> ?X ` {1..Suc j} then v ! comes_from s p q y else v ! y)"
      if y: "y < length v" for y
    proof -
      have "?u ! y = (if y = c then v ! ?X (Suc j) else if y = ?X (Suc j) then v ! ?X j else u ! y)"
        using y Suc.prems(2) uc new(1) val by (simp add: nth_list_update)
      then show ?thesis unfolding img using Suc.prems(3) y orig by simp
    qed
    moreover have "length ?u = length v" "k = L - Suc j" using Suc.prems(2) Suc.hyps(2) by simp_all
    ultimately show ?thesis unfolding step using Suc.hyps(1) [of "Suc j" ?u] True by simp
  next
    case False
    then have L: "L = Suc j" using Suc.prems(1) by simp
    then have around: "?X (Suc j) = c" using len(3) c by simp
    have "u[?X (Suc j) := u ! c, c := u ! ?X (Suc j)] = u" using around by simp
    moreover have "?X ` {0..<L} = insert c (?X ` {1..j})"
    proof -
      have "{0..<L} = insert 0 {1..j}" using L by auto
      then show ?thesis using c by simp
    qed
    moreover have "comes_from s p q c = ?X j" using comes_from_next [OF assms(1,2), of s i j] around by simp
    ultimately show ?thesis unfolding step using Suc.prems(2,3) L by auto
  qed
qed

lemma permute_cycle_ok:
  fixes v :: "string list"
  assumes "0 < p" and "0 < q" and "s + p + q \<le> length v" and "i < gcd p q"
    and "w = permute_cycle p q (s + p) (s + p + i) ((p + q) div gcd p q) (s + p + i) v"
  shows "length w = length v" "\<forall>y < length v. w ! y =
    (if s \<le> y \<and> y < s + p + q \<and> (y - s) mod gcd p q = i then v ! comes_from s p q y else v ! y)"
proof -
  let ?L = "(p + q) div gcd p q"
  have "gcd p q \<le> q" using assms(2) by (simp add: gcd_le2_nat)
  then have c: "s + p + i = cycle_pos s p q i 0" using assms(4) by (simp add: cycle_pos_def)
  have "let w = permute_cycle p q (s + p) (s + p + i) (?L - 0) (cycle_pos s p q i 0) v in
      length w = length v \<and> (\<forall>y < length v. w ! y =
        (if y \<in> cycle_pos s p q i ` {0..<?L} then v ! comes_from s p q y else v ! y))"
    by (rule permute_cycle_moves [OF assms(1,2) refl assms(3) c])
      (use cycle_length(2) [OF assms(1,2) refl] c in simp_all)
  then show "length w = length v" "\<forall>y < length v. w ! y =
    (if s \<le> y \<and> y < s + p + q \<and> (y - s) mod gcd p q = i then v ! comes_from s p q y else v ! y)"
    using cycle_covers [OF assms(1,2) refl assms(4), of s] unfolding assms(5) by (simp_all add: Let_def c)
qed

section \<open>All cycles\<close>

lemma cycles_ok:
  fixes v :: "string list"
  assumes "0 < p" and "0 < q" and "s + p + q \<le> length v"
  shows "m \<le> gcd p q \<Longrightarrow>
    (let w = fold (\<lambda>i. permute_cycle p q (s + p) (s + p + i) ((p + q) div gcd p q) (s + p + i)) [0..<m] v in
     length w = length v \<and> (\<forall>y < length v. w ! y =
       (if s \<le> y \<and> y < s + p + q \<and> (y - s) mod gcd p q < m then v ! comes_from s p q y else v ! y)))"
proof (induction m)
  case (Suc m)
  let ?f = "\<lambda>i. permute_cycle p q (s + p) (s + p + i) ((p + q) div gcd p q) (s + p + i)"
  let ?u = "fold ?f [0..<m] v"
  have u: "length ?u = length v" "\<forall>y < length v. ?u ! y =
      (if s \<le> y \<and> y < s + p + q \<and> (y - s) mod gcd p q < m then v ! comes_from s p q y else v ! y)"
    using Suc by (simp_all add: Let_def)
  have w: "length (?f m ?u) = length ?u" "\<forall>y < length ?u. ?f m ?u ! y =
      (if s \<le> y \<and> y < s + p + q \<and> (y - s) mod gcd p q = m then ?u ! comes_from s p q y else ?u ! y)"
    using permute_cycle_ok [OF assms(1,2), of s ?u m, OF _ _ refl] Suc.prems assms(3) u(1) by simp_all
  have origin: "comes_from s p q y < length v \<and> (comes_from s p q y - s) mod gcd p q = (y - s) mod gcd p q"
    if "s \<le> y" "y < s + p + q" for y
  proof -
    have "(y - s + p) mod (p + q) < p + q" using assms(1) by simp
    moreover have "(y - s + p) mod (p + q) mod gcd p q = (y - s + p) mod gcd p q" by (simp add: mod_mod_cancel)
    moreover have "(y - s + p) mod gcd p q = (y - s) mod gcd p q" by (metis add_0_right dvd_eq_mod_eq_0 gcd_dvd1 mod_add_right_eq)
    ultimately show ?thesis using assms(3) by (simp add: comes_from_def)
  qed
  have "?f m ?u ! y = (if s \<le> y \<and> y < s + p + q \<and> (y - s) mod gcd p q < Suc m then v ! comes_from s p q y else v ! y)"
    if "y < length v" for y
    using w(2) u that origin [of y] by (auto simp: less_Suc_eq)
  then show ?case using w(1) u(1) by (simp add: Let_def)
qed (simp add: Let_def)

text \<open>C11: The exchange of the words that are not options with the options behind them, which
  \<open>permute_args\<close> makes in place by as many cycles of swaps as the greatest common divisor of the two
  lengths, is exactly the exchange of the two blocks: both keep their order and nothing else moves.\<close>

theorem permute_args_exchanges:
  assumes "s < e" and "e < n" and "n \<le> length argv"
  shows "permute_args s e n argv =
    Inr (take s argv @ take (n - e) (drop e argv) @ take (e - s) (drop s argv) @ drop n argv)"
proof -
  let ?p = "e - s" and ?q = "n - e"
  have pq: "0 < ?p" "0 < ?q" "s + ?p = e" "s + ?p + ?q = n" "?p + ?q = n - s" using assms by simp_all
  let ?w = "fold (\<lambda>i. permute_cycle ?p ?q (s + ?p) (s + ?p + i) ((?p + ?q) div gcd ?p ?q) (s + ?p + i)) [0..<gcd ?p ?q] argv"
  let ?r = "take s argv @ take ?q (drop e argv) @ take ?p (drop s argv) @ drop n argv"
  have "permute_args s e n argv = Inr ?w"
    using c_gcd_ok [OF pq(2), of ?p] assms(3) pq(3,5) by (simp add: permute_args_def Let_def)
  moreover have "?w = ?r"
  proof (rule nth_equalityI)
    have w: "length ?w = length argv" "\<forall>y < length argv. ?w ! y =
       (if s \<le> y \<and> y < s + ?p + ?q \<and> (y - s) mod gcd ?p ?q < gcd ?p ?q then argv ! comes_from s ?p ?q y else argv ! y)"
      using cycles_ok [OF pq(1,2), of s argv "gcd ?p ?q"] assms(3) pq(4) by (simp_all add: Let_def)
    show "length ?w = length ?r" using w(1) assms by simp
    fix y assume "y < length ?w"
    then have y: "y < length argv" using w(1) by simp
    have "?w ! y = (if s \<le> y \<and> y < n then argv ! comes_from s ?p ?q y else argv ! y)"
      using w(2) y pq(1,4) by simp
    moreover have "comes_from s ?p ?q y = (if y - s < ?q then y + ?p else y - ?q)" if "s \<le> y" "y < n"
    proof -
      have "y - s < ?q + ?p" using that assms by arith
      then have "(y - s + ?p) mod (?q + ?p) = (if y - s \<ge> ?q then y - s - ?q else y - s + ?p)" by (rule mod_step [OF _ pq(2,1)])
      then show ?thesis using that pq by (auto simp: comes_from_def add.commute)
    qed
    ultimately show "?w ! y = ?r ! y" using y assms by (auto simp: nth_append add.commute [of y e])
  qed
  ultimately show ?thesis by simp
qed

theorem permute_args_exchanges_witness:
  "permute_args 1 3 4 [''p'', ''a'', ''b'', ''-x'', ''c''] = Inr [''p'', ''-x'', ''a'', ''b'', ''c'']"
  by (subst permute_args_exchanges) simp_all

end
