(* ===== verification/Getopt_Scan.thy ===== *)
theory Getopt_Scan
  imports Getopt_Permute "HOL-Library.Multiset"
begin

text \<open>
  What repeated calls of \<open>getopt_long_only\<close> give for a whole command line, when there are no option letters:
  the options in order, and the words rearranged with those that are not options at the end. The reference
  reads the command line once, from left to right, and moves nothing.
\<close>

section \<open>The reference\<close>

definition is_option :: "string \<Rightarrow> bool" where
  "is_option a \<longleftrightarrow> char_at a 0 = CHR ''-'' \<and> length a \<noteq> 1"

text \<open>The word without its one or two dashes.\<close>

definition option_body :: "string \<Rightarrow> string" where
  "option_body a = (if char_at a 1 = CHR ''-'' then drop 2 a else drop 1 a)"

text \<open>One option with the words behind it: the code, the argument, how many words it takes, and the index in
  the table, which stays when nothing matches.\<close>

definition read_option :: "long_option list \<Rightarrow> nat \<Rightarrow> string \<Rightarrow> string list \<Rightarrow> int \<times> string option \<times> nat \<times> nat" where
  "read_option T idx cur r =
     (let (len, eq) = split_equal cur; (m, ambiguous) = find_long T cur len False T 0 None False in
      if ambiguous then (BADCH, None, 0, idx)
      else (case m of None \<Rightarrow> (BADCH, None, 0, idx)
        | Some i \<Rightarrow>
            (case o_has_arg (T ! i) of
               no_argument \<Rightarrow> if eq \<noteq> None then (BADCH, None, 0, idx) else (o_val (T ! i), None, 0, i)
             | optional_argument \<Rightarrow> (o_val (T ! i), eq, 0, i)
             | required_argument \<Rightarrow>
                 (case eq of Some v \<Rightarrow> (o_val (T ! i), Some v, 0, i)
                  | None \<Rightarrow> (case r of [] \<Rightarrow> (BADCH, None, 0, idx) | x # _ \<Rightarrow> (o_val (T ! i), Some x, 1, i))))))"

type_synonym getopt_event = "int \<times> string option \<times> nat"

text \<open>The events, the words that are options or their arguments, and the others.\<close>

function scan_words :: "long_option list \<Rightarrow> nat \<Rightarrow> string list \<Rightarrow> getopt_event list \<times> string list \<times> string list" where
  "scan_words T idx [] = ([], [], [])"
| "scan_words T idx (a # r) =
     (if \<not> is_option a then (case scan_words T idx r of (ev, os, ns) \<Rightarrow> (ev, os, a # ns))
      else if a = ''--'' then ([], [a], r)
      else (case read_option T idx (option_body a) r of (code, arg, used, idx) \<Rightarrow>
        (case scan_words T idx (drop used r) of (ev, os, ns) \<Rightarrow> ((code, arg, idx) # ev, a # take used r @ os, ns))))"
  by pat_completeness auto
termination by (relation "measure (\<lambda>(T, idx, ws). length ws)") auto

declare scan_words.simps(2) [simp del]

section \<open>The calls\<close>

text \<open>The calls up to the one that gives \<open>-1\<close>, at most \<open>n\<close> of them.\<close>

fun collect :: "nat \<Rightarrow> (getopt_state \<Rightarrow> getopt_result) \<Rightarrow> getopt_state \<Rightarrow> (getopt_fault + getopt_event list \<times> getopt_state) option" where
  "collect 0 call st = None"
| "collect (Suc n) call st =
     (case call st of
        Inl e \<Rightarrow> Some (Inl e)
      | Inr (st, code) \<Rightarrow>
          if code = -1 then Some (Inr ([], st))
          else map_option (\<lambda>r. and_then r (\<lambda>(ev, st'). Inr ((code, g_optarg st, g_index st) # ev, st'))) (collect n call st))"

text \<open>The state between two calls: the options so far, the words that are not options, the options behind
  them, and the rest.\<close>

definition between :: "getopt_state \<Rightarrow> string list \<Rightarrow> string list \<Rightarrow> string list \<Rightarrow> string list \<Rightarrow> bool" where
  "between st os ns ps r \<longleftrightarrow> g_argv st = os @ ns @ ps @ r \<and> g_optind st = length (os @ ns @ ps) \<and> os \<noteq> []
     \<and> \<not> g_optreset st \<and> g_text st = [] \<and> g_at st = 0 \<and> (ns = [] \<longrightarrow> ps = [])
     \<and> g_nonopt_start st = (if ns = [] then None else Some (length os))
     \<and> g_nonopt_end st = (if ps = [] then None else Some (length (os @ ns)))"

text \<open>The exchange at its place between two calls.\<close>

lemma exchange:
  assumes "ns \<noteq> []" and "ps \<noteq> []"
  shows "permute_args (length os) (length (os @ ns)) (length (os @ ns @ ps)) (os @ ns @ ps @ r) = Inr (os @ ps @ ns @ r)"
  using assms by (subst permute_args_exchanges) auto

lemma between_place: "between st os ns ps r \<Longrightarrow> place st = []"
  by (simp add: between_def place_def)

lemma finish_ok:
  assumes "g_argv st = os @ ns @ ps @ r" and "g_optind st = length (os @ ns @ ps)" and "ps \<noteq> []" and "ns \<noteq> []"
    and "g_nonopt_start st = Some (length os)" and "g_nonopt_end st = Some (length (os @ ns))"
  shows "finish_scan st = Inr (st\<lparr>g_argv := os @ ps @ ns @ r, g_optind := length (os @ ps), g_nonopt_start := None, g_nonopt_end := None\<rparr>)"
  using exchange [OF assms(4,3), of os r] assms by (simp add: finish_scan_def)

text \<open>Words that are not options are passed over.\<close>

lemma next_word_nonoption:
  assumes "between st os ns ps (a # r)" and "\<not> is_option a" and "nargc = length (g_argv st)"
  shows "\<exists>st' os' ps'. next_word False True [] nargc st = next_word False True [] nargc st'
    \<and> between st' os' (ns @ [a]) [] r \<and> os' = os @ ps \<and> g_index st' = g_index st \<and> g_optarg st' = g_optarg st"
proof -
  note b = assms(1) [unfolded between_def]
  have word: "g_argv st ! g_optind st = a" "g_optind st < nargc" using b assms(3) by (simp_all add: nth_append)
  have non: "char_at a 0 \<noteq> CHR ''-'' \<or> (length a = 1 \<and> strchr [] CHR ''-'' = None)"
    using assms(2) by (auto simp: is_option_def strchr_def)
  note step = next_word.simps [of False True "[]" nargc st]
  let ?i = "length (os @ ns @ ps)"
  consider (first) "ns = []" "ps = []" | (more) "ns \<noteq> []" "ps = []" | (behind) "ns \<noteq> []" "ps \<noteq> []" using b by auto
  then show ?thesis
  proof cases
    case first
    let ?st = "to_EMSG (st\<lparr>g_optreset := False\<rparr>)\<lparr>g_nonopt_start := Some ?i, g_optind := Suc ?i\<rparr>"
    have "next_word False True [] nargc st = next_word False True [] nargc ?st"
      using first b word non between_place [OF assms(1)] by (subst step) (simp add: to_EMSG_def Let_def)
    moreover have "between ?st os [a] [] r" using first b by (simp add: between_def to_EMSG_def)
    ultimately show ?thesis using first by (intro exI [of _ ?st]) (simp add: to_EMSG_def)
  next
    case more
    let ?st = "to_EMSG (st\<lparr>g_optreset := False\<rparr>)\<lparr>g_optind := Suc ?i\<rparr>"
    have "next_word False True [] nargc st = next_word False True [] nargc ?st"
      using more b word non between_place [OF assms(1)] by (subst step) (simp add: to_EMSG_def Let_def)
    moreover have "between ?st os (ns @ [a]) [] r" using more b by (simp add: between_def to_EMSG_def)
    ultimately show ?thesis using more by (intro exI [of _ ?st]) (simp add: to_EMSG_def)
  next
    case behind
    let ?st = "to_EMSG (st\<lparr>g_optreset := False\<rparr>)\<lparr>g_argv := os @ ps @ ns @ a # r,
      g_nonopt_start := Some (length (os @ ps)), g_nonopt_end := None, g_optind := Suc ?i\<rparr>"
    have "next_word False True [] nargc st = next_word False True [] nargc ?st"
      using behind b word non between_place [OF assms(1)] exchange [OF behind, of os "a # r"]
      by (subst step) (simp add: to_EMSG_def Let_def)
    moreover have "between ?st (os @ ps) (ns @ [a]) [] r" using behind b by (simp add: between_def to_EMSG_def)
    ultimately show ?thesis by (intro exI [of _ ?st]) (simp add: to_EMSG_def)
  qed
qed

lemma next_word_option:
  assumes "between st os ns ps (a # r)" and "is_option a" and "a \<noteq> ''--''" and "nargc = length (g_argv st)"
  shows "next_word False True [] nargc st = Inr (st\<lparr>g_text := a, g_at := 1,
    g_nonopt_end := (if ns = [] then None else if ps = [] then Some (g_optind st) else Some (length (os @ ns)))\<rparr>, None)"
proof -
  note b = assms(1) [unfolded between_def]
  have word: "g_argv st ! g_optind st = a" "g_optind st < nargc" using b assms(4) by (simp_all add: nth_append)
  have len: "length a > 1" "char_at a 0 = CHR ''-''"
    using assms(2) by (cases a; auto simp: is_option_def char_at_def)+
  show ?thesis using b word len assms(3) between_place [OF assms(1)]
    by (subst next_word.simps) (auto simp: Let_def intro!: getopt_state.equality)
qed

lemma next_word_dashes:
  assumes "between st os ns ps (''--'' # r)" and "nargc = length (g_argv st)"
  shows "\<exists>st'. next_word False True [] nargc st = Inr (st', Some (-1)) \<and> g_argv st' = os @ ps @ [''--''] @ ns @ r
    \<and> g_optind st' = length (os @ ps @ [''--''])"
proof -
  note b = assms(1) [unfolded between_def]
  have word: "g_argv st ! g_optind st = ''--''" "g_optind st < nargc" using b assms(2) by (simp_all add: nth_append)
  let ?e = "if ns = [] then None else if ps = [] then Some (g_optind st) else Some (length (os @ ns))"
  let ?st = "to_EMSG (st\<lparr>g_optreset := False, g_nonopt_end := ?e, g_text := ''--'', g_at := 1, g_optind := Suc (g_optind st)\<rparr>)"
  have "next_word False True [] nargc st = and_then (finish_scan ?st) (\<lambda>st. Inr (st, Some (-1)))"
    using b word between_place [OF assms(1)]
    by (subst next_word.simps, cases st) (auto simp: Let_def char_at_def)
  moreover have "finish_scan ?st = Inr (?st\<lparr>g_argv := os @ (ps @ [''--'']) @ ns @ r, g_optind := length (os @ ps @ [''--'']),
      g_nonopt_start := None, g_nonopt_end := None\<rparr>)" if "ns \<noteq> []"
    using finish_ok [of ?st os ns "ps @ [''--'']" r] b that by (cases "ps = []") (simp_all add: to_EMSG_def)
  moreover have "finish_scan ?st = Inr (?st\<lparr>g_nonopt_start := None, g_nonopt_end := None\<rparr>)" if "ns = []"
    using b that by (simp add: finish_scan_def to_EMSG_def)
  ultimately show ?thesis using b by (cases "ns = []") (auto simp: to_EMSG_def)
qed

lemma next_word_end:
  assumes "between st os ns ps []" and "nargc = length (g_argv st)"
  shows "\<exists>st'. next_word False True [] nargc st = Inr (st', Some (-1)) \<and> g_argv st' = os @ ps @ ns \<and> g_optind st' = length (os @ ps)"
proof -
  note b = assms(1) [unfolded between_def]
  have i: "g_optind st \<ge> nargc" using b assms(2) by simp
  show ?thesis
  proof (cases "ps = []")
    case True
    then show ?thesis using b i between_place [OF assms(1)]
      by (subst next_word.simps) (auto simp: Let_def to_EMSG_def finish_scan_def)
  next
    case False
    then have ns: "ns \<noteq> []" using b by auto
    let ?st = "to_EMSG (st\<lparr>g_optreset := False\<rparr>)"
    have "next_word False True [] nargc st = and_then (finish_scan ?st) (\<lambda>st. Inr (st, Some (-1)))"
      using b i False between_place [OF assms(1)] by (subst next_word.simps) (simp add: Let_def to_EMSG_def)
    then show ?thesis using finish_ok [of ?st os ns ps "[]"] b ns False by (simp add: to_EMSG_def)
  qed
qed

section \<open>One option\<close>

lemma find_long_bound:
  "find_long T cur len st ps i m amb = (Some k, a) \<Longrightarrow> (\<forall>x. m = Some x \<longrightarrow> x < i) \<Longrightarrow> k < i + length ps"
proof (induction T cur len st ps i m amb rule: find_long.induct)
  case (2 opts cur len short_too p ps i m ambiguous)
  show ?case
  proof (cases m)
    case None
    then show ?thesis using 2 by (auto split: if_splits)
  next
    case (Some x)
    then show ?thesis using 2 by (auto split: if_splits)
  qed
qed simp

lemma parse_long_reads:
  assumes "g_argv st = pre @ a # r" and "g_optind st = length pre" and "g_optarg st = None"
    and "\<forall>p \<in> set T. o_flag p = None" and "read_option T (g_index st) (place st) r = (code, arg, used, idx)"
  shows "\<exists>st'. parse_long_options [] T False st = (st', code) \<and> g_optarg st' = arg \<and> g_index st' = idx
    \<and> g_optind st' = length pre + 1 + used \<and> g_argv st' = g_argv st \<and> g_nonopt_start st' = g_nonopt_start st
    \<and> g_nonopt_end st' = g_nonopt_end st \<and> g_optreset st' = g_optreset st \<and> used \<le> length r"
proof -
  obtain len eq where se: "split_equal (place st) = (len, eq)" by fastforce
  obtain m amb where fl: "find_long T (place st) len False T 0 None False = (m, amb)" by fastforce
  have bad: "BADARG [] = BADCH" by (simp add: BADARG_def BADCH_def char_at_def)
  have flag: "o_flag (T ! i) = None" if "m = Some i" for i
    using find_long_bound [of T "place st" len False T 0 None False i amb] fl that assms(4) by simp
  have next_arg: "g_argv st ! Suc (length pre) = hd r" "Suc (length pre) < length (g_argv st)" if "r \<noteq> []"
    using that assms(1) by (cases r; simp add: nth_append)+
  show ?thesis
  proof (cases "amb \<or> m = None")
    case True
    then show ?thesis using assms(2,3,5) se fl by (cases amb) (auto simp: parse_long_options_def read_option_def)
  next
    case False
    then obtain i where i: "m = Some i" "\<not> amb" by auto
    note unf = parse_long_options_def read_option_def se fl Let_def
    show ?thesis
    proof (cases "o_has_arg (T ! i)")
      case no_argument
      then show ?thesis using assms(2,3,5) i flag bad by (cases eq) (auto simp: unf)
    next
      case optional_argument
      then show ?thesis using assms(2,3,5) i flag bad by (cases eq) (auto simp: unf)
    next
      case required_argument
      show ?thesis
      proof (cases eq)
        case (Some v)
        then show ?thesis using assms(2,3,5) i flag bad required_argument by (auto simp: unf)
      next
        case None
        then show ?thesis using assms(1-3,5) i flag bad required_argument next_arg by (cases r) (auto simp: unf)
      qed
    qed
  qed
qed

section \<open>All calls\<close>

text \<open>What a call does with the word it has found.\<close>

lemma word_goes_on:
  assumes "g_at v \<noteq> 0" and "char_at (place v) 0 = c" and "strchr [] c = None"
    and "(if c = CHR ''-'' then v\<lparr>g_at := Suc (g_at v)\<rparr> else v) = w"
    and "parse_long_options [] T False w = (x, code)" and "code \<noteq> -1"
  shows "(if g_at v \<noteq> 0 then
      (let c = char_at (place v) 0;
           short_too = (c \<noteq> CHR ''-'' \<and> c \<noteq> CHR '':'' \<and> strchr [] c \<noteq> None);
           st = (if c = CHR ''-'' then v\<lparr>g_at := Suc (g_at v)\<rparr> else v);
           (st, code) = parse_long_options [] T short_too st in
       if code \<noteq> -1 then Inr (to_EMSG st, code) else short_option [] (Some T) nargc st)
    else short_option [] (Some T) nargc v) = (Inr (to_EMSG x, code) :: getopt_result)"
  using assms by (simp add: Let_def)

lemma option_call:
  assumes "between st os ns ps (a # r)" and "is_option a" and "a \<noteq> ''--''" and "nargc = length (g_argv st)" and "is_cstr a"
    and "\<forall>p \<in> set T. o_flag p = None \<and> o_val p \<noteq> -1" and "read_option T (g_index st) (option_body a) r = (code, arg, used, idx)"
  shows "\<exists>st' os' ps'. getopt_long_only False nargc [] T st = Inr (st', code) \<and> code \<noteq> -1 \<and> g_optarg st' = arg \<and> g_index st' = idx
    \<and> between st' os' ns ps' (drop used r) \<and> os' @ ps' = os @ ps @ a # take used r \<and> g_argv st' = os' @ ns @ ps' @ drop used r
    \<and> length (g_argv st') = nargc"
proof -
  note b = assms(1) [unfolded between_def]
  let ?e = "if ns = [] then None else if ps = [] then Some (g_optind st) else Some (length (os @ ns))"
  let ?u = "st\<lparr>g_optarg := None\<rparr>"
  let ?v = "?u\<lparr>g_text := a, g_at := 1, g_nonopt_end := ?e\<rparr>"
  have "between ?u os ns ps (a # r)" using b by (simp add: between_def)
  from next_word_option [OF this assms(2,3)] have nw: "next_word False True [] nargc ?u = Inr (?v, None)"
    using assms(4) by simp
  have len: "length a > 1" using assms(2) by (cases a) (auto simp: is_option_def char_at_def)
  let ?c = "char_at a 1"
  have "a ! 1 \<noteq> NUL" using nth_mem [OF len] assms(5) unfolding is_cstr_def by metis
  then have c: "?c \<noteq> NUL" using len by (simp add: char_at_def)
  have none: "strchr [] ?c = None" using c by (simp add: strchr_def)
  let ?w = "if ?c = CHR ''-'' then ?v\<lparr>g_at := 2\<rparr> else ?v"
  have pl: "place ?w = option_body a" by (simp add: place_def option_body_def)
  have w: "g_argv ?w = (os @ ns @ ps) @ a # r" "g_optind ?w = length (os @ ns @ ps)" "g_optarg ?w = None" "g_index ?w = g_index st"
    "g_nonopt_start ?w = g_nonopt_start st" "g_nonopt_end ?w = ?e" "\<not> g_optreset ?w"
    using b by simp_all
  have "\<forall>p \<in> set T. o_flag p = None" using assms(6) by blast
  then obtain x where x: "parse_long_options [] T False ?w = (x, code)" "g_optarg x = arg" "g_index x = idx"
    "g_optind x = length (os @ ns @ ps) + 1 + used" "g_argv x = (os @ ns @ ps) @ a # r" "g_nonopt_start x = g_nonopt_start st"
    "g_nonopt_end x = ?e" "\<not> g_optreset x" "used \<le> length r"
    using parse_long_reads [OF w(1-3), of T code arg used idx] assms(7) pl w by auto
  have code: "code \<noteq> -1"
  proof -
    obtain len eq where se: "split_equal (option_body a) = (len, eq)" by fastforce
    obtain m amb where fl: "find_long T (option_body a) len False T 0 None False = (m, amb)" by fastforce
    have "o_val (T ! i) \<noteq> -1" if "m = Some i" for i
      using find_long_bound [of T "option_body a" len False T 0 None False i amb] fl that assms(6) by simp
    then show ?thesis using assms(7) by (auto simp: read_option_def se fl BADCH_def split: if_splits option.splits arg_kind.splits list.splits)
  qed
  have call: "getopt_long_only False nargc [] T st = Inr (to_EMSG x, code)"
  proof -
    have p1: "char_at (place ?v) 0 = ?c" using len by (simp add: place_def char_at_def)
    have pw: "(if ?c = CHR ''-'' then ?v\<lparr>g_at := Suc (g_at ?v)\<rparr> else ?v) = ?w" by simp
    have "g_optind st \<noteq> 0" using b by auto
    then have "getopt_long_only False nargc [] T st = and_then (next_word False True [] nargc ?u) (\<lambda>(st, ret).
        case ret of Some code \<Rightarrow> Inr (st, code)
        | None \<Rightarrow> if g_at st \<noteq> 0 then
            (let c = char_at (place st) 0;
                 short_too = (c \<noteq> CHR ''-'' \<and> c \<noteq> CHR '':'' \<and> strchr [] c \<noteq> None);
                 st = (if c = CHR ''-'' then st\<lparr>g_at := Suc (g_at st)\<rparr> else st);
                 (st, code) = parse_long_options [] T short_too st in
             if code \<noteq> -1 then Inr (to_EMSG st, code) else short_option [] (Some T) nargc st)
          else short_option [] (Some T) nargc st)"
      using b by (simp add: getopt_long_only_def getopt_internal_def char_at_def Let_def)
    also have "\<dots> = Inr (to_EMSG x, code)"
      unfolding nw and_then.simps prod.case option.case by (rule word_goes_on [OF _ p1 none pw x(1) code]) simp
    finally show ?thesis .
  qed
  show ?thesis
  proof (cases "ns = []")
    case True
    then have "between (to_EMSG x) (os @ a # take used r) ns [] (drop used r)"
      using b x by (simp add: between_def to_EMSG_def)
    then show ?thesis using call code x True b assms(4)
      by (intro exI [of _ "to_EMSG x"] exI [of _ "os @ a # take used r"] exI [of _ "[]"]) (simp add: to_EMSG_def)
  next
    case False
    then have "between (to_EMSG x) os ns (ps @ a # take used r) (drop used r)"
      using b x by (auto simp: between_def to_EMSG_def)
    then show ?thesis using call code x False b assms(4)
      by (intro exI [of _ "to_EMSG x"] exI [of _ os] exI [of _ "ps @ a # take used r"]) (simp add: to_EMSG_def)
  qed
qed

text \<open>A call begins with the scanner.\<close>

lemma call_scans:
  assumes "between st os ns ps r" and "next_word False True [] nargc (st\<lparr>g_optarg := None\<rparr>) = Inr (st', Some code)"
  shows "getopt_long_only False nargc [] T st = Inr (st', code)"
proof -
  have "g_optind st \<noteq> 0" "\<not> g_optreset st" using assms(1) by (auto simp: between_def)
  then show ?thesis using assms(2) by (simp add: getopt_long_only_def getopt_internal_def char_at_def Let_def)
qed

lemma call_same:
  assumes "between st os ns ps r" and "between st' os' ns' ps' r'" and "g_optarg st' = None"
    and "next_word False True [] nargc (st\<lparr>g_optarg := None\<rparr>) = next_word False True [] nargc st'"
  shows "getopt_long_only False nargc [] T st = getopt_long_only False nargc [] T st'"
proof -
  have "g_optind st \<noteq> 0" "\<not> g_optreset st" "g_optind st' \<noteq> 0" "\<not> g_optreset st'" "st'\<lparr>g_optarg := None\<rparr> = st'"
    using assms(1-3) by (auto simp: between_def)
  then show ?thesis using assms(4) by (simp add: getopt_long_only_def getopt_internal_def char_at_def Let_def)
qed

lemma collect_scans:
  "\<forall>p \<in> set T. o_flag p = None \<and> o_val p \<noteq> -1 \<Longrightarrow> between st os ns ps r \<Longrightarrow> g_index st = idx \<Longrightarrow> nargc = length (g_argv st) \<Longrightarrow> list_all is_cstr r \<Longrightarrow> length r < n
    \<Longrightarrow> scan_words T idx r = (ev, words, nons) \<Longrightarrow>
    \<exists>st'. collect n (getopt_long_only False nargc [] T) st = Some (Inr (ev, st'))
      \<and> g_argv st' = os @ ps @ words @ ns @ nons \<and> g_optind st' = length (os @ ps @ words)"
proof (induction T idx r arbitrary: st os ns ps n ev words nons rule: scan_words.induct)
  case (1 T idx)
  let ?u = "st\<lparr>g_optarg := None\<rparr>"
  have "between ?u os ns ps []" using 1(2) by (simp add: between_def)
  then obtain st' where s: "next_word False True [] nargc ?u = Inr (st', Some (-1))" "g_argv st' = os @ ps @ ns" "g_optind st' = length (os @ ps)"
    using next_word_end [of ?u os ns ps nargc] 1(4) by auto
  have "getopt_long_only False nargc [] T st = Inr (st', -1)" by (rule call_scans [OF 1(2) s(1)])
  then show ?case using 1 s \<open>getopt_long_only False nargc [] T st = Inr (st', -1)\<close> by (cases n) auto
next
  case (2 T idx a r)
  let ?u = "st\<lparr>g_optarg := None\<rparr>"
  have bu: "between ?u os ns ps (a # r)" using 2(4) by (simp add: between_def)
  obtain m where m: "n = Suc m" "length r < m" using 2(8) by (cases n) auto
  consider (word) "\<not> is_option a" | (stop) "a = ''--''" | (opt) "is_option a" "a \<noteq> ''--''" by auto
  then show ?case
  proof cases
    case word
    obtain nons' where sc: "scan_words T idx r = (ev, words, nons')" "nons = a # nons'"
      using 2(9) word by (auto simp: scan_words.simps split: prod.splits)
    obtain st' where s: "next_word False True [] nargc ?u = next_word False True [] nargc st'" "between st' (os @ ps) (ns @ [a]) [] r"
      "g_index st' = idx" "g_optarg st' = None"
      using next_word_nonoption [OF bu word, of nargc] 2(5,6) by auto
    have same: "getopt_long_only False nargc [] T st = getopt_long_only False nargc [] T st'"
      by (rule call_same [OF 2(4) s(2,4,1)])
    have "\<exists>st''. collect n (getopt_long_only False nargc [] T) st' = Some (Inr (ev, st''))
        \<and> g_argv st'' = (os @ ps) @ [] @ words @ (ns @ [a]) @ nons' \<and> g_optind st'' = length ((os @ ps) @ [] @ words)"
    proof (rule 2(1) [OF word 2(3) s(2,3) _ _ _ sc(1)])
      show "nargc = length (g_argv st')" using s(2) 2(4,6) by (simp add: between_def)
    qed (use 2(7) m in simp_all)
    moreover have "collect n (getopt_long_only False nargc [] T) st = collect n (getopt_long_only False nargc [] T) st'"
      using same m(1) by simp
    ultimately show ?thesis using sc(2) by simp
  next
    case stop
    then obtain st' where s: "next_word False True [] nargc ?u = Inr (st', Some (-1))" "g_argv st' = os @ ps @ [''--''] @ ns @ r"
      "g_optind st' = length (os @ ps @ [''--''])"
      using next_word_dashes [of ?u os ns ps r nargc] bu 2(6) by auto
    have "getopt_long_only False nargc [] T st = Inr (st', -1)" by (rule call_scans [OF 2(4) s(1)])
    moreover have "is_option ''--''" by (simp add: is_option_def char_at_def)
    ultimately show ?thesis using 2(9) s m stop by (auto simp: scan_words.simps)
  next
    case opt
    obtain code arg used idx' where ro: "read_option T idx (option_body a) r = (code, arg, used, idx')" by (metis prod_cases4)
    obtain ev' words' where sc: "scan_words T idx' (drop used r) = (ev', words', nons)" "ev = (code, arg, idx') # ev'"
      "words = a # take used r @ words'"
      using 2(9) opt ro by (auto simp: scan_words.simps split: prod.splits)
    obtain st' os' ps' where s: "getopt_long_only False nargc [] T st = Inr (st', code)" "code \<noteq> -1" "g_optarg st' = arg"
      "g_index st' = idx'" "between st' os' ns ps' (drop used r)" "os' @ ps' = os @ ps @ a # take used r" "length (g_argv st') = nargc"
      using option_call [OF 2(4) opt 2(6) _ 2(3), of code arg used idx'] ro 2(5,7) by auto
    have "\<exists>st''. collect m (getopt_long_only False nargc [] T) st' = Some (Inr (ev', st''))
        \<and> g_argv st'' = os' @ ps' @ words' @ ns @ nons \<and> g_optind st'' = length (os' @ ps' @ words')"
    proof (rule 2(2) [OF _ opt(2) ro [symmetric] refl refl 2(3) s(5,4) s(7) [symmetric] _ _ sc(1)])
      show "\<not> \<not> is_option a" using opt by simp
      show "list_all is_cstr (drop used r)" using 2(7) by (auto simp: list_all_iff dest: in_set_dropD)
      show "length (drop used r) < m" using m(2) by simp
    qed
    moreover have "length os' + length ps' = Suc (length os + (length ps + min (length r) used))"
      using arg_cong [OF s(6), of length] by simp
    ultimately show ?thesis using s m(1) sc(2,3) arg_cong [OF s(6), of "\<lambda>x. x @ words'"] by auto
  qed
qed

lemma scan_words_mset: "scan_words T idx ws = (ev, os, ns) \<Longrightarrow> mset (os @ ns) = mset ws"
proof (induction T idx ws arbitrary: ev os ns rule: scan_words.induct)
  case (2 T idx a r)
  obtain code arg used idx' where ro: "read_option T idx (option_body a) r = (code, arg, used, idx')" by (metis prod_cases4)
  show ?case
  proof (cases "is_option a \<and> a \<noteq> ''--''")
    case True
    obtain ev' os' where sc: "scan_words T idx' (drop used r) = (ev', os', ns)" "os = a # take used r @ os'"
      using 2(3) True ro by (auto simp: scan_words.simps split: prod.splits)
    have "mset (os' @ ns) = mset (drop used r)" using 2(2) True ro sc(1) by fastforce
    moreover have "mset r = mset (take used r) + mset (drop used r)" by (metis append_take_drop_id mset_append)
    ultimately show ?thesis using sc(2) by simp
  next
    case False
    then show ?thesis using 2(1,3) by (auto simp: scan_words.simps split: prod.splits if_splits)
  qed
qed simp

lemma getopt_scan_result:
  assumes "list_all is_cstr ws" and "\<forall>p \<in> set T. o_flag p = None \<and> o_val p \<noteq> -1" and "scan_words T 0 ws = (ev, os, ns)"
  shows "\<exists>st. collect (Suc (length ws)) (getopt_long_only False (Suc (length ws)) [] T) (initial_getopt (prog # ws)) = Some (Inr (ev, st))
    \<and> g_argv st = prog # os @ ns \<and> g_optind st = Suc (length os) \<and> mset (os @ ns) = mset ws"
proof -
  have "between (initial_getopt (prog # ws)) [prog] [] [] ws" by (simp add: between_def initial_getopt_def)
  then have "\<exists>st. collect (Suc (length ws)) (getopt_long_only False (Suc (length ws)) [] T) (initial_getopt (prog # ws)) = Some (Inr (ev, st))
    \<and> g_argv st = [prog] @ [] @ os @ [] @ ns \<and> g_optind st = length ([prog] @ [] @ os)"
    by (rule collect_scans [OF assms(2)]) (use assms(1,3) in \<open>simp_all add: initial_getopt_def\<close>)
  moreover have "mset (os @ ns) = mset ws" using scan_words_mset [OF assms(3)] .
  ultimately show ?thesis by simp
qed

text \<open>C12: The calls of \<open>getopt_long_only\<close> for a command line end after at most one call more than there are
  words. They report exactly the options that a single reading of the line from left to right finds, in
  their order, abbreviated, with one dash or two, with their argument behind an equals sign or in
  the next word, unknown and ambiguous ones included. Afterwards the words are the same, rearranged:
  first the options with their arguments, then, from \<open>optind\<close> on, the others, both in their order.\<close>

theorem getopt_reads_command_line:
  assumes "list_all is_cstr ws" and "\<forall>p \<in> set T. o_flag p = None \<and> o_val p \<noteq> -1" and "scan_words T 0 ws = (ev, os, ns)"
  shows "\<exists>st. collect (Suc (length ws)) (getopt_long_only False (Suc (length ws)) [] T) (initial_getopt (prog # ws)) = Some (Inr (ev, st))
    \<and> g_argv st = prog # os @ ns \<and> g_optind st = Suc (length os) \<and> mset (os @ ns) = mset ws"
  using assms by (rule getopt_scan_result)

definition demo_table :: "long_option list" where
  "demo_table = [\<lparr>o_name = ''verbose'', o_has_arg = no_argument, o_flag = None, o_val = 118\<rparr>,
     \<lparr>o_name = ''port'', o_has_arg = required_argument, o_flag = None, o_val = 112\<rparr>]"

theorem getopt_reads_command_line_witness:
  "\<exists>st. collect 5 (getopt_long_only False 5 [] demo_table) (initial_getopt [''x'', ''srv'', ''--po'', ''7'', ''-verbose''])
      = Some (Inr ([(112, Some ''7'', 1), (118, None, 0)], st))
    \<and> g_argv st = [''x'', ''--po'', ''7'', ''-verbose'', ''srv''] \<and> g_optind st = 4"
proof -
  have sc: "scan_words demo_table 0 [''srv'', ''--po'', ''7'', ''-verbose''] =
     ([(112, Some ''7'', 1), (118, None, 0)], [''--po'', ''7'', ''-verbose''], [''srv''])" by code_simp
  have c: "list_all is_cstr [''srv'', ''--po'', ''7'', ''-verbose'']" by (simp add: is_cstr_def)
  have T: "\<forall>p \<in> set demo_table. o_flag p = None \<and> o_val p \<noteq> -1" by (simp add: demo_table_def)
  have n: "Suc (length [''srv'', ''--po'', ''7'', ''-verbose'']) = 5" by simp
  show ?thesis using getopt_reads_command_line [OF c T sc, of "''x''"] unfolding n by (simp add: numeral_eq_Suc del: collect.simps)
qed

end
