(* ===== verification/Settings_Windows.thy ===== *)
theory Settings_Windows
  imports Settings Getopt_Scan
begin

text \<open>
  The command line in the Windows build (\<open>argument_parser.c\<close>): the table of long options, what each option
  does, and the loop over the calls of \<open>getopt_long_only\<close>. The options themselves are the ones of the
  theory \<open>Settings\<close>.
\<close>

section \<open>The options\<close>

definition key_code :: "char \<Rightarrow> int" where
  "key_code c = int (char_code c)"

definition opt_row :: "string \<Rightarrow> arg_kind \<Rightarrow> int \<Rightarrow> long_option" where
  "opt_row name kind val = \<lparr>o_name = name, o_has_arg = kind, o_flag = None, o_val = val\<rparr>"

definition long_options :: "long_option list" where
  "long_options =
    [opt_row ''verbose'' no_argument (key_code CHR ''v''),
     opt_row ''warn'' no_argument (key_code CHR ''w''),
     opt_row ''quiet'' no_argument (key_code CHR ''q''),
     opt_row ''information'' no_argument (key_code CHR ''i''),
     opt_row ''checksum-verify'' no_argument 0,
     opt_row ''ipv4'' no_argument (key_code CHR ''4''),
     opt_row ''ipv6'' no_argument (key_code CHR ''6''),
     opt_row ''port'' required_argument (key_code CHR ''p''),
     opt_row ''directory'' required_argument (key_code CHR ''d''),
     opt_row ''nick'' required_argument (key_code CHR ''n''),
     opt_row ''login'' required_argument (key_code CHR ''l''),
     opt_row ''accept-all-nicks'' no_argument 0,
     opt_row ''accept-all-certs'' no_argument 0,
     opt_row ''dont-confirm-offsets'' no_argument 0,
     opt_row ''throttle'' required_argument 0,
     opt_row ''delay'' required_argument 0,
     opt_row ''listen-ip'' required_argument 0,
     opt_row ''listen-port'' required_argument 0,
     opt_row ''version'' no_argument 0]"

text \<open>The configuration, and \<open>show_version_info_called\<close>.\<close>

type_synonym win_state = "xdccGetConfig \<times> bool"

definition show_version_info :: "win_state \<Rightarrow> win_state" where
  "show_version_info s = (fst s, True)"

definition on_config :: "(xdccGetConfig \<Rightarrow> stop + xdccGetConfig) \<Rightarrow> win_state \<Rightarrow> stop + win_state" where
  "on_config f s = and_then (f (fst s)) (\<lambda>c. Inr (c, snd s))"

text \<open>An argument that is missing is \<open>NULL\<close>.\<close>

definition with_arg :: "(xdccGetConfig \<Rightarrow> string \<Rightarrow> stop + xdccGetConfig) \<Rightarrow> string option \<Rightarrow> win_state \<Rightarrow> stop + win_state" where
  "with_arg f optarg s = (case optarg of None \<Rightarrow> Inl NullDeref | Some a \<Rightarrow> on_config (\<lambda>c. f c a) s)"

definition eval_long_option :: "nat \<Rightarrow> string \<Rightarrow> string option \<Rightarrow> win_state \<Rightarrow> stop + win_state" where
  "eval_long_option now option_name optarg s =
     (if option_name = ''checksum-verify'' then on_config (\<lambda>c. Inr (set_verify_checksum c)) s
      else if option_name = ''accept-all-nicks'' then on_config (\<lambda>c. Inr (set_accept_all_nicks c)) s
      else if option_name = ''accept-all-certs'' then on_config (\<lambda>c. Inr (set_accept_all_certs c)) s
      else if option_name = ''dont-confirm-offsets'' then on_config (\<lambda>c. Inr (set_dont_confirm_offsets c)) s
      else if option_name = ''throttle'' then with_arg (\<lambda>c a. Inr (set_throttle_download c a)) optarg s
      else if option_name = ''delay'' then with_arg (\<lambda>c a. Inr (set_delay_command now c a)) optarg s
      else if option_name = ''listen-ip'' then with_arg set_listen_ip optarg s
      else if option_name = ''listen-port'' then with_arg (\<lambda>c a. Inr (set_listen_port c a)) optarg s
      else if option_name = ''version'' then Inr (show_version_info s)
      else Inr s)"

text \<open>The \<open>switch\<close> of the loop. A code it does not know is only logged.\<close>

definition win_option :: "nat \<Rightarrow> getopt_event \<Rightarrow> win_state \<Rightarrow> stop + win_state" where
  "win_option now ev s =
     (case ev of (c, optarg, option_index) \<Rightarrow>
       if c = 0 then eval_long_option now (o_name (long_options ! option_index)) optarg s
       else if c = key_code CHR ''q'' then on_config (\<lambda>c. Inr (set_quiet_loglevel c)) s
       else if c = key_code CHR ''v'' then on_config (\<lambda>c. Inr (set_info_loglevel c)) s
       else if c = key_code CHR ''w'' then on_config (\<lambda>c. Inr (set_warn_loglevel c)) s
       else if c = key_code CHR ''i'' then on_config (\<lambda>c. Inr (set_info_loglevel c)) s
       else if c = key_code CHR ''c'' then on_config (\<lambda>c. Inr (set_verify_checksum c)) s
       else if c = key_code CHR ''d'' then with_arg (\<lambda>c a. Inr (set_target_dir c a)) optarg s
       else if c = key_code CHR ''n'' then with_arg (\<lambda>c a. Inr (set_nickname c a)) optarg s
       else if c = key_code CHR ''l'' then with_arg (\<lambda>c a. Inr (set_login_command c a)) optarg s
       else if c = key_code CHR ''p'' then with_arg (\<lambda>c a. Inr (set_port c a)) optarg s
       else if c = key_code CHR ''4'' then on_config (\<lambda>c. Inr (set_use_ipv4 c)) s
       else if c = key_code CHR ''6'' then on_config (\<lambda>c. Inr (set_use_ipv6 c)) s
       else Inr s)"

section \<open>The loop\<close>

fun options_loop :: "nat \<Rightarrow> nat \<Rightarrow> nat \<Rightarrow> getopt_state \<Rightarrow> win_state \<Rightarrow> (stop + getopt_state \<times> win_state) option" where
  "options_loop now argc 0 st s = None"
| "options_loop now argc (Suc n) st s =
     (case getopt_long_only False argc [] long_options st of
        Inl e \<Rightarrow> Some (Inl OutOfBounds)
      | Inr (st, c) \<Rightarrow>
          if c = -1 then Some (Inr (st, s))
          else (case win_option now (c, g_optarg st, g_index st) s of
              Inl e \<Rightarrow> Some (Inl e)
            | Inr s \<Rightarrow> options_loop now argc n st s))"

text \<open>The loop makes at most as many rounds as there are words.\<close>

definition parseArguments_windows :: "nat \<Rightarrow> string list \<Rightarrow> xdccGetConfig \<Rightarrow> (stop + xdccGetConfig) option" where
  "parseArguments_windows now argv c =
     (let argc = length argv in
      map_option (\<lambda>r. and_then r (\<lambda>(st, c, show_version_info_called).
        (let i = g_optind st; actual_argument_counter = argc - i in
         if \<not> show_version_info_called \<and> actual_argument_counter \<noteq> 3 then Inl (ExitPgm 0)
         else if show_version_info_called then Inl (ExitPgm 0)
         else Inr (c\<lparr>c_args := [Some (g_argv st ! i), Some (g_argv st ! (i + 1)), Some (g_argv st ! (i + 2))]\<rparr>))))
        (options_loop now argc argc (initial_getopt argv) (c, False)))"

section \<open>Properties\<close>

fun win_options :: "nat \<Rightarrow> getopt_event list \<Rightarrow> win_state \<Rightarrow> stop + win_state" where
  "win_options now [] s = Inr s"
| "win_options now (e # es) s = and_then (win_option now e s) (win_options now es)"

lemma options_loop_collect:
  "collect n (getopt_long_only False argc [] long_options) st = Some (Inr (ev, st')) \<Longrightarrow>
   options_loop now argc n st s = Some (and_then (win_options now ev s) (\<lambda>s. Inr (st', s)))"
proof (induction n arbitrary: st s ev)
  case (Suc n)
  obtain u c where c: "getopt_long_only False argc [] long_options st = Inr (u, c)"
    using Suc.prems by (cases "getopt_long_only False argc [] long_options st") auto
  show ?case
  proof (cases "c = -1")
    case True
    then show ?thesis using Suc.prems c by simp
  next
    case False
    obtain ev' where ev: "collect n (getopt_long_only False argc [] long_options) u = Some (Inr (ev', st'))"
      "ev = (c, g_optarg u, g_index u) # ev'"
      using Suc.prems c False by (auto simp: and_then_Inr_iff)
    show ?thesis
    proof (cases "win_option now (c, g_optarg u, g_index u) s")
      case (Inl e)
      then show ?thesis using c False ev(2) by simp
    next
      case (Inr s')
      then show ?thesis using c False ev Suc.IH [OF ev(1), of s'] by simp
    qed
  qed
qed simp

lemma long_options_plain: "\<forall>p \<in> set long_options. o_flag p = None \<and> o_val p \<noteq> -1"
  by (simp add: long_options_def opt_row_def key_code_def)

text \<open>C27: The command line of the Windows build has the effect of its options, one after the other as they
  are read from left to right, and then sets the three arguments to the words that are not options,
  wherever these stood. With more or fewer than three, or when the version was asked for, the
  program exits.\<close>

theorem windows_command_line:
  assumes "list_all is_cstr ws" and "scan_words long_options 0 ws = (ev, os, ns)"
  shows "parseArguments_windows now (prog # ws) c = Some (and_then (win_options now ev (c, False)) (\<lambda>(c, version).
     if version \<or> length ns \<noteq> 3 then Inl (ExitPgm 0) else Inr (c\<lparr>c_args := map Some ns\<rparr>)))"
proof -
  obtain st where st: "collect (Suc (length ws)) (getopt_long_only False (Suc (length ws)) [] long_options) (initial_getopt (prog # ws))
      = Some (Inr (ev, st))" "g_argv st = prog # os @ ns" "g_optind st = Suc (length os)" "mset (os @ ns) = mset ws"
    using getopt_scan_result [OF assms(1) long_options_plain assms(2)] by blast
  have len: "length ws = length os + length ns" using st(4) by (metis length_append mset_eq_length)
  have args: "[Some (g_argv st ! Suc (length os)), Some (g_argv st ! (Suc (length os) + 1)), Some (g_argv st ! (Suc (length os) + 2))] = map Some ns"
    if l3: "length ns = 3"
  proof -
    obtain x t where x: "ns = x # t" "length t = 2" using l3 by (cases ns) auto
    obtain y u where y: "t = y # u" "length u = 1" using x(2) by (cases t) auto
    obtain z where "u = [z]" using y(2) by (cases u) auto
    then have "ns = [x, y, z]" using x(1) y(1) by simp
    then show ?thesis using st(2) by (simp add: nth_append)
  qed
  have loop: "options_loop now (length (prog # ws)) (length (prog # ws)) (initial_getopt (prog # ws)) (c, False)
     = Some (and_then (win_options now ev (c, False)) (\<lambda>s. Inr (st, s)))"
    using options_loop_collect [OF st(1)] by simp
  show ?thesis unfolding parseArguments_windows_def Let_def loop using len st(3) args
    by (cases "win_options now ev (c, False)") (auto split: prod.splits)
qed

theorem windows_command_line_witness:
  "\<exists>c. parseArguments_windows 0 [''xdccget'', ''srv'', ''--quiet'', ''#c'', ''-nick=me'', ''bot xdcc send #1''] zero_config = Some (Inr c)
     \<and> c_args c = [Some ''srv'', Some ''#c'', Some ''bot xdcc send #1''] \<and> c_logLevel c = LOG_QUIET \<and> c_nick c = Some ''me''"
proof -
  have sc: "scan_words long_options 0 [''srv'', ''--quiet'', ''#c'', ''-nick=me'', ''bot xdcc send #1''] =
     ([(113, None, 2), (110, Some ''me'', 9)], [''--quiet'', ''-nick=me''], [''srv'', ''#c'', ''bot xdcc send #1''])" by code_simp
  have c: "list_all is_cstr [''srv'', ''--quiet'', ''#c'', ''-nick=me'', ''bot xdcc send #1'']" by (simp add: is_cstr_def)
  have k: "key_code CHR ''q'' = 113" "key_code CHR ''v'' = 118" "key_code CHR ''w'' = 119" "key_code CHR ''i'' = 105" "key_code CHR ''c'' = 99"
    "key_code CHR ''d'' = 100" "key_code CHR ''n'' = 110" by (simp_all add: key_code_def char_code_def)
  have me: "sdsnew ''me'' = ''me''" by (simp add: sdsnew_def cstr_def)
  show ?thesis unfolding windows_command_line [OF c sc]
    by (simp add: win_option_def k on_config_def with_arg_def set_quiet_loglevel_def set_nickname_def me)
qed

end
