(* ===== verification/Download_Safety.thy ===== *)
theory Download_Safety
  imports Download
begin

text \<open>
  The application's callbacks keep the list of DCC sessions, so they are a client in the sense of
  \<open>dcc_client\<close>, and the processing loop never touches a freed session or a missing callback.
\<close>

section \<open>What the application's steps leave alone\<close>

lemma os_ret_app [simp]: "os_ret w = (r, v) \<Longrightarrow> w_session v = w_session w"
  using os_ret_frame(3) [of w] by simp

lemma file_Write_session: "file_Write i xs w = Inr v \<Longrightarrow> w_session v = w_session w"
  by (auto simp: file_Write_def Let_def split: fd_slot.splits prod.splits if_splits)

lemma file_Seek_session: "file_Seek i n w = Inr v \<Longrightarrow> w_session v = w_session w"
  by (auto simp: file_Seek_def split: fd_slot.splits prod.splits if_splits)

lemma file_Close_session: "file_Close i w = Inr v \<Longrightarrow> w_session v = w_session w"
  by (auto simp: file_Close_def split: fd_slot.splits prod.splits if_splits)

lemma app_send_session: "w_session (app_send cmd w) = fst (cmd (w_session w))"
  by (simp add: app_send_def w_send_def split: prod.splits)

lemma startChecksum_session [simp]: "w_session (startChecksumThread m p w) = w_session w"
  by (simp add: startChecksumThread_def)

lemma report_finished_session:
  "report_finished w = Inr v \<Longrightarrow>
     w_session v = w_session w \<or> w_session v = fst (irc_cmd_quit (w_session w) (Some ''Goodbye!''))"
  by (auto simp: report_finished_def Let_def app_send_session split: option.splits if_splits list.splits)

lemma finish_session:
  assumes "finish_download i w = Inr v"
  shows "w_session v = w_session w \<or> w_session v = fst (irc_cmd_quit (w_session w) (Some ''Goodbye!''))"
proof -
  obtain u where "file_Close i (on_app (\<lambda>a. a\<lparr>a_lastDownload := a_curDownload a\<rparr>)
      (on_context i (\<lambda>c. c\<lparr>x_progress := outputProgress (x_progress c)\<rparr>) (on_app (\<lambda>a. a\<lparr>a_alarm := 0\<rparr>) w))) = Inr u"
    "report_finished u = Inr v"
    using assms by (auto simp: finish_download_def Let_def and_then_Inr_iff)
  then show ?thesis using file_Close_session report_finished_session by fastforce
qed

lemma recv_callback_session:
  assumes "callback_dcc_recv_file i st c d n w = Inr v"
  shows "w_session v = w_session w \<or> w_session v = fst (irc_cmd_quit (w_session w) (Some ''Goodbye!''))"
proof (cases "\<exists>xs k. d = Some xs \<and> c = Some k \<and> n \<noteq> 0 \<and> st = 0")
  case True
  then obtain xs k where k: "d = Some xs" "c = Some k" "n \<noteq> 0" "st = 0" by blast
  then obtain u where u: "file_Write k (take n xs) (count_received k n w) = Inr u"
    "v = u \<or> finish_download k u = Inr v"
    using assms by (auto simp: callback_dcc_recv_file_def and_then_Inr_iff split: if_splits)
  then have "w_session u = w_session w" using file_Write_session by (fastforce simp: count_received_def)
  then show ?thesis using u(2) finish_session by fastforce
next
  case False
  then show ?thesis using assms by (auto simp: callback_dcc_recv_file_def split: option.splits if_splits)
qed

section \<open>Keeping the list\<close>

lemma inv_raw: "dcc_inv s \<Longrightarrow> dcc_inv (fst (irc_send_raw s m))"
  using callbacks_set_raw send_raw_frame(5) [of s m] by (simp add: dcc_inv_def)

lemma quit_keeps: "keeps_dcc s (fst (irc_cmd_quit s r)) \<and> (dcc_inv s \<longrightarrow> dcc_inv (fst (irc_cmd_quit s r)))"
  by (simp add: irc_cmd_quit_def keeps_raw inv_raw)

text \<open>Storing a callback and a new state.\<close>

lemma set_cb_keeps:
  assumes "dcc_inv s"
  shows "keeps_dcc s (set_dcc_state i st (upd_dcc i (\<lambda>d. d\<lparr>d_cb := Some f, d_ctx := c\<rparr>) s))
     \<and> dcc_inv (set_dcc_state i st (upd_dcc i (\<lambda>d. d\<lparr>d_cb := Some f, d_ctx := c\<rparr>) s))"
proof -
  let ?t = "upd_dcc i (\<lambda>d. d\<lparr>d_cb := Some f, d_ctx := c\<rparr>) s"
  have k: "keeps_dcc s ?t" by (rule keeps_upd) simp_all
  have i: "dcc_inv ?t" by (rule dcc_inv_upd [OF assms]) simp_all
  have "dcc_inv (set_dcc_state i st ?t)"
    unfolding set_dcc_state_def by (rule dcc_inv_upd [OF i]) (auto simp: dcc_at_upd)
  then show ?thesis using keeps_trans [OF k keeps_state] by blast
qed

lemma accept_keeps:
  assumes "irc_dcc_accept w i c f = (v, 0)" and "dcc_inv (w_session w)"
  shows "keeps_dcc (w_session w) (w_session v) \<and> dcc_inv (w_session v)"
proof -
  obtain d where d: "dcc_at (w_session w) i = Some d"
    using assms(1) by (auto simp: irc_dcc_accept_def find_session_true split: option.splits)
  let ?s = "lock_dcc (w_session w)"
  let ?u = "upd_dcc i (\<lambda>d. d\<lparr>d_cb := Some f, d_ctx := c\<rparr>) ?s"
  obtain st where st: "w_session v = unlock_dcc (set_dcc_state i st ?u)"
    using assms(1) d os_ret_frame(3) [of "w\<lparr>w_session := ?u\<rparr>"]
    by (auto simp: irc_dcc_accept_def find_session_true Let_def split: if_splits prod.splits)
  have "keeps_dcc ?s (set_dcc_state i st ?u) \<and> dcc_inv (set_dcc_state i st ?u)"
    by (rule set_cb_keeps) (simp add: assms(2))
  then show ?thesis using keeps_unlocked st by simp
qed

lemma or_exit_Inr: "or_exit r = Inr v \<longleftrightarrow> r = (v, 0)"
  by (cases r) (auto simp: or_exit_def)

lemma resume_callback_keeps:
  assumes "callback_dcc_resume_file i st c d n w = Inr v" and "dcc_inv (w_session w)"
  shows "keeps_dcc (w_session w) (w_session v) \<and> dcc_inv (w_session v)"
proof -
  obtain k u where u: "c = Some k" "file_Seek k n w = Inr u"
    "irc_dcc_accept (set_position k n u) i c RECV_FILE = (v, 0)"
    using assms(1) by (auto simp: callback_dcc_resume_file_def and_then_Inr_iff or_exit_Inr split: option.splits)
  have "w_session (set_position k n u) = w_session w"
    using file_Seek_session [OF u(2)] by (simp add: set_position_def)
  then show ?thesis using accept_keeps [OF u(3)] assms(2) by simp
qed

lemma dcc_cb_app [simp]: "dcc_cb (initCallbacks dns now) = xg_dcc_cb"
  by (simp add: initCallbacks_def)

interpretation xdccget: dcc_client "initCallbacks dns now"
proof (unfold_locales, goal_cases)
  case (1 f i st c d n w w')
  show ?case
  proof (cases f)
    case RECV_FILE
    then have "callback_dcc_recv_file i st c d n w = Inr w'" using 1(1) by simp
    then have "w_session w' = w_session w \<or> w_session w' = fst (irc_cmd_quit (w_session w) (Some ''Goodbye!''))"
      by (rule recv_callback_session)
    then show ?thesis using quit_keeps [of "w_session w" "Some ''Goodbye!''"] 1(2) by auto
  next
    case RESUME_FILE
    then show ?thesis using 1 resume_callback_keeps by simp
  next
    case RESUME_FILE_REVERSE
    then show ?thesis using 1(1) by simp
  qed
qed

section \<open>The processing loop of the program\<close>

text \<open>The ways one of the application's callbacks ends the program or goes wrong.\<close>

definition app_stop :: "stop \<Rightarrow> bool" where
  "app_stop e \<longleftrightarrow> e = NullDeref \<or> e = Uninitialised \<or> (\<exists>rc. e = ExitPgm rc)"

lemma exitPgm_stop [simp]: "app_stop (exitPgm rc w)"
proof -
  have "cleanup_contexts cs ps = Some e \<Longrightarrow> e = Uninitialised" for cs ps e
    by (induction cs ps rule: cleanup_contexts.induct) (auto simp: Let_def split: if_splits)
  then show ?thesis by (auto simp: exitPgm_def doCleanUp_def app_stop_def split: option.splits)
qed

lemma file_stops:
  "file_Write i xs w = Inl e \<Longrightarrow> app_stop e" "file_Seek i n w = Inl e \<Longrightarrow> app_stop e"
  "file_Close i w = Inl e \<Longrightarrow> app_stop e"
  by (auto simp: file_Write_def file_Seek_def file_Close_def Let_def app_stop_def [of NullDeref]
      app_stop_def [of Uninitialised] split: fd_slot.splits prod.splits if_splits)

lemma recv_callback_stops:
  assumes "callback_dcc_recv_file i st c d n w = Inl e"
  shows "app_stop e"
proof -
  have r: "app_stop e" if "report_finished u = Inl e" for u
    using that by (auto simp: report_finished_def Let_def app_stop_def split: if_splits list.splits option.splits)
  have f: "app_stop e" if "finish_download k u = Inl e" for k u
    using that r file_stops(3) by (auto simp: finish_download_def Let_def and_then_Inl_iff)
  show ?thesis using assms f file_stops(1)
    by (auto simp: callback_dcc_recv_file_def and_then_Inl_iff split: option.splits if_splits)
qed

lemma or_exit_stop: "or_exit r = Inl e \<Longrightarrow> app_stop e"
  by (cases r) (auto simp: or_exit_def split: if_splits)

lemma callback_stops: "dcc_client.cb_faults (initCallbacks dns now) e \<Longrightarrow> app_stop e"
proof -
  assume "dcc_client.cb_faults (initCallbacks dns now) e"
  then obtain f i st c d n w where e: "xg_dcc_cb f i st c d n w = Inl e"
    unfolding xdccget.cb_faults_def dcc_cb_app by blast
  show ?thesis
    using e recv_callback_stops file_stops(2)
    by (cases f) (auto dest: or_exit_stop simp: callback_dcc_resume_file_def and_then_Inl_iff app_stop_def [of NullDeref] split: option.splits)
qed

text \<open>A running transfer: the session 2 receives the file of the first context.\<close>

definition demo_dcc :: irc_dcc_session where
  "demo_dcc = \<lparr>d_id = 2, d_passive_connection = False, d_token = 0, d_ctx = Some 0, d_sock = 7,
     d_state = LIBIRC_STATE_CONNECTED, d_ssl = False, d_received_file_size = 5, d_file_confirm_offset = 0,
     d_remote_ip = 0, d_remote_port = 4000, d_cb = Some RECV_FILE, d_reverse_cb = None\<rparr>"

definition demo_file :: file_io where
  "demo_file = \<lparr>f_path = ''dl/x'', f_append = False, f_pos = 0\<rparr>"

definition demo_app :: app where
  "demo_app = (initial_app 1)\<lparr>a_contexts := [\<lparr>x_progress = newDccProgress ''dl/x'' 5, x_fd = FdOpen demo_file\<rparr>],
     a_downloadContext := [Some 0], a_numActiveDownloads := 1, a_curDownload := Some 0,
     a_files := (\<lambda>p. None)(''dl/x'' \<mapsto> [])\<rparr>"

definition demo_session :: irc_session where
  "demo_session = irc_create_session\<lparr>s_state := LIBIRC_STATE_CONNECTED, s_dcc_sessions := [demo_dcc]\<rparr>"

definition demo_world :: app_world where
  "demo_world = (fresh_world demo_session zero_config demo_app)
     \<lparr>w_os := \<lparr>os_rets = [0, 0, 0, 0], os_reads = [ReadBytes ''hel'', ReadBytes ''lo''], os_writes = [Written 4],
        os_handshake = [], os_pending = [], os_ready = [(7, FDW_READ)], os_watch = [], os_sent = [], os_time = 0\<rparr>\<rparr>"

text \<open>C35: one round of the main loop over the transfers is safe for every answer of the network: it
  keeps the lock as deep as it was, every session in the list and a callback for each session that
  transfers; it never reads a freed session. Where it stops, the application exited or ran into
  a missing file.\<close>

theorem dcc_round_safe:
  assumes "dcc_inv (w_session w)"
  shows "case libirc_dcc_process_descriptors (initCallbacks dns now) w of
     Inl e \<Rightarrow> app_stop e
   | Inr v \<Rightarrow> keeps_dcc (w_session w) (w_session v) \<and> dcc_inv (w_session v)"
  using xdccget.process_descriptors_ok [OF assms, of dns now] callback_stops
  by (auto simp: xdccget.step_ok_def split: sum.splits)

theorem dcc_round_safe_witness:
  "case libirc_dcc_process_descriptors (initCallbacks (\<lambda>h. None) []) demo_world of
     Inl e \<Rightarrow> app_stop e
   | Inr v \<Rightarrow> keeps_dcc (w_session demo_world) (w_session v) \<and> dcc_inv (w_session v)"
  by (rule dcc_round_safe)
    (simp add: demo_world_def demo_session_def demo_dcc_def fresh_world_def dcc_inv_def callbacks_set_def)

end
