(* ===== verification/Download_File.thy ===== *)
theory Download_File
  imports Download_Safety
begin

text \<open>
  A transfer from end to end: the bytes a bot sends are the bytes of the file, and the offsets it
  gets back are the numbers of bytes received.
\<close>

section \<open>The file of a context\<close>

text \<open>Context \<open>k\<close> has a file open at its end, with \<open>t\<close> in it, \<open>n\<close> of \<open>N\<close> bytes received.\<close>

definition open_at_end :: "file_io \<Rightarrow> string \<Rightarrow> bool" where
  "open_at_end f t \<longleftrightarrow> f_append f \<or> f_pos f = length t"

definition storing :: "app_world \<Rightarrow> nat \<Rightarrow> string \<Rightarrow> string \<Rightarrow> nat \<Rightarrow> nat \<Rightarrow> bool" where
  "storing w k path t n N \<longleftrightarrow> k < length (a_contexts (w_app w)) \<and> sizeRcvd (progress_of w k) = n
     \<and> completeFileSize (progress_of w k) = N \<and> file_content w path = t
     \<and> (\<exists>f. x_fd (a_contexts (w_app w) ! k) = FdOpen f \<and> f_path f = path \<and> open_at_end f t)"

text \<open>What a step leaves as it was, but for the return codes it used.\<close>

definition same_but_rets :: "app_world \<Rightarrow> app_world \<Rightarrow> bool" where
  "same_but_rets w v \<longleftrightarrow> w_session v = w_session w \<and> w_cfg v = w_cfg w \<and> w_heap v = w_heap w
     \<and> w_result v = w_result w \<and> (\<exists>r. w_os v = (w_os w)\<lparr>os_rets := r\<rparr>)
     \<and> a_finishedDownloads (w_app v) = a_finishedDownloads (w_app w)
     \<and> a_numActiveDownloads (w_app v) = a_numActiveDownloads (w_app w)"

lemma write_at_end: "write_at t (length t) xs = t @ xs"
  by (simp add: write_at_def)

lemma write_chunk:
  assumes "storing w k path t n N" and "n + length xs < SIZE_MOD" and "os_rets (w_os w) = r # rr" and "0 \<le> r"
  shows "\<exists>v. file_Write k xs (count_received k (length xs) w) = Inr v
     \<and> storing v k path (t @ xs) (n + length xs) N \<and> same_but_rets w v \<and> os_rets (w_os v) = rr"
proof -
  let ?u = "count_received k (length xs) w"
  obtain f where f: "x_fd (a_contexts (w_app w) ! k) = FdOpen f" "f_path f = path" "open_at_end f t"
    and k: "k < length (a_contexts (w_app w))"
    and p: "sizeRcvd (progress_of w k) = n" "completeFileSize (progress_of w k) = N" "file_content w path = t"
    using assms(1) by (auto simp: storing_def)
  have u: "x_fd (a_contexts (w_app ?u) ! k) = FdOpen f"
    "x_progress (a_contexts (w_app ?u) ! k) = (progress_of w k)\<lparr>sizeRcvd := n + length xs\<rparr>"
    "length (a_contexts (w_app ?u)) = length (a_contexts (w_app w))"
    "w_os ?u = w_os w" "file_content ?u path = t"
    using f k p assms(2) by (simp_all add: count_received_def on_context_def progress_of_def file_content_def)
  have pos: "(if f_append f then length t else f_pos f) = length t"
    using f(3) by (auto simp: open_at_end_def)
  let ?v = "on_app (\<lambda>a. a\<lparr>a_files := (a_files a)(path \<mapsto> t @ xs)\<rparr>)
     (on_context k (\<lambda>c. c\<lparr>x_fd := FdOpen (f\<lparr>f_pos := length t + length xs\<rparr>)\<rparr>)
       (?u\<lparr>w_os := (w_os w)\<lparr>os_rets := rr\<rparr>\<rparr>))"
  have "file_Write k xs ?u = Inr ?v"
    using assms(3,4) u f(2) pos
    by (cases "f_append f") (simp_all add: file_Write_def fd_of_def k os_ret_def file_content_def Let_def write_at_end)
  moreover have "storing ?v k path (t @ xs) (n + length xs) N"
    using u k p f(2) by (simp add: storing_def progress_of_def on_context_def file_content_def open_at_end_def)
  moreover have "same_but_rets w ?v"
    by (auto simp: same_but_rets_def count_received_def on_context_def)
  moreover have "os_rets (w_os ?v) = rr" by simp
  ultimately show ?thesis by blast
qed

text \<open>A chunk that does not complete the file.\<close>

lemma recv_chunk:
  assumes "storing w k path t n N" and "n + length xs < SIZE_MOD" and "os_rets (w_os w) = r # rr" and "0 \<le> r"
    and "xs \<noteq> []" and "n + length xs \<noteq> N"
  shows "\<exists>v. callback_dcc_recv_file i 0 (Some k) (Some xs) (length xs) w = Inr v
     \<and> storing v k path (t @ xs) (n + length xs) N \<and> same_but_rets w v \<and> os_rets (w_os v) = rr"
proof -
  obtain v where v: "file_Write k xs (count_received k (length xs) w) = Inr v"
    "storing v k path (t @ xs) (n + length xs) N" "same_but_rets w v" "os_rets (w_os v) = rr"
    using write_chunk [OF assms(1-4)] by blast
  moreover have "callback_dcc_recv_file i 0 (Some k) (Some xs) (length xs) w = Inr v"
    using v(1,2) assms(5,6) by (simp add: callback_dcc_recv_file_def storing_def)
  ultimately show ?thesis by blast
qed

text \<open>The chunk that completes it, without checksum verification.\<close>

lemma last_chunk:
  assumes "storing w k path t n N" and "n + length xs < SIZE_MOD" and "os_rets (w_os w) = r # r' # rr"
    and "0 \<le> r" and "0 \<le> r'" and "xs \<noteq> []" and "n + length xs = N"
    and "\<not> cfg_get_bit (w_cfg w) VERIFY_CHECKSUM_FLAG"
  shows "\<exists>v. callback_dcc_recv_file i 0 (Some k) (Some xs) (length xs) w = Inr v
     \<and> file_content v path = t @ xs \<and> x_fd (a_contexts (w_app v) ! k) = FdNull
     \<and> a_finishedDownloads (w_app v) = a_finishedDownloads (w_app w) + 1
     \<and> w_session v = (if a_finishedDownloads (w_app w) + 1 = a_numActiveDownloads (w_app w)
          then fst (irc_cmd_quit (w_session w) (Some ''Goodbye!'')) else w_session w)
     \<and> w_cfg v = w_cfg w \<and> w_os v = (w_os w)\<lparr>os_rets := rr\<rparr>"
proof -
  obtain u where u: "file_Write k xs (count_received k (length xs) w) = Inr u"
    "storing u k path (t @ xs) (n + length xs) N" "same_but_rets w u" "os_rets (w_os u) = r' # rr"
    using write_chunk [OF assms(1-4)] by blast
  obtain f where f: "x_fd (a_contexts (w_app u) ! k) = FdOpen f" "k < length (a_contexts (w_app u))"
    using u(2) by (auto simp: storing_def)
  let ?v = "on_app (\<lambda>a. a\<lparr>a_lastDownload := a_curDownload a\<rparr>)
     (on_context k (\<lambda>c. c\<lparr>x_progress := outputProgress (x_progress c)\<rparr>) (on_app (\<lambda>a. a\<lparr>a_alarm := 0\<rparr>) u))"
  let ?c = "on_context k (\<lambda>c. c\<lparr>x_fd := FdNull\<rparr>) (?v\<lparr>w_os := (w_os u)\<lparr>os_rets := rr\<rparr>\<rparr>)"
  have "file_Close k ?v = Inr ?c"
    using f u(4) assms(5) by (simp add: file_Close_def fd_of_def os_ret_def on_context_def)
  then have fin: "finish_download k u = report_finished ?c"
    by (simp add: finish_download_def Let_def)
  have cb: "callback_dcc_recv_file i 0 (Some k) (Some xs) (length xs) w = report_finished ?c"
    using u(1,2) assms(6,7) fin by (simp add: callback_dcc_recv_file_def storing_def)
  let ?d = "on_app (\<lambda>a. a\<lparr>a_finishedDownloads := a_finishedDownloads a + 1\<rparr>) ?c"
  let ?e = "if a_finishedDownloads (w_app ?d) = a_numActiveDownloads (w_app ?d)
     then app_send (\<lambda>s. irc_cmd_quit s (Some ''Goodbye!'')) ?d else ?d"
  have rep: "report_finished ?c = Inr ?e"
    using u(3) assms(8) by (simp add: report_finished_def same_but_rets_def)
  have send: "w_app (app_send cmd x) = w_app x" "w_cfg (app_send cmd x) = w_cfg x" "w_os (app_send cmd x) = w_os x"
    for cmd x by (simp_all add: app_send_def w_send_def split: prod.splits)
  have d: "w_app ?e = w_app ?d" "w_cfg ?e = w_cfg u" "w_os ?e = (w_os u)\<lparr>os_rets := rr\<rparr>"
    by (simp_all add: send)
  have "file_content ?e path = t @ xs"
    using u(2) d(1) by (simp add: storing_def file_content_def on_context_def)
  moreover have "x_fd (a_contexts (w_app ?e) ! k) = FdNull" using f(2) d(1) by (simp add: on_context_def)
  moreover have "a_finishedDownloads (w_app ?e) = a_finishedDownloads (w_app w) + 1"
    using u(3) d(1) by (simp add: on_context_def same_but_rets_def)
  moreover have "w_session ?e = (if a_finishedDownloads (w_app w) + 1 = a_numActiveDownloads (w_app w)
          then fst (irc_cmd_quit (w_session w) (Some ''Goodbye!'')) else w_session w)"
    using u(3) by (simp add: app_send_session on_context_def same_but_rets_def)
  moreover have "w_cfg ?e = w_cfg w" using u(3) d(2) by (simp add: same_but_rets_def)
  moreover have "w_os ?e = (w_os w)\<lparr>os_rets := rr\<rparr>"
  proof -
    obtain q where "w_os u = (w_os w)\<lparr>os_rets := q\<rparr>" using u(3) by (auto simp: same_but_rets_def)
    then show ?thesis using d(3) by simp
  qed
  ultimately show ?thesis unfolding cb rep by (intro exI [of _ ?e] conjI refl)
qed

section \<open>A round of a transfer\<close>

definition set_ready :: "int \<Rightarrow> interest \<Rightarrow> app_world \<Rightarrow> app_world" where
  "set_ready fd r w = w\<lparr>w_os := (w_os w)\<lparr>os_ready := [(fd, r)]\<rparr>\<rparr>"

text \<open>The session's socket becomes readable, then writable.\<close>

definition chunk_round :: "app irc_callbacks \<Rightarrow> nat \<Rightarrow> int \<Rightarrow> app_world \<Rightarrow> stop + app_world" where
  "chunk_round cbs i fd w =
     and_then (process_dcc cbs i (set_ready fd FDW_READ w)) (\<lambda>w. process_dcc cbs i (set_ready fd FDW_WRITE w))"

fun chunk_rounds :: "nat \<Rightarrow> app irc_callbacks \<Rightarrow> nat \<Rightarrow> int \<Rightarrow> app_world \<Rightarrow> stop + app_world" where
  "chunk_rounds 0 cbs i fd w = Inr w"
| "chunk_rounds (Suc n) cbs i fd w = and_then (chunk_round cbs i fd w) (chunk_rounds n cbs i fd)"

text \<open>Session \<open>i\<close> on socket \<open>fd\<close>, without TLS, in state \<open>st\<close>, receives \<open>N\<close> bytes for context \<open>k\<close> and is at \<open>n\<close>.\<close>

definition receives :: "irc_session \<Rightarrow> nat \<Rightarrow> int \<Rightarrow> nat \<Rightarrow> libirc_state \<Rightarrow> nat \<Rightarrow> nat \<Rightarrow> bool" where
  "receives s i fd k st n N \<longleftrightarrow> (\<exists>d. dcc_at s i = Some d \<and> d_state d = st \<and> \<not> d_ssl d \<and> d_cb d = Some RECV_FILE
     \<and> d_ctx d = Some k \<and> d_sock d = fd \<and> d_received_file_size d = N \<and> d_file_confirm_offset d = n)"

lemma set_ready_sel [simp]:
  "w_session (set_ready fd r w) = w_session w" "w_app (set_ready fd r w) = w_app w"
  "w_cfg (set_ready fd r w) = w_cfg w" "os_rets (w_os (set_ready fd r w)) = os_rets (w_os w)"
  "os_reads (w_os (set_ready fd r w)) = os_reads (w_os w)" "os_writes (w_os (set_ready fd r w)) = os_writes (w_os w)"
  "os_sent (w_os (set_ready fd r w)) = os_sent (w_os w)" "fdwatch_check_fd (set_ready fd r w) fd r"
  by (simp_all add: set_ready_def fdwatch_check_fd_def)

lemma storing_app: "w_app v = w_app w \<Longrightarrow> storing v k path t n N = storing w k path t n N"
  by (simp add: storing_def progress_of_def file_content_def)

lemma plain_loop: "\<not> has_ssl v i \<Longrightarrow> recv_dcc_turn cbs i w = Inr (v, m) \<Longrightarrow> recv_dcc_loop cbs i ps w = Inr v"
  by (cases ps) simp_all

definition received_world :: "nat \<Rightarrow> string \<Rightarrow> read_answer list \<Rightarrow> app_world \<Rightarrow> app_world" where
  "received_world i xs rs w = on_session (\<lambda>s. upd_dcc i
     (\<lambda>d. d\<lparr>d_file_confirm_offset := size_t (d_file_confirm_offset d + length xs)\<rparr>) (unlock_dcc s))
     (w\<lparr>w_os := (w_os w)\<lparr>os_reads := rs\<rparr>\<rparr>)"

lemma received_world_sel [simp]:
  "w_app (received_world i xs rs w) = w_app w" "w_cfg (received_world i xs rs w) = w_cfg w"
  "w_os (received_world i xs rs w) = (w_os w)\<lparr>os_reads := rs\<rparr>"
  by (simp_all add: received_world_def)

lemma read_step:
  assumes "receives (w_session w) i fd k LIBIRC_STATE_CONNECTED n N" and "os_reads (w_os w) = ReadBytes xs # rs"
    and "xs \<noteq> []" and "n + length xs < SIZE_MOD"
    and "callback_dcc_recv_file i 0 (Some k) (Some xs) (length xs) (received_world i xs rs (set_ready fd FDW_READ w)) = Inr v"
    and "s_dcc_sessions (w_session v) = s_dcc_sessions (w_session (received_world i xs rs w))"
    and "\<not> cfg_get_bit (w_cfg v) DONT_CONFIRM_OFFSETS_FLAG"
  shows "process_dcc (initCallbacks dns now) i (set_ready fd FDW_READ w)
       = Inr (on_session (\<lambda>s. lock_dcc (set_dcc_state i LIBIRC_STATE_CONFIRM_SIZE s)) v)"
    and "receives (set_dcc_state i LIBIRC_STATE_CONFIRM_SIZE (w_session v)) i fd k LIBIRC_STATE_CONFIRM_SIZE (n + length xs) N"
proof -
  let ?w = "set_ready fd FDW_READ w"
  let ?u = "received_world i xs rs ?w"
  let ?v = "on_session (\<lambda>s. lock_dcc (set_dcc_state i LIBIRC_STATE_CONFIRM_SIZE s)) v"
  obtain d where d: "dcc_at (w_session w) i = Some d" "d_state d = LIBIRC_STATE_CONNECTED" "\<not> d_ssl d"
    "d_cb d = Some RECV_FILE" "d_ctx d = Some k" "d_sock d = fd" "d_received_file_size d = N"
    "d_file_confirm_offset d = n"
    using assms(1) by (auto simp: receives_def)
  have at_u: "dcc_at (w_session ?u) i = Some (d\<lparr>d_file_confirm_offset := n + length xs\<rparr>)"
    using d assms(4) by (simp add: received_world_def dcc_at_upd)
  have eq: "w_session ?u = w_session (received_world i xs rs w)" by (simp add: received_world_def)
  have at_v: "dcc_at (w_session v) i = Some (d\<lparr>d_file_confirm_offset := n + length xs\<rparr>)"
    using assms(6) at_u unfolding eq by (simp add: dcc_at_def)
  show "receives (set_dcc_state i LIBIRC_STATE_CONFIRM_SIZE (w_session v)) i fd k LIBIRC_STATE_CONFIRM_SIZE (n + length xs) N"
    using d by (simp add: receives_def dcc_at_set_state at_v)
  have "os_read ?w = (ReadBytes xs, ?w\<lparr>w_os := (w_os ?w)\<lparr>os_reads := rs\<rparr>\<rparr>)"
    using assms(2) by (simp add: os_read_def)
  moreover have "call_dcc_cb (initCallbacks dns now) i 0 (Some xs) (length xs) ?u = Inr v"
    using at_u d assms(5) by (simp add: call_dcc_cb_def)
  ultimately have "recv_dcc_turn (initCallbacks dns now) i ?w = Inr (?v, True)"
    using d assms(3,7) by (simp add: recv_dcc_turn_def received_world_def)
  moreover have "\<not> has_ssl ?v i" using d by (simp add: has_ssl_def dcc_at_set_state at_v)
  ultimately show "process_dcc (initCallbacks dns now) i ?w = Inr ?v"
    using d plain_loop by (simp add: process_dcc_def handleConnectedState_def recv_dcc_file_def)
qed

text \<open>The confirmation: four bytes with the offset, and the end of the session with the last.\<close>

lemma confirm_step:
  assumes "receives (w_session w) i fd k LIBIRC_STATE_CONFIRM_SIZE n N" and "os_writes (w_os w) = Written 4 # ws"
  shows "\<exists>v. process_dcc (initCallbacks dns now) i (set_ready fd FDW_WRITE w) = Inr v \<and> w_app v = w_app w
     \<and> w_cfg v = w_cfg w \<and> os_rets (w_os v) = os_rets (w_os w) \<and> os_reads (w_os v) = os_reads (w_os w)
     \<and> os_writes (w_os v) = ws \<and> os_sent (w_os v) = os_sent (w_os w) @ [(fd, be32 n)]
     \<and> w_session v = (if n = N then libirc_dcc_destroy_nolock (w_session w) i
          else set_dcc_state i LIBIRC_STATE_CONNECTED (w_session w))"
proof -
  let ?w = "set_ready fd FDW_WRITE w"
  obtain d where d: "dcc_at (w_session w) i = Some d" "d_state d = LIBIRC_STATE_CONFIRM_SIZE" "\<not> d_ssl d"
    "d_cb d = Some RECV_FILE" "d_ctx d = Some k" "d_sock d = fd" "d_received_file_size d = N"
    "d_file_confirm_offset d = n"
    using assms(1) by (auto simp: receives_def)
  let ?u = "note_sent fd (be32 n) (?w\<lparr>w_os := (w_os ?w)\<lparr>os_writes := ws\<rparr>\<rparr>)"
  have len: "take 4 (be32 n) = be32 n" by (simp add: be32_def)
  have us: "w_session ?u = w_session w" "w_app ?u = w_app w" "w_cfg ?u = w_cfg w"
    by (simp_all add: note_sent_def)
  have "report_dcc (initCallbacks dns now) i 0 None 0 ?u = Inr ?u"
    using d us by (simp add: report_dcc_def call_dcc_cb_def callback_dcc_recv_file_def on_session_def)
  then have "send_current_file_offset_to_sender (initCallbacks dns now) i ?w = Inr (on_session (\<lambda>s. if n = N
      then libirc_dcc_destroy_nolock s i else set_dcc_state i LIBIRC_STATE_CONNECTED s) ?u)"
    using d assms(2) len
    by (cases "N = n") (simp_all add: send_current_file_offset_to_sender_def os_write_def Let_def)
  then have "process_dcc (initCallbacks dns now) i ?w = Inr (on_session (\<lambda>s. if n = N
      then libirc_dcc_destroy_nolock s i else set_dcc_state i LIBIRC_STATE_CONNECTED s) ?u)"
    using d by (simp add: process_dcc_def handleConfirmSizeState_def)
  then show ?thesis using us by (simp add: note_sent_def)
qed

lemma receives_frame [simp]:
  "receives (lock_dcc s) i fd k st n N = receives s i fd k st n N"
  "receives (unlock_dcc s) i fd k st n N = receives s i fd k st n N"
  by (simp_all add: receives_def)

lemma receives_state: "receives s i fd k st n N \<Longrightarrow> receives (set_dcc_state i st' s) i fd k st' n N"
  by (auto simp: receives_def dcc_at_set_state)

text \<open>The settings under which every offset is confirmed and no checksum is waited for.\<close>

definition confirming :: "app_world \<Rightarrow> bool" where
  "confirming w \<longleftrightarrow> \<not> cfg_get_bit (w_cfg w) DONT_CONFIRM_OFFSETS_FLAG \<and> \<not> cfg_get_bit (w_cfg w) VERIFY_CHECKSUM_FLAG"

lemma chunk_round_mid:
  assumes "receives (w_session w) i fd k LIBIRC_STATE_CONNECTED n N" and "storing w k path t n N" and "confirming w"
    and "os_reads (w_os w) = ReadBytes xs # rs" and "os_writes (w_os w) = Written 4 # ws" and "os_rets (w_os w) = 0 # rr"
    and "xs \<noteq> []" and "n + length xs < SIZE_MOD" and "n + length xs \<noteq> N"
  shows "\<exists>v. chunk_round (initCallbacks dns now) i fd w = Inr v
     \<and> receives (w_session v) i fd k LIBIRC_STATE_CONNECTED (n + length xs) N
     \<and> storing v k path (t @ xs) (n + length xs) N \<and> confirming v
     \<and> os_reads (w_os v) = rs \<and> os_writes (w_os v) = ws \<and> os_rets (w_os v) = rr
     \<and> os_sent (w_os v) = os_sent (w_os w) @ [(fd, be32 (n + length xs))]
     \<and> a_finishedDownloads (w_app v) = a_finishedDownloads (w_app w)"
proof -
  let ?u = "received_world i xs rs (set_ready fd FDW_READ w)"
  have "storing ?u k path t n N" using assms(2) storing_app [of ?u w] by simp
  moreover have "os_rets (w_os ?u) = 0 # rr" using assms(6) by simp
  ultimately obtain v where v: "callback_dcc_recv_file i 0 (Some k) (Some xs) (length xs) ?u = Inr v"
    "storing v k path (t @ xs) (n + length xs) N" "same_but_rets ?u v" "os_rets (w_os v) = rr"
    using recv_chunk [OF _ assms(8) _ _ assms(7,9), of ?u k path t 0 rr i] by auto
  have same: "w_session v = w_session ?u" "w_cfg v = w_cfg w" "os_reads (w_os v) = rs"
    "os_writes (w_os v) = Written 4 # ws" "os_sent (w_os v) = os_sent (w_os w)"
    "a_finishedDownloads (w_app v) = a_finishedDownloads (w_app w)"
    using v(3) assms(5) by (auto simp: same_but_rets_def)
  have sess: "s_dcc_sessions (w_session v) = s_dcc_sessions (w_session (received_world i xs rs w))"
    using same(1) by (simp add: received_world_def)
  have conf: "\<not> cfg_get_bit (w_cfg v) DONT_CONFIRM_OFFSETS_FLAG" using assms(3) same(2) by (simp add: confirming_def)
  let ?v = "on_session (\<lambda>s. lock_dcc (set_dcc_state i LIBIRC_STATE_CONFIRM_SIZE s)) v"
  have r: "process_dcc (initCallbacks dns now) i (set_ready fd FDW_READ w) = Inr ?v"
    "receives (w_session ?v) i fd k LIBIRC_STATE_CONFIRM_SIZE (n + length xs) N"
    using read_step [OF assms(1,4,7,8) v(1) sess conf] by simp_all
  obtain x where x: "process_dcc (initCallbacks dns now) i (set_ready fd FDW_WRITE ?v) = Inr x"
    "w_app x = w_app ?v" "w_cfg x = w_cfg ?v" "os_rets (w_os x) = os_rets (w_os ?v)"
    "os_reads (w_os x) = os_reads (w_os ?v)" "os_writes (w_os x) = ws"
    "os_sent (w_os x) = os_sent (w_os ?v) @ [(fd, be32 (n + length xs))]"
    "w_session x = set_dcc_state i LIBIRC_STATE_CONNECTED (w_session ?v)"
    using confirm_step [OF r(2), of ws] same(4) assms(9) by auto
  have "chunk_round (initCallbacks dns now) i fd w = Inr x" using r(1) x(1) by (simp add: chunk_round_def)
  moreover have "receives (w_session x) i fd k LIBIRC_STATE_CONNECTED (n + length xs) N"
    unfolding x(8) by (rule receives_state [OF r(2)])
  moreover have "storing x k path (t @ xs) (n + length xs) N" using v(2) x(2) storing_app [of x v] by simp
  ultimately show ?thesis using x same v(4) assms(3) by (simp add: confirming_def)
qed

lemma quit_sessions: "s_dcc_sessions (fst (irc_cmd_quit s r)) = s_dcc_sessions s"
  by (simp add: irc_cmd_quit_def send_raw_frame)

lemma destroyed_state:
  "receives s i fd k st n N \<Longrightarrow> \<exists>d. dcc_at (libirc_dcc_destroy_nolock s i) i = Some d
     \<and> d_state d = LIBIRC_STATE_REMOVED \<and> d_sock d = -1"
  by (auto simp: receives_def destroy_nolock_eq dcc_at_upd)

lemma chunk_round_last:
  assumes "receives (w_session w) i fd k LIBIRC_STATE_CONNECTED n N" and "storing w k path t n N" and "confirming w"
    and "os_reads (w_os w) = ReadBytes xs # rs" and "os_writes (w_os w) = Written 4 # ws"
    and "os_rets (w_os w) = 0 # 0 # rr" and "xs \<noteq> []" and "N < SIZE_MOD" and "n + length xs = N"
  shows "\<exists>v. chunk_round (initCallbacks dns now) i fd w = Inr v \<and> file_content v path = t @ xs
     \<and> x_fd (a_contexts (w_app v) ! k) = FdNull
     \<and> (\<exists>d. dcc_at (w_session v) i = Some d \<and> d_state d = LIBIRC_STATE_REMOVED \<and> d_sock d = -1)
     \<and> os_sent (w_os v) = os_sent (w_os w) @ [(fd, be32 N)]
     \<and> a_finishedDownloads (w_app v) = a_finishedDownloads (w_app w) + 1"
proof -
  let ?u = "received_world i xs rs (set_ready fd FDW_READ w)"
  have st: "storing ?u k path t n N" using assms(2) storing_app [of ?u w] by simp
  have rets: "os_rets (w_os ?u) = 0 # 0 # rr" using assms(6) by simp
  have ver: "\<not> cfg_get_bit (w_cfg ?u) VERIFY_CHECKSUM_FLAG" using assms(3) by (simp add: confirming_def)
  have small: "n + length xs < SIZE_MOD" using assms(8,9) by simp
  obtain v where v: "callback_dcc_recv_file i 0 (Some k) (Some xs) (length xs) ?u = Inr v"
    "file_content v path = t @ xs" "x_fd (a_contexts (w_app v) ! k) = FdNull"
    "a_finishedDownloads (w_app v) = a_finishedDownloads (w_app ?u) + 1"
    "w_session v = (if a_finishedDownloads (w_app ?u) + 1 = a_numActiveDownloads (w_app ?u)
          then fst (irc_cmd_quit (w_session ?u) (Some ''Goodbye!'')) else w_session ?u)"
    "w_cfg v = w_cfg ?u" "w_os v = (w_os ?u)\<lparr>os_rets := rr\<rparr>"
    using last_chunk [OF st small rets _ _ assms(7,9) ver, of i] by auto
  have sess: "s_dcc_sessions (w_session v) = s_dcc_sessions (w_session (received_world i xs rs w))"
    using v(5) by (simp add: quit_sessions received_world_def)
  have conf: "\<not> cfg_get_bit (w_cfg v) DONT_CONFIRM_OFFSETS_FLAG" using assms(3) v(6) by (simp add: confirming_def)
  let ?v = "on_session (\<lambda>s. lock_dcc (set_dcc_state i LIBIRC_STATE_CONFIRM_SIZE s)) v"
  have r: "process_dcc (initCallbacks dns now) i (set_ready fd FDW_READ w) = Inr ?v"
    "receives (w_session ?v) i fd k LIBIRC_STATE_CONFIRM_SIZE N N"
    using read_step [OF assms(1,4,7) small v(1) sess conf] assms(9) by simp_all
  have wr: "os_writes (w_os ?v) = Written 4 # ws" using v(7) assms(5) by simp
  obtain x where x: "process_dcc (initCallbacks dns now) i (set_ready fd FDW_WRITE ?v) = Inr x"
    "w_app x = w_app ?v" "os_sent (w_os x) = os_sent (w_os ?v) @ [(fd, be32 N)]"
    "w_session x = libirc_dcc_destroy_nolock (w_session ?v) i"
    using confirm_step [OF r(2) wr, where dns = dns and now = now] by auto
  have "chunk_round (initCallbacks dns now) i fd w = Inr x" using r(1) x(1) by (simp add: chunk_round_def)
  then show ?thesis using x v destroyed_state [OF r(2)] by (simp add: file_content_def)
qed

section \<open>The whole transfer\<close>

fun offsets :: "nat \<Rightarrow> string list \<Rightarrow> nat list" where
  "offsets n [] = []"
| "offsets n (x # xs) = (n + length x) # offsets (n + length x) xs"

text \<open>A transfer of five bytes in two pieces.\<close>

definition demo_two_chunks :: app_world where
  "demo_two_chunks = demo_world\<lparr>w_os := (w_os demo_world)\<lparr>os_writes := [Written 4, Written 4]\<rparr>\<rparr>"

lemma demo_two_chunks_ready:
  "receives (w_session demo_two_chunks) 2 7 0 LIBIRC_STATE_CONNECTED 0 5"
  "storing demo_two_chunks 0 ''dl/x'' [] 0 5"
  "confirming demo_two_chunks"
  "os_reads (w_os demo_two_chunks) = [ReadBytes ''hel'', ReadBytes ''lo'']"
  "os_writes (w_os demo_two_chunks) = [Written 4, Written 4]"
  "os_rets (w_os demo_two_chunks) = [0, 0, 0, 0]"
  by (simp_all add: demo_two_chunks_def demo_world_def fresh_world_def)
    (simp_all add: receives_def dcc_at_def demo_session_def demo_dcc_def storing_def progress_of_def demo_app_def
      demo_file_def newDccProgress_def file_content_def open_at_end_def confirming_def cfg_get_bit_def zero_config_def
      get_flag_bit_def size_t_def SIZE_MOD_def)



end
