(* ===== verification/Md5.thy ===== *)
theory Md5
  imports Prelude
begin

text \<open>
  The compression function of \<open>sph_md5.c\<close>, its 64 steps as the macro \<open>MD5_ROUND_BODY\<close> unrolls them,
  and the byte order of \<open>sph_types.h\<close>. The reference is the loop of RFC 1321: one step for an index,
  with the functions, the word, the shift and the constant computed from it. Both are equal.
\<close>

unbundle bit_operations_syntax

type_synonym byte = "8 word"
type_synonym word32 = "32 word"

section \<open>Words and bytes\<close>

text \<open>\<open>SPH_T32\<close> cuts to 32 bits, which the type does.\<close>

definition SPH_ROTL32 :: "word32 \<Rightarrow> nat \<Rightarrow> word32" where
  "SPH_ROTL32 x n = push_bit n x OR drop_bit (32 - n) x"

definition sph_dec32le :: "byte list \<Rightarrow> word32" where
  "sph_dec32le src = ucast (src ! 0) OR push_bit 8 (ucast (src ! 1))
     OR push_bit 16 (ucast (src ! 2)) OR push_bit 24 (ucast (src ! 3))"

definition sph_enc32le :: "word32 \<Rightarrow> byte list" where
  "sph_enc32le v = [ucast v, ucast (drop_bit 8 v), ucast (drop_bit 16 v), ucast (drop_bit 24 v)]"

definition sph_enc64le :: "64 word \<Rightarrow> byte list" where
  "sph_enc64le v = map (\<lambda>k. ucast (drop_bit (8 * k) v)) [0, 1, 2, 3, 4, 5, 6, 7]"

lemma sph_enc_lengths [simp]: "length (sph_enc32le v) = 4" "length (sph_enc64le x) = 8"
  by (simp_all add: sph_enc32le_def sph_enc64le_def)

section \<open>The round function\<close>

type_synonym md5_state = "word32 \<times> word32 \<times> word32 \<times> word32"

definition md5_F :: "word32 \<Rightarrow> word32 \<Rightarrow> word32 \<Rightarrow> word32" where
  "md5_F B C D = ((C XOR D) AND B) XOR D"

definition md5_G :: "word32 \<Rightarrow> word32 \<Rightarrow> word32 \<Rightarrow> word32" where
  "md5_G B C D = ((C XOR B) AND D) XOR C"

definition md5_H :: "word32 \<Rightarrow> word32 \<Rightarrow> word32 \<Rightarrow> word32" where
  "md5_H B C D = B XOR C XOR D"

definition md5_I :: "word32 \<Rightarrow> word32 \<Rightarrow> word32 \<Rightarrow> word32" where
  "md5_I B C D = C XOR (B OR NOT D)"

definition md5_step :: "(word32 \<Rightarrow> word32 \<Rightarrow> word32 \<Rightarrow> word32) \<Rightarrow> word32 \<Rightarrow> word32 \<Rightarrow> word32 \<Rightarrow> word32
    \<Rightarrow> word32 \<Rightarrow> word32 \<Rightarrow> nat \<Rightarrow> word32" where
  "md5_step f a b c d x k n = b + SPH_ROTL32 (a + f b c d + x + k) n"

definition md5_steps :: "(nat \<Rightarrow> word32) \<Rightarrow> md5_state \<Rightarrow> md5_state" where
  "md5_steps X r = (case r of (a, b, c, d) \<Rightarrow> let
     a = md5_step md5_F a b c d (X 0) 0xD76AA478 7;
     d = md5_step md5_F d a b c (X 1) 0xE8C7B756 12;
     c = md5_step md5_F c d a b (X 2) 0x242070DB 17;
     b = md5_step md5_F b c d a (X 3) 0xC1BDCEEE 22;
     a = md5_step md5_F a b c d (X 4) 0xF57C0FAF 7;
     d = md5_step md5_F d a b c (X 5) 0x4787C62A 12;
     c = md5_step md5_F c d a b (X 6) 0xA8304613 17;
     b = md5_step md5_F b c d a (X 7) 0xFD469501 22;
     a = md5_step md5_F a b c d (X 8) 0x698098D8 7;
     d = md5_step md5_F d a b c (X 9) 0x8B44F7AF 12;
     c = md5_step md5_F c d a b (X 10) 0xFFFF5BB1 17;
     b = md5_step md5_F b c d a (X 11) 0x895CD7BE 22;
     a = md5_step md5_F a b c d (X 12) 0x6B901122 7;
     d = md5_step md5_F d a b c (X 13) 0xFD987193 12;
     c = md5_step md5_F c d a b (X 14) 0xA679438E 17;
     b = md5_step md5_F b c d a (X 15) 0x49B40821 22;
     a = md5_step md5_G a b c d (X 1) 0xF61E2562 5;
     d = md5_step md5_G d a b c (X 6) 0xC040B340 9;
     c = md5_step md5_G c d a b (X 11) 0x265E5A51 14;
     b = md5_step md5_G b c d a (X 0) 0xE9B6C7AA 20;
     a = md5_step md5_G a b c d (X 5) 0xD62F105D 5;
     d = md5_step md5_G d a b c (X 10) 0x02441453 9;
     c = md5_step md5_G c d a b (X 15) 0xD8A1E681 14;
     b = md5_step md5_G b c d a (X 4) 0xE7D3FBC8 20;
     a = md5_step md5_G a b c d (X 9) 0x21E1CDE6 5;
     d = md5_step md5_G d a b c (X 14) 0xC33707D6 9;
     c = md5_step md5_G c d a b (X 3) 0xF4D50D87 14;
     b = md5_step md5_G b c d a (X 8) 0x455A14ED 20;
     a = md5_step md5_G a b c d (X 13) 0xA9E3E905 5;
     d = md5_step md5_G d a b c (X 2) 0xFCEFA3F8 9;
     c = md5_step md5_G c d a b (X 7) 0x676F02D9 14;
     b = md5_step md5_G b c d a (X 12) 0x8D2A4C8A 20;
     a = md5_step md5_H a b c d (X 5) 0xFFFA3942 4;
     d = md5_step md5_H d a b c (X 8) 0x8771F681 11;
     c = md5_step md5_H c d a b (X 11) 0x6D9D6122 16;
     b = md5_step md5_H b c d a (X 14) 0xFDE5380C 23;
     a = md5_step md5_H a b c d (X 1) 0xA4BEEA44 4;
     d = md5_step md5_H d a b c (X 4) 0x4BDECFA9 11;
     c = md5_step md5_H c d a b (X 7) 0xF6BB4B60 16;
     b = md5_step md5_H b c d a (X 10) 0xBEBFBC70 23;
     a = md5_step md5_H a b c d (X 13) 0x289B7EC6 4;
     d = md5_step md5_H d a b c (X 0) 0xEAA127FA 11;
     c = md5_step md5_H c d a b (X 3) 0xD4EF3085 16;
     b = md5_step md5_H b c d a (X 6) 0x04881D05 23;
     a = md5_step md5_H a b c d (X 9) 0xD9D4D039 4;
     d = md5_step md5_H d a b c (X 12) 0xE6DB99E5 11;
     c = md5_step md5_H c d a b (X 15) 0x1FA27CF8 16;
     b = md5_step md5_H b c d a (X 2) 0xC4AC5665 23;
     a = md5_step md5_I a b c d (X 0) 0xF4292244 6;
     d = md5_step md5_I d a b c (X 7) 0x432AFF97 10;
     c = md5_step md5_I c d a b (X 14) 0xAB9423A7 15;
     b = md5_step md5_I b c d a (X 5) 0xFC93A039 21;
     a = md5_step md5_I a b c d (X 12) 0x655B59C3 6;
     d = md5_step md5_I d a b c (X 3) 0x8F0CCC92 10;
     c = md5_step md5_I c d a b (X 10) 0xFFEFF47D 15;
     b = md5_step md5_I b c d a (X 1) 0x85845DD1 21;
     a = md5_step md5_I a b c d (X 8) 0x6FA87E4F 6;
     d = md5_step md5_I d a b c (X 15) 0xFE2CE6E0 10;
     c = md5_step md5_I c d a b (X 6) 0xA3014314 15;
     b = md5_step md5_I b c d a (X 13) 0x4E0811A1 21;
     a = md5_step md5_I a b c d (X 4) 0xF7537E82 6;
     d = md5_step md5_I d a b c (X 11) 0xBD3AF235 10;
     c = md5_step md5_I c d a b (X 2) 0x2AD7D2BB 15;
     b = md5_step md5_I b c d a (X 9) 0xEB86D391 21
     in (a, b, c, d))"

definition MD5_ROUND_BODY :: "(nat \<Rightarrow> word32) \<Rightarrow> md5_state \<Rightarrow> md5_state" where
  "MD5_ROUND_BODY X r = (case r of (r0, r1, r2, r3) \<Rightarrow> case md5_steps X r of (a, b, c, d) \<Rightarrow>
     (r0 + a, r1 + b, r2 + c, r3 + d))"

definition md5_round :: "byte list \<Rightarrow> md5_state \<Rightarrow> md5_state" where
  "md5_round data r = MD5_ROUND_BODY (\<lambda>idx. sph_dec32le (drop (4 * idx) data)) r"

definition sph_md5_comp :: "word32 list \<Rightarrow> md5_state \<Rightarrow> md5_state" where
  "sph_md5_comp msg r = MD5_ROUND_BODY (\<lambda>i. msg ! i) r"

section \<open>The loop of RFC 1321\<close>

definition rfc_fun :: "nat \<Rightarrow> word32 \<Rightarrow> word32 \<Rightarrow> word32 \<Rightarrow> word32" where
  "rfc_fun i x y z =
     (if i < 16 then (x AND y) OR (NOT x AND z)
      else if i < 32 then (x AND z) OR (y AND NOT z)
      else if i < 48 then x XOR y XOR z
      else y XOR (x OR NOT z))"

definition rfc_index :: "nat \<Rightarrow> nat" where
  "rfc_index i = (if i < 16 then i else if i < 32 then (5 * i + 1) mod 16
     else if i < 48 then (3 * i + 5) mod 16 else (7 * i) mod 16)"

definition rfc_shift :: "nat \<Rightarrow> nat" where
  "rfc_shift i = [7, 12, 17, 22, 5, 9, 14, 20, 4, 11, 16, 23, 6, 10, 15, 21] ! (4 * (i div 16) + i mod 4)"

text \<open>Entry \<open>i\<close> is the integer part of \<open>2 ^ 32 * \<bar>sin (i + 1)\<bar>\<close>.\<close>

definition rfc_table :: "word32 list" where
  "rfc_table = [
     0xD76AA478, 0xE8C7B756, 0x242070DB, 0xC1BDCEEE, 0xF57C0FAF, 0x4787C62A, 0xA8304613, 0xFD469501,
     0x698098D8, 0x8B44F7AF, 0xFFFF5BB1, 0x895CD7BE, 0x6B901122, 0xFD987193, 0xA679438E, 0x49B40821,
     0xF61E2562, 0xC040B340, 0x265E5A51, 0xE9B6C7AA, 0xD62F105D, 0x02441453, 0xD8A1E681, 0xE7D3FBC8,
     0x21E1CDE6, 0xC33707D6, 0xF4D50D87, 0x455A14ED, 0xA9E3E905, 0xFCEFA3F8, 0x676F02D9, 0x8D2A4C8A,
     0xFFFA3942, 0x8771F681, 0x6D9D6122, 0xFDE5380C, 0xA4BEEA44, 0x4BDECFA9, 0xF6BB4B60, 0xBEBFBC70,
     0x289B7EC6, 0xEAA127FA, 0xD4EF3085, 0x04881D05, 0xD9D4D039, 0xE6DB99E5, 0x1FA27CF8, 0xC4AC5665,
     0xF4292244, 0x432AFF97, 0xAB9423A7, 0xFC93A039, 0x655B59C3, 0x8F0CCC92, 0xFFEFF47D, 0x85845DD1,
     0x6FA87E4F, 0xFE2CE6E0, 0xA3014314, 0x4E0811A1, 0xF7537E82, 0xBD3AF235, 0x2AD7D2BB, 0xEB86D391]"

definition rfc_step :: "(nat \<Rightarrow> word32) \<Rightarrow> md5_state \<Rightarrow> nat \<Rightarrow> md5_state" where
  "rfc_step X r i = (case r of (a, b, c, d) \<Rightarrow>
     (d, b + word_rotl (rfc_shift i) (a + rfc_fun i b c d + X (rfc_index i) + rfc_table ! i), b, c))"

definition rfc_compress :: "(nat \<Rightarrow> word32) \<Rightarrow> md5_state \<Rightarrow> md5_state" where
  "rfc_compress X r = (case r of (r0, r1, r2, r3) \<Rightarrow> case foldl (rfc_step X) r [0..<64] of (a, b, c, d) \<Rightarrow>
     (r0 + a, r1 + b, r2 + c, r3 + d))"

section \<open>They agree\<close>

lemma rotl_word: "0 < n \<Longrightarrow> n < 32 \<Longrightarrow> SPH_ROTL32 x n = word_rotl n x"
proof (rule bit_word_eqI)
  fix m
  assume n: "0 < n" "n < 32" and "m < LENGTH(32)"
  then have m: "m < 32" by simp
  show "bit (SPH_ROTL32 x n) m = bit (word_rotl n x) m"
  proof (cases "n \<le> m")
    case True
    moreover have "\<not> bit x (32 - n + m)" using True n bit_imp_le_length [of x "32 - n + m"] by auto
    moreover have "(m + (32 - n)) mod 32 = m - n" using True n m by (simp add: le_mod_geq)
    ultimately show ?thesis using n m by (simp add: SPH_ROTL32_def bit_simps)
  next
    case False
    then have "(m + (32 - n)) mod 32 = 32 - n + m" using n m by simp
    then show ?thesis using False n m by (simp add: SPH_ROTL32_def bit_simps)
  qed
qed

lemma rfc_functions:
  "i < 16 \<Longrightarrow> rfc_fun i = md5_F" "16 \<le> i \<Longrightarrow> i < 32 \<Longrightarrow> rfc_fun i = md5_G"
  "32 \<le> i \<Longrightarrow> i < 48 \<Longrightarrow> rfc_fun i = md5_H" "48 \<le> i \<Longrightarrow> rfc_fun i = md5_I"
  by (intro ext bit_eqI; simp add: rfc_fun_def md5_F_def md5_G_def md5_H_def md5_I_def bit_simps; blast)+

text \<open>What a step of the loop uses, and the step on it.\<close>

definition rfc_entry :: "nat \<Rightarrow> (word32 \<Rightarrow> word32 \<Rightarrow> word32 \<Rightarrow> word32) \<times> nat \<times> word32 \<times> nat" where
  "rfc_entry i = (rfc_fun i, rfc_index i, rfc_table ! i, rfc_shift i)"

definition entry_step :: "(nat \<Rightarrow> word32) \<Rightarrow> md5_state \<Rightarrow> (word32 \<Rightarrow> word32 \<Rightarrow> word32 \<Rightarrow> word32) \<times> nat \<times> word32 \<times> nat
    \<Rightarrow> md5_state" where
  "entry_step X r e = (case r of (a, b, c, d) \<Rightarrow> case e of (f, j, k, n) \<Rightarrow> (d, md5_step f a b c d (X j) k n, b, c))"

lemma shift_range: "i < 64 \<Longrightarrow> 0 < rfc_shift i \<and> rfc_shift i < 32"
proof -
  have "list_all (\<lambda>i. 0 < rfc_shift i \<and> rfc_shift i < 32) [0..<64]" by code_simp
  then show "i < 64 \<Longrightarrow> 0 < rfc_shift i \<and> rfc_shift i < 32" by (simp add: list_all_iff)
qed

lemma rfc_step_entry: "i < 64 \<Longrightarrow> rfc_step X r i = entry_step X r (rfc_entry i)"
  using shift_range [of i]
  by (simp add: rfc_step_def entry_step_def rfc_entry_def md5_step_def rotl_word split: prod.splits)

lemma foldl_entries: "foldl (rfc_step X) r [0..<64] = foldl (entry_step X) r (map rfc_entry [0..<64])"
proof -
  have "foldl (rfc_step X) r js = foldl (entry_step X) r (map rfc_entry js)" if "\<forall>i\<in>set js. i < 64" for js r
    using that by (induction js arbitrary: r) (simp_all add: rfc_step_entry)
  then show ?thesis by simp
qed

lemma rfc_entries: "map rfc_entry [0..<64] = [
     (md5_F, 0, 0xD76AA478, 7), (md5_F, 1, 0xE8C7B756, 12), (md5_F, 2, 0x242070DB, 17), (md5_F, 3, 0xC1BDCEEE, 22),
     (md5_F, 4, 0xF57C0FAF, 7), (md5_F, 5, 0x4787C62A, 12), (md5_F, 6, 0xA8304613, 17), (md5_F, 7, 0xFD469501, 22),
     (md5_F, 8, 0x698098D8, 7), (md5_F, 9, 0x8B44F7AF, 12), (md5_F, 10, 0xFFFF5BB1, 17), (md5_F, 11, 0x895CD7BE, 22),
     (md5_F, 12, 0x6B901122, 7), (md5_F, 13, 0xFD987193, 12), (md5_F, 14, 0xA679438E, 17), (md5_F, 15, 0x49B40821, 22),
     (md5_G, 1, 0xF61E2562, 5), (md5_G, 6, 0xC040B340, 9), (md5_G, 11, 0x265E5A51, 14), (md5_G, 0, 0xE9B6C7AA, 20),
     (md5_G, 5, 0xD62F105D, 5), (md5_G, 10, 0x02441453, 9), (md5_G, 15, 0xD8A1E681, 14), (md5_G, 4, 0xE7D3FBC8, 20),
     (md5_G, 9, 0x21E1CDE6, 5), (md5_G, 14, 0xC33707D6, 9), (md5_G, 3, 0xF4D50D87, 14), (md5_G, 8, 0x455A14ED, 20),
     (md5_G, 13, 0xA9E3E905, 5), (md5_G, 2, 0xFCEFA3F8, 9), (md5_G, 7, 0x676F02D9, 14), (md5_G, 12, 0x8D2A4C8A, 20),
     (md5_H, 5, 0xFFFA3942, 4), (md5_H, 8, 0x8771F681, 11), (md5_H, 11, 0x6D9D6122, 16), (md5_H, 14, 0xFDE5380C, 23),
     (md5_H, 1, 0xA4BEEA44, 4), (md5_H, 4, 0x4BDECFA9, 11), (md5_H, 7, 0xF6BB4B60, 16), (md5_H, 10, 0xBEBFBC70, 23),
     (md5_H, 13, 0x289B7EC6, 4), (md5_H, 0, 0xEAA127FA, 11), (md5_H, 3, 0xD4EF3085, 16), (md5_H, 6, 0x04881D05, 23),
     (md5_H, 9, 0xD9D4D039, 4), (md5_H, 12, 0xE6DB99E5, 11), (md5_H, 15, 0x1FA27CF8, 16), (md5_H, 2, 0xC4AC5665, 23),
     (md5_I, 0, 0xF4292244, 6), (md5_I, 7, 0x432AFF97, 10), (md5_I, 14, 0xAB9423A7, 15), (md5_I, 5, 0xFC93A039, 21),
     (md5_I, 12, 0x655B59C3, 6), (md5_I, 3, 0x8F0CCC92, 10), (md5_I, 10, 0xFFEFF47D, 15), (md5_I, 1, 0x85845DD1, 21),
     (md5_I, 8, 0x6FA87E4F, 6), (md5_I, 15, 0xFE2CE6E0, 10), (md5_I, 6, 0xA3014314, 15), (md5_I, 13, 0x4E0811A1, 21),
     (md5_I, 4, 0xF7537E82, 6), (md5_I, 11, 0xBD3AF235, 10), (md5_I, 2, 0x2AD7D2BB, 15), (md5_I, 9, 0xEB86D391, 21)]"
  by (simp add: upt_rec rfc_entry_def rfc_functions rfc_index_def rfc_shift_def rfc_table_def)

lemma entry_fold:
  "foldl (entry_step X) (a, b, c, d) ((f, j, k, n) # es)
     = (let b' = md5_step f a b c d (X j) k n in foldl (entry_step X) (d, b', b, c) es)"
  by (simp add: entry_step_def)

lemma md5_steps_loop: "md5_steps X (a, b, c, d) = foldl (rfc_step X) (a, b, c, d) [0..<64]"
  unfolding foldl_entries rfc_entries md5_steps_def prod.case by (simp only: entry_fold foldl.simps(1))

theorem round_body_rfc: "MD5_ROUND_BODY X r = rfc_compress X r"
  by (cases r) (simp add: MD5_ROUND_BODY_def rfc_compress_def md5_steps_loop)

lemma rfc_index_less: "rfc_index i < 16"
  by (simp add: rfc_index_def)

text \<open>The function reads sixteen words.\<close>

lemma compress_words:
  assumes "\<And>i. i < 16 \<Longrightarrow> X i = Y i"
  shows "rfc_compress X r = rfc_compress Y r"
proof -
  have "rfc_step X = rfc_step Y" using assms rfc_index_less by (auto simp: rfc_step_def fun_eq_iff)
  then show ?thesis by (simp add: rfc_compress_def)
qed

end
