(* ===== verification/Md5_Stream.thy ===== *)
theory Md5_Stream
  imports Md5
begin

text \<open>
  Hashing a message that comes in pieces, \<open>md_helper.c\<close> with \<open>sph_md5.c\<close>, on a machine with 64-bit
  integers: the context's buffer of 64 bytes, the direct path for long pieces, the padding.
  The reference is RFC 1321's digest of the whole message.
\<close>

section \<open>Context\<close>

record sph_md5_context =
  md_buf :: "byte list"
  md_val :: md5_state
  md_count :: "64 word"

definition md5_IV :: md5_state where
  "md5_IV = (0x67452301, 0xEFCDAB89, 0x98BADCFE, 0x10325476)"

text \<open>\<open>sph_md5_init\<close> leaves the buffer as it is.\<close>

definition sph_md5_init :: "sph_md5_context \<Rightarrow> sph_md5_context" where
  "sph_md5_init sc = sc\<lparr>md_val := md5_IV, md_count := 0\<rparr>"

definition SPH_BLEN :: nat where
  "SPH_BLEN = 64"

definition SPH_MAXPAD :: nat where
  "SPH_MAXPAD = SPH_BLEN - 8"

text \<open>\<open>memcpy\<close> of \<open>xs\<close> into a buffer from position \<open>k\<close> on.\<close>

definition put_at :: "byte list \<Rightarrow> nat \<Rightarrow> byte list \<Rightarrow> byte list" where
  "put_at b k xs = take k b @ xs @ drop (k + length xs) b"

definition md_current :: "sph_md5_context \<Rightarrow> nat" where
  "md_current sc = unat ((ucast (md_count sc) :: word32) AND 63)"

section \<open>Adding data\<close>

text \<open>The loop of \<open>md5_short\<close>; it would not end for \<open>current = SPH_BLEN\<close>.\<close>

partial_function (option) md5_short_loop :: "sph_md5_context \<Rightarrow> nat \<Rightarrow> byte list \<Rightarrow> sph_md5_context option" where
  "md5_short_loop sc current data =
     (if data = [] then Some sc
      else let clen = min (SPH_BLEN - current) (length data);
               sc = sc\<lparr>md_buf := put_at (md_buf sc) current (take clen data)\<rparr>;
               current = current + clen;
               full = (current = SPH_BLEN);
               sc = (if full then sc\<lparr>md_val := md5_round (md_buf sc) (md_val sc)\<rparr> else sc);
               sc = sc\<lparr>md_count := md_count sc + of_nat clen\<rparr> in
           md5_short_loop sc (if full then 0 else current) (drop clen data))"

definition md5_short :: "sph_md5_context \<Rightarrow> byte list \<Rightarrow> sph_md5_context option" where
  "md5_short sc data = md5_short_loop sc (md_current sc) data"

text \<open>The direct path: whole blocks from the data.\<close>

function md5_direct :: "md5_state \<Rightarrow> byte list \<Rightarrow> md5_state \<times> byte list" where
  "md5_direct r data =
     (if length data \<ge> SPH_BLEN then md5_direct (md5_round data r) (drop SPH_BLEN data) else (r, data))"
  by pat_completeness auto
termination by (relation "measure (\<lambda>(r, data). length data)") (auto simp: SPH_BLEN_def)

declare md5_direct.simps [simp del]

text \<open>\<open>unaligned\<close> is the build's \<open>SPH_UNALIGNED\<close>, \<open>address\<close> where the data starts.\<close>

definition sph_md5 :: "bool \<Rightarrow> nat \<Rightarrow> sph_md5_context \<Rightarrow> byte list \<Rightarrow> sph_md5_context option" where
  "sph_md5 unaligned address sc data =
     (if length data < 2 * SPH_BLEN then md5_short sc data
      else let current = md_current sc;
               t = (if current > 0 then SPH_BLEN - current else 0) in
           Option.bind (if current > 0 then md5_short sc (take t data) else Some sc) (\<lambda>sc.
           let data = drop t data in
           if \<not> unaligned \<and> (address + t) mod 4 \<noteq> 0 then md5_short sc data
           else case md5_direct (md_val sc) data of (r, rest) \<Rightarrow>
             Some (sc\<lparr>md_val := r, md_buf := put_at (md_buf sc) 0 rest, md_count := md_count sc + of_nat (length data)\<rparr>)))"

section \<open>Closing\<close>

text \<open>\<open>n\<close> more bits of \<open>ub\<close>, the mark, zeros and the number of bits.\<close>

definition md5_addbits_and_close :: "sph_md5_context \<Rightarrow> word32 \<Rightarrow> nat \<Rightarrow> sph_md5_context \<times> byte list" where
  "md5_addbits_and_close sc ub n =
     (let current = md_current sc;
          z = drop_bit n 0x80;
          sc = sc\<lparr>md_buf := put_at (md_buf sc) current [ucast (((ub AND (- z)) OR z) AND 0xFF)]\<rparr>;
          current = current + 1;
          sc = (if current > SPH_MAXPAD
            then let sc = sc\<lparr>md_buf := put_at (md_buf sc) current (replicate (SPH_BLEN - current) 0)\<rparr>;
                     sc = sc\<lparr>md_val := md5_round (md_buf sc) (md_val sc)\<rparr> in
                 sc\<lparr>md_buf := put_at (md_buf sc) 0 (replicate SPH_MAXPAD 0)\<rparr>
            else sc\<lparr>md_buf := put_at (md_buf sc) current (replicate (SPH_MAXPAD - current) 0)\<rparr>);
          sc = sc\<lparr>md_buf := put_at (md_buf sc) SPH_MAXPAD (sph_enc64le (push_bit 3 (md_count sc) + of_nat n))\<rparr>;
          sc = sc\<lparr>md_val := md5_round (md_buf sc) (md_val sc)\<rparr> in
      case md_val sc of (a, b, c, d) \<Rightarrow>
        (sc, sph_enc32le a @ sph_enc32le b @ sph_enc32le c @ sph_enc32le d))"

definition sph_md5_addbits_and_close :: "sph_md5_context \<Rightarrow> word32 \<Rightarrow> nat \<Rightarrow> sph_md5_context \<times> byte list" where
  "sph_md5_addbits_and_close sc ub n = (case md5_addbits_and_close sc ub n of (sc, dst) \<Rightarrow> (sph_md5_init sc, dst))"

definition sph_md5_close :: "sph_md5_context \<Rightarrow> sph_md5_context \<times> byte list" where
  "sph_md5_close sc = (case md5_addbits_and_close sc 0 0 of (sc, dst) \<Rightarrow> (sph_md5_init sc, dst))"

section \<open>The digest of RFC 1321\<close>

function rfc_blocks :: "md5_state \<Rightarrow> byte list \<Rightarrow> md5_state" where
  "rfc_blocks r m = (if length m < 64 then r
     else rfc_blocks (rfc_compress (\<lambda>i. sph_dec32le (drop (4 * i) m)) r) (drop 64 m))"
  by pat_completeness auto
termination by (relation "measure (\<lambda>(r, m). length m)") auto

declare rfc_blocks.simps [simp del]

definition rfc_padding :: "nat \<Rightarrow> byte list" where
  "rfc_padding n = 0x80 # replicate ((119 - n mod 64) mod 64) 0 @ sph_enc64le (of_nat (8 * n))"

definition rfc_md5 :: "byte list \<Rightarrow> byte list" where
  "rfc_md5 m = (case rfc_blocks md5_IV (m @ rfc_padding (length m)) of (a, b, c, d) \<Rightarrow>
     sph_enc32le a @ sph_enc32le b @ sph_enc32le c @ sph_enc32le d)"

end
