(* ===== verification/Md5_Correct.thy ===== *)
theory Md5_Correct
  imports Md5_Stream
begin

text \<open>
  Hashing in pieces is hashing the whole: the context stands for the message so far, adding a piece
  appends it, on every path, and closing gives RFC 1321's digest.
\<close>

section \<open>Blocks\<close>

lemma round_words: "length a = 64 \<Longrightarrow> md5_round (a @ b) r = rfc_compress (\<lambda>i. sph_dec32le (drop (4 * i) a)) r"
  unfolding md5_round_def round_body_rfc
  by (rule compress_words) (simp add: sph_dec32le_def nth_append)

lemma round_take: "64 \<le> length a \<Longrightarrow> md5_round a r = md5_round (take 64 a) r"
  using round_words [of "take 64 a" "drop 64 a" r] round_words [of "take 64 a" "[]" r] by simp

lemma rfc_blocks_short: "length m < 64 \<Longrightarrow> rfc_blocks r m = r"
  by (simp add: rfc_blocks.simps)

lemma rfc_blocks_Cons: "length a = 64 \<Longrightarrow> rfc_blocks r (a @ b) = rfc_blocks (md5_round a r) b"
proof -
  assume a: "length a = 64"
  have "rfc_compress (\<lambda>i. sph_dec32le (drop (4 * i) (a @ b))) r = md5_round a r"
    unfolding md5_round_def round_body_rfc using a by (intro compress_words) (simp add: sph_dec32le_def nth_append)
  then show ?thesis using a by (subst rfc_blocks.simps) simp
qed

lemma rfc_blocks_append: "length a mod 64 = 0 \<Longrightarrow> rfc_blocks r (a @ b) = rfc_blocks (rfc_blocks r a) b"
proof (induction "length a" arbitrary: a r rule: less_induct)
  case less
  show ?case
  proof (cases "length a < 64")
    case True
    then show ?thesis using less.prems by (simp add: rfc_blocks_short)
  next
    case False
    let ?h = "take 64 a" and ?t = "drop 64 a"
    have h: "length ?h = 64" using False by simp
    have t: "length ?t mod 64 = 0" using False less.prems by (simp add: le_mod_geq)
    have "rfc_blocks r (a @ b) = rfc_blocks (md5_round ?h r) (?t @ b)"
      using rfc_blocks_Cons [OF h, of r "?t @ b"] by (simp flip: append_assoc)
    also have "\<dots> = rfc_blocks (rfc_blocks (md5_round ?h r) ?t) b"
      using less.hyps [of ?t "md5_round ?h r"] False t by simp
    also have "rfc_blocks (md5_round ?h r) ?t = rfc_blocks r a"
      using rfc_blocks_Cons [OF h, of r ?t] by simp
    finally show ?thesis .
  qed
qed

section \<open>What a context stands for\<close>

definition absorbed :: "sph_md5_context \<Rightarrow> byte list \<Rightarrow> bool" where
  "absorbed sc m \<longleftrightarrow> length (md_buf sc) = 64 \<and> md_count sc = of_nat (length m) \<and> md_val sc = rfc_blocks md5_IV m
     \<and> take (length m mod 64) (md_buf sc) = drop (64 * (length m div 64)) m"

lemma current_count: "md_count sc = of_nat n \<Longrightarrow> md_current sc = n mod 64"
proof -
  assume n: "md_count sc = of_nat n"
  have "(63 :: word32) = mask 6" by (simp add: mask_eq_exp_minus_1)
  then have "md_current sc = unat (take_bit 6 (ucast (md_count sc) :: word32))"
    by (simp only: md_current_def take_bit_eq_mask)
  also have "\<dots> = take_bit 6 (take_bit 32 (take_bit 64 n))"
    by (simp only: n unsigned_take_bit_eq unsigned_ucast_eq unsigned_of_nat) simp
  also have "\<dots> = take_bit 6 n" by (simp only: take_bit_take_bit)
  also have "\<dots> = n mod 64" by (simp add: take_bit_eq_mod)
  finally show ?thesis .
qed

lemma put_at_length [simp]: "k + length xs \<le> length b \<Longrightarrow> length (put_at b k xs) = length b"
  by (simp add: put_at_def)

text \<open>A message in whole blocks and a rest.\<close>

lemma absorbed_split:
  assumes "absorbed sc m"
  obtains p q where "m = p @ q" "length p mod 64 = 0" "length q = length m mod 64" "take (length q) (md_buf sc) = q"
    "rfc_blocks md5_IV p = md_val sc"
proof -
  let ?p = "take (64 * (length m div 64)) m" and ?q = "drop (64 * (length m div 64)) m"
  have lp: "length ?p = 64 * (length m div 64)" by simp
  have lq: "length ?q = length m mod 64" by (simp add: minus_mult_div_eq_mod)
  have "rfc_blocks md5_IV m = rfc_blocks (rfc_blocks md5_IV ?p) ?q"
    using rfc_blocks_append [of ?p md5_IV ?q] lp by simp
  then have "rfc_blocks md5_IV ?p = md_val sc" using assms lq by (simp add: absorbed_def rfc_blocks_short)
  moreover have "take (length ?q) (md_buf sc) = ?q" using assms lq by (simp add: absorbed_def)
  ultimately show thesis using that [of ?p ?q] lp lq by simp
qed

lemma absorbedI:
  assumes "m = p @ q" and "length p mod 64 = 0" and "length q < 64" and "length (md_buf sc) = 64"
    and "md_count sc = of_nat (length m)" and "md_val sc = rfc_blocks md5_IV p" and "take (length q) (md_buf sc) = q"
  shows "absorbed sc m"
proof -
  obtain j where j: "length p = 64 * j" using assms(2) by (auto simp: mod_eq_0_iff_dvd elim: dvdE)
  have "length m = 64 * j + length q" using assms(1) j by simp
  then have "length m mod 64 = length q" "length m div 64 = j" using assms(3) by simp_all
  then show ?thesis using assms j by (simp add: absorbed_def rfc_blocks_append rfc_blocks_short)
qed

lemma absorbed_init: "length (md_buf sc) = 64 \<Longrightarrow> absorbed (sph_md5_init sc) []"
  by (simp add: absorbed_def sph_md5_init_def rfc_blocks_short)

section \<open>Adding a piece\<close>

text \<open>One turn of the loop stays in the buffer and absorbs what it copies.\<close>

lemma short_turn:
  assumes "absorbed sc m" and "data \<noteq> []" and "k = length m mod 64" and "clen = min (64 - k) (length data)"
  shows "md5_short_loop sc k data = md5_short_loop (let
       sc = sc\<lparr>md_buf := put_at (md_buf sc) k (take clen data)\<rparr>;
       sc = (if k + clen = 64 then sc\<lparr>md_val := md5_round (md_buf sc) (md_val sc)\<rparr> else sc) in
       sc\<lparr>md_count := md_count sc + of_nat clen\<rparr>) ((length m + clen) mod 64) (drop clen data)"
    and "absorbed (let
       sc = sc\<lparr>md_buf := put_at (md_buf sc) k (take clen data)\<rparr>;
       sc = (if k + clen = 64 then sc\<lparr>md_val := md5_round (md_buf sc) (md_val sc)\<rparr> else sc) in
       sc\<lparr>md_count := md_count sc + of_nat clen\<rparr>) (m @ take clen data)"
    and "0 < clen" and "k + clen \<le> 64"
proof -
  have k: "k < 64" using assms(3) by simp
  then show pos: "0 < clen" "k + clen \<le> 64" using assms(2,4) by auto
  have "(length m + clen) mod 64 = (k + clen) mod 64" using assms(3) by (simp add: mod_add_left_eq)
  then have nxt: "(length m + clen) mod 64 = (if k + clen = 64 then 0 else k + clen)" using pos by auto
  show "md5_short_loop sc k data = md5_short_loop (let
       sc = sc\<lparr>md_buf := put_at (md_buf sc) k (take clen data)\<rparr>;
       sc = (if k + clen = 64 then sc\<lparr>md_val := md5_round (md_buf sc) (md_val sc)\<rparr> else sc) in
       sc\<lparr>md_count := md_count sc + of_nat clen\<rparr>) ((length m + clen) mod 64) (drop clen data)"
    using assms(2,4) nxt by (subst md5_short_loop.simps) (simp add: SPH_BLEN_def Let_def)
  obtain p q where pq: "m = p @ q" "length p mod 64 = 0" "length q = k" "take k (md_buf sc) = q"
    "rfc_blocks md5_IV p = md_val sc"
    using absorbed_split [OF assms(1)] assms(3) by metis
  have len: "length (md_buf sc) = 64" "length (take clen data) = clen" "md_count sc = of_nat (length m)"
    using assms(1,4) by (simp_all add: absorbed_def)
  have put: "take (k + clen) (put_at (md_buf sc) k (take clen data)) = q @ take clen data"
    using pq(3,4) len by (simp add: put_at_def)
  show "absorbed (let
       sc = sc\<lparr>md_buf := put_at (md_buf sc) k (take clen data)\<rparr>;
       sc = (if k + clen = 64 then sc\<lparr>md_val := md5_round (md_buf sc) (md_val sc)\<rparr> else sc) in
       sc\<lparr>md_count := md_count sc + of_nat clen\<rparr>) (m @ take clen data)"
  proof (cases "k + clen = 64")
    case True
    let ?b = "put_at (md_buf sc) k (take clen data)"
    have b: "?b = q @ take clen data" using put True len pos by simp
    have "length (p @ ?b) mod 64 = 0" using pq(2) True len b pq(3) by simp
    moreover have "rfc_blocks md5_IV (p @ ?b) = md5_round ?b (md_val sc)"
      using rfc_blocks_append [OF pq(2), of md5_IV ?b] rfc_blocks_Cons [of ?b "md_val sc" "[]"] pq(3,5) True len b
      by (simp add: rfc_blocks_short)
    moreover have "of_nat k + of_nat clen = (64 :: 64 word)" using True by (metis of_nat_add of_nat_numeral)
    ultimately show ?thesis
      using True pq(1,3) len pos b by (intro absorbedI [where p = "p @ ?b" and q = "[]"]) (simp_all add: Let_def)
  next
    case False
    then show ?thesis
      using pq len pos put by (intro absorbedI [where p = p and q = "q @ take clen data"]) (simp_all add: Let_def)
  qed
qed

lemma short_absorbs:
  "absorbed sc m \<Longrightarrow> \<exists>v. md5_short_loop sc (length m mod 64) data = Some v \<and> absorbed v (m @ data)"
proof (induction "length data" arbitrary: sc m data rule: less_induct)
  case less
  show ?case
  proof (cases "data = []")
    case True
    then show ?thesis using less.prems by (subst md5_short_loop.simps) simp
  next
    case False
    let ?k = "length m mod 64"
    let ?c = "min (64 - ?k) (length data)"
    note t = short_turn [OF less.prems False refl refl]
    have "length (drop ?c data) < length data" using t(3) False by simp
    from less.hyps [OF this t(2)] show ?thesis using t(1) by simp
  qed
qed

lemma md5_short_absorbs: "absorbed sc m \<Longrightarrow> \<exists>v. md5_short sc data = Some v \<and> absorbed v (m @ data)"
  using short_absorbs [of sc m data] current_count [of sc "length m"] by (simp add: md5_short_def absorbed_def)

lemma direct_blocks:
  "md5_direct r data = (rfc_blocks r data, drop (64 * (length data div 64)) data)"
proof (induction r data rule: md5_direct.induct)
  case (1 r data)
  show ?case
  proof (cases "64 \<le> length data")
    case True
    have "md5_direct r data = md5_direct (md5_round data r) (drop 64 data)"
      using True by (subst md5_direct.simps) (simp add: SPH_BLEN_def)
    moreover have "rfc_blocks r data = rfc_blocks (md5_round data r) (drop 64 data)"
      using rfc_blocks_Cons [of "take 64 data" r "drop 64 data"] round_take [OF True, of r] True by simp
    moreover have "length data div 64 = Suc ((length data - 64) div 64)" using True by (simp add: le_div_geq)
    ultimately show ?thesis using 1 True by (simp add: SPH_BLEN_def add.commute)
  next
    case False
    then show ?thesis by (subst md5_direct.simps) (simp add: SPH_BLEN_def rfc_blocks_short)
  qed
qed

text \<open>The direct path, after the buffer was filled up.\<close>

lemma direct_absorbs:
  assumes "absorbed sc m" and "length m mod 64 = 0" and "md5_direct (md_val sc) data = (r, rest)"
  shows "absorbed (sc\<lparr>md_val := r, md_buf := put_at (md_buf sc) 0 rest, md_count := md_count sc + of_nat (length data)\<rparr>) (m @ data)"
proof -
  let ?n = "64 * (length data div 64)"
  have rest: "rest = drop ?n data" "r = rfc_blocks (md_val sc) data" using assms(3) by (simp_all add: direct_blocks)
  have len: "length rest = length data mod 64" using rest by (simp add: minus_mult_div_eq_mod)
  have buf: "length (md_buf sc) = 64" "md_count sc = of_nat (length m)" "md_val sc = rfc_blocks md5_IV m"
    using assms(1) by (simp_all add: absorbed_def)
  have "rfc_blocks md5_IV (m @ take ?n data) = rfc_blocks (rfc_blocks (md_val sc) (take ?n data)) rest"
    using rfc_blocks_append [OF assms(2), of md5_IV] len buf(3) by (simp add: rfc_blocks_short)
  also have "\<dots> = r" using rfc_blocks_append [of "take ?n data" "md_val sc" rest] rest by simp
  finally have val: "r = rfc_blocks md5_IV (m @ take ?n data)" by simp
  have "length (m @ take ?n data) mod 64 = 0" using assms(2) by (simp add: mod_add_eq flip: mod_add_eq)
  then show ?thesis
    using rest(1) len buf val by (intro absorbedI [where p = "m @ take ?n data" and q = rest]) (simp_all add: put_at_def)
qed

lemma sph_md5_absorbs:
  assumes "absorbed sc m"
  shows "\<exists>v. sph_md5 unaligned address sc data = Some v \<and> absorbed v (m @ data)"
proof (cases "length data < 128")
  case True
  then show ?thesis using md5_short_absorbs [OF assms] by (simp add: sph_md5_def SPH_BLEN_def)
next
  case False
  let ?k = "length m mod 64"
  let ?t = "if ?k > 0 then 64 - ?k else 0"
  have k: "md_current sc = ?k" using assms current_count by (simp add: absorbed_def)
  obtain u where u: "(if ?k > 0 then md5_short sc (take ?t data) else Some sc) = Some u" "absorbed u (m @ take ?t data)"
    using md5_short_absorbs [OF assms, of "take ?t data"] assms by (cases "?k > 0") auto
  have "length (m @ take ?t data) = length m + ?t" using False by simp
  moreover have "(length m + ?t) mod 64 = 0"
  proof (cases "?k > 0")
    case True
    have "length m + (64 - ?k) = 64 * (length m div 64 + 1)"
      by presburger
    then have "(length m + (64 - ?k)) mod 64 = 0" by (simp only: mod_mult_self1_is_0)
    then show ?thesis using True by simp
  qed simp
  ultimately have full: "length (m @ take ?t data) mod 64 = 0" by simp
  obtain r rest where d: "md5_direct (md_val u) (drop ?t data) = (r, rest)" by fastforce
  have step: "sph_md5 unaligned address sc data =
      (if \<not> unaligned \<and> (address + ?t) mod 4 \<noteq> 0 then md5_short u (drop ?t data)
       else Some (u\<lparr>md_val := r, md_buf := put_at (md_buf u) 0 rest, md_count := md_count u + of_nat (length (drop ?t data))\<rparr>))"
    using False k u(1) d by (cases "?k > 0") (simp_all add: sph_md5_def SPH_BLEN_def Let_def)
  show ?thesis
    using md5_short_absorbs [OF u(2), of "drop ?t data"] direct_absorbs [OF u(2) full d] unfolding step by auto
qed

section \<open>Closing\<close>

lemma rfc_blocks_two: "length a = 64 \<Longrightarrow> length b = 64 \<Longrightarrow> rfc_blocks r (a @ b) = md5_round b (md5_round a r)"
  "length a = 64 \<Longrightarrow> rfc_blocks r a = md5_round a r"
  using rfc_blocks_Cons [of b "md5_round a r" "[]"] rfc_blocks_Cons [of a r "[]"]
  by (simp_all add: rfc_blocks_Cons rfc_blocks_short)

text \<open>The block or blocks that closing hashes.\<close>

lemma rfc_padding_blocks:
  "n mod 64 = k \<Longrightarrow> k < 56 \<Longrightarrow> rfc_padding n = 0x80 # replicate (55 - k) 0 @ sph_enc64le (of_nat (8 * n))"
  "n mod 64 = k \<Longrightarrow> 56 \<le> k \<Longrightarrow>
     rfc_padding n = (0x80 # replicate (63 - k) 0) @ replicate 56 0 @ sph_enc64le (of_nat (8 * n))"
proof -
  show "n mod 64 = k \<Longrightarrow> k < 56 \<Longrightarrow> rfc_padding n = 0x80 # replicate (55 - k) 0 @ sph_enc64le (of_nat (8 * n))"
    by (simp add: rfc_padding_def le_mod_geq)
  assume "n mod 64 = k" "56 \<le> k"
  moreover have "k < 64" using calculation by auto
  moreover have "119 - k = (63 - k) + 56" using calculation by simp
  then have "replicate (119 - k) (0 :: byte) = replicate (63 - k) 0 @ replicate 56 0" by (simp only: replicate_add)
  ultimately show "rfc_padding n = (0x80 # replicate (63 - k) 0) @ replicate 56 0 @ sph_enc64le (of_nat (8 * n))"
    by (simp add: rfc_padding_def)
qed

lemma padded_buffers:
  assumes "length b = 64" and "length e = 8"
  shows "k < 56 \<Longrightarrow> put_at (put_at (put_at b k [x]) (Suc k) (replicate (55 - k) 0)) 56 e = take k b @ x # replicate (55 - k) 0 @ e"
    and "k < 64 \<Longrightarrow> put_at (put_at b k [x]) (Suc k) (replicate (63 - k) 0) = take k b @ x # replicate (63 - k) 0"
    and "put_at (put_at c 0 (replicate 56 0)) 56 e = replicate 56 0 @ e @ drop 64 c"
proof -
  show "k < 56 \<Longrightarrow> put_at (put_at (put_at b k [x]) (Suc k) (replicate (55 - k) 0)) 56 e = take k b @ x # replicate (55 - k) 0 @ e"
  proof -
    assume "k < 56"
    then have "56 - k = Suc (55 - k)" by simp
    then show ?thesis using assms by (simp add: put_at_def)
  qed
  show "k < 64 \<Longrightarrow> put_at (put_at b k [x]) (Suc k) (replicate (63 - k) 0) = take k b @ x # replicate (63 - k) 0"
    using assms by (simp add: put_at_def)
  show "put_at (put_at c 0 (replicate 56 0)) 56 e = replicate 56 0 @ e @ drop 64 c"
    using assms by (simp add: put_at_def)
qed

text \<open>The state after closing, for a short and for a long rest.\<close>

lemma close_state:
  assumes "length (md_buf sc) = 64" and "md_current sc = k" and "k < 64"
    and "pad = (if k < 56 then 0x80 # replicate (55 - k) 0 else (0x80 # replicate (63 - k) 0) @ replicate 56 0)"
  shows "md_val (fst (md5_addbits_and_close sc 0 0))
       = rfc_blocks (md_val sc) (take k (md_buf sc) @ pad @ sph_enc64le (push_bit 3 (md_count sc)))"
    and "length (md_buf (fst (md5_addbits_and_close sc 0 0))) = 64"
proof -
  let ?e = "sph_enc64le (push_bit 3 (md_count sc))"
  have mark: "ucast (((0 AND (- drop_bit 0 0x80)) OR drop_bit 0 0x80) AND 0xFF :: word32) = (0x80 :: byte)" by simp
  note pads = padded_buffers(1,2) [OF assms(1), where e = ?e and k = k and x = "0x80"]
  have "md_val (fst (md5_addbits_and_close sc 0 0))
       = rfc_blocks (md_val sc) (take k (md_buf sc) @ pad @ ?e) \<and> length (md_buf (fst (md5_addbits_and_close sc 0 0))) = 64"
  proof (cases "k < 56")
    case True
    let ?b = "take k (md_buf sc) @ 0x80 # replicate (55 - k) 0 @ ?e"
    have "fst (md5_addbits_and_close sc 0 0) = sc\<lparr>md_buf := ?b, md_val := md5_round ?b (md_val sc)\<rparr>"
      using True assms(2) pads(1) mark
      by (simp add: md5_addbits_and_close_def SPH_MAXPAD_def SPH_BLEN_def Let_def split: prod.splits)
    moreover have "length ?b = 64" using True assms(1) by simp
    ultimately show ?thesis using True assms(4) rfc_blocks_two(2) [of ?b] by simp
  next
    case False
    let ?a = "take k (md_buf sc) @ 0x80 # replicate (63 - k) 0"
    let ?b = "replicate 56 0 @ ?e"
    have a: "length ?a = 64" using assms(1,3) by simp
    have b: "put_at (put_at ?a 0 (replicate 56 0)) 56 ?e = ?b" using padded_buffers(3) [OF assms(1), of ?e ?a] a by simp
    have "fst (md5_addbits_and_close sc 0 0) = sc\<lparr>md_buf := ?b, md_val := md5_round ?b (md5_round ?a (md_val sc))\<rparr>"
      using False assms(2,3) pads(2) mark b
      by (simp add: md5_addbits_and_close_def SPH_MAXPAD_def SPH_BLEN_def Let_def split: prod.splits)
    moreover have "length ?b = 64" by simp
    ultimately show ?thesis using False assms(4) rfc_blocks_two(1) [OF a, of ?b "md_val sc"] by simp
  qed
  then show "md_val (fst (md5_addbits_and_close sc 0 0)) = rfc_blocks (md_val sc) (take k (md_buf sc) @ pad @ ?e)"
    and "length (md_buf (fst (md5_addbits_and_close sc 0 0))) = 64" by simp_all
qed

lemma close_output:
  "snd (md5_addbits_and_close sc ub n) = (case md_val (fst (md5_addbits_and_close sc ub n)) of (a, b, c, d) \<Rightarrow>
     sph_enc32le a @ sph_enc32le b @ sph_enc32le c @ sph_enc32le d)"
  by (simp add: md5_addbits_and_close_def Let_def split: prod.splits)

lemma close_digest:
  assumes "absorbed sc m"
  shows "snd (md5_addbits_and_close sc 0 0) = rfc_md5 m"
    and "length (md_buf (fst (md5_addbits_and_close sc 0 0))) = 64"
proof -
  let ?k = "length m mod 64"
  obtain p q where pq: "m = p @ q" "length p mod 64 = 0" "length q = ?k" "take ?k (md_buf sc) = q"
    "rfc_blocks md5_IV p = md_val sc"
    using absorbed_split [OF assms] by metis
  have sc: "md_current sc = ?k" "length (md_buf sc) = 64" "push_bit 3 (md_count sc) = of_nat (8 * length m)"
    using assms current_count by (simp_all add: absorbed_def push_bit_eq_mult)
  have k: "?k < 64" by simp
  have "rfc_blocks md5_IV (m @ rfc_padding (length m)) = rfc_blocks (md_val sc) (q @ rfc_padding (length m))"
    using rfc_blocks_append [OF pq(2), of md5_IV] pq(1,5) by simp
  also have "\<dots> = md_val (fst (md5_addbits_and_close sc 0 0))"
    unfolding close_state(1) [OF sc(2,1) k refl] sc(3) pq(4)
    using rfc_padding_blocks [of "length m" ?k] by (cases "?k < 56") simp_all
  finally show "snd (md5_addbits_and_close sc 0 0) = rfc_md5 m"
    by (simp only: close_output rfc_md5_def)
  show "length (md_buf (fst (md5_addbits_and_close sc 0 0))) = 64" by (rule close_state(2) [OF sc(2,1) k refl])
qed

end
