(* ===== verification/Hashing.thy ===== *)
theory Hashing
  imports Md5_Correct Download
begin

text \<open>
  \<open>hashing_algo.c\<close>: hash algorithms as a table of functions, the hash of a file and of a string, and
  hash strings; the functions of \<open>sph_md5.c\<close> behind the table; and the thread of \<open>os_unix.c\<close> that
  compares the hash of a downloaded file with the one a bot announced. The interface \<open>hasher\<close> says
  what the client needs of a table; MD5 provides it.
\<close>

section \<open>The table\<close>

record 'c hash_algorithm =
  ha_ctx :: 'c
  ha_hashSize :: nat
  ha_toString :: "byte list \<Rightarrow> string"
  ha_equals :: "byte list \<Rightarrow> byte list \<Rightarrow> bool"
  ha_init :: "'c \<Rightarrow> 'c"
  ha_update :: "byte list \<Rightarrow> 'c \<Rightarrow> 'c option"
  ha_final :: "'c \<Rightarrow> 'c \<times> byte list"

definition bytes :: "string \<Rightarrow> byte list" where
  "bytes s = map of_char s"

lemma bytes_simps [simp]: "bytes [] = []" "bytes (s @ t) = bytes s @ bytes t" "length (bytes s) = length s"
  by (simp_all add: bytes_def)

definition updateHash :: "string \<Rightarrow> 'c hash_algorithm \<Rightarrow> 'c hash_algorithm option" where
  "updateHash buffer algo = map_option (\<lambda>c. algo\<lparr>ha_ctx := c\<rparr>) (ha_update algo (bytes buffer) (ha_ctx algo))"

definition hash_final :: "'c hash_algorithm \<Rightarrow> 'c hash_algorithm \<times> byte list" where
  "hash_final algo = (case ha_final algo (ha_ctx algo) of (c, h) \<Rightarrow> (algo\<lparr>ha_ctx := c\<rparr>, h))"

definition getHashFromFile ::
  "'c hash_algorithm \<Rightarrow> string \<Rightarrow> app_world \<Rightarrow> stop + (('c hash_algorithm \<times> byte list) option \<times> app_world)" where
  "getHashFromFile algo filename w =
     and_then (readFile filename updateHash (algo\<lparr>ha_ctx := ha_init algo (ha_ctx algo)\<rparr>) w) (\<lambda>(r, w).
     Inr (map_option hash_final r, w))"

fun update_times :: "nat \<Rightarrow> string \<Rightarrow> 'c hash_algorithm \<Rightarrow> 'c hash_algorithm option" where
  "update_times 0 s algo = Some algo"
| "update_times (Suc n) s algo = Option.bind (updateHash (cstr s) algo) (update_times n s)"

definition getHashFromStringIter :: "'c hash_algorithm \<Rightarrow> string \<Rightarrow> int \<Rightarrow> ('c hash_algorithm \<times> byte list) option" where
  "getHashFromStringIter algo s numIterations =
     map_option hash_final (update_times (nat numIterations) s (algo\<lparr>ha_ctx := ha_init algo (ha_ctx algo)\<rparr>))"

definition getHashFromString :: "'c hash_algorithm \<Rightarrow> string \<Rightarrow> ('c hash_algorithm \<times> byte list) option" where
  "getHashFromString algo s = getHashFromStringIter algo s 1"

section \<open>Hash strings\<close>

definition hexCharToBin :: "char \<Rightarrow> byte" where
  "hexCharToBin c =
     (if c \<in> set ''0123456789'' then of_char c - of_char (CHR ''0'')
      else if c \<in> set ''abcdef'' then of_char c - of_char (CHR ''a'') + 10
      else if c \<in> set ''ABCDEF'' then of_char c - of_char (CHR ''A'') + 10
      else 0)"

definition hexToBin :: "char \<Rightarrow> char \<Rightarrow> byte" where
  "hexToBin c1 c2 = hexCharToBin c2 OR push_bit 4 (hexCharToBin c1)"

text \<open>The string lies in a block of its characters and the terminator.\<close>

fun hash_pairs :: "nat \<Rightarrow> string \<Rightarrow> stop + byte list" where
  "hash_pairs 0 s = Inr []"
| "hash_pairs (Suc n) (c1 # c2 # s) = and_then (hash_pairs n s) (\<lambda>r. Inr (hexToBin c1 c2 # r))"
| "hash_pairs (Suc n) _ = Inl OutOfBounds"

definition convertHashStringToBinary :: "'c hash_algorithm \<Rightarrow> string \<Rightarrow> stop + byte list" where
  "convertHashStringToBinary algo hashString = hash_pairs (ha_hashSize algo) (hashString @ [NUL])"

definition hex_digit :: "nat \<Rightarrow> char" where
  "hex_digit n = ''0123456789abcdef'' ! n"

definition md5_toString :: "byte list \<Rightarrow> string" where
  "md5_toString hash = concat (map (\<lambda>b. [hex_digit (unat b div 16), hex_digit (unat b mod 16)]) (take 16 hash))"

section \<open>MD5 in the table\<close>

text \<open>\<open>unaligned\<close> and \<open>address\<close> as for \<open>sph_md5\<close>; \<open>junk\<close> is what \<open>malloc\<close> left in the context.\<close>

definition createMD5SPH :: "bool \<Rightarrow> nat \<Rightarrow> sph_md5_context \<Rightarrow> sph_md5_context hash_algorithm" where
  "createMD5SPH unaligned address junk =
     \<lparr>ha_ctx = junk, ha_hashSize = 16, ha_toString = md5_toString, ha_equals = (\<lambda>a b. take 16 a = take 16 b),
      ha_init = sph_md5_init, ha_update = (\<lambda>data c. sph_md5 unaligned address c data), ha_final = sph_md5_close\<rparr>"

definition createHashAlgorithm :: "bool \<Rightarrow> nat \<Rightarrow> sph_md5_context \<Rightarrow> string \<Rightarrow> sph_md5_context hash_algorithm option" where
  "createHashAlgorithm unaligned address junk name =
     (if cstr name = ''MD5'' then Some (createMD5SPH unaligned address junk) else None)"

section \<open>The checksum thread\<close>

text \<open>Whether the thread reports success. Hashing may not return and the file may be missing.\<close>

definition checksum_verification_thread ::
  "bool \<Rightarrow> nat \<Rightarrow> sph_md5_context \<Rightarrow> string \<Rightarrow> string \<Rightarrow> app_world \<Rightarrow> stop + bool option" where
  "checksum_verification_thread unaligned address junk expectedHash path w =
     (case createHashAlgorithm unaligned address junk ''MD5'' of
        None \<Rightarrow> Inl NullDeref
      | Some algo \<Rightarrow> and_then (getHashFromFile algo path w) (\<lambda>(r, w). case r of
          None \<Rightarrow> Inr None
        | Some (algo, hashFromFile) \<Rightarrow> and_then (convertHashStringToBinary algo expectedHash) (\<lambda>expected.
            Inr (Some (ha_equals algo expected hashFromFile)))))"

section \<open>What a client needs of a table\<close>

text \<open>\<open>stands c m\<close>: the context has taken in the message \<open>m\<close>. An update returns.\<close>

locale hasher =
  fixes algo :: "'c hash_algorithm" and ready :: "'c \<Rightarrow> bool" and stands :: "'c \<Rightarrow> byte list \<Rightarrow> bool"
    and digest :: "byte list \<Rightarrow> byte list"
  assumes init_stands: "ready c \<Longrightarrow> stands (ha_init algo c) []"
    and update_stands: "stands c m \<Longrightarrow> \<exists>v. ha_update algo data c = Some v \<and> stands v (m @ data)"
    and final_digest: "stands c m \<Longrightarrow> snd (ha_final algo c) = digest m \<and> ready (fst (ha_final algo c))"
begin

lemma updateHash_stands:
  "stands c m \<Longrightarrow> \<exists>v. updateHash xs (algo\<lparr>ha_ctx := c\<rparr>) = Some (algo\<lparr>ha_ctx := v\<rparr>) \<and> stands v (m @ bytes xs)"
  using update_stands [of c m "bytes xs"] by (auto simp: updateHash_def)

lemma pieces_stand:
  "stands c m \<Longrightarrow> \<exists>v. read_pieces updateHash f w (algo\<lparr>ha_ctx := c\<rparr>) = Some (algo\<lparr>ha_ctx := v\<rparr>)
     \<and> stands v (m @ bytes (drop (f_pos f) (file_content w (f_path f))))"
proof (induction "length (file_content w (f_path f)) - f_pos f" arbitrary: f c m rule: less_induct)
  case less
  let ?rest = "drop (f_pos f) (file_content w (f_path f))"
  let ?xs = "take FILE_READ_BUFFER_SIZE ?rest"
  let ?f = "f\<lparr>f_pos := f_pos f + length ?xs\<rparr>"
  obtain v where v: "updateHash ?xs (algo\<lparr>ha_ctx := c\<rparr>) = Some (algo\<lparr>ha_ctx := v\<rparr>)" "stands v (m @ bytes ?xs)"
    using updateHash_stands [OF less.prems] by blast
  have read: "file_Read f FILE_READ_BUFFER_SIZE w = (?xs, ?f)" by (simp add: file_Read_def Let_def)
  show ?case
  proof (cases "length ?xs = FILE_READ_BUFFER_SIZE")
    case True
    then have "f_pos f < length (file_content w (f_path f))" by (auto simp: FILE_READ_BUFFER_SIZE_def)
    then have "length (file_content w (f_path ?f)) - f_pos ?f < length (file_content w (f_path f)) - f_pos f"
      by (auto simp: FILE_READ_BUFFER_SIZE_def)
    from less.hyps [OF this v(2)] obtain u where
      "read_pieces updateHash ?f w (algo\<lparr>ha_ctx := v\<rparr>) = Some (algo\<lparr>ha_ctx := u\<rparr>)"
      "stands u ((m @ bytes ?xs) @ bytes (drop (f_pos ?f) (file_content w (f_path ?f))))"
      by blast
    moreover have "bytes ?rest = bytes ?xs @ bytes (drop (f_pos ?f) (file_content w (f_path ?f)))"
    proof -
      have "drop (f_pos ?f) (file_content w (f_path ?f)) = drop FILE_READ_BUFFER_SIZE ?rest"
        using True by (simp add: add.commute)
      then have "?rest = ?xs @ drop (f_pos ?f) (file_content w (f_path ?f))" by (simp only: append_take_drop_id)
      then show ?thesis by (metis bytes_simps(2))
    qed
    moreover have "read_pieces updateHash f w (algo\<lparr>ha_ctx := c\<rparr>) = read_pieces updateHash ?f w (algo\<lparr>ha_ctx := v\<rparr>)"
      using v(1) read True by (subst read_pieces.simps) simp
    ultimately show ?thesis by (auto simp del: bytes_simps)
  next
    case False
    then have "?xs = ?rest" by auto
    then show ?thesis using v read False by (subst read_pieces.simps) auto
  qed
qed

text \<open>The hash of a file, and of a string taken \<open>n\<close> times.\<close>

lemma file_hash:
  assumes "ready (ha_ctx algo)" and "a_files (w_app w) path = Some content"
    and "os_rets (w_os w) = r # r' # rs" and "0 \<le> r" and "0 \<le> r'"
  shows "\<exists>v u. getHashFromFile algo path w = Inr (Some (algo\<lparr>ha_ctx := v\<rparr>, digest (bytes content)), u) \<and> ready v"
proof -
  let ?f = "\<lparr>f_path = path, f_append = False, f_pos = 0\<rparr>"
  obtain u where u: "file_Open path ModeRead w = Inr (?f, u)" "file_content u path = content" "os_rets (w_os u) = r' # rs"
    using assms(2-4) by (simp add: file_Open_def os_ret_def file_content_def)
  obtain v where v: "read_pieces updateHash ?f u (algo\<lparr>ha_ctx := ha_init algo (ha_ctx algo)\<rparr>) = Some (algo\<lparr>ha_ctx := v\<rparr>)"
    "stands v (bytes content)"
    using pieces_stand [OF init_stands [OF assms(1)], of ?f u] u(2) by auto
  have "hash_final (algo\<lparr>ha_ctx := v\<rparr>) = (algo\<lparr>ha_ctx := fst (ha_final algo v)\<rparr>, digest (bytes content))"
    using final_digest [OF v(2)] by (simp add: hash_final_def case_prod_unfold)
  moreover have "ready (fst (ha_final algo v))" using final_digest [OF v(2)] by simp
  ultimately show ?thesis
    using u(1,3) v(1) assms(5) by (auto simp: getHashFromFile_def readFile_def os_ret_def Let_def)
qed

lemma times_stand:
  "stands c m \<Longrightarrow> \<exists>v. update_times n s (algo\<lparr>ha_ctx := c\<rparr>) = Some (algo\<lparr>ha_ctx := v\<rparr>)
     \<and> stands v (m @ concat (replicate n (bytes (cstr s))))"
proof (induction n arbitrary: c m)
  case (Suc n)
  obtain v where v: "updateHash (cstr s) (algo\<lparr>ha_ctx := c\<rparr>) = Some (algo\<lparr>ha_ctx := v\<rparr>)" "stands v (m @ bytes (cstr s))"
    using updateHash_stands [OF Suc.prems] by blast
  then show ?case using Suc.IH [OF v(2)] by auto
qed auto

lemma string_hash:
  assumes "ready (ha_ctx algo)"
  shows "\<exists>v. getHashFromStringIter algo s n
     = Some (algo\<lparr>ha_ctx := v\<rparr>, digest (concat (replicate (nat n) (bytes (cstr s)))))"
proof -
  obtain v where v: "update_times (nat n) s (algo\<lparr>ha_ctx := ha_init algo (ha_ctx algo)\<rparr>) = Some (algo\<lparr>ha_ctx := v\<rparr>)"
    "stands v (concat (replicate (nat n) (bytes (cstr s))))"
    using times_stand [OF init_stands [OF assms], of "nat n" s] by auto
  have "hash_final (algo\<lparr>ha_ctx := v\<rparr>) = (algo\<lparr>ha_ctx := fst (ha_final algo v)\<rparr>, digest (concat (replicate (nat n) (bytes (cstr s)))))"
    using final_digest [OF v(2)] by (simp add: hash_final_def case_prod_unfold)
  then show ?thesis using v(1) by (auto simp: getHashFromStringIter_def)
qed

end

text \<open>MD5 is such a table, for every build and placement of the data.\<close>

lemma md5_ready: "absorbed sc m \<Longrightarrow> length (md_buf (fst (sph_md5_close sc))) = 64"
  using close_digest(2) [of sc m] by (simp add: sph_md5_close_def sph_md5_init_def case_prod_unfold)

lemma md5_close: "absorbed sc m \<Longrightarrow> snd (sph_md5_close sc) = rfc_md5 m"
  using close_digest(1) [of sc m] by (simp add: sph_md5_close_def case_prod_unfold)

interpretation md5: hasher "createMD5SPH unaligned address junk" "\<lambda>c. length (md_buf c) = 64" absorbed rfc_md5
  for unaligned address junk
  by unfold_locales (simp_all add: createMD5SPH_def absorbed_init sph_md5_absorbs md5_close md5_ready)

end
