(* ===== verification/Checksum.thy ===== *)
theory Checksum
  imports Hashing
begin

text \<open>
  What the hashing components promise together: pieces hash like the whole, hash strings are read
  back, and the checksum thread reports success exactly for the digest of the downloaded file.
\<close>

section \<open>Pieces\<close>

text \<open>The pieces come with the addresses they lie at.\<close>

fun sph_md5_pieces :: "bool \<Rightarrow> (nat \<times> byte list) list \<Rightarrow> sph_md5_context \<Rightarrow> sph_md5_context option" where
  "sph_md5_pieces unaligned [] sc = Some sc"
| "sph_md5_pieces unaligned ((address, data) # pieces) sc =
     Option.bind (sph_md5 unaligned address sc data) (sph_md5_pieces unaligned pieces)"

lemma pieces_absorbed:
  "absorbed sc m \<Longrightarrow> \<exists>v. sph_md5_pieces unaligned pieces sc = Some v \<and> absorbed v (m @ concat (map snd pieces))"
proof (induction pieces arbitrary: sc m)
  case (Cons p pieces)
  obtain address data where p: "p = (address, data)" by (cases p)
  obtain v where v: "sph_md5 unaligned address sc data = Some v" "absorbed v (m @ data)"
    using sph_md5_absorbs [OF Cons.prems] by blast
  then show ?case using Cons.IH [OF v(2)] p by simp
qed simp

text \<open>C21: a message hashed in any pieces at any addresses, on machines that need aligned words and on
  those that do not, gives the digest RFC 1321 defines for the whole message; no call fails to
  return, and the context is ready for the next message.\<close>

theorem md5_pieces_digest:
  assumes "length (md_buf sc) = 64"
  shows "\<exists>v. sph_md5_pieces unaligned pieces (sph_md5_init sc) = Some v
     \<and> snd (sph_md5_close v) = rfc_md5 (concat (map snd pieces))
     \<and> absorbed (fst (sph_md5_close v)) []"
proof -
  obtain v where v: "sph_md5_pieces unaligned pieces (sph_md5_init sc) = Some v" "absorbed v (concat (map snd pieces))"
    using pieces_absorbed [OF absorbed_init [OF assms]] by force
  have "absorbed (fst (sph_md5_close v)) []"
    using absorbed_init [OF close_digest(2) [OF v(2)]] by (simp add: sph_md5_close_def case_prod_unfold)
  then show ?thesis using v md5_close by blast
qed

definition junk_context :: sph_md5_context where
  "junk_context = \<lparr>md_buf = replicate 64 0xAA, md_val = (1, 2, 3, 4), md_count = 5\<rparr>"

theorem md5_pieces_digest_witness:
  "\<exists>v. sph_md5_pieces False [(1, replicate 70 7), (4, replicate 200 9), (3, [])] (sph_md5_init junk_context) = Some v
     \<and> snd (sph_md5_close v) = rfc_md5 (concat (map snd [(1 :: nat, replicate 70 7), (4, replicate 200 9), (3, [])]))
     \<and> absorbed (fst (sph_md5_close v)) []"
  by (rule md5_pieces_digest) (simp add: junk_context_def)

section \<open>Hash strings\<close>

lemma hex_digits: "n < 16 \<Longrightarrow> hexCharToBin (hex_digit n) = of_nat n"
proof -
  have "list_all (\<lambda>n. hexCharToBin (hex_digit n) = of_nat n) [0..<16]" by code_simp
  then show "n < 16 \<Longrightarrow> hexCharToBin (hex_digit n) = of_nat n" by (simp add: list_all_iff)
qed

lemma hex_byte: "hexToBin (hex_digit (unat b div 16)) (hex_digit (unat b mod 16)) = b"
proof -
  have small: "unat b < 256" using unsigned_less [of b] by simp
  have parts: "unat (take_bit 4 b) = unat b mod 16" "unat (drop_bit 4 b) = unat b div 16"
    by (simp_all add: unat_div_distrib unat_mod_distrib take_bit_eq_mod drop_bit_eq_div)
  have "hexToBin (hex_digit (unat b div 16)) (hex_digit (unat b mod 16))
      = of_nat (unat (take_bit 4 b)) OR push_bit 4 (of_nat (unat (drop_bit 4 b)))"
    using small unfolding parts by (simp add: hexToBin_def hex_digits less_mult_imp_div_less)
  also have "\<dots> = take_bit 4 b OR push_bit 4 (drop_bit 4 b)" by simp
  also have "\<dots> = b"
  proof (rule bit_word_eqI)
    fix n
    assume "n < LENGTH(8)"
    then show "bit (take_bit 4 b OR push_bit 4 (drop_bit 4 b)) n = bit b n"
      by (cases "n < 4") (simp_all add: bit_simps)
  qed
  finally show ?thesis .
qed

lemma pairs_read_back:
  "hash_pairs (length h) (concat (map (\<lambda>b. [hex_digit (unat b div 16), hex_digit (unat b mod 16)]) h) @ t) = Inr h"
  by (induction h) (simp_all add: hex_byte)

lemma rfc_md5_length: "length (rfc_md5 m) = 16"
  by (simp add: rfc_md5_def split: prod.splits)

text \<open>The text of a digest is read back as the digest.\<close>

theorem hash_string_roundtrip:
  assumes "length h = 16" and "ha_hashSize algo = 16"
  shows "convertHashStringToBinary algo (md5_toString h) = Inr h"
  using pairs_read_back [of h "[NUL]"] assms by (simp add: convertHashStringToBinary_def md5_toString_def)

theorem hash_string_roundtrip_witness:
  "convertHashStringToBinary (createMD5SPH True 0 junk_context) (md5_toString (rfc_md5 [1, 2, 3])) = Inr (rfc_md5 [1, 2, 3])"
  by (rule hash_string_roundtrip) (simp_all add: rfc_md5_length createMD5SPH_def)

section \<open>The verdict on a download\<close>

text \<open>A file that can be opened and closed.\<close>

definition readable :: "app_world \<Rightarrow> string \<Rightarrow> string \<Rightarrow> bool" where
  "readable w path content \<longleftrightarrow> a_files (w_app w) path = Some content
     \<and> (case os_rets (w_os w) of r # r' # rs \<Rightarrow> 0 \<le> r \<and> 0 \<le> r' | _ \<Rightarrow> False)"

lemma md5_of_file:
  assumes "length (md_buf junk) = 64" and "readable w path content"
  shows "\<exists>v u. getHashFromFile (createMD5SPH unaligned address junk) path w
     = Inr (Some ((createMD5SPH unaligned address junk)\<lparr>ha_ctx := v\<rparr>, rfc_md5 (bytes content)), u)"
proof -
  obtain r r' rs where r: "os_rets (w_os w) = r # r' # rs" "0 \<le> r" "0 \<le> r'"
    using assms(2) by (auto simp: readable_def split: list.splits)
  have "length (md_buf (ha_ctx (createMD5SPH unaligned address junk))) = 64"
    using assms(1) by (simp add: createMD5SPH_def)
  from md5.file_hash [OF this _ r] assms(2) show ?thesis by (fastforce simp: readable_def)
qed

lemma thread_result:
  assumes "length (md_buf junk) = 64" and "readable w path content"
  shows "checksum_verification_thread unaligned address junk s path w
     = and_then (hash_pairs 16 (s @ [NUL])) (\<lambda>expected. Inr (Some (take 16 expected = take 16 (rfc_md5 (bytes content)))))"
  using md5_of_file [OF assms, of unaligned address]
  by (auto simp: checksum_verification_thread_def createHashAlgorithm_def cstr_simps is_cstr_def cstr_def
      convertHashStringToBinary_def createMD5SPH_def)

text \<open>C28: when the bot announced the digest \<open>h\<close>, the thread reports success exactly when the
  downloaded file has this digest, whatever was in its memory.\<close>

theorem checksum_verdict:
  assumes "length (md_buf junk) = 64" and "readable w path content" and "length h = 16"
  shows "checksum_verification_thread unaligned address junk (md5_toString h) path w
     = Inr (Some (h = rfc_md5 (bytes content)))"
  using pairs_read_back [of h "[NUL]"] assms(3)
  by (simp add: thread_result [OF assms(1,2)] md5_toString_def rfc_md5_length)

definition demo_download :: app_world where
  "demo_download = (fresh_world irc_create_session zero_config ((initial_app 1)\<lparr>a_files := (\<lambda>p. None)(''dl/x'' \<mapsto> ''abc'')\<rparr>))
     \<lparr>w_os := \<lparr>os_rets = [0, 0], os_reads = [], os_writes = [], os_handshake = [], os_pending = [],
        os_ready = [], os_watch = [], os_sent = [], os_time = 0\<rparr>\<rparr>"

lemma demo_readable: "readable demo_download ''dl/x'' ''abc''"
  by (simp add: readable_def demo_download_def fresh_world_def)

theorem checksum_verdict_witness:
  "checksum_verification_thread True 0 junk_context (md5_toString (replicate 16 0)) ''dl/x'' demo_download
     = Inr (Some (replicate 16 0 = rfc_md5 (bytes ''abc'')))"
  by (rule checksum_verdict [OF _ demo_readable]) (simp_all add: junk_context_def)

text \<open>A notice whose checksum is cut short makes the thread read past the block of the checksum
  string.\<close>

theorem short_checksum_overread:
  assumes "length (md_buf junk) = 64" and "readable w path content"
    and "extractMD5 notice = Inr (Some s)" and "length s < 31"
  shows "checksum_verification_thread unaligned address junk s path w = Inl OutOfBounds"
proof -
  have "hash_pairs n t = Inl OutOfBounds" if "length t < 2 * n" for n t
    using that by (induction n t rule: hash_pairs.induct) auto
  then show ?thesis using assms(4) by (simp add: thread_result [OF assms(1,2)])
qed

theorem short_checksum_overread_witness:
  "checksum_verification_thread True 0 junk_context ''900150'' ''dl/x'' demo_download = Inl OutOfBounds"
  by (rule short_checksum_overread [OF _ demo_readable, where notice = "''the md5sum: 900150''"])
    (simp_all add: junk_context_def, code_simp)

section \<open>The test vector\<close>

text \<open>The digest of \<open>abc\<close> that RFC 1321 gives.\<close>

lemma rfc_test_vector: "md5_toString (rfc_md5 (bytes ''abc'')) = ''900150983cd24fb0d6963f7d28e17f72''"
  by code_simp

end
