(* ===== verification/Fd_Watcher.thy ===== *)
theory Fd_Watcher
  imports World
begin

text \<open>
  The descriptor watcher \<open>fd_watcher.c\<close>: its interface, and its three implementations on \<open>select\<close>,
  \<open>poll\<close> and \<open>epoll\<close>. \<open>ready\<close> is what the operating system reports for a descriptor. The interface
  says what \<open>irc_run\<close> needs: between a \<open>zero\<close> and a wait, descriptors are added and given their
  interests, and afterwards a descriptor is reported exactly for the interests that are ready.
\<close>

section \<open>The wrappers\<close>

text \<open>
  How many descriptors there are tables for. \<open>dtablesize\<close>, \<open>limit\<close> (the soft and the hard limit) and
  whether raising the soft limit works are the system's answers; \<open>selecting\<close> is the build that uses
  \<open>select\<close>. \<open>nfiles\<close> is an \<open>int\<close>.
\<close>

definition RLIM_INFINITY :: "64 word" where
  "RLIM_INFINITY = -1"

definition FD_SETSIZE :: int where
  "FD_SETSIZE = 1024"

definition fdwatch_nfiles :: "bool \<Rightarrow> int \<Rightarrow> (64 word \<times> 64 word) option \<Rightarrow> bool \<Rightarrow> int" where
  "fdwatch_nfiles selecting dtablesize limit raised =
     (let nfiles = (case limit of
            None \<Rightarrow> dtablesize
          | Some (cur, maximum) \<Rightarrow>
              let wanted = (if maximum = RLIM_INFINITY then 8192 else if maximum > cur then maximum else cur) in
              sint (ucast (if raised then wanted else cur) :: 32 word)) in
      if selecting then min nfiles FD_SETSIZE else nfiles)"

text \<open>\<open>fdwatch_add_fd\<close> and its siblings refuse descriptors outside the tables.\<close>

definition fd_ok :: "nat \<Rightarrow> int \<Rightarrow> bool" where
  "fd_ok nfiles fd \<longleftrightarrow> \<not> (fd < 0 \<or> fd \<ge> int nfiles)"

definition fdwatch_add_fd :: "nat \<Rightarrow> (nat \<Rightarrow> 's \<Rightarrow> 's) \<Rightarrow> int \<Rightarrow> 's \<Rightarrow> 's" where
  "fdwatch_add_fd nfiles ADD_FD fd s = (if fd_ok nfiles fd then ADD_FD (nat fd) s else s)"

definition fdwatch_del_fd :: "nat \<Rightarrow> (nat \<Rightarrow> 's \<Rightarrow> 's) \<Rightarrow> int \<Rightarrow> 's \<Rightarrow> 's" where
  "fdwatch_del_fd nfiles DEL_FD fd s = (if fd_ok nfiles fd then DEL_FD (nat fd) s else s)"

definition fdwatch_set_fd ::
  "nat \<Rightarrow> (nat \<Rightarrow> interest \<Rightarrow> 's \<Rightarrow> stop + 's) \<Rightarrow> int \<Rightarrow> interest \<Rightarrow> 's \<Rightarrow> stop + 's" where
  "fdwatch_set_fd nfiles SET_FD fd rw s = (if fd_ok nfiles fd then SET_FD (nat fd) rw s else Inr s)"

definition fdwatch_check ::
  "nat \<Rightarrow> ('s \<Rightarrow> nat \<Rightarrow> interest \<Rightarrow> bool) \<Rightarrow> 's \<Rightarrow> int \<Rightarrow> interest \<Rightarrow> bool" where
  "fdwatch_check nfiles CHECK_FD s fd rw \<longleftrightarrow> fd_ok nfiles fd \<and> CHECK_FD s (nat fd) rw"

text \<open>The calls of one round: each descriptor is added and its interests are set, one after the other.\<close>

definition set_all :: "nat \<Rightarrow> (nat \<Rightarrow> interest \<Rightarrow> 's \<Rightarrow> stop + 's) \<Rightarrow> nat \<Rightarrow> interest list \<Rightarrow> 's \<Rightarrow> stop + 's" where
  "set_all nfiles SET_FD fd rws s = fold (\<lambda>rw r. and_then r (fdwatch_set_fd nfiles SET_FD (int fd) rw)) rws (Inr s)"

fun watch_all :: "nat \<Rightarrow> (nat \<Rightarrow> 's \<Rightarrow> 's) \<Rightarrow> (nat \<Rightarrow> interest \<Rightarrow> 's \<Rightarrow> stop + 's) \<Rightarrow> (nat \<times> interest list) list
    \<Rightarrow> 's \<Rightarrow> stop + 's" where
  "watch_all nfiles ADD_FD SET_FD [] s = Inr s"
| "watch_all nfiles ADD_FD SET_FD ((fd, rws) # fds) s =
     and_then (set_all nfiles SET_FD fd rws (fdwatch_add_fd nfiles ADD_FD (int fd) s)) (watch_all nfiles ADD_FD SET_FD fds)"

text \<open>The rounds of the main loop: forget everything, watch, wait.\<close>

type_synonym 'k rounds = "((nat \<times> interest list) list \<times> 'k) list"

fun run_rounds :: "nat \<Rightarrow> ('s \<Rightarrow> 's) \<Rightarrow> (nat \<Rightarrow> 's \<Rightarrow> 's) \<Rightarrow> (nat \<Rightarrow> interest \<Rightarrow> 's \<Rightarrow> stop + 's) \<Rightarrow> ('k \<Rightarrow> 's \<Rightarrow> 's)
    \<Rightarrow> 'k rounds \<Rightarrow> 's \<Rightarrow> stop + 's" where
  "run_rounds nfiles ZERO ADD_FD SET_FD WATCH [] s = Inr s"
| "run_rounds nfiles ZERO ADD_FD SET_FD WATCH ((fds, k) # rounds) s =
     and_then (watch_all nfiles ADD_FD SET_FD fds (ZERO s))
       (\<lambda>s. run_rounds nfiles ZERO ADD_FD SET_FD WATCH rounds (WATCH k s))"

lemma run_rounds_append:
  "run_rounds nfiles ZERO ADD_FD SET_FD WATCH (rs @ rs') s =
     and_then (run_rounds nfiles ZERO ADD_FD SET_FD WATCH rs s) (run_rounds nfiles ZERO ADD_FD SET_FD WATCH rs')"
  by (induction rs arbitrary: s) (auto simp: and_then_assoc)

text \<open>The main loop adds each descriptor once and only descriptors the system gave it.\<close>

definition rounds_ok :: "nat \<Rightarrow> 'k rounds \<Rightarrow> bool" where
  "rounds_ok nfiles rounds \<longleftrightarrow> (\<forall>(fds, k)\<in>set rounds. distinct (map fst fds) \<and> (\<forall>p\<in>set fds. fst p < nfiles))"

section \<open>The interface\<close>

type_synonym readiness = "nat \<Rightarrow> interest \<Rightarrow> bool"

text \<open>\<open>watched\<close>: the descriptors that were added, with the interests that were set; \<open>reported\<close>: what an
  answer of the kernel says of a descriptor.\<close>

locale fd_watcher =
  fixes nfiles :: nat and zero :: "'s \<Rightarrow> 's" and add :: "nat \<Rightarrow> 's \<Rightarrow> 's"
    and set_fd :: "nat \<Rightarrow> interest \<Rightarrow> 's \<Rightarrow> stop + 's" and wait :: "'k \<Rightarrow> 's \<Rightarrow> 's"
    and reported :: "'k \<Rightarrow> readiness" and check :: "'s \<Rightarrow> nat \<Rightarrow> interest \<Rightarrow> bool"
    and inv :: "'s \<Rightarrow> bool" and watched :: "'s \<Rightarrow> nat \<Rightarrow> interest set option"
  assumes zero_law: "inv s \<Longrightarrow> inv (zero s) \<and> watched (zero s) = (\<lambda>fd. None)"
    and add_law: "inv s \<Longrightarrow> fd < nfiles \<Longrightarrow> watched s fd = None \<Longrightarrow>
      inv (add fd s) \<and> watched (add fd s) = (watched s)(fd \<mapsto> {})"
    and set_law: "inv s \<Longrightarrow> watched s fd = Some I \<Longrightarrow>
      \<exists>t. set_fd fd rw s = Inr t \<and> inv t \<and> watched t = (watched s)(fd \<mapsto> insert rw I)"
    and wait_law: "inv s \<Longrightarrow> inv (wait k s)"
    and check_law: "inv s \<Longrightarrow> watched s fd = Some I \<Longrightarrow> check (wait k s) fd rw \<longleftrightarrow> rw \<in> I \<and> reported k fd rw"
begin

lemma set_all_ok:
  "inv s \<Longrightarrow> fd < nfiles \<Longrightarrow> watched s fd = Some I \<Longrightarrow>
     \<exists>t. set_all nfiles set_fd fd rws s = Inr t \<and> inv t \<and> watched t = (watched s)(fd \<mapsto> I \<union> set rws)"
proof (induction rws arbitrary: s I)
  case Nil
  then show ?case by (simp add: set_all_def fun_upd_idem)
next
  case (Cons rw rws)
  obtain t where t: "set_fd fd rw s = Inr t" "inv t" "watched t = (watched s)(fd \<mapsto> insert rw I)"
    using set_law [OF Cons.prems(1,3)] by blast
  have "set_all nfiles set_fd fd (rw # rws) s = set_all nfiles set_fd fd rws t"
    using t(1) Cons.prems(2) by (simp add: set_all_def fdwatch_set_fd_def fd_ok_def)
  then show ?case using Cons.IH [OF t(2) Cons.prems(2), of "insert rw I"] t(3) by (auto simp: fun_eq_iff)
qed

lemma watch_all_ok:
  "inv s \<Longrightarrow> distinct (map fst fds) \<Longrightarrow> \<forall>p\<in>set fds. fst p < nfiles \<and> watched s (fst p) = None \<Longrightarrow>
     \<exists>t. watch_all nfiles add set_fd fds s = Inr t \<and> inv t \<and> watched t = watched s ++ map_of (map (\<lambda>(fd, rws). (fd, set rws)) fds)"
proof (induction fds arbitrary: s)
  case Nil
  then show ?case by simp
next
  case (Cons p fds)
  obtain fd rws where p: "p = (fd, rws)" by (cases p)
  have fd: "fd < nfiles" "watched s fd = None" using Cons.prems(3) p by auto
  let ?a = "fdwatch_add_fd nfiles add (int fd) s"
  have a: "inv ?a" "watched ?a = (watched s)(fd \<mapsto> {})"
    using add_law [OF Cons.prems(1) fd] fd(1) by (simp_all add: fdwatch_add_fd_def fd_ok_def)
  obtain t where t: "set_all nfiles set_fd fd rws ?a = Inr t" "inv t" "watched t = (watched s)(fd \<mapsto> set rws)"
    using set_all_ok [OF a(1) fd(1), of "{}" rws] a(2) by auto
  have rest: "\<forall>q\<in>set fds. fst q < nfiles \<and> watched t (fst q) = None"
    using Cons.prems(2,3) p t(3) by (auto simp: image_iff)
  obtain u where u: "watch_all nfiles add set_fd fds t = Inr u" "inv u"
    "watched u = watched t ++ map_of (map (\<lambda>(fd, rws). (fd, set rws)) fds)"
    using Cons.IH [OF t(2) _ rest] Cons.prems(2) by auto
  have new: "map_of (map (\<lambda>(fd, rws). (fd, set rws)) fds) fd = None"
    using Cons.prems(2) p by (force simp: map_of_eq_None_iff)
  have "watched u = watched s ++ map_of (map (\<lambda>(fd, rws). (fd, set rws)) (p # fds))"
    using u(3) t(3) p new by (auto simp: fun_eq_iff map_add_def split: option.splits)
  moreover have "watch_all nfiles add set_fd (p # fds) s = Inr u" using u(1) t(1) p by simp
  ultimately show ?case using u(2) by blast
qed

text \<open>A round of the main loop: what was watched before does not matter.\<close>

lemma round_ok:
  assumes "inv s" and "distinct (map fst fds)" and "\<forall>p\<in>set fds. fst p < nfiles"
  shows "\<exists>t. watch_all nfiles add set_fd fds (zero s) = Inr t \<and> inv (wait k t)
     \<and> (\<forall>(fd, rws)\<in>set fds. \<forall>rw. fdwatch_check nfiles check (wait k t) (int fd) rw \<longleftrightarrow> rw \<in> set rws \<and> reported k fd rw)"
proof -
  have z: "inv (zero s)" "watched (zero s) = (\<lambda>fd. None)" using zero_law [OF assms(1)] by auto
  obtain t where t: "watch_all nfiles add set_fd fds (zero s) = Inr t" "inv t"
    "watched t = map_of (map (\<lambda>(fd, rws). (fd, set rws)) fds)"
    using watch_all_ok [OF z(1) assms(2)] z(2) assms(3) by (auto simp: map_add_def)
  have "fdwatch_check nfiles check (wait k t) (int fd) rw \<longleftrightarrow> rw \<in> set rws \<and> reported k fd rw"
    if "(fd, rws) \<in> set fds" for fd rws rw
  proof -
    have "(fd, set rws) \<in> set (map (\<lambda>(fd, rws). (fd, set rws)) fds)" using that by force
    moreover have "distinct (map fst (map (\<lambda>(fd, rws). (fd, set rws)) fds))"
      using assms(2) by (simp add: comp_def case_prod_unfold)
    ultimately have "watched t fd = Some (set rws)" unfolding t(3) by (simp only: map_of_is_SomeI)
    then show ?thesis using check_law [OF t(2)] assms(3) that by (auto simp: fdwatch_check_def fd_ok_def)
  qed
  then show ?thesis using t(1) wait_law [OF t(2)] by blast
qed

lemma rounds_keep_inv:
  "inv s \<Longrightarrow> rounds_ok nfiles rounds \<Longrightarrow> \<exists>t. run_rounds nfiles zero add set_fd wait rounds s = Inr t \<and> inv t"
proof (induction rounds arbitrary: s)
  case (Cons r rounds)
  obtain fds k where r: "r = (fds, k)" by (cases r)
  obtain t where "watch_all nfiles add set_fd fds (zero s) = Inr t" "inv (wait k t)"
    using round_ok [OF Cons.prems(1), of fds k] Cons.prems(2) r by (auto simp: rounds_ok_def)
  then show ?case using Cons.IH [of "wait k t"] Cons.prems(2) r by (simp add: rounds_ok_def)
qed simp

lemma last_round_reports:
  assumes "inv s" and "rounds_ok nfiles (rounds @ [(fds, k)])"
  shows "\<exists>t. run_rounds nfiles zero add set_fd wait (rounds @ [(fds, k)]) s = Inr t
     \<and> (\<forall>(fd, rws)\<in>set fds. \<forall>rw. fdwatch_check nfiles check t (int fd) rw \<longleftrightarrow> rw \<in> set rws \<and> reported k fd rw)"
proof -
  obtain u where u: "run_rounds nfiles zero add set_fd wait rounds s = Inr u" "inv u"
    using rounds_keep_inv [OF assms(1), of rounds] assms(2) by (auto simp: rounds_ok_def)
  show ?thesis using round_ok [OF u(2), of fds k] assms(2) u(1) by (auto simp: rounds_ok_def run_rounds_append)
qed

end

text \<open>A watcher that reports nothing for a descriptor that is not watched, and can forget one.\<close>

locale exact_fd_watcher = fd_watcher nfiles zero add set_fd wait reported check inv watched
  for nfiles :: nat and zero :: "'s \<Rightarrow> 's" and add :: "nat \<Rightarrow> 's \<Rightarrow> 's"
    and set_fd :: "nat \<Rightarrow> interest \<Rightarrow> 's \<Rightarrow> stop + 's" and wait :: "'k \<Rightarrow> 's \<Rightarrow> 's"
    and reported :: "'k \<Rightarrow> readiness" and check :: "'s \<Rightarrow> nat \<Rightarrow> interest \<Rightarrow> bool"
    and inv :: "'s \<Rightarrow> bool" and watched :: "'s \<Rightarrow> nat \<Rightarrow> interest set option" +
  fixes del :: "nat \<Rightarrow> 's \<Rightarrow> 's"
  assumes unwatched_law: "inv s \<Longrightarrow> watched s fd = None \<Longrightarrow> \<not> check (wait k s) fd rw"
    and del_law: "inv s \<Longrightarrow> watched s fd = Some I \<Longrightarrow> inv (del fd s) \<and> watched (del fd s) = (watched s)(fd := None)"
begin

lemma round_exact:
  assumes "inv s" and "distinct (map fst fds)" and "\<forall>p\<in>set fds. fst p < nfiles"
  shows "\<exists>t. watch_all nfiles add set_fd fds (zero s) = Inr t \<and> inv (wait k t)
     \<and> (\<forall>fd rw. fdwatch_check nfiles check (wait k t) (int fd) rw \<longleftrightarrow>
          (\<exists>rws. (fd, rws) \<in> set fds \<and> rw \<in> set rws) \<and> reported k fd rw)"
proof -
  have z: "inv (zero s)" "watched (zero s) = (\<lambda>fd. None)" using zero_law [OF assms(1)] by auto
  obtain t where t: "watch_all nfiles add set_fd fds (zero s) = Inr t" "inv t"
    "watched t = map_of (map (\<lambda>(fd, rws). (fd, set rws)) fds)"
    using watch_all_ok [OF z(1) assms(2)] z(2) assms(3) by (auto simp: map_add_def)
  have "fdwatch_check nfiles check (wait k t) (int fd) rw \<longleftrightarrow>
      (\<exists>rws. (fd, rws) \<in> set fds \<and> rw \<in> set rws) \<and> reported k fd rw" for fd rw
  proof (cases "watched t fd")
    case None
    then have "\<not> (\<exists>rws. (fd, rws) \<in> set fds)" using t(3) by (force simp: map_of_eq_None_iff)
    then show ?thesis using unwatched_law [OF t(2) None] by (simp add: fdwatch_check_def)
  next
    case (Some I)
    then obtain rws where r: "(fd, rws) \<in> set fds" "I = set rws" using t(3) by (auto dest!: map_of_SomeD)
    then have "(fd, rws') \<in> set fds \<longleftrightarrow> rws' = rws" for rws'
      using assms(2) by (auto dest: eq_key_imp_eq_value)
    moreover have "fd < nfiles" using r(1) assms(3) by auto
    ultimately show ?thesis using check_law [OF t(2) Some] r by (auto simp: fdwatch_check_def fd_ok_def)
  qed
  then show ?thesis using t(1) wait_law [OF t(2)] by blast
qed

lemma last_round_exact:
  assumes "inv s" and "rounds_ok nfiles (rounds @ [(fds, k)])"
  shows "\<exists>t. run_rounds nfiles zero add set_fd wait (rounds @ [(fds, k)]) s = Inr t
     \<and> (\<forall>fd rw. fdwatch_check nfiles check t (int fd) rw \<longleftrightarrow>
          (\<exists>rws. (fd, rws) \<in> set fds \<and> rw \<in> set rws) \<and> reported k fd rw)"
proof -
  obtain u where u: "run_rounds nfiles zero add set_fd wait rounds s = Inr u" "inv u"
    using rounds_keep_inv [OF assms(1), of rounds] assms(2) by (auto simp: rounds_ok_def)
  show ?thesis using round_exact [OF u(2), of fds k] assms(2) u(1) by (auto simp: rounds_ok_def run_rounds_append)
qed

end

end
