(* ===== verification/Fd_Select.thy ===== *)
theory Fd_Select
  imports Fd_Watcher
begin

text \<open>
  The watcher on \<open>select\<close>. \<open>select\<close> looks at the descriptors below its first argument and leaves of
  the two sets those that are ready. It implements the exact interface.
\<close>

record select_state =
  se_nfiles :: nat
  se_master_r :: "nat set"
  se_master_w :: "nat set"
  se_working_r :: "nat set"
  se_working_w :: "nat set"
  se_fds :: "int list"
  se_fdidx :: "int list"
  se_n :: nat
  se_maxfd :: int
  se_maxfd_changed :: bool

definition select_init :: "nat \<Rightarrow> select_state" where
  "select_init nf = \<lparr>se_nfiles = nf, se_master_r = {}, se_master_w = {}, se_working_r = {}, se_working_w = {},
     se_fds = replicate nf (-1), se_fdidx = replicate nf (-1), se_n = 0, se_maxfd = -1, se_maxfd_changed = False\<rparr>"

definition select_add_fd :: "nat \<Rightarrow> select_state \<Rightarrow> select_state" where
  "select_add_fd fd s =
     (if se_n s \<ge> se_nfiles s then s
      else s\<lparr>se_fds := (se_fds s)[se_n s := int fd], se_maxfd := (if int fd > se_maxfd s then int fd else se_maxfd s),
             se_fdidx := (se_fdidx s)[fd := int (se_n s)], se_n := se_n s + 1\<rparr>)"

definition select_set_fd :: "nat \<Rightarrow> interest \<Rightarrow> select_state \<Rightarrow> stop + select_state" where
  "select_set_fd fd rw s = Inr (case rw of
     FDW_READ \<Rightarrow> s\<lparr>se_master_r := insert fd (se_master_r s)\<rparr>
   | FDW_WRITE \<Rightarrow> s\<lparr>se_master_w := insert fd (se_master_w s)\<rparr>)"

definition select_zero :: "select_state \<Rightarrow> select_state" where
  "select_zero s = s\<lparr>se_master_r := {}, se_master_w := {}, se_n := 0, se_maxfd_changed := False, se_maxfd := -1\<rparr>"

definition select_del_fd :: "nat \<Rightarrow> select_state \<Rightarrow> select_state" where
  "select_del_fd fd s =
     (let idx = se_fdidx s ! fd in
      if idx < 0 \<or> idx \<ge> int (se_nfiles s) then s
      else let idx = nat idx;
               n = se_n s - 1;
               fds = (se_fds s)[idx := se_fds s ! n];
               fdidx = (se_fdidx s)[nat (fds ! idx) := int idx] in
           s\<lparr>se_n := n, se_fds := fds[n := -1], se_fdidx := fdidx[fd := -1],
             se_master_r := se_master_r s - {fd}, se_master_w := se_master_w s - {fd},
             se_maxfd_changed := (int fd \<ge> se_maxfd s \<or> se_maxfd_changed s)\<rparr>)"

definition select_get_maxfd :: "select_state \<Rightarrow> select_state" where
  "select_get_maxfd s =
     (if se_maxfd_changed s
      then s\<lparr>se_maxfd := fold (\<lambda>fd m. if fd > m then fd else m) (take (se_n s) (se_fds s)) (-1), se_maxfd_changed := False\<rparr>
      else s)"

definition kernel_select :: "int \<Rightarrow> (nat \<Rightarrow> bool) \<Rightarrow> nat set \<Rightarrow> nat set" where
  "kernel_select nfds ready fds = {fd \<in> fds. int fd < nfds \<longrightarrow> ready fd}"

definition select_watch :: "readiness \<Rightarrow> select_state \<Rightarrow> select_state" where
  "select_watch ready s =
     (let s = select_get_maxfd s; nfds = se_maxfd s + 1 in
      s\<lparr>se_working_r := kernel_select nfds (\<lambda>fd. ready fd FDW_READ) (se_master_r s),
        se_working_w := kernel_select nfds (\<lambda>fd. ready fd FDW_WRITE) (se_master_w s)\<rparr>)"

definition select_check_fd :: "select_state \<Rightarrow> nat \<Rightarrow> interest \<Rightarrow> bool" where
  "select_check_fd s fd rw = (case rw of FDW_READ \<Rightarrow> fd \<in> se_working_r s | FDW_WRITE \<Rightarrow> fd \<in> se_working_w s)"

section \<open>It implements the interface\<close>

definition select_fd_list :: "select_state \<Rightarrow> int list" where
  "select_fd_list s = take (se_n s) (se_fds s)"

text \<open>The table lists the descriptors once, the index of each is its place, and the largest is known
  unless it has to be looked for.\<close>

definition select_inv :: "nat \<Rightarrow> select_state \<Rightarrow> bool" where
  "select_inv nf s \<longleftrightarrow> se_nfiles s = nf \<and> length (se_fds s) = nf \<and> length (se_fdidx s) = nf \<and> se_n s \<le> nf
     \<and> distinct (select_fd_list s)
     \<and> (\<forall>i < se_n s. 0 \<le> se_fds s ! i \<and> se_fds s ! i < int nf \<and> se_fdidx s ! nat (se_fds s ! i) = int i)
     \<and> int ` (se_master_r s \<union> se_master_w s) \<subseteq> set (select_fd_list s)
     \<and> (se_maxfd_changed s \<or> (\<forall>fd\<in>set (select_fd_list s). fd \<le> se_maxfd s))"

definition select_watched :: "select_state \<Rightarrow> nat \<Rightarrow> interest set option" where
  "select_watched s fd = (if int fd \<in> set (select_fd_list s)
     then Some ((if fd \<in> se_master_r s then {FDW_READ} else {}) \<union> (if fd \<in> se_master_w s then {FDW_WRITE} else {}))
     else None)"

lemma select_init_inv: "select_inv nf (select_init nf)"
  by (simp add: select_inv_def select_init_def select_fd_list_def)

lemma fd_list_nth: "select_inv nf s \<Longrightarrow> fd \<in> set (select_fd_list s) \<Longrightarrow> \<exists>i < se_n s. se_fds s ! i = fd"
  by (auto simp: select_fd_list_def in_set_conv_nth select_inv_def)

lemma fd_list_range: "select_inv nf s \<Longrightarrow> fd \<in> set (select_fd_list s) \<Longrightarrow> 0 \<le> fd \<and> fd < int nf"
  using fd_list_nth [of nf s fd] unfolding select_inv_def by blast

text \<open>A descriptor in range that is not listed leaves room for it.\<close>

lemma room:
  assumes "distinct xs" and "\<forall>x\<in>set xs. 0 \<le> x \<and> x < int nf" and "int fd \<notin> set xs" and "fd < nf"
  shows "length xs < nf"
proof -
  have "set (int fd # xs) \<subseteq> {0..<int nf}" using assms(2,4) by auto
  then have "card (set (int fd # xs)) \<le> nf" using card_mono [of "{0..<int nf}"] by fastforce
  then show ?thesis using assms(1,3) by (simp add: distinct_card)
qed

lemma select_add_law:
  assumes "select_inv nf s" and "fd < nf" and "select_watched s fd = None"
  shows "select_inv nf (select_add_fd fd s) \<and> select_watched (select_add_fd fd s) = (select_watched s)(fd \<mapsto> {})"
proof -
  let ?t = "select_add_fd fd s"
  have new: "int fd \<notin> set (select_fd_list s)" using assms(3) by (auto simp: select_watched_def split: if_splits)
  have d: "distinct (select_fd_list s)" using assms(1) by (simp add: select_inv_def)
  have len: "length (select_fd_list s) = se_n s" using assms(1) by (simp add: select_fd_list_def select_inv_def)
  have n: "se_n s < nf" using room [OF d _ new assms(2)] fd_list_range [OF assms(1)] len by auto
  have t: "?t = s\<lparr>se_fds := (se_fds s)[se_n s := int fd], se_maxfd := (if int fd > se_maxfd s then int fd else se_maxfd s),
             se_fdidx := (se_fdidx s)[fd := int (se_n s)], se_n := se_n s + 1\<rparr>"
    using n assms(1) by (simp add: select_add_fd_def select_inv_def)
  have l: "select_fd_list ?t = select_fd_list s @ [int fd]"
    using n assms(1) by (simp add: t select_fd_list_def select_inv_def take_Suc_conv_app_nth)
  have old: "0 \<le> se_fds s ! i" "se_fds s ! i < int nf" "se_fdidx s ! nat (se_fds s ! i) = int i" "nat (se_fds s ! i) \<noteq> fd"
    if "i < se_n s" for i
  proof -
    show 1: "0 \<le> se_fds s ! i" "se_fds s ! i < int nf" "se_fdidx s ! nat (se_fds s ! i) = int i"
      using assms(1) that by (simp_all add: select_inv_def)
    have "se_fds s ! i \<in> set (select_fd_list s)" using that len by (metis nth_mem nth_take select_fd_list_def)
    then show "nat (se_fds s ! i) \<noteq> fd" using new 1(1) by auto
  qed
  have "select_inv nf ?t"
    using assms(1,2) n new d old l unfolding select_inv_def l
    by (auto simp: t nth_list_update less_Suc_eq)
  moreover have "fd \<notin> se_master_r s" "fd \<notin> se_master_w s" using assms(1) new by (auto simp: select_inv_def)
  then have "select_watched ?t = (select_watched s)(fd \<mapsto> {})"
    unfolding select_watched_def l by (auto simp: fun_eq_iff t)
  ultimately show ?thesis by blast
qed

lemma select_set_law:
  assumes "select_inv nf s" and "select_watched s fd = Some I"
  shows "\<exists>t. select_set_fd fd rw s = Inr t \<and> select_inv nf t \<and> select_watched t = (select_watched s)(fd \<mapsto> insert rw I)"
proof -
  let ?t = "case rw of FDW_READ \<Rightarrow> s\<lparr>se_master_r := insert fd (se_master_r s)\<rparr>
     | FDW_WRITE \<Rightarrow> s\<lparr>se_master_w := insert fd (se_master_w s)\<rparr>"
  have fd: "int fd \<in> set (select_fd_list s)" using assms(2) by (auto simp: select_watched_def split: if_splits)
  have list: "select_fd_list ?t = select_fd_list s" by (cases rw) (simp_all add: select_fd_list_def)
  have "select_inv nf ?t"
    using assms(1) fd unfolding select_inv_def list by (cases rw) simp_all
  moreover have "select_watched ?t = (select_watched s)(fd \<mapsto> insert rw I)"
  proof
    fix x
    show "select_watched ?t x = ((select_watched s)(fd \<mapsto> insert rw I)) x"
      using fd assms(2) unfolding select_watched_def list by (cases rw; cases "x = fd") (auto split: if_splits)
  qed
  ultimately show ?thesis by (simp add: select_set_fd_def)
qed

lemma select_zero_law: "select_inv nf s \<Longrightarrow> select_inv nf (select_zero s) \<and> select_watched (select_zero s) = (\<lambda>fd. None)"
  by (auto simp: select_zero_def select_inv_def select_watched_def select_fd_list_def fun_eq_iff)

lemma fold_max: "x \<in> set (m # xs) \<Longrightarrow> x \<le> fold (\<lambda>fd m. if fd > m then fd else m) xs (m :: int)"
proof -
  have "(\<lambda>fd m. if fd > m then fd else (m :: int)) = max" by (auto simp: fun_eq_iff max_def)
  then show "x \<in> set (m # xs) \<Longrightarrow> x \<le> fold (\<lambda>fd m. if fd > m then fd else m) xs m"
    using Max_ge [of "set (m # xs)" x] by (simp only: Max.set_eq_fold) simp
qed

lemma get_maxfd_bound:
  assumes "select_inv nf s" and "fd \<in> set (select_fd_list s)"
  shows "fd \<le> se_maxfd (select_get_maxfd s)"
  using assms fold_max [of fd "-1" "select_fd_list s"]
  by (auto simp: select_get_maxfd_def select_inv_def select_fd_list_def)

lemma get_maxfd_inv: "select_inv nf s \<Longrightarrow> select_inv nf (select_get_maxfd s)"
  using get_maxfd_bound [of nf s] by (auto simp: select_get_maxfd_def select_inv_def select_fd_list_def)

lemma select_wait_law: "select_inv nf s \<Longrightarrow> select_inv nf (select_watch ready s)"
  using get_maxfd_inv [of nf s] by (simp add: select_watch_def Let_def select_inv_def select_fd_list_def)

lemma get_maxfd_masters [simp]:
  "se_master_r (select_get_maxfd s) = se_master_r s" "se_master_w (select_get_maxfd s) = se_master_w s"
  by (simp_all add: select_get_maxfd_def)

lemma select_check_law:
  assumes "select_inv nf s" and "select_watched s fd = Some I"
  shows "select_check_fd (select_watch ready s) fd rw \<longleftrightarrow> rw \<in> I \<and> ready fd rw"
proof -
  have "int fd < se_maxfd (select_get_maxfd s) + 1"
    using get_maxfd_bound [OF assms(1), of "int fd"] assms(2) by (auto simp: select_watched_def split: if_splits)
  then show ?thesis using assms(2)
    by (cases rw) (auto simp: select_check_fd_def select_watch_def Let_def kernel_select_def select_watched_def split: if_splits)
qed

lemma select_unwatched_law:
  "select_inv nf s \<Longrightarrow> select_watched s fd = None \<Longrightarrow> \<not> select_check_fd (select_watch ready s) fd rw"
  by (cases rw) (auto simp: select_check_fd_def select_watch_def Let_def kernel_select_def select_watched_def
      select_inv_def split: if_splits)

text \<open>Forgetting a descriptor moves the last one to its place.\<close>

lemma select_del_law:
  assumes "select_inv nf s" and "select_watched s fd = Some I"
  shows "select_inv nf (select_del_fd fd s) \<and> select_watched (select_del_fd fd s) = (select_watched s)(fd := None)"
proof -
  let ?t = "select_del_fd fd s"
  let ?n = "se_n s - 1"
  have "int fd \<in> set (select_fd_list s)" using assms(2) by (auto simp: select_watched_def split: if_splits)
  then obtain k where k: "k < se_n s" "se_fds s ! k = int fd" using fd_list_nth [OF assms(1)] by blast
  note inv = assms(1) [unfolded select_inv_def]
  have idx: "se_fdidx s ! fd = int k" using inv k by force
  have fd: "fd < nf" using inv k by force
  have t: "?t = s\<lparr>se_n := ?n, se_fds := (se_fds s)[k := se_fds s ! ?n, ?n := -1],
      se_fdidx := (se_fdidx s)[nat (se_fds s ! ?n) := int k, fd := -1],
      se_master_r := se_master_r s - {fd}, se_master_w := se_master_w s - {fd},
      se_maxfd_changed := (int fd \<ge> se_maxfd s \<or> se_maxfd_changed s)\<rparr>"
    using idx k(1) inv by (auto simp: select_del_fd_def Let_def)
  have len: "length (se_fds s) = nf" "se_n s \<le> nf" "distinct (take (se_n s) (se_fds s))"
    using inv by (simp_all add: select_fd_list_def)
  have neq: "se_fds s ! i \<noteq> se_fds s ! j" if "i < se_n s" "j < se_n s" "i \<noteq> j" for i j
    using that len nth_eq_iff_index_eq [OF len(3), of i j] by simp
  have entry: "i < ?n \<Longrightarrow> se_fds ?t ! i = (if i = k then se_fds s ! ?n else se_fds s ! i)" for i
    using k(1) len by (auto simp: t nth_list_update)
  have "set (select_fd_list ?t) = set (select_fd_list s) - {int fd}"
  proof (rule set_eqI)
    fix x
    have "x \<in> set (select_fd_list ?t) \<longleftrightarrow> (\<exists>i < ?n. se_fds ?t ! i = x)"
      using len by (auto simp: select_fd_list_def in_set_conv_nth t)
    also have "\<dots> \<longleftrightarrow> (\<exists>j < se_n s. se_fds s ! j = x \<and> j \<noteq> k)"
    proof
      assume "\<exists>i < ?n. se_fds ?t ! i = x"
      then obtain i where i: "i < ?n" "se_fds ?t ! i = x" by blast
      show "\<exists>j < se_n s. se_fds s ! j = x \<and> j \<noteq> k"
        by (rule exI [of _ "if i = k then ?n else i"]) (use i entry [OF i(1)] in auto)
    next
      assume "\<exists>j < se_n s. se_fds s ! j = x \<and> j \<noteq> k"
      then obtain j where j: "j < se_n s" "se_fds s ! j = x" "j \<noteq> k" by blast
      show "\<exists>i < ?n. se_fds ?t ! i = x"
        by (rule exI [of _ "if j = ?n then k else j"]) (use j k(1) entry [of k] entry [of j] in auto)
    qed
    also have "\<dots> \<longleftrightarrow> x \<in> set (select_fd_list s) - {int fd}"
      using k neq [OF _ k(1)] len by (auto simp: select_fd_list_def in_set_conv_nth)
    finally show "x \<in> set (select_fd_list ?t) \<longleftrightarrow> x \<in> set (select_fd_list s) - {int fd}" .
  qed
  note fds = this
  have "distinct (select_fd_list ?t)"
    unfolding distinct_conv_nth
  proof (intro allI impI)
    fix i j
    assume "i < length (select_fd_list ?t)" "j < length (select_fd_list ?t)" "i \<noteq> j"
    then have ij: "i < ?n" "j < ?n" "i \<noteq> j" using len by (simp_all add: select_fd_list_def t)
    then show "select_fd_list ?t ! i \<noteq> select_fd_list ?t ! j"
      using entry [OF ij(1)] entry [OF ij(2)] neq [of i j] neq [of ?n j] neq [of i ?n]
      by (auto simp: select_fd_list_def t)
  qed
  moreover have "0 \<le> se_fds ?t ! i \<and> se_fds ?t ! i < int nf \<and> se_fdidx ?t ! nat (se_fds ?t ! i) = int i" if i: "i < ?n" for i
  proof -
    let ?j = "if i = k then ?n else i"
    have j: "?j < se_n s" "?j \<noteq> k \<or> k = ?n" using i k(1) by auto
    have e: "se_fds ?t ! i = se_fds s ! ?j" using entry [OF i] by auto
    have r: "0 \<le> se_fds s ! ?j" "se_fds s ! ?j < int nf" "se_fdidx s ! nat (se_fds s ! ?j) = int ?j"
      using inv j(1) by auto
    have "se_fds s ! ?j \<noteq> int fd" using neq [of ?j k] j(1) k i by (auto split: if_splits)
    then have other: "nat (se_fds s ! ?j) \<noteq> fd" using r(1) by auto
    have last: "nat (se_fds s ! ?j) = nat (se_fds s ! ?n) \<longleftrightarrow> i = k"
    proof
      assume "nat (se_fds s ! ?j) = nat (se_fds s ! ?n)"
      moreover have "0 \<le> se_fds s ! ?n" using inv i by auto
      ultimately have "se_fds s ! ?j = se_fds s ! ?n" using r(1) by simp
      then have "?j = ?n" using neq [of ?j ?n] j(1) i by (metis diff_less less_nat_zero_code neq0_conv zero_less_one)
      then show "i = k" using i by (auto split: if_splits)
    qed simp
    have "se_fdidx ?t ! nat (se_fds s ! ?j) = int i"
      using inv r last other fd by (auto simp: t nth_list_update nat_less_iff)
    then show ?thesis using e r by simp
  qed
  moreover have "int ` (se_master_r ?t \<union> se_master_w ?t) \<subseteq> set (select_fd_list ?t)"
    unfolding fds using inv by (auto simp: t)
  moreover have "se_maxfd_changed ?t \<or> (\<forall>x\<in>set (select_fd_list ?t). x \<le> se_maxfd ?t)"
    unfolding fds using inv by (auto simp: t)
  ultimately have "select_inv nf ?t"
    using inv len unfolding select_inv_def by (auto simp: t)
  moreover have "select_watched ?t = (select_watched s)(fd := None)"
    unfolding select_watched_def fds by (auto simp: fun_eq_iff t)
  ultimately show ?thesis by blast
qed

text \<open>The watcher for \<open>nf\<close> descriptors.\<close>

interpretation select_watcher: exact_fd_watcher nf select_zero select_add_fd select_set_fd select_watch
    "\<lambda>ready. ready" select_check_fd "select_inv nf" select_watched select_del_fd
  for nf
  by unfold_locales
    (simp_all add: select_zero_law select_add_law select_set_law select_wait_law select_check_law
      select_unwatched_law select_del_law)

text \<open>C30: on \<open>select\<close>, after any number of rounds of the main loop, a descriptor is reported for an
  interest exactly when the last round watched it for that interest and the kernel found it ready.
\<close>

theorem select_reports_exactly:
  assumes "rounds_ok nf (rounds @ [(fds, ready)])"
  shows "\<exists>t. run_rounds nf select_zero select_add_fd select_set_fd select_watch (rounds @ [(fds, ready)]) (select_init nf) = Inr t
     \<and> (\<forall>fd rw. fdwatch_check nf select_check_fd t (int fd) rw \<longleftrightarrow>
          (\<exists>rws. (fd, rws) \<in> set fds \<and> rw \<in> set rws) \<and> ready fd rw)"
  by (rule select_watcher.last_round_exact [OF select_init_inv assms])

lemma select_reports_exactly_witness:
  "\<exists>t. run_rounds 8 select_zero select_add_fd select_set_fd select_watch
       ([([(3, [FDW_WRITE])], \<lambda>fd rw. True)] @ [([(3, [FDW_READ]), (5, [FDW_WRITE])], \<lambda>fd rw. True)]) (select_init 8) = Inr t
     \<and> fdwatch_check 8 select_check_fd t (int 3) FDW_READ \<and> \<not> fdwatch_check 8 select_check_fd t (int 3) FDW_WRITE"
proof -
  have "rounds_ok 8 ([([(3, [FDW_WRITE])], \<lambda>fd rw. True)] @ [([(3, [FDW_READ]), (5, [FDW_WRITE])], \<lambda>(fd :: nat) (rw :: interest). True)])"
    by (simp add: rounds_ok_def)
  then obtain t where t: "run_rounds 8 select_zero select_add_fd select_set_fd select_watch
       ([([(3, [FDW_WRITE])], \<lambda>fd rw. True)] @ [([(3, [FDW_READ]), (5, [FDW_WRITE])], \<lambda>fd rw. True)]) (select_init 8) = Inr t"
    "\<And>fd rw. fdwatch_check 8 select_check_fd t (int fd) rw \<longleftrightarrow>
       (\<exists>rws. (fd, rws) \<in> set [(3, [FDW_READ]), (5, [FDW_WRITE])] \<and> rw \<in> set rws)"
    by (auto dest: select_reports_exactly simp del: append.simps)
  show ?thesis by (rule exI [of _ t]) (simp only: t, simp)
qed

end
