(* ===== verification/Fd_Poll.thy ===== *)
theory Fd_Poll
  imports Fd_Watcher
begin

text \<open>
  The watcher on \<open>poll\<close>, the one Unix builds use. It implements the interface for descriptors without
  a pending error; a descriptor with one is never reported.
\<close>

unbundle bit_operations_syntax

record pollfd =
  p_fd :: int
  p_events :: "16 word"
  p_revents :: "16 word"

record poll_state =
  po_nfiles :: nat
  po_fds :: "pollfd list"
  po_n :: nat
  po_fdidx :: "int list"

definition POLLIN :: "16 word" where "POLLIN = 1"
definition POLLOUT :: "16 word" where "POLLOUT = 4"
definition POLLERR :: "16 word" where "POLLERR = 8"

definition no_pollfd :: pollfd where
  "no_pollfd = \<lparr>p_fd = -1, p_events = 0, p_revents = 0\<rparr>"

text \<open>The first \<open>nf\<close> entries of both tables, whatever descriptors they are for.\<close>

definition poll_zero_out :: "nat \<Rightarrow> poll_state \<Rightarrow> poll_state" where
  "poll_zero_out nf s = s\<lparr>po_fds := replicate nf no_pollfd @ drop nf (po_fds s),
     po_fdidx := replicate nf (-1) @ drop nf (po_fdidx s)\<rparr>"

text \<open>\<open>junk\<close> is what \<open>malloc\<close> left in the tables.\<close>

definition poll_init :: "nat \<Rightarrow> pollfd list \<Rightarrow> int list \<Rightarrow> poll_state" where
  "poll_init nf junk junkidx = poll_zero_out nf \<lparr>po_nfiles = nf, po_fds = junk, po_n = 0, po_fdidx = junkidx\<rparr>"

definition poll_add_fd :: "nat \<Rightarrow> poll_state \<Rightarrow> poll_state" where
  "poll_add_fd fd s =
     (if po_n s \<ge> po_nfiles s then s
      else s\<lparr>po_fds := (po_fds s)[po_n s := (po_fds s ! po_n s)\<lparr>p_fd := int fd\<rparr>],
             po_fdidx := (po_fdidx s)[fd := int (po_n s)], po_n := po_n s + 1\<rparr>)"

definition poll_del_fd :: "nat \<Rightarrow> poll_state \<Rightarrow> poll_state" where
  "poll_del_fd fd s =
     (let idx = po_fdidx s ! fd in
      if idx < 0 \<or> idx \<ge> int (po_nfiles s) then s
      else let idx = nat idx;
               n = po_n s - 1;
               fds = (po_fds s)[idx := (po_fds s ! idx)\<lparr>p_events := 0, p_revents := 0\<rparr>];
               fds = fds[idx := fds ! n];
               fdidx = (po_fdidx s)[nat (p_fd (fds ! idx)) := int idx] in
           s\<lparr>po_n := n, po_fds := fds[n := (fds ! n)\<lparr>p_fd := -1\<rparr>], po_fdidx := fdidx[fd := -1]\<rparr>)"

definition poll_mask :: "interest \<Rightarrow> 16 word" where
  "poll_mask rw = (case rw of FDW_READ \<Rightarrow> POLLIN | FDW_WRITE \<Rightarrow> POLLOUT)"

text \<open>The index is not checked.\<close>

definition poll_set_fd :: "nat \<Rightarrow> interest \<Rightarrow> poll_state \<Rightarrow> stop + poll_state" where
  "poll_set_fd fd rw s =
     (let fdidx = po_fdidx s ! fd in
      if fdidx < 0 \<or> fdidx \<ge> int (po_nfiles s) then Inl OutOfBounds
      else Inr (s\<lparr>po_fds := (po_fds s)[nat fdidx := (po_fds s ! nat fdidx)
             \<lparr>p_events := p_events (po_fds s ! nat fdidx) OR poll_mask rw\<rparr>]\<rparr>))"

definition poll_zero :: "poll_state \<Rightarrow> poll_state" where
  "poll_zero s = (poll_zero_out (po_n s) s)\<lparr>po_n := 0\<rparr>"

text \<open>\<open>poll\<close> reports the events that were asked for and are ready, and errors unasked.\<close>

definition kernel_poll :: "(nat \<Rightarrow> bool) \<Rightarrow> readiness \<Rightarrow> pollfd \<Rightarrow> pollfd" where
  "kernel_poll failed ready p =
     (let fd = nat (p_fd p) in
      p\<lparr>p_revents := ((if ready fd FDW_READ then POLLIN else 0) OR (if ready fd FDW_WRITE then POLLOUT else 0)) AND p_events p
          OR (if failed fd then POLLERR else 0)\<rparr>)"

definition poll_watch :: "(nat \<Rightarrow> bool) \<Rightarrow> readiness \<Rightarrow> poll_state \<Rightarrow> poll_state" where
  "poll_watch failed ready s = s\<lparr>po_fds := map (kernel_poll failed ready) (take (po_n s) (po_fds s)) @ drop (po_n s) (po_fds s)\<rparr>"

definition poll_check_fd :: "poll_state \<Rightarrow> nat \<Rightarrow> interest \<Rightarrow> bool" where
  "poll_check_fd s fd rw =
     (let fdidx = po_fdidx s ! fd in
      if fdidx < 0 \<or> fdidx \<ge> int (po_nfiles s) then False
      else if p_revents (po_fds s ! nat fdidx) AND POLLERR \<noteq> 0 then False
      else p_revents (po_fds s ! nat fdidx) AND poll_mask rw \<noteq> 0)"

section \<open>Masks\<close>

definition asks :: "16 word \<Rightarrow> interest \<Rightarrow> bool" where
  "asks m rw \<longleftrightarrow> m AND poll_mask rw \<noteq> 0"

lemma mask_bits: "m AND POLLIN \<noteq> 0 \<longleftrightarrow> bit m 0" "m AND POLLOUT \<noteq> 0 \<longleftrightarrow> bit m 2" "m AND POLLERR \<noteq> 0 \<longleftrightarrow> bit m 3"
  using bit_iff_and_push_bit_not_eq_0 [of m 0] bit_iff_and_push_bit_not_eq_0 [of m 2] bit_iff_and_push_bit_not_eq_0 [of m 3]
  by (simp_all add: POLLIN_def POLLOUT_def POLLERR_def push_bit_eq_mult)

lemma asks_bit: "asks m rw = bit m (case rw of FDW_READ \<Rightarrow> 0 | FDW_WRITE \<Rightarrow> 2)"
  by (cases rw) (simp_all add: asks_def poll_mask_def mask_bits)

lemma poll_bits: "bit POLLIN n \<longleftrightarrow> n = 0" "bit POLLOUT n \<longleftrightarrow> n = 2" "bit POLLERR n \<longleftrightarrow> n = 3"
  using bit_exp_iff [where 'a = "16 word", of 2 n] bit_exp_iff [where 'a = "16 word", of 3 n]
  by (auto simp: POLLIN_def POLLOUT_def POLLERR_def bit_simps)

lemma asks_simps [simp]: "\<not> asks 0 rw" "asks (m OR poll_mask rw) rw' \<longleftrightarrow> rw' = rw \<or> asks m rw'"
  by (cases rw; cases rw'; simp add: asks_bit poll_mask_def bit_simps poll_bits)+

lemma kernel_revents:
  "asks (p_revents (kernel_poll failed ready p)) rw \<longleftrightarrow> ready (nat (p_fd p)) rw \<and> asks (p_events p) rw"
  "p_revents (kernel_poll failed ready p) AND POLLERR \<noteq> 0 \<longleftrightarrow> failed (nat (p_fd p))"
  by (cases rw; simp add: kernel_poll_def Let_def asks_bit mask_bits bit_simps poll_bits)+

section \<open>It implements the interface\<close>

definition poll_inv :: "nat \<Rightarrow> poll_state \<Rightarrow> bool" where
  "poll_inv nf s \<longleftrightarrow> po_nfiles s = nf \<and> length (po_fds s) = nf \<and> length (po_fdidx s) = nf \<and> po_n s \<le> nf
     \<and> (\<forall>i < po_n s. 0 \<le> p_fd (po_fds s ! i) \<and> p_fd (po_fds s ! i) < int nf
          \<and> po_fdidx s ! nat (p_fd (po_fds s ! i)) = int i)
     \<and> (\<forall>i < nf. po_n s \<le> i \<longrightarrow> p_events (po_fds s ! i) = 0)"

text \<open>The entry of a descriptor.\<close>

definition poll_entry :: "poll_state \<Rightarrow> nat \<Rightarrow> nat option" where
  "poll_entry s fd =
     (let k = po_fdidx s ! fd in
      if fd < po_nfiles s \<and> 0 \<le> k \<and> k < int (po_n s) \<and> p_fd (po_fds s ! nat k) = int fd then Some (nat k) else None)"

definition poll_watched :: "poll_state \<Rightarrow> nat \<Rightarrow> interest set option" where
  "poll_watched s fd = map_option (\<lambda>k. {rw. asks (p_events (po_fds s ! k)) rw}) (poll_entry s fd)"

lemma poll_init_inv: "length junk = nf \<Longrightarrow> length junkidx = nf \<Longrightarrow> poll_inv nf (poll_init nf junk junkidx)"
  by (simp add: poll_inv_def poll_init_def poll_zero_out_def no_pollfd_def)

lemma entry_iff:
  "poll_inv nf s \<Longrightarrow> poll_entry s fd = Some k \<longleftrightarrow> k < po_n s \<and> p_fd (po_fds s ! k) = int fd"
  by (auto simp: poll_entry_def poll_inv_def Let_def)

lemma poll_zero_law: "poll_inv nf s \<Longrightarrow> poll_inv nf (poll_zero s) \<and> poll_watched (poll_zero s) = (\<lambda>fd. None)"
  by (auto simp: poll_zero_def poll_zero_out_def poll_inv_def poll_watched_def poll_entry_def Let_def nth_append
      no_pollfd_def fun_eq_iff)

lemma entries_room:
  assumes "poll_inv nf s" and "fd < nf" and "poll_entry s fd = None"
  shows "po_n s < nf"
proof -
  let ?xs = "map (\<lambda>i. p_fd (po_fds s ! i)) [0..<po_n s]"
  have "inj_on (\<lambda>i. p_fd (po_fds s ! i)) {0..<po_n s}"
    using assms(1) by (intro inj_onI) (metis atLeastLessThan_iff of_nat_eq_iff poll_inv_def)
  then have "distinct ?xs" by (simp add: distinct_map)
  moreover have "p_fd (po_fds s ! k) \<noteq> int fd" if "k < po_n s" for k
    using assms(3) entry_iff [OF assms(1), of fd k] that by simp
  then have "int fd \<notin> set ?xs" by force
  ultimately have "distinct (int fd # ?xs)" by simp
  then have "card (set (int fd # ?xs)) = Suc (po_n s)" by (simp only: distinct_card) simp
  moreover have "set (int fd # ?xs) \<subseteq> {0..<int nf}" using assms(1,2) by (auto simp: poll_inv_def)
  then have "card (set (int fd # ?xs)) \<le> nf" using card_mono [of "{0..<int nf}"] by fastforce
  ultimately show ?thesis by simp
qed

lemma poll_add_law:
  assumes "poll_inv nf s" and "fd < nf" and "poll_watched s fd = None"
  shows "poll_inv nf (poll_add_fd fd s) \<and> poll_watched (poll_add_fd fd s) = (poll_watched s)(fd \<mapsto> {})"
proof -
  let ?t = "poll_add_fd fd s"
  note inv = assms(1) [unfolded poll_inv_def]
  have none: "poll_entry s fd = None" using assms(3) by (simp add: poll_watched_def)
  have n: "po_n s < nf" by (rule entries_room [OF assms(1,2) none])
  have t: "?t = s\<lparr>po_fds := (po_fds s)[po_n s := (po_fds s ! po_n s)\<lparr>p_fd := int fd\<rparr>],
      po_fdidx := (po_fdidx s)[fd := int (po_n s)], po_n := po_n s + 1\<rparr>"
    using n inv by (simp add: poll_add_fd_def)
  have other: "nat (p_fd (po_fds s ! i)) \<noteq> fd \<and> fd \<noteq> nat (p_fd (po_fds s ! i))" if "i < po_n s" for i
    using none entry_iff [OF assms(1), of fd i] that inv by auto
  have i: "poll_inv nf ?t"
    using inv n assms(2) other unfolding poll_inv_def t by (simp add: nth_list_update less_Suc_eq)
  have "poll_watched ?t x = ((poll_watched s)(fd \<mapsto> {})) x" for x
  proof (cases "x = fd")
    case True
    have "poll_entry ?t fd = Some (po_n s)" using n inv by (simp add: entry_iff [OF i]) (simp add: t)
    then show ?thesis using True n inv by (simp add: poll_watched_def) (simp add: t)
  next
    case False
    have "poll_entry ?t x = Some k \<longleftrightarrow> poll_entry s x = Some k" for k
      unfolding entry_iff [OF i] entry_iff [OF assms(1)] unfolding t using False n inv by (auto simp: nth_list_update less_Suc_eq)
    then have "poll_entry ?t x = poll_entry s x" by (metis not_Some_eq)
    moreover have "p_events (po_fds ?t ! k) = p_events (po_fds s ! k)" for k
      by (cases "k = po_n s") (use n inv in \<open>simp_all add: t\<close>)
    ultimately show ?thesis using False by (simp add: poll_watched_def)
  qed
  then show ?thesis using i by blast
qed

lemma poll_set_law:
  assumes "poll_inv nf s" and "poll_watched s fd = Some I"
  shows "\<exists>t. poll_set_fd fd rw s = Inr t \<and> poll_inv nf t \<and> poll_watched t = (poll_watched s)(fd \<mapsto> insert rw I)"
proof -
  note inv = assms(1) [unfolded poll_inv_def]
  obtain k where k: "poll_entry s fd = Some k" "I = {rw. asks (p_events (po_fds s ! k)) rw}"
    using assms(2) by (auto simp: poll_watched_def)
  have kn: "k < po_n s" "p_fd (po_fds s ! k) = int fd" "po_fdidx s ! fd = int k"
    using k(1) entry_iff [OF assms(1)] inv by force+
  let ?t = "s\<lparr>po_fds := (po_fds s)[k := (po_fds s ! k)\<lparr>p_events := p_events (po_fds s ! k) OR poll_mask rw\<rparr>]\<rparr>"
  have set: "poll_set_fd fd rw s = Inr ?t" using kn inv by (simp add: poll_set_fd_def Let_def)
  have fds: "p_fd (po_fds ?t ! i) = p_fd (po_fds s ! i)" for i
    by (cases "i = k") (use kn inv in simp_all)
  have i: "poll_inv nf ?t" using inv kn unfolding poll_inv_def by (simp add: nth_list_update)
  have same: "poll_entry ?t x = poll_entry s x" for x
    unfolding poll_entry_def using fds by (simp add: Let_def)
  have "poll_watched ?t x = ((poll_watched s)(fd \<mapsto> insert rw I)) x" for x
  proof (cases "x = fd")
    case True
    then show ?thesis using k kn inv by (auto simp: poll_watched_def same)
  next
    case False
    have "po_fds ?t ! j = po_fds s ! j" if "poll_entry s x = Some j" for j
    proof -
      have "p_fd (po_fds s ! j) = int x" using entry_iff [OF assms(1), of x j] that by simp
      then have "j \<noteq> k" using kn(2) False by auto
      then show ?thesis by simp
    qed
    then show ?thesis using False by (cases "poll_entry s x") (simp_all add: poll_watched_def same)
  qed
  then show ?thesis using set i by blast
qed

lemma watch_nth:
  "poll_inv nf s \<Longrightarrow> i < po_n s \<Longrightarrow> po_fds (poll_watch failed ready s) ! i = kernel_poll failed ready (po_fds s ! i)"
  by (simp add: poll_watch_def poll_inv_def nth_append)

lemma kernel_poll_keeps [simp]:
  "p_fd (kernel_poll failed ready p) = p_fd p" "p_events (kernel_poll failed ready p) = p_events p"
  by (simp_all add: kernel_poll_def Let_def)

lemma poll_wait_law: "poll_inv nf s \<Longrightarrow> poll_inv nf (poll_watch failed ready s)"
  by (auto simp: poll_inv_def poll_watch_def nth_append)

text \<open>What a check says of a watched descriptor.\<close>

lemma poll_check_watched:
  assumes "poll_inv nf s" and "poll_watched s fd = Some I"
  shows "poll_check_fd (poll_watch failed ready s) fd rw \<longleftrightarrow> rw \<in> I \<and> ready fd rw \<and> \<not> failed fd"
proof -
  note inv = assms(1) [unfolded poll_inv_def]
  obtain k where k: "poll_entry s fd = Some k" "I = {rw. asks (p_events (po_fds s ! k)) rw}"
    using assms(2) by (auto simp: poll_watched_def)
  have kn: "k < po_n s" "p_fd (po_fds s ! k) = int fd" "po_fdidx s ! fd = int k"
    using k(1) entry_iff [OF assms(1)] inv by force+
  have idx: "po_fdidx (poll_watch failed ready s) = po_fdidx s" "po_nfiles (poll_watch failed ready s) = nf"
    using inv by (simp_all add: poll_watch_def)
  show ?thesis
    using kn k(2) inv kernel_revents [of failed ready "po_fds s ! k"]
    by (simp add: poll_check_fd_def idx watch_nth [OF assms(1) kn(1)] flip: asks_def) auto
qed

text \<open>The watcher for \<open>nf\<close> descriptors. The kernel answers with the failed descriptors and the ready ones.\<close>

definition poll_reported :: "(nat \<Rightarrow> bool) \<times> readiness \<Rightarrow> readiness" where
  "poll_reported = (\<lambda>(failed, ready) fd rw. ready fd rw \<and> \<not> failed fd)"

interpretation poll_watcher: fd_watcher nf poll_zero poll_add_fd poll_set_fd "\<lambda>(failed, ready). poll_watch failed ready"
    poll_reported poll_check_fd "poll_inv nf" poll_watched
  for nf
  by unfold_locales
    (auto simp: poll_zero_law poll_add_law poll_set_law poll_wait_law poll_check_watched poll_reported_def split: prod.splits)



end
