(* ===== verification/Fd_Epoll.thy ===== *)
theory Fd_Epoll
  imports Fd_Watcher
begin

text \<open>
  The watcher on \<open>epoll\<close>. The kernel keeps its own table of the descriptors added; \<open>epoll_zero\<close> does
  not empty it. The watcher does not implement the interface. Edge triggering is left out: whether a
  descriptor is ready is an argument, round by round.
\<close>

unbundle bit_operations_syntax

record epoll_event =
  ev_events :: "32 word"
  ev_fd :: int

record epoll_state =
  ep_nfiles :: nat
  ep_events :: "epoll_event list"
  ep_resulting :: "epoll_event list"
  ep_n :: nat
  ep_fdidx :: "int list"
  ep_kernel :: "(nat \<times> epoll_event) list"

definition EPOLLIN :: "32 word" where "EPOLLIN = 1"
definition EPOLLOUT :: "32 word" where "EPOLLOUT = 4"
definition EPOLLET :: "32 word" where "EPOLLET = 0x80000000"

definition epoll_zero_out :: "nat \<Rightarrow> epoll_state \<Rightarrow> epoll_state" where
  "epoll_zero_out nf s = s\<lparr>ep_fdidx := replicate nf (-1) @ drop nf (ep_fdidx s),
     ep_events := map (\<lambda>e. e\<lparr>ev_events := 0\<rparr>) (take nf (ep_events s)) @ drop nf (ep_events s)\<rparr>"

definition epoll_init :: "nat \<Rightarrow> epoll_event list \<Rightarrow> int list \<Rightarrow> epoll_state" where
  "epoll_init nf junk junkidx = epoll_zero_out nf \<lparr>ep_nfiles = nf, ep_events = junk, ep_resulting = [], ep_n = 0,
     ep_fdidx = junkidx, ep_kernel = []\<rparr>"

text \<open>\<open>epoll_ctl\<close> fails for a descriptor that is already there, or for one that is not; else the kernel
  keeps a copy of the event.\<close>

definition epoll_ctl_add :: "nat \<Rightarrow> epoll_event \<Rightarrow> epoll_state \<Rightarrow> epoll_state \<times> int" where
  "epoll_ctl_add fd e s =
     (if map_of (ep_kernel s) fd \<noteq> None then (s, -1) else (s\<lparr>ep_kernel := ep_kernel s @ [(fd, e)]\<rparr>, 0))"

definition epoll_ctl_mod :: "nat \<Rightarrow> epoll_event \<Rightarrow> epoll_state \<Rightarrow> epoll_state \<times> int" where
  "epoll_ctl_mod fd e s =
     (if map_of (ep_kernel s) fd = None then (s, -1)
      else (s\<lparr>ep_kernel := map (\<lambda>(x, f). (x, if x = fd then e else f)) (ep_kernel s)\<rparr>, 0))"

definition epoll_ctl_del :: "nat \<Rightarrow> epoll_state \<Rightarrow> epoll_state \<times> int" where
  "epoll_ctl_del fd s =
     (if map_of (ep_kernel s) fd = None then (s, -1)
      else (s\<lparr>ep_kernel := filter (\<lambda>(x, f). x \<noteq> fd) (ep_kernel s)\<rparr>, 0))"

definition epoll_add_fd :: "nat \<Rightarrow> epoll_state \<Rightarrow> epoll_state" where
  "epoll_add_fd fd s =
     (if ep_n s \<ge> ep_nfiles s then s
      else let s = s\<lparr>ep_events := (ep_events s)[ep_n s := \<lparr>ev_events = 0, ev_fd = int fd\<rparr>]\<rparr> in
           case epoll_ctl_add fd (ep_events s ! ep_n s) s of (s, ret) \<Rightarrow>
             if ret = -1 then s else s\<lparr>ep_fdidx := (ep_fdidx s)[fd := int (ep_n s)], ep_n := ep_n s + 1\<rparr>)"

definition epoll_del_fd :: "nat \<Rightarrow> epoll_state \<Rightarrow> epoll_state" where
  "epoll_del_fd fd s =
     (let idx = ep_fdidx s ! fd in
      if idx < 0 \<or> idx \<ge> int (ep_nfiles s) then s
      else case epoll_ctl_del fd s of (s, ret) \<Rightarrow>
        if ret = -1 then s
        else s\<lparr>ep_n := ep_n s - 1, ep_events := (ep_events s)[nat idx := (ep_events s ! nat idx)\<lparr>ev_fd := -1\<rparr>],
               ep_fdidx := (ep_fdidx s)[fd := -1]\<rparr>)"

definition epoll_mask :: "interest \<Rightarrow> 32 word" where
  "epoll_mask rw = (case rw of FDW_READ \<Rightarrow> EPOLLIN OR EPOLLET | FDW_WRITE \<Rightarrow> EPOLLOUT)"

definition epoll_set_fd :: "nat \<Rightarrow> interest \<Rightarrow> epoll_state \<Rightarrow> stop + epoll_state" where
  "epoll_set_fd fd rw s =
     (let fdidx = ep_fdidx s ! fd in
      if fdidx < 0 \<or> fdidx \<ge> int (ep_nfiles s) then Inl OutOfBounds
      else let e = ep_events s ! nat fdidx;
               s = s\<lparr>ep_events := (ep_events s)[nat fdidx := e\<lparr>ev_events := ev_events e OR epoll_mask rw\<rparr>]\<rparr> in
           Inr (fst (epoll_ctl_mod fd (ep_events s ! nat fdidx) s)))"

definition epoll_zero :: "epoll_state \<Rightarrow> epoll_state" where
  "epoll_zero s = (epoll_zero_out (ep_n s) s)\<lparr>ep_n := 0\<rparr>"

text \<open>The kernel reports what is ready and asked for, with the copy's number.\<close>

definition kernel_epoll :: "readiness \<Rightarrow> nat \<times> epoll_event \<Rightarrow> epoll_event" where
  "kernel_epoll ready = (\<lambda>(fd, e). e\<lparr>ev_events := ((if ready fd FDW_READ then EPOLLIN else 0)
     OR (if ready fd FDW_WRITE then EPOLLOUT else 0)) AND ev_events e\<rparr>)"

definition epoll_watch :: "readiness \<Rightarrow> epoll_state \<Rightarrow> epoll_state" where
  "epoll_watch ready s = s\<lparr>ep_resulting := filter (\<lambda>e. ev_events e \<noteq> 0) (map (kernel_epoll ready) (ep_kernel s))\<rparr>"

definition epoll_check_fd :: "epoll_state \<Rightarrow> nat \<Rightarrow> interest \<Rightarrow> bool" where
  "epoll_check_fd s fd rw =
     (let fdidx = ep_fdidx s ! fd in
      if fdidx < 0 \<or> fdidx \<ge> int (ep_nfiles s) then False
      else case find (\<lambda>e. ev_fd e = int fd) (ep_resulting s) of
          None \<Rightarrow> False
        | Some e \<Rightarrow> ev_events e AND (case rw of FDW_READ \<Rightarrow> EPOLLIN | FDW_WRITE \<Rightarrow> EPOLLOUT) \<noteq> 0)"

section \<open>A new socket hides an old one\<close>

definition epoll_watch_read :: "nat \<Rightarrow> epoll_state \<Rightarrow> stop + epoll_state" where
  "epoll_watch_read fd s =
     set_all (ep_nfiles s) epoll_set_fd fd [FDW_READ] (fdwatch_add_fd (ep_nfiles s) epoll_add_fd (int fd) s)"

text \<open>What watching does for a socket the kernel does not know, and for one it knows.\<close>

lemma watch_new:
  assumes "fd < ep_nfiles s" and "ep_n s < ep_nfiles s" and "length (ep_events s) = ep_nfiles s"
    and "length (ep_fdidx s) = ep_nfiles s" and "fd \<notin> fst ` set (ep_kernel s)"
  shows "epoll_watch_read fd s = Inr (s\<lparr>ep_events := (ep_events s)[ep_n s := \<lparr>ev_events = EPOLLIN OR EPOLLET, ev_fd = int fd\<rparr>],
     ep_fdidx := (ep_fdidx s)[fd := int (ep_n s)], ep_n := ep_n s + 1,
     ep_kernel := ep_kernel s @ [(fd, \<lparr>ev_events = EPOLLIN OR EPOLLET, ev_fd = int fd\<rparr>)]\<rparr>)"
proof -
  have old: "map (\<lambda>(x, f). (x, if x = fd then e else f)) (ep_kernel s) = ep_kernel s" for e
    using assms(5) by (intro map_idI) (auto simp: image_iff)
  have none: "map_of (ep_kernel s) fd = None" using assms(5) by (simp add: map_of_eq_None_iff)
  show ?thesis
    using assms none old
    by (simp add: epoll_watch_read_def set_all_def fdwatch_set_fd_def fdwatch_add_fd_def fd_ok_def epoll_add_fd_def
        epoll_ctl_add_def epoll_set_fd_def epoll_ctl_mod_def epoll_mask_def Let_def map_add_def)
qed

lemma watch_known:
  assumes "fd < ep_nfiles s" and "ep_n s < ep_nfiles s" and "length (ep_events s) = ep_nfiles s"
    and "fd \<in> fst ` set (ep_kernel s)" and "ep_fdidx s ! fd = 0"
    and "e = (ep_events s)[ep_n s := \<lparr>ev_events = 0, ev_fd = int fd\<rparr>] ! 0"
  shows "epoll_watch_read fd s = Inr (s\<lparr>ep_events := ((ep_events s)[ep_n s := \<lparr>ev_events = 0, ev_fd = int fd\<rparr>])
       [0 := e\<lparr>ev_events := ev_events e OR (EPOLLIN OR EPOLLET)\<rparr>],
     ep_kernel := map (\<lambda>(x, f). (x, if x = fd then e\<lparr>ev_events := ev_events e OR (EPOLLIN OR EPOLLET)\<rparr> else f)) (ep_kernel s)\<rparr>)"
proof -
  obtain y where y: "map_of (ep_kernel s) fd = Some y" using assms(4) by (auto simp: map_of_eq_None_iff dest: weak_map_of_SomeI)
  let ?s = "s\<lparr>ep_events := (ep_events s)[ep_n s := \<lparr>ev_events = 0, ev_fd = int fd\<rparr>]\<rparr>"
  let ?e = "e\<lparr>ev_events := ev_events e OR (EPOLLIN OR EPOLLET)\<rparr>"
  have "0 < length (ep_events s)" using assms(2,3) by simp
  have add: "fdwatch_add_fd (ep_nfiles s) epoll_add_fd (int fd) s = ?s"
    using assms(1-3) y by (simp add: fdwatch_add_fd_def fd_ok_def epoll_add_fd_def epoll_ctl_add_def Let_def)
  have "epoll_set_fd fd FDW_READ ?s =
      Inr (fst (epoll_ctl_mod fd ?e (?s\<lparr>ep_events := (ep_events ?s)[0 := ?e]\<rparr>)))"
    using assms(1,2,5) \<open>0 < length (ep_events s)\<close> by (simp add: epoll_set_fd_def Let_def epoll_mask_def assms(6))
  then show ?thesis
    using assms(1) y unfolding epoll_watch_read_def add
    by (simp add: set_all_def fdwatch_set_fd_def fd_ok_def epoll_ctl_mod_def)
qed

definition epoll_round :: "nat list \<Rightarrow> epoll_state \<Rightarrow> stop + epoll_state" where
  "epoll_round fds s = watch_all (ep_nfiles s) epoll_add_fd epoll_set_fd (map (\<lambda>fd. (fd, [FDW_READ])) fds) (epoll_zero s)"

definition three_rounds :: "nat \<Rightarrow> nat \<Rightarrow> nat \<Rightarrow> epoll_state \<Rightarrow> stop + epoll_state" where
  "three_rounds a b c s = and_then (epoll_round [a] s) (\<lambda>s. and_then (epoll_round [a, b] s) (epoll_round [a, c, b]))"

fun watch_reads :: "nat list \<Rightarrow> epoll_state \<Rightarrow> stop + epoll_state" where
  "watch_reads [] s = Inr s"
| "watch_reads (fd # fds) s = and_then (epoll_watch_read fd s) (watch_reads fds)"

lemma set_keeps_nfiles: "epoll_set_fd fd rw s = Inr t \<Longrightarrow> ep_nfiles t = ep_nfiles s"
  by (auto simp: epoll_set_fd_def epoll_ctl_mod_def Let_def split: if_splits)

lemma add_keeps_nfiles: "ep_nfiles (epoll_add_fd fd s) = ep_nfiles s"
  by (simp add: epoll_add_fd_def epoll_ctl_add_def Let_def)

lemma read_keeps_nfiles: "epoll_watch_read fd s = Inr t \<Longrightarrow> ep_nfiles t = ep_nfiles s"
  by (auto simp: epoll_watch_read_def set_all_def fdwatch_set_fd_def fdwatch_add_fd_def add_keeps_nfiles
      dest: set_keeps_nfiles split: if_splits)

lemma watch_all_reads:
  "nf = ep_nfiles s \<Longrightarrow> watch_all nf epoll_add_fd epoll_set_fd (map (\<lambda>fd. (fd, [FDW_READ])) fds) s = watch_reads fds s"
proof (induction fds arbitrary: s)
  case (Cons fd fds)
  show ?case
  proof (cases "epoll_watch_read fd s")
    case (Inl x)
    then show ?thesis using Cons.prems by (simp add: epoll_watch_read_def)
  next
    case (Inr t)
    then show ?thesis using Cons.IH [of t] Cons.prems read_keeps_nfiles [OF Inr] by (simp add: epoll_watch_read_def)
  qed
qed simp

lemma epoll_round_reads: "epoll_round fds s = watch_reads fds (epoll_zero s)"
  by (simp add: epoll_round_def watch_all_reads epoll_zero_def epoll_zero_out_def)

text \<open>The state the rounds lead to: the new socket's entry is the one the old sockets use.\<close>

lemma three_rounds_result:
  assumes "distinct [a, b, c]" and "0 < a" and "0 < b" and "0 < c" and "a < nf" and "b < nf" and "c < nf"
    and "length junk = nf" and "length junkidx = nf"
  shows "\<exists>s. three_rounds a b c (epoll_init nf junk junkidx) = Inr s
     \<and> ep_fdidx s ! b = 0 \<and> ep_fdidx s ! c = 0 \<and> ep_nfiles s = nf
     \<and> ep_kernel s = [(a, \<lparr>ev_events = EPOLLIN OR EPOLLET, ev_fd = int a\<rparr>),
          (b, \<lparr>ev_events = EPOLLIN OR EPOLLET, ev_fd = int c\<rparr>), (c, \<lparr>ev_events = EPOLLIN OR EPOLLET, ev_fd = int c\<rparr>)]"
proof -
  let ?m = "EPOLLIN OR EPOLLET"
  define z where "z = epoll_zero (epoll_init nf junk junkidx)"
  have z: "ep_nfiles z = nf" "ep_n z = 0" "length (ep_events z) = nf" "length (ep_fdidx z) = nf" "ep_kernel z = []"
    using assms(8,9) by (simp_all add: z_def epoll_zero_def epoll_zero_out_def epoll_init_def)
  have nf: "1 < nf" "0 < nf" using assms by auto
  have zero: "ep_nfiles (epoll_zero s) = ep_nfiles s" "ep_n (epoll_zero s) = 0" "ep_kernel (epoll_zero s) = ep_kernel s"
    "length (ep_events (epoll_zero s)) = length (ep_events s)"
    "ep_n s \<le> length (ep_fdidx s) \<Longrightarrow> length (ep_fdidx (epoll_zero s)) = length (ep_fdidx s)"
    "ep_n s \<le> length (ep_fdidx s) \<Longrightarrow> ep_n s \<le> fd \<Longrightarrow> ep_fdidx (epoll_zero s) ! fd = ep_fdidx s ! fd" for s fd
    by (auto simp: epoll_zero_def epoll_zero_out_def nth_append)
  obtain s1 where s1: "epoll_round [a] (epoll_init nf junk junkidx) = Inr s1" "ep_nfiles s1 = nf" "ep_n s1 = 1"
    "length (ep_events s1) = nf" "length (ep_fdidx s1) = nf" "ep_fdidx s1 ! a = 0"
    "ep_kernel s1 = [(a, \<lparr>ev_events = ?m, ev_fd = int a\<rparr>)]"
    using watch_new [of a z] z assms(5) nf by (simp add: epoll_round_reads flip: z_def)
  define z1 where "z1 = epoll_zero s1"
  have z1: "ep_nfiles z1 = nf" "ep_n z1 = 0" "length (ep_events z1) = nf" "length (ep_fdidx z1) = nf" "ep_fdidx z1 ! a = 0"
    "ep_kernel z1 = [(a, \<lparr>ev_events = ?m, ev_fd = int a\<rparr>)]"
    using s1 zero [of s1] nf assms(2) by (simp_all add: z1_def)
  obtain t where t: "epoll_watch_read a z1 = Inr t" "ep_nfiles t = nf" "ep_n t = 0" "length (ep_events t) = nf"
    "length (ep_fdidx t) = nf" "ep_fdidx t ! a = 0" "ep_kernel t = [(a, \<lparr>ev_events = ?m, ev_fd = int a\<rparr>)]"
    using watch_known [of a z1 "\<lparr>ev_events = 0, ev_fd = int a\<rparr>"] z1 assms(5) nf by simp
  obtain s2 where s2: "epoll_watch_read b t = Inr s2" "ep_nfiles s2 = nf" "ep_n s2 = 1" "length (ep_events s2) = nf"
    "length (ep_fdidx s2) = nf" "ep_fdidx s2 ! a = 0" "ep_fdidx s2 ! b = 0"
    "ep_kernel s2 = [(a, \<lparr>ev_events = ?m, ev_fd = int a\<rparr>), (b, \<lparr>ev_events = ?m, ev_fd = int b\<rparr>)]"
    using watch_new [of b t] t assms(1,6) nf by (simp add: nth_list_update)
  have round2: "epoll_round [a, b] s1 = Inr s2" using t(1) s2(1) by (simp add: epoll_round_reads z1_def)
  define z2 where "z2 = epoll_zero s2"
  have z2: "ep_nfiles z2 = nf" "ep_n z2 = 0" "length (ep_events z2) = nf" "length (ep_fdidx z2) = nf"
    "ep_fdidx z2 ! a = 0" "ep_fdidx z2 ! b = 0" "ep_kernel z2 = ep_kernel s2"
    using s2 zero [of s2] nf assms(2,3) by (simp_all add: z2_def)
  obtain u where u: "epoll_watch_read a z2 = Inr u" "ep_nfiles u = nf" "ep_n u = 0" "length (ep_events u) = nf"
    "length (ep_fdidx u) = nf" "ep_fdidx u ! b = 0" "ep_kernel u = ep_kernel s2"
    using watch_known [of a z2 "\<lparr>ev_events = 0, ev_fd = int a\<rparr>"] z2 s2(8) assms(1,5) nf by simp
  obtain v where v: "epoll_watch_read c u = Inr v" "ep_nfiles v = nf" "ep_n v = 1" "length (ep_events v) = nf"
    "length (ep_fdidx v) = nf" "ep_fdidx v ! b = 0" "ep_fdidx v ! c = 0" "ep_events v ! 0 = \<lparr>ev_events = ?m, ev_fd = int c\<rparr>"
    "ep_kernel v = ep_kernel s2 @ [(c, \<lparr>ev_events = ?m, ev_fd = int c\<rparr>)]"
    using watch_new [of c u] u s2(8) assms(1,7) nf by (simp add: nth_list_update)
  obtain w where w: "epoll_watch_read b v = Inr w" "ep_nfiles w = nf" "ep_fdidx w ! b = 0" "ep_fdidx w ! c = 0"
    "ep_kernel w = [(a, \<lparr>ev_events = ?m, ev_fd = int a\<rparr>),
       (b, \<lparr>ev_events = ?m, ev_fd = int c\<rparr>), (c, \<lparr>ev_events = ?m, ev_fd = int c\<rparr>)]"
  proof -
    have e: "\<lparr>ev_events = ?m, ev_fd = int c\<rparr> = (ep_events v)[ep_n v := \<lparr>ev_events = 0, ev_fd = int b\<rparr>] ! 0"
      by (simp add: v(3,8))
    have k: "ep_kernel v = [(a, \<lparr>ev_events = ?m, ev_fd = int a\<rparr>), (b, \<lparr>ev_events = ?m, ev_fd = int b\<rparr>),
       (c, \<lparr>ev_events = ?m, ev_fd = int c\<rparr>)]"
      by (simp add: v(9) s2(8))
    have "b < ep_nfiles v" "ep_n v < ep_nfiles v" "length (ep_events v) = ep_nfiles v" "b \<in> fst ` set (ep_kernel v)"
      using v(2-4) assms(6) nf by (simp_all add: k)
    note known = watch_known [OF this v(6) e]
    show thesis
      by (rule that, rule known) (use assms(1) in \<open>simp_all add: v(2,6,7) k\<close>)
  qed
  have round3: "epoll_round [a, c, b] s2 = Inr w" using u(1) v(1) w(1) by (simp add: epoll_round_reads z2_def)
  have "three_rounds a b c (epoll_init nf junk junkidx) = Inr w" using s1(1) round2 round3 by (simp add: three_rounds_def)
  then show ?thesis using w by blast
qed

text \<open>C40: the epoll watcher can lose a socket. A socket \<open>a\<close> and then a socket \<open>b\<close> are watched for reading,
  then a third, \<open>c\<close>, which is added before \<open>b\<close>, as the main loop does with a newer transfer. What arrives on
  \<open>b\<close> is never reported for \<open>b\<close>, whatever the readiness of the descriptors: it is reported for \<open>c\<close>, even
  when nothing arrived there.
\<close>

theorem epoll_hides_socket:
  assumes "distinct [a, b, c]" and "0 < a" and "0 < b" and "0 < c" and "a < nf" and "b < nf" and "c < nf"
    and "length junk = nf" and "length junkidx = nf"
  shows "\<exists>s. three_rounds a b c (epoll_init nf junk junkidx) = Inr s
     \<and> (\<forall>ready. \<not> epoll_check_fd (epoll_watch ready s) b FDW_READ
          \<and> (ready b FDW_READ \<longrightarrow> epoll_check_fd (epoll_watch ready s) c FDW_READ))"
proof -
  obtain s where s: "three_rounds a b c (epoll_init nf junk junkidx) = Inr s" "ep_fdidx s ! b = 0" "ep_fdidx s ! c = 0"
    "ep_nfiles s = nf" "ep_kernel s = [(a, \<lparr>ev_events = EPOLLIN OR EPOLLET, ev_fd = int a\<rparr>),
       (b, \<lparr>ev_events = EPOLLIN OR EPOLLET, ev_fd = int c\<rparr>), (c, \<lparr>ev_events = EPOLLIN OR EPOLLET, ev_fd = int c\<rparr>)]"
    using three_rounds_result [OF assms] by blast
  have "\<not> epoll_check_fd (epoll_watch ready s) b FDW_READ
      \<and> (ready b FDW_READ \<longrightarrow> epoll_check_fd (epoll_watch ready s) c FDW_READ)" for ready
    using s(2-) assms(1,5)
    by (auto simp: epoll_check_fd_def epoll_watch_def kernel_epoll_def EPOLLIN_def EPOLLOUT_def EPOLLET_def Let_def)
  then show ?thesis using s(1) by blast
qed

lemma epoll_hides_socket_witness:
  "\<exists>s. three_rounds 3 5 4 (epoll_init 8 (replicate 8 \<lparr>ev_events = 7, ev_fd = 9\<rparr>) (replicate 8 6)) = Inr s
     \<and> \<not> epoll_check_fd (epoll_watch (\<lambda>fd rw. fd = 5) s) 5 FDW_READ \<and> epoll_check_fd (epoll_watch (\<lambda>fd rw. fd = 5) s) 4 FDW_READ"
proof -
  obtain s where s: "three_rounds 3 5 4 (epoll_init 8 (replicate 8 \<lparr>ev_events = 7, ev_fd = 9\<rparr>) (replicate 8 6)) = Inr s"
    "\<And>ready. \<not> epoll_check_fd (epoll_watch ready s) 5 FDW_READ
          \<and> (ready 5 FDW_READ \<longrightarrow> epoll_check_fd (epoll_watch ready s) 4 FDW_READ)"
    using epoll_hides_socket [of 3 5 4 8 "replicate 8 \<lparr>ev_events = 7, ev_fd = 9\<rparr>" "replicate 8 6"] by auto
  then show ?thesis using s(2) [of "\<lambda>fd rw. fd = 5"] by auto
qed

end
