(* ===== verification/Io_Frame.thy ===== *)
theory Io_Frame
  imports Line_Parser
begin

text \<open>
  What the handlers of a line and the DCC operations leave alone: the state of the connection, its
  socket and the bytes that arrived, the program's own state and its configuration; and the outgoing
  queue only grows, within its buffer. So a property of the world that such changes keep, and that the
  callbacks of a client keep, is kept by all the library's handlers: \<open>world_law\<close>. A client whose callbacks
  keep the connection itself is an \<open>io_client\<close>.
\<close>

section \<open>The frame\<close>

definition io_kept :: "irc_session \<Rightarrow> irc_session \<Rightarrow> bool" where
  "io_kept s t \<longleftrightarrow> s_state t = s_state s \<and> s_sock t = s_sock s \<and> s_ssl t = s_ssl s
     \<and> s_incoming_buf t = s_incoming_buf s \<and> s_incoming_offset t = s_incoming_offset s
     \<and> (session_wf s \<longrightarrow> session_wf t \<and> (\<exists>more. queued t = queued s @ more))"

lemma io_kept_refl [simp]: "io_kept s s"
  by (simp add: io_kept_def)

lemma io_kept_trans: "io_kept s t \<Longrightarrow> io_kept t u \<Longrightarrow> io_kept s u"
  by (auto simp: io_kept_def)

lemma send_raw_ssl: "s_ssl (fst (irc_send_raw s msg)) = s_ssl s"
  by (simp add: irc_send_raw_def Let_def)

lemma io_kept_send: "io_kept s t \<Longrightarrow> io_kept s (fst (irc_send_raw t msg))"
proof (rule io_kept_trans)
  show "io_kept t (fst (irc_send_raw t msg))"
    using send_raw_wf [of t msg] send_raw_queued [of t msg] send_raw_ssl [of t msg]
    by (auto simp: io_kept_def send_raw_frame)
qed

text \<open>Changes that do not concern the socket.\<close>

lemma io_kept_same:
  "io_kept s t \<Longrightarrow> s_state u = s_state t \<Longrightarrow> s_sock u = s_sock t \<Longrightarrow> s_ssl u = s_ssl t \<Longrightarrow>
     s_incoming_buf u = s_incoming_buf t \<Longrightarrow> s_incoming_offset u = s_incoming_offset t \<Longrightarrow>
     s_outgoing_buf u = s_outgoing_buf t \<Longrightarrow> s_outgoing_offset u = s_outgoing_offset t \<Longrightarrow> io_kept s u"
  by (simp add: io_kept_def session_wf_def queued_def)

lemma io_kept_dcc [simp]:
  "io_kept s (lock_dcc t) = io_kept s t" "io_kept s (unlock_dcc t) = io_kept s t"
  "io_kept s (upd_dcc i f t) = io_kept s t" "io_kept s (set_dcc_state i st t) = io_kept s t"
  "io_kept s (set_error e t) = io_kept s t" "io_kept s (t\<lparr>s_lasterror := e\<rparr>) = io_kept s t"
  "io_kept s (t\<lparr>s_nick := n\<rparr>) = io_kept s t" "io_kept s (t\<lparr>s_flags := fl\<rparr>) = io_kept s t"
  "io_kept s (t\<lparr>s_dcc_sessions := ds\<rparr>) = io_kept s t" "io_kept s (t\<lparr>s_dcc_last_id := k\<rparr>) = io_kept s t"
  by (auto simp: io_kept_def lock_dcc_def unlock_dcc_def upd_dcc_def set_dcc_state_def set_error_def session_wf_def queued_def)

lemma find_dcc_kept [simp]:
  "libirc_find_dcc_session t i l = (u, r) \<Longrightarrow> io_kept s u = io_kept s t"
  "libirc_find_dcc_session_by_port t k l = (u, r) \<Longrightarrow> io_kept s u = io_kept s t"
  "libirc_find_dcc_session_by_token t k l = (u, r) \<Longrightarrow> io_kept s u = io_kept s t"
  by (auto simp: libirc_find_dcc_session_def libirc_find_dcc_session_by_port_def
      libirc_find_dcc_session_by_token_def find_dcc_def Let_def split: if_splits)

lemma destroy_kept [simp]: "io_kept s (libirc_dcc_destroy_nolock t i) = io_kept s t"
  by (simp add: libirc_dcc_destroy_nolock_def split: prod.splits option.splits)

lemma remove_kept [simp]: "io_kept s (libirc_remove_dcc_session t i l) = io_kept s t"
  by (simp add: libirc_remove_dcc_session_def Let_def)

lemma remove_unused_kept [simp]: "io_kept s (remove_unused ds t) = io_kept s t"
  by (induction ds t rule: remove_unused.induct) auto

section \<open>The parser's data\<close>

text \<open>What every callback keeps of the data, the parser keeps.\<close>

definition callbacks_keep :: "'d irc_parser_settings \<Rightarrow> ('d \<Rightarrow> bool) \<Rightarrow> bool" where
  "callbacks_keep cb P \<longleftrightarrow> (\<forall>g\<in>set [cb_on_nick cb, cb_on_name cb, cb_on_host cb, cb_on_command cb, cb_on_param cb,
     cb_on_end cb, cb_on_error cb]. \<forall>f d at. g = Some f \<longrightarrow> P d \<longrightarrow> P (fst (f d at)))"

lemma force_call_data:
  assumes "callbacks_keep cb P" and "P (p_data p)" and "irc_parser_force_call p g = Inr q"
    and "g \<in> {cb_on_nick cb, cb_on_name cb, cb_on_host cb, cb_on_command cb, cb_on_param cb, cb_on_end cb, cb_on_error cb}"
  shows "P (p_data q)"
proof (cases g)
  case None
  then show ?thesis using assms by (simp add: irc_parser_force_call_def)
next
  case (Some f)
  then have "P (fst (f (p_data p) at))" for at using assms(1,2,4) by (auto simp: callbacks_keep_def)
  then show ?thesis using assms(3) Some
    by (auto simp: irc_parser_force_call_def Let_def case_prod_unfold split: if_splits)
qed

lemma get_cb_member: "irc_parser_get_cb cb p \<in> {cb_on_nick cb, cb_on_name cb, cb_on_host cb, cb_on_command cb,
    cb_on_param cb, cb_on_end cb, cb_on_error cb}"
  by (simp add: irc_parser_get_cb_def split: irc_parser_state.splits)

lemma call_data:
  "callbacks_keep cb P \<Longrightarrow> P (p_data p) \<Longrightarrow> irc_parser_call cb p = Inr q \<Longrightarrow> P (p_data q)"
  unfolding irc_parser_call_def using force_call_data get_cb_member by blast

lemma progress_data:
  "callbacks_keep cb P \<Longrightarrow> P (p_data p) \<Longrightarrow> irc_parser_call_and_progress_on cb p a b = Inr q \<Longrightarrow> P (p_data q)"
  by (auto simp: irc_parser_call_and_progress_on_def irc_parser_call_and_progress_def irc_parser_progress_state_def
      and_then_Inr_iff dest: call_data split: if_splits)

lemma switch_data:
  "callbacks_keep cb P \<Longrightarrow> P (p_data p) \<Longrightarrow> irc_parser_switch_to_state_if_char_received cb p a b st = Inr q \<Longrightarrow> P (p_data q)"
  by (auto simp: irc_parser_switch_to_state_if_char_received_def and_then_Inr_iff dest: call_data split: if_splits)

lemma trigger_data: "callbacks_keep cb P \<Longrightarrow> P (p_data p) \<Longrightarrow> P (p_data (irc_parser_trigger_error cb p r e))"
  by (auto simp: irc_parser_trigger_error_def Let_def callbacks_keep_def split: option.splits)

fun result_data :: "'d char_result \<Rightarrow> 'd" where
  "result_data (Continue q) = p_data q"
| "result_data (Retry q) = p_data q"
| "result_data (Return q r) = p_data q"

lemma default_char_data:
  assumes "callbacks_keep cb P" and "P (p_data p)" and "irc_parser_default_char cb p i rest = Inr r"
  shows "P (result_data r)"
proof -
  note d = progress_data [OF assms(1), rotated] switch_data [OF assms(1), rotated] call_data [OF assms(1), rotated]
    trigger_data [OF assms(1)]
  have "P (p_data (irc_parser_trigger_error cb (p\<lparr>p_error := e\<rparr>) rest e))" for e
    using assms(2) by (intro d(4)) simp
  moreover have "P (p_data x)" if "irc_parser_switch_to_state_if_char_received cb p c a st = Inr y"
    "irc_parser_call_and_progress_on cb y c' b = Inr x" for c a st y c' b x
    by (rule d(1) [OF that(2)], rule d(2) [OF that(1)], rule assms(2))
  moreover have "P (p_data x)" if "irc_parser_switch_to_state_if_char_received cb p c a st = Inr z"
    "irc_parser_switch_to_state_if_char_received cb z c a' st' = Inr y"
    "irc_parser_call_and_progress_on cb y c' b = Inr x" for c a a' st st' y z c' b x
    by (rule d(1) [OF that(3)], rule d(2) [OF that(2)], rule d(2) [OF that(1)], rule assms(2))
  ultimately show ?thesis using assms(2,3)
    by (auto simp: irc_parser_default_char_def Let_def and_then_Inr_iff irc_parser_progress_state_def irc_parser_set_state_def
        intro: d split: irc_parser_state.splits if_splits)
qed

lemma char_data:
  assumes "callbacks_keep cb P" and "P (p_data p)" and "irc_parser_char cb p i rest = Inr r"
  shows "P (result_data r)"
proof -
  have app: "P (p_data q)" if "irc_parser_append_raw p (hd rest) = Inr q" for q
    using that assms(2) by (auto simp: irc_parser_append_raw_def Let_def split: if_splits)
  have fin: "P (p_data q)" if "P (p_data a)" "irc_parser_force_call a (cb_on_end cb) = Inr q" for a q
    using force_call_data [OF assms(1) that] by simp
  have lf: "P (p_data q)" if "irc_parser_call cb (p\<lparr>p_len := p_len p + 1\<rparr>) = Inr q" for q
    using call_data [OF assms(1) _ that] assms(2) by simp
  show ?thesis using assms(3) assms(2) default_char_data [OF assms(1)] app fin lf
    by (auto simp: irc_parser_char_def and_then_Inr_iff split: if_splits)
qed

lemma execute_data:
  "callbacks_keep cb P \<Longrightarrow> P (p_data p) \<Longrightarrow> irc_parser_execute_from cb p i bs = Inr (q, n) \<Longrightarrow> P (p_data q)"
proof (induction cb p i bs rule: irc_parser_execute_from.induct)
  case (2 cb p i c cs)
  obtain r where r: "irc_parser_char cb p i (c # cs) = Inr r" using "2.prems"(3) by (auto split: sum.splits)
  have d: "P (result_data r)" by (rule char_data [OF "2.prems"(1,2) r])
  show ?case
  proof (cases r)
    case (Continue x)
    then show ?thesis using "2.IH"(1) [OF r Continue] "2.prems" r d by simp
  next
    case (Retry x)
    then show ?thesis using "2.IH"(2) [OF r Retry] "2.prems" r d by simp
  next
    case (Return x k)
    then show ?thesis using "2.prems" r d by simp
  qed
qed simp

section \<open>Composing\<close>

text \<open>A property of the world a computation leads to, if it leads to one.\<close>

definition holds :: "('a world \<Rightarrow> bool) \<Rightarrow> stop + 'a world \<Rightarrow> bool" where
  "holds P r \<longleftrightarrow> (\<forall>u. r = Inr u \<longrightarrow> P u)"

abbreviation kept :: "irc_session \<Rightarrow> stop + 'a world \<Rightarrow> bool" where
  "kept s \<equiv> holds (\<lambda>w. io_kept s (w_session w))"

lemma holds_simps [simp]: "holds P (Inl e)" "holds P (Inr w) = P w"
  by (simp_all add: holds_def)

lemma holds_bind: "(\<And>x. m = Inr x \<Longrightarrow> holds P (f x)) \<Longrightarrow> holds P (and_then m f)"
  by (auto simp: holds_def and_then_Inr_iff)

lemma holds_seq: "holds Q m \<Longrightarrow> (\<And>w. Q w \<Longrightarrow> holds P (f w)) \<Longrightarrow> holds P (and_then m f)"
  by (auto simp: holds_def and_then_Inr_iff)

lemma holds_if: "(b \<Longrightarrow> holds P x) \<Longrightarrow> (\<not> b \<Longrightarrow> holds P y) \<Longrightarrow> holds P (if b then x else y)"
  by simp

lemma os_session:
  "os_ret w = (r, v) \<Longrightarrow> w_session v = w_session w" "os_read w = (ra, v) \<Longrightarrow> w_session v = w_session w"
  "os_write w = (wa, v) \<Longrightarrow> w_session v = w_session w"
  by (auto simp: os_ret_def os_read_def os_write_def split: list.splits)

lemma send_session [simp]: "w_session (fst (w_send cmd w)) = fst (cmd (w_session w))"
  by (simp add: w_send_def split: prod.splits)

text \<open>The commands all end in \<open>irc_send_raw\<close> or in an error code.\<close>

lemma io_kept_cmds [simp]:
  assumes "io_kept s t"
  shows "io_kept s (fst (irc_cmd_ctcp_reply t a b))" "io_kept s (fst (irc_cmd_ctcp_request t a b))"
    "io_kept s (fst (irc_cmd_quit t r))" "io_kept s (fst (irc_cmd_msg t a b))"
    "io_kept s (fst (irc_cmd_join t a b))" "io_kept s (fst (irc_cmd_user_mode t r))"
  using assms
  by (auto simp: irc_cmd_ctcp_reply_def irc_cmd_ctcp_request_def irc_cmd_quit_def irc_cmd_msg_def irc_cmd_join_def
      irc_cmd_user_mode_def state_error_def inval_error_def intro: io_kept_send split: option.splits)

section \<open>Steps of the library\<close>

definition lib_step :: "'a world \<Rightarrow> 'a world \<Rightarrow> bool" where
  "lib_step w v \<longleftrightarrow> io_kept (w_session w) (w_session v) \<and> w_app v = w_app w \<and> w_cfg v = w_cfg w"

lemma lib_refl [simp]: "lib_step w w"
  by (simp add: lib_step_def)

lemma lib_trans: "lib_step w v \<Longrightarrow> lib_step v u \<Longrightarrow> lib_step w u"
  by (auto simp: lib_step_def intro: io_kept_trans)

lemma lib_result [simp]: "lib_step (on_result g w) v = lib_step w v" "lib_step w (on_result g v) = lib_step w v"
  by (simp_all add: lib_step_def on_result_def)

lemma lib_os: "os_ret w = (r, v) \<Longrightarrow> lib_step w v" "os_read w = (ra, v) \<Longrightarrow> lib_step w v" "os_write w = (wa, v) \<Longrightarrow> lib_step w v"
  by (auto simp: lib_step_def os_ret_def os_read_def os_write_def split: list.splits)

lemma lib_heap:
  "alloc_str b w = (a, v) \<Longrightarrow> lib_step w v" "free_ptr p w = Inr v \<Longrightarrow> lib_step w v"
  by (auto simp: lib_step_def alloc_str_def heap_alloc_def free_ptr_def and_then_Inr_iff)

lemma lib_params: "free_params i n w = Inr v \<Longrightarrow> lib_step w v"
  by (induction i n w rule: free_params.induct) (auto simp: and_then_Inr_iff dest: lib_heap(2) lib_trans)

lemma lib_send: "io_kept (w_session w) (fst (cmd (w_session w))) \<Longrightarrow> lib_step w (fst (w_send cmd w))"
  by (cases "cmd (w_session w)") (simp add: lib_step_def w_send_def)

lemma lib_session: "io_kept (w_session w) (f (w_session w)) \<Longrightarrow> lib_step w (on_session f w)"
  by (simp add: lib_step_def)

lemma lib_updates:
  "io_kept (w_session w) t \<Longrightarrow> lib_step w (w\<lparr>w_session := t\<rparr>)" "lib_step w (w\<lparr>w_os := p\<rparr>)"
  "lib_step w (on_result g w)" "lib_step w (note_sent fd xs w)"
  by (simp_all add: lib_step_def on_result_def note_sent_def)

lemma free_result_step: "free_parser_result w = Inr v \<Longrightarrow> lib_step w v"
  by (auto simp: free_parser_result_def Let_def and_then_Inr_iff dest!: lib_heap(2) lib_params) (meson lib_trans)

section \<open>A client\<close>

definition events_of :: "'a irc_callbacks \<Rightarrow> 'a event option list" where
  "events_of cbs = [event_connect cbs, event_nick cbs, event_quit cbs, event_join cbs, event_part cbs, event_mode cbs,
     event_umode cbs, event_topic cbs, event_kick cbs, event_channel cbs, event_privmsg cbs, event_notice cbs,
     event_channel_notice cbs, event_invite cbs, event_ctcp_req cbs, event_ctcp_rep cbs, event_ctcp_action cbs,
     event_unknown cbs]"

locale world_law =
  fixes cbs :: "'a irc_callbacks" and P :: "'a world \<Rightarrow> bool"
  assumes lib_law: "lib_step w v \<Longrightarrow> P w \<Longrightarrow> P v"
    and event_law: "Some f \<in> set (events_of cbs) \<Longrightarrow> P w \<Longrightarrow> holds P (f name w)"
    and numeric_law: "event_numeric cbs = Some g \<Longrightarrow> P w \<Longrightarrow> holds P (g code w)"
    and send_req_law: "event_dcc_send_req cbs = Some r \<Longrightarrow> P w \<Longrightarrow> holds P (r nick addr file fsize i w)"
    and reverse_req_law: "event_dcc_send_req_reverse cbs = Some q \<Longrightarrow> P w \<Longrightarrow> holds P (q nick addr file fsize i token w)"
    and keep_alive_law: "keep_alive_callback cbs = Some k \<Longrightarrow> P w \<Longrightarrow> holds P (k w)"
    and dcc_cb_law: "P w \<Longrightarrow> holds P (dcc_cb cbs c i st ctx data len w)"
    and dcc_reverse_cb_law: "P w \<Longrightarrow> holds P (dcc_reverse_cb cbs c i st ctx data len nick file token w)"
begin

lemma session_law [simp]: "P w \<Longrightarrow> io_kept (w_session w) (f (w_session w)) \<Longrightarrow> P (on_session f w)"
  by (rule lib_law [OF lib_session])

lemma update_laws [simp]:
  "P w \<Longrightarrow> io_kept (w_session w) t \<Longrightarrow> P (w\<lparr>w_session := t\<rparr>)" "P w \<Longrightarrow> P (w\<lparr>w_os := p\<rparr>)"
  "P w \<Longrightarrow> P (on_result g w)" "P w \<Longrightarrow> P (note_sent fd xs w)"
  by (rule lib_law [OF lib_updates(1)] lib_law [OF lib_updates(2)] lib_law [OF lib_updates(3)]
      lib_law [OF lib_updates(4)]; assumption)+

lemma send_law [simp]: "P w \<Longrightarrow> io_kept (w_session w) (fst (cmd (w_session w))) \<Longrightarrow> P (fst (w_send cmd w))"
  by (rule lib_law [OF lib_send])

lemmas step_laws = lib_os [THEN lib_law] lib_heap [THEN lib_law] lib_params [THEN lib_law]

lemmas seq = holds_seq [where Q = P]

lemma fire_kept: "e \<in> set (events_of cbs) \<Longrightarrow> P w \<Longrightarrow> holds P (fire e name w)"
  using event_law by (auto simp: fire_def split: option.splits)

lemma call_cb_kept: "P w \<Longrightarrow> holds P (call_dcc_cb cbs i st data len w)"
  by (auto simp: call_dcc_cb_def dcc_cb_law split: option.splits)

lemma report_kept: "P w \<Longrightarrow> holds P (report_dcc cbs i st data len w)"
  unfolding report_dcc_def by (rule seq [OF call_cb_kept]) simp_all

section \<open>Transfers\<close>

lemma recv_turn_kept:
  assumes "P w" and "recv_dcc_turn cbs i w = Inr (v, again)"
  shows "P v"
proof -
  obtain d r w1 where d: "dcc_at (w_session w) i = Some d" "os_read w = (r, w1)"
    using assms(2) by (cases "dcc_at (w_session w) i"; cases "os_read w") (auto simp: recv_dcc_turn_def)
  have w1: "P w1" using step_laws(2) [OF d(2) assms(1)] .
  have failed: "P u" if "report_dcc cbs i err None 0 w1 = Inr u" for err u
    using report_kept [OF w1] that by (simp add: holds_def)
  have data: "P u"
    if "call_dcc_cb cbs i 0 x n (on_session (\<lambda>s. upd_dcc i f (unlock_dcc s)) w1) = Inr u" for x n f u
    using call_cb_kept [of "on_session (\<lambda>s. upd_dcc i f (unlock_dcc s)) w1"] w1 that by (simp add: holds_def)
  show ?thesis using assms(2) d(1) w1
    by (auto simp: recv_dcc_turn_def d(2) Let_def and_then_Inr_iff dest: failed data
        split: read_answer.splits if_splits ssl_error.splits)
qed

lemma recv_loop_kept: "P w \<Longrightarrow> holds P (recv_dcc_loop cbs i ps w)"
proof (induction ps arbitrary: w)
  case Nil
  then show ?case by (auto simp: holds_def and_then_Inr_iff dest: recv_turn_kept)
next
  case (Cons p ps)
  show ?case unfolding recv_dcc_loop.simps
  proof (rule holds_bind)
    fix x assume x: "recv_dcc_turn cbs i w = Inr x"
    have k: "P (fst x)" using recv_turn_kept [OF Cons.prems, of i "fst x" "snd x"] x by simp
    then show "holds P (case x of (w, again) \<Rightarrow> if again \<and> has_ssl w i
        then (let w = w\<lparr>w_os := (w_os w)\<lparr>os_pending := ps\<rparr>\<rparr> in if p then recv_dcc_loop cbs i ps w else Inr w) else Inr w)"
      using Cons.IH by (cases x) (auto simp: Let_def)
  qed
qed

lemma send_offset_kept:
  assumes "P w"
  shows "holds P (send_current_file_offset_to_sender cbs i w)"
proof -
  obtain r w1 where w1: "os_write w = (r, w1)" by (cases "os_write w")
  have k: "P w1" using step_laws(3) [OF w1 assms] .
  show ?thesis using k report_kept
    by (auto simp: send_current_file_offset_to_sender_def w1 Let_def intro!: seq
        split: option.splits write_answer.splits ssl_error.splits)
qed

lemma process_dcc_kept: "P w \<Longrightarrow> holds P (process_dcc cbs i w)"
  using recv_loop_kept send_offset_kept
  by (auto simp: process_dcc_def handleConnectingState_def handleConnectedState_def handleConfirmSizeState_def
      handleInitPassiveState_def recv_dcc_file_def dest!: step_laws
      split: option.splits libirc_state.splits prod.splits)

lemma process_dccs_kept: "P w \<Longrightarrow> holds P (process_dccs cbs is w)"
  by (induction "is" arbitrary: w) (auto intro: seq process_dcc_kept)

lemma process_descriptors_kept: "P w \<Longrightarrow> holds P (libirc_dcc_process_descriptors cbs w)"
  unfolding libirc_dcc_process_descriptors_def Let_def
  by (rule seq [OF process_dccs_kept]) simp_all

section \<open>Offers\<close>

lemma new_session_kept:
  assumes "libirc_new_dcc_session w ip port ctx tls = Inr (v, r)" and "P w"
  shows "P v"
  using assms
  by (auto simp: libirc_new_dcc_session_def Let_def split: prod.splits if_splits dest!: step_laws)

lemma accept_send_kept:
  assumes "P w"
  shows "holds P (accept_dcc_send cbs nick file ip fsize port tls w)"
  unfolding accept_dcc_send_def
proof (cases "event_dcc_send_req cbs")
  case (Some f)
  show "holds P (case event_dcc_send_req cbs of None \<Rightarrow> Inr w | Some f \<Rightarrow>
      and_then (libirc_new_dcc_session w ip port None tls) (\<lambda>(w, r). case r of
            None \<Rightarrow> Inr (on_session (set_error LIBIRC_ERR_SOCKET) w)
          | Some dccid \<Rightarrow> and_then (f nick (dcc_addr w dccid) file fsize dccid w)
                (\<lambda>w. Inr (on_session (upd_dcc dccid (\<lambda>d. d\<lparr>d_received_file_size := fsize\<rparr>)) w))))"
    unfolding Some option.case
  proof (rule holds_bind)
    fix x assume x: "libirc_new_dcc_session w ip port None tls = Inr x"
    have "P (fst x)" using new_session_kept [of w ip port None tls "fst x" "snd x"] x assms by simp
    then show "holds P (case x of (w, r) \<Rightarrow> (case r of
            None \<Rightarrow> Inr (on_session (set_error LIBIRC_ERR_SOCKET) w)
          | Some dccid \<Rightarrow> and_then (f nick (dcc_addr w dccid) file fsize dccid w)
                (\<lambda>w. Inr (on_session (upd_dcc dccid (\<lambda>d. d\<lparr>d_received_file_size := fsize\<rparr>)) w))))"
      by (cases x) (auto split: option.splits intro!: seq send_req_law [OF Some])
  qed
qed (use assms in simp)

lemma accept_reverse_kept:
  assumes "P w"
  shows "holds P (accept_reverse_dcc_send cbs nick file ip fsize token tls w)"
  unfolding accept_reverse_dcc_send_def
proof (rule holds_bind)
  fix x assume x: "libirc_new_dcc_session w ip 0 None tls = Inr x"
  obtain v r where v: "x = (v, r)" by (cases x)
  have k: "P v" using new_session_kept [of w ip 0 None tls v r] x v assms by simp
  show "holds P (case x of (w, r) \<Rightarrow> (case r of None \<Rightarrow> Inr (on_session (set_error LIBIRC_ERR_SOCKET) w)
      | Some dccid \<Rightarrow>
          (let w = on_session (upd_dcc dccid (\<lambda>d. d\<lparr>d_passive_connection := True, d_token := token\<rparr>)) w in
           case os_ret w of (bound, w) \<Rightarrow>
             if bound = -1 then Inr (on_session (set_error LIBIRC_BIND_FAILED) w)
             else (case os_ret w of (listening, w) \<Rightarrow>
               if listening = -1 then Inr (on_session (set_error LIBIRC_LISTEN_FAILED) w)
               else (case event_dcc_send_req_reverse cbs of
                   None \<Rightarrow> Inl NullDeref
                 | Some f \<Rightarrow> f nick (dcc_addr w dccid) file fsize dccid token w)))))"
    unfolding v using k
    by (auto simp: Let_def split: option.splits prod.splits intro!: reverse_req_law dest!: step_laws)
qed

lemma dcc_accept_kept: "P w \<Longrightarrow> holds P (handle_dcc_accept cbs port fsize w)"
  by (auto simp: handle_dcc_accept_def Let_def intro!: dcc_cb_law dest: find_dcc_kept split: prod.splits option.splits)

lemma dcc_accept_reverse_kept:
  "P w \<Longrightarrow> holds P (handle_dcc_accept_reverse cbs nick fsize token w)"
  by (auto simp: handle_dcc_accept_reverse_def Let_def intro!: dcc_reverse_cb_law dest: find_dcc_kept
      split: prod.splits option.splits)

lemma dcc_request_kept: "P w \<Longrightarrow> holds P (libirc_dcc_request cbs req w)"
  by (auto simp: libirc_dcc_request_def Let_def accept_send_kept accept_reverse_kept dcc_accept_kept
      dcc_accept_reverse_kept split: dcc_request.splits option.splits intro!: holds_bind)

section \<open>Handlers of a line\<close>

lemma ctcp_kept: "P w \<Longrightarrow> holds P (handle_ctcp_request cbs w)"
  unfolding handle_ctcp_request_def Let_def
  by (intro holds_bind holds_if dcc_request_kept)
    (auto simp: events_of_def split: prod.splits intro!: fire_kept dest!: step_laws)

lemma own_nick_kept: "(\<And>n. holds P (f n)) \<Longrightarrow> holds P (and_then (own_nick w) f)"
  by (rule holds_bind)

lemma notice_kept: "P w \<Longrightarrow> holds P (irc_notice_command cbs c w)"
  unfolding irc_notice_command_def
  by (intro holds_bind holds_if)
    (auto simp: events_of_def split: prod.splits intro!: holds_bind fire_kept dest!: step_laws)

lemma execute_kept: "P w \<Longrightarrow> holds P (execute_command cbs c name w)"
proof (cases c)
  case CmdNotice
  assume "P w"
  then show ?thesis using CmdNotice notice_kept by (simp add: execute_command_def)
next
  case CmdNick
  assume k: "P w"
  show ?thesis unfolding CmdNick execute_command_def irc_command_id.case irc_nick_command_def
    by (intro holds_bind seq holds_if fire_kept) (auto simp: k events_of_def intro!: holds_bind)
next
  case CmdMode
  assume k: "P w"
  show ?thesis unfolding CmdMode execute_command_def irc_command_id.case irc_mode_command_def
    by (intro holds_bind holds_if fire_kept) (auto simp: k events_of_def)
next
  case CmdPrivmsg
  assume k: "P w"
  show ?thesis unfolding CmdPrivmsg execute_command_def irc_command_id.case irc_privmsg_command_def
    by (intro holds_bind holds_if fire_kept ctcp_kept) (auto simp: k events_of_def)
qed (auto simp: execute_command_def irc_ping_command_def irc_quit_command_def irc_join_command_def irc_part_command_def
    irc_topic_command_def irc_kick_command_def irc_invite_command_def irc_kill_command_def irc_unknown_command_def
    events_of_def io_kept_send intro!: fire_kept holds_bind)

lemma handle_result_kept:
  assumes "P w"
  shows "holds P (handle_parser_result cbs at w)"
proof -
  have connect: "holds P (if b then fire (event_connect cbs) ''CONNECT'' (on_session (\<lambda>s. s\<lparr>s_flags := or (s_flags s) SESSIONFL_MOTD_RECEIVED\<rparr>) w)
      else Inr w)" for b
    using assms by (auto simp: events_of_def intro!: fire_kept)
  show ?thesis
    unfolding handle_parser_result_def Let_def
    by (intro holds_if holds_bind [of "heap_str _ _"] seq [OF connect] execute_kept)
      (use assms in \<open>auto split: option.splits intro!: numeric_law\<close>)
qed

lemma line_step_kept: "P w \<Longrightarrow> holds P (line_step cbs part at w)"
  by (cases part) (auto simp: on_nick_def on_name_def on_host_def on_command_def on_param_def handle_result_kept
      split: prod.splits dest!: step_laws)

lemma line_callbacks_keep: "callbacks_keep (line_parser_settings cbs) (holds P)"
proof -
  have step: "holds P d \<Longrightarrow> holds P (and_then d (line_step cbs part at))" for d part at
    by (rule seq) (simp_all add: line_step_kept)
  have none: "holds P d \<Longrightarrow> holds P (and_then d (on_error at))" for d at
    by (rule seq) (simp_all add: on_error_def)
  show ?thesis
    using step [of _ PNick] step [of _ PName] step [of _ PHost] step [of _ PCommand] step [of _ PParam] step [of _ PFinish] none
    by (auto simp: callbacks_keep_def line_parser_settings_def irc_parser_settings_init_def line_cb_def)
qed

lemma execute_line_kept:
  "holds P (p_data p) \<Longrightarrow> irc_parser_execute (line_parser_settings cbs) p bs = Inr (q, n) \<Longrightarrow> holds P (p_data q)"
  unfolding irc_parser_execute_def by (rule execute_data [OF line_callbacks_keep])

end

text \<open>The connection itself is kept by a client whose callbacks keep it.\<close>

locale io_client =
  fixes cbs :: "'a irc_callbacks"
  assumes io_law: "world_law cbs (\<lambda>w. io_kept s (w_session w))"
begin

sublocale conn: world_law cbs "\<lambda>w. io_kept s (w_session w)" for s
  by (rule io_law)

end

end
