(* ===== verification/Irc_Run.thy ===== *)
theory Irc_Run
  imports Io_Frame Irc_Connect
begin

text \<open>
  The main loop of \<open>libircclient.c\<close>: which descriptors a round waits for, what it does with the ones
  that are ready, and how it ends. A run consists of the parser and the world; \<open>r_received\<close> and \<open>r_lines\<close> are not in the
  program: they remember the bytes that were read and the lines that were handed to the parser.
\<close>

record 'a run =
  r_parser :: "(stop + 'a world) irc_parser"
  r_world :: "'a world"
  r_received :: string
  r_lines :: "string list"

definition r_session :: "'a run \<Rightarrow> irc_session" where
  "r_session r = w_session (r_world r)"

definition on_world :: "('a world \<Rightarrow> 'a world) \<Rightarrow> 'a run \<Rightarrow> 'a run" where
  "on_world f r = r\<lparr>r_world := f (r_world r)\<rparr>"

section \<open>Waiting\<close>

definition watch_fd :: "int \<Rightarrow> interest option \<Rightarrow> 'a world \<Rightarrow> 'a world" where
  "watch_fd fd i w = w\<lparr>w_os := (w_os w)\<lparr>os_watch := os_watch (w_os w) @ [(fd, i)]\<rparr>\<rparr>"

definition fdwatch_zero :: "'a world \<Rightarrow> 'a world" where
  "fdwatch_zero w = w\<lparr>w_os := (w_os w)\<lparr>os_watch := []\<rparr>\<rparr>"

definition irc_add_select_descriptors :: "'a world \<Rightarrow> 'a world \<times> int" where
  "irc_add_select_descriptors w =
     (let s = w_session w in
      if s_sock s < 0 \<or> s_state s = LIBIRC_STATE_INIT \<or> s_state s = LIBIRC_STATE_DISCONNECTED
      then (fail_with LIBIRC_ERR_STATE w, 1)
      else
        (let w = (case s_state s of
              LIBIRC_STATE_CONNECTING \<Rightarrow> watch_fd (s_sock s) (Some FDW_WRITE) w
            | LIBIRC_STATE_CONNECTED \<Rightarrow>
                (let w = (if s_incoming_offset s < LIBIRC_BUFFER_SIZE - 1 \<or> has_flag s SESSIONFL_SSL_WRITE_WANTS_READ
                          then watch_fd (s_sock s) (Some FDW_READ) w else w) in
                 if libirc_findcrlf (s_outgoing_buf s) (s_outgoing_offset s) > 0 \<or> has_flag s SESSIONFL_SSL_READ_WANTS_WRITE
                 then watch_fd (s_sock s) (Some FDW_WRITE) w else w)
            | _ \<Rightarrow> w) in
         (libirc_dcc_add_descriptors w, 0)))"

text \<open>The watcher reports what is ready and was asked for.\<close>

datatype watch_answer = WatchInterrupted | WatchFailed | WatchReady "(int \<times> interest) list"

definition report_ready :: "(int \<times> interest) list \<Rightarrow> 'a world \<Rightarrow> 'a world" where
  "report_ready ready w = w\<lparr>w_os := (w_os w)\<lparr>os_ready :=
     filter (\<lambda>(fd, i). (fd, Some i) \<in> set (os_watch (w_os w))) ready\<rparr>\<rparr>"

section \<open>Reading\<close>

text \<open>The system stores and takes no more bytes than the call allows; none at all is what a closed
  connection gives.\<close>

definition within_room :: "irc_session \<Rightarrow> read_answer \<Rightarrow> read_answer" where
  "within_room s a = (case a of
     ReadBytes xs \<Rightarrow> (let ys = take (read_room s) xs in if ys = [] then ReadClosed else ReadBytes ys)
   | _ \<Rightarrow> a)"

definition within_queue :: "irc_session \<Rightarrow> write_answer \<Rightarrow> write_answer" where
  "within_queue s a = (case a of
     Written n \<Rightarrow> (let k = min n (s_outgoing_offset s) in if k = 0 then WriteClosed else Written k)
   | _ \<Rightarrow> a)"

text \<open>A read consumes an answer of the tape of the call it makes.\<close>

definition world_read :: "'a world \<Rightarrow> 'a world \<times> int" where
  "world_read w =
     (if s_ssl (w_session w) \<and> has_flag (w_session w) SESSIONFL_SSL_READ_WANTS_WRITE
      then (case os_write w of (a, w) \<Rightarrow>
        (case session_socket_read (w_session w) ReadClosed (within_queue (w_session w) a) of (s, n) \<Rightarrow> (w\<lparr>w_session := s\<rparr>, n)))
      else (case os_read w of (a, w) \<Rightarrow>
        (case session_socket_read (w_session w) (within_room (w_session w) a) WriteClosed of (s, n) \<Rightarrow> (w\<lparr>w_session := s\<rparr>, n))))"

text \<open>A line is parsed, and the parts of the message are released.\<close>

definition libirc_process_incoming_data :: "'a irc_callbacks \<Rightarrow> nat \<Rightarrow> 'a run \<Rightarrow> stop + 'a run" where
  "libirc_process_incoming_data cbs process_length r =
     (let line = take process_length (s_incoming_buf (r_session r)) in
      case irc_parser_execute (line_parser_settings cbs) ((r_parser r)\<lparr>p_data := Inr (r_world r)\<rparr>) line of
        Inl fault \<Rightarrow> Inl ParserOverrun
      | Inr (p, n) \<Rightarrow>
          and_then (p_data p) (\<lambda>w. and_then (free_parser_result w) (\<lambda>w.
            Inr (r\<lparr>r_parser := p, r_world := w, r_lines := r_lines r @ [line]\<rparr>))))"

definition drop_line :: "nat \<Rightarrow> irc_session \<Rightarrow> irc_session" where
  "drop_line offset s =
     (let left = size_sub (s_incoming_offset s) offset;
          s = (if left > 0 then s\<lparr>s_incoming_buf := shift_down (s_incoming_buf s) (s_incoming_offset s) offset\<rparr> else s) in
      s\<lparr>s_incoming_offset := left\<rparr>)"

text \<open>The loop over the complete lines of the buffer.\<close>

partial_function (option) process_lines :: "'a irc_callbacks \<Rightarrow> 'a run \<Rightarrow> (stop + 'a run) option" where
  "process_lines cbs r =
     (let offset = libirc_findcrlf (s_incoming_buf (r_session r)) (s_incoming_offset (r_session r)) in
      if offset = 0 then Some (Inr r)
      else (case libirc_process_incoming_data cbs offset r of
          Inl e \<Rightarrow> Some (Inl e)
        | Inr r \<Rightarrow> process_lines cbs (on_world (on_session (drop_line offset)) r)))"

section \<open>Writing\<close>

text \<open>What a successful write sends is noted with the socket.\<close>

definition world_write :: "'a world \<Rightarrow> 'a world \<times> int" where
  "world_write w =
     (if s_ssl (w_session w) \<and> has_flag (w_session w) SESSIONFL_SSL_WRITE_WANTS_READ
      then (case os_read w of (a, w) \<Rightarrow>
        (case process_writable (w_session w) (within_room (w_session w) a) WriteClosed of (s, rc) \<Rightarrow> (w\<lparr>w_session := s\<rparr>, rc)))
      else (case os_write w of (a, w) \<Rightarrow>
        let a = within_queue (w_session w) a in
        (case process_writable (w_session w) ReadClosed a of (s, rc) \<Rightarrow>
          let sent = (case a of Written n \<Rightarrow> take n (queued (w_session w)) | _ \<Rightarrow> []) in
          (note_sent (s_sock s) sent (w\<lparr>w_session := s\<rparr>), rc))))"

section \<open>One round\<close>

definition lost :: "'a run \<Rightarrow> 'a run \<times> int" where
  "lost r = (on_world (on_session (\<lambda>s. fst (connection_lost s))) r, 1)"

definition received :: "nat \<Rightarrow> 'a run \<Rightarrow> 'a run" where
  "received len r =
     (let s = r_session r in
      on_world (on_session (\<lambda>s. s\<lparr>s_incoming_offset := s_incoming_offset s + len\<rparr>))
        (r\<lparr>r_received := r_received r @ take len (drop (s_incoming_offset s) (s_incoming_buf s))\<rparr>))"

definition process_connected :: "'a irc_callbacks \<Rightarrow> 'a run \<Rightarrow> (stop + ('a run \<times> int)) option" where
  "process_connected cbs r =
     (let sock = s_sock (r_session r);
          write = (\<lambda>r. if fdwatch_check_fd (r_world r) (s_sock (r_session r)) FDW_WRITE
             then (case world_write (r_world r) of (w, rc) \<Rightarrow> (r\<lparr>r_world := w\<rparr>, rc)) else (r, 0)) in
      if fdwatch_check_fd (r_world r) sock FDW_READ
      then (case world_read (r_world r) of (w, len) \<Rightarrow>
        let r = r\<lparr>r_world := w\<rparr> in
        if len < 0 then Some (Inr (lost r))
        else (case process_lines cbs (received (nat len) r) of
            None \<Rightarrow> None
          | Some (Inl e) \<Rightarrow> Some (Inl e)
          | Some (Inr r) \<Rightarrow> Some (Inr (write r))))
      else Some (Inr (write r)))"

definition irc_process_select_descriptors :: "'a irc_callbacks \<Rightarrow> 'a run \<Rightarrow> (stop + ('a run \<times> int)) option" where
  "irc_process_select_descriptors cbs r =
     (let s = r_session r in
      if s_sock s < 0 \<or> s_state s = LIBIRC_STATE_INIT \<or> s_state s = LIBIRC_STATE_DISCONNECTED
      then Some (Inr (on_world (fail_with LIBIRC_ERR_STATE) r, 1))
      else (case libirc_dcc_process_descriptors cbs (fail_with LIBIRC_ERR_OK (r_world r)) of
          Inl e \<Rightarrow> Some (Inl e)
        | Inr w \<Rightarrow>
            (let r = r\<lparr>r_world := w\<rparr> in
             if s_state (w_session w) = LIBIRC_STATE_CONNECTING \<and> fdwatch_check_fd w (s_sock (w_session w)) FDW_WRITE
             then Some (and_then (handle_connecting_state w) (\<lambda>(w, rc). Inr (r\<lparr>r_world := w\<rparr>, rc)))
             else if s_state (w_session w) \<noteq> LIBIRC_STATE_CONNECTED
             then Some (Inr (on_world (on_session (\<lambda>s. s\<lparr>s_state := LIBIRC_STATE_DISCONNECTED, s_lasterror := LIBIRC_ERR_STATE\<rparr>)) r, 1))
             else process_connected cbs r)))"

text \<open>One turn of the loop of \<open>irc_run\<close>; the flag says whether the loop goes on.\<close>

definition irc_run_turn :: "'a irc_callbacks \<Rightarrow> watch_answer \<Rightarrow> 'a run \<Rightarrow> (stop + ('a run \<times> int option)) option" where
  "irc_run_turn cbs answer r =
     (let w = watch_fd (s_sock (r_session r)) None (fdwatch_zero (r_world r));
          r = r\<lparr>r_world := fst (irc_add_select_descriptors w)\<rparr> in
      case answer of
        WatchInterrupted \<Rightarrow> Some (Inr (r, None))
      | WatchFailed \<Rightarrow> Some (Inr (on_world (fail_with LIBIRC_ERR_TERMINATED) r, Some 1))
      | WatchReady ready \<Rightarrow>
          (case (case keep_alive_callback cbs of None \<Rightarrow> Inr (report_ready ready (r_world r))
                 | Some k \<Rightarrow> k (report_ready ready (r_world r))) of
             Inl e \<Rightarrow> Some (Inl e)
           | Inr w \<Rightarrow> (case irc_process_select_descriptors cbs (r\<lparr>r_world := w\<rparr>) of
               None \<Rightarrow> None
             | Some (Inl e) \<Rightarrow> Some (Inl e)
             | Some (Inr (r, rc)) \<Rightarrow> Some (Inr (r, if rc \<noteq> 0 then Some 1 else None)))))"

text \<open>The loop, for the answers of a finite time. The second part of the result is the return value,
  or \<open>None\<close> for a loop that still runs when the answers are used up.\<close>

fun irc_run_loop :: "'a irc_callbacks \<Rightarrow> watch_answer list \<Rightarrow> 'a run \<Rightarrow> (stop + ('a run \<times> int option)) option" where
  "irc_run_loop cbs answers r =
     (if \<not> irc_is_connected (r_session r) then Some (Inr (r, Some 0))
      else (case answers of
          [] \<Rightarrow> Some (Inr (r, None))
        | a # rest \<Rightarrow> (case irc_run_turn cbs a r of
            Some (Inr (r, None)) \<Rightarrow> irc_run_loop cbs rest r
          | x \<Rightarrow> x)))"

declare irc_run_loop.simps [simp del]

definition irc_run :: "'a irc_callbacks \<Rightarrow> watch_answer list \<Rightarrow> 'a run \<Rightarrow> (stop + ('a run \<times> int option)) option" where
  "irc_run cbs answers r =
     (if s_state (r_session r) \<noteq> LIBIRC_STATE_CONNECTING
      then Some (Inr (on_world (fail_with LIBIRC_ERR_STATE) r, Some 1))
      else irc_run_loop cbs answers r)"

section \<open>Lines of a stream\<close>

function lines_of :: "string \<Rightarrow> string list" where
  "lines_of s = (let k = findcrlf_from s 0 in if k = 0 then [] else take k s # lines_of (drop k s))"
  by pat_completeness auto
termination
proof (relation "measure length")
  fix s :: string and k
  assume "k = findcrlf_from s 0" "k \<noteq> 0"
  moreover have "findcrlf_from [] 0 = 0" by simp
  ultimately show "(drop k s, s) \<in> measure length" by (cases s) auto
qed simp

declare lines_of.simps [simp del]

definition rest_of :: "string \<Rightarrow> string" where
  "rest_of s = drop (length (concat (lines_of s))) s"

end
