(* ===== verification/Irc_Stream.thy ===== *)
theory Irc_Stream
  imports Irc_Run
begin

text \<open>
  What the main loop does with the bytes of the server: every round returns, the buffers keep their
  bounds, and the lines that are parsed are the lines of the stream, however it is cut into reads.
\<close>

section \<open>Splitting a stream\<close>

lemma findcrlf_shift: "findcrlf_from s n = (if findcrlf_from s 0 = 0 then 0 else n + findcrlf_from s 0)"
proof (induction s arbitrary: n)
  case (Cons a s)
  show ?case
  proof (cases s)
    case (Cons b t)
    then show ?thesis using Cons.IH [of "Suc n"] Cons.IH [of 1] by simp
  qed simp
qed simp

lemma findcrlf_bound: "findcrlf_from s 0 \<le> length s"
proof (induction s)
  case (Cons a s)
  show ?case
  proof (cases s)
    case (Cons b t)
    then show ?thesis using Cons.IH findcrlf_shift [of s 1] by simp
  qed simp
qed simp

lemma findcrlf_append: "findcrlf_from s 0 \<noteq> 0 \<Longrightarrow> findcrlf_from (s @ t) 0 = findcrlf_from s 0"
proof (induction s)
  case (Cons a s)
  show ?case
  proof (cases s)
    case (Cons b u)
    then show ?thesis using Cons.IH Cons.prems findcrlf_shift [of s 1] findcrlf_shift [of "s @ t" 1]
      by (auto split: if_splits)
  next
    case Nil
    then show ?thesis using Cons.prems by simp
  qed
qed simp

lemma lines_of_none: "findcrlf_from s 0 = 0 \<Longrightarrow> lines_of s = [] \<and> rest_of s = s"
  by (simp add: lines_of.simps [of s] rest_of_def)

lemma lines_of_some:
  assumes "findcrlf_from s 0 = k" and "k \<noteq> 0"
  shows "lines_of s = take k s # lines_of (drop k s) \<and> rest_of s = rest_of (drop k s)"
  using assms findcrlf_bound [of s] by (simp add: lines_of.simps [of s] rest_of_def Let_def add.commute)

lemma concat_lines: "concat (lines_of s) @ rest_of s = s"
proof (induction s rule: lines_of.induct)
  case (1 s)
  show ?case
  proof (cases "findcrlf_from s 0 = 0")
    case True
    then show ?thesis using lines_of_none by simp
  next
    case False
    then show ?thesis using "1.IH" lines_of_some [OF refl False] by simp
  qed
qed

text \<open>Bytes that come later change nothing in the lines that are complete.\<close>

lemma lines_append:
  "lines_of (s @ t) = lines_of s @ lines_of (rest_of s @ t) \<and> rest_of (s @ t) = rest_of (rest_of s @ t)"
proof (induction s rule: lines_of.induct)
  case (1 s)
  show ?case
  proof (cases "findcrlf_from s 0 = 0")
    case True
    then show ?thesis using lines_of_none by simp
  next
    case False
    let ?k = "findcrlf_from s 0"
    have "findcrlf_from (s @ t) 0 = ?k" by (rule findcrlf_append [OF False])
    then have "lines_of (s @ t) = take ?k s # lines_of (drop ?k s @ t) \<and> rest_of (s @ t) = rest_of (drop ?k s @ t)"
      using lines_of_some [of "s @ t" ?k] False findcrlf_bound [of s] by simp
    then show ?thesis using "1.IH" [OF refl False] lines_of_some [OF refl False] by simp
  qed
qed

section \<open>The incoming buffer\<close>

definition unread :: "irc_session \<Rightarrow> string" where
  "unread s = take (s_incoming_offset s) (s_incoming_buf s)"

definition conn_kept :: "irc_session \<Rightarrow> irc_session \<Rightarrow> bool" where
  "conn_kept s t \<longleftrightarrow> s_state t = s_state s \<and> s_sock t = s_sock s \<and> s_ssl t = s_ssl s
     \<and> (session_wf s \<longrightarrow> session_wf t \<and> (\<exists>more. queued t = queued s @ more))"

lemma conn_kept_refl [simp]: "conn_kept s s"
  by (simp add: conn_kept_def)

lemma conn_kept_trans: "conn_kept s t \<Longrightarrow> conn_kept t u \<Longrightarrow> conn_kept s u"
  by (auto simp: conn_kept_def)

lemma io_kept_conn: "io_kept s t \<Longrightarrow> conn_kept s t \<and> unread t = unread s"
  by (simp add: io_kept_def conn_kept_def unread_def)

lemma unread_findcrlf: "libirc_findcrlf (s_incoming_buf s) (s_incoming_offset s) = findcrlf_from (unread s) 0"
  by (simp add: libirc_findcrlf_def unread_def)

lemma unread_length: "session_wf s \<Longrightarrow> length (unread s) = s_incoming_offset s"
  by (simp add: unread_def session_wf_def)

lemma drop_line_ok:
  assumes "session_wf s" and "k \<le> s_incoming_offset s"
  shows "conn_kept s (drop_line k s) \<and> unread (drop_line k s) = drop k (unread s)"
proof -
  have left: "size_sub (s_incoming_offset s) k = s_incoming_offset s - k"
    using assms by (simp add: session_wf_defs SIZE_MOD_def)
  have b: "length (s_incoming_buf s) = LIBIRC_BUFFER_SIZE" "s_incoming_offset s < LIBIRC_BUFFER_SIZE"
    using assms(1) by (simp_all add: session_wf_def)
  let ?b = "shift_down (s_incoming_buf s) (s_incoming_offset s) k"
  have "length ?b = LIBIRC_BUFFER_SIZE"
    using b assms(2) by (simp add: shift_down_def mem_put_length)
  moreover have "take (s_incoming_offset s - k) ?b = drop k (take (s_incoming_offset s) (s_incoming_buf s))"
    using b assms(2) by (simp add: shift_down_def mem_put_def drop_take)
  ultimately show ?thesis using assms b
    by (auto simp: drop_line_def left Let_def conn_kept_def session_wf_def queued_def unread_def)
qed

section \<open>Processing the lines\<close>

context io_client
begin

lemma process_line:
  assumes "libirc_process_incoming_data cbs k r = Inr q"
  shows "r_lines q = r_lines r @ [take k (s_incoming_buf (r_session r))] \<and> r_received q = r_received r
     \<and> io_kept (r_session r) (r_session q)"
proof -
  let ?line = "take k (s_incoming_buf (r_session r))"
  obtain p n where p: "irc_parser_execute (line_parser_settings cbs) ((r_parser r)\<lparr>p_data := Inr (r_world r)\<rparr>) ?line = Inr (p, n)"
    using assms by (auto simp: libirc_process_incoming_data_def Let_def split: sum.splits)
  then obtain u v where u: "p_data p = Inr u" "free_parser_result u = Inr v"
    "q = r\<lparr>r_parser := p, r_world := v, r_lines := r_lines r @ [?line]\<rparr>"
    using assms by (auto simp: libirc_process_incoming_data_def and_then_Inr_iff)
  have "kept (r_session r) (p_data p)"
    by (rule conn.execute_line_kept [OF _ p]) (simp add: r_session_def)
  then have "io_kept (r_session r) (w_session v)" using u(1) free_result_step [OF u(2)]
    by (auto simp: lib_step_def intro: io_kept_trans)
  then show ?thesis by (simp add: u(3) r_session_def)
qed

lemma process_lines_returns:
  assumes "session_wf (r_session r)"
  shows "\<exists>res. process_lines cbs r = Some res \<and> (\<forall>q. res = Inr q \<longrightarrow>
     r_lines q = r_lines r @ lines_of (unread (r_session r)) \<and> unread (r_session q) = rest_of (unread (r_session r))
     \<and> r_received q = r_received r \<and> conn_kept (r_session r) (r_session q))"
  using assms
proof (induction "length (unread (r_session r))" arbitrary: r rule: less_induct)
  case less
  let ?s = "r_session r"
  let ?k = "findcrlf_from (unread ?s) 0"
  show ?case
  proof (cases "?k = 0")
    case True
    then show ?thesis using lines_of_none [OF True]
      by (subst process_lines.simps) (simp add: unread_findcrlf)
  next
    case False
    have step: "process_lines cbs r = (case libirc_process_incoming_data cbs ?k r of
        Inl e \<Rightarrow> Some (Inl e) | Inr r \<Rightarrow> process_lines cbs (on_world (on_session (drop_line ?k)) r))"
      using False by (subst process_lines.simps) (simp add: unread_findcrlf Let_def)
    show ?thesis
    proof (cases "libirc_process_incoming_data cbs ?k r")
      case (Inl e)
      then show ?thesis using step by simp
    next
      case (Inr q)
      note q = process_line [OF Inr]
      have io: "conn_kept ?s (r_session q)" "unread (r_session q) = unread ?s" using q io_kept_conn by blast+
      have wf: "session_wf (r_session q)" using io(1) less.prems by (simp add: conn_kept_def)
      have k: "?k \<le> length (unread ?s)" by (rule findcrlf_bound)
      have off: "?k \<le> s_incoming_offset (r_session q)" using k io(2) unread_length [OF wf] by simp
      let ?t = "on_world (on_session (drop_line ?k)) q"
      have t: "r_session ?t = drop_line ?k (r_session q)" "r_lines ?t = r_lines q" "r_received ?t = r_received q"
        by (simp_all add: on_world_def r_session_def)
      have d: "conn_kept (r_session q) (r_session ?t)" "unread (r_session ?t) = drop ?k (unread ?s)"
        using drop_line_ok [OF wf off] io(2) t(1) by simp_all
      have line: "take ?k (s_incoming_buf ?s) = take ?k (unread ?s)"
        using k unread_length [OF less.prems] by (simp add: unread_def min_absorb1)
      have "length (unread (r_session ?t)) < length (unread ?s)" using d(2) False k by simp
      moreover have "session_wf (r_session ?t)" using d(1) wf by (simp add: conn_kept_def)
      ultimately obtain res where res: "process_lines cbs ?t = Some res" "\<forall>u. res = Inr u \<longrightarrow>
         r_lines u = r_lines ?t @ lines_of (unread (r_session ?t)) \<and> unread (r_session u) = rest_of (unread (r_session ?t))
         \<and> r_received u = r_received ?t \<and> conn_kept (r_session ?t) (r_session u)"
        using less.hyps by blast
      have "conn_kept ?s (r_session ?t)" by (rule conn_kept_trans [OF io(1) d(1)])
      then have "conn_kept ?s (r_session u)" if "res = Inr u" for u
        using res(2) that conn_kept_trans by blast
      moreover have "process_lines cbs r = Some res" using res(1) step Inr by simp
      moreover have "r_lines u = r_lines r @ lines_of (unread ?s) \<and> unread (r_session u) = rest_of (unread ?s)
          \<and> r_received u = r_received r" if "res = Inr u" for u
        using res(2) that q t(2,3) d(2) line lines_of_some [OF refl False] by simp
      ultimately show ?thesis by blast
    qed
  qed
qed

end

section \<open>The invariant of the loop\<close>

text \<open>On a plain connection the lines parsed so far and the bytes kept are those of the bytes read.\<close>

definition stream_inv :: "bool \<Rightarrow> 'a run \<Rightarrow> bool" where
  "stream_inv tls r \<longleftrightarrow> session_wf (r_session r) \<and> s_ssl (r_session r) = tls
     \<and> (\<not> tls \<longrightarrow>
          r_lines r = lines_of (r_received r) \<and> unread (r_session r) = rest_of (r_received r))"

text \<open>What one step may do to it: everything but the socket's own bytes stays.\<close>

definition step_kept :: "'a run \<Rightarrow> 'a run \<Rightarrow> bool" where
  "step_kept r q \<longleftrightarrow> s_ssl (r_session q) = s_ssl (r_session r) \<and> r_lines q = r_lines r \<and> r_received q = r_received r
     \<and> unread (r_session q) = unread (r_session r) \<and> (session_wf (r_session r) \<longrightarrow> session_wf (r_session q))"

lemma step_kept_inv: "step_kept r q \<Longrightarrow> stream_inv tls r \<Longrightarrow> stream_inv tls q"
  by (simp add: step_kept_def stream_inv_def)

lemma step_kept_trans: "step_kept r q \<Longrightarrow> step_kept q u \<Longrightarrow> step_kept r u"
  by (simp add: step_kept_def)

lemma world_step: "io_kept (r_session r) (w_session w) \<Longrightarrow> step_kept r (r\<lparr>r_world := w\<rparr>)"
  using io_kept_conn by (fastforce simp: step_kept_def r_session_def conn_kept_def)

lemma same_buffers_step:
  assumes "s_ssl (w_session w) = s_ssl (r_session r)" "s_incoming_buf (w_session w) = s_incoming_buf (r_session r)"
    "s_incoming_offset (w_session w) = s_incoming_offset (r_session r)"
    "session_wf (r_session r) \<longrightarrow> session_wf (w_session w)"
  shows "step_kept r (r\<lparr>r_world := w\<rparr>)"
  using assms by (simp add: step_kept_def r_session_def unread_def)

subsection \<open>Reading\<close>

lemma read_room_wf: "session_wf s \<Longrightarrow> read_room s = LIBIRC_BUFFER_SIZE - 1 - s_incoming_offset s"
  by (simp add: read_room_def session_wf_defs SIZE_MOD_def)

lemma store_incoming_ok:
  assumes "session_wf s" and "length xs \<le> read_room s"
  shows "session_wf (store_incoming s xs)" "s_incoming_offset (store_incoming s xs) = s_incoming_offset s"
    "take (s_incoming_offset s + length xs) (s_incoming_buf (store_incoming s xs)) = unread s @ xs"
    "s_incoming_offset s + length xs < LIBIRC_BUFFER_SIZE" "unread (store_incoming s xs) = unread s"
    "take (length xs) (drop (s_incoming_offset s) (s_incoming_buf (store_incoming s xs))) = xs"
proof -
  have n: "length (s_incoming_buf s) = LIBIRC_BUFFER_SIZE" "s_incoming_offset s < LIBIRC_BUFFER_SIZE"
    using assms(1) by (simp_all add: session_wf_def)
  show fits: "s_incoming_offset s + length xs < LIBIRC_BUFFER_SIZE"
    using assms(2) n(2) by (simp add: read_room_wf [OF assms(1)])
  show "session_wf (store_incoming s xs)"
    using assms(1) n fits by (simp add: store_incoming_def session_wf_def mem_put_length)
  show "s_incoming_offset (store_incoming s xs) = s_incoming_offset s" by (simp add: store_incoming_def)
  show t: "take (s_incoming_offset s + length xs) (s_incoming_buf (store_incoming s xs)) = unread s @ xs"
    using n by (simp add: store_incoming_def take_mem_put unread_def)
  show "unread (store_incoming s xs) = unread s"
    using n by (simp add: store_incoming_def mem_put_def unread_def)
  have "take (length xs) (drop (s_incoming_offset s) (s_incoming_buf (store_incoming s xs)))
      = drop (s_incoming_offset s) (unread s @ xs)"
    unfolding t [symmetric] by (simp add: drop_take)
  then show "take (length xs) (drop (s_incoming_offset s) (s_incoming_buf (store_incoming s xs))) = xs"
    using unread_length [OF assms(1)] by simp
qed

text \<open>Sessions that agree on the connection and on both buffers.\<close>

definition same_conn :: "irc_session \<Rightarrow> irc_session \<Rightarrow> bool" where
  "same_conn s t \<longleftrightarrow> s_state t = s_state s \<and> s_sock t = s_sock s \<and> s_ssl t = s_ssl s
     \<and> s_incoming_buf t = s_incoming_buf s \<and> s_incoming_offset t = s_incoming_offset s
     \<and> s_outgoing_buf t = s_outgoing_buf s \<and> s_outgoing_offset t = s_outgoing_offset s"

lemma same_conn_wf: "same_conn s t \<Longrightarrow> session_wf t = session_wf s \<and> unread t = unread s \<and> queued t = queued s"
  by (simp add: same_conn_def session_wf_def unread_def queued_def)

lemma store_nothing [simp]: "store_incoming s [] = s"
  by (simp add: store_incoming_def mem_put_def)

lemma ssl_recv_stores:
  assumes "ssl_recv s (within_room s a) = (t, n)"
  shows "\<exists>xs. same_conn (store_incoming s xs) t \<and> length xs \<le> read_room s \<and> (0 \<le> n \<longrightarrow> n = int (length xs))"
proof (cases "within_room s a")
  case (ReadBytes xs)
  then have "length xs \<le> read_room s" by (auto simp: within_room_def Let_def split: read_answer.splits if_splits)
  then show ?thesis using assms ReadBytes by (intro exI [of _ xs]) (auto simp: ssl_recv_def same_conn_def)
qed (use assms in \<open>auto simp: ssl_recv_def ssl_handle_error_def same_conn_def intro!: exI [of _ "[]"]
    split: ssl_error.splits ssl_reason.splits\<close>)

lemma ssl_send_conn: "ssl_send s a = (t, n) \<Longrightarrow> same_conn s t"
  by (auto simp: ssl_send_def ssl_handle_error_def same_conn_def split: write_answer.splits ssl_error.splits ssl_reason.splits)

lemma world_read_stores:
  assumes "world_read w = (v, n)"
  shows "\<exists>xs. same_conn (store_incoming (w_session w) xs) (w_session v) \<and> length xs \<le> read_room (w_session w)
     \<and> (0 \<le> n \<longrightarrow> n = int (length xs))"
proof (cases "s_ssl (w_session w) \<and> has_flag (w_session w) SESSIONFL_SSL_READ_WANTS_WRITE")
  case True
  obtain a w1 where a: "os_write w = (a, w1)" by (cases "os_write w")
  have s: "w_session w1 = w_session w" using os_session(3) [OF a] .
  obtain t k where t: "ssl_send (clear_flag (w_session w) SESSIONFL_SSL_READ_WANTS_WRITE) (within_queue (w_session w) a) = (t, k)"
    by fastforce
  have v: "w_session v = t" "n = 0"
    using assms True by (auto simp: world_read_def a s session_socket_read_def t)
  have "same_conn (w_session w) (clear_flag (w_session w) SESSIONFL_SSL_READ_WANTS_WRITE)"
    by (simp add: clear_flag_def same_conn_def)
  then have "same_conn (w_session w) (w_session v) \<and> n = 0"
    using ssl_send_conn [OF t] v unfolding same_conn_def by simp
  then show ?thesis by (intro exI [of _ "[]"]) simp
next
  case False
  obtain a w1 where a: "os_read w = (a, w1)" by (cases "os_read w")
  have s: "w_session w1 = w_session w" using os_session(2) [OF a] .
  obtain t k where t: "session_socket_read (w_session w) (within_room (w_session w) a) WriteClosed = (t, k)" by fastforce
  have v: "w_session v = t" "n = k" using assms by (auto simp: world_read_def False a s t)
  show ?thesis
  proof (cases "s_ssl (w_session w)")
    case True
    then show ?thesis using t v ssl_recv_stores [of "w_session w" a] False by (simp add: session_socket_read_def)
  next
    case plain: False
    show ?thesis
    proof (cases "within_room (w_session w) a")
      case (ReadBytes xs)
      then have "length xs \<le> read_room (w_session w)"
        by (auto simp: within_room_def Let_def split: read_answer.splits if_splits)
      then show ?thesis using t v plain ReadBytes
        by (intro exI [of _ xs]) (auto simp: session_socket_read_def same_conn_def)
    qed (use t v plain in \<open>auto simp: session_socket_read_def same_conn_def intro!: exI [of _ "[]"]\<close>)
  qed
qed

text \<open>What a read leaves when its bytes are counted.\<close>

lemma received_bytes:
  assumes "session_wf (r_session r)" and "world_read (r_world r) = (w, n)" and "0 \<le> n"
  shows "\<exists>xs. (let q = received (nat n) (r\<lparr>r_world := w\<rparr>) in session_wf (r_session q) \<and> unread (r_session q) = unread (r_session r) @ xs
     \<and> r_received q = r_received r @ xs \<and> r_lines q = r_lines r \<and> s_ssl (r_session q) = s_ssl (r_session r)
     \<and> s_state (r_session q) = s_state (r_session r) \<and> s_sock (r_session q) = s_sock (r_session r)
     \<and> queued (r_session q) = queued (r_session r))"
proof -
  obtain xs where xs: "same_conn (store_incoming (r_session r) xs) (w_session w)" "length xs \<le> read_room (r_session r)"
    "n = int (length xs)"
    using world_read_stores [OF assms(2)] assms(3) by (auto simp: r_session_def)
  note ok = store_incoming_ok [OF assms(1) xs(2)]
  have f: "s_outgoing_buf (store_incoming (r_session r) xs) = s_outgoing_buf (r_session r)"
    "s_outgoing_offset (store_incoming (r_session r) xs) = s_outgoing_offset (r_session r)"
    "s_state (store_incoming (r_session r) xs) = s_state (r_session r)"
    "s_sock (store_incoming (r_session r) xs) = s_sock (r_session r)"
    "s_ssl (store_incoming (r_session r) xs) = s_ssl (r_session r)" by (simp_all add: store_incoming_def)
  show ?thesis
    using xs(1,3) ok f
    by (intro exI [of _ xs]) (auto simp: received_def on_world_def Let_def r_session_def same_conn_def
        session_wf_def unread_def queued_def)
qed

subsection \<open>Writing\<close>

lemma process_writable_ok:
  assumes "session_wf s" and "process_writable s (within_room s ra) (within_queue s wa) = (t, rc)"
  shows "session_wf t \<and> unread t = unread s \<and> s_ssl t = s_ssl s"
proof -
  obtain u n where u: "session_socket_write s (within_room s ra) (within_queue s wa) = (u, n)" by fastforce
  have written: "k \<le> s_outgoing_offset s" if "within_queue s wa = Written k" for k
    using that by (auto simp: within_queue_def Let_def split: write_answer.splits if_splits)
  have conn: "session_wf u \<and> unread u = unread s \<and> s_ssl u = s_ssl s \<and> (0 < n \<longrightarrow> nat n \<le> s_outgoing_offset u)"
  proof (cases "s_ssl s")
    case False
    then show ?thesis using u assms(1) written by (auto simp: session_socket_write_def split: write_answer.splits)
  next
    case True
    show ?thesis
    proof (cases "has_flag s SESSIONFL_SSL_WRITE_WANTS_READ")
      case want: True
      let ?c = "clear_flag s SESSIONFL_SSL_WRITE_WANTS_READ"
      have c: "same_conn s ?c" "read_room ?c = read_room s" by (simp_all add: clear_flag_def same_conn_def read_room_def)
      then have w: "within_room s ra = within_room ?c ra"
        by (simp add: within_room_def c(2) split: read_answer.split)
      obtain xs where xs: "same_conn (store_incoming ?c xs) u" "length xs \<le> read_room ?c"
        using ssl_recv_stores [of ?c ra u] u True want w
        by (cases "ssl_recv ?c (within_room s ra)") (auto simp: session_socket_write_def)
      have wf: "session_wf ?c" using same_conn_wf [OF c(1)] assms(1) by simp
      show ?thesis
        using store_incoming_ok [OF wf xs(2)] same_conn_wf [OF xs(1)] same_conn_wf [OF c(1)] xs(1) u True want
        by (auto simp: same_conn_def store_incoming_def clear_flag_def session_socket_write_def)
    next
      case False
      then have "ssl_send s (within_queue s wa) = (u, n)" using u True by (simp add: session_socket_write_def)
      moreover from this have "same_conn s u" by (rule ssl_send_conn)
      moreover from calculation have "0 < n \<longrightarrow> within_queue s wa = Written (nat n)"
        by (auto simp: ssl_send_def split: write_answer.splits ssl_error.splits)
      ultimately show ?thesis using same_conn_wf [of s u] assms(1) written by (auto simp: same_conn_def)
    qed
  qed
  show ?thesis
  proof (cases "n < 0")
    case True
    then show ?thesis using assms(2) conn u by (auto simp: process_writable_def connection_lost_def session_wf_def unread_def split: if_splits)
  next
    case False
    have b: "nat n \<le> s_outgoing_offset u" using conn False by (cases "n = 0") auto
    have l: "length (s_outgoing_buf u) = 2048" "s_outgoing_offset u < 2048" using conn by (auto simp: session_wf_defs)
    have "size_sub (s_outgoing_offset u) (nat n) = s_outgoing_offset u - nat n" using b l by (simp add: SIZE_MOD_def)
    moreover have "length (shift_down (s_outgoing_buf u) (s_outgoing_offset u) (nat n)) = 2048"
      using shift_down_take(2) [OF b] l by simp
    ultimately show ?thesis using assms(2) conn u False l
      by (auto simp: process_writable_def Let_def session_wf_defs unread_def split: if_splits)
  qed
qed

lemma world_write_ok:
  assumes "session_wf (w_session w)" and "world_write w = (v, rc)"
  shows "session_wf (w_session v) \<and> unread (w_session v) = unread (w_session w) \<and> s_ssl (w_session v) = s_ssl (w_session w)"
proof -
  have n: "w_session (note_sent fd xs u) = w_session u" for fd xs u by (simp add: note_sent_def)
  have c: "WriteClosed = within_queue (w_session w) WriteClosed" "ReadClosed = within_room (w_session w) ReadClosed"
    by (simp_all add: within_queue_def within_room_def)
  show ?thesis
  proof (cases "s_ssl (w_session w) \<and> has_flag (w_session w) SESSIONFL_SSL_WRITE_WANTS_READ")
    case True
    obtain a u where a: "os_read w = (a, u)" by (cases "os_read w")
    have "w_session u = w_session w" using os_session(2) [OF a] .
    then show ?thesis using assms(2) True process_writable_ok [OF assms(1), of a WriteClosed, folded c(1)]
      by (cases "process_writable (w_session w) (within_room (w_session w) a) WriteClosed") (auto simp: world_write_def a)
  next
    case False
    obtain a u where a: "os_write w = (a, u)" by (cases "os_write w")
    have "w_session u = w_session w" using os_session(3) [OF a] .
    then show ?thesis using assms(2) False process_writable_ok [OF assms(1), of ReadClosed a, folded c(2)]
      by (cases "process_writable (w_session w) ReadClosed (within_queue (w_session w) a)") (auto simp: world_write_def a Let_def n)
  qed
qed

subsection \<open>A round\<close>

lemma fail_with_session [simp]: "w_session (fail_with e w) = (w_session w)\<lparr>s_lasterror := e\<rparr>"
  by (simp add: fail_with_def)

lemma watch_session [simp]:
  "w_session (watch_fd fd i w) = w_session w" "w_session (fdwatch_zero w) = w_session w"
  "w_session (report_ready ready w) = w_session w"
  by (simp_all add: watch_fd_def fdwatch_zero_def report_ready_def)

lemma dcc_add_kept: "io_kept s (w_session (libirc_dcc_add_descriptors w)) = io_kept s (w_session w)"
  by (simp add: libirc_dcc_add_descriptors_def Let_def)

lemma add_descriptors_kept: "io_kept (w_session w) (w_session (fst (irc_add_select_descriptors w)))"
  by (auto simp: irc_add_select_descriptors_def Let_def dcc_add_kept split: libirc_state.splits)

lemma introduce_kept:
  assumes "introduce w = Inr v"
  shows "io_kept (w_session w) (w_session v)"
proof -
  define u where "u = (case s_server_password (w_session w) of None \<Rightarrow> w
     | Some p \<Rightarrow> fst (w_send (\<lambda>s. irc_send_raw s (line256 (''PASS '' @ cstr p))) w))"
  have "io_kept (w_session w) (w_session u)" by (auto simp: u_def io_kept_send split: option.splits)
  then show ?thesis using assms unfolding introduce_def u_def [symmetric]
    by (auto simp: Let_def io_kept_send split: option.splits)
qed

lemma connecting_ok:
  assumes "handle_connecting_state w = Inr (v, rc)"
  shows "s_ssl (w_session v) = s_ssl (w_session w) \<and> s_incoming_buf (w_session v) = s_incoming_buf (w_session w)
     \<and> s_incoming_offset (w_session v) = s_incoming_offset (w_session w) \<and> s_sock (w_session v) = s_sock (w_session w)
     \<and> (session_wf (w_session w) \<longrightarrow> session_wf (w_session v))"
proof -
  obtain x w1 where w1: "os_ret w = (x, w1)" by (cases "os_ret w")
  obtain y w2 where w2: "(if x < 0 then (-1, w1) else os_ret w1) = (y, w2)" by fastforce
  have s: "w_session w2 = w_session w" using w2 os_session(1) [OF w1] os_session(1) [of w1 y w2] by (auto split: if_splits)
  show ?thesis
  proof (cases "y < 0")
    case True
    then show ?thesis using assms by (auto simp: handle_connecting_state_def w1 w2 s session_wf_def)
  next
    case False
    then have "introduce (on_session (\<lambda>s. s\<lparr>s_state := LIBIRC_STATE_CONNECTED\<rparr>) w2) = Inr v"
      using assms by (auto simp: handle_connecting_state_def w1 w2 and_then_Inr_iff)
    from introduce_kept [OF this] show ?thesis by (simp add: s io_kept_def session_wf_def)
  qed
qed

context io_client
begin

lemma write_part_inv:
  assumes "stream_inv tls r"
  shows "stream_inv tls (fst (if b then (case world_write (r_world r) of (w, rc) \<Rightarrow> (r\<lparr>r_world := w\<rparr>, rc)) else (r, 0)))"
proof -
  obtain w rc where w: "world_write (r_world r) = (w, rc)" by fastforce
  have "session_wf (r_session r)" using assms by (simp add: stream_inv_def)
  then show ?thesis using world_write_ok [OF _ w] assms by (auto simp: w stream_inv_def r_session_def)
qed

lemma process_connected_inv:
  assumes "stream_inv tls r"
  shows "\<exists>res. process_connected cbs r = Some res \<and> (\<forall>q rc. res = Inr (q, rc) \<longrightarrow> stream_inv tls q)"
proof (cases "fdwatch_check_fd (r_world r) (s_sock (r_session r)) FDW_READ")
  case False
  obtain q rc where "(if fdwatch_check_fd (r_world r) (s_sock (r_session r)) FDW_WRITE
      then (case world_write (r_world r) of (w, rc) \<Rightarrow> (r\<lparr>r_world := w\<rparr>, rc)) else (r, 0)) = (q, rc)" by fastforce
  then show ?thesis using False write_part_inv [OF assms, of "fdwatch_check_fd (r_world r) (s_sock (r_session r)) FDW_WRITE"]
    by (simp only: process_connected_def Let_def if_False) simp
next
  case True
  obtain w n where w: "world_read (r_world r) = (w, n)" by fastforce
  have wf: "session_wf (r_session r)" using assms by (simp add: stream_inv_def)
  let ?r = "r\<lparr>r_world := w\<rparr>"
  show ?thesis
  proof (cases "n < 0")
    case neg: True
    obtain xs where xs: "same_conn (store_incoming (r_session r) xs) (w_session w)" "length xs \<le> read_room (r_session r)"
      using world_read_stores [OF w] by (auto simp: r_session_def)
    have "session_wf (w_session w) \<and> unread (w_session w) = unread (r_session r) \<and> s_ssl (w_session w) = s_ssl (r_session r)"
      using same_conn_wf [OF xs(1)] store_incoming_ok [OF wf xs(2)] xs(1) by (simp add: same_conn_def store_incoming_def)
    then have "stream_inv tls (fst (lost ?r))"
      using assms by (auto simp: lost_def stream_inv_def on_world_def r_session_def connection_lost_def session_wf_def unread_def)
    then show ?thesis using True w neg by (auto simp: process_connected_def Let_def)
  next
    case False
    let ?q = "received (nat n) ?r"
    obtain xs where xs: "session_wf (r_session ?q)" "unread (r_session ?q) = unread (r_session r) @ xs"
      "r_received ?q = r_received r @ xs" "r_lines ?q = r_lines r" "s_ssl (r_session ?q) = s_ssl (r_session r)"
      using received_bytes [OF wf w] False by (auto simp: Let_def)
    obtain res where res: "process_lines cbs ?q = Some res" "\<forall>u. res = Inr u \<longrightarrow>
        r_lines u = r_lines ?q @ lines_of (unread (r_session ?q)) \<and> unread (r_session u) = rest_of (unread (r_session ?q))
        \<and> r_received u = r_received ?q \<and> conn_kept (r_session ?q) (r_session u)"
      using process_lines_returns [OF xs(1)] by blast
    have inv: "stream_inv tls u" if "res = Inr u" for u
    proof -
      have u: "r_lines u = r_lines r @ lines_of (unread (r_session r) @ xs)" "unread (r_session u) = rest_of (unread (r_session r) @ xs)"
        "r_received u = r_received r @ xs" "conn_kept (r_session ?q) (r_session u)"
        using res(2) that xs by simp_all
      have c: "session_wf (r_session u)" "s_ssl (r_session u) = s_ssl (r_session r)"
        using u(4) xs(1,5) by (simp_all add: conn_kept_def)
      show ?thesis using u(1-3) c assms lines_append [of "r_received r" xs] by (simp add: stream_inv_def)
    qed
    show ?thesis
    proof (cases res)
      case (Inl e)
      then show ?thesis using True w False res(1) by (simp add: process_connected_def Let_def)
    next
      case (Inr u)
      obtain x rc where x: "(if fdwatch_check_fd (r_world u) (s_sock (r_session u)) FDW_WRITE
          then (case world_write (r_world u) of (w, rc) \<Rightarrow> (u\<lparr>r_world := w\<rparr>, rc)) else (u, 0)) = (x, rc)" by fastforce
      then have "process_connected cbs r = Some (Inr (x, rc))"
        using True w False res(1) Inr by (simp add: process_connected_def Let_def)
      then show ?thesis
        using write_part_inv [OF inv [OF Inr], of "fdwatch_check_fd (r_world u) (s_sock (r_session u)) FDW_WRITE"] x by simp
    qed
  qed
qed

text \<open>A round never hangs.\<close>

lemma process_select_inv:
  assumes "stream_inv tls r"
  shows "\<exists>res. irc_process_select_descriptors cbs r = Some res \<and> (\<forall>q rc. res = Inr (q, rc) \<longrightarrow> stream_inv tls q)"
proof (cases "s_sock (r_session r) < 0 \<or> s_state (r_session r) = LIBIRC_STATE_INIT \<or> s_state (r_session r) = LIBIRC_STATE_DISCONNECTED")
  case True
  have "stream_inv tls (on_world (fail_with LIBIRC_ERR_STATE) r)"
    using assms by (simp add: stream_inv_def on_world_def r_session_def session_wf_def unread_def)
  then show ?thesis using True by (simp add: irc_process_select_descriptors_def Let_def)
next
  case False
  have k: "kept (r_session r) (libirc_dcc_process_descriptors cbs (fail_with LIBIRC_ERR_OK (r_world r)))"
    by (rule conn.process_descriptors_kept) (simp add: r_session_def)
  show ?thesis
  proof (cases "libirc_dcc_process_descriptors cbs (fail_with LIBIRC_ERR_OK (r_world r))")
    case (Inl e)
    then show ?thesis using False by (auto simp: irc_process_select_descriptors_def Let_def)
  next
    case (Inr w)
    let ?r = "r\<lparr>r_world := w\<rparr>"
    have step: "step_kept r ?r" by (rule world_step) (use k Inr in simp)
    have inv: "stream_inv tls ?r" by (rule step_kept_inv [OF step assms])
    have conn: "stream_inv tls (r\<lparr>r_world := v\<rparr>)" if "handle_connecting_state w = Inr (v, rc)" for v rc
      using connecting_ok [OF that] inv by (auto simp: stream_inv_def r_session_def unread_def)
    have disc: "stream_inv tls (on_world (on_session (\<lambda>s. s\<lparr>s_state := LIBIRC_STATE_DISCONNECTED, s_lasterror := LIBIRC_ERR_STATE\<rparr>)) ?r)"
      using inv by (simp add: stream_inv_def on_world_def r_session_def session_wf_def unread_def)
    show ?thesis
      using False Inr conn disc process_connected_inv [OF inv]
      by (auto simp: irc_process_select_descriptors_def Let_def and_then_Inr_iff)
  qed
qed

lemma turn_inv:
  assumes "stream_inv tls r"
  shows "\<exists>res. irc_run_turn cbs a r = Some res \<and> (\<forall>q x. res = Inr (q, x) \<longrightarrow> stream_inv tls q)"
proof -
  let ?w = "fst (irc_add_select_descriptors (watch_fd (s_sock (r_session r)) None (fdwatch_zero (r_world r))))"
  let ?r = "r\<lparr>r_world := ?w\<rparr>"
  have io: "io_kept (r_session r) (w_session ?w)"
    using add_descriptors_kept [of "watch_fd (s_sock (r_session r)) None (fdwatch_zero (r_world r))"] by (simp add: r_session_def)
  have inv: "stream_inv tls ?r" by (rule step_kept_inv [OF world_step [OF io] assms])
  show ?thesis
  proof (cases a)
    case WatchInterrupted
    then show ?thesis using inv by (simp add: irc_run_turn_def Let_def)
  next
    case WatchFailed
    have "stream_inv tls (on_world (fail_with LIBIRC_ERR_TERMINATED) ?r)"
      using inv by (simp add: stream_inv_def on_world_def r_session_def session_wf_def unread_def)
    then show ?thesis using WatchFailed by (simp add: irc_run_turn_def Let_def)
  next
    case (WatchReady ready)
    let ?k = "case keep_alive_callback cbs of None \<Rightarrow> Inr (report_ready ready ?w) | Some k \<Rightarrow> k (report_ready ready ?w)"
    have k: "kept (r_session r) ?k" using io by (auto intro: conn.keep_alive_law split: option.splits)
    show ?thesis
    proof (cases ?k)
      case (Inl e)
      then show ?thesis using WatchReady
        by (cases "keep_alive_callback cbs") (auto simp: irc_run_turn_def Let_def)
    next
      case (Inr w)
      have "stream_inv tls (r\<lparr>r_world := w\<rparr>)"
        by (rule step_kept_inv [OF world_step assms]) (use k Inr in simp)
      then obtain res where res: "irc_process_select_descriptors cbs (r\<lparr>r_world := w\<rparr>) = Some res"
        "\<forall>q rc. res = Inr (q, rc) \<longrightarrow> stream_inv tls q"
        using process_select_inv by blast
      then show ?thesis using WatchReady Inr
        by (cases "keep_alive_callback cbs"; cases res) (auto simp: irc_run_turn_def Let_def)
    qed
  qed
qed

lemma loop_inv:
  "stream_inv tls r \<Longrightarrow> \<exists>res. irc_run_loop cbs answers r = Some res \<and> (\<forall>q x. res = Inr (q, x) \<longrightarrow> stream_inv tls q)"
proof (induction answers arbitrary: r)
  case Nil
  then show ?case by (subst irc_run_loop.simps) simp
next
  case (Cons a rest)
  obtain res where res: "irc_run_turn cbs a r = Some res" "\<forall>q x. res = Inr (q, x) \<longrightarrow> stream_inv tls q"
    using turn_inv [OF Cons.prems] by blast
  show ?case
  proof (cases "\<exists>q. irc_is_connected (r_session r) \<and> res = Inr (q, None)")
    case True
    then obtain q where q: "irc_is_connected (r_session r)" "res = Inr (q, None)" by blast
    then show ?thesis using Cons.IH [of q] res by (subst irc_run_loop.simps) simp
  next
    case False
    then show ?thesis using res Cons.prems
      by (subst irc_run_loop.simps) (auto split: sum.splits option.splits)
  qed
qed

end

end
