(* ===== verification/Irc_Status.thy ===== *)
theory Irc_Status
  imports Irc_Stream
begin

text \<open>
  How the main loop ends: it runs while the session connects or is connected, it returns \<open>1\<close> only, and
  then the session is disconnected or waiting failed, and there is an error code.
\<close>

definition running :: "'a run \<Rightarrow> bool" where
  "running r \<longleftrightarrow> irc_is_connected (r_session r) \<and> 0 \<le> s_sock (r_session r)"

definition ended :: "'a run \<Rightarrow> bool" where
  "ended r \<longleftrightarrow> s_lasterror (r_session r) \<noteq> LIBIRC_ERR_OK
     \<and> (s_state (r_session r) = LIBIRC_STATE_DISCONNECTED \<or> s_lasterror (r_session r) = LIBIRC_ERR_TERMINATED)"

lemma io_running: "io_kept (r_session r) (w_session w) \<Longrightarrow> running r \<Longrightarrow> running (r\<lparr>r_world := w\<rparr>)"
  by (simp add: running_def io_kept_def r_session_def irc_is_connected_def)

lemma lost_ended: "ended (fst (lost r))"
  by (simp add: ended_def lost_def on_world_def r_session_def connection_lost_def)

lemma connecting_status:
  assumes "handle_connecting_state w = Inr (v, rc)" and "0 \<le> s_sock (w_session w)"
  shows "if rc = 0 then s_state (w_session v) = LIBIRC_STATE_CONNECTED \<and> 0 \<le> s_sock (w_session v)
     else s_state (w_session v) = LIBIRC_STATE_DISCONNECTED \<and> s_lasterror (w_session v) = LIBIRC_ERR_CONNECT"
proof -
  obtain x w1 where w1: "os_ret w = (x, w1)" by (cases "os_ret w")
  obtain y w2 where w2: "(if x < 0 then (-1, w1) else os_ret w1) = (y, w2)" by fastforce
  have s: "w_session w2 = w_session w" using w2 os_session(1) [OF w1] os_session(1) [of w1 y w2] by (auto split: if_splits)
  show ?thesis
  proof (cases "y < 0")
    case True
    then show ?thesis using assms by (auto simp: handle_connecting_state_def w1 w2 s)
  next
    case False
    then have "introduce (on_session (\<lambda>s. s\<lparr>s_state := LIBIRC_STATE_CONNECTED\<rparr>) w2) = Inr v" "rc = 0"
      using assms by (auto simp: handle_connecting_state_def w1 w2 and_then_Inr_iff)
    with introduce_kept [OF this(1)] assms(2) show ?thesis by (simp add: s io_kept_def)
  qed
qed

text \<open>A write keeps the connection or loses it.\<close>

lemma socket_write_conn:
  "session_socket_write s a b = (t, n) \<Longrightarrow> s_state t = s_state s \<and> s_sock t = s_sock s"
  by (auto simp: session_socket_write_def ssl_recv_def ssl_send_def ssl_handle_error_def clear_flag_def store_incoming_def
      split: if_splits read_answer.splits write_answer.splits ssl_error.splits ssl_reason.splits)

lemma process_writable_status:
  assumes "process_writable s a b = (t, rc)"
  shows "if rc = 0 then s_state t = s_state s \<and> s_sock t = s_sock s
     else s_state t = LIBIRC_STATE_DISCONNECTED \<and> s_lasterror t \<noteq> LIBIRC_ERR_OK"
proof -
  obtain u n where u: "session_socket_write s a b = (u, n)" by fastforce
  show ?thesis using assms socket_write_conn [OF u]
    by (cases "n < 0") (auto simp: process_writable_def u connection_lost_def Let_def split: if_splits)
qed

lemma world_write_status:
  assumes "world_write w = (v, rc)"
  shows "if rc = 0 then s_state (w_session v) = s_state (w_session w) \<and> s_sock (w_session v) = s_sock (w_session w)
     else s_state (w_session v) = LIBIRC_STATE_DISCONNECTED \<and> s_lasterror (w_session v) \<noteq> LIBIRC_ERR_OK"
proof -
  have n: "w_session (note_sent fd xs u) = w_session u" for fd xs u by (simp add: note_sent_def)
  obtain a u where a: "os_read w = (a, u)" by (cases "os_read w")
  obtain b x where b: "os_write w = (b, x)" by (cases "os_write w")
  obtain t k where t: "process_writable (w_session w) (within_room (w_session w) a) WriteClosed = (t, k)" by fastforce
  obtain t' k' where t': "process_writable (w_session w) ReadClosed (within_queue (w_session w) b) = (t', k')" by fastforce
  show ?thesis
    using assms process_writable_status [OF t] process_writable_status [OF t'] os_session(2) [OF a] os_session(3) [OF b]
    by (auto simp: world_write_def a b t t' n Let_def split: if_splits)
qed

definition status_ok :: "'a run \<times> int \<Rightarrow> bool" where
  "status_ok x \<longleftrightarrow> (if snd x = 0 then running (fst x) else ended (fst x))"

lemma write_part_status:
  assumes "running r"
  shows "status_ok (if b then (case world_write (r_world r) of (w, rc) \<Rightarrow> (r\<lparr>r_world := w\<rparr>, rc)) else (r, 0))"
proof -
  obtain w rc where w: "world_write (r_world r) = (w, rc)" by fastforce
  show ?thesis using assms world_write_status [OF w]
    by (auto simp: w status_ok_def running_def ended_def r_session_def irc_is_connected_def split: if_splits)
qed

context io_client
begin

lemma process_connected_status:
  assumes "running r" and "session_wf (r_session r)" and "process_connected cbs r = Some (Inr x)"
  shows "status_ok x"
proof (cases "fdwatch_check_fd (r_world r) (s_sock (r_session r)) FDW_READ")
  case False
  then have "x = (if fdwatch_check_fd (r_world r) (s_sock (r_session r)) FDW_WRITE
      then (case world_write (r_world r) of (w, rc) \<Rightarrow> (r\<lparr>r_world := w\<rparr>, rc)) else (r, 0))"
    using assms(3) by (simp add: process_connected_def Let_def)
  then show ?thesis by (simp only: write_part_status [OF assms(1)])
next
  case True
  obtain w n where w: "world_read (r_world r) = (w, n)" by fastforce
  let ?r = "r\<lparr>r_world := w\<rparr>"
  show ?thesis
  proof (cases "n < 0")
    case neg: True
    have "x = lost ?r" using assms(3) True w neg by (simp add: process_connected_def Let_def)
    moreover have "snd (lost ?r) = 1" by (simp add: lost_def)
    ultimately show ?thesis using lost_ended [of ?r] by (simp add: status_ok_def)
  next
    case False
    let ?q = "received (nat n) ?r"
    have q: "session_wf (r_session ?q)" "s_state (r_session ?q) = s_state (r_session r)" "s_sock (r_session ?q) = s_sock (r_session r)"
      using received_bytes [OF assms(2) w] False by (auto simp: Let_def)
    obtain res where res: "process_lines cbs ?q = Some res" "\<forall>u. res = Inr u \<longrightarrow> conn_kept (r_session ?q) (r_session u)"
      using process_lines_returns [OF q(1)] by blast
    show ?thesis
    proof (cases res)
      case (Inl e)
      then show ?thesis using assms(3) True w False res(1) by (simp add: process_connected_def Let_def)
    next
      case (Inr u)
      have "running u" using res(2) Inr q(2,3) assms(1) by (simp add: running_def conn_kept_def irc_is_connected_def)
      moreover have "x = (if fdwatch_check_fd (r_world u) (s_sock (r_session u)) FDW_WRITE
          then (case world_write (r_world u) of (w, rc) \<Rightarrow> (u\<lparr>r_world := w\<rparr>, rc)) else (u, 0))"
        using assms(3) True w False res(1) Inr by (simp add: process_connected_def Let_def)
      ultimately show ?thesis by (simp only: write_part_status)
    qed
  qed
qed

lemma process_select_status:
  assumes "running r" and "session_wf (r_session r)" and "irc_process_select_descriptors cbs r = Some (Inr x)"
  shows "status_ok x"
proof -
  have go: "\<not> (s_sock (r_session r) < 0 \<or> s_state (r_session r) = LIBIRC_STATE_INIT \<or> s_state (r_session r) = LIBIRC_STATE_DISCONNECTED)"
    using assms(1) by (auto simp: running_def irc_is_connected_def)
  have k: "kept (r_session r) (libirc_dcc_process_descriptors cbs (fail_with LIBIRC_ERR_OK (r_world r)))"
    by (rule conn.process_descriptors_kept) (simp add: r_session_def)
  show ?thesis
  proof (cases "libirc_dcc_process_descriptors cbs (fail_with LIBIRC_ERR_OK (r_world r))")
    case (Inl e)
    then show ?thesis using go assms(3) by (auto simp: irc_process_select_descriptors_def Let_def)
  next
    case (Inr w)
    let ?r = "r\<lparr>r_world := w\<rparr>"
    have io: "io_kept (r_session r) (w_session w)" using k Inr by simp
    have run: "running ?r" by (rule io_running [OF io assms(1)])
    have wf: "session_wf (r_session ?r)" using io assms(2) by (simp add: io_kept_def r_session_def)
    have sock: "0 \<le> s_sock (w_session w)" using run by (simp add: running_def r_session_def)
    have conn: "status_ok (r\<lparr>r_world := v\<rparr>, rc)" if "handle_connecting_state w = Inr (v, rc)" for v rc
      using connecting_status [OF that sock]
      by (auto simp: status_ok_def running_def ended_def r_session_def irc_is_connected_def split: if_splits)
    have disc: "status_ok (on_world (on_session (\<lambda>s. s\<lparr>s_state := LIBIRC_STATE_DISCONNECTED, s_lasterror := LIBIRC_ERR_STATE\<rparr>)) ?r, 1)"
      by (simp add: status_ok_def ended_def on_world_def r_session_def)
    show ?thesis
      using go Inr conn disc process_connected_status [OF run wf] assms(3)
      by (auto simp: irc_process_select_descriptors_def Let_def and_then_Inr_iff split: if_splits)
  qed
qed

lemma turn_status:
  assumes "running r" and "session_wf (r_session r)" and "irc_run_turn cbs a r = Some (Inr (q, x))"
  shows "if x = None then running q else x = Some 1 \<and> ended q"
proof -
  let ?w = "fst (irc_add_select_descriptors (watch_fd (s_sock (r_session r)) None (fdwatch_zero (r_world r))))"
  let ?r = "r\<lparr>r_world := ?w\<rparr>"
  have io: "io_kept (r_session r) (w_session ?w)"
    using add_descriptors_kept [of "watch_fd (s_sock (r_session r)) None (fdwatch_zero (r_world r))"] by (simp add: r_session_def)
  show ?thesis
  proof (cases a)
    case WatchInterrupted
    then show ?thesis using assms(3) io_running [OF io assms(1)] by (auto simp: irc_run_turn_def Let_def)
  next
    case WatchFailed
    then show ?thesis using assms(3) by (auto simp: irc_run_turn_def Let_def ended_def on_world_def r_session_def)
  next
    case (WatchReady ready)
    let ?k = "case keep_alive_callback cbs of None \<Rightarrow> Inr (report_ready ready ?w) | Some k \<Rightarrow> k (report_ready ready ?w)"
    have k: "kept (r_session r) ?k" using io by (auto intro: conn.keep_alive_law split: option.splits)
    show ?thesis
    proof (cases ?k)
      case (Inl e)
      then show ?thesis using WatchReady assms(3)
        by (cases "keep_alive_callback cbs") (auto simp: irc_run_turn_def Let_def)
    next
      case (Inr w)
      have io': "io_kept (r_session r) (w_session w)" using k Inr by simp
      have run: "running (r\<lparr>r_world := w\<rparr>)" "session_wf (r_session (r\<lparr>r_world := w\<rparr>))"
        using io_running [OF io' assms(1)] io' assms(2) by (simp_all add: io_kept_def r_session_def)
      obtain y rc where y: "irc_process_select_descriptors cbs (r\<lparr>r_world := w\<rparr>) = Some (Inr (y, rc))"
        "q = y" "x = (if rc \<noteq> 0 then Some 1 else None)"
        using assms(3) WatchReady Inr
        by (cases "keep_alive_callback cbs") (auto simp: irc_run_turn_def Let_def split: option.splits sum.splits)
      from process_select_status [OF run y(1)] show ?thesis using y(2,3) by (auto simp: status_ok_def)
    qed
  qed
qed

lemma loop_status:
  assumes "stream_inv tls r" and "running r" and "irc_run_loop cbs answers r = Some (Inr (q, x))"
  shows "if x = None then running q else x = Some 1 \<and> ended q"
  using assms
proof (induction answers arbitrary: r)
  case Nil
  then show ?case by (subst (asm) irc_run_loop.simps) (auto simp: running_def split: if_splits)
next
  case (Cons a rest)
  have conn: "irc_is_connected (r_session r)" using Cons.prems(2) by (simp add: running_def)
  have wf: "session_wf (r_session r)" using Cons.prems(1) by (simp add: stream_inv_def)
  obtain res where res: "irc_run_turn cbs a r = Some res" "\<forall>q x. res = Inr (q, x) \<longrightarrow> stream_inv tls q"
    using turn_inv [OF Cons.prems(1)] by blast
  have loop: "(case res of Inr (r, None) \<Rightarrow> irc_run_loop cbs rest r | x \<Rightarrow> Some x) = Some (Inr (q, x))"
    using Cons.prems(3) conn res(1) by (subst (asm) irc_run_loop.simps) (auto split: sum.splits option.splits)
  obtain y z where y: "res = Inr (y, z)" using loop by (auto split: sum.splits)
  have s: "if z = None then running y else z = Some 1 \<and> ended y"
    using turn_status [OF Cons.prems(2) wf, of a y z] res(1) y by simp
  show ?case
  proof (cases z)
    case None
    then show ?thesis using Cons.IH [of y] loop y s res(2) by simp
  next
    case (Some k)
    then show ?thesis using loop y s by auto
  qed
qed

end

end
