(* ===== verification/Irc_Flush.thy ===== *)
theory Irc_Flush
  imports Irc_Status
begin

text \<open>
  Getting the outgoing queue to the server: every round that finds the socket writable sends some of
  it, until at most the last byte of the last line is left.
\<close>

section \<open>What waits\<close>

lemma has_crlf_line: "has_crlf (a @ CRLF @ b)"
proof (induction a)
  case Nil
  then show ?case by (simp add: CRLF_def)
next
  case (Cons x a)
  then show ?case by (cases a) (auto simp: CRLF_def)
qed

lemma queue_crlf: "session_wf s \<Longrightarrow> libirc_findcrlf (s_outgoing_buf s) (s_outgoing_offset s) > 0 \<longleftrightarrow> has_crlf (queued s)"
  using libirc_findcrlf_zero [of "s_outgoing_buf s" "s_outgoing_offset s"] by (auto simp: queued_def)

section \<open>A round without transfers\<close>

text \<open>A connected session on a plain socket, without transfers.\<close>

definition quiet_run :: "'a run \<Rightarrow> bool" where
  "quiet_run r \<longleftrightarrow> plain_session (r_session r) \<and> 0 \<le> s_sock (r_session r) \<and> s_dcc_sessions (r_session r) = []
     \<and> \<not> has_flag (r_session r) SESSIONFL_SSL_READ_WANTS_WRITE"

locale quiet_client = io_client +
  fixes calm :: "'a \<Rightarrow> bool"
  assumes keep_alive_quiet: "keep_alive_callback cbs = Some k \<Longrightarrow> k w = Inr v \<Longrightarrow>
    w_os v = w_os w \<and> s_dcc_sessions (w_session v) = s_dcc_sessions (w_session w) \<and> s_flags (w_session v) = s_flags (w_session w)"
    and keep_alive_calm: "keep_alive_callback cbs = Some k \<Longrightarrow> calm (w_app w) \<Longrightarrow> \<exists>v. k w = Inr v \<and> calm (w_app v)"

text \<open>What the round waits for.\<close>

lemma unlock_locked [simp]: "unlock_dcc (lock_dcc s) = s"
  by (simp add: lock_dcc_def unlock_dcc_def)

lemma quiet_watch:
  assumes "quiet_run r"
  shows "\<exists>v. fst (irc_add_select_descriptors (watch_fd (s_sock (r_session r)) None (fdwatch_zero (r_world r)))) = v
     \<and> w_session v = r_session r \<and> w_app v = w_app (r_world r) \<and> w_cfg v = w_cfg (r_world r)
     \<and> os_writes (w_os v) = os_writes (w_os (r_world r)) \<and> os_sent (w_os v) = os_sent (w_os (r_world r))
     \<and> ((s_sock (r_session r), Some FDW_WRITE) \<in> set (os_watch (w_os v)) \<longleftrightarrow> has_crlf (queued (r_session r)))"
proof -
  have wf: "session_wf (r_session r)" using assms by (simp add: quiet_run_def plain_session_def)
  have dcc: "libirc_dcc_add_descriptors v = v" if "s_dcc_sessions (w_session v) = []" for v :: "'a world"
    using that by (simp add: libirc_dcc_add_descriptors_def Let_def on_session_def lock_dcc_def unlock_dcc_def)
  show ?thesis
    using assms dcc queue_crlf [OF wf]
    by (auto simp: quiet_run_def plain_session_def irc_add_select_descriptors_def Let_def r_session_def watch_fd_def fdwatch_zero_def)
qed

lemma no_transfers:
  assumes "s_dcc_sessions (w_session w) = []"
  shows "libirc_dcc_process_descriptors cbs w = Inr w"
  using assms by (simp add: libirc_dcc_process_descriptors_def Let_def on_session_def) (simp add: lock_dcc_def unlock_dcc_def)

text \<open>A writable socket, written as the loop does it.\<close>

lemma world_write_plain:
  assumes "plain_session (w_session w)" and "os_writes (w_os w) = Written n # ws" and "0 < n" and "queued (w_session w) \<noteq> []"
  shows "\<exists>k v. 0 < k \<and> k \<le> length (queued (w_session w)) \<and> world_write w = (v, 0) \<and> plain_session (w_session v)
     \<and> queued (w_session v) = drop k (queued (w_session w)) \<and> s_sock (w_session v) = s_sock (w_session w)
     \<and> s_dcc_sessions (w_session v) = s_dcc_sessions (w_session w) \<and> s_flags (w_session v) = s_flags (w_session w)
     \<and> os_writes (w_os v) = ws
     \<and> os_sent (w_os v) = os_sent (w_os w) @ [(s_sock (w_session w), take k (queued (w_session w)))]"
proof -
  let ?s = "w_session w"
  let ?k = "min n (s_outgoing_offset ?s)"
  have wf: "session_wf ?s" "\<not> s_ssl ?s" using assms(1) by (simp_all add: plain_session_def)
  have off: "s_outgoing_offset ?s = length (queued ?s)" using queued_length [OF wf(1)] by simp
  have k: "0 < ?k" "?k \<le> s_outgoing_offset ?s" using assms(3,4) off by (auto simp: min_def)
  have a: "within_queue ?s (Written n) = Written ?k" using k(1) by (simp add: within_queue_def Let_def)
  obtain t where t: "process_writable ?s ReadClosed (Written ?k) = (t, 0)"
    using process_writable_plain(3) [OF assms(1) k] by (metis prod.collapse)
  have p: "queued t = drop ?k (queued ?s)" "plain_session t"
    using process_writable_plain(1,2) [OF assms(1) k, of ReadClosed] t by simp_all
  have f: "s_sock t = s_sock ?s" "s_dcc_sessions t = s_dcc_sessions ?s" "s_flags t = s_flags ?s"
    using t wf(2) by (auto simp: process_writable_def session_socket_write_def Let_def split: if_splits)
  have w: "world_write w = (note_sent (s_sock t) (take ?k (queued ?s))
      ((w\<lparr>w_os := (w_os w)\<lparr>os_writes := ws\<rparr>\<rparr>)\<lparr>w_session := t\<rparr>), 0)"
    using wf(2) by (simp add: world_write_def os_write_def assms(2) a t)
  show ?thesis
    by (intro exI [of _ ?k] exI conjI, rule k, use k(2) off in simp, rule w) (simp_all add: p f note_sent_def)
qed

context quiet_client
begin

text \<open>What such a round does when the socket is writable and has nothing to read.\<close>

lemma quiet_turn:
  assumes "quiet_run r" and "os_writes (w_os (r_world r)) = Written n # ws" and "0 < n"
    and "(s_sock (r_session r), FDW_WRITE) \<in> set ready" and "(s_sock (r_session r), FDW_READ) \<notin> set ready"
    and "irc_run_turn cbs (WatchReady ready) r = Some (Inr (q, x))"
  shows "x = None \<and> quiet_run q \<and> s_sock (r_session q) = s_sock (r_session r)
     \<and> (\<exists>more k. (if has_crlf (queued (r_session r)) then 0 < k else k = 0)
          \<and> queued (r_session q) = drop k (queued (r_session r) @ more) \<and> k \<le> length (queued (r_session r) @ more)
          \<and> os_writes (w_os (r_world q)) = (if k = 0 then Written n # ws else ws)
          \<and> os_sent (w_os (r_world q)) = os_sent (w_os (r_world r))
               @ (if k = 0 then [] else [(s_sock (r_session r), take k (queued (r_session r) @ more))]))"
proof -
  let ?s = "r_session r"
  obtain v where v: "fst (irc_add_select_descriptors (watch_fd (s_sock ?s) None (fdwatch_zero (r_world r)))) = v"
     "w_session v = ?s" "os_writes (w_os v) = Written n # ws" "os_sent (w_os v) = os_sent (w_os (r_world r))"
     "(s_sock ?s, Some FDW_WRITE) \<in> set (os_watch (w_os v)) \<longleftrightarrow> has_crlf (queued ?s)"
    using quiet_watch [OF assms(1)] assms(2) by auto
  let ?w0 = "report_ready ready v"
  have w0: "w_session ?w0 = ?s" "os_writes (w_os ?w0) = Written n # ws" "os_sent (w_os ?w0) = os_sent (w_os (r_world r))"
    "fdwatch_check_fd ?w0 (s_sock ?s) FDW_WRITE \<longleftrightarrow> has_crlf (queued ?s)" "\<not> fdwatch_check_fd ?w0 (s_sock ?s) FDW_READ"
    using v assms(4,5) by (auto simp: report_ready_def fdwatch_check_fd_def)
  obtain w rc where w: "(case keep_alive_callback cbs of None \<Rightarrow> Inr ?w0 | Some k \<Rightarrow> k ?w0) = Inr w"
    "irc_process_select_descriptors cbs (r\<lparr>r_world := w\<rparr>) = Some (Inr (q, rc))" "x = (if rc \<noteq> 0 then Some 1 else None)"
    using assms(6) v(1)
    by (cases "keep_alive_callback cbs") (auto simp: irc_run_turn_def Let_def split: option.splits sum.splits if_splits)
  have io: "io_kept ?s (w_session w)"
    using w(1) conn.keep_alive_law [of _ ?s ?w0] w0(1) by (auto simp: holds_def split: option.splits)
  have os: "w_os w = w_os ?w0" "s_dcc_sessions (w_session w) = s_dcc_sessions ?s" "s_flags (w_session w) = s_flags ?s"
    using w(1) keep_alive_quiet [of _ ?w0 w] w0(1) by (auto split: option.splits)
  have plain: "plain_session ?s" using assms(1) by (simp add: quiet_run_def)
  obtain more where more: "queued (w_session w) = queued ?s @ more" "plain_session (w_session w)" "s_sock (w_session w) = s_sock ?s"
    using io plain by (auto simp: io_kept_def plain_session_def)
  let ?f = "fail_with LIBIRC_ERR_OK w"
  have f: "w_session ?f = (w_session w)\<lparr>s_lasterror := LIBIRC_ERR_OK\<rparr>" "w_os ?f = w_os ?w0"
    using os(1) by (simp_all add: fail_with_def on_session_def)
  have pf: "plain_session (w_session ?f)" "queued (w_session ?f) = queued ?s @ more" "s_sock (w_session ?f) = s_sock ?s"
    "s_dcc_sessions (w_session ?f) = []" "s_flags (w_session ?f) = s_flags ?s"
    using more os f assms(1) by (simp_all add: plain_session_def session_wf_def queued_def quiet_run_def)
  have chk: "fdwatch_check_fd ?f (s_sock ?s) FDW_WRITE \<longleftrightarrow> has_crlf (queued ?s)" "\<not> fdwatch_check_fd ?f (s_sock ?s) FDW_READ"
    using w0(4,5) f(2) by (simp_all add: fdwatch_check_fd_def)
  let ?r = "r\<lparr>r_world := ?f\<rparr>"
  have proc: "process_connected cbs ?r = Some (Inr (q, rc))"
    using w(2) no_transfers [of ?f cbs] pf more(2) assms(1)
    by (auto simp: irc_process_select_descriptors_def Let_def r_session_def quiet_run_def plain_session_def f(1))
  have q: "(q, rc) = (if has_crlf (queued ?s) then (case world_write ?f of (w, rc) \<Rightarrow> (r\<lparr>r_world := w\<rparr>, rc)) else (?r, 0))"
    using proc chk pf(3) by (auto simp: process_connected_def Let_def r_session_def split: if_splits)
  show ?thesis
  proof (cases "has_crlf (queued ?s)")
    case False
    then show ?thesis
      using q w(3) pf f(2) w0(2,3) assms(1)
      by (intro conjI exI [of _ more] exI [of _ "0 :: nat"]) (auto simp: quiet_run_def r_session_def has_flag_def)
  next
    case True
    have "queued (w_session ?f) \<noteq> []" using True pf(2) by auto
    then obtain k u where u: "0 < k" "k \<le> length (queued ?s @ more)" "world_write ?f = (u, 0)" "plain_session (w_session u)"
      "queued (w_session u) = drop k (queued ?s @ more)" "s_sock (w_session u) = s_sock ?s" "s_dcc_sessions (w_session u) = []"
      "s_flags (w_session u) = s_flags ?s" "os_writes (w_os u) = ws"
      "os_sent (w_os u) = os_sent (w_os (r_world r)) @ [(s_sock ?s, take k (queued ?s @ more))]"
      using world_write_plain [OF pf(1) _ assms(3)] f(2) w0(2,3) pf(2-5) by metis
    then have "q = r\<lparr>r_world := u\<rparr>" "rc = 0" using q True by simp_all
    then show ?thesis
      using u w(3) True assms(1)
      by (intro conjI exI [of _ more] exI [of _ k]) (auto simp: quiet_run_def r_session_def has_flag_def)
  qed
qed

text \<open>Rounds on end. \<open>need\<close> is how many bytes have to leave before the last one of a line.\<close>

lemma flush_loop:
  assumes "quiet_run r" and "s_sock (r_session r) = sock" and "os_writes (w_os (r_world r)) = map Written ns @ rest"
    and "\<forall>n\<in>set ns. 0 < n" and "length readys \<le> length ns"
    and "\<forall>ready\<in>set readys. (sock, FDW_WRITE) \<in> set ready \<and> (sock, FDW_READ) \<notin> set ready"
    and "need = 0 \<or> (\<exists>pre later. queued (r_session r) = pre @ CRLF @ later \<and> need = length pre + 1)"
    and "irc_run_loop cbs (map WatchReady readys) r = Some (Inr (q, x))"
  shows "x = None \<and> quiet_run q \<and> (\<exists>out more. os_sent (w_os (r_world q)) = os_sent (w_os (r_world r)) @ map (Pair sock) out
     \<and> concat out @ queued (r_session q) = queued (r_session r) @ more \<and> min (length readys) need \<le> length (concat out))"
  using assms
proof (induction readys arbitrary: ns need r)
  case Nil
  then have "q = r" "x = None"
    by (auto simp: irc_run_loop.simps quiet_run_def plain_session_def irc_is_connected_def)
  then show ?case using Nil.prems(1) by (auto intro!: exI [of _ "[] :: string list"])
next
  case (Cons ready readys)
  obtain n ns' where ns: "ns = n # ns'" using Cons.prems(5) by (cases ns) auto
  have conn: "irc_is_connected (r_session r)" using Cons.prems(1) by (simp add: quiet_run_def plain_session_def irc_is_connected_def)
  have rd: "(s_sock (r_session r), FDW_WRITE) \<in> set ready" "(s_sock (r_session r), FDW_READ) \<notin> set ready"
    using Cons.prems(2,6) by auto
  have tape: "os_writes (w_os (r_world r)) = Written n # (map Written ns' @ rest)" "0 < n"
    using Cons.prems(3,4) ns by simp_all
  obtain y z where y: "irc_run_turn cbs (WatchReady ready) r = Some (Inr (y, z))"
    using Cons.prems(8) conn
    by (cases "irc_run_turn cbs (WatchReady ready) r") (auto simp: irc_run_loop.simps [of cbs "_ # _"] split: sum.splits)
  have turn: "z = None" "quiet_run y" "s_sock (r_session y) = sock"
    using quiet_turn [OF Cons.prems(1) tape rd y] Cons.prems(2) by auto
  obtain more k where k: "if has_crlf (queued (r_session r)) then 0 < k else k = 0"
     "queued (r_session y) = drop k (queued (r_session r) @ more)" "k \<le> length (queued (r_session r) @ more)"
     "os_writes (w_os (r_world y)) = (if k = 0 then Written n # (map Written ns' @ rest) else map Written ns' @ rest)"
     "os_sent (w_os (r_world y)) = os_sent (w_os (r_world r))
        @ (if k = 0 then [] else [(sock, take k (queued (r_session r) @ more))])"
    using quiet_turn [OF Cons.prems(1) tape rd y] Cons.prems(2) by blast
  have loop: "irc_run_loop cbs (map WatchReady readys) y = Some (Inr (q, x))"
    using Cons.prems(8) conn y turn(1) by (simp add: irc_run_loop.simps [of cbs "_ # _"])
  define ms where "ms = (if k = 0 then ns else ns')"
  have ms: "os_writes (w_os (r_world y)) = map Written ms @ rest" "\<forall>n\<in>set ms. 0 < n" "length readys \<le> length ms"
    using k(4) Cons.prems(4,5) ns by (auto simp: ms_def)
  have rds: "\<forall>ready\<in>set readys. (sock, FDW_WRITE) \<in> set ready \<and> (sock, FDW_READ) \<notin> set ready"
    using Cons.prems(6) by simp
  define need' where "need' = need - k"
  have need': "need' = 0 \<or> (\<exists>pre later. queued (r_session y) = pre @ CRLF @ later \<and> need' = length pre + 1)"
  proof (cases "need \<le> k")
    case False
    then obtain pre later where p: "queued (r_session r) = pre @ CRLF @ later" "need = length pre + 1"
      using Cons.prems(7) by auto
    then have "queued (r_session y) = drop k pre @ CRLF @ (later @ more)" "need' = length (drop k pre) + 1"
      using k(2) False by (simp_all add: need'_def)
    then show ?thesis by blast
  qed (simp add: need'_def)
  obtain out later where out: "x = None" "quiet_run q" "os_sent (w_os (r_world q)) = os_sent (w_os (r_world y)) @ map (Pair sock) out"
     "concat out @ queued (r_session q) = queued (r_session y) @ later" "min (length readys) need' \<le> length (concat out)"
    using Cons.IH [OF turn(2,3) ms rds need' loop] by blast
  let ?first = "take k (queued (r_session r) @ more)"
  let ?out = "(if k = 0 then [] else [?first]) @ out"
  have sent: "os_sent (w_os (r_world q)) = os_sent (w_os (r_world r)) @ map (Pair sock) ?out" using out(3) k(5) by simp
  have bytes: "concat ?out = ?first @ concat out" by simp
  have fifo: "concat ?out @ queued (r_session q) = queued (r_session r) @ (more @ later)"
    using out(4) k(2) unfolding bytes by (metis append.assoc append_take_drop_id)
  have "0 < need \<Longrightarrow> 0 < k" using Cons.prems(7) k(1) has_crlf_line by (auto split: if_splits)
  then have "min (length (ready # readys)) need \<le> length (concat ?out)"
    using out(5) k(3) unfolding bytes need'_def by (cases "need = 0") auto
  then show ?case using out(1,2) sent fifo by blast
qed

text \<open>A calm client does not stop the rounds.\<close>

lemma calm_turn:
  assumes "quiet_run r" and "calm (w_app (r_world r))" and "(s_sock (r_session r), FDW_READ) \<notin> set ready"
  shows "\<exists>q x. irc_run_turn cbs (WatchReady ready) r = Some (Inr (q, x)) \<and> calm (w_app (r_world q))"
proof -
  let ?s = "r_session r"
  obtain v where v: "fst (irc_add_select_descriptors (watch_fd (s_sock ?s) None (fdwatch_zero (r_world r)))) = v"
     "w_session v = ?s" "w_app v = w_app (r_world r)"
    using quiet_watch [OF assms(1)] by auto
  let ?w0 = "report_ready ready v"
  have w0: "w_session ?w0 = ?s" "calm (w_app ?w0)" "\<not> fdwatch_check_fd ?w0 (s_sock ?s) FDW_READ"
    using v assms(2,3) by (auto simp: report_ready_def fdwatch_check_fd_def)
  obtain w where w: "(case keep_alive_callback cbs of None \<Rightarrow> Inr ?w0 | Some k \<Rightarrow> k ?w0) = Inr w" "calm (w_app w)"
    using w0(2) keep_alive_calm [of _ ?w0] by (cases "keep_alive_callback cbs") auto
  have "io_kept ?s (w_session w)"
    using w(1) conn.keep_alive_law [of _ ?s ?w0] w0(1) by (auto simp: holds_def split: option.splits)
  then have s: "plain_session (w_session w)" "s_sock (w_session w) = s_sock ?s"
    using assms(1) by (auto simp: io_kept_def plain_session_def quiet_run_def)
  have os: "w_os w = w_os ?w0" "s_dcc_sessions (w_session w) = []"
    using w(1) keep_alive_quiet [of _ ?w0 w] w0(1) assms(1) by (auto simp: quiet_run_def split: option.splits)
  let ?f = "fail_with LIBIRC_ERR_OK w"
  have f: "w_session ?f = (w_session w)\<lparr>s_lasterror := LIBIRC_ERR_OK\<rparr>" "w_os ?f = w_os ?w0" "w_app ?f = w_app w"
    using os(1) by (simp_all add: fail_with_def on_session_def)
  have chk: "\<not> fdwatch_check_fd ?f (s_sock ?s) FDW_READ"
    using w0(3) f(2) by (simp add: fdwatch_check_fd_def)
  have dcc: "libirc_dcc_process_descriptors cbs ?f = Inr ?f" using no_transfers [of ?f] f(1) os(2) by simp
  have app: "w_app (fst (world_write ?f)) = w_app ?f"
    by (simp add: world_write_def os_read_def os_write_def note_sent_def Let_def split: prod.splits list.splits)
  have "\<exists>q rc. irc_process_select_descriptors cbs (r\<lparr>r_world := w\<rparr>) = Some (Inr (q, rc)) \<and> w_app (r_world q) = w_app w"
    using dcc s chk assms(1) app f(3)
    by (cases "fdwatch_check_fd ?f (s_sock ?s) FDW_WRITE"; cases "world_write ?f")
      (auto simp: irc_process_select_descriptors_def process_connected_def Let_def r_session_def f(1) plain_session_def
        quiet_run_def)
  then obtain q rc where proc: "irc_process_select_descriptors cbs (r\<lparr>r_world := w\<rparr>) = Some (Inr (q, rc))"
    "w_app (r_world q) = w_app w" by blast
  show ?thesis using v(1) w proc by (cases "keep_alive_callback cbs") (simp_all add: irc_run_turn_def Let_def)
qed

lemma calm_loop:
  assumes "quiet_run r" and "calm (w_app (r_world r))"
    and "s_sock (r_session r) = sock" and "os_writes (w_os (r_world r)) = map Written ns @ rest"
    and "\<forall>n\<in>set ns. 0 < n" and "length readys \<le> length ns"
    and "\<forall>ready\<in>set readys. (sock, FDW_WRITE) \<in> set ready \<and> (sock, FDW_READ) \<notin> set ready"
  shows "\<exists>q x. irc_run_loop cbs (map WatchReady readys) r = Some (Inr (q, x))"
  using assms
proof (induction readys arbitrary: ns r)
  case Nil
  then show ?case by (simp add: irc_run_loop.simps quiet_run_def plain_session_def irc_is_connected_def)
next
  case (Cons ready readys)
  obtain n ns' where ns: "ns = n # ns'" using Cons.prems(6) by (cases ns) auto
  have conn: "irc_is_connected (r_session r)" using Cons.prems(1) by (simp add: quiet_run_def plain_session_def irc_is_connected_def)
  have rd: "(s_sock (r_session r), FDW_WRITE) \<in> set ready" "(s_sock (r_session r), FDW_READ) \<notin> set ready"
    using Cons.prems(3,7) by auto
  have tape: "os_writes (w_os (r_world r)) = Written n # (map Written ns' @ rest)" "0 < n"
    using Cons.prems(4,5) ns by simp_all
  obtain y z where y: "irc_run_turn cbs (WatchReady ready) r = Some (Inr (y, z))" "calm (w_app (r_world y))"
    using calm_turn [OF Cons.prems(1,2) rd(2)] by blast
  obtain k where turn: "z = None" "quiet_run y" "s_sock (r_session y) = sock"
    "os_writes (w_os (r_world y)) = (if (k :: nat) = 0 then Written n # (map Written ns' @ rest) else map Written ns' @ rest)"
    using quiet_turn [OF Cons.prems(1) tape rd y(1)] Cons.prems(3) by blast
  define ms where "ms = (if k = 0 then ns else ns')"
  have ms: "os_writes (w_os (r_world y)) = map Written ms @ rest" "\<forall>n\<in>set ms. 0 < n" "length readys \<le> length ms"
    using turn(4) Cons.prems(5,6) ns by (auto simp: ms_def)
  have "\<exists>q x. irc_run_loop cbs (map WatchReady readys) y = Some (Inr (q, x))"
    using Cons.IH [OF turn(2) y(2) turn(3) ms] Cons.prems(7) by simp
  then show ?case using conn y(1) turn(1) by (simp add: irc_run_loop.simps [of cbs "_ # _"])
qed

end

end
