(* ===== verification/Program_Run.thy ===== *)
theory Program_Run
  imports Irc_Flush Download_Safety
begin

text \<open>
  The program in the main loop: its callbacks are an \<open>io_client\<close>, so what holds of the loop for such a
  client holds of the program.
\<close>

section \<open>The callbacks leave the connection alone\<close>

lemma app_send_kept:
  assumes "io_kept s (w_session w)" and "\<And>t. io_kept s t \<Longrightarrow> io_kept s (fst (cmd t))"
  shows "io_kept s (w_session (app_send cmd w))"
  using assms by (simp add: app_send_session)

lemma join_all_kept: "io_kept s (w_session w) \<Longrightarrow> io_kept s (w_session (join_all cs w))"
proof (induction cs arbitrary: w)
  case (Cons c cs)
  show ?case unfolding join_all.simps by (rule Cons.IH, rule app_send_kept [OF Cons.prems]) simp
qed simp

lemma request_all_kept: "io_kept s (w_session w) \<Longrightarrow> io_kept s (w_session (request_all ds w))"
proof (induction ds arbitrary: w)
  case (Cons d ds)
  show ?case unfolding request_all.simps by (rule Cons.IH, rule app_send_kept [OF Cons.prems]) simp
qed simp

lemma send_requests_kept: "io_kept s (w_session w) \<Longrightarrow> io_kept s (w_session (send_xdcc_requests w))"
  by (simp add: send_xdcc_requests_def Let_def request_all_kept)

lemma login_kept: "io_kept s (w_session w) \<Longrightarrow> io_kept s (w_session (send_login_command l w))"
  by (auto simp: send_login_command_def Let_def intro!: app_send_kept)

lemma on_connect_kept: "io_kept s (w_session w) \<Longrightarrow> io_kept s (w_session (on_connect_event w))"
  by (auto simp: on_connect_event_def Let_def login_kept join_channels_def join_all_kept split: option.splits)

lemma dump_kept: "io_kept s (w_session w) \<Longrightarrow> kept s (dump_event e w)"
  by (auto simp: dump_event_def intro!: holds_bind)

lemma dump_same: "dump_event e w = Inr v \<Longrightarrow> v = w"
  by (auto simp: dump_event_def and_then_Inr_iff)

lemma md5_notice_kept: "io_kept s (w_session w) \<Longrightarrow> kept s (checkMD5ChecksumNotice e w)"
  by (auto simp: checkMD5ChecksumNotice_def set_first_md5_def intro!: holds_bind split: option.splits list.splits)

lemma connected_kept: "io_kept s (w_session w) \<Longrightarrow> kept s (check_connected_event e w)"
  by (auto simp: check_connected_event_def on_connect_kept intro!: holds_bind)

lemma notice_event_kept: "io_kept s (w_session w) \<Longrightarrow> kept s (xg_event_notice e w)"
  unfolding xg_event_notice_def
  by (rule holds_seq [OF dump_kept], assumption, rule holds_seq [OF md5_notice_kept], assumption, erule connected_kept)

lemma small_events_kept:
  assumes "io_kept s (w_session w)"
  shows "kept s (xg_event_mode e w)" "kept s (xg_event_umode e w)" "kept s (xg_event_join e w)"
    "kept s (xg_event_connect e w)" "kept s (xg_event_numeric dns code w)" "kept s (libirc_event_ctcp_internal now e w)"
  using assms
  by (auto simp: xg_event_mode_def xg_event_umode_def xg_event_join_def xg_event_connect_def xg_event_numeric_def
      libirc_event_ctcp_internal_def Let_def join_channels_def
      intro!: holds_bind send_requests_kept join_all_kept on_connect_kept app_send_kept dest!: dump_same
      split: option.splits)

lemma session_eq_kept: "w_session v = w_session w \<Longrightarrow> io_kept s (w_session w) \<Longrightarrow> io_kept s (w_session v)"
  by simp

lemma set_position_session [simp]: "w_session (set_position i p w) = w_session w"
  by (simp add: set_position_def)

lemma or_exit_kept: "io_kept s (w_session (fst r)) \<Longrightarrow> kept s (or_exit r)"
  by (cases r) (simp add: or_exit_def)

lemma dcc_accept_io:
  assumes "io_kept s (w_session w)"
  shows "io_kept s (w_session (fst (irc_dcc_accept w i c f)))"
  using assms
  by (auto simp: irc_dcc_accept_def Let_def split: prod.splits option.splits dest!: find_dcc_kept(1) [of _ _ _ _ _ s] os_session)

lemma dcc_resume_io:
  assumes "io_kept s (w_session w)"
  shows "io_kept s (w_session (fst (irc_dcc_resume w i c f n p)))"
    "io_kept s (w_session (fst (irc_dcc_resume_reverse w i c f n p token)))"
    "io_kept s (w_session (fst (irc_dcc_accept_reverse w i c f n file fsize token)))"
  using assms
  by (auto simp: irc_dcc_resume_def irc_dcc_resume_reverse_def irc_dcc_accept_reverse_def Let_def
      split: prod.splits option.splits dest!: find_dcc_kept(1) [of _ _ _ _ _ s])

lemma on_app_session [simp]: "w_session (on_app f w) = w_session w" "w_session (on_context i g w) = w_session w"
  by (simp_all add: on_app_def on_context_def)

lemma assign_session [simp]: "w_session (assign_fd i r) = w_session (snd r)"
  by (cases r) (simp add: assign_fd_def)

lemma open_session: "file_Open path m w = Inr (f, v) \<Longrightarrow> w_session v = w_session w"
  by (auto simp: file_Open_def split: prod.splits if_splits open_mode.splits)

lemma prepare_session: "prepareRecvFileRequest file n w = Inr (i, v) \<Longrightarrow> w_session v = w_session w"
  using os_session(1) [of w]
  by (cases "os_ret w") (auto simp: prepareRecvFileRequest_def Let_def and_then_Inr_iff split: if_splits)

lemma recv_request_kept:
  assumes "io_kept s (w_session w)"
  shows "kept s (recvFileRequest nick addr file fsize i w)"
  unfolding recvFileRequest_def Let_def
  by (intro holds_bind) (auto split: prod.splits intro!: holds_bind or_exit_kept dcc_accept_io dcc_resume_io
      simp: assms dest!: prepare_session open_session)

lemma recv_reverse_kept:
  assumes "io_kept s (w_session w)"
  shows "kept s (recvFileRequestReverse nick addr file fsize i token w)"
  unfolding recvFileRequestReverse_def Let_def
  by (intro holds_bind) (auto split: prod.splits intro!: holds_bind or_exit_kept dcc_accept_io dcc_resume_io
      simp: assms dest!: prepare_session open_session)

lemma recv_callback_kept: "io_kept s (w_session w) \<Longrightarrow> kept s (callback_dcc_recv_file i st c d n w)"
  using recv_callback_session [of i st c d n w] io_kept_cmds(3) [of s "w_session w" "Some ''Goodbye!''"]
  by (auto simp: holds_def)

lemma resume_callback_kept:
  assumes "io_kept s (w_session w)"
  shows "kept s (callback_dcc_resume_file i st c d n w)"
proof (cases c)
  case (Some k)
  show ?thesis unfolding callback_dcc_resume_file_def Some option.case
    by (intro holds_bind or_exit_kept dcc_accept_io) (simp add: assms file_Seek_session)
qed (simp add: callback_dcc_resume_file_def)

lemma resume_reverse_kept:
  assumes "io_kept s (w_session w)"
  shows "kept s (callback_dcc_resume_file_reverse i st c d n nick file token w)"
proof (cases c)
  case (Some k)
  show ?thesis unfolding callback_dcc_resume_file_reverse_def Some option.case Let_def
    by (intro holds_bind or_exit_kept dcc_resume_io) (simp add: assms file_Seek_session)
qed (simp add: callback_dcc_resume_file_reverse_def)

lemma output_session: "output_active ps n w = Inr v \<Longrightarrow> w_session v = w_session w"
  by (induction ps n w rule: output_active.induct) auto

lemma sleeping_session: "sleeping w = Inr v \<Longrightarrow> w_session v = w_session w"
  by (auto simp: sleeping_def getSleepTime_def Let_def and_then_Inr_iff split: if_splits)

lemma print_output_kept: "io_kept s (w_session w) \<Longrightarrow> kept s (print_output_callback w)"
  unfolding print_output_callback_def Let_def
  by (rule holds_seq)
    (auto simp: output_all_progesses_def send_requests_kept holds_def and_then_Inr_iff dest!: output_session sleeping_session)

interpretation xdccget_io: io_client "initCallbacks dns now" for dns now
proof (unfold_locales, goal_cases)
  case (2 f s w name)
  then show ?case
    by (auto simp: events_of_def initCallbacks_def no_callbacks_def dump_kept notice_event_kept small_events_kept)
next
  case (7 s w c i st ctx data len)
  then show ?case
    by (cases c) (simp_all add: initCallbacks_def recv_callback_kept resume_callback_kept)
next
  case (8 s w c i st ctx data len nick fname token)
  then show ?case by (cases c) (simp_all add: initCallbacks_def resume_reverse_kept)
qed (auto simp: lib_step_def initCallbacks_def no_callbacks_def small_events_kept recv_request_kept recv_reverse_kept print_output_kept
    intro: io_kept_trans)

section \<open>Connecting and registering\<close>

text \<open>Connecting changes the socket and the error code only.\<close>

definition setup_kept :: "irc_session \<Rightarrow> irc_session \<Rightarrow> bool" where
  "setup_kept s t \<longleftrightarrow> s_nick t = s_nick s \<and> s_realname t = s_realname s \<and> s_server_password t = s_server_password s
     \<and> s_outgoing_buf t = s_outgoing_buf s \<and> s_outgoing_offset t = s_outgoing_offset s
     \<and> s_incoming_buf t = s_incoming_buf s \<and> s_incoming_offset t = s_incoming_offset s"

lemma setup_kept_trans: "setup_kept s t \<Longrightarrow> setup_kept t u \<Longrightarrow> setup_kept s u"
  by (simp add: setup_kept_def)

lemma setup_simps [simp]:
  "setup_kept s (t\<lparr>s_lasterror := e\<rparr>) = setup_kept s t" "setup_kept s (t\<lparr>s_sock := fd\<rparr>) = setup_kept s t"
  "setup_kept s (t\<lparr>s_ssl := b\<rparr>) = setup_kept s t" "setup_kept s s"
  by (simp_all add: setup_kept_def)

lemma init_socket_setup: "setup_kept s (w_session w) \<Longrightarrow> setup_kept s (w_session (fst (init_socket w)))"
  by (auto simp: init_socket_def ssl_init_def Let_def split: prod.splits dest!: os_session)

lemma try_connect_setup:
  assumes "setup_kept s (w_session w)"
  shows "setup_kept s (w_session (fst (try_to_connect w)))"
proof -
  obtain v rc where v: "init_socket w = (v, rc)" by fastforce
  then show ?thesis using init_socket_setup [OF assms]
    by (auto simp: try_to_connect_def split: prod.splits dest!: os_session)
qed

lemma has_connection_session: "w_session (fst (hasConnection w)) = w_session w"
  by (auto simp: hasConnection_def isConnectionEstablished_def split: prod.splits dest!: os_session)

lemma connect_first_setup: "setup_kept s (w_session w) \<Longrightarrow> setup_kept s (w_session (fst (connect_first fs w)))"
proof (induction fs arbitrary: w)
  case (Cons f fs)
  let ?t = "if f = AF_INET \<or> f = AF_INET6 then try_to_connect w else (w, -1)"
  have t: "setup_kept s (w_session (fst ?t))" using try_connect_setup [OF Cons.prems] Cons.prems by simp
  have h: "setup_kept s (w_session (fst (hasConnection (fst ?t))))" using t by (simp only: has_connection_session)
  have c: "setup_kept s (w_session (socket_close (fst (hasConnection (fst ?t)))))" using h by (simp add: socket_close_def)
  show ?case using t h Cons.IH [OF c] by (simp add: case_prod_unfold del: if_split)
qed simp

text \<open>The text of the registration.\<close>

definition registration :: "string \<Rightarrow> string" where
  "registration n = ''NICK '' @ n @ CRLF @ ''USER '' @ n @ '' '' @ n @ '' unknown :realname'' @ CRLF"

lemma introduce_text:
  assumes "session_wf (w_session w)" and "s_state (w_session w) = LIBIRC_STATE_CONNECTED" and "queued (w_session w) = []"
    and "s_nick (w_session w) = Some n" and "s_realname (w_session w) = None" and "s_server_password (w_session w) = None"
    and "is_cstr n" and "length n \<le> 115" and "introduce w = Inr v"
  shows "queued (w_session v) = registration n"
proof -
  let ?m1 = "line256 (''NICK '' @ n)" and ?m2 = "line256 (''USER '' @ n @ '' '' @ n @ '' unknown :'' @ ''realname'')"
  have t: "sent_text ?m1 = ''NICK '' @ n @ CRLF" "sent_text ?m2 = ''USER '' @ n @ '' '' @ n @ '' unknown :realname'' @ CRLF"
    using assms(7,8) by (simp_all add: sent_text_def line256_def cstr_id is_cstr_def)
  let ?s = "w_session w" and ?u = "fst (irc_send_raw (w_session w) ?m1)"
  have a1: "send_accepted ?s ?m1"
    unfolding send_accepted_def t using assms(2,3,8) by (simp add: LIBIRC_BUFFER_SIZE_def CRLF_def)
  have u: "session_wf ?u" "queued ?u = sent_text ?m1" "s_state ?u = LIBIRC_STATE_CONNECTED"
    using send_raw_wf [OF assms(1)] send_raw_queued [OF assms(1), of ?m1] a1 assms(2,3) by (simp_all add: send_raw_frame)
  have a2: "send_accepted ?u ?m2"
    unfolding send_accepted_def u(2,3) t using assms(8) by (simp add: LIBIRC_BUFFER_SIZE_def CRLF_def)
  have "w_session v = fst (irc_send_raw ?u ?m2)"
    using assms(4-7,9) by (auto simp: introduce_def Let_def cstr_id)
  then have "queued (w_session v) = sent_text ?m1 @ sent_text ?m2"
    using send_raw_queued [OF u(1), of ?m2] a2 u(2) by (simp only: if_True)
  then show ?thesis unfolding t by (simp add: registration_def)
qed

lemma connect_result:
  assumes "connect_to_server w dns r = (v, 0)"
  shows "s_state (w_session v) = LIBIRC_STATE_CONNECTING \<and> s_nick (w_session v) = c_nick (w_cfg w)
     \<and> s_realname (w_session v) = None \<and> s_server_password (w_session v) = None
     \<and> queued (w_session v) = queued (w_session w) \<and> session_wf (w_session v) = session_wf (w_session w)"
proof -
  obtain server n where names: "c_ircServer (w_cfg w) = Some server" "c_nick (w_cfg w) = Some n"
    using assms by (auto simp: connect_to_server_eq irc_connect_generic_def Let_def split: option.splits)
  let ?u = "on_session (store_names server None n None None) w"
  obtain fs x where x: "connect_first fs ?u = (x, 0)" "s_state (w_session v) = LIBIRC_STATE_CONNECTING"
    "setup_kept (w_session x) (w_session v)"
    using assms names
    by (auto simp: connect_to_server_eq irc_connect_generic_def Let_def setup_kept_def split: option.splits prod.splits if_splits)
  have u: "s_nick (w_session ?u) = Some n" "s_realname (w_session ?u) = None" "s_server_password (w_session ?u) = None"
    "s_outgoing_buf (w_session ?u) = s_outgoing_buf (w_session w)" "s_outgoing_offset (w_session ?u) = s_outgoing_offset (w_session w)"
    "s_incoming_buf (w_session ?u) = s_incoming_buf (w_session w)" "s_incoming_offset (w_session ?u) = s_incoming_offset (w_session w)"
    by (simp_all add: store_names_def free_ircsession_strings_def Let_def)
  have "setup_kept (w_session ?u) (w_session x)" using connect_first_setup [of "w_session ?u" ?u fs] x(1) by simp
  then show ?thesis using x(2,3) u names by (auto simp: setup_kept_def queued_def session_wf_def)
qed

section \<open>The keep-alive callback only queues lines\<close>

definition same_net :: "app_world \<Rightarrow> app_world \<Rightarrow> bool" where
  "same_net w v \<longleftrightarrow> w_os v = w_os w \<and> s_dcc_sessions (w_session v) = s_dcc_sessions (w_session w)
     \<and> s_flags (w_session v) = s_flags (w_session w)"

lemma app_msg_net: "same_net w (app_send (\<lambda>s. irc_cmd_msg s a b) w)"
  by (auto simp: same_net_def app_send_def w_send_def irc_cmd_msg_def state_error_def inval_error_def send_raw_frame
      split: prod.splits option.splits if_splits) (auto simp: send_raw_frame dest!: arg_cong [where f = fst])

lemma request_net: "same_net w (request_all ds w)"
proof (induction ds arbitrary: w)
  case (Cons d ds)
  then show ?case using app_msg_net by (fastforce simp: same_net_def)
qed (simp add: same_net_def)

lemma output_net: "output_active ps n w = Inr v \<Longrightarrow> same_net w v"
  by (induction ps n w rule: output_active.induct) (auto simp: same_net_def on_context_def on_app_def)

lemma print_output_net:
  assumes "print_output_callback w = Inr v"
  shows "same_net w v"
proof -
  let ?u = "if shouldSendXdccRequests w then send_xdcc_requests w else w"
  have u: "same_net w ?u" using request_net by (simp add: send_xdcc_requests_def Let_def same_net_def)
  obtain x where x: "(if cfg_get_bit (w_cfg ?u) OUTPUT_FLAG
      then and_then (output_all_progesses ?u) (\<lambda>w. Inr (w\<lparr>w_cfg := cfg_clear_bit (w_cfg w) OUTPUT_FLAG\<rparr>)) else Inr ?u) = Inr x"
    "sleeping x = Inr v"
    using assms by (auto simp: print_output_callback_def Let_def and_then_Inr_iff)
  have "same_net ?u x"
    using x(1) by (auto simp: output_all_progesses_def same_net_def and_then_Inr_iff dest!: output_net split: if_splits)
  moreover have "same_net x v"
    using x(2) by (auto simp: sleeping_def getSleepTime_def Let_def and_then_Inr_iff same_net_def on_app_def split: if_splits)
  ultimately show ?thesis using u by (simp add: same_net_def)
qed

text \<open>Without active downloads the callback cannot fail.\<close>

definition no_downloads :: "app \<Rightarrow> bool" where
  "no_downloads a \<longleftrightarrow> a_numActiveDownloads a = 0"

lemma print_output_calm:
  assumes "no_downloads (w_app w)"
  shows "\<exists>v. print_output_callback w = Inr v \<and> no_downloads (w_app v)"
proof -
  let ?u = "if shouldSendXdccRequests w then send_xdcc_requests w else w"
  have app: "w_app (app_send cmd v) = w_app v" for cmd v by (simp add: app_send_def w_send_def split: prod.splits)
  have req: "w_app (request_all ds v) = w_app v" for ds v by (induction ds arbitrary: v) (simp_all add: app)
  have u: "no_downloads (w_app ?u)" using assms by (simp add: send_xdcc_requests_def Let_def req)
  have sleep: "\<exists>v. sleeping x = Inr v \<and> no_downloads (w_app v)" if "no_downloads (w_app x)" for x
    using that by (simp add: sleeping_def getSleepTime_def getCurrentTransferSpeed_def no_downloads_def Let_def on_app_def)
  show ?thesis
    using u sleep by (simp add: print_output_callback_def Let_def output_all_progesses_def no_downloads_def)
qed

interpretation xdccget_quiet: quiet_client "initCallbacks dns now" no_downloads for dns now
  by unfold_locales (use print_output_net print_output_calm in \<open>auto simp: initCallbacks_def same_net_def\<close>)

end
