(* ===== verification/Client_Law.thy ===== *)
theory Client_Law
  imports Irc_Run
begin

text \<open>
  Properties of the program's own state and configuration: what the callbacks keep, the main loop keeps,
  whatever the network does.
\<close>

section \<open>The main loop outside the callbacks\<close>

definition app_kept :: "'a world \<Rightarrow> 'a world \<Rightarrow> bool" where
  "app_kept w v \<longleftrightarrow> w_app v = w_app w \<and> w_cfg v = w_cfg w"

lemma app_kept_refl [simp]: "app_kept w w"
  by (simp add: app_kept_def)

lemma app_kept_trans: "app_kept w v \<Longrightarrow> app_kept v u \<Longrightarrow> app_kept w u"
  by (simp add: app_kept_def)

lemma app_kept_simps [simp]:
  "app_kept w (on_session f v) = app_kept w v" "app_kept (on_session f w) v = app_kept w v"
  "app_kept w (v\<lparr>w_session := s\<rparr>) = app_kept w v" "app_kept w (v\<lparr>w_os := p\<rparr>) = app_kept w v"
  "app_kept w (note_sent fd xs v) = app_kept w v" "app_kept w (watch_fd fd i v) = app_kept w v"
  "app_kept w (fdwatch_zero v) = app_kept w v" "app_kept w (report_ready ready v) = app_kept w v"
  "app_kept w (fail_with e v) = app_kept w v" "app_kept w (libirc_dcc_add_descriptors v) = app_kept w v"
  "app_kept w (fst (w_send cmd v)) = app_kept w v"
  by (simp_all add: app_kept_def on_session_def note_sent_def watch_fd_def fdwatch_zero_def report_ready_def fail_with_def
      libirc_dcc_add_descriptors_def Let_def w_send_def split: prod.splits)

lemma os_app:
  "os_ret w = (r, v) \<Longrightarrow> app_kept w v" "os_read w = (ra, v) \<Longrightarrow> app_kept w v" "os_write w = (wa, v) \<Longrightarrow> app_kept w v"
  by (auto simp: app_kept_def os_ret_def os_read_def os_write_def split: list.splits)

lemma read_app: "app_kept w (fst (world_read w))"
  by (auto simp: world_read_def dest!: os_app split: prod.splits)

lemma write_app: "app_kept w (fst (world_write w))"
  by (auto simp: world_write_def Let_def dest!: os_app split: prod.splits)

lemma select_app: "app_kept w (fst (irc_add_select_descriptors v)) = app_kept w v"
  by (auto simp: irc_add_select_descriptors_def Let_def split: libirc_state.splits)

lemma introduce_app: "introduce w = Inr v \<Longrightarrow> app_kept w v"
  by (auto simp: introduce_def Let_def split: option.splits)

lemma connecting_app: "handle_connecting_state w = Inr (v, rc) \<Longrightarrow> app_kept w v"
  by (auto simp: handle_connecting_state_def and_then_Inr_iff dest!: os_app introduce_app
      split: prod.splits if_splits intro: app_kept_trans)

section \<open>Laws of the client\<close>

locale app_law = world_law +
  assumes own_state: "app_kept w v \<Longrightarrow> P w \<Longrightarrow> P v"
begin

lemma line_law:
  assumes "libirc_process_incoming_data cbs k r = Inr q" and "P (r_world r)"
  shows "P (r_world q)"
proof -
  let ?line = "take k (s_incoming_buf (r_session r))"
  obtain p n where p: "irc_parser_execute (line_parser_settings cbs) ((r_parser r)\<lparr>p_data := Inr (r_world r)\<rparr>) ?line = Inr (p, n)"
    using assms(1) by (auto simp: libirc_process_incoming_data_def Let_def split: sum.splits)
  then obtain u v where u: "p_data p = Inr u" "free_parser_result u = Inr v" "r_world q = v"
    using assms(1) by (auto simp: libirc_process_incoming_data_def and_then_Inr_iff)
  have "holds P (p_data p)" by (rule execute_line_kept [OF _ p]) (simp add: assms(2))
  then show ?thesis using u lib_law [OF free_result_step [OF u(2)]] by simp
qed

lemma lines_law_for:
  assumes "process_lines c r = Some res"
  shows "c = cbs \<longrightarrow> P (r_world r) \<longrightarrow> (\<forall>q. res = Inr q \<longrightarrow> P (r_world q))"
proof (rule process_lines.raw_induct [OF _ assms])
  fix f :: "'a irc_callbacks \<Rightarrow> 'a run \<Rightarrow> (stop + 'a run) option" and c :: "'a irc_callbacks" and r :: "'a run" and res
  assume IH: "\<And>c r res. f c r = Some res \<Longrightarrow> c = cbs \<longrightarrow> P (r_world r) \<longrightarrow> (\<forall>q. res = Inr q \<longrightarrow> P (r_world q))"
  let ?k = "libirc_findcrlf (s_incoming_buf (r_session r)) (s_incoming_offset (r_session r))"
  assume step: "(let offset = ?k in if offset = 0 then Some (Inr r) else (case libirc_process_incoming_data c offset r of
      Inl e \<Rightarrow> Some (Inl e) | Inr r \<Rightarrow> f c (on_world (on_session (drop_line offset)) r))) = Some res"
  show "c = cbs \<longrightarrow> P (r_world r) \<longrightarrow> (\<forall>q. res = Inr q \<longrightarrow> P (r_world q))"
  proof (intro impI)
    assume c: "c = cbs" and P: "P (r_world r)"
    show "\<forall>q. res = Inr q \<longrightarrow> P (r_world q)"
    proof (cases "?k = 0 \<or> (\<exists>e. libirc_process_incoming_data cbs ?k r = Inl e)")
      case True
      then show ?thesis using step P c by (auto simp: Let_def split: if_splits)
    next
      case False
      then obtain q where q: "libirc_process_incoming_data cbs ?k r = Inr q" by (cases "libirc_process_incoming_data cbs ?k r") auto
      have "P (r_world (on_world (on_session (drop_line ?k)) q))"
        using own_state [OF _ line_law [OF q P]] by (simp add: on_world_def)
      moreover have "f cbs (on_world (on_session (drop_line ?k)) q) = Some res" using step False q c by (simp add: Let_def)
      ultimately show ?thesis using IH c by blast
    qed
  qed
qed

lemma lines_law: "process_lines cbs r = Some (Inr q) \<Longrightarrow> P (r_world r) \<Longrightarrow> P (r_world q)"
  using lines_law_for by blast

lemma connected_law:
  assumes "process_connected cbs r = Some (Inr (q, rc))" and "P (r_world r)"
  shows "P (r_world q)"
proof -
  define wr where "wr = (\<lambda>r :: 'a run. if fdwatch_check_fd (r_world r) (s_sock (r_session r)) FDW_WRITE
    then (case world_write (r_world r) of (w, rc) \<Rightarrow> (r\<lparr>r_world := w\<rparr>, rc)) else (r, 0 :: int))"
  have wr: "P (r_world (fst (wr u)))" if "P (r_world u)" for u
    using own_state [OF write_app that] that by (simp add: wr_def split: prod.splits) (metis fst_conv)
  have read: "P (fst (world_read (r_world r)))" by (rule own_state [OF read_app assms(2)])
  obtain w n where w: "world_read (r_world r) = (w, n)" by fastforce
  have P: "P w" using read w by simp
  have got: "P (r_world (received k (r\<lparr>r_world := w\<rparr>)))" "P (r_world (fst (lost (r\<lparr>r_world := w\<rparr>))))" for k
    using own_state [OF _ P] by (simp_all add: received_def lost_def Let_def on_world_def)
  show ?thesis
    using assms(1) wr [OF assms(2)] w got(2) wr [OF lines_law [OF _ got(1)]]
    unfolding process_connected_def Let_def wr_def [symmetric]
    by (auto split: if_splits option.splits sum.splits) (metis fst_conv)+
qed

lemma process_law:
  assumes "irc_process_select_descriptors cbs r = Some (Inr (q, rc))" and "P (r_world r)"
  shows "P (r_world q)"
proof -
  have same: "P (r_world (on_world (fail_with e) u))" "P (r_world (on_world (on_session f) u))" if "P (r_world u)" for e f u
    using own_state [OF _ that] by (simp_all add: on_world_def)
  have dcc: "P w" if "libirc_dcc_process_descriptors cbs (fail_with LIBIRC_ERR_OK (r_world r)) = Inr w" for w
    using process_descriptors_kept [OF own_state [OF _ assms(2)], of "fail_with LIBIRC_ERR_OK (r_world r)"] that
    by (simp add: holds_def)
  have conn: "P v" if "handle_connecting_state w = Inr (v, rc)" "P w" for v w rc
    by (rule own_state [OF connecting_app [OF that(1)] that(2)])
  show ?thesis
    using assms dcc same connected_law conn
    by (auto simp: irc_process_select_descriptors_def Let_def and_then_Inr_iff split: if_splits sum.splits)
qed

lemma turn_law:
  assumes "irc_run_turn cbs a r = Some (Inr (q, x))" and "P (r_world r)"
  shows "P (r_world q)"
proof -
  let ?w = "fst (irc_add_select_descriptors (watch_fd (s_sock (r_session r)) None (fdwatch_zero (r_world r))))"
  have w: "P ?w" by (rule own_state [OF _ assms(2)]) (simp add: select_app)
  show ?thesis
  proof (cases a)
    case (WatchReady ready)
    have ready: "P (report_ready ready ?w)" by (rule own_state [OF _ w]) simp
    obtain v rc where v: "(case keep_alive_callback cbs of None \<Rightarrow> Inr (report_ready ready ?w)
        | Some k \<Rightarrow> k (report_ready ready ?w)) = Inr v" "irc_process_select_descriptors cbs (r\<lparr>r_world := v\<rparr>) = Some (Inr (q, rc))"
      using assms(1) WatchReady
      by (cases "keep_alive_callback cbs") (auto simp: irc_run_turn_def Let_def split: option.splits sum.splits)
    have "P v" using v(1) ready keep_alive_law [of _ "report_ready ready ?w"] by (auto simp: holds_def split: option.splits)
    then show ?thesis using process_law [OF v(2)] by simp
  qed (use assms(1) w own_state [of ?w "fail_with e ?w" for e] in \<open>auto simp: irc_run_turn_def Let_def on_world_def\<close>)
qed

lemma loop_law: "irc_run_loop cbs answers r = Some (Inr (q, x)) \<Longrightarrow> P (r_world r) \<Longrightarrow> P (r_world q)"
proof (induction answers arbitrary: r)
  case Nil
  then show ?case by (auto simp: irc_run_loop.simps split: if_splits)
next
  case (Cons a rest)
  show ?case
  proof (cases "irc_is_connected (r_session r)")
    case True
    obtain y z where y: "irc_run_turn cbs a r = Some (Inr (y, z))"
      using Cons.prems(1) True
      by (cases "irc_run_turn cbs a r") (auto simp: irc_run_loop.simps [of cbs "_ # _"] split: sum.splits)
    have "P (r_world y)" by (rule turn_law [OF y Cons.prems(2)])
    then show ?thesis using Cons.IH [of y] Cons.prems(1) y True
      by (cases z) (auto simp: irc_run_loop.simps [of cbs "_ # _"])
  qed (use Cons.prems in \<open>auto simp: irc_run_loop.simps [of cbs "_ # _"]\<close>)
qed

lemma run_law: "irc_run cbs answers r = Some (Inr (q, x)) \<Longrightarrow> P (r_world r) \<Longrightarrow> P (r_world q)"
  using loop_law own_state [of "r_world r" "fail_with e (r_world r)" for e]
  by (auto simp: irc_run_def on_world_def split: if_splits)

end

end
