(* ===== verification/File_Sandbox.thy ===== *)
theory File_Sandbox
  imports Program_Run Client_Law
begin

text \<open>
  Where the program writes. Every file it opens for an offer lies in the target directory under a name
  without a path separator, and nothing else is ever written; so bots and servers cannot reach other files,
  whatever they send. The proof is a law of the client that the main loop keeps.
\<close>

definition in_target :: "string \<Rightarrow> string \<Rightarrow> bool" where
  "in_target dir p \<longleftrightarrow> (\<exists>name. p = getAbsolutePath dir @ name \<and> CHR ''/'' \<notin> set name \<and> CHR 0x5C \<notin> set name)"

definition fd_in_target :: "string \<Rightarrow> fd_slot \<Rightarrow> bool" where
  "fd_in_target dir s = (case s of FdOpen f \<Rightarrow> in_target dir (f_path f) | _ \<Rightarrow> True)"

definition sandboxed :: "string \<Rightarrow> (string \<Rightarrow> string option) \<Rightarrow> app_world \<Rightarrow> bool" where
  "sandboxed dir files w \<longleftrightarrow> c_targetDir (w_cfg w) = Some dir
     \<and> (\<forall>p. a_files (w_app w) p \<noteq> files p \<longrightarrow> in_target dir p)
     \<and> list_all (\<lambda>c. fd_in_target dir (x_fd c)) (a_contexts (w_app w))"

lemma sandboxed_cong:
  assumes "c_targetDir (w_cfg v) = c_targetDir (w_cfg w)" "a_files (w_app v) = a_files (w_app w)"
    "map x_fd (a_contexts (w_app v)) = map x_fd (a_contexts (w_app w))"
  shows "sandboxed dir files v = sandboxed dir files w"
proof -
  have "list_all (fd_in_target dir) (map x_fd (a_contexts (w_app v))) = list_all (fd_in_target dir) (map x_fd (a_contexts (w_app w)))"
    using assms(3) by simp
  then show ?thesis using assms(1,2) by (simp add: sandboxed_def list_all_iff)
qed

lemma legal_name: "\<not> containsIllegalChars name \<Longrightarrow> in_target dir (getCompletePath dir name)"
  by (auto simp: containsIllegalChars_def sdscontains_def list_ex_iff getCompletePath_def in_target_def)

text \<open>What leaves the files and the open ones alone.\<close>

lemma sandboxed_simps [simp]:
  "sandboxed dir files (on_session f w) = sandboxed dir files w"
  "sandboxed dir files (w\<lparr>w_session := s\<rparr>) = sandboxed dir files w"
  "sandboxed dir files (w\<lparr>w_os := p\<rparr>) = sandboxed dir files w"
  "sandboxed dir files (fst (w_send cmd w)) = sandboxed dir files w"
  "sandboxed dir files (app_send cmd w) = sandboxed dir files w"
  by (rule sandboxed_cong; simp add: on_session_def app_send_def w_send_def split: prod.splits)+

lemma map_x_fd: "(\<And>c. x_fd (g c) = x_fd c) \<Longrightarrow> map x_fd (a_contexts (w_app (on_context i g w))) = map x_fd (a_contexts (w_app w))"
  by (cases "i < length (a_contexts (w_app w))") (simp_all add: on_context_def map_update list_update_same_conv list_update_beyond)

lemma progress_sandboxed:
  "(\<And>c. x_fd (g c) = x_fd c) \<Longrightarrow> sandboxed dir files (on_context i g w) = sandboxed dir files w"
  by (rule sandboxed_cong) (simp_all add: map_x_fd, simp add: on_context_def)

lemma position_sandboxed [simp]:
  "sandboxed dir files (set_position i n w) = sandboxed dir files w"
  "sandboxed dir files (count_received i n w) = sandboxed dir files w"
  by (simp_all add: set_position_def count_received_def progress_sandboxed)

lemma app_field_sandboxed:
  "(\<And>a. a_files (g a) = a_files a) \<Longrightarrow> (\<And>a. a_contexts (g a) = a_contexts a)
     \<Longrightarrow> sandboxed dir files (on_app g w) = sandboxed dir files w"
  by (rule sandboxed_cong) simp_all

lemma os_ret_sandboxed: "os_ret w = (r, v) \<Longrightarrow> sandboxed dir files v = sandboxed dir files w"
  by (rule sandboxed_cong) (auto simp: os_ret_def split: list.splits)

lemma new_fd_sandboxed:
  assumes "sandboxed dir files w" and "fd_in_target dir fd"
  shows "sandboxed dir files (on_context i (\<lambda>c. c\<lparr>x_fd := fd\<rparr>) w)"
proof -
  have "\<forall>c\<in>set ((a_contexts (w_app w))[i := (a_contexts (w_app w) ! i)\<lparr>x_fd := fd\<rparr>]). fd_in_target dir (x_fd c)"
    using assms set_update_subset_insert by (fastforce simp: sandboxed_def list_all_iff)
  then show ?thesis using assms(1) by (simp add: sandboxed_def on_context_def list_all_iff)
qed

lemma fd_of_sandboxed: "sandboxed dir files w \<Longrightarrow> fd_in_target dir (fd_of i w)"
  by (auto simp: sandboxed_def fd_of_def list_all_length fd_in_target_def)

lemma write_file_sandboxed:
  "sandboxed dir files w \<Longrightarrow> in_target dir p \<Longrightarrow> sandboxed dir files (on_app (\<lambda>a. a\<lparr>a_files := (a_files a)(p := t)\<rparr>) w)"
  by (auto simp: sandboxed_def)

section \<open>The operations on files\<close>

lemma Open_sandboxed:
  "sandboxed dir files w \<Longrightarrow> in_target dir p \<Longrightarrow> file_Open p m w = Inr (f, v) \<Longrightarrow> sandboxed dir files v \<and> f_path f = p"
  by (auto simp: file_Open_def Let_def os_ret_sandboxed intro!: write_file_sandboxed split: prod.splits if_splits)

lemma Write_sandboxed: "sandboxed dir files w \<Longrightarrow> holds (sandboxed dir files) (file_Write i xs w)"
  using fd_of_sandboxed [of dir files w i]
  by (auto simp: file_Write_def Let_def os_ret_sandboxed fd_in_target_def
      intro!: write_file_sandboxed new_fd_sandboxed split: fd_slot.splits prod.splits)

lemma Seek_sandboxed: "sandboxed dir files w \<Longrightarrow> holds (sandboxed dir files) (file_Seek i n w)"
  using fd_of_sandboxed [of dir files w i]
  by (auto simp: file_Seek_def os_ret_sandboxed fd_in_target_def intro!: new_fd_sandboxed split: fd_slot.splits prod.splits)

lemma Close_sandboxed: "sandboxed dir files w \<Longrightarrow> holds (sandboxed dir files) (file_Close i w)"
  by (auto simp: file_Close_def os_ret_sandboxed fd_in_target_def intro!: new_fd_sandboxed split: fd_slot.splits prod.splits)

section \<open>The callbacks\<close>

lemma exit_sandboxed: "sandboxed dir files (fst r) \<Longrightarrow> holds (sandboxed dir files) (or_exit r)"
  by (cases r) (simp add: or_exit_def)

lemma accept_sandboxed: "sandboxed dir files w \<Longrightarrow> sandboxed dir files (fst (irc_dcc_accept w i c f))"
  by (auto simp: irc_dcc_accept_def Let_def os_ret_sandboxed split: prod.splits option.splits)

lemma resume_sandboxed:
  assumes "sandboxed dir files w"
  shows "sandboxed dir files (fst (irc_dcc_resume w i c f n p))"
    "sandboxed dir files (fst (irc_dcc_resume_reverse w i c f n p token))"
    "sandboxed dir files (fst (irc_dcc_accept_reverse w i c f n name fsize token))"
  using assms
  by (auto simp: irc_dcc_resume_def irc_dcc_resume_reverse_def irc_dcc_accept_reverse_def Let_def split: prod.splits option.splits)

lemma finish_sandboxed: "sandboxed dir files w \<Longrightarrow> holds (sandboxed dir files) (finish_download i w)"
proof -
  have report: "holds (sandboxed dir files) (report_finished v)" if "sandboxed dir files v" for v
    using that by (auto simp: report_finished_def Let_def app_field_sandboxed startChecksumThread_def split: list.splits option.splits)
  show "sandboxed dir files w \<Longrightarrow> holds (sandboxed dir files) (finish_download i w)"
    unfolding finish_download_def Let_def
    by (rule holds_seq [OF Close_sandboxed report]) (simp_all add: app_field_sandboxed progress_sandboxed)
qed

lemma recv_sandboxed: "sandboxed dir files w \<Longrightarrow> holds (sandboxed dir files) (callback_dcc_recv_file i st c d n w)"
  unfolding callback_dcc_recv_file_def
  by (auto split: option.splits intro!: holds_seq [OF Write_sandboxed] finish_sandboxed)

lemma resume_callback_sandboxed:
  assumes "sandboxed dir files w"
  shows "holds (sandboxed dir files) (callback_dcc_resume_file i st c d n w)"
proof (cases c)
  case (Some k)
  show ?thesis unfolding callback_dcc_resume_file_def Some option.case
    by (rule holds_seq [OF Seek_sandboxed [OF assms]]) (simp add: exit_sandboxed accept_sandboxed)
qed (simp add: callback_dcc_resume_file_def)

lemma resume_reverse_sandboxed:
  assumes "sandboxed dir files w"
  shows "holds (sandboxed dir files) (callback_dcc_resume_file_reverse i st c d n nick fname token w)"
proof (cases c)
  case (Some k)
  show ?thesis unfolding callback_dcc_resume_file_reverse_def Some option.case Let_def
    by (rule holds_seq [OF Seek_sandboxed [OF assms]], rule holds_bind) (simp add: exit_sandboxed resume_sandboxed)
qed (simp add: callback_dcc_resume_file_reverse_def)

lemma prepare_sandboxed:
  assumes "sandboxed dir files w" and "prepareRecvFileRequest name n w = Inr (i, v)"
  shows "sandboxed dir files v \<and> in_target dir (getCompletePath dir name)"
proof -
  obtain r u where u: "os_ret w = (r, u)" by fastforce
  have dir: "target_dir w = Inr dir" using assms(1) by (simp add: sandboxed_def target_dir_def)
  have ctx: "sandboxed dir files (on_app (\<lambda>a. a\<lparr>a_contexts := a_contexts a @ [\<lparr>x_progress = pr, x_fd = FdUnset\<rparr>],
      a_curDownload := k, a_downloadContext := g a, a_numActiveDownloads := m\<rparr>) x)" if "sandboxed dir files x" for x pr k g m
    using that by (simp add: sandboxed_def fd_in_target_def)
  show ?thesis
    using assms os_ret_sandboxed [OF u, of dir files] legal_name [of name dir]
    by (auto simp: prepareRecvFileRequest_def Let_def u dir and_then_Inr_iff app_field_sandboxed intro!: ctx split: if_splits)
qed

lemma assign_sandboxed: "sandboxed dir files (snd r) \<Longrightarrow> in_target dir (f_path (fst r)) \<Longrightarrow> sandboxed dir files (assign_fd i r)"
  by (cases r) (simp add: assign_fd_def new_fd_sandboxed fd_in_target_def)

lemma request_sandboxed:
  assumes "sandboxed dir files w"
  shows "holds (sandboxed dir files) (recvFileRequest nick addr name n i w)"
    "holds (sandboxed dir files) (recvFileRequestReverse nick addr name n i token w)"
proof -
  have opened: "sandboxed dir files (assign_fd k r)"
    if "sandboxed dir files v" "in_target dir p" "file_Open p m v = Inr r" for k p m r v
    using Open_sandboxed [OF that(1,2), of m "fst r" "snd r"] that by (simp add: assign_sandboxed)
  have "\<And>v. sandboxed dir files v \<Longrightarrow> target_dir v = Inr dir" by (simp add: sandboxed_def target_dir_def)
  note target = this
  show "holds (sandboxed dir files) (recvFileRequest nick addr name n i w)"
    unfolding recvFileRequest_def Let_def
    by (intro holds_bind, auto split: prod.splits intro!: holds_bind exit_sandboxed accept_sandboxed resume_sandboxed
        dest!: prepare_sandboxed [OF assms] simp: target, (erule (2) opened)+)
  show "holds (sandboxed dir files) (recvFileRequestReverse nick addr name n i token w)"
    unfolding recvFileRequestReverse_def Let_def
    by (intro holds_bind, auto split: prod.splits intro!: holds_bind exit_sandboxed accept_sandboxed resume_sandboxed
        dest!: prepare_sandboxed [OF assms] simp: target, (erule (2) opened)+)
qed

section \<open>The events\<close>

lemma cfg_sandboxed [simp]:
  "c_targetDir c = c_targetDir (w_cfg w) \<Longrightarrow> sandboxed dir files (w\<lparr>w_cfg := c\<rparr>) = sandboxed dir files w"
  by (rule sandboxed_cong) simp_all

lemma bit_target [simp]: "c_targetDir (cfg_set_bit c b) = c_targetDir c" "c_targetDir (cfg_clear_bit c b) = c_targetDir c"
  by (simp_all add: cfg_set_bit_def cfg_clear_bit_def)

lemma lists_sandboxed [simp]:
  "sandboxed dir files (join_all cs w) = sandboxed dir files w"
  "sandboxed dir files (request_all ds w) = sandboxed dir files w"
  by (induction cs arbitrary: w, simp_all) (induction ds arbitrary: w, simp_all)

lemma steps_sandboxed [simp]:
  "sandboxed dir files (send_xdcc_requests w) = sandboxed dir files w"
  "sandboxed dir files (send_login_command l w) = sandboxed dir files w"
  "sandboxed dir files (on_connect_event w) = sandboxed dir files w"
  "sandboxed dir files (join_channels w) = sandboxed dir files w"
proof -
  have cfg: "c_targetDir (w_cfg (request_all ds v)) = c_targetDir (w_cfg v)"
    "c_targetDir (w_cfg (join_all cs v)) = c_targetDir (w_cfg v)"
    "c_targetDir (w_cfg (app_send cmd v)) = c_targetDir (w_cfg v)" for ds cs cmd v
  proof -
    have send: "w_cfg (app_send cmd v) = w_cfg v" for cmd v by (simp add: app_send_def w_send_def split: prod.splits)
    show "c_targetDir (w_cfg (request_all ds v)) = c_targetDir (w_cfg v)" by (induction ds arbitrary: v) (simp_all add: send)
    show "c_targetDir (w_cfg (join_all cs v)) = c_targetDir (w_cfg v)" by (induction cs arbitrary: v) (simp_all add: send)
    show "c_targetDir (w_cfg (app_send cmd v)) = c_targetDir (w_cfg v)" by (simp add: send)
  qed
  show "sandboxed dir files (send_xdcc_requests w) = sandboxed dir files w"
    by (simp add: send_xdcc_requests_def Let_def)
  show join: "sandboxed dir files (join_channels w) = sandboxed dir files w" for w by (simp add: join_channels_def)
  show login: "sandboxed dir files (send_login_command l w) = sandboxed dir files w" for w l
    by (simp add: send_login_command_def Let_def)
  show "sandboxed dir files (on_connect_event w) = sandboxed dir files w"
    by (simp add: on_connect_event_def Let_def join login split: option.split)
qed

lemma event_sandboxed:
  assumes "sandboxed dir files w"
  shows "holds (sandboxed dir files) (dump_event e w)" "holds (sandboxed dir files) (xg_event_notice e w)"
    "holds (sandboxed dir files) (xg_event_mode e w)" "holds (sandboxed dir files) (xg_event_umode e w)"
    "holds (sandboxed dir files) (xg_event_join e w)" "holds (sandboxed dir files) (xg_event_connect e w)"
    "holds (sandboxed dir files) (xg_event_numeric dns code w)" "holds (sandboxed dir files) (libirc_event_ctcp_internal now e w)"
proof -
  have dump: "holds (sandboxed dir files) (dump_event e w)" if "sandboxed dir files w" for e w
    using that by (auto simp: dump_event_def intro!: holds_bind)
  then show "holds (sandboxed dir files) (dump_event e w)" using assms by blast
  have md5: "holds (sandboxed dir files) (checkMD5ChecksumNotice e v)" if "sandboxed dir files v" for v
    using that by (auto simp: checkMD5ChecksumNotice_def set_first_md5_def startChecksumThread_def app_field_sandboxed
        intro!: holds_bind split: option.splits list.splits)
  have conn: "holds (sandboxed dir files) (check_connected_event e v)" if "sandboxed dir files v" for v
    using that by (auto simp: check_connected_event_def intro!: holds_bind)
  show "holds (sandboxed dir files) (xg_event_notice e w)"
    unfolding xg_event_notice_def by (rule holds_seq [OF dump [OF assms]], rule holds_seq [OF md5], assumption, erule conn)
qed (use assms in \<open>auto simp: xg_event_mode_def xg_event_umode_def xg_event_join_def xg_event_connect_def xg_event_numeric_def
      libirc_event_ctcp_internal_def Let_def intro!: holds_bind dest!: dump_same split: option.splits\<close>)

lemma output_sandboxed: "output_active ps n w = Inr v \<Longrightarrow> sandboxed dir files v = sandboxed dir files w"
  by (induction ps n w rule: output_active.induct) (auto simp: progress_sandboxed)

lemma sleeping_sandboxed: "sleeping w = Inr v \<Longrightarrow> sandboxed dir files v = sandboxed dir files w"
  by (auto simp: sleeping_def getSleepTime_def Let_def app_field_sandboxed and_then_Inr_iff split: if_splits)

lemma print_sandboxed:
  assumes "sandboxed dir files w"
  shows "holds (sandboxed dir files) (print_output_callback w)"
proof -
  let ?u = "if shouldSendXdccRequests w then send_xdcc_requests w else w"
  have u: "sandboxed dir files ?u" using assms by simp
  have "sandboxed dir files v" if "output_all_progesses x = Inr v" "sandboxed dir files x" for x v
    using that output_sandboxed by (simp add: output_all_progesses_def)
  then show ?thesis using u
    by (auto simp: print_output_callback_def Let_def holds_def and_then_Inr_iff dest!: sleeping_sandboxed)
qed

interpretation sandbox: app_law "initCallbacks dns now" "sandboxed dir files" for dns now dir files
proof (unfold_locales, goal_cases)
  case (1 w v)
  then show ?case using sandboxed_cong [of v w] by (simp add: lib_step_def)
next
  case (2 f w name)
  then show ?case by (auto simp: events_of_def initCallbacks_def no_callbacks_def event_sandboxed)
next
  case (7 w c i st ctx data len)
  then show ?case by (cases c) (simp_all add: initCallbacks_def recv_sandboxed resume_callback_sandboxed)
next
  case (8 w c i st ctx data len nick fname token)
  then show ?case by (cases c) (simp_all add: initCallbacks_def resume_reverse_sandboxed)
next
  case (9 w v)
  then show ?case using sandboxed_cong [of v w] by (simp add: app_kept_def)
qed (auto simp: initCallbacks_def no_callbacks_def event_sandboxed request_sandboxed print_sandboxed)

end
