(* ===== verification/Program_Properties.thy ===== *)
theory Program_Properties
  imports File_Sandbox
begin

text \<open>
  What the main loop of the program guarantees, for every behaviour of the network, the server and the
  bots: the parser sees the lines of the stream, the buffers keep their bounds, the loop ends only with
  an error, a connected client registers, and what is queued leaves; and the byte that may not.
\<close>

section \<open>Runs from the start\<close>

definition start_run :: "'a world \<Rightarrow> 'a run" where
  "start_run w = \<lparr>r_parser = create_line_parser w, r_world = w, r_received = [], r_lines = []\<rparr>"

text \<open>A run that returns, and leads to such a state unless the program stops before.\<close>

definition leads_to :: "('a run \<Rightarrow> int option \<Rightarrow> bool) \<Rightarrow> (stop + ('a run \<times> int option)) option \<Rightarrow> bool" where
  "leads_to Q res = (case res of None \<Rightarrow> False | Some (Inl e) \<Rightarrow> True | Some (Inr (q, x)) \<Rightarrow> Q q x)"

lemma leads_toI:
  assumes "res = Some y" and "\<And>q x. y = Inr (q, x) \<Longrightarrow> Q q x"
  shows "leads_to Q res"
  using assms by (auto simp: leads_to_def split: sum.splits)

lemma lines_of_Nil [simp]: "lines_of [] = []" "rest_of [] = []"
  using lines_of_none [of "[]"] by simp_all

lemma start_inv:
  "session_wf (w_session w) \<Longrightarrow> s_incoming_offset (w_session w) = 0 \<Longrightarrow> stream_inv (s_ssl (w_session w)) (start_run w)"
  by (simp add: stream_inv_def start_run_def r_session_def unread_def)

lemma run_inv:
  assumes "stream_inv tls r"
  shows "\<exists>res. irc_run (initCallbacks dns now) answers r = Some res \<and> (\<forall>q x. res = Inr (q, x) \<longrightarrow> stream_inv tls q)"
proof (cases "s_state (r_session r) = LIBIRC_STATE_CONNECTING")
  case True
  then show ?thesis using xdccget_io.loop_inv [OF assms] by (simp add: irc_run_def)
next
  case False
  then show ?thesis using assms
    by (simp add: irc_run_def stream_inv_def on_world_def r_session_def session_wf_def unread_def)
qed

definition demo_net :: "app_world" where
  "demo_net = fresh_world (irc_create_session\<lparr>s_state := LIBIRC_STATE_CONNECTING, s_sock := 3\<rparr>) zero_config (initial_app 1)"

lemma demo_ok:
  "session_wf (w_session demo_net)" "s_incoming_offset (w_session demo_net) = 0" "\<not> s_ssl (w_session demo_net)"
  "s_state (w_session demo_net) = LIBIRC_STATE_CONNECTING" "0 \<le> s_sock (w_session demo_net)"
  by (simp_all add: demo_net_def fresh_world_def session_wf_defs irc_create_session_def)



text \<open>C13: whether the connection is plain or uses TLS, every run of the main loop returns with both
  2048-byte buffers of the session within their bounds, for every answer of the system.\<close>

theorem run_keeps_buffers:
  assumes "session_wf (w_session w)" and "s_incoming_offset (w_session w) = 0"
  shows "leads_to (\<lambda>q x. session_wf (r_session q)) (irc_run (initCallbacks dns now) answers (start_run w))"
proof -
  obtain res where res: "irc_run (initCallbacks dns now) answers (start_run w) = Some res"
    "\<forall>q x. res = Inr (q, x) \<longrightarrow> stream_inv (s_ssl (w_session w)) q"
    using run_inv [OF start_inv [OF assms], of dns now answers] by blast
  show ?thesis by (rule leads_toI [OF res(1)]) (use res(2) in \<open>auto simp: stream_inv_def\<close>)
qed

theorem run_keeps_buffers_witness:
  "leads_to (\<lambda>q x. session_wf (r_session q))
     (irc_run (initCallbacks (\<lambda>h. None) []) [WatchReady [(3, FDW_WRITE)]] (start_run demo_net))"
  by (rule run_keeps_buffers [OF demo_ok(1,2)])



text \<open>C16: how the main loop ends. As long as it runs the session connects or is connected; it never
  returns \<open>0\<close>: it returns \<open>1\<close>, and then there is an error code, and the session is disconnected unless
  waiting failed.\<close>

theorem run_ends_with_error:
  assumes "session_wf (w_session w)" and "s_incoming_offset (w_session w) = 0"
    and "s_state (w_session w) = LIBIRC_STATE_CONNECTING" and "0 \<le> s_sock (w_session w)"
    and "irc_run (initCallbacks dns now) answers (start_run w) = Some (Inr (q, x))"
  shows "case x of
     None \<Rightarrow> irc_is_connected (r_session q)
   | Some rc \<Rightarrow> rc = 1 \<and> s_lasterror (r_session q) \<noteq> LIBIRC_ERR_OK
       \<and> (s_state (r_session q) = LIBIRC_STATE_DISCONNECTED \<or> s_lasterror (r_session q) = LIBIRC_ERR_TERMINATED)"
proof -
  have run: "running (start_run w)" using assms(3,4) by (simp add: running_def start_run_def r_session_def irc_is_connected_def)
  have loop: "irc_run_loop (initCallbacks dns now) answers (start_run w) = Some (Inr (q, x))"
    using assms(3,5) by (simp add: irc_run_def start_run_def r_session_def)
  show ?thesis using xdccget_io.loop_status [OF start_inv [OF assms(1,2)] run loop]
    by (cases x) (simp_all add: running_def ended_def)
qed

theorem run_ends_with_error_witness:
  "\<forall>q x. irc_run (initCallbacks (\<lambda>h. None) []) [WatchFailed] (start_run demo_net) \<noteq> Some (Inr (q, Some 0))"
proof (intro allI notI)
  fix q :: "app run" and x :: int
  assume "irc_run (initCallbacks (\<lambda>h. None) []) [WatchFailed] (start_run demo_net) = Some (Inr (q, Some 0))"
  from run_ends_with_error [OF demo_ok(1,2,4,5) this] show False by simp
qed

text \<open>C17: registration. When connecting with the nick of the configuration succeeded and the first round
  finds the connection standing, exactly the lines \<open>NICK\<close> and \<open>USER\<close> with that nick wait to be sent.\<close>

theorem connected_client_registers:
  assumes "connect_to_server w dns r = (v, 0)" and "session_wf (w_session w)" and "queued (w_session w) = []"
    and "c_nick (w_cfg w) = Some n" and "is_cstr n" and "length n \<le> 115"
    and "handle_connecting_state v = Inr (u, 0)"
  shows "s_state (w_session u) = LIBIRC_STATE_CONNECTED
     \<and> queued (w_session u) = ''NICK '' @ n @ CRLF @ ''USER '' @ n @ '' '' @ n @ '' unknown :realname'' @ CRLF"
proof -
  note c = connect_result [OF assms(1)]
  obtain x where x: "w_session x = (w_session v)\<lparr>s_state := LIBIRC_STATE_CONNECTED\<rparr>" "introduce x = Inr u"
  proof -
    obtain a w1 where a: "os_ret v = (a, w1)" by (cases "os_ret v")
    obtain b w2 where b: "(if a < 0 then (-1, w1) else os_ret w1) = (b, w2)" by fastforce
    have "w_session w2 = w_session v" using b os_session(1) [OF a] os_session(1) [of w1 b w2] by (auto split: if_splits)
    then show thesis using assms(7) that [of "on_session (\<lambda>s. s\<lparr>s_state := LIBIRC_STATE_CONNECTED\<rparr>) w2"]
      by (auto simp: handle_connecting_state_def a b and_then_Inr_iff split: if_splits)
  qed
  have s: "session_wf (w_session x)" "queued (w_session x) = []" "s_nick (w_session x) = Some n"
    "s_realname (w_session x) = None" "s_server_password (w_session x) = None"
    "s_state (w_session x) = LIBIRC_STATE_CONNECTED"
    using c assms(2-4) by (simp_all add: x(1) session_wf_def queued_def)
  show ?thesis
    using introduce_text [OF s(1,6,2,3,4,5) assms(5,6) x(2)] introduce_kept [OF x(2)] s(6)
    by (simp add: registration_def io_kept_def)
qed

text \<open>A configuration with a server and a nick, and a system where everything succeeds.\<close>

definition demo_connect :: app_world where
  "demo_connect = (fresh_world irc_create_session (zero_config\<lparr>c_ircServer := Some ''irc.example.org'', c_nick := Some ''bob''\<rparr>)
     (initial_app 1))\<lparr>w_os := \<lparr>os_rets = [3, 0, 0, 1, 0, 0, 0], os_reads = [], os_writes = [],
        os_handshake = [], os_pending = [], os_ready = [], os_watch = [], os_sent = [], os_time = 0\<rparr>\<rparr>"

theorem connected_client_registers_witness:
  "\<exists>v u. connect_to_server demo_connect (\<lambda>name family. Some [AF_INET, AF_INET6]) 7 = (v, 0)
     \<and> handle_connecting_state v = Inr (u, 0)
     \<and> queued (w_session u) = ''NICK bob'' @ CRLF @ ''USER bob bob unknown :realname'' @ CRLF"
proof -
  let ?dns = "\<lambda>name family. Some [AF_INET, AF_INET6]"
  define v where "v = fst (connect_to_server demo_connect ?dns 7)"
  have c: "connect_to_server demo_connect ?dns 7 = (v, 0)" "os_rets (w_os v) = [0, 0]"
    unfolding v_def by (simp_all add: demo_connect_def fresh_world_def connect_to_server_eq irc_connect_generic_def Let_def
        irc_create_session_def zero_config_def store_names_def free_ircsession_strings_def rand_range_def has_flag_def
        try_to_connect_def init_socket_def os_ret_def on_session_def hasConnection_def isConnectionEstablished_def
        cfg_get_bit_def SSL_PREFIX_def)
  define x where "x = on_session (\<lambda>s. s\<lparr>s_state := LIBIRC_STATE_CONNECTED\<rparr>) (snd (os_ret (snd (os_ret v))))"
  have nick: "s_nick (w_session x) = Some ''bob''" "s_server_password (w_session x) = None"
    using connect_result [OF c(1)] by (simp_all add: x_def demo_connect_def fresh_world_def)
  obtain u where u: "introduce x = Inr u" using nick by (auto simp: introduce_def Let_def)
  have h: "handle_connecting_state v = Inr (u, 0)"
    using u c(2) by (simp add: handle_connecting_state_def os_ret_def x_def)
  have "queued (w_session u) = ''NICK '' @ ''bob'' @ CRLF @ ''USER '' @ ''bob'' @ '' '' @ ''bob'' @ '' unknown :realname'' @ CRLF"
    using connected_client_registers [OF c(1) _ _ _ _ _ h, of "''bob''"]
    by (simp add: demo_connect_def fresh_world_def session_wf_defs irc_create_session_def queued_def is_cstr_def)
  then show ?thesis using c(1) h by auto
qed

text \<open>C15: nothing stays in the queue but, at worst, one byte. On a plain connection without transfers, in
  as many rounds as the queue has bytes up to and with the \<open>CR\<close> of a line, in each of which the socket is
  writable and takes at least one byte, the loop goes on and those bytes have left in order, first in first
  out with what the program queued meanwhile.\<close>

theorem queue_drains:
  assumes "quiet_run r" and "a_numActiveDownloads (w_app (r_world r)) = 0"
    and "queued (r_session r) = line @ CRLF @ later"
    and "os_writes (w_os (r_world r)) = map Written ns" and "\<forall>n\<in>set ns. 0 < n"
    and "length readys = length ns" and "length ns = length line + 1"
    and "\<forall>ready\<in>set readys. (s_sock (r_session r), FDW_WRITE) \<in> set ready \<and> (s_sock (r_session r), FDW_READ) \<notin> set ready"
  shows "\<exists>q out more rest. irc_run_loop (initCallbacks dns now) (map WatchReady readys) r = Some (Inr (q, None))
     \<and> os_sent (w_os (r_world q)) = os_sent (w_os (r_world r)) @ map (Pair (s_sock (r_session r))) out
     \<and> concat out @ queued (r_session q) = queued (r_session r) @ more \<and> concat out = line @ [CR] @ rest"
proof -
  have calm: "no_downloads (w_app (r_world r))" using assms(2) by (simp add: no_downloads_def)
  have tape: "os_writes (w_os (r_world r)) = map Written ns @ []" "length readys \<le> length ns" using assms(4,6) by simp_all
  obtain q x where q: "irc_run_loop (initCallbacks dns now) (map WatchReady readys) r = Some (Inr (q, x))"
    using xdccget_quiet.calm_loop [OF assms(1) calm refl tape(1) assms(5) tape(2) assms(8)] by blast
  obtain out more where o: "x = None" "os_sent (w_os (r_world q)) = os_sent (w_os (r_world r)) @ map (Pair (s_sock (r_session r))) out"
    "concat out @ queued (r_session q) = queued (r_session r) @ more" "length line + 1 \<le> length (concat out)"
    using xdccget_quiet.flush_loop [OF assms(1) refl tape(1) assms(5) tape(2) assms(8) _ q, of "length line + 1"] assms(3,6,7)
    by auto
  have "take (length line + 1) (concat out) = take (length line + 1) (concat out @ queued (r_session q))" using o(4) by simp
  also have "\<dots> = line @ [CR]" unfolding o(3) assms(3) by (simp add: CRLF_def)
  finally have "concat out = line @ [CR] @ drop (length line + 1) (concat out)"
    by (metis append_take_drop_id append.assoc)
  then show ?thesis using q o(1-3) by blast
qed

text \<open>A connected session with one line in the queue, and a socket that takes a byte, then all of it.\<close>

definition demo_queue :: "write_answer list \<Rightarrow> app run" where
  "demo_queue ws = start_run ((fresh_world (fst (irc_send_raw
     (irc_create_session\<lparr>s_state := LIBIRC_STATE_CONNECTED, s_sock := 3\<rparr>) ''A'')) zero_config (initial_app 1))
     \<lparr>w_os := \<lparr>os_rets = [], os_reads = [], os_writes = ws, os_handshake = [], os_pending = [],
        os_ready = [], os_watch = [], os_sent = [], os_time = 0\<rparr>\<rparr>)"

lemma demo_queue_ok:
  "quiet_run (demo_queue ws)" "a_numActiveDownloads (w_app (r_world (demo_queue ws))) = 0"
  "queued (r_session (demo_queue ws)) = ''A'' @ CRLF" "os_writes (w_os (r_world (demo_queue ws))) = ws"
  "s_sock (r_session (demo_queue ws)) = 3" "os_sent (w_os (r_world (demo_queue ws))) = []"
proof -
  let ?s = "irc_create_session\<lparr>s_state := LIBIRC_STATE_CONNECTED, s_sock := 3\<rparr>"
  have wf: "session_wf ?s" "queued ?s = []" by (simp_all add: session_wf_defs irc_create_session_def queued_def)
  have acc: "send_accepted ?s ''A''"
    by (simp add: send_accepted_def sent_text_def wf(2) CRLF_def LIBIRC_BUFFER_SIZE_def cstr_def)
  have f: "s_flags (fst (irc_send_raw ?s m)) = 0" "s_dcc_sessions (fst (irc_send_raw ?s m)) = []"
    "s_ssl (fst (irc_send_raw ?s m)) = False" "s_sock (fst (irc_send_raw ?s m)) = 3" for m
    by (simp_all add: irc_send_raw_def Let_def irc_create_session_def)
  show "quiet_run (demo_queue ws)"
    using send_raw_wf [OF wf(1)] send_raw_frame [of ?s]
    by (simp add: quiet_run_def plain_session_def demo_queue_def start_run_def r_session_def fresh_world_def f has_flag_def)
  show "queued (r_session (demo_queue ws)) = ''A'' @ CRLF"
    using send_raw_queued [OF wf(1), of "''A''"] acc wf(2)
    by (simp add: demo_queue_def start_run_def r_session_def fresh_world_def sent_text_def cstr_def)
qed (simp_all add: demo_queue_def start_run_def r_session_def fresh_world_def initial_app_def irc_send_raw_def Let_def)

theorem queue_drains_witness:
  "\<exists>q out more rest. irc_run_loop (initCallbacks (\<lambda>h. None) []) (map WatchReady [[(3, FDW_WRITE)], [(3, FDW_WRITE)]])
        (demo_queue [Written 1, Written 2]) = Some (Inr (q, None))
     \<and> os_sent (w_os (r_world q)) = map (Pair 3) out
     \<and> concat out @ queued (r_session q) = ''A'' @ CRLF @ more \<and> concat out = ''A'' @ [CR] @ rest"
  using queue_drains [OF demo_queue_ok(1,2), of "[Written 1, Written 2]" "''A''" "[]" "[1, 2]" "[[(3, FDW_WRITE)], [(3, FDW_WRITE)]]"]
  by (simp add: demo_queue_ok(3-6))

text \<open>C34: that byte can stay for ever. When the system takes all of the queue but the last line's final
  byte, the session no longer waits for the socket to become writable, because what is left holds no
  complete line end; so the server does not see the end of the line until another line is queued.\<close>

theorem last_byte_stays:
  assumes "quiet_run r" and "queued (r_session r) = line @ CRLF"
    and "process_writable (r_session r) ReadClosed (Written (length line + 1)) = (s, rc)"
    and "q = on_world (on_session (\<lambda>t. s)) r"
  shows "queued (r_session q) = [LF] \<and> quiet_run q
     \<and> (s_sock (r_session q), Some FDW_WRITE) \<notin> set (os_watch (w_os (fst (irc_add_select_descriptors
          (watch_fd (s_sock (r_session q)) None (fdwatch_zero (r_world q)))))))"
proof -
  have plain: "plain_session (r_session r)" using assms(1) by (simp add: quiet_run_def)
  have off: "s_outgoing_offset (r_session r) = length line + 2"
    using queued_length [of "r_session r"] plain assms(2) by (simp add: plain_session_def CRLF_def)
  have w: "queued s = [LF]" "plain_session s"
    using process_writable_plain(1,2) [OF plain, of "length line + 1" ReadClosed] off assms(2,3) by (simp_all add: CRLF_def)
  have f: "s_sock s = s_sock (r_session r)" "s_dcc_sessions s = s_dcc_sessions (r_session r)" "s_flags s = s_flags (r_session r)"
    using assms(3) plain by (auto simp: process_writable_def session_socket_write_def plain_session_def Let_def split: if_splits)
  have q: "r_session q = s" by (simp add: assms(4) on_world_def r_session_def)
  have quiet: "quiet_run q" using assms(1) w(2) f by (simp add: quiet_run_def q has_flag_def)
  then show ?thesis using quiet_watch [OF quiet] w(1) q by simp
qed

theorem last_byte_stays_witness:
  "\<exists>q :: app run. queued (r_session q) = [LF] \<and> quiet_run q
     \<and> (s_sock (r_session q), Some FDW_WRITE) \<notin> set (os_watch (w_os (fst (irc_add_select_descriptors
          (watch_fd (s_sock (r_session q)) None (fdwatch_zero (r_world q)))))))"
proof -
  obtain s rc where s: "process_writable (r_session (demo_queue [])) ReadClosed (Written (length ''A'' + 1)) = (s, rc)" by fastforce
  show ?thesis using last_byte_stays [OF demo_queue_ok(1,3) s refl] by blast
qed

end
