(* ===== verification/Sph_Codec.thy ===== *)
theory Sph_Codec
  imports Md5
begin

text \<open>
  Reading and writing words in a fixed byte order, \<open>sph_types.h\<close>: the detection of the machine from
  the compiler's macros, the swap of the bytes of a word, and the functions that encode and decode 16,
  32 and 64 bits, each with the cases that the detected machine selects. The reference is the order of
  the bytes itself. Main results: on every machine that the detection describes truly, all variants
  store and read the same bytes, and the formats satisfy the interface \<open>word_codec\<close>.
\<close>

unbundle bit_operations_syntax

type_synonym word16 = "16 word"
type_synonym word64 = "64 word"

section \<open>The machine\<close>

text \<open>The order in which the machine stores a word.\<close>

datatype byte_order = Little_Order | Big_Order

text \<open>What the header finds out about it: the names follow the macros without their prefix
  \<open>SPH_\<close>.\<close>

record sph_build =
  UPTR :: bool
  UNALIGNED :: bool
  LITTLE_ENDIAN :: bool
  BIG_ENDIAN :: bool
  LITTLE_FAST :: bool
  BIG_FAST :: bool
  SPARCV9_GCC_32 :: bool
  SPARCV9_GCC_64 :: bool
  I386_GCC :: bool
  AMD64_GCC :: bool

definition no_build :: sph_build where
  "no_build = \<lparr>UPTR = False, UNALIGNED = False, LITTLE_ENDIAN = False, BIG_ENDIAN = False,
     LITTLE_FAST = False, BIG_FAST = False, SPARCV9_GCC_32 = False, SPARCV9_GCC_64 = False,
     I386_GCC = False, AMD64_GCC = False\<rparr>"

definition SPARCV9_GCC :: "sph_build \<Rightarrow> bool" where
  "SPARCV9_GCC b \<longleftrightarrow> SPARCV9_GCC_32 b \<or> SPARCV9_GCC_64 b"

text \<open>The macros that a compiler defines, with a value that is not zero.\<close>

type_synonym macros = "string list"

definition any_of :: "macros \<Rightarrow> string list \<Rightarrow> bool" where
  "any_of ms names = list_ex (\<lambda>m. List.member ms m) names"

definition is_i386 :: "macros \<Rightarrow> bool" where
  "is_i386 ms = any_of ms [''__i386__'', ''_M_IX86'']"

definition is_amd64 :: "macros \<Rightarrow> bool" where
  "is_amd64 ms = any_of ms [''__x86_64'', ''_M_X64'']"

definition is_sparc :: "macros \<Rightarrow> bool" where
  "is_sparc ms = any_of ms [''__sparc__'', ''__sparc'']"

definition is_ppc :: "macros \<Rightarrow> bool" where
  "is_ppc ms = any_of ms [''__powerpc__'', ''__POWERPC__'', ''__ppc__'', ''_ARCH_PPC'']"

definition is_itanium :: "macros \<Rightarrow> bool" where
  "is_itanium ms = any_of ms [''__ia64'', ''__ia64__'', ''__itanium__'', ''_M_IA64'']"

definition says_big :: "macros \<Rightarrow> bool" where
  "says_big ms = any_of ms [''__BIG_ENDIAN__'', ''_BIG_ENDIAN'']"

definition says_little :: "macros \<Rightarrow> bool" where
  "says_little ms = any_of ms [''__LITTLE_ENDIAN__'', ''_LITTLE_ENDIAN'']"

definition sph_detect :: "macros \<Rightarrow> sph_build" where
  "sph_detect ms =
     (let gcc = any_of ms [''__GNUC__''] in
      if is_i386 ms then no_build\<lparr>UNALIGNED := True, LITTLE_ENDIAN := True, UPTR := True, I386_GCC := gcc\<rparr>
      else if is_amd64 ms then no_build\<lparr>UNALIGNED := True, LITTLE_ENDIAN := True, UPTR := True, AMD64_GCC := gcc\<rparr>
      else if is_sparc ms \<and> any_of ms [''__arch64__''] \<or> any_of ms [''__sparcv9'']
      then no_build\<lparr>BIG_ENDIAN := True, UPTR := True, SPARCV9_GCC_64 := gcc, LITTLE_FAST := gcc\<rparr>
      else if is_sparc ms \<and> \<not> any_of ms [''__sparcv9'', ''__arch64__'']
      then (let v9 = gcc \<and> any_of ms [''__sparc_v9__''] in
            no_build\<lparr>BIG_ENDIAN := True, UPTR := True, SPARCV9_GCC_32 := v9, LITTLE_FAST := v9\<rparr>)
      else if any_of ms [''__arm__''] \<and> any_of ms [''__ARMEL__''] then no_build\<lparr>LITTLE_ENDIAN := True\<rparr>
      else if any_of ms [''MIPSEL'', ''_MIPSEL'', ''__MIPSEL'', ''__MIPSEL__''] then no_build\<lparr>LITTLE_ENDIAN := True\<rparr>
      else if any_of ms [''MIPSEB'', ''_MIPSEB'', ''__MIPSEB'', ''__MIPSEB__''] then no_build\<lparr>BIG_ENDIAN := True\<rparr>
      else if is_ppc ms
      then (if says_big ms then no_build\<lparr>BIG_ENDIAN := True\<rparr>
            else if says_little ms then no_build\<lparr>LITTLE_ENDIAN := True\<rparr> else no_build)
      else if is_itanium ms
      then (if says_big ms then no_build\<lparr>BIG_ENDIAN := True, UPTR := True\<rparr>
            else no_build\<lparr>LITTLE_ENDIAN := True, UPTR := True\<rparr>)
      else no_build)"

definition sph_defaults :: "sph_build \<Rightarrow> sph_build" where
  "sph_defaults b =
     (let b = (if LITTLE_ENDIAN b then b\<lparr>LITTLE_FAST := True\<rparr> else b) in
      if BIG_ENDIAN b then b\<lparr>BIG_FAST := True\<rparr> else b)"

text \<open>The last check of the header stops the compilation.\<close>

definition sph_configure :: "macros \<Rightarrow> sph_build option" where
  "sph_configure ms =
     (let b = sph_defaults (sph_detect ms) in
      if UPTR b \<and> \<not> (LITTLE_ENDIAN b \<or> BIG_ENDIAN b) then None else Some b)"

text \<open>A build that describes a machine with this order truly.\<close>

definition describes :: "sph_build \<Rightarrow> byte_order \<Rightarrow> bool" where
  "describes b ord \<longleftrightarrow> (LITTLE_ENDIAN b \<longrightarrow> ord = Little_Order) \<and> (BIG_ENDIAN b \<longrightarrow> ord = Big_Order)
     \<and> (UPTR b \<longrightarrow> LITTLE_ENDIAN b \<or> BIG_ENDIAN b) \<and> (SPARCV9_GCC b \<longrightarrow> BIG_ENDIAN b)"

text \<open>What the names of the macros promise about the machine.\<close>

definition truthful :: "macros \<Rightarrow> byte_order \<Rightarrow> bool" where
  "truthful ms ord \<longleftrightarrow>
     (is_i386 ms \<or> is_amd64 ms \<or> any_of ms [''__ARMEL__'', ''MIPSEL'', ''_MIPSEL'', ''__MIPSEL'', ''__MIPSEL__'']
        \<longrightarrow> ord = Little_Order)
     \<and> (is_sparc ms \<or> any_of ms [''__sparcv9'', ''MIPSEB'', ''_MIPSEB'', ''__MIPSEB'', ''__MIPSEB__'']
        \<longrightarrow> ord = Big_Order)
     \<and> (is_ppc ms \<or> is_itanium ms \<longrightarrow> (says_big ms \<longrightarrow> ord = Big_Order))
     \<and> (is_ppc ms \<and> says_little ms \<and> \<not> says_big ms \<longrightarrow> ord = Little_Order)
     \<and> (is_itanium ms \<and> \<not> says_big ms \<longrightarrow> ord = Little_Order)"

text \<open>The compilation never stops at the check, and a build describes the machine when the macros
  do.\<close>

lemma sph_configure_defined: "\<exists>b. sph_configure ms = Some b"
  by (simp add: sph_configure_def sph_detect_def sph_defaults_def no_build_def Let_def)

lemma sph_configure_describes:
  assumes "sph_configure ms = Some b" and "truthful ms ord"
  shows "describes b ord"
proof -
  have b: "b = sph_defaults (sph_detect ms)"
    using assms(1) by (simp add: sph_configure_def Let_def split: if_splits)
  show ?thesis
    unfolding b using assms(2)
    by (auto simp: describes_def sph_defaults_def sph_detect_def truthful_def no_build_def Let_def
        SPARCV9_GCC_def any_of_def)
qed

section \<open>Bytes of a word\<close>

definition byte_of :: "nat \<Rightarrow> 'a::len word \<Rightarrow> byte" where
  "byte_of k v = ucast (drop_bit (8 * k) v)"

definition le32 :: "word32 \<Rightarrow> byte list" where
  "le32 v = map (\<lambda>k. byte_of k v) [0, 1, 2, 3]"

definition le64 :: "word64 \<Rightarrow> byte list" where
  "le64 v = map (\<lambda>k. byte_of k v) [0, 1, 2, 3, 4, 5, 6, 7]"

text \<open>The value of bytes, the lowest one first.\<close>

fun from_le :: "byte list \<Rightarrow> 'a::len word" where
  "from_le [] = 0"
| "from_le (b # bs) = ucast b OR push_bit 8 (from_le bs)"

text \<open>How the machine stores and reads a word.\<close>

definition in_order :: "byte_order \<Rightarrow> byte list \<Rightarrow> byte list" where
  "in_order ord bs = (case ord of Little_Order \<Rightarrow> bs | Big_Order \<Rightarrow> rev bs)"

definition store32 :: "byte_order \<Rightarrow> word32 \<Rightarrow> byte list" where
  "store32 ord v = in_order ord (le32 v)"

definition load32 :: "byte_order \<Rightarrow> byte list \<Rightarrow> word32" where
  "load32 ord bs = from_le (in_order ord (take 4 bs))"

definition store64 :: "byte_order \<Rightarrow> word64 \<Rightarrow> byte list" where
  "store64 ord v = in_order ord (le64 v)"

definition load64 :: "byte_order \<Rightarrow> byte list \<Rightarrow> word64" where
  "load64 ord bs = from_le (in_order ord (take 8 bs))"

lemma bit_byte_of: "bit (byte_of k v) n \<longleftrightarrow> n < 8 \<and> bit v (8 * k + n)"
  by (auto simp: byte_of_def bit_simps)

lemma bit_from_le:
  "bit (from_le bs :: 'a::len word) n \<longleftrightarrow> n < LENGTH('a) \<and> n div 8 < length bs \<and> bit (bs ! (n div 8)) (n mod 8)"
proof (induction bs arbitrary: n)
  case (Cons b bs)
  show ?case
  proof (cases "n < 8")
    case True
    then show ?thesis by (auto simp: bit_simps)
  next
    case False
    then have "n div 8 = Suc ((n - 8) div 8)" "n mod 8 = (n - 8) mod 8"
      by (simp_all add: div_if [of 8 n] le_mod_geq)
    then show ?thesis
      using False Cons [of "n - 8"] by (auto simp: bit_simps not_less dest: bit_imp_le_length)
  qed
qed simp

lemma list_of_4: "length bs = 4 \<Longrightarrow> bs = [bs ! 0, bs ! 1, bs ! 2, bs ! 3]"
  by (rule nth_equalityI) (auto simp: less_Suc_eq numeral_eq_Suc)

lemma list_of_8: "length bs = 8 \<Longrightarrow> bs = [bs ! 0, bs ! 1, bs ! 2, bs ! 3, bs ! 4, bs ! 5, bs ! 6, bs ! 7]"
  by (rule nth_equalityI) (auto simp: less_Suc_eq numeral_eq_Suc)

lemma le_lengths [simp]: "length (le32 v) = 4" "length (le64 w) = 8"
  by (simp_all add: le32_def le64_def)

lemma le32_nth: "k < 4 \<Longrightarrow> le32 v ! k = byte_of k v"
  by (auto simp: le32_def less_Suc_eq numeral_eq_Suc)

lemma le64_nth: "k < 8 \<Longrightarrow> le64 v ! k = byte_of k v"
  by (auto simp: le64_def less_Suc_eq numeral_eq_Suc)

lemma from_le32 [simp]: "from_le (le32 v) = v"
  by (rule bit_word_eqI) (simp add: bit_from_le le32_nth bit_byte_of less_mult_imp_div_less)

lemma from_le64 [simp]: "from_le (le64 v) = v"
  by (rule bit_word_eqI) (simp add: bit_from_le le64_nth bit_byte_of less_mult_imp_div_less)

lemma le32_from:
  assumes "length bs = 4"
  shows "le32 (from_le bs) = bs"
proof (rule nth_equalityI)
  fix k assume "k < length (le32 (from_le bs))"
  then have k: "k < 4" by simp
  show "le32 (from_le bs) ! k = bs ! k"
    by (rule bit_word_eqI) (use k assms in \<open>simp add: le32_nth bit_byte_of bit_from_le div_add1_eq\<close>)
qed (use assms in simp)

lemma le64_from:
  assumes "length bs = 8"
  shows "le64 (from_le bs) = bs"
proof (rule nth_equalityI)
  fix k assume "k < length (le64 (from_le bs))"
  then have k: "k < 8" by simp
  show "le64 (from_le bs) ! k = bs ! k"
    by (rule bit_word_eqI) (use k assms in \<open>simp add: le64_nth bit_byte_of bit_from_le div_add1_eq\<close>)
qed (use assms in simp)

lemma le_inject: "le32 v = le32 w \<longleftrightarrow> v = w" "le64 x = le64 y \<longleftrightarrow> x = y"
  by (metis from_le32, metis from_le64)

section \<open>Swapping the bytes\<close>

text \<open>The function in C; with gcc on x86 it is the instruction \<open>bswap\<close>, which reverses the bytes.\<close>

definition sph_bswap32_c :: "word32 \<Rightarrow> word32" where
  "sph_bswap32_c x =
     (let x = push_bit 16 x OR drop_bit 16 x in
      drop_bit 8 (x AND 0xFF00FF00) OR push_bit 8 (x AND 0x00FF00FF))"

definition sph_bswap64_c :: "word64 \<Rightarrow> word64" where
  "sph_bswap64_c x =
     (let x = push_bit 32 x OR drop_bit 32 x;
          x = drop_bit 16 (x AND 0xFFFF0000FFFF0000) OR push_bit 16 (x AND 0x0000FFFF0000FFFF) in
      drop_bit 8 (x AND 0xFF00FF00FF00FF00) OR push_bit 8 (x AND 0x00FF00FF00FF00FF))"

definition bswapl :: "word32 \<Rightarrow> word32" where
  "bswapl x = from_le (rev (le32 x))"

definition bswapq :: "word64 \<Rightarrow> word64" where
  "bswapq x = from_le (rev (le64 x))"

definition sph_bswap32 :: "sph_build \<Rightarrow> word32 \<Rightarrow> word32" where
  "sph_bswap32 b x = (if I386_GCC b \<or> AMD64_GCC b then bswapl x else sph_bswap32_c x)"

definition sph_bswap64 :: "sph_build \<Rightarrow> word64 \<Rightarrow> word64" where
  "sph_bswap64 b x =
     (if I386_GCC b
      then push_bit 32 (ucast (sph_bswap32 b (ucast x))) OR ucast (sph_bswap32 b (ucast (drop_bit 32 x)))
      else if AMD64_GCC b then bswapq x else sph_bswap64_c x)"

text \<open>The masks, byte by byte.\<close>

lemma bit_byte_FF: "bit (0xFF :: byte) n \<longleftrightarrow> n < 8"
proof -
  have "(0xFF :: byte) = mask 8" by (simp add: mask_eq_decr_exp)
  then show ?thesis by (simp only: bit_mask_iff) simp
qed

lemma bit_at_byte: "n < 8 \<Longrightarrow> bit (from_le bs :: 'a::len word) (8 * k + n)
    \<longleftrightarrow> 8 * k + n < LENGTH('a) \<and> k < length bs \<and> bit (bs ! k) n"
  by (simp add: bit_from_le)

lemma mask_bytes:
  "(0xFF00FF00 :: word32) = from_le [0, 0xFF, 0, 0xFF]"
  "(0x00FF00FF :: word32) = from_le [0xFF, 0, 0xFF, 0]"
  "(0xFFFF0000FFFF0000 :: word64) = from_le [0, 0, 0xFF, 0xFF, 0, 0, 0xFF, 0xFF]"
  "(0x0000FFFF0000FFFF :: word64) = from_le [0xFF, 0xFF, 0, 0, 0xFF, 0xFF, 0, 0]"
  "(0xFF00FF00FF00FF00 :: word64) = from_le [0, 0xFF, 0, 0xFF, 0, 0xFF, 0, 0xFF]"
  "(0x00FF00FF00FF00FF :: word64) = from_le [0xFF, 0, 0xFF, 0, 0xFF, 0, 0xFF, 0]"
  by simp_all

text \<open>A byte of each step of the swap.\<close>

lemma byte_of_OR: "byte_of k (v OR w) = byte_of k v OR byte_of k w"
  by (rule bit_word_eqI) (auto simp: bit_byte_of bit_simps)

lemma byte_of_AND: "byte_of k (v AND w) = byte_of k v AND byte_of k w"
  by (rule bit_word_eqI) (auto simp: bit_byte_of bit_simps)

lemma byte_of_drop: "8 dvd m \<Longrightarrow> byte_of k (drop_bit m v) = byte_of (k + m div 8) v"
  by (rule bit_word_eqI) (auto simp: bit_byte_of bit_simps algebra_simps)

lemma byte_in_length: "8 dvd l \<Longrightarrow> n < 8 \<Longrightarrow> 8 * k + n < l \<longleftrightarrow> 8 * k + 8 \<le> (l :: nat)"
  by presburger

lemma byte_of_push:
  assumes "8 dvd LENGTH('a)" and "8 dvd m"
  shows "byte_of k (push_bit m (v :: 'a::len word))
    = (if m div 8 \<le> k \<and> 8 * k + 8 \<le> LENGTH('a) then byte_of (k - m div 8) v else 0)"
proof (rule bit_word_eqI)
  fix n assume "n < LENGTH(8)"
  then have n: "n < 8" by simp
  obtain j where m: "m = 8 * j" using assms(2) by (elim dvdE)
  have j: "m div 8 = j" by (simp add: m)
  have le: "8 * j \<le> 8 * k + n \<longleftrightarrow> j \<le> k" using n by presburger
  show "bit (byte_of k (push_bit m v)) n =
      bit (if m div 8 \<le> k \<and> 8 * k + 8 \<le> LENGTH('a) then byte_of (k - m div 8) v else 0) n"
  proof (cases "j \<le> k")
    case True
    then have "8 * k + n - 8 * j = 8 * (k - j) + n" by simp
    then show ?thesis
      using True n le byte_in_length [OF assms(1) n, of k]
      by (simp only: j m bit_byte_of bit_push_bit_iff) (simp add: bit_byte_of)
  qed (use n le in \<open>simp only: j m bit_byte_of bit_push_bit_iff, simp\<close>)
qed

lemma byte_of_from_le:
  assumes "8 dvd LENGTH('a)"
  shows "byte_of k (from_le bs :: 'a::len word)
    = (if 8 * k + 8 \<le> LENGTH('a) \<and> k < length bs then bs ! k else 0)"
proof (rule bit_word_eqI)
  fix n assume "n < LENGTH(8)"
  then have n: "n < 8" by simp
  then show "bit (byte_of k (from_le bs :: 'a word)) n
      = bit (if 8 * k + 8 \<le> LENGTH('a) \<and> k < length bs then bs ! k else 0) n"
    using byte_in_length [OF assms n, of k] by (auto simp: bit_byte_of bit_at_byte)
qed

lemma byte_of_beyond: "LENGTH('a) \<le> 8 * k \<Longrightarrow> byte_of k (v :: 'a::len word) = 0"
  by (rule bit_word_eqI) (auto simp: bit_byte_of dest: bit_imp_le_length)

lemmas byte_simps = byte_of_OR byte_of_AND byte_of_beyond byte_of_drop byte_of_push byte_of_from_le

lemma and_FF [simp]: "(b :: byte) AND 0xFF = b"
  by (rule bit_word_eqI) (simp only: bit_and_iff bit_byte_FF, auto)

lemma le32_bswap_c: "le32 (sph_bswap32_c x) = rev (le32 x)"
  by (simp add: le32_def sph_bswap32_c_def Let_def mask_bytes byte_simps del: from_le.simps
    flip: numeral_2_eq_2 numeral_3_eq_3)

lemma le64_bswap_c: "le64 (sph_bswap64_c x) = rev (le64 x)"
  by (simp add: le64_def sph_bswap64_c_def Let_def mask_bytes byte_simps del: from_le.simps
    flip: numeral_2_eq_2 numeral_3_eq_3)

lemma le32_bswap [simp]: "le32 (sph_bswap32 b x) = rev (le32 x)"
  by (simp add: sph_bswap32_def bswapl_def le32_from le32_bswap_c)

lemma le64_halves: "le64 (push_bit 32 (ucast h) OR ucast l) = le32 l @ le32 h"
proof -
  have u: "byte_of k (ucast (w :: word32) :: word64) = (if k < 4 then byte_of k w else 0)" for k w
    by (rule bit_word_eqI) (auto simp: bit_byte_of bit_simps dest: bit_imp_le_length)
  show ?thesis
    by (simp add: le64_def le32_def byte_simps u flip: numeral_2_eq_2 numeral_3_eq_3)
qed

lemma le64_split: "le64 x = le32 (ucast x) @ le32 (ucast (drop_bit 32 x))"
proof -
  have "push_bit 32 (ucast (ucast (drop_bit 32 x) :: word32)) OR ucast (ucast x :: word32) = x"
    by (rule bit_word_eqI) (auto simp: bit_simps dest: bit_imp_le_length)
  with le64_halves [of "ucast (drop_bit 32 x)" "ucast x"] show ?thesis by simp
qed

lemma le64_bswap [simp]: "le64 (sph_bswap64 b x) = rev (le64 x)"
  by (simp add: sph_bswap64_def bswapq_def le64_from le64_bswap_c le64_halves le64_split [of x])

section \<open>Encoding and decoding\<close>

text \<open>16 bits of an \<open>unsigned\<close>.\<close>

definition sph_enc16be :: "word32 \<Rightarrow> byte list" where
  "sph_enc16be v = [ucast (drop_bit 8 v), ucast v]"

definition sph_dec16be :: "byte list \<Rightarrow> word32" where
  "sph_dec16be src = push_bit 8 (ucast (src ! 0)) OR ucast (src ! 1)"

definition sph_enc16le :: "word32 \<Rightarrow> byte list" where
  "sph_enc16le v = [ucast v, ucast (drop_bit 8 v)]"

definition sph_dec16le :: "byte list \<Rightarrow> word32" where
  "sph_dec16le src = ucast (src ! 0) OR push_bit 8 (ucast (src ! 1))"

text \<open>The variants with single bytes.\<close>

definition bytes_be32 :: "word32 \<Rightarrow> byte list" where
  "bytes_be32 v = [ucast (drop_bit 24 v), ucast (drop_bit 16 v), ucast (drop_bit 8 v), ucast v]"

definition join_be32 :: "byte list \<Rightarrow> word32" where
  "join_be32 s = push_bit 24 (ucast (s ! 0)) OR push_bit 16 (ucast (s ! 1)) OR push_bit 8 (ucast (s ! 2)) OR ucast (s ! 3)"

definition bytes_be64 :: "word64 \<Rightarrow> byte list" where
  "bytes_be64 v = [ucast (drop_bit 56 v), ucast (drop_bit 48 v), ucast (drop_bit 40 v), ucast (drop_bit 32 v),
     ucast (drop_bit 24 v), ucast (drop_bit 16 v), ucast (drop_bit 8 v), ucast v]"

definition join_be64 :: "byte list \<Rightarrow> word64" where
  "join_be64 s = push_bit 56 (ucast (s ! 0)) OR push_bit 48 (ucast (s ! 1)) OR push_bit 40 (ucast (s ! 2))
     OR push_bit 32 (ucast (s ! 3)) OR push_bit 24 (ucast (s ! 4)) OR push_bit 16 (ucast (s ! 5))
     OR push_bit 8 (ucast (s ! 6)) OR ucast (s ! 7)"

definition join_le64 :: "byte list \<Rightarrow> word64" where
  "join_le64 s = ucast (s ! 0) OR push_bit 8 (ucast (s ! 1)) OR push_bit 16 (ucast (s ! 2))
     OR push_bit 24 (ucast (s ! 3)) OR push_bit 32 (ucast (s ! 4)) OR push_bit 40 (ucast (s ! 5))
     OR push_bit 48 (ucast (s ! 6)) OR push_bit 56 (ucast (s ! 7))"

text \<open>A machine is its order, what the header found out, and the address \<open>a\<close> of the bytes; instructions
  in assembler are not switched off by \<open>SPH_NO_ASM\<close>. The variants of \<open>Md5\<close> with single bytes are \<open>sph_enc32le\<close>, \<open>sph_dec32le\<close> and \<open>sph_enc64le\<close>.\<close>

definition enc32be :: "byte_order \<Rightarrow> sph_build \<Rightarrow> nat \<Rightarrow> word32 \<Rightarrow> byte list" where
  "enc32be ord b a v =
     (let val = (if LITTLE_ENDIAN b then sph_bswap32 b v else v) in
      if UPTR b then (if UNALIGNED b then store32 ord val
                      else if a mod 4 = 0 then store32 ord val else bytes_be32 v)
      else bytes_be32 v)"

definition enc32be_aligned :: "byte_order \<Rightarrow> sph_build \<Rightarrow> word32 \<Rightarrow> byte list" where
  "enc32be_aligned ord b v =
     (if LITTLE_ENDIAN b then store32 ord (sph_bswap32 b v)
      else if BIG_ENDIAN b then store32 ord v else bytes_be32 v)"

definition dec32be :: "byte_order \<Rightarrow> sph_build \<Rightarrow> nat \<Rightarrow> byte list \<Rightarrow> word32" where
  "dec32be ord b a src =
     (let word = (if LITTLE_ENDIAN b then sph_bswap32 b (load32 ord src) else load32 ord src) in
      if UPTR b then (if UNALIGNED b then word else if a mod 4 = 0 then word else join_be32 src)
      else join_be32 src)"

definition dec32be_aligned :: "byte_order \<Rightarrow> sph_build \<Rightarrow> byte list \<Rightarrow> word32" where
  "dec32be_aligned ord b src =
     (if LITTLE_ENDIAN b then sph_bswap32 b (load32 ord src)
      else if BIG_ENDIAN b then load32 ord src else join_be32 src)"

definition enc32le :: "byte_order \<Rightarrow> sph_build \<Rightarrow> nat \<Rightarrow> word32 \<Rightarrow> byte list" where
  "enc32le ord b a v =
     (let val = (if BIG_ENDIAN b then sph_bswap32 b v else v) in
      if UPTR b then (if UNALIGNED b then store32 ord val
                      else if a mod 4 = 0 then store32 ord val else sph_enc32le v)
      else sph_enc32le v)"

definition enc32le_aligned :: "byte_order \<Rightarrow> sph_build \<Rightarrow> word32 \<Rightarrow> byte list" where
  "enc32le_aligned ord b v =
     (if LITTLE_ENDIAN b then store32 ord v
      else if BIG_ENDIAN b then store32 ord (sph_bswap32 b v) else sph_enc32le v)"

text \<open>On UltraSPARC the address space \<open>0x88\<close> reads a word in the little order.\<close>

definition dec32le :: "byte_order \<Rightarrow> sph_build \<Rightarrow> nat \<Rightarrow> byte list \<Rightarrow> word32" where
  "dec32le ord b a src =
     (if UPTR b then
        (if UNALIGNED b then (if BIG_ENDIAN b then sph_bswap32 b (load32 ord src) else load32 ord src)
         else if a mod 4 = 0 then
           (if BIG_ENDIAN b then
              (if SPARCV9_GCC b then load32 Little_Order src else sph_bswap32 b (load32 ord src))
            else load32 ord src)
         else sph_dec32le src)
      else sph_dec32le src)"

definition dec32le_aligned :: "byte_order \<Rightarrow> sph_build \<Rightarrow> byte list \<Rightarrow> word32" where
  "dec32le_aligned ord b src =
     (if LITTLE_ENDIAN b then load32 ord src
      else if BIG_ENDIAN b then
        (if SPARCV9_GCC b then load32 Little_Order src else sph_bswap32 b (load32 ord src))
      else sph_dec32le src)"

definition enc64be :: "byte_order \<Rightarrow> sph_build \<Rightarrow> nat \<Rightarrow> word64 \<Rightarrow> byte list" where
  "enc64be ord b a v =
     (let val = (if LITTLE_ENDIAN b then sph_bswap64 b v else v) in
      if UPTR b then (if UNALIGNED b then store64 ord val
                      else if a mod 8 = 0 then store64 ord val else bytes_be64 v)
      else bytes_be64 v)"

definition enc64be_aligned :: "byte_order \<Rightarrow> sph_build \<Rightarrow> word64 \<Rightarrow> byte list" where
  "enc64be_aligned ord b v =
     (if LITTLE_ENDIAN b then store64 ord (sph_bswap64 b v)
      else if BIG_ENDIAN b then store64 ord v else bytes_be64 v)"

definition dec64be :: "byte_order \<Rightarrow> sph_build \<Rightarrow> nat \<Rightarrow> byte list \<Rightarrow> word64" where
  "dec64be ord b a src =
     (let word = (if LITTLE_ENDIAN b then sph_bswap64 b (load64 ord src) else load64 ord src) in
      if UPTR b then (if UNALIGNED b then word else if a mod 8 = 0 then word else join_be64 src)
      else join_be64 src)"

definition dec64be_aligned :: "byte_order \<Rightarrow> sph_build \<Rightarrow> byte list \<Rightarrow> word64" where
  "dec64be_aligned ord b src =
     (if LITTLE_ENDIAN b then sph_bswap64 b (load64 ord src)
      else if BIG_ENDIAN b then load64 ord src else join_be64 src)"

definition enc64le :: "byte_order \<Rightarrow> sph_build \<Rightarrow> nat \<Rightarrow> word64 \<Rightarrow> byte list" where
  "enc64le ord b a v =
     (let val = (if BIG_ENDIAN b then sph_bswap64 b v else v) in
      if UPTR b then (if UNALIGNED b then store64 ord val
                      else if a mod 8 = 0 then store64 ord val else sph_enc64le v)
      else sph_enc64le v)"

definition enc64le_aligned :: "byte_order \<Rightarrow> sph_build \<Rightarrow> word64 \<Rightarrow> byte list" where
  "enc64le_aligned ord b v =
     (if LITTLE_ENDIAN b then store64 ord v
      else if BIG_ENDIAN b then store64 ord (sph_bswap64 b v) else sph_enc64le v)"

definition dec64le :: "byte_order \<Rightarrow> sph_build \<Rightarrow> nat \<Rightarrow> byte list \<Rightarrow> word64" where
  "dec64le ord b a src =
     (if UPTR b then
        (if UNALIGNED b then (if BIG_ENDIAN b then sph_bswap64 b (load64 ord src) else load64 ord src)
         else if a mod 8 = 0 then
           (if BIG_ENDIAN b then
              (if SPARCV9_GCC_64 b then load64 Little_Order src else sph_bswap64 b (load64 ord src))
            else load64 ord src)
         else join_le64 src)
      else join_le64 src)"

definition dec64le_aligned :: "byte_order \<Rightarrow> sph_build \<Rightarrow> byte list \<Rightarrow> word64" where
  "dec64le_aligned ord b src =
     (if LITTLE_ENDIAN b then load64 ord src
      else if BIG_ENDIAN b then
        (if SPARCV9_GCC_64 b then load64 Little_Order src else sph_bswap64 b (load64 ord src))
      else join_le64 src)"

section \<open>All machines agree\<close>

text \<open>The reference: the bytes in the order of the name, whatever the machine.\<close>

lemma bytes_eq:
  "bytes_be32 v = rev (le32 v)" "sph_enc32le v = le32 v" "bytes_be64 w = rev (le64 w)" "sph_enc64le w = le64 w"
  by (simp_all add: bytes_be32_def sph_enc32le_def bytes_be64_def sph_enc64le_def le32_def le64_def byte_of_def)

lemma take_8: "8 \<le> length s \<Longrightarrow> take 8 s = [s ! 0, s ! 1, s ! 2, s ! 3, s ! 4, s ! 5, s ! 6, s ! 7]"
  using list_of_8 [of "take 8 s"] by simp

lemma take_4: "4 \<le> length s \<Longrightarrow> take 4 s = [s ! 0, s ! 1, s ! 2, s ! 3]"
  using list_of_4 [of "take 4 s"] by simp

lemma join_eq:
  "4 \<le> length s \<Longrightarrow> join_be32 s = from_le (rev (take 4 s))"
  "4 \<le> length s \<Longrightarrow> sph_dec32le s = from_le (take 4 s)"
  "8 \<le> length s \<Longrightarrow> join_be64 s = from_le (rev (take 8 s))"
  "8 \<le> length s \<Longrightarrow> join_le64 s = from_le (take 8 s)"
  by (simp_all add: take_4 take_8 join_be32_def sph_dec32le_def join_be64_def join_le64_def push_bit_or ac_simps)

lemma bswap_from_le:
  "length bs = 4 \<Longrightarrow> sph_bswap32 b (from_le bs) = from_le (rev bs)"
  "length bs = 8 \<Longrightarrow> sph_bswap64 b (from_le bs) = from_le (rev bs)"
  by (rule iffD1 [OF le_inject(1)], simp add: le32_from) (rule iffD1 [OF le_inject(2)], simp add: le64_from)

lemmas machine_simps = describes_def store32_def store64_def load32_def load64_def in_order_def bytes_eq join_eq
  bswap_from_le SPARCV9_GCC_def Let_def

lemma encoders_eq:
  assumes "describes b ord"
  shows "enc32be ord b a v = rev (le32 v)" "enc32be_aligned ord b v = rev (le32 v)"
    "enc32le ord b a v = le32 v" "enc32le_aligned ord b v = le32 v"
    "enc64be ord b a w = rev (le64 w)" "enc64be_aligned ord b w = rev (le64 w)"
    "enc64le ord b a w = le64 w" "enc64le_aligned ord b w = le64 w"
  using assms
  by (auto simp: machine_simps enc32be_def enc32be_aligned_def enc32le_def enc32le_aligned_def
      enc64be_def enc64be_aligned_def enc64le_def enc64le_aligned_def split: byte_order.splits)

lemma decoders32_eq:
  assumes "describes b ord" and "4 \<le> length s"
  shows "dec32be ord b a s = from_le (rev (take 4 s))" "dec32be_aligned ord b s = from_le (rev (take 4 s))"
    "dec32le ord b a s = from_le (take 4 s)" "dec32le_aligned ord b s = from_le (take 4 s)"
  using assms
  by (auto simp: machine_simps dec32be_def dec32be_aligned_def dec32le_def dec32le_aligned_def
      split: byte_order.splits)

lemma decoders64_eq:
  assumes "describes b ord" and "8 \<le> length s"
  shows "dec64be ord b a s = from_le (rev (take 8 s))" "dec64be_aligned ord b s = from_le (rev (take 8 s))"
    "dec64le ord b a s = from_le (take 8 s)" "dec64le_aligned ord b s = from_le (take 8 s)"
  using assms
  by (auto simp: machine_simps dec64be_def dec64be_aligned_def dec64le_def dec64le_aligned_def
      split: byte_order.splits)

section \<open>What a format promises\<close>

text \<open>Words and their encodings of a fixed width: each is read back, in front of anything, and each
  text of the width is the encoding of what it is read as.\<close>

locale word_codec =
  fixes enc :: "'v \<Rightarrow> byte list"
    and dec :: "byte list \<Rightarrow> 'v"
    and width :: nat
  assumes enc_width: "length (enc v) = width"
    and dec_enc: "dec (enc v @ rest) = v"
    and enc_dec: "length bs = width \<Longrightarrow> enc (dec bs) = bs"
begin

text \<open>A text of words: the reader finds each at its multiple of the width.\<close>

lemma enc_all_length: "length (concat (map enc vs)) = width * length vs"
  by (induction vs) (simp_all add: enc_width)

lemma drop_words:
  "k \<le> length vs \<Longrightarrow> drop (width * k) (concat (map enc vs)) = concat (map enc (drop k vs))"
proof (induction k arbitrary: vs)
  case (Suc k)
  then obtain v vs' where "vs = v # vs'" by (cases vs) auto
  with Suc show ?case by (simp add: enc_width)
qed simp

lemma read_word:
  assumes "k < length vs"
  shows "dec (drop (width * k) (concat (map enc vs) @ rest)) = vs ! k"
proof -
  have "drop k vs = vs ! k # drop (Suc k) vs" using assms by (rule Cons_nth_drop_Suc [symmetric])
  moreover have "width * k \<le> width * length vs" using assms by simp
  ultimately show ?thesis using assms by (simp add: drop_words enc_all_length dec_enc)
qed

lemma enc_inject: "enc v = enc w \<longleftrightarrow> v = w"
  by (metis dec_enc append_Nil2)

end

interpretation be32_codec: word_codec bytes_be32 join_be32 4
  by unfold_locales (simp_all add: bytes_eq join_eq rev_swap le32_from)

interpretation le32_codec: word_codec sph_enc32le sph_dec32le 4
  by unfold_locales (simp_all add: bytes_eq join_eq le32_from)

interpretation be64_codec: word_codec bytes_be64 join_be64 8
  by unfold_locales (simp_all add: bytes_eq join_eq rev_swap le64_from)

interpretation le64_codec: word_codec sph_enc64le join_le64 8
  by unfold_locales (simp_all add: bytes_eq join_eq le64_from)

text \<open>The 16-bit functions take and give an \<open>unsigned\<close> whose upper half is zero.\<close>

lemma half_words:
  "push_bit 8 (ucast (ucast (drop_bit 8 (ucast v :: word32)) :: byte)) OR ucast (ucast (ucast v :: word32) :: byte)
     = (ucast (v :: word16) :: word32)"
  by (rule bit_word_eqI) (auto simp: bit_simps dest: bit_imp_le_length)

lemma half_bytes:
  fixes h l :: byte
  defines "v \<equiv> push_bit 8 (ucast h) OR ucast l :: word32"
  shows "ucast (drop_bit 8 (ucast (ucast v :: word16) :: word32)) = h" "ucast (ucast (ucast v :: word16) :: word32) = l"
  by (rule bit_word_eqI, auto simp: v_def bit_simps dest: bit_imp_le_length)+

lemma up_down: "ucast (ucast (v :: word16) :: word32) = v"
  by (rule bit_word_eqI) (auto simp: bit_simps dest: bit_imp_le_length)

lemma list_of_2: "length bs = 2 \<Longrightarrow> bs = [bs ! 0, bs ! 1]"
  by (rule nth_equalityI) (auto simp: less_Suc_eq numeral_eq_Suc)

interpretation be16_codec: word_codec "\<lambda>v :: word16. sph_enc16be (ucast v)" "\<lambda>s. ucast (sph_dec16be s)" 2
proof
  show "sph_enc16be (ucast (ucast (sph_dec16be bs) :: word16)) = bs" if "length bs = 2" for bs
    by (subst (2) list_of_2 [OF that]) (simp add: sph_enc16be_def sph_dec16be_def half_bytes)
qed (simp_all add: sph_enc16be_def sph_dec16be_def half_words up_down)

interpretation le16_codec: word_codec "\<lambda>v :: word16. sph_enc16le (ucast v)" "\<lambda>s. ucast (sph_dec16le s)" 2
proof
  show "sph_enc16le (ucast (ucast (sph_dec16le bs) :: word16)) = bs" if "length bs = 2" for bs
    by (subst (2) list_of_2 [OF that]) (simp add: sph_enc16le_def sph_dec16le_def half_bytes or.commute [of "ucast (bs ! 0)"])
qed (simp_all add: sph_enc16le_def sph_dec16le_def half_words up_down or.commute [of "ucast (ucast _ :: byte)"])

section \<open>Results\<close>

text \<open>C10: the header's choice of a variant for the machine makes no difference: whatever macros a
  compiler defines, as long as they are true, every encoder stores and every decoder reads the
  bytes that the variants with single bytes do, at any address.\<close>

theorem machines_agree:
  assumes "sph_configure ms = Some b" and "truthful ms ord" and "8 \<le> length s"
  shows "enc32be ord b a v = bytes_be32 v \<and> enc32be_aligned ord b v = bytes_be32 v
    \<and> enc32le ord b a v = sph_enc32le v \<and> enc32le_aligned ord b v = sph_enc32le v
    \<and> enc64be ord b a w = bytes_be64 w \<and> enc64be_aligned ord b w = bytes_be64 w
    \<and> enc64le ord b a w = sph_enc64le w \<and> enc64le_aligned ord b w = sph_enc64le w
    \<and> dec32be ord b a s = join_be32 s \<and> dec32be_aligned ord b s = join_be32 s
    \<and> dec32le ord b a s = sph_dec32le s \<and> dec32le_aligned ord b s = sph_dec32le s
    \<and> dec64be ord b a s = join_be64 s \<and> dec64be_aligned ord b s = join_be64 s
    \<and> dec64le ord b a s = join_le64 s \<and> dec64le_aligned ord b s = join_le64 s"
proof -
  have d: "describes b ord" by (rule sph_configure_describes [OF assms(1,2)])
  from assms(3) have "4 \<le> length s" by simp
  with assms(3) show ?thesis
    by (simp add: encoders_eq [OF d] decoders32_eq [OF d] decoders64_eq [OF d] bytes_eq join_eq)
qed

theorem machines_agree_witness:
  "\<exists>b. sph_configure [''__powerpc__'', ''_BIG_ENDIAN'', ''__GNUC__''] = Some b
     \<and> dec64be_aligned Big_Order b [1, 2, 3, 4, 5, 6, 7, 8] = join_be64 [1, 2, 3, 4, 5, 6, 7, 8]"
proof -
  let ?ms = "[''__powerpc__'', ''_BIG_ENDIAN'', ''__GNUC__'']"
  obtain b where b: "sph_configure ?ms = Some b" using sph_configure_defined by blast
  have "truthful ?ms Big_Order" by code_simp
  from machines_agree [OF b this, of "[1, 2, 3, 4, 5, 6, 7, 8]"] b show ?thesis by simp
qed

text \<open>Words that one machine stores, another one reads, in both byte orders and each at its
  own multiple of the width.\<close>

theorem words_between_machines:
  assumes "describes b ord" and "describes b' ord'" and "k < length vs" and "m < length ws"
  shows "dec32le ord' b' a' (drop (4 * k) (concat (map (enc32le ord b a) vs) @ rest)) = vs ! k
    \<and> dec32be ord' b' a' (drop (4 * k) (concat (map (enc32be ord b a) vs) @ rest)) = vs ! k
    \<and> dec64le ord' b' a' (drop (8 * m) (concat (map (enc64le ord b a) ws) @ rest)) = ws ! m
    \<and> dec64be ord' b' a' (drop (8 * m) (concat (map (enc64be ord b a) ws) @ rest)) = ws ! m"
proof -
  have l: "4 \<le> length (drop (4 * k) (concat (map sph_enc32le vs) @ rest))"
    "4 \<le> length (drop (4 * k) (concat (map bytes_be32 vs) @ rest))"
    "8 \<le> length (drop (8 * m) (concat (map sph_enc64le ws) @ rest))"
    "8 \<le> length (drop (8 * m) (concat (map bytes_be64 ws) @ rest))"
    using assms(3,4) by (simp_all add: le32_codec.enc_all_length be32_codec.enc_all_length
        le64_codec.enc_all_length be64_codec.enc_all_length)
  have e: "enc32le ord b a = sph_enc32le" "enc32be ord b a = bytes_be32"
    "enc64le ord b a = sph_enc64le" "enc64be ord b a = bytes_be64"
    by (intro ext, simp add: encoders_eq [OF assms(1)] bytes_eq)+
  show ?thesis
    unfolding e
    using le32_codec.read_word [OF assms(3), of rest] be32_codec.read_word [OF assms(3), of rest]
      le64_codec.read_word [OF assms(4), of rest] be64_codec.read_word [OF assms(4), of rest] l
    by (simp only: decoders32_eq [OF assms(2)] decoders64_eq [OF assms(2)] join_eq)
qed

theorem words_between_machines_witness:
  "dec32le Little_Order (sph_detect [''__x86_64'']) 3
     (drop (4 * 1) (concat (map (enc32le Big_Order (sph_detect [''__sparc'']) 2) [7, 8]) @ [])) = [7, 8] ! 1"
  using words_between_machines [of "sph_detect [''__sparc'']" Big_Order "sph_detect [''__x86_64'']" Little_Order
      1 "[7, 8]" 0 "[9]" 3 2 "[]"]
  by (simp add: describes_def sph_detect_def no_build_def SPARCV9_GCC_def any_of_def is_i386_def is_amd64_def
      is_sparc_def)

text \<open>The round of MD5 reads its words through a decoder of the machine, again for each use or once
  into an array.\<close>

definition md5_round_on :: "byte_order \<Rightarrow> sph_build \<Rightarrow> byte list \<Rightarrow> md5_state \<Rightarrow> md5_state" where
  "md5_round_on ord b data r =
     (if LITTLE_FAST b then MD5_ROUND_BODY (\<lambda>idx. dec32le_aligned ord b (drop (4 * idx) data)) r
      else (let X_var = map (\<lambda>i. dec32le_aligned ord b (drop (4 * i) data)) [0..<16] in
            MD5_ROUND_BODY (\<lambda>idx. X_var ! idx) r))"

lemma md5_round_on_machine:
  assumes "describes b ord" and "length data = 64"
  shows "md5_round_on ord b data r = md5_round data r"
proof -
  have "MD5_ROUND_BODY X r = md5_round data r"
    if "\<And>i. i < 16 \<Longrightarrow> X i = dec32le_aligned ord b (drop (4 * i) data)" for X
    unfolding md5_round_def round_body_rfc
    by (rule compress_words) (simp add: that decoders32_eq [OF assms(1)] join_eq assms(2))
  then show ?thesis by (simp add: md5_round_on_def Let_def)
qed

end
