(* ===== verification/Doubles.thy ===== *)
theory Doubles
  imports Complex_Main Numbers
begin

text \<open>
  The type \<open>double\<close> as the program uses it for sizes and times: rational numbers, with the rounding
  of IEEE 754 to 53 significant bits after each operation, ties to even, and \<open>printf\<close> with a fixed
  number of decimals. The numbers of the program are zero or between \<open>2 ^ -128\<close> and \<open>2 ^ 128\<close>, so
  neither end of the exponents is met. Main results: the relative error of a rounding, the numbers it
  keeps, and the length of a printed number.
\<close>

section \<open>Rounding\<close>

text \<open>To the nearest integer; a tie goes to the even one.\<close>

definition round_even :: "rat \<Rightarrow> int" where
  "round_even x =
     (let f = \<lfloor>x\<rfloor>; d = x - of_int f in
      if d < 1 / 2 then f else if d > 1 / 2 then f + 1 else if even f then f else f + 1)"

fun bits :: "nat \<Rightarrow> nat" where
  "bits n = (if n = 0 then 0 else Suc (bits (n div 2)))"

text \<open>The exponent of a positive number.\<close>

definition exponent :: "rat \<Rightarrow> int" where
  "exponent x =
     (case quotient_of x of (n, d) \<Rightarrow>
        let k = int (bits (nat n)) - int (bits (nat d)) in
        if 2 powi k \<le> x then k else k - 1)"

definition ulp :: "rat \<Rightarrow> rat" where
  "ulp x = 2 powi (exponent x - 52)"

definition to_double :: "rat \<Rightarrow> rat" where
  "to_double x =
     (if x = 0 then 0
      else if x < 0 then - (of_int (round_even (- x / ulp (- x))) * ulp (- x))
      else of_int (round_even (x / ulp x)) * ulp x)"

declare bits.simps [simp del]

lemma round_even_error: "\<bar>of_int (round_even x) - x\<bar> \<le> 1 / 2"
proof -
  have "of_int \<lfloor>x\<rfloor> \<le> x" "x < of_int \<lfloor>x\<rfloor> + 1" by linarith+
  then show ?thesis by (auto simp: round_even_def Let_def)
qed

lemma round_even_mono_int: "of_int k \<le> x \<Longrightarrow> k \<le> round_even x" "x \<le> of_int k \<Longrightarrow> round_even x \<le> k"
proof -
  show "k \<le> round_even x" if "of_int k \<le> x"
  proof -
    from that have "k \<le> \<lfloor>x\<rfloor>" by (simp add: le_floor_iff)
    then show ?thesis by (auto simp: round_even_def Let_def)
  qed
  show "round_even x \<le> k" if "x \<le> of_int k"
  proof (cases "x = of_int k")
    case False
    with that have "\<lfloor>x\<rfloor> < k" by (simp add: floor_less_iff)
    then show ?thesis by (auto simp: round_even_def Let_def)
  qed (simp add: round_even_def)
qed

lemma round_even_int [simp]: "round_even (of_int k) = k"
  by (simp add: round_even_def)

lemma bits_bounds: "0 < n \<Longrightarrow> 2 ^ (bits n - 1) \<le> n \<and> n < 2 ^ bits n \<and> 0 < bits n"
proof (induction n rule: bits.induct)
  case (1 n)
  show ?case
  proof (cases "n = 1")
    case False
    with 1 have "0 < n div 2" by linarith
    with 1 have ih: "2 ^ (bits (n div 2) - 1) \<le> n div 2" "n div 2 < 2 ^ bits (n div 2)" "0 < bits (n div 2)" by auto
    then obtain b where "bits (n div 2) = Suc b" by (cases "bits (n div 2)") auto
    with ih 1(2) show ?thesis by (subst (1 2 3) bits.simps) (simp, linarith)
  qed (simp add: bits.simps)
qed

lemma exponent_bounds:
  assumes "0 < x"
  shows "2 powi exponent x \<le> x" "x < 2 powi (exponent x + 1)"
proof -
  obtain n d where q: "quotient_of x = (n, d)" by fastforce
  have d: "0 < d" using q by (rule quotient_of_denom_pos)
  have x: "x = of_int n / of_int d" using q by (rule quotient_of_div)
  have n: "0 < n" using assms d by (simp add: x zero_less_divide_iff)
  let ?a = "bits (nat n)" and ?b = "bits (nat d)"
  have bn: "2 ^ (?a - 1) \<le> nat n" "nat n < 2 ^ ?a" "0 < ?a"
    and bd: "2 ^ (?b - 1) \<le> nat d" "nat d < 2 ^ ?b" "0 < ?b"
    using bits_bounds [of "nat n"] bits_bounds [of "nat d"] n d by auto
  have rn: "2 ^ (?a - 1) \<le> (of_int n :: rat)" "(of_int n :: rat) < 2 ^ ?a"
    using bn n by (metis of_nat_le_iff of_nat_numeral of_nat_power of_nat_nat less_imp_le of_int_of_nat_eq,
        metis of_nat_less_iff of_nat_numeral of_nat_power of_nat_nat less_imp_le of_int_of_nat_eq)
  have rd: "2 ^ (?b - 1) \<le> (of_int d :: rat)" "(of_int d :: rat) < 2 ^ ?b"
    using bd d by (metis of_nat_le_iff of_nat_numeral of_nat_power of_nat_nat less_imp_le of_int_of_nat_eq,
        metis of_nat_less_iff of_nat_numeral of_nat_power of_nat_nat less_imp_le of_int_of_nat_eq)
  let ?k = "int ?a - int ?b"
  have up: "x < 2 powi (?k + 1)"
  proof -
    have n0: "0 \<le> (of_int n :: rat)" using n by simp
    have "x < 2 ^ ?a / 2 ^ (?b - 1)"
      unfolding x by (rule frac_less [OF n0 rn(2) _ rd(1)]) simp
    also have "\<dots> = 2 powi (?k + 1)"
      using bd(3) by (simp add: power_int_diff power_int_add power_diff)
    finally show ?thesis .
  qed
  have low: "2 powi (?k - 1) \<le> x"
  proof -
    have "2 powi (?k - 1) = 2 ^ (?a - 1) / (2 ^ ?b :: rat)"
      using bn(3) by (simp add: power_int_diff power_diff)
    also have "\<dots> \<le> x" unfolding x using rn rd d less_imp_le [OF n] by (intro frac_le) auto
    finally show ?thesis .
  qed
  show "2 powi exponent x \<le> x" "x < 2 powi (exponent x + 1)"
    using up low by (auto simp: exponent_def q Let_def)
qed

lemma exponent_le: "0 < x \<Longrightarrow> x < 2 powi k \<Longrightarrow> exponent x < k"
proof (rule ccontr)
  assume x: "0 < x" "x < 2 powi k" "\<not> exponent x < k"
  then have "(2::rat) powi k \<le> 2 powi exponent x" by (intro power_int_increasing) auto
  with x exponent_bounds(1) [of x] show False by linarith
qed

lemma exponent_ge: "2 powi k \<le> x \<Longrightarrow> k \<le> exponent x"
proof (rule ccontr)
  assume x: "2 powi k \<le> x" "\<not> k \<le> exponent x"
  have "0 < (2::rat) powi k" by simp
  with x have pos: "0 < x" by linarith
  have "(2::rat) powi (exponent x + 1) \<le> 2 powi k" using x(2) by (intro power_int_increasing) auto
  with x exponent_bounds(2) [OF pos] show False by linarith
qed

lemma ulp_pos [simp]: "0 < ulp x"
  by (simp add: ulp_def)

lemma ulp_nonzero [simp]: "ulp x \<noteq> 0"
  using ulp_pos [of x] by linarith

lemma ulp_scale: "2 ^ 52 * ulp x = 2 powi exponent x" "2 ^ 53 * ulp x = 2 powi (exponent x + 1)"
  by (simp_all add: ulp_def power_int_diff power_int_add)

lemma to_double_0 [simp]: "to_double 0 = 0"
  by (simp add: to_double_def)

lemma to_double_pos: "0 < x \<Longrightarrow> to_double x = of_int (round_even (x / ulp x)) * ulp x"
  by (simp add: to_double_def)

lemma to_double_minus: "to_double (- x) = - to_double x"
  by (simp add: to_double_def)

lemma to_double_error:
  assumes "0 \<le> x"
  shows "\<bar>to_double x - x\<bar> \<le> x / 2 ^ 53"
proof (cases "x = 0")
  case False
  with assms have x: "0 < x" by simp
  have "to_double x - x = (of_int (round_even (x / ulp x)) - x / ulp x) * ulp x"
    using ulp_pos [of x] by (simp add: to_double_pos [OF x] left_diff_distrib)
  then have "\<bar>to_double x - x\<bar> = \<bar>of_int (round_even (x / ulp x)) - x / ulp x\<bar> * ulp x"
    using ulp_pos [of x] by (simp only: abs_mult abs_of_pos)
  also have "\<dots> \<le> 1 / 2 * ulp x"
    by (intro mult_right_mono round_even_error) (simp add: less_imp_le)
  also have "\<dots> \<le> x / 2 ^ 53"
    using exponent_bounds(1) [OF x] ulp_scale(1) [of x] by simp
  finally show ?thesis .
qed simp

lemma to_double_nonneg: "0 \<le> x \<Longrightarrow> 0 \<le> to_double x"
  using round_even_mono_int(1) [of 0 "x / ulp x"]
  by (cases "x = 0") (auto simp: to_double_pos less_imp_le intro!: mult_nonneg_nonneg)

lemma to_double_upper:
  assumes "0 \<le> x" and "x \<le> 2 powi k"
  shows "to_double x \<le> 2 powi k"
proof (cases "x = 0")
  case False
  with assms have x: "0 < x" by simp
  show ?thesis
  proof (cases "x = 2 powi k")
    case True
    have "exponent x = k"
      using exponent_ge [of k x] exponent_le [of x "k + 1"] x True by (simp add: power_int_add)
    then have "x / ulp x = of_int (2 ^ 52)" using True by (simp add: ulp_def power_int_diff)
    then have "to_double x = 2 ^ 52 * ulp x" by (simp only: to_double_pos [OF x] round_even_int) simp
    then show ?thesis using ulp_scale(1) [of x] \<open>exponent x = k\<close> by simp
  next
    case False
    with assms have "exponent x < k" by (intro exponent_le [OF x]) simp
    then have k: "(2::rat) powi (exponent x + 1) \<le> 2 powi k" by (intro power_int_increasing) auto
    have "x / ulp x \<le> of_int (2 ^ 53)"
      using exponent_bounds(2) [OF x] ulp_scale(2) [of x] by (simp add: pos_divide_le_eq)
    then have "of_int (round_even (x / ulp x)) \<le> (2 ^ 53 :: rat)"
      by (metis round_even_mono_int(2) of_int_le_iff of_int_numeral of_int_power)
    then have "to_double x \<le> 2 ^ 53 * ulp x"
      unfolding to_double_pos [OF x] by (intro mult_right_mono) (simp_all add: less_imp_le)
    with k ulp_scale(2) [of x] show ?thesis by linarith
  qed
qed (simp add: less_imp_le)

lemma to_double_lower:
  assumes "2 powi k \<le> x"
  shows "2 powi k \<le> to_double x"
proof -
  have "0 < (2::rat) powi k" by simp
  with assms have x: "0 < x" by linarith
  have k: "(2::rat) powi k \<le> 2 powi exponent x" using exponent_ge [OF assms] by (intro power_int_increasing) auto
  have "of_int (2 ^ 52) \<le> x / ulp x"
    using exponent_bounds(1) [OF x] ulp_scale(1) [of x] by (simp add: pos_le_divide_eq)
  then have "(2 ^ 52 :: rat) \<le> of_int (round_even (x / ulp x))"
    by (metis round_even_mono_int(1) of_int_le_iff of_int_numeral of_int_power)
  then have "2 ^ 52 * ulp x \<le> to_double x"
    unfolding to_double_pos [OF x] by (intro mult_right_mono) (simp_all add: less_imp_le)
  with k ulp_scale(1) [of x] show ?thesis by linarith
qed

text \<open>A number of at most 53 significant bits is kept.\<close>

lemma to_double_exact:
  assumes "0 \<le> m" and "m < 2 ^ 53"
  shows "to_double (of_int m * 2 powi j) = of_int m * 2 powi j"
proof (cases "m = 0")
  case False
  let ?x = "of_int m * 2 powi j :: rat"
  from False assms(1) have x: "0 < ?x" by simp
  have m: "of_int m < (2 ^ 53 :: rat)" using assms(2) by (metis of_int_less_iff of_int_numeral of_int_power)
  have "?x < 2 ^ 53 * 2 powi j" by (intro mult_strict_right_mono m) simp
  also have "\<dots> = 2 powi (53 + j)" by (simp add: power_int_add)
  finally have "exponent ?x < 53 + j" by (rule exponent_le [OF x])
  then have i: "j = exponent ?x - 52 + int (nat (j - (exponent ?x - 52)))" by simp
  obtain i where i: "j = exponent ?x - 52 + int i" by (rule that [OF i])
  have "?x / ulp ?x = of_int m * (2 powi j / ulp ?x)" by simp
  also have "2 powi j / ulp ?x = 2 ^ i" by (subst i) (simp add: ulp_def power_int_add)
  finally have "?x / ulp ?x = of_int (m * 2 ^ i)" by simp
  then have "to_double ?x = ?x / ulp ?x * ulp ?x" by (simp only: to_double_pos [OF x] round_even_int)
  also have "\<dots> = ?x" using ulp_pos [of ?x] by simp
  finally show ?thesis .
qed simp

lemma to_double_nat: "n < 2 ^ 53 \<Longrightarrow> to_double (of_nat n) = of_nat n"
  using to_double_exact [of "int n" 0] by simp

text \<open>A rounded number is kept.\<close>

lemma to_double_idem:
  assumes "0 \<le> x"
  shows "to_double (to_double x) = to_double x"
proof (cases "x = 0")
  case False
  with assms have x: "0 < x" by simp
  let ?m = "round_even (x / ulp x)"
  have m: "to_double x = of_int ?m * 2 powi (exponent x - 52)" using x by (simp add: to_double_pos ulp_def)
  have "x / ulp x \<le> of_int (2 ^ 53)"
    using exponent_bounds(2) [OF x] ulp_scale(2) [of x] by (simp add: pos_divide_le_eq)
  then have le: "?m \<le> 2 ^ 53" by (rule round_even_mono_int(2))
  have ge: "0 \<le> ?m" using x by (intro round_even_mono_int(1)) (simp add: less_imp_le)
  show ?thesis
  proof (cases "?m = 2 ^ 53")
    case True
    then have "to_double x = of_int 1 * 2 powi (exponent x + 1)"
      unfolding m by (simp add: power_int_diff power_int_add)
    then show ?thesis using to_double_exact [of 1 "exponent x + 1"] by simp
  next
    case False
    with le ge show ?thesis unfolding m by (intro to_double_exact) auto
  qed
qed simp

text \<open>Where a number near an integer or between two halves is rounded to.\<close>

lemma round_even_below: "of_int q \<le> x \<Longrightarrow> x < of_int q + 1 / 2 \<Longrightarrow> round_even x = q"
proof -
  assume x: "of_int q \<le> x" "x < of_int q + 1 / 2"
  then have "\<lfloor>x\<rfloor> = q" by linarith
  with x show ?thesis by (simp add: round_even_def)
qed

lemma round_even_above: "of_int q + 1 / 2 < x \<Longrightarrow> x < of_int q + 1 \<Longrightarrow> round_even x = q + 1"
proof -
  assume x: "of_int q + 1 / 2 < x" "x < of_int q + 1"
  then have "\<lfloor>x\<rfloor> = q" by linarith
  with x show ?thesis by (simp add: round_even_def)
qed

lemma round_even_tie: "round_even (of_int q + 1 / 2) = (if even q then q else q + 1)"
proof -
  have "\<lfloor>of_int q + 1 / 2 :: rat\<rfloor> = q" by linarith
  then show ?thesis by (simp add: round_even_def)
qed

text \<open>Rounding keeps the order: within one exponent the quotients keep it, and between two a power of
  two lies between the results.\<close>

lemma round_even_mono: "x \<le> y \<Longrightarrow> round_even x \<le> round_even y"
proof (cases "\<lfloor>x\<rfloor> = \<lfloor>y\<rfloor>")
  case True
  then show "x \<le> y \<Longrightarrow> round_even x \<le> round_even y" by (auto simp: round_even_def Let_def)
next
  case False
  assume "x \<le> y"
  with False have "\<lfloor>x\<rfloor> + 1 \<le> \<lfloor>y\<rfloor>" by linarith
  moreover have "round_even x \<le> \<lfloor>x\<rfloor> + 1" "\<lfloor>y\<rfloor> \<le> round_even y" by (auto simp: round_even_def Let_def)
  ultimately show "round_even x \<le> round_even y" by linarith
qed

lemma to_double_mono:
  assumes "0 \<le> x" and "x \<le> y"
  shows "to_double x \<le> to_double y"
proof (cases "x = 0")
  case True
  then show ?thesis using assms by (simp add: to_double_nonneg)
next
  case False
  then have x: "0 < x" and y: "0 < y" using assms by auto
  have "exponent x < exponent y + 1"
    using exponent_bounds(2) [OF y] assms(2) by (intro exponent_le [OF x]) linarith
  then consider "exponent x = exponent y" | "exponent x + 1 \<le> exponent y" by linarith
  then show ?thesis
  proof cases
    case 1
    then have u: "ulp x = ulp y" by (simp add: ulp_def)
    have "x / ulp y \<le> y / ulp y" using assms(2) ulp_pos [of y] by (intro divide_right_mono) (simp_all add: less_imp_le)
    then have "round_even (x / ulp y) \<le> round_even (y / ulp y)" by (rule round_even_mono)
    then show ?thesis
      unfolding to_double_pos [OF x] to_double_pos [OF y] u by (intro mult_right_mono) (simp_all add: less_imp_le)
  next
    case 2
    have "to_double x \<le> 2 powi (exponent x + 1)"
      using x exponent_bounds(2) [OF x] by (intro to_double_upper) simp_all
    also have "\<dots> \<le> 2 powi exponent y" using 2 by (intro power_int_increasing) auto
    also have "\<dots> \<le> to_double y" by (intro to_double_lower exponent_bounds y)
    finally show ?thesis .
  qed
qed

section \<open>Arithmetic\<close>

definition fdiv :: "rat \<Rightarrow> rat \<Rightarrow> rat" where
  "fdiv x y = to_double (x / y)"

definition fmul :: "rat \<Rightarrow> rat \<Rightarrow> rat" where
  "fmul x y = to_double (x * y)"

definition fsub :: "rat \<Rightarrow> rat \<Rightarrow> rat" where
  "fsub x y = to_double (x - y)"

text \<open>The conversions to \<open>unsigned int\<close> and \<open>int\<close> cut the fraction; they are undefined when the
  result does not fit.\<close>

definition to_uint :: "rat \<Rightarrow> nat option" where
  "to_uint x = (if -1 < x \<and> x < 2 ^ 32 then Some (nat \<lfloor>x\<rfloor>) else None)"

definition to_int :: "rat \<Rightarrow> int option" where
  "to_int x = (if \<bar>x\<bar> < 2 ^ 31 then Some (if x < 0 then - \<lfloor>- x\<rfloor> else \<lfloor>x\<rfloor>) else None)"

section \<open>Printing\<close>

text \<open>\<open>%.nf\<close> prints the exact value, rounded to the decimals asked for.\<close>

definition fixed :: "nat \<Rightarrow> rat \<Rightarrow> string" where
  "fixed n x =
     (let v = nat (round_even (\<bar>x\<bar> * 10 ^ n));
          fraction = dec (v mod 10 ^ n) in
      (if x < 0 then ''-'' else []) @ dec (v div 10 ^ n)
        @ (if n = 0 then [] else ''.'' @ replicate (n - length fraction) (CHR ''0'') @ fraction))"

lemma fixed_length:
  assumes "0 \<le> x" and "x \<le> of_nat m" and "m < 10 ^ k" and "0 < k"
  shows "length (fixed n x) \<le> k + (if n = 0 then 0 else Suc n)"
proof -
  let ?v = "nat (round_even (\<bar>x\<bar> * 10 ^ n))"
  have "\<bar>x\<bar> * 10 ^ n \<le> of_int (int (m * 10 ^ n))" using assms(1,2) by (simp add: mult_right_mono)
  then have "round_even (\<bar>x\<bar> * 10 ^ n) \<le> int (m * 10 ^ n)" by (rule round_even_mono_int(2))
  then have "?v \<le> m * 10 ^ n" by (simp add: nat_le_iff)
  then have "?v div 10 ^ n \<le> m" by (metis div_le_mono div_mult_self_is_m zero_less_numeral zero_less_power)
  with assms(3) have a: "length (dec (?v div 10 ^ n)) \<le> k" by (intro dec_bound [OF _ assms(4)]) simp
  have b: "length (dec (?v mod 10 ^ n)) \<le> n" if "0 < n" using that by (intro dec_bound) simp_all
  show ?thesis using a b assms(1) by (auto simp: fixed_def Let_def)
qed

text \<open>A small negative number, the rest of a subtraction, has at most a sign more.\<close>

lemma fixed_length_abs:
  assumes "\<bar>x\<bar> \<le> of_nat m" and "m < 10 ^ k" and "0 < k"
  shows "length (fixed n x) \<le> Suc k + (if n = 0 then 0 else Suc n)"
proof -
  have "length (fixed n \<bar>x\<bar>) \<le> k + (if n = 0 then 0 else Suc n)" by (rule fixed_length [OF _ assms]) simp
  moreover have "length (fixed n x) \<le> Suc (length (fixed n \<bar>x\<bar>))" by (simp add: fixed_def Let_def)
  ultimately show ?thesis by linarith
qed

lemma fixed_nat: "fixed 0 (of_nat n) = dec n"
proof -
  have "round_even (\<bar>of_nat n\<bar> * 10 ^ 0) = int n" using round_even_int [of "int n"] by simp
  then show ?thesis by (simp add: fixed_def Let_def)
qed

end
