(* ===== verification/Terminal.thy ===== *)
theory Terminal
  imports Doubles Config
begin

text \<open>
  The line of progress that \<open>helper.c\<close> prints: \<open>printProgressBar\<close>, \<open>printSize\<close>, \<open>printETA\<close> and the
  output of \<open>outputProgress\<close>, whose state is in \<open>Config\<close>. A function gives the text it prints; the
  number it returns is the length of the text. No text means that a conversion of a \<open>double\<close> to an
  integer is undefined. Main results: how wide a size and the line are, and how minutes are rounded.
\<close>

section \<open>The pieces\<close>

definition printProgressBar :: "int \<Rightarrow> rat \<Rightarrow> string option" where
  "printProgressBar numBars percentRdy =
     (if numBars \<le> 0 then Some ''[]''
      else map_option (\<lambda>full. ''['' @ map (\<lambda>i. if int i < full then CHR ''#'' else CHR ''-'') [0..<nat numBars] @ '']'')
             (to_int (fmul (of_int numBars) percentRdy)))"

lemma fdiv_1024: "1024 < t \<Longrightarrow> 0 \<le> fdiv t 1024 \<and> fdiv t 1024 \<le> t / 512"
proof -
  assume t: "1024 < t"
  then have "\<bar>to_double (t / 1024) - t / 1024\<bar> \<le> t / 1024 / 2 ^ 53" by (intro to_double_error) simp
  then have "to_double (t / 1024) \<le> t / 1024 + t / 1024 / 2 ^ 53" by linarith
  also have "\<dots> \<le> t / 512" using t by simp
  finally have "to_double (t / 1024) \<le> t / 512" .
  then show ?thesis using t by (simp add: fdiv_def to_double_nonneg)
qed

text \<open>The loop divides while more than 1024 is left; it counts the divisions.\<close>

function size_unit :: "rat \<Rightarrow> nat \<Rightarrow> rat \<times> nat" where
  "size_unit temp i = (if temp > 1024 then size_unit (fdiv temp 1024) (Suc i) else (temp, i))"
  by pat_completeness auto

termination
proof (relation "measure (\<lambda>(t, i). nat \<lceil>t\<rceil>)")
  fix temp :: rat and i :: nat
  assume t: "1024 < temp"
  from fdiv_1024 [OF t] have "fdiv temp 1024 \<le> temp - 1" using t by linarith
  then have "\<lceil>fdiv temp 1024\<rceil> \<le> \<lceil>temp\<rceil> - 1" by linarith
  moreover have "0 < \<lceil>temp\<rceil>" using t by linarith
  ultimately show "((fdiv temp 1024, Suc i), (temp, i)) \<in> measure (\<lambda>(t, i). nat \<lceil>t\<rceil>)" by simp
qed simp

declare size_unit.simps [simp del]

definition printSize :: "nat \<Rightarrow> string" where
  "printSize sz =
     (case size_unit (to_double (of_nat sz)) 0 of (temp, i) \<Rightarrow>
        if i \<ge> length sizeNames then dec sz @ '' Byte''
        else fixed 3 temp @ '' '' @ sizeNames ! i)"

text \<open>Products of an \<open>unsigned int\<close> wrap around at 32 bits.\<close>

definition uint_mult :: "nat \<Rightarrow> nat \<Rightarrow> rat" where
  "uint_mult a b = of_nat (a * b mod 2 ^ 32)"

definition printETA :: "rat \<Rightarrow> string option" where
  "printETA seconds =
     (if seconds \<le> 60 then Some (fixed 0 seconds @ ''s'')
      else
        (let mins = fdiv seconds 60;
             hours = fdiv mins 60;
             days = fdiv hours 24 in
         case (to_uint hours, to_uint days, to_uint mins) of
           (Some h, Some d, Some m) \<Rightarrow>
             (let remainMins = fsub mins (uint_mult h 60);
                  remainHours = fsub hours (uint_mult d 24);
                  remainSeconds = fsub seconds (uint_mult m 60) in
              Some ((if days \<ge> 1 then fixed 0 days @ ''d'' else [])
                @ (if remainHours \<ge> 1 then fixed 0 remainHours @ ''h'' else [])
                @ fixed 0 remainMins @ ''m'' @ fixed 0 remainSeconds @ ''s''))
         | _ \<Rightarrow> None))"

section \<open>The line\<close>

text \<open>\<open>p\<close> is the progress before the call.\<close>

definition line_speed :: "dccDownloadProgress \<Rightarrow> nat" where
  "line_speed p = (if sizeRcvd p > 0 then averageSpeed (outputProgress p) else 0)"

definition line_eta :: "dccDownloadProgress \<Rightarrow> string option" where
  "line_eta p =
     (let remainingSize = size_sub (completeFileSize p) (sizeRcvd p) in
      if remainingSize > 0 \<and> line_speed p > 0
      then printETA (fdiv (to_double (of_nat remainingSize)) (to_double (of_nat (line_speed p))))
      else Some ''---'')"

definition line_share :: "dccDownloadProgress \<Rightarrow> rat" where
  "line_share p =
     (if completeFileSize p = 0 then 0
      else fdiv (to_double (of_nat (sizeRcvd p))) (to_double (of_nat (completeFileSize p))))"

definition line_numbers :: "dccDownloadProgress \<Rightarrow> string option" where
  "line_numbers p =
     map_option (\<lambda>eta. '' '' @ fixed 2 (fmul (line_share p) 100) @ ''% '' @ printSize (sizeRcvd p) @ ''/''
         @ printSize (completeFileSize p) @ ''|'' @ printSize (line_speed p) @ ''/s|'' @ eta)
       (line_eta p)"

definition progress_line :: "int \<Rightarrow> dccDownloadProgress \<Rightarrow> string option" where
  "progress_line cols p =
     (let progBarLen = cols - (8 + 14 + 1 + 14 + 1 + 14 + 3 + 13) in
      case (printProgressBar progBarLen (line_share p), line_numbers p) of
        (Some bar, Some numbers) \<Rightarrow>
          (let printedChars = progBarLen + 2 + int (length numbers) in
           Some (bar @ numbers @ replicate (nat (cols - 1 - printedChars)) (CHR '' '')))
      | _ \<Rightarrow> None)"

section \<open>Log lines\<close>

text \<open>The line that \<open>logprintf_line\<close> prints; the escapes are empty texts in a build without colours.\<close>

definition logprintf_line :: "bool \<Rightarrow> string \<Rightarrow> string \<Rightarrow> string \<Rightarrow> string \<Rightarrow> string" where
  "logprintf_line isColored KNRM color_code prefix message =
     (if isColored then color_code @ ''['' @ prefix @ ''] - '' else ''['' @ prefix @ ''] - '') @ message
       @ (if isColored then KNRM @ [LF] else [LF])"

text \<open>\<open>KNRM\<close>, \<open>KGRN\<close>, \<open>KYEL\<close> and \<open>KRED\<close> of \<open>helper.h\<close>.\<close>

definition escape :: "bool \<Rightarrow> string \<Rightarrow> string" where
  "escape ENABLE_ANSI_COLORS code = (if ENABLE_ANSI_COLORS then CHR 0x1B # code else [])"

definition logprintf :: "bool \<Rightarrow> bool \<Rightarrow> xdccGetConfig \<Rightarrow> log_level \<Rightarrow> string \<Rightarrow> string" where
  "logprintf ansi isColored c logLevel message =
     (let line = logprintf_line isColored (escape ansi ''[0m'');
          allowed = (\<lambda>level. log_number (c_logLevel c) \<ge> log_number level) in
      if c_logLevel c = LOG_QUIET then []
      else case logLevel of
        LOG_INFO \<Rightarrow> if allowed LOG_INFO then line (escape ansi ''[32m'') ''Info'' message else []
      | LOG_WARN \<Rightarrow> if allowed LOG_WARN then line (escape ansi ''[33m'') ''Warning'' message else []
      | LOG_ERR \<Rightarrow> if allowed LOG_ERR then line (escape ansi ''[31m'') ''Error'' message else []
      | LOG_QUIET \<Rightarrow> message @ [LF])"

lemma logprintf_silent: "logprintf ansi isColored c level message = [] \<longleftrightarrow> \<not> logprintf_writes c level"
  by (simp add: logprintf_def logprintf_line_def logprintf_writes_def Let_def split: log_level.split)

section \<open>Sizes\<close>

lemma size_unit_bound:
  "0 \<le> t \<Longrightarrow> t \<le> 2 powi (10 * (int k + 1)) \<Longrightarrow>
     (case size_unit t i of (t', i') \<Rightarrow> 0 \<le> t' \<and> t' \<le> 1024 \<and> i' \<le> i + k)"
proof (induction k arbitrary: t i)
  case 0
  then show ?case by (subst size_unit.simps) simp
next
  case (Suc k)
  show ?case
  proof (cases "t > 1024")
    case True
    have "t / 1024 \<le> 2 powi (10 * (int k + 1))"
      using Suc.prems(2) by (simp add: power_int_add algebra_simps)
    then have "fdiv t 1024 \<le> 2 powi (10 * (int k + 1))"
      using Suc.prems(1) by (simp add: fdiv_def to_double_upper)
    with Suc.IH [of "fdiv t 1024" "Suc i"] fdiv_1024 [OF True] True show ?thesis
      by (subst size_unit.simps) (auto split: prod.splits)
  next
    case False
    with Suc.prems show ?thesis by (subst size_unit.simps) simp
  qed
qed

lemma sizeNames_length: "i < 6 \<Longrightarrow> length (sizeNames ! i) \<le> 5"
  by (auto simp: sizeNames_def less_Suc_eq numeral_eq_Suc)

lemma printSize_length:
  assumes "n \<le> 1024 ^ 6"
  shows "length (printSize n) \<le> 14"
proof -
  have "(of_nat n :: rat) \<le> of_nat (1024 ^ 6)" using assms by (simp only: of_nat_le_iff)
  then have "to_double (of_nat n) \<le> 2 powi 60" by (intro to_double_upper) simp_all
  with size_unit_bound [of "to_double (of_nat n)" 5 0] obtain t i
    where u: "size_unit (to_double (of_nat n)) 0 = (t, i)" "0 \<le> t" "t \<le> 1024" "i \<le> 5"
    by (cases "size_unit (to_double (of_nat n)) 0") (auto simp: to_double_nonneg)
  have "length (fixed 3 t) \<le> 8" using fixed_length [of t 1024 4 3] u by simp
  moreover have "length (sizeNames ! i) \<le> 5" using u(4) by (intro sizeNames_length) simp
  ultimately show ?thesis using u by (simp add: printSize_def sizeNames_def)
qed

lemma size_unit_exact:
  "n < 2 ^ 53 \<Longrightarrow> 1024 ^ k < n \<or> k = 0 \<Longrightarrow> n \<le> 1024 ^ Suc k \<Longrightarrow> j \<le> k \<Longrightarrow>
     size_unit (of_nat n / 1024 ^ j) j = (of_nat n / 1024 ^ k, k)"
proof (induction "k - j" arbitrary: j)
  case 0
  have "(of_nat n :: rat) \<le> of_nat (1024 ^ Suc k)" using 0 by (simp only: of_nat_le_iff)
  with 0 have "\<not> 1024 < (of_nat n / 1024 ^ j :: rat)" by (simp add: not_less pos_divide_le_eq)
  with 0 show ?case by (subst size_unit.simps) simp
next
  case (Suc d)
  then have k: "1024 ^ k < n" "Suc j \<le> k" by auto
  then have "1024 ^ Suc j < n" by (metis le_less_trans power_increasing one_le_numeral)
  then have "(of_nat (1024 ^ Suc j) :: rat) < of_nat n" by (simp only: of_nat_less_iff)
  then have big: "1024 < (of_nat n / 1024 ^ j :: rat)" by (simp add: pos_less_divide_eq mult.commute)
  have ten: "10 * int (Suc j) = int (10 * Suc j)" by simp
  have ten1024: "(1024 :: rat) ^ Suc j = 2 powi (10 * int (Suc j))"
    unfolding ten power_int_of_nat power_mult by simp
  have inv: "2 powi (- (10 * int (Suc j))) = inverse ((1024 :: rat) ^ Suc j)"
    unfolding ten1024 by (rule power_int_minus)
  have p: "of_nat n / 1024 ^ Suc j = (of_int (int n) * 2 powi (- (10 * int (Suc j))) :: rat)"
    unfolding inv divide_inverse by simp
  have "fdiv (of_nat n / 1024 ^ j) 1024 = to_double (of_nat n / 1024 ^ Suc j)"
    by (simp add: fdiv_def mult.commute)
  also have "\<dots> = of_nat n / 1024 ^ Suc j"
    unfolding p by (rule to_double_exact) (use Suc.prems(1) in simp_all)
  finally have "fdiv (of_nat n / 1024 ^ j) 1024 = of_nat n / 1024 ^ Suc j" .
  with big Suc.hyps(1) [of "Suc j"] Suc.hyps(2) Suc.prems k show ?case
    by (subst size_unit.simps) simp
qed

lemma printSize_exact:
  assumes "n < 2 ^ 53" and "1024 ^ k < n \<or> k = 0" and "n \<le> 1024 ^ Suc k"
  shows "printSize n = fixed 3 (of_nat n / 1024 ^ k) @ '' '' @ sizeNames ! k"
proof -
  have "k < 6"
  proof (rule ccontr)
    assume "\<not> k < 6"
    then have "(1024 :: nat) ^ 6 \<le> 1024 ^ k" by (intro power_increasing) auto
    with assms(1,2) \<open>\<not> k < 6\<close> show False by auto
  qed
  with size_unit_exact [OF assms, of 0] assms(1) show ?thesis
    by (simp add: printSize_def to_double_nat sizeNames_def)
qed

section \<open>Times\<close>

lemma fdiv_near: "0 \<le> x \<Longrightarrow> 0 < y \<Longrightarrow> x \<le> 100000000 * y \<Longrightarrow> \<bar>fdiv x y - x / y\<bar> \<le> 1 / 67108864"
proof -
  assume a: "0 \<le> x" "0 < y" "x \<le> 100000000 * y"
  then have "\<bar>fdiv x y - x / y\<bar> \<le> x / y / 2 ^ 53" unfolding fdiv_def by (intro to_double_error) simp
  moreover have "x / y \<le> 100000000" using a by (simp add: pos_divide_le_eq)
  ultimately show ?thesis by simp
qed

lemma fdiv_nonneg: "0 \<le> x \<Longrightarrow> 0 \<le> y \<Longrightarrow> 0 \<le> fdiv x y"
  by (simp add: fdiv_def to_double_nonneg)

lemma fsub_0: "0 \<le> x \<Longrightarrow> 0 \<le> y \<Longrightarrow> fsub (fdiv x y) 0 = fdiv x y"
  by (simp add: fsub_def fdiv_def to_double_idem)

text \<open>The minutes of a time below an hour.\<close>

lemma minutes_near:
  assumes "s < 3600"
  shows "\<bar>fdiv (of_nat s) 60 - of_nat s / 60\<bar> \<le> 1 / 67108864"
proof -
  have "(of_nat s :: rat) \<le> of_nat 3600" using assms by (simp only: of_nat_le_iff)
  then show ?thesis by (intro fdiv_near) simp_all
qed

lemma minutes_exact:
  "fdiv (of_nat (60 * q)) 60 = of_nat q" "fdiv (of_nat (60 * q + 30)) 60 = of_nat q + 1 / 2" if "q < 60"
proof -
  show "fdiv (of_nat (60 * q)) 60 = of_nat q" using that by (simp add: fdiv_def to_double_nat)
  have eq: "(of_nat (60 * q + 30) / 60 :: rat) = of_int (2 * int q + 1) * 2 powi (- 1)"
    by (simp add: power_int_minus field_simps)
  have "fdiv (of_nat (60 * q + 30)) 60 = of_int (2 * int q + 1) * 2 powi (- 1)"
    unfolding fdiv_def eq by (rule to_double_exact) (use that in simp_all)
  then show "fdiv (of_nat (60 * q + 30)) 60 = of_nat q + 1 / 2" by (simp add: power_int_minus field_simps)
qed

lemma minutes_round:
  assumes "s < 3600"
  shows "\<lfloor>fdiv (of_nat s) 60\<rfloor> = int (s div 60)"
    and "round_even (fdiv (of_nat s) 60) = int (s div 60)
       + (if s mod 60 > 30 \<or> s mod 60 = 30 \<and> odd (s div 60) then 1 else 0)"
proof -
  define q r where q: "q = s div 60" and r: "r = s mod 60"
  have s: "s = 60 * q + r" "r < 60" "q < 60" using assms by (auto simp: q r)
  let ?m = "fdiv (of_nat s) 60 :: rat"
  have d: "(of_nat s :: rat) / 60 = of_nat q + of_nat r / 60" by (simp add: s(1) add_divide_distrib)
  have near: "\<bar>?m - (of_nat q + of_nat r / 60)\<bar> \<le> 1 / 67108864"
    using minutes_near [OF assms] by (simp add: d)
  have fl: "\<lfloor>?m\<rfloor> = int q \<and> round_even ?m = int q + (if r > 30 \<or> r = 30 \<and> odd q then 1 else 0)"
  proof -
    consider "r = 0" | "r = 30" | "0 < r" "r < 30" | "30 < r" by linarith
    then show ?thesis
    proof cases
      case 1
      then have "?m = of_int (int q)" using minutes_exact(1) [OF s(3)] s(1) by simp
      with 1 show ?thesis by (simp only: round_even_int floor_of_int) simp
    next
      case 2
      then have m: "?m = of_int (int q) + 1 / 2" using minutes_exact(2) [OF s(3)] s(1) by simp
      have "\<lfloor>?m\<rfloor> = int q" unfolding m by linarith
      with 2 show ?thesis unfolding m round_even_tie by simp
    next
      case 3
      then have "(1 :: rat) \<le> of_nat r" "(of_nat r :: rat) \<le> 29" by simp_all
      then have "of_nat q \<le> ?m \<and> ?m < of_nat q + 1 / 2" using near by (intro conjI) linarith+
      then have b: "of_int (int q) \<le> ?m" "?m < of_int (int q) + 1 / 2" by simp_all
      then have "\<lfloor>?m\<rfloor> = int q" by linarith
      with 3 round_even_below [OF b] show ?thesis by simp
    next
      case 4
      then have "(31 :: rat) \<le> of_nat r" "(of_nat r :: rat) \<le> 59" using s(2) by simp_all
      then have "of_nat q + 1 / 2 < ?m \<and> ?m < of_nat q + 1" using near by (intro conjI) linarith+
      then have b: "of_int (int q) + 1 / 2 < ?m" "?m < of_int (int q) + 1" by simp_all
      then have "\<lfloor>?m\<rfloor> = int q" by linarith
      with 4 round_even_above [OF b] show ?thesis by simp
    qed
  qed
  then show "\<lfloor>?m\<rfloor> = int (s div 60)"
    "round_even ?m = int (s div 60) + (if s mod 60 > 30 \<or> s mod 60 = 30 \<and> odd (s div 60) then 1 else 0)"
    by (simp_all add: q r)
qed

lemma small_whole: "s < 3600 \<Longrightarrow> to_double (of_nat s :: rat) = of_nat s" "s < 3600 \<Longrightarrow> (of_nat s :: rat) < 3600"
proof -
  show "(of_nat s :: rat) < 3600" if "s < 3600"
    using that by (metis of_nat_less_iff of_nat_numeral)
qed (simp add: to_double_nat)

text \<open>A time of whole seconds between one minute and one hour is printed as minutes and seconds.
  The seconds are the rest of the division by sixty, but the minutes are rounded: with more than half a
  minute left over, and with exactly half after an odd number, they are one too many, so that 90 seconds
  are printed as \<open>2m30s\<close>.\<close>

theorem printETA_minutes:
  assumes "60 < s" and "s < 3600"
  shows "printETA (of_nat s) = Some (dec (s div 60 + (if s mod 60 > 30 \<or> s mod 60 = 30 \<and> odd (s div 60) then 1 else 0))
    @ ''m'' @ dec (s mod 60) @ ''s'')"
proof -
  let ?m = "fdiv (of_nat s) 60 :: rat"
  let ?h = "fdiv ?m 60" and ?d = "fdiv (fdiv ?m 60) 24"
  have s: "(of_nat s :: rat) < 3600" "(of_nat s :: rat) \<le> 3599" "60 < (of_nat s :: rat)"
    using assms by (simp_all flip: of_nat_numeral [where 'a = rat] del: of_nat_numeral)
  have m0: "0 \<le> ?m" by (intro fdiv_nonneg) simp_all
  have "\<bar>?m - of_nat s / 60\<bar> \<le> 1 / 67108864" by (rule minutes_near [OF assms(2)])
  then have m: "?m \<le> of_nat s / 60 + 1 / 67108864" by linarith
  then have m60: "?m \<le> 5999 / 100" using s(2) by linarith
  have h0: "0 \<le> ?h" using m0 by (intro fdiv_nonneg) simp_all
  have "\<bar>?h - ?m / 60\<bar> \<le> 1 / 67108864" using m0 m60 by (intro fdiv_near) simp_all
  then have h: "?h < 1" using m60 by linarith
  have d0: "0 \<le> ?d" using h0 by (intro fdiv_nonneg) simp_all
  have "\<bar>?d - ?h / 24\<bar> \<le> 1 / 67108864" using h0 h by (intro fdiv_near) simp_all
  then have d: "?d < 1" using h by linarith
  have fl: "\<lfloor>?h\<rfloor> = 0" "\<lfloor>?d\<rfloor> = 0" using h0 h d0 d by linarith+
  have u: "to_uint ?h = Some 0" "to_uint ?d = Some 0" "to_uint ?m = Some (s div 60)"
    using h0 h d0 d m0 m60 fl minutes_round(1) [OF assms(2)] by (simp_all add: to_uint_def)
  have q: "s div 60 < 60" using assms(2) by linarith
  have "s div 60 * 60 + s mod 60 = s" by simp
  then have rest: "(of_nat s :: rat) - of_nat (s div 60 * 60) = of_nat (s mod 60)"
    by (metis add_diff_cancel_left' of_nat_add)
  have sec: "fsub (of_nat s) (uint_mult (s div 60) 60) = of_nat (s mod 60)"
    using q rest by (simp add: fsub_def uint_mult_def to_double_nat)
  have minute: "fixed 0 (fsub ?m (uint_mult 0 60))
      = dec (s div 60 + (if s mod 60 > 30 \<or> s mod 60 = 30 \<and> odd (s div 60) then 1 else 0))"
    using m0 minutes_round(2) [OF assms(2)] by (simp add: uint_mult_def fsub_0 fixed_def Let_def nat_add_distrib)
  have hour: "\<not> fsub ?h (uint_mult 0 24) \<ge> 1" using h m0 by (simp add: uint_mult_def fsub_0)
  show ?thesis
    using s(3) d hour by (simp add: printETA_def Let_def u sec minute fixed_nat)
qed

theorem printETA_minutes_witness: "printETA (of_nat 90) = Some ''2m30s''"
proof -
  have "dec (Suc (Suc 0)) = ''2''" "dec 30 = ''30''" by code_simp+
  with printETA_minutes [of 90] show ?thesis by simp
qed

text \<open>A division with its rest, as the function computes it.\<close>

lemma two_digits:
  assumes "- 9 \<le> x" and "x \<le> 99"
  shows "length (fixed 0 x) \<le> 2"
proof (cases "0 \<le> x")
  case True
  with fixed_length [of x 99 2 0] assms(2) show ?thesis by simp
next
  case False
  with fixed_length_abs [of x 9 1 0] assms(1) show ?thesis by simp
qed

lemma to_double_abs: "\<bar>to_double x - x\<bar> \<le> \<bar>x\<bar> / 2 ^ 53"
  using to_double_error [of x] to_double_error [of "- x"] by (cases "0 \<le> x") (auto simp: to_double_minus)

lemma fsub_range: "- 2 \<le> x - y \<Longrightarrow> x - y \<le> 62 \<Longrightarrow> - 3 \<le> fsub x y \<and> fsub x y \<le> 63"
proof -
  assume a: "- 2 \<le> x - y" "x - y \<le> 62"
  then have "\<bar>x - y\<bar> / 2 ^ 53 \<le> 1" by (simp add: abs_le_iff)
  with to_double_abs [of "x - y"] have "\<bar>to_double (x - y) - (x - y)\<bar> \<le> 1" by linarith
  with a show ?thesis unfolding fsub_def by linarith
qed

lemma division_rest:
  assumes "0 \<le> x" and "x \<le> 100000000" and "c \<in> {24, 60}"
  shows "to_uint (fdiv x (of_nat c)) = Some (nat \<lfloor>fdiv x (of_nat c)\<rfloor>)"
    and "- 3 \<le> fsub x (uint_mult (nat \<lfloor>fdiv x (of_nat c)\<rfloor>) c)"
    and "fsub x (uint_mult (nat \<lfloor>fdiv x (of_nat c)\<rfloor>) c) \<le> 63"
    and "0 \<le> fdiv x (of_nat c)" and "fdiv x (of_nat c) \<le> x / of_nat c + 1 / 67108864"
proof -
  let ?y = "fdiv x (of_nat c)"
  have c: "0 < (of_nat c :: rat)" "(of_nat c :: rat) \<in> {24, 60}" using assms(3) by auto
  have "x \<le> 100000000 * of_nat c" using assms(2) c(2) by auto
  then have near: "\<bar>?y - x / of_nat c\<bar> \<le> 1 / 67108864" using assms(1) c(1) by (intro fdiv_near)
  show y0: "0 \<le> ?y" using assms(1) c(1) by (intro fdiv_nonneg) simp_all
  show yup: "?y \<le> x / of_nat c + 1 / 67108864" using near by linarith
  have "x / of_nat c \<le> 100000000 / 24" using assms(1,2) c(2) by auto
  then have y1: "?y \<le> 5000000" using yup by linarith
  then show "to_uint ?y = Some (nat \<lfloor>?y\<rfloor>)" using y0 by (simp add: to_uint_def)
  have fl: "of_int \<lfloor>?y\<rfloor> \<le> ?y" "?y < of_int \<lfloor>?y\<rfloor> + 1" "0 \<le> \<lfloor>?y\<rfloor>" using y0 by linarith+
  have "nat \<lfloor>?y\<rfloor> \<le> 5000000" using y1 by linarith
  then have "nat \<lfloor>?y\<rfloor> * c \<le> 5000000 * 60" using assms(3) by (intro mult_le_mono) auto
  then have "nat \<lfloor>?y\<rfloor> * c < 2 ^ 32" by (rule le_less_trans) simp
  then have u: "uint_mult (nat \<lfloor>?y\<rfloor>) c = of_int \<lfloor>?y\<rfloor> * of_nat c"
    using fl(3) by (simp add: uint_mult_def of_nat_nat)
  from c(2) consider "(of_nat c :: rat) = 24" | "(of_nat c :: rat) = 60" by auto
  then have "- 2 \<le> x - of_int \<lfloor>?y\<rfloor> * of_nat c \<and> x - of_int \<lfloor>?y\<rfloor> * of_nat c \<le> 62"
  proof cases
    case 1
    note near [unfolded 1] fl(1,2) [unfolded 1]
    then show ?thesis unfolding 1 by (intro conjI) linarith+
  next
    case 2
    note near [unfolded 2] fl(1,2) [unfolded 2]
    then show ?thesis unfolding 2 by (intro conjI) linarith+
  qed
  then show "- 3 \<le> fsub x (uint_mult (nat \<lfloor>?y\<rfloor>) c)" "fsub x (uint_mult (nat \<lfloor>?y\<rfloor>) c) \<le> 63"
    using fsub_range u by auto
qed

lemma printETA_length:
  assumes "0 \<le> x" and "x \<le> 86227200"
  shows "\<exists>t. printETA x = Some t \<and> length t \<le> 13"
proof (cases "x \<le> 60")
  case True
  with assms(1) two_digits [of x] show ?thesis by (simp add: printETA_def)
next
  case False
  let ?m = "fdiv x 60" and ?h = "fdiv (fdiv x 60) 60" and ?d = "fdiv (fdiv (fdiv x 60) 60) 24"
  have m: "to_uint ?m = Some (nat \<lfloor>?m\<rfloor>)" "- 3 \<le> fsub x (uint_mult (nat \<lfloor>?m\<rfloor>) 60)"
    "fsub x (uint_mult (nat \<lfloor>?m\<rfloor>) 60) \<le> 63" "0 \<le> ?m" "?m \<le> x / 60 + 1 / 67108864"
    using division_rest [of x 60] assms by simp_all
  have mu: "?m \<le> 1437121" using m(5) assms(2) by linarith
  have h: "to_uint ?h = Some (nat \<lfloor>?h\<rfloor>)" "- 3 \<le> fsub ?m (uint_mult (nat \<lfloor>?h\<rfloor>) 60)"
    "fsub ?m (uint_mult (nat \<lfloor>?h\<rfloor>) 60) \<le> 63" "0 \<le> ?h" "?h \<le> ?m / 60 + 1 / 67108864"
    using division_rest [of ?m 60] m(4) mu by simp_all
  have hu: "?h \<le> 23953" using h(5) mu by linarith
  have d: "to_uint ?d = Some (nat \<lfloor>?d\<rfloor>)" "- 3 \<le> fsub ?h (uint_mult (nat \<lfloor>?d\<rfloor>) 24)"
    "fsub ?h (uint_mult (nat \<lfloor>?d\<rfloor>) 24) \<le> 63" "0 \<le> ?d" "?d \<le> ?h / 24 + 1 / 67108864"
    using division_rest [of ?h 24] h(4) hu by simp_all
  have "?d \<le> 999" using d(5) hu by linarith
  then have A: "length (fixed 0 ?d) \<le> 3" using fixed_length [of ?d 999 3 0] d(4) by simp
  have B: "length (fixed 0 (fsub ?h (uint_mult (nat \<lfloor>?d\<rfloor>) 24))) \<le> 2"
    using d(2,3) by (intro two_digits) linarith+
  have C: "length (fixed 0 (fsub ?m (uint_mult (nat \<lfloor>?h\<rfloor>) 60))) \<le> 2"
    using h(2,3) by (intro two_digits) linarith+
  have D: "length (fixed 0 (fsub x (uint_mult (nat \<lfloor>?m\<rfloor>) 60))) \<le> 2"
    using m(2,3) by (intro two_digits) linarith+
  have sum: "length ((if P then a @ ''d'' else []) @ (if Q then b @ ''h'' else []) @ c @ ''m'' @ d @ ''s'') \<le> 13"
    if "length a \<le> 3" "length b \<le> 2" "length c \<le> 2" "length d \<le> 2" for a b c d :: string and P Q
    using that by auto
  have "\<exists>P Q. printETA x = Some ((if P then fixed 0 ?d @ ''d'' else [])
      @ (if Q then fixed 0 (fsub ?h (uint_mult (nat \<lfloor>?d\<rfloor>) 24)) @ ''h'' else [])
      @ fixed 0 (fsub ?m (uint_mult (nat \<lfloor>?h\<rfloor>) 60)) @ ''m'' @ fixed 0 (fsub x (uint_mult (nat \<lfloor>?m\<rfloor>) 60)) @ ''s'')"
    unfolding printETA_def Let_def m(1) h(1) d(1) using False by (simp only: if_False option.case prod.case) blast
  with sum [OF A B C D] show ?thesis by metis
qed

section \<open>The width of the line\<close>

lemma printProgressBar_length: "printProgressBar n r = Some t \<Longrightarrow> int (length t) = max 0 n + 2"
  by (auto simp: printProgressBar_def split: if_splits)

text \<open>On a narrow terminal the bar is empty, but the count of the printed characters starts below zero.\<close>

lemma progress_line_length:
  assumes "progress_line cols p = Some t" and "line_numbers p = Some numbers"
  shows "int (length t) = (if 68 \<le> cols then max (cols - 1) (cols - 66 + int (length numbers))
    else max 67 (2 + int (length numbers)))"
proof -
  obtain bar where bar: "printProgressBar (cols - 68) (line_share p) = Some bar"
    and t: "t = bar @ numbers @ replicate (nat (cols - 1 - (cols - 66 + int (length numbers)))) (CHR '' '')"
    using assms by (auto simp: progress_line_def Let_def algebra_simps split: option.splits)
  show ?thesis
    using printProgressBar_length [OF bar] by (auto simp: t)
qed

lemma share_range:
  assumes "sizeRcvd p \<le> completeFileSize p"
  shows "0 \<le> line_share p" "line_share p \<le> 1"
proof -
  let ?r = "to_double (of_nat (sizeRcvd p))" and ?c = "to_double (of_nat (completeFileSize p))"
  show "0 \<le> line_share p" by (simp add: line_share_def fdiv_nonneg to_double_nonneg)
  have "?r \<le> ?c" using assms by (intro to_double_mono) simp_all
  then have "?r / ?c \<le> 1" using to_double_nonneg [of "of_nat (completeFileSize p)"] by (simp add: divide_le_eq_1 less_le)
  then show "line_share p \<le> 1"
    using to_double_upper [of "?r / ?c" 0] by (simp add: line_share_def fdiv_def to_double_nonneg)
qed

lemma share_text_length:
  assumes "0 \<le> r" and "r \<le> 1"
  shows "length (fixed 2 (fmul r 100)) \<le> 6"
proof -
  have "\<bar>fmul r 100 - r * 100\<bar> \<le> r * 100 / 2 ^ 53"
    unfolding fmul_def using assms(1) by (intro to_double_error) simp
  moreover have "r * 100 / 2 ^ 53 \<le> 1" using assms(2) by simp
  ultimately have "fmul r 100 \<le> 101" using assms(2) by linarith
  moreover have "0 \<le> fmul r 100" using assms(1) by (simp add: fmul_def to_double_nonneg)
  ultimately show ?thesis using fixed_length [of "fmul r 100" 101 3 2] by simp
qed

text \<open>C38: while a file of at most a pebibyte loads and its end is at most 998 days away, a line of
  progress is printed on every terminal of 68 columns or more, as wide as the terminal less one and at
  most four characters wider; on a narrower terminal it does not fit.\<close>

theorem progress_line_width:
  assumes "sizeRcvd p \<le> completeFileSize p" and "completeFileSize p \<le> 1024 ^ 6" and "line_speed p \<le> 1024 ^ 6"
    and "fdiv (to_double (of_nat (completeFileSize p - sizeRcvd p))) (to_double (of_nat (line_speed p))) \<le> 86227200"
    and "cols < 2 ^ 31"
  shows "\<exists>t. progress_line cols p = Some t
    \<and> (68 \<le> cols \<longrightarrow> cols - 1 \<le> int (length t) \<and> int (length t) \<le> cols + 3)
    \<and> (cols < 68 \<longrightarrow> cols - 1 < int (length t))"
proof -
  let ?rest = "completeFileSize p - sizeRcvd p"
  have rest: "size_sub (completeFileSize p) (sizeRcvd p) = ?rest"
    using assms(1,2) by (simp add: SIZE_MOD_def)
  have "\<exists>eta. line_eta p = Some eta \<and> length eta \<le> 13"
  proof (cases "?rest > 0 \<and> line_speed p > 0")
    case True
    have "0 \<le> fdiv (to_double (of_nat ?rest)) (to_double (of_nat (line_speed p)))"
      by (simp add: fdiv_nonneg to_double_nonneg)
    from printETA_length [OF this assms(4)] True show ?thesis by (simp add: line_eta_def rest)
  qed (auto simp: line_eta_def rest)
  then obtain eta where eta: "line_eta p = Some eta" "length eta \<le> 13" by blast
  then obtain numbers where n: "line_numbers p = Some numbers" by (auto simp: line_numbers_def)
  have "length numbers \<le> 69"
    using n eta share_text_length [OF share_range [OF assms(1)]] printSize_length [of "sizeRcvd p"]
      printSize_length [OF assms(2)] printSize_length [OF assms(3)] assms(1,2)
    by (auto simp: line_numbers_def)
  moreover have "\<exists>bar. printProgressBar (cols - 68) (line_share p) = Some bar"
  proof (cases "68 < cols")
    case True
    have s: "0 \<le> line_share p" "line_share p \<le> 1" by (rule share_range [OF assms(1)])+
    have "(of_int (cols - 68) :: rat) \<le> of_int (2 ^ 31 - 69)" using assms(5) by (simp only: of_int_le_iff)
    moreover have "(0 :: rat) \<le> of_int (cols - 68)" using True by (simp only: of_int_0_le_iff)
    ultimately have c: "0 \<le> (of_int (cols - 68) :: rat)" "(of_int (cols - 68) :: rat) < 2147483647" by simp_all
    have "of_int (cols - 68) * line_share p \<le> of_int (cols - 68)" by (rule mult_left_le [OF s(2) c(1)])
    then have z2: "of_int (cols - 68) * line_share p < 2147483647" using c(2) by (rule le_less_trans)
    have z1: "0 \<le> of_int (cols - 68) * line_share p" by (rule mult_nonneg_nonneg [OF c(1) s(1)])
    let ?f = "fmul (of_int (cols - 68)) (line_share p)"
    have "\<bar>?f - of_int (cols - 68) * line_share p\<bar> \<le> of_int (cols - 68) * line_share p / 2 ^ 53"
      unfolding fmul_def by (rule to_double_error [OF z1])
    moreover have "of_int (cols - 68) * line_share p / 2 ^ 53 \<le> 1" using z2 by simp
    ultimately have "?f < 2147483648" using z2 by linarith
    moreover have "0 \<le> ?f" unfolding fmul_def by (rule to_double_nonneg [OF z1])
    ultimately show ?thesis using True by (simp add: printProgressBar_def to_int_def)
  qed (simp add: printProgressBar_def)
  then obtain t where t: "progress_line cols p = Some t" by (auto simp: progress_line_def Let_def n)
  ultimately show ?thesis using progress_line_length [OF t n] by (auto simp: max_def split: if_splits)
qed

definition half_loaded :: dccDownloadProgress where
  "half_loaded = (newDccProgress ''f'' 2048)\<lparr>sizeRcvd := 1024\<rparr>"

theorem progress_line_width_witness:
  "\<exists>t. progress_line 40 half_loaded = Some t \<and> 39 < int (length t)"
proof -
  have a: "sizeRcvd half_loaded = 1024" "completeFileSize half_loaded = 2048" "line_speed half_loaded = 1024"
    by (simp_all add: half_loaded_def newDccProgress_def line_speed_def outputProgress_def saveCurrentSpeed_def
        getAverageSpeed_def NUM_AVERAGE_SPEED_VALUES_def SIZE_MOD_def Let_def)
  have "fdiv (to_double 1024) (to_double 1024) \<le> 86227200"
    using to_double_nat [of 1024] to_double_nat [of 1] by (simp add: fdiv_def)
  with progress_line_width [of half_loaded 40] show ?thesis by (auto simp: a)
qed

end
