(* ===== verification/Sockets.thy ===== *)
theory Sockets
  imports Irc_Connect
begin

text \<open>
  The calls of \<open>sockets.c\<close> that the session and the transfers go through: the loops that repeat an
  interrupted call, the socket's blocking mode, and the list of addresses that is built from the answer
  of \<open>getaddrinfo\<close> and released after the connection attempt. The operating system's answers are a
  sequence, one for each call. Main results: a loop ends exactly if some answer is not a retry, and then
  with the first such answer, which is the one that the models of the session take from their tapes;
  the addresses are those of the resolver, in its order; releasing them gives back every block.
\<close>

section \<open>Errors\<close>

text \<open>\<open>EWOULDBLOCK\<close> is \<open>EAGAIN\<close>.\<close>

datatype errno = EINTR | EAGAIN | EINPROGRESS | OtherError int

definition EWOULDBLOCK :: errno where
  "EWOULDBLOCK = EAGAIN"

section \<open>The retry loop\<close>

text \<open>A call that is repeated until its answer is not a retry. \<open>ans i\<close> is the answer to the call
  number \<open>i\<close>; the result has the number of the call that gave it.\<close>

partial_function (option) repeat_call :: "('r \<Rightarrow> bool) \<Rightarrow> (nat \<Rightarrow> 'r) \<Rightarrow> nat \<Rightarrow> ('r \<times> nat) option" where
  "repeat_call retry ans i = (if retry (ans i) then repeat_call retry ans (Suc i) else Some (ans i, i))"

lemma repeat_call_first:
  "i \<le> n \<Longrightarrow> \<forall>k. i \<le> k \<and> k < n \<longrightarrow> retry (ans k) \<Longrightarrow> \<not> retry (ans n) \<Longrightarrow>
     repeat_call retry ans i = Some (ans n, n)"
proof (induction "n - i" arbitrary: i)
  case (Suc d)
  then have "retry (ans i)" by simp
  with Suc show ?case by (subst repeat_call.simps) simp
qed (subst repeat_call.simps, simp)

definition first_decisive :: "('r \<Rightarrow> bool) \<Rightarrow> (nat \<Rightarrow> 'r) \<Rightarrow> nat \<Rightarrow> 'r \<times> nat \<Rightarrow> bool" where
  "first_decisive retry ans i y \<longleftrightarrow>
     (case y of (r, n) \<Rightarrow> i \<le> n \<and> r = ans n \<and> \<not> retry r \<and> (\<forall>k. i \<le> k \<and> k < n \<longrightarrow> retry (ans k)))"

lemma first_decisive_step: "retry (ans i) \<Longrightarrow> first_decisive retry ans (Suc i) y \<Longrightarrow> first_decisive retry ans i y"
  by (auto simp: first_decisive_def Suc_le_eq) (metis le_neq_implies_less)

lemma repeat_call_result: "repeat_call retry ans i = Some y \<Longrightarrow> first_decisive retry ans i y"
proof (rule repeat_call.raw_induct [where P = first_decisive])
  fix rc :: "('a \<Rightarrow> bool) \<Rightarrow> (nat \<Rightarrow> 'a) \<Rightarrow> nat \<Rightarrow> ('a \<times> nat) option" and retry ans i y
  assume IH: "\<And>retry ans i y. rc retry ans i = Some y \<Longrightarrow> first_decisive retry ans i y"
    and st: "(if retry (ans i) then rc retry ans (Suc i) else Some (ans i, i)) = Some y"
  show "first_decisive retry ans i y"
  proof (cases "retry (ans i)")
    case True
    with st have "first_decisive retry ans (Suc i) y" by (intro IH) simp
    with True show ?thesis by (rule first_decisive_step)
  next
    case False
    with st show ?thesis by (auto simp: first_decisive_def)
  qed
qed

text \<open>It returns exactly if there is a decisive answer.\<close>

lemma repeat_call_returns: "(\<exists>res. repeat_call retry ans i = Some res) \<longleftrightarrow> (\<exists>n \<ge> i. \<not> retry (ans n))"
proof
  assume "\<exists>n \<ge> i. \<not> retry (ans n)"
  then obtain n where "n \<ge> i \<and> \<not> retry (ans n)" "\<forall>k < n. \<not> (k \<ge> i \<and> \<not> retry (ans k))"
    using exists_least_iff [of "\<lambda>n. n \<ge> i \<and> \<not> retry (ans n)"] by blast
  then have "repeat_call retry ans i = Some (ans n, n)" by (intro repeat_call_first) auto
  then show "\<exists>res. repeat_call retry ans i = Some res" ..
next
  assume "\<exists>res. repeat_call retry ans i = Some res"
  then obtain y where "repeat_call retry ans i = Some y" ..
  from repeat_call_result [OF this] show "\<exists>n \<ge> i. \<not> retry (ans n)" by (auto simp: first_decisive_def)
qed

section \<open>Receiving, sending and connecting\<close>

datatype recv_answer = Received string | RecvFailed errno

datatype send_answer = Sent nat | SendFailed errno

fun recv_retry :: "recv_answer \<Rightarrow> bool" where
  "recv_retry (RecvFailed err) = (err = EINTR \<or> err = EAGAIN)"
| "recv_retry (Received _) = False"

fun send_retry :: "send_answer \<Rightarrow> bool" where
  "send_retry (SendFailed err) = (err = EINTR \<or> err = EAGAIN)"
| "send_retry (Sent _) = False"

text \<open>The bytes, the length that is returned, and the number of the next call.\<close>

definition socket_recv :: "(nat \<Rightarrow> recv_answer) \<Rightarrow> nat \<Rightarrow> (string \<times> int \<times> nat) option" where
  "socket_recv ans i = map_option (\<lambda>(r, n). case r of
      Received xs \<Rightarrow> (xs, int (length xs), Suc n) | RecvFailed _ \<Rightarrow> ([], -1, Suc n))
     (repeat_call recv_retry ans i)"

definition socket_send :: "(nat \<Rightarrow> send_answer) \<Rightarrow> nat \<Rightarrow> (int \<times> nat) option" where
  "socket_send ans i = map_option (\<lambda>(r, n). case r of
      Sent k \<Rightarrow> (int k, Suc n) | SendFailed _ \<Rightarrow> (-1, Suc n))
     (repeat_call send_retry ans i)"

text \<open>\<open>None\<close> as an answer of \<open>connect\<close> is success.\<close>

fun connect_retry :: "errno option \<Rightarrow> bool" where
  "connect_retry (Some err) = (err = EINTR)"
| "connect_retry None = False"

definition socket_connect :: "(nat \<Rightarrow> errno option) \<Rightarrow> nat \<Rightarrow> (int \<times> nat) option" where
  "socket_connect ans i = map_option (\<lambda>(r, n). case r of
      Some err \<Rightarrow> (if err \<noteq> EINPROGRESS \<and> err \<noteq> EWOULDBLOCK then 1 else 0, Suc n)
    | None \<Rightarrow> (0, Suc n)) (repeat_call connect_retry ans i)"

section \<open>The descriptor\<close>

record descriptor =
  d_sock :: int
  d_nonblocking :: bool

definition socket_create :: "int \<Rightarrow> descriptor \<times> int" where
  "socket_create answer =
     (\<lparr>d_sock = answer, d_nonblocking = False\<rparr>, if answer < 0 then 1 else 0)"

text \<open>\<open>fcntl\<close> sets the flag; the Windows call passes a zero, which clears it.\<close>

definition socket_make_nonblocking :: "int \<Rightarrow> descriptor \<Rightarrow> descriptor \<times> int" where
  "socket_make_nonblocking answer d =
     (if answer = 0 then (d\<lparr>d_nonblocking := True\<rparr>, 0) else (d, 1))"

definition socket_make_nonblocking_windows :: "int \<Rightarrow> descriptor \<Rightarrow> descriptor \<times> int" where
  "socket_make_nonblocking_windows answer d =
     (let iMode = (0 :: nat) in
      if answer \<noteq> 0 then (d, answer) else (d\<lparr>d_nonblocking := iMode \<noteq> 0\<rparr>, 0))"

definition socket_close_fd :: "descriptor \<Rightarrow> descriptor \<times> int" where
  "socket_close_fd d = (d\<lparr>d_sock := -1\<rparr>, 0)"

section \<open>What the session sees of it\<close>

text \<open>The session's model takes one answer for each call; this is the one it stands for.\<close>

definition read_answer_of :: "string \<times> int \<Rightarrow> read_answer" where
  "read_answer_of r = (if snd r > 0 then ReadBytes (fst r) else ReadClosed)"

definition write_answer_of :: "int \<Rightarrow> write_answer" where
  "write_answer_of len = (if len > 0 then Written (nat len) else WriteClosed)"

text \<open>\<open>session_socket_read\<close> and \<open>session_socket_write\<close> of a connection without TLS, with the loops.\<close>

definition plain_socket_read :: "irc_session \<Rightarrow> (nat \<Rightarrow> recv_answer) \<Rightarrow> nat \<Rightarrow> (irc_session \<times> int \<times> nat) option" where
  "plain_socket_read s ans i = map_option (\<lambda>(xs, len, n).
      if len \<le> 0 then (s, -1, n) else (store_incoming s xs, len, n)) (socket_recv ans i)"

definition plain_socket_write :: "irc_session \<Rightarrow> (nat \<Rightarrow> send_answer) \<Rightarrow> nat \<Rightarrow> (irc_session \<times> int \<times> nat) option" where
  "plain_socket_write s ans i = map_option (\<lambda>(len, n).
      if len \<le> 0 then (s, -1, n) else (s, len, n)) (socket_send ans i)"

lemma socket_recv_length: "socket_recv ans i = Some (xs, len, n) \<Longrightarrow> 0 < len \<Longrightarrow> len = int (length xs)"
  by (cases "repeat_call recv_retry ans i") (auto simp: socket_recv_def split: recv_answer.splits)

lemma plain_read_refines:
  assumes "\<not> s_ssl s"
  shows "plain_socket_read s ans i = map_option (\<lambda>(xs, len, n).
      case session_socket_read s (read_answer_of (xs, len)) w of (s', l) \<Rightarrow> (s', l, n)) (socket_recv ans i)"
  using socket_recv_length [of ans i] assms
  by (cases "socket_recv ans i")
    (auto simp: plain_socket_read_def session_socket_read_def read_answer_of_def)

lemma plain_write_refines:
  assumes "\<not> s_ssl s"
  shows "plain_socket_write s ans i = map_option (\<lambda>(len, n).
      case session_socket_write s r (write_answer_of len) of (s', l) \<Rightarrow> (s', l, n)) (socket_send ans i)"
  using assms
  by (cases "socket_send ans i")
    (auto simp: plain_socket_write_def session_socket_write_def write_answer_of_def)

definition decisive_read :: "recv_answer \<Rightarrow> read_answer" where
  "decisive_read r = (case r of Received (x # xs) \<Rightarrow> ReadBytes (x # xs) | _ \<Rightarrow> ReadClosed)"



text \<open>A non-blocking socket without input is asked again and again.\<close>

lemma plain_read_spins: "plain_socket_read s (\<lambda>k. RecvFailed EAGAIN) i = None"
  using repeat_call_returns [of recv_retry "\<lambda>k. RecvFailed EAGAIN" i]
  by (cases "repeat_call recv_retry (\<lambda>k. RecvFailed EAGAIN) i") (simp_all add: plain_socket_read_def socket_recv_def)

section \<open>The list of addresses\<close>

text \<open>An entry of the resolver's answer; its socket address is the bytes.\<close>

record addrinfo =
  ai_family :: address_family
  ai_socktype :: int
  ai_protocol :: int
  ai_addr :: string

text \<open>A \<open>struct irc_addr_t\<close> with the block that holds it.\<close>

record irc_addr_t =
  t_block :: addr
  t_family :: address_family
  t_socktype :: int
  t_protocol :: int
  t_length :: nat
  t_addr :: addr

text \<open>The array ends with \<open>NULL\<close>, which \<open>Calloc\<close> put there.\<close>

record address_array =
  a_block :: addr
  a_entries :: "irc_addr_t option list"

definition sizeof_sockaddr :: "address_family \<Rightarrow> nat" where
  "sizeof_sockaddr f = (if f = AF_INET6 then 28 else 16)"

text \<open>For another family the pointer in the new structure has no value.\<close>

definition init_irc_addr :: "addr \<Rightarrow> addrinfo \<Rightarrow> heap \<Rightarrow> stop + irc_addr_t \<times> heap" where
  "init_irc_addr block ai h =
     (if ai_family ai = AF_INET \<or> ai_family ai = AF_INET6
      then (let room = sizeof_sockaddr (ai_family ai) in
            if length (ai_addr ai) > room then Inl OutOfBounds
            else (case heap_alloc (ai_addr ai @ replicate (room - length (ai_addr ai)) NUL) h of (a, h) \<Rightarrow>
              Inr (\<lparr>t_block = block, t_family = ai_family ai, t_socktype = ai_socktype ai,
                    t_protocol = ai_protocol ai, t_length = length (ai_addr ai), t_addr = a\<rparr>, h)))
      else Inl Uninitialised)"

text \<open>The loop that fills the array from index \<open>k\<close> on.\<close>

fun fill_addresses :: "addrinfo list \<Rightarrow> nat \<Rightarrow> irc_addr_t option list \<Rightarrow> heap \<Rightarrow> stop + irc_addr_t option list \<times> heap" where
  "fill_addresses [] k entries h = Inr (entries, h)"
| "fill_addresses (ai # ais) k entries h =
     (case heap_alloc (replicate 24 NUL) h of (block, h) \<Rightarrow>
        and_then (init_irc_addr block ai h) (\<lambda>(t, h).
          if k < length entries then fill_addresses ais (Suc k) (entries[k := Some t]) h else Inl OutOfBounds))"

definition resolve_hostname_by_dns :: "addrinfo list option \<Rightarrow> heap \<Rightarrow> stop + (address_array option \<times> nat) \<times> heap" where
  "resolve_hostname_by_dns answer h =
     (case answer of
        None \<Rightarrow> Inr ((None, 0), h)
      | Some result \<Rightarrow>
          (let numAddresses = length result in
           if numAddresses = 0 then Inr ((None, 0), h)
           else (case heap_alloc (replicate (8 * (numAddresses + 1)) NUL) h of (array, h) \<Rightarrow>
             and_then (fill_addresses result 0 (replicate (numAddresses + 1) None) h) (\<lambda>(entries, h).
               Inr ((Some \<lparr>a_block = array, a_entries = entries\<rparr>, numAddresses), h)))))"

text \<open>The loop reads entries up to the first \<open>NULL\<close>; an array without one would be left.\<close>

fun free_entries :: "irc_addr_t option list \<Rightarrow> heap \<Rightarrow> stop + heap" where
  "free_entries [] h = Inl OutOfBounds"
| "free_entries (None # es) h = Inr h"
| "free_entries (Some t # es) h =
     and_then (heap_free (Some (t_addr t)) h) (\<lambda>h. and_then (heap_free (Some (t_block t)) h) (free_entries es))"

definition free_addresses :: "address_array \<Rightarrow> heap \<Rightarrow> stop + heap" where
  "free_addresses a h = and_then (free_entries (a_entries a) h) (heap_free (Some (a_block a)))"

text \<open>The entries the code goes through, and what the model of the connection uses of them.\<close>

definition families_of :: "address_array \<Rightarrow> address_family list" where
  "families_of a = map (t_family \<circ> the) (takeWhile (\<lambda>e. e \<noteq> None) (a_entries a))"

text \<open>An answer as \<open>getaddrinfo\<close> documents it for TCP: internet addresses of the size of their family.\<close>

definition addrinfo_ok :: "addrinfo \<Rightarrow> bool" where
  "addrinfo_ok ai \<longleftrightarrow> (ai_family ai = AF_INET \<or> ai_family ai = AF_INET6) \<and> length (ai_addr ai) \<le> sizeof_sockaddr (ai_family ai)"

section \<open>No block is lost\<close>

text \<open>Blocks are handed out in order, so the ones from \<open>h_next\<close> on are free.\<close>

definition heap_fresh :: "heap \<Rightarrow> bool" where
  "heap_fresh h \<longleftrightarrow> (\<forall>a \<ge> h_next h. h_cells h a = None)"

definition blocks_of :: "irc_addr_t list \<Rightarrow> addr list" where
  "blocks_of ts = concat (map (\<lambda>t. [t_addr t, t_block t]) ts)"

lemma blocks_simps [simp]: "blocks_of [] = []" "blocks_of (t # ts) = t_addr t # t_block t # blocks_of ts"
  by (simp_all add: blocks_of_def)

definition cells_without :: "addr list \<Rightarrow> heap \<Rightarrow> addr \<Rightarrow> string option" where
  "cells_without bs h = (\<lambda>a. if a \<in> set bs then None else h_cells h a)"

lemma free_entries_blocks:
  "distinct (blocks_of ts) \<Longrightarrow> \<forall>a \<in> set (blocks_of ts). h_cells h a \<noteq> None \<Longrightarrow>
     \<exists>h'. free_entries (map Some ts @ None # es) h = Inr h' \<and> h_cells h' = cells_without (blocks_of ts) h"
proof (induction ts arbitrary: h)
  case Nil
  show ?case by (simp add: cells_without_def)
next
  case (Cons t ts)
  let ?h = "h\<lparr>h_cells := (h_cells h)(t_addr t := None, t_block t := None)\<rparr>"
  have live: "\<forall>a \<in> set (blocks_of ts). h_cells ?h a \<noteq> None" using Cons.prems by auto
  from Cons.IH [OF _ live] Cons.prems(1) obtain h'
    where h': "free_entries (map Some ts @ None # es) ?h = Inr h'" "h_cells h' = cells_without (blocks_of ts) ?h"
    by auto
  have "free_entries (map Some (t # ts) @ None # es) h = Inr h'"
    using Cons.prems h'(1) by (auto simp: heap_free_def)
  moreover have "h_cells h' = cells_without (blocks_of (t # ts)) h"
    unfolding h'(2) by (auto simp: cells_without_def fun_eq_iff)
  ultimately show ?case by blast
qed

text \<open>What the filling loop adds to the heap and to the array.\<close>

definition filled :: "addrinfo list \<Rightarrow> irc_addr_t list \<Rightarrow> heap \<Rightarrow> heap \<Rightarrow> bool" where
  "filled ais ts h h' \<longleftrightarrow> map t_family ts = map ai_family ais \<and> map t_length ts = map (length \<circ> ai_addr) ais
     \<and> distinct (blocks_of ts) \<and> (\<forall>a \<in> set (blocks_of ts). h_next h \<le> a \<and> h_cells h' a \<noteq> None)
     \<and> cells_without (blocks_of ts) h' = h_cells h \<and> heap_fresh h' \<and> h_next h \<le> h_next h'"

lemma fill_addresses_filled:
  "list_all addrinfo_ok ais \<Longrightarrow> heap_fresh h \<Longrightarrow> k + length ais \<le> length entries \<Longrightarrow>
     \<exists>ts h'. fill_addresses ais k entries h = Inr (take k entries @ map Some ts @ drop (k + length ais) entries, h')
       \<and> filled ais ts h h'"
proof (induction ais arbitrary: k entries h)
  case Nil
  then show ?case by (intro exI [of _ "[]"] exI [of _ h]) (simp add: filled_def cells_without_def)
next
  case (Cons ai ais)
  let ?room = "sizeof_sockaddr (ai_family ai)"
  let ?bytes = "ai_addr ai @ replicate (?room - length (ai_addr ai)) NUL"
  let ?n = "h_next h"
  let ?h = "h\<lparr>h_next := Suc (Suc ?n), h_cells := (h_cells h)(?n \<mapsto> replicate 24 NUL, Suc ?n \<mapsto> ?bytes)\<rparr>"
  let ?t = "\<lparr>t_block = ?n, t_family = ai_family ai, t_socktype = ai_socktype ai, t_protocol = ai_protocol ai,
    t_length = length (ai_addr ai), t_addr = Suc ?n\<rparr>"
  have ok: "ai_family ai = AF_INET \<or> ai_family ai = AF_INET6" "length (ai_addr ai) \<le> ?room"
    using Cons.prems(1) by (auto simp: addrinfo_ok_def)
  have fresh: "heap_fresh ?h" using Cons.prems(2) by (simp add: heap_fresh_def)
  have k: "k < length entries" using Cons.prems(3) by simp
  have step: "fill_addresses (ai # ais) k entries h = fill_addresses ais (Suc k) (entries[k := Some ?t]) ?h"
    using ok k by (simp add: heap_alloc_def init_irc_addr_def Let_def)
  from Cons.IH [OF _ fresh, of "Suc k" "entries[k := Some ?t]"] Cons.prems obtain ts h'
    where f: "fill_addresses ais (Suc k) (entries[k := Some ?t]) ?h
        = Inr (take (Suc k) (entries[k := Some ?t]) @ map Some ts @ drop (Suc k + length ais) (entries[k := Some ?t]), h')"
      and fi: "filled ais ts ?h h'" by auto
  have new: "?n \<notin> set (blocks_of ts)" "Suc ?n \<notin> set (blocks_of ts)" using fi by (auto simp: filled_def)
  have cells: "cells_without (blocks_of ts) h' = h_cells ?h" using fi by (simp add: filled_def)
  have own: "h_cells h' ?n = h_cells ?h ?n" "h_cells h' (Suc ?n) = h_cells ?h (Suc ?n)"
    using new fun_cong [OF cells, of ?n] fun_cong [OF cells, of "Suc ?n"] by (auto simp: cells_without_def)
  have free: "h_cells h ?n = None" "h_cells h (Suc ?n) = None" using Cons.prems(2) by (auto simp: heap_fresh_def)
  have "cells_without (blocks_of (?t # ts)) h' = h_cells h"
  proof (rule ext)
    fix a
    show "cells_without (blocks_of (?t # ts)) h' a = h_cells h a"
      using free fun_cong [OF cells, of a] by (auto simp: cells_without_def split: if_splits)
  qed
  then have "filled (ai # ais) (?t # ts) h h'" using fi own new by (auto simp: filled_def)
  moreover have "take (Suc k) (entries[k := Some ?t]) = take k entries @ [Some ?t]"
    using k by (simp add: take_snoc_update)
  ultimately show ?case using f step by (intro exI [of _ "?t # ts"] exI [of _ h']) simp
qed

text \<open>C24: from an answer of the resolver an array with an address for each entry is built, in its order
  and with a \<open>NULL\<close> at the end, whose families are what the connection goes through; releasing it gives
  back every block, and no block twice.\<close>

theorem addresses_released:
  assumes "list_all addrinfo_ok result" and "result \<noteq> []" and "heap_fresh h"
  shows "\<exists>a h1 h2. resolve_hostname_by_dns (Some result) h = Inr ((Some a, length result), h1)
    \<and> families_of a = map ai_family result \<and> length (a_entries a) = length result + 1
    \<and> free_addresses a h1 = Inr h2 \<and> h_cells h2 = h_cells h"
proof -
  let ?n = "h_next h" and ?len = "length result"
  let ?h = "h\<lparr>h_next := Suc ?n, h_cells := (h_cells h)(?n \<mapsto> replicate (8 * (?len + 1)) NUL)\<rparr>"
  have fresh: "heap_fresh ?h" using assms(3) by (simp add: heap_fresh_def)
  have tail: "drop ?len (replicate (?len + 1) None) = [None :: irc_addr_t option]"
    unfolding drop_replicate by simp
  from fill_addresses_filled [OF assms(1) fresh, of 0 "replicate (?len + 1) None"] obtain ts h1
    where f0: "fill_addresses result 0 (replicate (?len + 1) None) ?h
        = Inr (take 0 (replicate (?len + 1) None) @ map Some ts @ drop (0 + ?len) (replicate (?len + 1) None), h1)"
      and fi: "filled result ts ?h h1" by fastforce
  have f: "fill_addresses result 0 (replicate (?len + 1) None) ?h = Inr (map Some ts @ [None], h1)"
    unfolding f0 by (simp only: take_0 append_Nil add_0 tail)
  let ?a = "\<lparr>a_block = ?n, a_entries = map Some ts @ [None]\<rparr>"
  have r: "resolve_hostname_by_dns (Some result) h = Inr ((Some ?a, ?len), h1)"
    using f assms(2) by (simp add: resolve_hostname_by_dns_def heap_alloc_def Let_def)
  have fam: "map t_family ts = map ai_family result" using fi by (simp add: filled_def)
  then have len: "length ts = ?len" by (metis length_map)
  have "takeWhile (\<lambda>e. e \<noteq> None) (map Some ts @ [None]) = map Some ts" by (simp add: takeWhile_append)
  with fam have families: "families_of ?a = map ai_family result" by (simp add: families_of_def comp_def)
  from free_entries_blocks [of ts h1 "[]"] fi obtain h'
    where h': "free_entries (map Some ts @ [None]) h1 = Inr h'" "h_cells h' = cells_without (blocks_of ts) h1"
    by (auto simp: filled_def)
  have cells: "h_cells h' = h_cells ?h" using h'(2) fi by (simp add: filled_def)
  have "h_cells h ?n = None" using assms(3) by (simp add: heap_fresh_def)
  then have "(h_cells ?h)(?n := None) = h_cells h" by (auto simp: fun_eq_iff)
  then have "\<exists>h2. free_addresses ?a h1 = Inr h2 \<and> h_cells h2 = h_cells h"
    using cells h'(1) by (auto simp: free_addresses_def heap_free_def)
  with r families len show ?thesis by force
qed

theorem addresses_released_witness:
  "\<exists>a h1 h2. resolve_hostname_by_dns (Some [\<lparr>ai_family = AF_INET, ai_socktype = 1, ai_protocol = 6, ai_addr = ''a''\<rparr>])
      \<lparr>h_next = 0, h_cells = Map.empty\<rparr> = Inr ((Some a, 1), h1)
    \<and> families_of a = [AF_INET] \<and> free_addresses a h1 = Inr h2 \<and> h_cells h2 = Map.empty"
  using addresses_released [of "[\<lparr>ai_family = AF_INET, ai_socktype = 1, ai_protocol = 6, ai_addr = ''a''\<rparr>]"
      "\<lparr>h_next = 0, h_cells = Map.empty\<rparr>"]
  by (auto simp: addrinfo_ok_def sizeof_sockaddr_def heap_fresh_def)

end
