(* ===== verification/Os_Windows.thy ===== *)
theory Os_Windows
  imports Irc_Connect
begin

text \<open>
  The Windows build's own functions, \<open>os_windows.c\<close>: the timer queue behind \<open>enableAlarm\<close>, the
  handlers, colours on the console, the home folder and the random numbers. What a function of Windows
  returns is an argument. Main results: the range of the random numbers and the one answer that breaks
  it, the timers that pile up while the alarm runs, and the second switch-off of the alarm, which uses a
  queue that no longer exists.
\<close>

section \<open>State\<close>

datatype win_fault = ExitWindows int | InvalidQueue | NullHandler | SignedOverflow

datatype timer_queue = NoQueue | QueueAlive | QueueDeleted

text \<open>The static variables, with the timers that the queue holds and those that have yet to fire;
  \<open>wo_output\<close> is the flag that \<open>output_handler\<close> sets.\<close>

record win_os =
  wo_gDoneEvent :: bool
  wo_hTimerQueue :: timer_queue
  wo_hTimer :: "nat option"
  wo_timers :: "nat list"
  wo_due :: "nat list"
  wo_next :: nat
  wo_interrupt_handler :: bool
  wo_alarm_handler :: bool
  wo_useColoredConsole :: bool
  wo_output :: bool

definition win_start :: win_os where
  "win_start = \<lparr>wo_gDoneEvent = False, wo_hTimerQueue = NoQueue, wo_hTimer = None, wo_timers = [], wo_due = [],
     wo_next = 0, wo_interrupt_handler = False, wo_alarm_handler = False, wo_useColoredConsole = False,
     wo_output = False\<rparr>"

section \<open>Handlers and the alarm\<close>

text \<open>\<open>called\<close> tells whether the handler of the program runs.\<close>

definition CtrlHandler :: "nat \<Rightarrow> win_os \<Rightarrow> bool \<times> bool" where
  "CtrlHandler fdwCtrlType w =
     (if fdwCtrlType = 0 then (let called = wo_interrupt_handler w in (called, True)) else (False, False))"

definition createInterruptHandler :: "win_os \<Rightarrow> win_os" where
  "createInterruptHandler w = w\<lparr>wo_interrupt_handler := True\<rparr>"

definition setup_timer_event :: "bool \<Rightarrow> bool \<Rightarrow> win_os \<Rightarrow> win_fault + win_os" where
  "setup_timer_event event_ok queue_ok w =
     (let w = w\<lparr>wo_gDoneEvent := event_ok\<rparr> in
      if \<not> event_ok then Inl (ExitWindows 1)
      else if \<not> queue_ok then Inl (ExitWindows 1) else Inr (w\<lparr>wo_hTimerQueue := QueueAlive\<rparr>))"

definition createAlarmHandler :: "bool \<Rightarrow> bool \<Rightarrow> win_os \<Rightarrow> win_fault + win_os" where
  "createAlarmHandler event_ok queue_ok w = setup_timer_event event_ok queue_ok (w\<lparr>wo_alarm_handler := True\<rparr>)"

text \<open>A timer fires once and stays in the queue; using a queue after its deletion is not defined.\<close>

definition create_timer_queue_timer :: "bool \<Rightarrow> bool \<Rightarrow> int \<Rightarrow> win_os \<Rightarrow> win_fault + win_os" where
  "create_timer_queue_timer ok1 ok2 seconds w =
     (if seconds > 0 then
        (if wo_hTimerQueue w = QueueDeleted then Inl InvalidQueue
         else if \<not> ok1 then Inl (ExitWindows 1)
         else (let t = wo_next w in
           Inr (w\<lparr>wo_hTimer := Some t, wo_timers := wo_timers w @ [t], wo_due := wo_due w @ [t], wo_next := Suc t\<rparr>)))
      else if seconds = 0 then
        (if wo_hTimerQueue w = QueueDeleted then Inl InvalidQueue
         else if \<not> ok1 then Inl (ExitWindows 1)
         else (let w = w\<lparr>wo_timers := filter (\<lambda>t. Some t \<noteq> wo_hTimer w) (wo_timers w),
                         wo_due := filter (\<lambda>t. Some t \<noteq> wo_hTimer w) (wo_due w)\<rparr> in
           if \<not> ok2 then Inl (ExitWindows 1)
           else Inr (w\<lparr>wo_hTimerQueue := QueueDeleted, wo_timers := [], wo_due := []\<rparr>)))
      else Inr w)"

definition enableAlarm :: "bool \<Rightarrow> bool \<Rightarrow> int \<Rightarrow> win_os \<Rightarrow> win_fault + win_os" where
  "enableAlarm ok1 ok2 seconds w = create_timer_queue_timer ok1 ok2 seconds w"

text \<open>\<open>output_handler\<close> of \<open>xdccget.c\<close>, which is the alarm handler: it sets the alarm again.\<close>

definition alarm_output_handler :: "bool \<Rightarrow> win_os \<Rightarrow> win_fault + win_os" where
  "alarm_output_handler ok w = and_then (enableAlarm ok True 1 w) (\<lambda>w. Inr (w\<lparr>wo_output := True\<rparr>))"

definition TimerRoutine :: "bool \<Rightarrow> bool \<Rightarrow> win_os \<Rightarrow> win_fault + win_os" where
  "TimerRoutine lpParam_null ok w =
     (if lpParam_null then Inr w
      else if \<not> wo_alarm_handler w then Inl NullHandler else alarm_output_handler ok w)"

text \<open>The first due timer fires.\<close>

definition timer_fires :: "win_os \<Rightarrow> win_fault + win_os" where
  "timer_fires w = (case wo_due w of [] \<Rightarrow> Inr w | t # ts \<Rightarrow> TimerRoutine False True (w\<lparr>wo_due := ts\<rparr>))"

fun ticks :: "nat \<Rightarrow> win_os \<Rightarrow> win_fault + win_os" where
  "ticks 0 w = Inr w"
| "ticks (Suc n) w = and_then (timer_fires w) (ticks n)"

text \<open>The program's start up to the main loop, with every call of Windows successful.\<close>

definition alarm_started :: win_os where
  "alarm_started = (case and_then (createAlarmHandler True True (createInterruptHandler win_start)) (enableAlarm True True 1) of
     Inr w \<Rightarrow> w | Inl _ \<Rightarrow> win_start)"

lemma alarm_started_eq: "alarm_started = win_start\<lparr>wo_gDoneEvent := True, wo_hTimerQueue := QueueAlive, wo_hTimer := Some 0,
    wo_timers := [0], wo_due := [0], wo_next := 1, wo_interrupt_handler := True, wo_alarm_handler := True\<rparr>"
  by (simp add: alarm_started_def createAlarmHandler_def setup_timer_event_def createInterruptHandler_def enableAlarm_def
      create_timer_queue_timer_def win_start_def)

definition ticking :: "nat \<Rightarrow> win_os \<Rightarrow> bool" where
  "ticking n w \<longleftrightarrow> wo_hTimerQueue w = QueueAlive \<and> wo_alarm_handler w \<and> wo_timers w = [0..<Suc n]
     \<and> wo_due w = [n] \<and> wo_hTimer w = Some n \<and> wo_next w = Suc n"

lemma ticking_step: "ticking n w \<Longrightarrow> \<exists>v. timer_fires w = Inr v \<and> ticking (Suc n) v \<and> wo_output v"
  by (simp add: ticking_def timer_fires_def TimerRoutine_def alarm_output_handler_def enableAlarm_def
      create_timer_queue_timer_def)

lemma ticking_ticks: "ticking n w \<Longrightarrow> \<exists>v. ticks k w = Inr v \<and> ticking (n + k) v"
proof (induction k arbitrary: n w)
  case (Suc k)
  from ticking_step [OF Suc.prems] obtain v where "timer_fires w = Inr v" "ticking (Suc n) v" by blast
  with Suc.IH [of "Suc n" v] show ?case by simp
qed simp

text \<open>While the alarm runs there is always one timer to come, so every second the line of progress is
  asked for; but no timer is ever removed, and after \<open>n\<close> seconds the queue holds \<open>n + 1\<close> of them. The
  first finished file deletes the queue; the next change of the alarm, as at the end of a second file,
  uses the deleted queue.\<close>

theorem alarm_timers_pile_up:
  "\<exists>w v. ticks n alarm_started = Inr w \<and> length (wo_timers w) = n + 1 \<and> length (wo_due w) = 1
     \<and> enableAlarm True True 0 w = Inr v \<and> wo_timers v = []
     \<and> (\<forall>ok1 ok2 seconds. 0 \<le> seconds \<longrightarrow> enableAlarm ok1 ok2 seconds v = Inl InvalidQueue)"
proof -
  have "ticking 0 alarm_started" by (simp add: ticking_def alarm_started_eq win_start_def)
  from ticking_ticks [OF this, of n] obtain w where w: "ticks n alarm_started = Inr w" "ticking n w" by auto
  let ?v = "w\<lparr>wo_hTimerQueue := QueueDeleted, wo_timers := [], wo_due := []\<rparr>"
  have "enableAlarm True True 0 w = Inr ?v"
    using w(2) by (simp add: ticking_def enableAlarm_def create_timer_queue_timer_def)
  moreover have "enableAlarm ok1 ok2 seconds ?v = Inl InvalidQueue" if "0 \<le> seconds" for ok1 ok2 seconds
    using that by (simp add: enableAlarm_def create_timer_queue_timer_def)
  ultimately show ?thesis using w by (auto simp: ticking_def)
qed

theorem alarm_timers_pile_up_witness:
  "\<exists>w v. ticks 3 alarm_started = Inr w \<and> length (wo_timers w) = 4 \<and> enableAlarm True True 0 w = Inr v
     \<and> enableAlarm True True 0 v = Inl InvalidQueue"
proof -
  obtain w v where "ticks 3 alarm_started = Inr w" "length (wo_timers w) = 3 + 1" "enableAlarm True True 0 w = Inr v"
    and q: "\<forall>ok1 ok2 seconds. 0 \<le> seconds \<longrightarrow> enableAlarm ok1 ok2 seconds v = Inl InvalidQueue"
    using alarm_timers_pile_up [of 3] by blast
  moreover have "enableAlarm True True 0 v = Inl InvalidQueue" using q by blast
  ultimately show ?thesis by force
qed

section \<open>Random numbers\<close>

text \<open>\<open>long\<close> has 32 bits. The answer of \<open>BCryptGenRandom\<close> is any word; the negation of the smallest
  number is not defined.\<close>

definition rand_range_windows :: "(32 word) option \<Rightarrow> int \<Rightarrow> int \<Rightarrow> win_fault + int" where
  "rand_range_windows answer low high =
     (if high = 0 then Inr 0
      else (case answer of
          None \<Rightarrow> Inl (ExitWindows 1)
        | Some r \<Rightarrow>
            (let randomNumber = sint r in
             and_then (if randomNumber < 0
                 then (if randomNumber = - (2 ^ 31) then Inl SignedOverflow else Inr (randomNumber * -1))
                 else Inr randomNumber)
               (\<lambda>randomNumber. Inr (randomNumber mod \<bar>high\<bar> + low)))))"

definition initRand_windows :: "win_os \<Rightarrow> win_os" where
  "initRand_windows w = w"

text \<open>The Windows version of \<open>rand_range\<close> gives a number from \<open>low\<close> on and below \<open>low + high\<close>, the same
  as the other version for the absolute value of the random word, for every word but the smallest
  one, where it is not defined.\<close>

theorem rand_range_windows_range:
  assumes "0 < high"
  shows "rand_range_windows (Some r) low high =
    (if sint r = - (2 ^ 31) then Inl SignedOverflow else Inr (rand_range (nat \<bar>sint r\<bar>) low high))
    \<and> (sint r \<noteq> - (2 ^ 31) \<longrightarrow> (\<exists>v. rand_range_windows (Some r) low high = Inr v \<and> low \<le> v \<and> v < low + high))"
proof -
  have "rand_range_windows (Some r) low high =
    (if sint r = - (2 ^ 31) then Inl SignedOverflow else Inr (rand_range (nat \<bar>sint r\<bar>) low high))"
    using assms by (auto simp: rand_range_windows_def rand_range_def Let_def)
  moreover have "low \<le> rand_range k low high \<and> rand_range k low high < low + high" for k
    using assms by (simp add: rand_range_def)
  ultimately show ?thesis by auto
qed

theorem rand_range_windows_range_witness:
  "rand_range_windows (Some (-7)) 10 5 = Inr 12 \<and> rand_range_windows (Some (2 ^ 31)) 10 5 = Inl SignedOverflow"
  using rand_range_windows_range [of 5 "-7" 10] rand_range_windows_range [of 5 "2 ^ 31" 10]
  by (simp add: rand_range_def)

section \<open>Console and folders\<close>

definition getWindowsVersion :: "nat option \<Rightarrow> nat" where
  "getWindowsVersion dwMajorVersion = (case dwMajorVersion of None \<Rightarrow> 0 | Some v \<Rightarrow> v)"

definition ENABLE_VIRTUAL_TERMINAL_PROCESSING :: "32 word" where
  "ENABLE_VIRTUAL_TERMINAL_PROCESSING = 4"

text \<open>The handle, the console's mode and whether the new one is accepted; \<open>err\<close> is \<open>GetLastError\<close>. The
  result has the mode that is set.\<close>

definition enableAnsiColorCodes ::
  "nat option \<Rightarrow> bool \<Rightarrow> (32 word) option \<Rightarrow> bool \<Rightarrow> int \<Rightarrow> win_os \<Rightarrow> win_fault + win_os \<times> (32 word) option" where
  "enableAnsiColorCodes version handle_ok console_mode set_ok err w =
     (if getWindowsVersion version \<ge> 10 then
        (if \<not> handle_ok then Inl (ExitWindows err)
         else (case console_mode of
             None \<Rightarrow> Inl (ExitWindows err)
           | Some outMode \<Rightarrow>
               (let outMode = or outMode ENABLE_VIRTUAL_TERMINAL_PROCESSING in
                if \<not> set_ok then Inl (ExitWindows err)
                else Inr (w\<lparr>wo_useColoredConsole := True\<rparr>, Some outMode))))
      else Inr (w, None))"

definition shouldColorOutput :: "win_os \<Rightarrow> bool" where
  "shouldColorOutput w = wo_useColoredConsole w"

definition getPathSeperator_windows :: string where
  "getPathSeperator_windows = [char_of (92 :: nat)]"

text \<open>No folder is \<open>NULL\<close>.\<close>

definition getHomeDir_windows :: "string option \<Rightarrow> string option" where
  "getHomeDir_windows folder = folder"

text \<open>Output that does not go to a console has no mode, and ends the program before it does anything.\<close>

lemma redirected_output_exits:
  "10 \<le> v \<Longrightarrow> enableAnsiColorCodes (Some v) True None set_ok err w = Inl (ExitWindows err)"
  by (simp add: enableAnsiColorCodes_def getWindowsVersion_def)

end
