(* ===== verification/Config_File.thy ===== *)
theory Config_File
  imports Download
begin

text \<open>
  The configuration file on the disk, \<open>config.c\<close>: its place, writing the default one, and reading it
  back through the text reader of \<open>helper.c\<close>. \<open>Settings\<close> has the meaning of a text; here the text comes
  from the files. Main result: with calls of the system that succeed, the program starts with the meaning
  of the file that is there, or else with the one of the default text, which is on the disk afterwards.
\<close>

section \<open>Operations\<close>

definition getConfigDirectory :: "string \<Rightarrow> string" where
  "getConfigDirectory home = home @ ''/'' @ ''.xdccget'' @ ''/''"

definition config_path :: "string \<Rightarrow> string" where
  "config_path home = getConfigDirectory home @ ''config''"

definition writeDefaultConfigFile :: "string \<Rightarrow> app_world \<Rightarrow> stop + app_world" where
  "writeDefaultConfigFile home w =
     (let content = getDefaultConfigContent home in
      and_then (file_Open (config_path home) ModeWrite w) (\<lambda>(f, w).
      case os_ret w of (written, w) \<Rightarrow>
        if written < 0 then Inl (exitPgm EXIT_FAILURE w)
        else (let w = on_app (\<lambda>a. a\<lparr>a_files := (a_files a)(f_path f \<mapsto>
                    write_at (file_content w (f_path f)) (f_pos f) content)\<rparr>) w in
              case os_ret w of (closed, w) \<Rightarrow>
                if closed < 0 then Inl (exitPgm EXIT_FAILURE w) else Inr w)))"

text \<open>A folder that cannot be made is only reported.\<close>

definition createDefaultConfigFile :: "string \<Rightarrow> app_world \<Rightarrow> stop + app_world" where
  "createDefaultConfigFile home w =
     (let configDir = getConfigDirectory home;
          w = (if \<not> dir_exists w configDir
               then (case os_ret w of (r, w) \<Rightarrow>
                  if r = -1 then w else on_app (\<lambda>a. a\<lparr>a_dirs := (a_dirs a)(configDir := True)\<rparr>) w)
               else w) in
      writeDefaultConfigFile home w)"

text \<open>\<open>parseConfigFile\<close>. The text reader always returns.\<close>

definition load_config_file :: "string \<Rightarrow> app_world \<Rightarrow> stop + app_world" where
  "load_config_file home w =
     and_then (if \<not> file_exists w (config_path home) then createDefaultConfigFile home w else Inr w) (\<lambda>w.
     and_then (readTextFile (config_path home) w) (\<lambda>(content, w).
     and_then (parseConfigString (w_cfg w) (case content of Some t \<Rightarrow> t | None \<Rightarrow> [])) (\<lambda>c.
       Inr (w\<lparr>w_cfg := c\<rparr>))))"

section \<open>The text reader\<close>

lemma text_pieces:
  "is_cstr (file_content w (f_path f)) \<Longrightarrow>
     read_pieces TextReaderCallback f w ctx = Some (ctx @ drop (f_pos f) (file_content w (f_path f)))"
proof (induction "length (file_content w (f_path f)) - f_pos f" arbitrary: f ctx rule: less_induct)
  case less
  let ?t = "file_content w (f_path f)"
  let ?xs = "take FILE_READ_BUFFER_SIZE (drop (f_pos f) ?t)"
  let ?f = "f\<lparr>f_pos := f_pos f + length ?xs\<rparr>"
  have c: "is_cstr ?xs" "is_cstr (drop (f_pos f) ?t)"
    using less.prems by (auto simp: is_cstr_def dest: in_set_takeD in_set_dropD)
  have step: "read_pieces TextReaderCallback f w ctx
      = (if length ?xs = FILE_READ_BUFFER_SIZE then read_pieces TextReaderCallback ?f w (ctx @ ?xs) else Some (ctx @ ?xs))"
    by (subst read_pieces.simps) (simp add: file_Read_def Let_def TextReaderCallback_def c [THEN cstr_id])
  show ?case
  proof (cases "length ?xs = FILE_READ_BUFFER_SIZE")
    case True
    then have more: "length ?t - f_pos ?f < length ?t - f_pos f" by (simp add: FILE_READ_BUFFER_SIZE_def)
    have "read_pieces TextReaderCallback ?f w (ctx @ ?xs) = Some ((ctx @ ?xs) @ drop (f_pos ?f) ?t)"
      using less.hyps [of ?f] more less.prems by simp
    moreover have "?xs @ drop (f_pos ?f) ?t = drop (f_pos f) ?t"
      using True by (simp add: add.commute flip: drop_drop)
    ultimately show ?thesis using step True by simp
  next
    case False
    then have "?xs = drop (f_pos f) ?t" by (simp add: min_def split: if_splits)
    with step False show ?thesis by simp
  qed
qed

text \<open>Calls that succeed.\<close>

definition calls_succeed :: "nat \<Rightarrow> 'a world \<Rightarrow> bool" where
  "calls_succeed n w \<longleftrightarrow> n \<le> length (os_rets (w_os w)) \<and> list_all (\<lambda>r. r = 0) (os_rets (w_os w))"

lemma call_succeeds:
  "calls_succeed (Suc n) w \<Longrightarrow> \<exists>v. os_ret w = (0, v) \<and> calls_succeed n v \<and> w_app v = w_app w \<and> w_cfg v = w_cfg w"
  by (cases "os_rets (w_os w)") (auto simp: calls_succeed_def os_ret_def)

lemma calls_on_app [simp]: "calls_succeed n (on_app f w) = calls_succeed n w"
  by (simp add: calls_succeed_def)

lemma readTextFile_content:
  assumes "calls_succeed (Suc (Suc n)) w" and "a_files (w_app w) p = Some t" and "is_cstr t"
  shows "\<exists>v. readTextFile p w = Inr (Some t, v) \<and> calls_succeed n v \<and> w_cfg v = w_cfg w
    \<and> a_files (w_app v) = a_files (w_app w)"
proof -
  from call_succeeds [OF assms(1)] obtain u where u: "os_ret w = (0, u)" "calls_succeed (Suc n) u"
    "w_app u = w_app w" "w_cfg u = w_cfg w" by blast
  let ?u = "on_app (\<lambda>a. a\<lparr>a_files := (a_files a)(p \<mapsto> t)\<rparr>) u"
  let ?f = "\<lparr>f_path = p, f_append = False, f_pos = 0\<rparr>"
  have "calls_succeed (Suc n) ?u" using u(2) by simp
  from call_succeeds [OF this] obtain v where v: "os_ret ?u = (0, v)" "calls_succeed n v"
    "w_app v = w_app ?u" "w_cfg v = w_cfg ?u" by blast
  have o: "file_Open p ModeRead w = Inr (?f, ?u)" using u assms(2) by (simp add: file_Open_def)
  have "file_content ?u p = t" by (simp add: file_content_def)
  then have "read_pieces TextReaderCallback ?f ?u [] = Some t" using text_pieces [of ?u ?f "[]"] assms(3) by simp
  then have "readTextFile p w = Inr (Some t, v)" using o v(1) by (simp add: readTextFile_def readFile_def Let_def)
  moreover have "a_files (w_app v) = a_files (w_app w)" using v(3) u(3) assms(2) by (simp add: fun_upd_idem)
  ultimately show ?thesis using v u(4) by auto
qed

lemma writeDefaultConfigFile_content:
  assumes "calls_succeed (Suc (Suc (Suc n))) w"
  shows "\<exists>v. writeDefaultConfigFile home w = Inr v \<and> calls_succeed n v \<and> w_cfg v = w_cfg w
    \<and> a_files (w_app v) = (a_files (w_app w))(config_path home \<mapsto> getDefaultConfigContent home)"
proof -
  let ?p = "config_path home" and ?t = "getDefaultConfigContent home"
  from call_succeeds [OF assms] obtain u where u: "os_ret w = (0, u)" "calls_succeed (Suc (Suc n)) u"
    "w_app u = w_app w" "w_cfg u = w_cfg w" by blast
  let ?u = "on_app (\<lambda>a. a\<lparr>a_files := (a_files a)(?p \<mapsto> [])\<rparr>) u"
  have "calls_succeed (Suc (Suc n)) ?u" using u(2) by simp
  from call_succeeds [OF this] obtain v where v: "os_ret ?u = (0, v)" "calls_succeed (Suc n) v"
    "w_app v = w_app ?u" "w_cfg v = w_cfg ?u" by blast
  let ?v = "on_app (\<lambda>a. a\<lparr>a_files := (a_files a)(?p \<mapsto> ?t)\<rparr>) v"
  have "calls_succeed (Suc n) ?v" using v(2) by simp
  from call_succeeds [OF this] obtain x where x: "os_ret ?v = (0, x)" "calls_succeed n x"
    "w_app x = w_app ?v" "w_cfg x = w_cfg ?v" by blast
  have o: "file_Open ?p ModeWrite w = Inr (\<lparr>f_path = ?p, f_append = False, f_pos = 0\<rparr>, ?u)"
    using u by (simp add: file_Open_def)
  have "write_at (file_content v ?p) 0 ?t = ?t" using v(3) by (simp add: file_content_def write_at_def)
  then have "writeDefaultConfigFile home w = Inr x"
    unfolding writeDefaultConfigFile_def Let_def o using v(1) x(1) by simp
  then show ?thesis using x v u by auto
qed

lemma createDefaultConfigFile_content:
  assumes "calls_succeed (Suc (Suc (Suc (Suc n)))) w"
  shows "\<exists>v. createDefaultConfigFile home w = Inr v \<and> calls_succeed n v \<and> w_cfg v = w_cfg w
    \<and> a_files (w_app v) = (a_files (w_app w))(config_path home \<mapsto> getDefaultConfigContent home)"
proof (cases "dir_exists w (getConfigDirectory home)")
  case True
  have "calls_succeed (Suc (Suc (Suc n))) w" using assms by (simp add: calls_succeed_def)
  from writeDefaultConfigFile_content [OF this] True show ?thesis by (simp add: createDefaultConfigFile_def)
next
  case False
  from call_succeeds [OF assms] obtain u where u: "os_ret w = (0, u)" "calls_succeed (Suc (Suc (Suc n))) u"
    "w_app u = w_app w" "w_cfg u = w_cfg w" by blast
  let ?u = "on_app (\<lambda>a. a\<lparr>a_dirs := (a_dirs a)(getConfigDirectory home := True)\<rparr>) u"
  have "calls_succeed (Suc (Suc (Suc n))) ?u" using u(2) by simp
  from writeDefaultConfigFile_content [OF this] u False show ?thesis
    by (simp add: createDefaultConfigFile_def Let_def)
qed

text \<open>C18: starting with the configuration on the disk does what the meaning of the text says: the one of
  the file if there is one, otherwise the one of the default text. No other file changes, and the file
  that was missing is there afterwards.\<close>

theorem load_config_file_effect:
  assumes "calls_succeed 6 w" and "is_cstr home"
    and "\<And>t. a_files (w_app w) (config_path home) = Some t \<Longrightarrow> is_cstr t"
  shows "case parseConfigFile home (a_files (w_app w) (config_path home)) (w_cfg w) of
      Inl e \<Rightarrow> load_config_file home w = Inl e
    | Inr c \<Rightarrow> \<exists>v. load_config_file home w = Inr v \<and> w_cfg v = c
        \<and> a_files (w_app v) = (if a_files (w_app w) (config_path home) = None
            then (a_files (w_app w))(config_path home \<mapsto> getDefaultConfigContent home) else a_files (w_app w))"
proof -
  let ?p = "config_path home"
  let ?t = "case a_files (w_app w) ?p of None \<Rightarrow> getDefaultConfigContent home | Some t \<Rightarrow> t"
  have t: "is_cstr ?t"
    using assms(2,3) by (auto simp: getDefaultConfigContent_def line_of_def cstr_simps split: option.splits)
  have six: "calls_succeed (Suc (Suc (Suc (Suc 2)))) w" using assms(1) by (simp add: numeral_eq_Suc)
  have "\<exists>u. (if \<not> file_exists w ?p then createDefaultConfigFile home w else Inr w) = Inr u
    \<and> calls_succeed 2 u \<and> w_cfg u = w_cfg w \<and> a_files (w_app u) = (a_files (w_app w))(?p \<mapsto> ?t)"
  proof (cases "a_files (w_app w) ?p")
    case None
    with createDefaultConfigFile_content [OF six, of home] show ?thesis by (auto simp: file_exists_def)
  next
    case (Some t)
    then show ?thesis using assms(1) by (auto simp: file_exists_def calls_succeed_def fun_upd_idem)
  qed
  then obtain u where u: "(if \<not> file_exists w ?p then createDefaultConfigFile home w else Inr w) = Inr u"
    "calls_succeed 2 u" "w_cfg u = w_cfg w" "a_files (w_app u) = (a_files (w_app w))(?p \<mapsto> ?t)" by blast
  have "calls_succeed (Suc (Suc 0)) u" using u(2) by (simp add: numeral_eq_Suc)
  from readTextFile_content [OF this, of ?p ?t] u(4) t obtain v
    where v: "readTextFile ?p u = Inr (Some ?t, v)" "w_cfg v = w_cfg u" "a_files (w_app v) = a_files (w_app u)"
    by auto
  have "load_config_file home w = and_then (parseConfigString (w_cfg w) ?t) (\<lambda>c. Inr (v\<lparr>w_cfg := c\<rparr>))"
    unfolding load_config_file_def u(1) and_then.simps v(1) using v(2) u(3) by simp
  moreover have "parseConfigFile home (a_files (w_app w) ?p) (w_cfg w) = parseConfigString (w_cfg w) ?t"
    by (simp add: parseConfigFile_def)
  ultimately show ?thesis
    using v(3) u(4) by (auto split: sum.splits option.splits simp: fun_upd_idem)
qed

definition first_start :: app_world where
  "first_start = (fresh_world irc_create_session zero_config (initial_app 0))
     \<lparr>w_os := \<lparr>os_rets = [0, 0, 0, 0, 0, 0], os_reads = [], os_writes = [], os_handshake = [], os_pending = [],
        os_ready = [], os_watch = [], os_sent = [], os_time = 0\<rparr>\<rparr>"

theorem load_config_file_effect_witness:
  "\<exists>v. load_config_file ''/home/me'' first_start = Inr v \<and> c_targetDir (w_cfg v) = Some ''/home/me/Downloads''
     \<and> a_files (w_app v) ''/home/me/.xdccget/config'' = Some (getDefaultConfigContent ''/home/me'')"
proof -
  have ok: "calls_succeed 6 first_start" "is_cstr ''/home/me''"
    by (simp_all add: calls_succeed_def first_start_def is_cstr_def)
  have none: "a_files (w_app first_start) = (\<lambda>p. None)" "w_cfg first_start = zero_config"
    by (simp_all add: first_start_def fresh_world_def initial_app_def)
  obtain c where c: "parseConfigFile ''/home/me'' None zero_config = Inr c" "c_targetDir c = Some ''/home/me/Downloads''"
    using default_config_effect [of "''/home/me''" zero_config]
    by (simp add: is_cstr_def trimmed_def in_cset_def cstr_def tab_def cfg_set_bit_def cfg_clear_bit_def)
  have p: "config_path ''/home/me'' = ''/home/me/.xdccget/config''"
    by (simp add: config_path_def getConfigDirectory_def)
  from load_config_file_effect [OF ok] show ?thesis using c by (auto simp: none p)
qed

section \<open>The configuration the program runs with\<close>

text \<open>What the options and the settings leave alone: nothing but \<open>main\<close> fills the lists, and the
  download folder, once set, can only be replaced.\<close>

definition lists_empty :: "xdccGetConfig \<Rightarrow> bool" where
  "lists_empty c \<longleftrightarrow> c_targetDir c \<noteq> None \<and> c_dccDownloadArray c = [] \<and> c_numDownloads c = 0
     \<and> c_channelsToJoin c = [] \<and> c_numChannels c = 0"

lemma lists_empty_bits [simp]:
  "lists_empty (cfg_set_bit c n) = lists_empty c" "lists_empty (cfg_clear_bit c n) = lists_empty c"
  by (simp_all add: lists_empty_def cfg_set_bit_def cfg_clear_bit_def)

lemma lists_empty_speed [simp]: "lists_empty (setMaxTransferSpeed c v) = lists_empty c"
  by (auto simp: lists_empty_def setMaxTransferSpeed_def Let_def split: option.splits prod.splits scan_value.splits)

lemma lists_empty_delay [simp]: "lists_empty (setDelay now c v) = lists_empty c"
  by (simp add: lists_empty_def setDelay_def Let_def)

lemma lists_empty_fields [simp]:
  "lists_empty (c\<lparr>c_logLevel := l\<rparr>) = lists_empty c" "lists_empty (c\<lparr>c_nick := n\<rparr>) = lists_empty c"
  "lists_empty (c\<lparr>c_login_command := n\<rparr>) = lists_empty c" "lists_empty (c\<lparr>c_port := p\<rparr>) = lists_empty c"
  "lists_empty (c\<lparr>c_listen_ip := n\<rparr>) = lists_empty c" "lists_empty (c\<lparr>c_listen_port := p\<rparr>) = lists_empty c"
  "lists_empty (c\<lparr>c_args := a\<rparr>) = lists_empty c"
  "lists_empty c \<Longrightarrow> lists_empty (c\<lparr>c_targetDir := Some d\<rparr>)"
  by (simp_all add: lists_empty_def)

lemmas config_steps = verifyChecksumsCallback_def allowAllCertsCallback_def downloadDirCallback_def
  confirmFileOffsetsCallback_def maxTransferSpeedCallback_def listenIpCallback_def listenPortCallback_def parseLogLevel_def

lemma callback_keeps:
  "(name, f) \<in> set configLineCallbacks \<Longrightarrow> lists_empty c \<Longrightarrow> f c value = Inr c' \<Longrightarrow> lists_empty c'"
  by (auto simp: configLineCallbacks_def config_steps split: if_splits)

lemma callbacks_keep:
  "set cbs \<subseteq> set configLineCallbacks \<Longrightarrow> lists_empty c \<Longrightarrow> apply_callbacks cbs t v c = Inr c' \<Longrightarrow> lists_empty c'"
  by (induction cbs t v c rule: apply_callbacks.induct) (auto simp: fault_simps split: if_splits intro: callback_keeps)

lemma parseConfigLine_keeps: "lists_empty c \<Longrightarrow> parseConfigLine c l = Inr c' \<Longrightarrow> lists_empty c'"
  by (auto simp: parseConfigLine_def fault_simps split: option.splits intro: callbacks_keep [OF subset_refl])

lemma parse_lines_keep: "lists_empty c \<Longrightarrow> parse_lines ls c = Inr c' \<Longrightarrow> lists_empty c'"
  by (induction ls c rule: parse_lines.induct)
    (auto simp: fault_simps Let_def split: if_splits intro: parseConfigLine_keeps)

lemma parseConfigString_keeps: "lists_empty c \<Longrightarrow> parseConfigString c t = Inr c' \<Longrightarrow> lists_empty c'"
  by (auto simp: parseConfigString_def fault_simps split: option.splits intro: parse_lines_keep)

lemma parseConfigFile_keeps: "lists_empty c \<Longrightarrow> parseConfigFile home file c = Inr c' \<Longrightarrow> lists_empty c'"
  by (simp add: parseConfigFile_def parseConfigString_keeps)

lemma parse_opt_keeps: "lists_empty c \<Longrightarrow> parse_opt now k c = Inr c' \<Longrightarrow> lists_empty c'"
  by (cases k)
    (auto simp: set_quiet_loglevel_def set_info_loglevel_def set_warn_loglevel_def set_target_dir_def
      set_nickname_def set_login_command_def set_port_def set_listen_port_def set_listen_ip_def
      set_verify_checksum_def set_accept_all_nicks_def set_accept_all_certs_def set_dont_confirm_offsets_def
      set_use_ipv4_def set_use_ipv6_def set_throttle_download_def set_delay_command_def split: if_splits)

lemma argp_parse_keeps: "lists_empty c \<Longrightarrow> argp_parse now n items c = Inr c' \<Longrightarrow> lists_empty c'"
proof (induction now n items c rule: argp_parse.induct)
  case (1 now n c)
  then show ?case by (simp split: if_splits)
next
  case (2 now n k items c)
  from "2.prems" obtain d where "parse_opt now k c = Inr d" "argp_parse now n items d = Inr c'" by (auto simp: fault_simps)
  then show ?case using "2.IH" parse_opt_keeps "2.prems"(1) by blast
next
  case (3 now n a items c)
  from "3.prems" obtain d where "parse_opt now (ARGP_KEY_ARG n a) c = Inr d" "argp_parse now (Suc n) items d = Inr c'"
    by (auto simp: fault_simps simp del: parse_opt.simps)
  then show ?case using "3.IH" parse_opt_keeps "3.prems"(1) by blast
qed

text \<open>A configuration that the session can be started with: no pointer the program follows later is
  \<open>NULL\<close>, and the counts are those of the lists.\<close>

definition config_started :: "xdccGetConfig \<Rightarrow> bool" where
  "config_started c \<longleftrightarrow> c_ircServer c \<noteq> None \<and> c_nick c \<noteq> None \<and> c_targetDir c \<noteq> None
     \<and> None \<notin> set (c_args c) \<and> length (c_args c) = 3 \<and> c_ircServer c = c_args c ! 0
     \<and> c_numDownloads c = length (c_dccDownloadArray c) \<and> c_numChannels c = length (c_channelsToJoin c)"

text \<open>\<open>main\<close> behind the configuration file: the options, the three arguments and the lists in them, the nick.\<close>

definition main_arguments :: "nat \<Rightarrow> arg_item list \<Rightarrow> string \<Rightarrow> xdccGetConfig \<Rightarrow> stop + xdccGetConfig" where
  "main_arguments now items nick c =
     and_then (parseArguments now items c) (\<lambda>c.
     case c_args c of
       [Some server, Some channels, Some bots] \<Rightarrow>
         and_then (parseChannels channels) (\<lambda>chs.
         and_then (parseDccDownloads bots) (\<lambda>ds.
         let c = c\<lparr>c_ircServer := Some server\<rparr>;
             c = (case chs of None \<Rightarrow> c | Some l \<Rightarrow> c\<lparr>c_channelsToJoin := l, c_numChannels := length l\<rparr>);
             c = (case ds of None \<Rightarrow> c | Some (l, n) \<Rightarrow> c\<lparr>c_dccDownloadArray := l, c_numDownloads := n\<rparr>) in
         Inr (if c_nick c = None then c\<lparr>c_nick := Some nick\<rparr> else c)))
     | _ \<Rightarrow> Inl NullDeref)"

lemma main_config_split:
  "main_config home file now items nick = and_then (parseConfigFile home file (default_config home)) (\<lambda>c. main_arguments now items nick c)"
  by (simp only: main_config_def main_arguments_def)

lemma main_arguments_started:
  assumes "lists_empty d" and "main_arguments now items nick d = Inr c"
  shows "config_started c"
proof -
  from assms(2) obtain e where e: "parseArguments now items d = Inr e"
    and rest: "(case c_args e of
       [Some server, Some channels, Some bots] \<Rightarrow>
         and_then (parseChannels channels) (\<lambda>chs.
         and_then (parseDccDownloads bots) (\<lambda>ds.
         let c = e\<lparr>c_ircServer := Some server\<rparr>;
             c = (case chs of None \<Rightarrow> c | Some l \<Rightarrow> c\<lparr>c_channelsToJoin := l, c_numChannels := length l\<rparr>);
             c = (case ds of None \<Rightarrow> c | Some (l, n) \<Rightarrow> c\<lparr>c_dccDownloadArray := l, c_numDownloads := n\<rparr>) in
         Inr (if c_nick c = None then c\<lparr>c_nick := Some nick\<rparr> else c)))
     | _ \<Rightarrow> Inl NullDeref) = Inr c"
    unfolding main_arguments_def fault_simps by blast
  have le: "lists_empty e" using argp_parse_keeps [OF assms(1)] e by (simp add: parseArguments_def)
  obtain server channels bots where args: "c_args e = [Some server, Some channels, Some bots]"
    using rest by (auto split: list.splits option.splits)
  from rest obtain chs ds where ds: "parseDccDownloads bots = Inr ds"
    and c: "c = (let c = e\<lparr>c_ircServer := Some server\<rparr>;
             c = (case chs of None \<Rightarrow> c | Some l \<Rightarrow> c\<lparr>c_channelsToJoin := l, c_numChannels := length l\<rparr>);
             c = (case ds of None \<Rightarrow> c | Some (l, n) \<Rightarrow> c\<lparr>c_dccDownloadArray := l, c_numDownloads := n\<rparr>) in
         if c_nick c = None then c\<lparr>c_nick := Some nick\<rparr> else c)"
    by (auto simp: args fault_simps Let_def)
  have n: "n = length l" if "ds = Some (l, n)" for l n
    using ds that by (auto simp: parseDccDownloads_def fault_simps)
  show ?thesis
    using le args n by (auto simp: c config_started_def lists_empty_def Let_def split: option.splits)
qed

text \<open>C19: whenever \<open>main\<close> gets as far as creating the session, whatever is in the configuration file and
  on the command line, its configuration is well formed: server, nick, target folder and the three
  arguments are there, and the counts of downloads and channels are the lengths of their lists.\<close>

theorem main_config_started:
  assumes "main_config home file now items nick = Inr c"
  shows "config_started c"
proof -
  have start: "lists_empty (default_config home)" by (simp add: lists_empty_def default_config_def zero_config_def)
  from assms obtain d where "parseConfigFile home file (default_config home) = Inr d" "main_arguments now items nick d = Inr c"
    by (auto simp: main_config_split fault_simps)
  then show ?thesis using main_arguments_started parseConfigFile_keeps [OF start] by blast
qed

theorem main_config_started_witness:
  "\<exists>c. main_config ''/home/me'' (Some []) 0 [Arg ''irc.net'', Opt Key_4, Arg ''#a,#b'', Arg ''bot xdcc send #1''] ''nick'' = Inr c
     \<and> config_started c"
proof -
  have "\<not> isl (main_config ''/home/me'' (Some []) 0 [Arg ''irc.net'', Opt Key_4, Arg ''#a,#b'', Arg ''bot xdcc send #1''] ''nick'')"
    by code_simp
  then obtain c where "main_config ''/home/me'' (Some []) 0 [Arg ''irc.net'', Opt Key_4, Arg ''#a,#b'', Arg ''bot xdcc send #1''] ''nick'' = Inr c"
    unfolding isl_def by (metis sum.exhaust)
  with main_config_started [OF this] show ?thesis by blast
qed

end
