(* ===== verification/Md5_Narrow.thy ===== *)
theory Md5_Narrow
  imports Checksum
begin

text \<open>
  MD5 built without a 64-bit integer type: the branches of \<open>md_helper.c\<close> and \<open>sph_md5.c\<close> for \<open>SPH_64 = 0\<close>, in
  which the number of bytes is kept in two words of 32 bits with the carry written out. They are a
  refinement of the branches with one word of 64 bits.
\<close>

section \<open>Context and counter\<close>

record narrow_context =
  nw_buf :: "byte list"
  nw_val :: md5_state
  nw_count_high :: word32
  nw_count_low :: word32

definition narrow_init :: "narrow_context \<Rightarrow> narrow_context" where
  "narrow_init sc = sc\<lparr>nw_val := md5_IV, nw_count_high := 0, nw_count_low := 0\<rparr>"

definition nw_current :: "narrow_context \<Rightarrow> nat" where
  "nw_current sc = unat (nw_count_low sc AND 63)"

text \<open>The short path adds at most a block.\<close>

definition narrow_count :: "nat \<Rightarrow> narrow_context \<Rightarrow> narrow_context" where
  "narrow_count clen sc =
     (let clow = nw_count_low sc;
          clow2 = clow + of_nat clen;
          sc = sc\<lparr>nw_count_low := clow2\<rparr> in
      if clow2 < clow then sc\<lparr>nw_count_high := nw_count_high sc + 1\<rparr> else sc)"

text \<open>The direct path adds a length of the width of \<open>size_t\<close>, shifted down in three steps.\<close>

definition narrow_count_long :: "nat \<Rightarrow> narrow_context \<Rightarrow> narrow_context" where
  "narrow_count_long orig_len sc =
     (let sc = narrow_count orig_len sc;
          orig_len = drop_bit 12 orig_len;
          orig_len = drop_bit 10 orig_len;
          orig_len = drop_bit 10 orig_len in
      sc\<lparr>nw_count_high := nw_count_high sc + of_nat orig_len\<rparr>)"

section \<open>The operations\<close>

partial_function (option) narrow_short_loop :: "narrow_context \<Rightarrow> nat \<Rightarrow> byte list \<Rightarrow> narrow_context option" where
  "narrow_short_loop sc current data =
     (if data = [] then Some sc
      else let clen = min (SPH_BLEN - current) (length data);
               sc = sc\<lparr>nw_buf := put_at (nw_buf sc) current (take clen data)\<rparr>;
               current = current + clen;
               full = (current = SPH_BLEN);
               sc = (if full then sc\<lparr>nw_val := md5_round (nw_buf sc) (nw_val sc)\<rparr> else sc);
               sc = narrow_count clen sc in
           narrow_short_loop sc (if full then 0 else current) (drop clen data))"

definition narrow_short :: "narrow_context \<Rightarrow> byte list \<Rightarrow> narrow_context option" where
  "narrow_short sc data = narrow_short_loop sc (nw_current sc) data"

definition narrow_md5 :: "bool \<Rightarrow> nat \<Rightarrow> narrow_context \<Rightarrow> byte list \<Rightarrow> narrow_context option" where
  "narrow_md5 unaligned address sc data =
     (if length data < 2 * SPH_BLEN then narrow_short sc data
      else let current = nw_current sc;
               t = (if current > 0 then SPH_BLEN - current else 0) in
           Option.bind (if current > 0 then narrow_short sc (take t data) else Some sc) (\<lambda>sc.
           let data = drop t data in
           if \<not> unaligned \<and> (address + t) mod 4 \<noteq> 0 then narrow_short sc data
           else case md5_direct (nw_val sc) data of (r, rest) \<Rightarrow>
             Some (narrow_count_long (length data) (sc\<lparr>nw_val := r, nw_buf := put_at (nw_buf sc) 0 rest\<rparr>))))"

definition narrow_addbits_and_close :: "narrow_context \<Rightarrow> word32 \<Rightarrow> nat \<Rightarrow> narrow_context \<times> byte list" where
  "narrow_addbits_and_close sc ub n =
     (let current = nw_current sc;
          z = drop_bit n 0x80;
          sc = sc\<lparr>nw_buf := put_at (nw_buf sc) current [ucast (((ub AND (- z)) OR z) AND 0xFF)]\<rparr>;
          current = current + 1;
          sc = (if current > SPH_MAXPAD
            then let sc = sc\<lparr>nw_buf := put_at (nw_buf sc) current (replicate (SPH_BLEN - current) 0)\<rparr>;
                     sc = sc\<lparr>nw_val := md5_round (nw_buf sc) (nw_val sc)\<rparr> in
                 sc\<lparr>nw_buf := put_at (nw_buf sc) 0 (replicate SPH_MAXPAD 0)\<rparr>
            else sc\<lparr>nw_buf := put_at (nw_buf sc) current (replicate (SPH_MAXPAD - current) 0)\<rparr>);
          low = nw_count_low sc;
          high = push_bit 3 (nw_count_high sc) OR drop_bit 29 low;
          low = push_bit 3 low + of_nat n;
          sc = sc\<lparr>nw_buf := put_at (nw_buf sc) SPH_MAXPAD (sph_enc32le low)\<rparr>;
          sc = sc\<lparr>nw_buf := put_at (nw_buf sc) (SPH_MAXPAD + 4) (sph_enc32le high)\<rparr>;
          sc = sc\<lparr>nw_val := md5_round (nw_buf sc) (nw_val sc)\<rparr> in
      case nw_val sc of (a, b, c, d) \<Rightarrow>
        (sc, sph_enc32le a @ sph_enc32le b @ sph_enc32le c @ sph_enc32le d))"

definition narrow_close :: "narrow_context \<Rightarrow> narrow_context \<times> byte list" where
  "narrow_close sc = (case narrow_addbits_and_close sc 0 0 of (sc, dst) \<Rightarrow> (narrow_init sc, dst))"

section \<open>The two words are one\<close>

definition joined :: "word32 \<Rightarrow> word32 \<Rightarrow> 64 word" where
  "joined high low = push_bit 32 (ucast high) OR ucast low"

definition widen :: "narrow_context \<Rightarrow> sph_md5_context" where
  "widen sc = \<lparr>md_buf = nw_buf sc, md_val = nw_val sc, md_count = joined (nw_count_high sc) (nw_count_low sc)\<rparr>"

lemma joined_unat: "unat (joined h l) = unat h * 2 ^ 32 + unat l"
proof -
  have "push_bit 32 (ucast h :: 64 word) OR ucast l = push_bit 32 (ucast h) + ucast l"
    by (rule disjunctive_add [symmetric]) (auto simp: bit_simps dest: bit_imp_le_length)
  moreover have "unat (push_bit 32 (ucast h :: 64 word)) = unat h * 2 ^ 32"
    using unsigned_less [of h, where 'a = nat] by (simp add: push_bit_eq_mult unat_word_ariths take_bit_eq_mod unsigned_ucast_eq)
  moreover have "unat h * 2 ^ 32 + unat l < 2 ^ 64"
    using unsigned_less [of h, where 'a = nat] unsigned_less [of l, where 'a = nat] by simp
  ultimately show ?thesis by (simp add: joined_def unat_word_ariths unsigned_ucast_eq take_bit_nat_eq_self_iff take_bit_nat_eq_self)
qed

lemma joined_low: "ucast (joined h l) = l"
  by (rule bit_word_eqI) (simp add: joined_def bit_simps)

lemma two_words: "s < 2 ^ 32 \<Longrightarrow> (x * 2 ^ 32 + s) mod 2 ^ 64 = x mod 2 ^ 32 * 2 ^ 32 + (s :: nat)"
  using mod_mult2_eq [of "x * 2 ^ 32 + s" "2 ^ 32" "2 ^ 32"] by (simp add: algebra_simps)

lemma narrow_count_join:
  "joined (nw_count_high (narrow_count_long n sc)) (nw_count_low (narrow_count_long n sc))
     = joined (nw_count_high sc) (nw_count_low sc) + of_nat n"
proof -
  let ?h = "nw_count_high sc" and ?l = "nw_count_low sc"
  have d: "drop_bit 10 (drop_bit 10 (drop_bit 12 n)) = n div 2 ^ 32" by (simp add: drop_bit_eq_div div_mult2_eq [symmetric])
  let ?s = "unat ?l + n mod 2 ^ 32"
  have l2: "unat (?l + of_nat n) = ?s mod 2 ^ 32" by (simp add: unat_word_ariths unsigned_of_nat take_bit_eq_mod mod_add_right_eq)
  have lt: "unat ?l < 2 ^ 32" using unsigned_less [of ?l, where 'a = nat] by simp
  have carry: "?l + of_nat n < ?l \<longleftrightarrow> 2 ^ 32 \<le> ?s"
  proof (cases "2 ^ 32 \<le> ?s")
    case True
    have "?s mod 2 ^ 32 = ?s - 2 ^ 32" using True lt by (simp add: le_mod_geq)
    moreover have "n mod 2 ^ 32 < 2 ^ 32" by simp
    ultimately have "?s mod 2 ^ 32 < unat ?l" using True by linarith
    then show ?thesis using True by (simp add: word_less_nat_alt l2)
  qed (simp add: word_less_nat_alt l2)
  define c :: nat where "c = (if 2 ^ 32 \<le> ?s then 1 else 0)"
  have c: "?s mod 2 ^ 32 + c * 2 ^ 32 = ?s"
  proof (cases "2 ^ 32 \<le> ?s")
    case True
    moreover have "n mod 2 ^ 32 < 2 ^ 32" by simp
    ultimately have "(?s - 2 ^ 32) mod 2 ^ 32 = ?s - 2 ^ 32" using lt by (intro mod_less) linarith
    then show ?thesis using True by (simp add: c_def le_mod_geq)
  qed (simp add: c_def)
  have high: "nw_count_high (narrow_count_long n sc) = ?h + of_nat (c + n div 2 ^ 32)"
    and low: "nw_count_low (narrow_count_long n sc) = ?l + of_nat n"
    using carry by (simp_all add: narrow_count_long_def narrow_count_def Let_def drop_bit_eq_div div_mult2_eq [symmetric] c_def)
  have "unat (joined ?h ?l + of_nat n) = (unat ?h * 2 ^ 32 + unat ?l + n) mod 2 ^ 64"
    by (simp add: unat_word_ariths unsigned_of_nat take_bit_eq_mod mod_add_right_eq joined_unat)
  also have "unat ?h * 2 ^ 32 + unat ?l + n = (unat ?h + (c + n div 2 ^ 32)) * 2 ^ 32 + ?s mod 2 ^ 32"
    using c div_mult_mod_eq [of n "2 ^ 32"] by (simp only: add_mult_distrib)
  also have "\<dots> mod 2 ^ 64 = (unat ?h + (c + n div 2 ^ 32)) mod 2 ^ 32 * 2 ^ 32 + ?s mod 2 ^ 32"
    by (rule two_words)  simp
  also have "\<dots> = unat (joined (?h + of_nat (c + n div 2 ^ 32)) (?l + of_nat n))"
    unfolding joined_unat l2
    by (simp add: unat_word_ariths unsigned_of_nat take_bit_eq_mod mod_add_right_eq del: of_nat_add)
  finally show ?thesis by (simp add: high low word_unat_eq_iff del: of_nat_add)
qed

lemma narrow_count_short: "n < 2 ^ 32 \<Longrightarrow> narrow_count n sc = narrow_count_long n sc"
  by (simp add: narrow_count_long_def narrow_count_def Let_def drop_bit_eq_div)

lemma widen_count: "widen (narrow_count_long n sc) = (widen sc)\<lparr>md_count := md_count (widen sc) + of_nat n\<rparr>"
proof -
  have "nw_buf (narrow_count_long n sc) = nw_buf sc" "nw_val (narrow_count_long n sc) = nw_val sc"
    by (simp_all add: narrow_count_long_def narrow_count_def Let_def)
  then show ?thesis by (simp add: widen_def narrow_count_join)
qed

lemma widen_sel: "md_buf (widen sc) = nw_buf sc" "md_val (widen sc) = nw_val sc"
    "widen (sc\<lparr>nw_buf := b\<rparr>) = (widen sc)\<lparr>md_buf := b\<rparr>" "widen (sc\<lparr>nw_val := r\<rparr>) = (widen sc)\<lparr>md_val := r\<rparr>"
    "widen (narrow_init sc) = sph_md5_init (widen sc)" "nw_current sc = md_current (widen sc)"
  by (simp_all add: widen_def narrow_init_def sph_md5_init_def joined_def nw_current_def md_current_def
      joined_low [unfolded joined_def])

section \<open>The operations agree\<close>

lemma widen_short_loop:
  "current < SPH_BLEN \<Longrightarrow> map_option widen (narrow_short_loop sc current data) = md5_short_loop (widen sc) current data"
proof (induction "length data" arbitrary: sc current data rule: less_induct)
  case less
  show ?case
  proof (cases "data = []")
    case True
    then show ?thesis by (simp add: narrow_short_loop.simps md5_short_loop.simps)
  next
    case False
    let ?c = "min (SPH_BLEN - current) (length data)"
    have c: "0 < ?c" "?c < 2 ^ 32" "current + ?c \<noteq> SPH_BLEN \<Longrightarrow> current + ?c < SPH_BLEN"
      using less.prems False by (auto simp: SPH_BLEN_def)
    have l: "length (drop ?c data) < length data" using c(1) False by simp
    note IH = less.hyps [OF l]
    show ?thesis
      using False IH c(3) less.prems
      by (subst narrow_short_loop.simps, subst md5_short_loop.simps)
        (simp add: Let_def narrow_count_short [OF c(2)] widen_count widen_sel)
  qed
qed

lemma md_current_less: "md_current sc < SPH_BLEN"
proof -
  have "unat ((ucast (md_count sc) :: word32) AND 63) \<le> unat (63 :: word32)"
    by (simp only: word_le_nat_alt [symmetric] word_and_le1)
  then show ?thesis by (simp add: md_current_def SPH_BLEN_def)
qed

lemma widen_short: "map_option widen (narrow_short sc data) = md5_short (widen sc) data"
  by (simp add: narrow_short_def md5_short_def widen_short_loop md_current_less widen_sel)

lemma shifted_plus: "n < 8 \<Longrightarrow> push_bit 3 (x :: 'a::len word) + of_nat n = push_bit 3 x OR of_nat n"
proof (rule disjunctive_add)
  fix k
  assume "n < 8"
  then have "take_bit 3 n = n" by (simp add: take_bit_eq_mod)
  then have "bit n k \<Longrightarrow> k < 3" by (metis bit_take_bit_iff)
  then show "\<not> bit (push_bit 3 x) k \<or> \<not> bit (of_nat n :: 'a word) k" by (auto simp: bit_simps)
qed

lemma length_words:
  assumes "n < 8"
  shows "sph_enc32le (push_bit 3 l + of_nat n) @ sph_enc32le (push_bit 3 h OR drop_bit 29 l)
    = sph_enc64le (push_bit 3 (joined h l) + of_nat n)"
proof -
  from assms have "take_bit 3 n = n" by (simp add: take_bit_eq_mod)
  then have k: "bit n k \<Longrightarrow> k < 3" for k by (metis bit_take_bit_iff)
  have "sph_enc32le (push_bit 3 l OR of_nat n) @ sph_enc32le (push_bit 3 h OR drop_bit 29 l)
    = sph_enc64le (push_bit 3 (joined h l) OR of_nat n)"
    by (simp add: sph_enc32le_def sph_enc64le_def) (intro conjI bit_word_eqI; auto simp: bit_simps joined_def dest: bit_imp_le_length k)
  then show ?thesis by (simp add: shifted_plus [OF assms])
qed

lemma put_at_append:
  "k + length xs \<le> length b \<Longrightarrow> put_at (put_at b k xs) (k + length xs) ys = put_at b k (xs @ ys)"
  by (simp add: put_at_def add.commute add.left_commute)

lemma put_length_words:
  "length b = 64 \<Longrightarrow> n < 8 \<Longrightarrow>
   put_at (put_at b 56 (sph_enc32le (push_bit 3 l + of_nat n))) 60 (sph_enc32le (push_bit 3 h OR drop_bit 29 l))
     = put_at b 56 (sph_enc64le (push_bit 3 (joined h l) + of_nat n))"
  using put_at_append [of 56 "sph_enc32le (push_bit 3 l + of_nat n)" b]
  by (simp add: length_words)

text \<open>Adding data and closing, on the contexts with the two words joined.\<close>

theorem narrow_md5_refines: "map_option widen (narrow_md5 unaligned address sc data) = sph_md5 unaligned address (widen sc) data"
proof -
  have direct: "map_option widen (case md5_direct (nw_val sc) d of (r, rest) \<Rightarrow>
       Some (narrow_count_long (length d) (sc\<lparr>nw_val := r, nw_buf := put_at (nw_buf sc) 0 rest\<rparr>)))
     = (case md5_direct (md_val (widen sc)) d of (r, rest) \<Rightarrow>
       Some ((widen sc)\<lparr>md_val := r, md_buf := put_at (md_buf (widen sc)) 0 rest, md_count := md_count (widen sc) + of_nat (length d)\<rparr>))"
    for sc d
    by (simp add: widen_count widen_sel split: prod.splits)
  let ?N = "\<lambda>t sc. let data = drop t data in
      if \<not> unaligned \<and> (address + t) mod 4 \<noteq> 0 then narrow_short sc data
      else case md5_direct (nw_val sc) data of (r, rest) \<Rightarrow>
        Some (narrow_count_long (length data) (sc\<lparr>nw_val := r, nw_buf := put_at (nw_buf sc) 0 rest\<rparr>))"
  let ?M = "\<lambda>t sc. let data = drop t data in
      if \<not> unaligned \<and> (address + t) mod 4 \<noteq> 0 then md5_short sc data
      else case md5_direct (md_val sc) data of (r, rest) \<Rightarrow>
        Some (sc\<lparr>md_val := r, md_buf := put_at (md_buf sc) 0 rest, md_count := md_count sc + of_nat (length data)\<rparr>)"
  have rest: "map_option widen (?N t sc) = ?M t (widen sc)" for t sc
    unfolding Let_def
    by (cases "\<not> unaligned \<and> (address + t) mod 4 \<noteq> 0") (simp_all only: if_True if_False simp_thms widen_short direct)
  have bind: "map_option widen (Option.bind m (?N t)) = Option.bind (map_option widen m) (?M t)" for m t
  proof (cases m)
    case (Some v)
    then show ?thesis using rest [of t v] by (simp only: Option.bind.bind_lunit option.map)
  qed simp
  let ?c = "md_current (widen sc)"
  let ?t = "if ?c > 0 then SPH_BLEN - ?c else 0"
  let ?m = "if ?c > 0 then narrow_short sc (take ?t data) else Some sc"
  show ?thesis
  proof (cases "length data < 2 * SPH_BLEN")
    case False
    have "narrow_md5 unaligned address sc data = Option.bind ?m (?N ?t)"
      using False by (simp only: narrow_md5_def Let_def widen_sel(6) if_False)
    moreover have "sph_md5 unaligned address (widen sc) data = Option.bind (map_option widen ?m) (?M ?t)"
      using False by (simp add: sph_md5_def Let_def widen_short)
    ultimately show ?thesis by (simp only: bind)
  qed (simp add: narrow_md5_def sph_md5_def widen_short)
qed

theorem narrow_close_refines:
  assumes "length (nw_buf sc) = 64" and "n < 8"
  shows "map_prod widen id (narrow_addbits_and_close sc ub n) = md5_addbits_and_close (widen sc) ub n"
proof -
  have k: "md_current (widen sc) < 64" using md_current_less by (simp add: SPH_BLEN_def)
  show ?thesis
    using k assms
    by (simp add: narrow_addbits_and_close_def md5_addbits_and_close_def Let_def widen_sel(6) put_length_words SPH_BLEN_def SPH_MAXPAD_def widen_def
        split: prod.splits)
qed

section \<open>The digest\<close>

fun narrow_pieces :: "bool \<Rightarrow> (nat \<times> byte list) list \<Rightarrow> narrow_context \<Rightarrow> narrow_context option" where
  "narrow_pieces unaligned [] sc = Some sc"
| "narrow_pieces unaligned ((address, data) # pieces) sc =
     Option.bind (narrow_md5 unaligned address sc data) (narrow_pieces unaligned pieces)"

lemma narrow_pieces_refine:
  "map_option widen (narrow_pieces unaligned pieces sc) = sph_md5_pieces unaligned pieces (widen sc)"
proof (induction pieces arbitrary: sc)
  case (Cons p pieces)
  obtain address data where p: "p = (address, data)" by (cases p)
  from narrow_md5_refines [of unaligned address sc data] Cons.IH show ?case
    by (cases "narrow_md5 unaligned address sc data") (simp_all add: p flip: narrow_md5_refines)
qed simp

text \<open>So a build for a machine without 64-bit integers computes MD5 as well, for messages of any
  length.\<close>

theorem narrow_md5_digest:
  assumes "length (nw_buf sc) = 64"
  shows "\<exists>v. narrow_pieces unaligned pieces (narrow_init sc) = Some v
     \<and> snd (narrow_close v) = rfc_md5 (concat (map snd pieces))"
proof -
  have "absorbed (widen (narrow_init sc)) []"
    unfolding widen_sel by (rule absorbed_init) (simp add: assms widen_sel)
  from pieces_absorbed [OF this] obtain u where
    u: "sph_md5_pieces unaligned pieces (widen (narrow_init sc)) = Some u" "absorbed u (concat (map snd pieces))"
    by auto
  then obtain v where v: "narrow_pieces unaligned pieces (narrow_init sc) = Some v" "widen v = u"
    using narrow_pieces_refine [of unaligned pieces "narrow_init sc"] by auto
  have "length (nw_buf v) = 64" using u(2) v(2) by (auto simp: absorbed_def widen_sel)
  from narrow_close_refines [OF this, of 0 0] have "snd (narrow_addbits_and_close v 0 0) = rfc_md5 (concat (map snd pieces))"
    using close_digest(1) [OF u(2)] v(2) by (metis snd_map_prod id_apply zero_less_numeral)
  then show ?thesis using v(1) by (simp add: narrow_close_def case_prod_unfold)
qed

end
