(* ===== verification/Sds_Test.thy ===== *)
theory Sds_Test
  imports Sds_Text Sds_Args
begin

text \<open>
  The test program at the end of \<open>sds.c\<close>, run on the model. \<open>junk\<close> is what new memory and the stack
  hold. A condition is one call of \<open>test_cond\<close>; the program exits with 1 when one fails.
\<close>

section \<open>Conditions\<close>

text \<open>\<open>sdslen(x) == len && memcmp(x, xs, ...) == 0\<close>.\<close>

definition sds_is :: "sds_result \<Rightarrow> nat \<Rightarrow> string \<Rightarrow> bool" where
  "sds_is r len xs =
     (case r of Inr (Some s) \<Rightarrow> sdslen s = len \<and> take (length xs) (h_buf s) = xs | _ \<Rightarrow> False)"

text \<open>\<open>sdsnew\<close> of a literal.\<close>

definition new_text :: "string \<Rightarrow> string \<Rightarrow> sds_result" where
  "new_text junk t = sdsnewlen (Some junk) (InitBytes (t @ [NUL])) (length t)"

definition on_sds :: "sds_result \<Rightarrow> (sdshdr \<Rightarrow> stop + sdshdr) \<Rightarrow> sds_result" where
  "on_sds r f = and_some r (\<lambda>s. done_with (f s))"

definition test_report :: "bool list \<Rightarrow> int" where
  "test_report conds = (if list_all (\<lambda>c. c) conds then 0 else 1)"

section \<open>The test program\<close>

definition test_texts :: "string \<Rightarrow> bool list" where
  "test_texts junk =
     (let a = Some junk;
          x1 = new_text junk ''foo'';
          x2 = sdsnewlen a (InitBytes (''foo'' @ [NUL])) 2;
          x3 = and_some x2 (sdscat a ''bar'');
          x4 = and_some x3 (sdscpy a ''a'');
          x5 = and_some x4 (sdscpy a ''xyzxxxxxxxxxxyyyyyyyyyykkkkkkkkkk'') in
      [sds_is x1 3 (''foo'' @ [NUL]), sds_is x2 2 (''fo'' @ [NUL]), sds_is x3 5 (''fobar'' @ [NUL]),
       sds_is x4 1 (''a'' @ [NUL]), sds_is x5 33 ''xyzxxxxxxxxxxyyyyyyyyyykkkkkkkkkk''])"

definition test_printed :: "string \<Rightarrow> bool list" where
  "test_printed junk =
     (let a = Some junk;
          p = (case sdsempty a of
                 Inr (Some s) \<Rightarrow> sdscatvprintf (\<lambda>n. a) a junk ''%d'' (dec 123) s
               | r \<Rightarrow> Some r);
          f1 = on_sds (new_text junk ''--'')
            (sdscatfmt a junk ''Hello %s World %I,%I--'' [TextArg ''Hi!'', LongArg (- (2 ^ 63)), LongArg (2 ^ 63 - 1)]);
          f2 = on_sds (new_text junk ''--'') (sdscatfmt a junk ''%u,%U--'' [UIntArg (2 ^ 32 - 1), ULongArg (2 ^ 64 - 1)]) in
      [(case p of Some r \<Rightarrow> sds_is r 3 (''123'' @ [NUL]) | None \<Rightarrow> False),
       sds_is f1 60 ''--Hello Hi! World -9223372036854775808,9223372036854775807--'',
       sds_is f2 35 ''--4294967295,18446744073709551615--''])"

definition test_trimmed :: "string \<Rightarrow> bool list" where
  "test_trimmed junk =
     (let x = on_sds (new_text junk ''xxciaoyyy'') (sdstrim_mem ''xy'');
          y = (\<lambda>from to. on_sds (and_some x (sdsdup (Some junk))) (sdsrange_mem from to)) in
      [sds_is (on_sds (new_text junk '' x '') (sdstrim_mem '' x'')) 0 [],
       sds_is (on_sds (new_text junk '' x '') (sdstrim_mem '' '')) 1 ''x'',
       sds_is x 4 (''ciao'' @ [NUL]),
       sds_is (y 1 1) 1 (''i'' @ [NUL]), sds_is (y 1 (-1)) 3 (''iao'' @ [NUL]), sds_is (y (-2) (-1)) 2 (''ao'' @ [NUL]),
       sds_is (y 2 1) 0 [NUL], sds_is (y 1 100) 3 (''iao'' @ [NUL]), sds_is (y 100 100) 0 [NUL]])"

definition test_compared :: "bool list" where
  "test_compared =
     [sdscmp ''foo'' ''foa'' > 0, sdscmp ''bar'' ''bar'' = 0, sdscmp ''aar'' ''bar'' < 0,
      take 15 (sdscatrepr [] ([CHR 0x07, CHR 0x0A, NUL] @ ''foo'' @ [CHR 0x0D]))
        = CHR 0x22 # CHR 0x5C # ''a'' @ CHR 0x5C # ''n'' @ CHR 0x5C # ''x00foo'' @ CHR 0x5C # ''r'' @ [CHR 0x22]]"

text \<open>A round of the loop: ten more characters are written into the room that was made.\<close>

fun test_room :: "string \<Rightarrow> nat \<Rightarrow> sds_result \<Rightarrow> bool list \<Rightarrow> sds_result \<times> bool list" where
  "test_room junk 0 x conds = (x, conds)"
| "test_room junk (Suc i) x conds =
     (case x of
        Inr (Some s) \<Rightarrow>
          (let oldlen = sdslen s;
               x = sdsMakeRoomFor (Some junk) 10 s;
               len_ok = (case x of Inr (Some s) \<Rightarrow> sdslen s = oldlen | _ \<Rightarrow> False);
               free = (case x of Inr (Some s) \<Rightarrow> if sds_type s \<noteq> 0 then [sdsavail s \<ge> 10] else [] | _ \<Rightarrow> [False]);
               x = on_sds x (\<lambda>s. and_then (put oldlen ''ABCDEFGHIJ'' s) (sdsIncrLen 10)) in
           test_room junk i x (conds @ len_ok # free))
      | _ \<Rightarrow> (x, conds @ [False]))"

text \<open>The conditions on the content and on the final length are one here.\<close>

definition test_growth :: "string \<Rightarrow> bool list" where
  "test_growth junk =
     (let x = new_text junk ''0'';
          new_ok = (case x of Inr (Some s) \<Rightarrow> sdslen s = 1 \<and> sdsavail s = 0 | _ \<Rightarrow> False) in
      case test_room junk 10 x [] of (x, conds) \<Rightarrow>
        new_ok # conds @ [sds_is x 101 (CHR ''0'' # concat (replicate 10 ''ABCDEFGHIJ''))])"

definition sdsTest :: "string \<Rightarrow> int" where
  "sdsTest junk = test_report (test_texts junk @ test_printed junk @ test_trimmed junk @ test_compared @ test_growth junk)"

section \<open>The tests pass\<close>

definition holds :: "sds_result \<Rightarrow> string \<Rightarrow> bool" where
  "holds r t \<longleftrightarrow> (\<exists>s. r = Inr (Some s) \<and> sds_wf s \<and> sds_text s = t)"

lemma holds_is: "holds r t \<Longrightarrow> len = length t \<Longrightarrow> take (length xs) (t @ [NUL]) = xs \<Longrightarrow> length xs \<le> length t + 1 \<Longrightarrow> sds_is r len xs"
proof -
  assume "holds r t" and len: "len = length t" and xs: "take (length xs) (t @ [NUL]) = xs" "length xs \<le> length t + 1"
  then obtain s where s: "r = Inr (Some s)" "sds_wf s" "sds_text s = t" by (auto simp: holds_def)
  have w: "take (Suc (length t)) (h_buf s) = t @ [NUL]" "sdslen s = length t" using wf_text [OF s(2)] s(3) by simp_all
  have "take (length xs) (h_buf s) = take (length xs) (take (Suc (length t)) (h_buf s))" using xs(2) by (simp add: min_def)
  then show ?thesis using s(1) w len xs(1) by (simp add: sds_is_def)
qed

lemma holds_newlen: "n \<le> length xs \<Longrightarrow> n < 2 ^ 62 \<Longrightarrow> take n xs = t \<Longrightarrow> holds (sdsnewlen (Some j) (InitBytes xs) n) t"
  using sdsnewlen_ok [of n xs j] by (auto simp: holds_def)

lemma holds_new: "length t < 2 ^ 62 \<Longrightarrow> holds (new_text j t) t"
  by (simp add: new_text_def holds_newlen)

lemma holds_cat:
  "holds r t \<Longrightarrow> cstr u = u \<Longrightarrow> length t + length u < 2 ^ 62 \<Longrightarrow> holds (and_some r (sdscat (Some j) u)) (t @ u)"
  using sdscatlen_refines [of _ u j] by (force simp: holds_def and_some_def sdscat_def sdscatlen_def)

lemma holds_cpy: "holds r t \<Longrightarrow> cstr u = u \<Longrightarrow> length u < 2 ^ 62 \<Longrightarrow> holds (and_some r (sdscpy (Some j) u)) u"
  using sdscpylen_refines [of _ u j] by (force simp: holds_def and_some_def sdscpy_def)

lemma holds_on: "holds r t \<Longrightarrow> (\<And>s. sds_wf s \<Longrightarrow> sds_text s = t \<Longrightarrow> \<exists>u. f s = Inr u \<and> sds_wf u \<and> sds_text u = v)
    \<Longrightarrow> holds (on_sds r f) v"
  by (force simp: holds_def on_sds_def and_some_def done_with_def)

lemma holds_trim: "holds r t \<Longrightarrow> sdstrim t cset = u \<Longrightarrow> holds (on_sds r (sdstrim_mem cset)) u"
  using sdstrim_refines by (intro holds_on) auto

lemma holds_range: "holds r t \<Longrightarrow> sdsrange t from to = u \<Longrightarrow> holds (on_sds r (sdsrange_mem from to)) u"
  using sdsrange_refines by (intro holds_on) auto

lemma holds_dup: "holds r t \<Longrightarrow> length t < 2 ^ 62 \<Longrightarrow> holds (and_some r (sdsdup (Some j))) t"
proof -
  assume "holds r t" and t: "length t < 2 ^ 62"
  then obtain s where s: "r = Inr (Some s)" "sds_wf s" "sds_text s = t" by (auto simp: holds_def)
  then show ?thesis
    using t wf_text [OF s(2)] ok_facts(3) [of s]
    by (auto simp: and_some_def sdsdup_def sds_text_def intro: holds_newlen)
qed

lemma holds_fmt:
  "holds r t \<Longrightarrow> is_cstr fmt \<Longrightarrow> fmt_text fmt args = Some u \<Longrightarrow> 2 * length t + 2 * length fmt < 2 ^ 62
     \<Longrightarrow> length t + length u + 1 < 2 ^ 62 \<Longrightarrow> holds (on_sds r (sdscatfmt (Some j) stack fmt args)) (t @ u)"
  using sdscatfmt_ok by (intro holds_on) auto

lemma texts_pass: "list_all (\<lambda>c. c) (test_texts j)"
proof -
  let ?x1 = "new_text j ''foo''" and ?x2 = "sdsnewlen (Some j) (InitBytes (''foo'' @ [NUL])) 2"
  have x1: "holds ?x1 ''foo''" by (rule holds_new) simp
  have x2: "holds ?x2 ''fo''" by (rule holds_newlen) simp_all
  have x3: "holds (and_some ?x2 (sdscat (Some j) ''bar'')) ''fobar''"
    using holds_cat [OF x2, of "''bar''" j] by (simp add: cstr_simps)
  have x4: "holds (and_some (and_some ?x2 (sdscat (Some j) ''bar'')) (sdscpy (Some j) ''a'')) ''a''"
    by (rule holds_cpy [OF x3]) (simp_all add: cstr_simps)
  have x5: "holds (and_some (and_some (and_some ?x2 (sdscat (Some j) ''bar'')) (sdscpy (Some j) ''a''))
      (sdscpy (Some j) ''xyzxxxxxxxxxxyyyyyyyyyykkkkkkkkkk'')) ''xyzxxxxxxxxxxyyyyyyyyyykkkkkkkkkk''"
    by (rule holds_cpy [OF x4]) (simp_all add: cstr_simps)
  show ?thesis
    unfolding test_texts_def Let_def list.pred_inject
    by (intro conjI TrueI holds_is [OF x1] holds_is [OF x2] holds_is [OF x3] holds_is [OF x4] holds_is [OF x5]) simp_all
qed

lemma trimmed_pass: "list_all (\<lambda>c. c) (test_trimmed j)"
proof -
  let ?x = "on_sds (new_text j ''xxciaoyyy'') (sdstrim_mem ''xy'')"
  have b1: "holds (on_sds (new_text j '' x '') (sdstrim_mem '' x'')) []"
    by (rule holds_trim [OF holds_new]) (simp, code_simp)
  have b2: "holds (on_sds (new_text j '' x '') (sdstrim_mem '' '')) ''x''"
    by (rule holds_trim [OF holds_new]) (simp, code_simp)
  have x: "holds ?x ''ciao''" by (rule holds_trim [OF holds_new]) (simp, code_simp)
  note y = holds_is [OF holds_range [OF holds_dup [OF x] refl]]
  have "sdsrange ''ciao'' 1 1 = ''i''" "sdsrange ''ciao'' 1 (-1) = ''iao''" "sdsrange ''ciao'' (-2) (-1) = ''ao''"
    "sdsrange ''ciao'' 2 1 = []" "sdsrange ''ciao'' 1 100 = ''iao''" "sdsrange ''ciao'' 100 100 = []"
    by code_simp+
  then show ?thesis
    unfolding test_trimmed_def Let_def list.pred_inject
    by (intro conjI TrueI holds_is [OF b1] holds_is [OF b2] holds_is [OF x] y) simp_all
qed

lemma compared_pass: "list_all (\<lambda>c. c) test_compared"
  by code_simp

lemma digit_chars: "map digit_char [0, 1, 2, 3, 4, 5, 6, 7, 8, 9] = ''0123456789''"
  by code_simp

lemmas digit_eqs = digit_chars [simplified]

lemma printed_pass: "list_all (\<lambda>c. c) (test_printed j)"
proof -
  obtain s where s: "sdsempty (Some j) = Inr (Some s)" "sds_wf s" "sds_text s = []" using sdsempty_ok by blast
  have d: "dec 123 = ''123''" by code_simp
  obtain u where u: "sdscatvprintf (\<lambda>n. Some j) (Some j) j ''%d'' (dec 123) s = Some (Inr (Some u))" "sds_wf u" "sds_text u = ''123''"
    using sdscatvprintf_ok [OF s(2), of "dec 123" "''%d''" "\<lambda>n. Some j" j j] s(3) by (auto simp: d is_cstr_def)
  then have p: "holds (Inr (Some u)) ''123''" by (simp add: holds_def)
  have f1: "fmt_text ''Hello %s World %I,%I--'' [TextArg ''Hi!'', LongArg (- (2 ^ 63)), LongArg (2 ^ 63 - 1)]
      = Some ''Hello Hi! World -9223372036854775808,9223372036854775807--''"
    by (simp add: directive_text_def int_text_def dec.simps digit_eqs cstr_simps)
  have f2: "fmt_text ''%u,%U--'' [UIntArg (2 ^ 32 - 1), ULongArg (2 ^ 64 - 1)] = Some ''4294967295,18446744073709551615--''"
    by (simp add: directive_text_def dec.simps digit_eqs)
  note g1 = holds_fmt [OF holds_new _ f1, of "''--''" j j j] and g2 = holds_fmt [OF holds_new _ f2, of "''--''" j j j]
  have "sds_is (Inr (Some u)) 3 (''123'' @ [NUL])" by (rule holds_is [OF p]) simp_all
  then show ?thesis
    unfolding test_printed_def Let_def list.pred_inject s(1) u(1) sum.case option.case
    by (intro conjI TrueI holds_is [OF g1] holds_is [OF g2]) (simp_all add: is_cstr_def)
qed

text \<open>A round of the loop passes its conditions and appends the ten characters.\<close>

lemma room_round:
  assumes "sds_wf s" and "length (sds_text s) + 10 < 2 ^ 62"
  shows "\<exists>c u. test_room j (Suc i) (Inr (Some s)) conds = test_room j i (Inr (Some u)) (conds @ c) \<and> list_all (\<lambda>c. c) c
    \<and> sds_wf u \<and> sds_text u = sds_text s @ ''ABCDEFGHIJ''"
proof -
  let ?ten = "''ABCDEFGHIJ''"
  obtain r where r: "sdsMakeRoomFor (Some j) 10 s = Inr (Some r)" "sds_wf r" "sds_text r = sds_text s" "sdslen s + 10 \<le> sdsalloc r"
    using MakeRoom_text [OF assms, of j] by blast
  have len: "sdslen r = sdslen s" using wf_text(3) [OF r(2)] wf_text(3) [OF assms(1)] r(3) by simp
  have ok: "sds_ok r" by (rule wf_text(2) [OF r(2)])
  have type: "sds_type r \<noteq> 0" using ok_facts(5) [OF ok] r(4) len by auto
  have free: "10 \<le> sdsavail r" using ok_facts(4) [OF ok] type r(4) len by simp
  let ?b = "mem_put (h_buf r) (sdslen s) ?ten"
  let ?r = "r\<lparr>h_buf := ?b\<rparr>"
  have room: "sdslen s + length ?ten < length (h_buf r)" using ok r(4) by (simp add: sds_ok_def)
  then have "take (sdslen s + length ?ten) ?b = take (sdslen s) (h_buf r) @ ?ten" by (intro take_mem_put) linarith
  with room have b: "length ?b = length (h_buf r)" "take (sdslen s + 10) ?b = sds_text r @ ?ten"
    by (simp_all add: mem_put_length sds_text_def len numeral_eq_Suc)
  have ok2: "sds_ok ?r" "sds_type ?r \<noteq> 0" "sdslen ?r + 10 \<le> sdsalloc ?r"
    using ok type r(4) len b(1) by (simp_all add: buf_ok)
  obtain u where u: "sdsIncrLen 10 ?r = Inr u" "sds_wf u" "sds_text u = sds_text s @ ?ten"
    using IncrLen_ok [OF ok2] b(2) r(3) len by (auto simp: buf_ok)
  have "test_room j (Suc i) (Inr (Some s)) conds = test_room j i (Inr (Some u)) (conds @ [True, True])"
    using room u(1) free type len r(1) by (simp add: on_sds_def and_some_def done_with_def put_def)
  then show ?thesis using u by (intro exI [of _ "[True, True]"] exI [of _ u]) simp
qed

lemma room_rounds:
  "sds_wf s \<Longrightarrow> length (sds_text s) + 10 * i < 2 ^ 62 \<Longrightarrow>
    \<exists>c u. test_room j i (Inr (Some s)) conds = (Inr (Some u), conds @ c) \<and> list_all (\<lambda>c. c) c
    \<and> sds_wf u \<and> sds_text u = sds_text s @ concat (replicate i ''ABCDEFGHIJ'')"
proof (induction i arbitrary: s conds)
  case (Suc i)
  obtain c u where u: "test_room j (Suc i) (Inr (Some s)) conds = test_room j i (Inr (Some u)) (conds @ c)"
    "list_all (\<lambda>c. c) c" "sds_wf u" "sds_text u = sds_text s @ ''ABCDEFGHIJ''"
    using room_round [OF Suc.prems(1)] Suc.prems(2) by force
  obtain c' v where v: "test_room j i (Inr (Some u)) (conds @ c) = (Inr (Some v), (conds @ c) @ c')"
    "list_all (\<lambda>c. c) c'" "sds_wf v" "sds_text v = sds_text u @ concat (replicate i ''ABCDEFGHIJ'')"
    using Suc.IH [OF u(3), of "conds @ c"] Suc.prems(2) u(4) by force
  show ?case using u v by (intro exI [of _ "c @ c'"] exI [of _ v]) simp
qed simp

lemma growth_pass: "list_all (\<lambda>c. c) (test_growth j)"
proof -
  obtain s where s: "new_text j ''0'' = Inr (Some s)" "sds_wf s" "sds_text s = ''0''" "sdsalloc s = 1"
    using sdsnewlen_ok [of 1 "''0'' @ [NUL]" j] by (auto simp: new_text_def)
  obtain c u where u: "test_room j 10 (Inr (Some s)) [] = (Inr (Some u), [] @ c)" "list_all (\<lambda>c. c) c"
    "sds_wf u" "sds_text u = ''0'' @ concat (replicate 10 ''ABCDEFGHIJ'')"
    using room_rounds [OF s(2), of 10 j "[]"] s(3) by auto
  have "holds (Inr (Some u)) (''0'' @ concat (replicate 10 ''ABCDEFGHIJ''))" using u by (simp add: holds_def)
  from holds_is [OF this, of 101 "''0'' @ concat (replicate 10 ''ABCDEFGHIJ'')"]
  have "sds_is (Inr (Some u)) 101 (''0'' @ concat (replicate 10 ''ABCDEFGHIJ''))" by (simp add: numeral_eq_Suc)
  moreover have "sdslen s = 1" using wf_text(3) [OF s(2)] s(3) by simp
  moreover from this have "sdsavail s = 0" using ok_facts(4) [OF wf_text(2) [OF s(2)]] s(4) by simp
  ultimately show ?thesis using u(1,2) by (simp add: test_growth_def s(1))
qed

text \<open>Whatever new memory holds, the program reports no failed test.\<close>

theorem sdsTest_passes: "sdsTest junk = 0"
  by (simp add: sdsTest_def test_report_def texts_pass printed_pass trimmed_pass compared_pass growth_pass)

end
