(* ===== verification/Main_Program.thy ===== *)
theory Main_Program
  imports Program_Properties Config_File
begin

text \<open>
  \<open>main\<close> of \<open>xdccget.c\<close> as a whole: the configuration, the session, connecting, the main loop and the end. The
  arguments are the home folder, the options and the random nick, the resolver, a random number and the
  answers of the watcher; everything else the system answers is in the world the program starts in.
\<close>

section \<open>The program\<close>

text \<open>Up to the session: \<open>downloadContext\<close> has an entry for each download.\<close>

definition main_setup :: "string \<Rightarrow> nat \<Rightarrow> arg_item list \<Rightarrow> string \<Rightarrow> app_world \<Rightarrow> stop + app_world" where
  "main_setup home now items nick w =
     and_then (load_config_file home (w\<lparr>w_cfg := default_config home\<rparr>)) (\<lambda>w.
     and_then (main_arguments now items nick (w_cfg w)) (\<lambda>c.
       Inr ((on_app (\<lambda>a. a\<lparr>a_downloadContext := replicate (c_numDownloads c) None\<rparr>) w)
         \<lparr>w_cfg := c, w_session := irc_create_session\<rparr>)))"

text \<open>Behind the main loop: only a connection that was terminated or closed is a success.\<close>

definition main_status :: "app_world \<Rightarrow> int \<Rightarrow> stop + int" where
  "main_status w ret =
     (if ret \<noteq> 0 \<and> irc_errno (w_session w) \<noteq> errcode LIBIRC_ERR_TERMINATED
        \<and> irc_errno (w_session w) \<noteq> errcode LIBIRC_ERR_CLOSED
      then Inl (exitPgm EXIT_FAILURE w)
      else case doCleanUp w of None \<Rightarrow> Inr 0 | Some f \<Rightarrow> Inl f)"

text \<open>No status: the answers of the watcher are used up and the program still runs.\<close>

definition after_loop :: "(stop + (app run \<times> int option)) option \<Rightarrow> (stop + (app run \<times> int option)) option" where
  "after_loop res = (case res of
       None \<Rightarrow> None
     | Some (Inl e) \<Rightarrow> Some (Inl e)
     | Some (Inr (q, None)) \<Rightarrow> Some (Inr (q, None))
     | Some (Inr (q, Some ret)) \<Rightarrow>
         Some (case main_status (r_world q) ret of Inl e \<Rightarrow> Inl e | Inr status \<Rightarrow> Inr (q, Some status)))"

definition main_program ::
  "string \<Rightarrow> nat \<Rightarrow> arg_item list \<Rightarrow> string \<Rightarrow> resolver \<Rightarrow> nat \<Rightarrow> (string \<Rightarrow> nat option) \<Rightarrow> string
     \<Rightarrow> watch_answer list \<Rightarrow> app_world \<Rightarrow> (stop + (app run \<times> int option)) option" where
  "main_program home now items nick resolver r dns time answers w =
     (case main_setup home now items nick w of
        Inl e \<Rightarrow> Some (Inl e)
      | Inr w \<Rightarrow>
          (case connect_to_server w resolver r of (w, ret) \<Rightarrow>
             if ret \<noteq> 0 then Some (Inl (exitPgm EXIT_FAILURE w))
             else
               (let w = on_app (\<lambda>a. a\<lparr>a_alarm := 1\<rparr>) w in
                after_loop (irc_run (initCallbacks dns time) answers (start_run w)))))"

section \<open>Its parts\<close>

text \<open>Loading the configuration touches its file only.\<close>

definition only_file :: "string \<Rightarrow> app_world \<Rightarrow> app_world \<Rightarrow> bool" where
  "only_file path w v \<longleftrightarrow> a_contexts (w_app v) = a_contexts (w_app w) \<and> w_cfg v = w_cfg w
     \<and> (\<forall>p. p \<noteq> path \<longrightarrow> a_files (w_app v) p = a_files (w_app w) p)"

lemma only_file_trans: "only_file path w v \<Longrightarrow> only_file path v u \<Longrightarrow> only_file path w u"
  by (simp add: only_file_def)

lemma os_ret_same: "os_ret w = (r, v) \<Longrightarrow> w_app v = w_app w \<and> w_cfg v = w_cfg w \<and> w_session v = w_session w"
  using os_ret_frame(3-5) [of w] by simp

lemma os_ret_only: "os_ret w = (r, v) \<Longrightarrow> only_file path w v"
  using os_ret_same [of w r v] by (simp add: only_file_def)

lemma open_only: "file_Open path m w = Inr (f, v) \<Longrightarrow> only_file path w v \<and> f_path f = path"
  by (auto simp: file_Open_def Let_def only_file_def split: prod.splits if_splits dest!: os_ret_same)

lemma write_only: "only_file path w (on_app (\<lambda>a. a\<lparr>a_files := (a_files a)(path := t)\<rparr>) w)"
  by (simp add: only_file_def)

lemma write_default_only:
  assumes "writeDefaultConfigFile home w = Inr v"
  shows "only_file (config_path home) w v"
proof -
  obtain f u where o: "file_Open (config_path home) ModeWrite w = Inr (f, u)"
    using assms unfolding writeDefaultConfigFile_def Let_def fault_simps by fastforce
  obtain r x where r: "os_ret u = (r, x)" by fastforce
  let ?x = "on_app (\<lambda>a. a\<lparr>a_files := (a_files a)(f_path f \<mapsto>
      write_at (file_content x (f_path f)) (f_pos f) (getDefaultConfigContent home))\<rparr>) x"
  obtain s y where s: "os_ret ?x = (s, y)" by fastforce
  have "y = v" using assms by (simp add: writeDefaultConfigFile_def Let_def o r s split: if_splits)
  then have "only_file (config_path home) w u" "only_file (config_path home) u x" "only_file (config_path home) x ?x"
    "only_file (config_path home) ?x v"
    using open_only [OF o] os_ret_only [OF r] os_ret_only [OF s] write_only [of "config_path home" x] by simp_all
  then show ?thesis using only_file_trans by blast
qed

lemma create_default_only: "createDefaultConfigFile home w = Inr v \<Longrightarrow> only_file (config_path home) w v"
proof -
  assume c: "createDefaultConfigFile home w = Inr v"
  obtain u where "writeDefaultConfigFile home u = Inr v" "only_file (config_path home) w u"
  proof (cases "dir_exists w (getConfigDirectory home)")
    case True
    then show thesis using c that [of w] by (simp add: createDefaultConfigFile_def only_file_def)
  next
    case False
    obtain r x where r: "os_ret w = (r, x)" by fastforce
    then show thesis using c False os_ret_same [OF r] that
      by (auto simp: createDefaultConfigFile_def Let_def only_file_def split: if_splits)
  qed
  then show ?thesis using write_default_only only_file_trans by blast
qed

lemma read_only:
  assumes "readTextFile path w = Inr (t, v)"
  shows "only_file path w v"
proof -
  obtain f u where o: "file_Open path ModeRead w = Inr (f, u)"
    using assms unfolding readTextFile_def readFile_def fault_simps by fastforce
  obtain r x where r: "os_ret u = (r, x)" by fastforce
  have "x = v" using assms by (simp add: readTextFile_def readFile_def Let_def o r split: if_splits)
  then show ?thesis using open_only [OF o] os_ret_only [OF r] only_file_trans by blast
qed

lemma load_config_only:
  assumes "load_config_file home w = Inr v"
  shows "\<exists>u t. only_file (config_path home) w u \<and> parseConfigString (w_cfg w) t = Inr (w_cfg v) \<and> v = u\<lparr>w_cfg := w_cfg v\<rparr>"
proof -
  obtain x where x: "(if \<not> file_exists w (config_path home) then createDefaultConfigFile home w else Inr w) = Inr x"
    using assms unfolding load_config_file_def fault_simps by blast
  then obtain t u where r: "readTextFile (config_path home) x = Inr (t, u)"
    using assms unfolding load_config_file_def fault_simps by fastforce
  obtain c where c: "parseConfigString (w_cfg u) (case t of Some t \<Rightarrow> t | None \<Rightarrow> []) = Inr c" "v = u\<lparr>w_cfg := c\<rparr>"
    using assms unfolding load_config_file_def x by (auto simp: r fault_simps)
  have "only_file (config_path home) w x"
    using x create_default_only [of home w x] by (auto simp: only_file_def split: if_splits)
  then have u: "only_file (config_path home) w u" using read_only [OF r] only_file_trans by blast
  then show ?thesis using c by (auto simp: only_file_def)
qed

text \<open>A configuration with a target folder, no transfers, a fresh session; and every other file as before.\<close>

lemma main_setup_result:
  assumes "main_setup home now items nick w = Inr v" and "a_contexts (w_app w) = []"
  shows "config_started (w_cfg v) \<and> w_session v = irc_create_session \<and> a_contexts (w_app v) = []
    \<and> (\<forall>p. p \<noteq> config_path home \<longrightarrow> a_files (w_app v) p = a_files (w_app w) p)"
proof -
  obtain x c where x: "load_config_file home (w\<lparr>w_cfg := default_config home\<rparr>) = Inr x"
    and c: "main_arguments now items nick (w_cfg x) = Inr c"
    and v: "v = (on_app (\<lambda>a. a\<lparr>a_downloadContext := replicate (c_numDownloads c) None\<rparr>) x)
         \<lparr>w_cfg := c, w_session := irc_create_session\<rparr>"
    using assms(1) unfolding main_setup_def fault_simps by blast
  obtain u t where u: "only_file (config_path home) (w\<lparr>w_cfg := default_config home\<rparr>) u"
    "parseConfigString (default_config home) t = Inr (w_cfg x)" "x = u\<lparr>w_cfg := w_cfg x\<rparr>"
    using load_config_only [OF x] by auto
  have "lists_empty (default_config home)" by (simp add: lists_empty_def default_config_def zero_config_def)
  then have "config_started c" using main_arguments_started [OF parseConfigString_keeps c] u(2) by blast
  moreover have "w_app x = w_app u" using arg_cong [OF u(3), of w_app] by simp
  ultimately show ?thesis using u(1) assms(2) by (simp add: v only_file_def)
qed

text \<open>A connection that stands has a socket and nothing received.\<close>

lemma try_to_connect_stands:
  assumes "try_to_connect w = (v, ret)"
  shows "w_app v = w_app w \<and> w_cfg v = w_cfg w \<and> (ret \<noteq> -1 \<longrightarrow> 0 \<le> s_sock (w_session v))"
  using assms
  by (auto simp: try_to_connect_def init_socket_def ssl_init_def fail_with_def Let_def dest!: os_ret_same
      split: prod.splits if_splits)

lemma has_connection_same: "hasConnection w = (v, ok) \<Longrightarrow> w_app v = w_app w \<and> w_cfg v = w_cfg w \<and> w_session v = w_session w"
  by (auto simp: hasConnection_def isConnectionEstablished_def split: prod.splits if_splits dest!: os_ret_same)

lemma connect_first_stands:
  "connect_first fs w = (v, 0) \<Longrightarrow> 0 \<le> s_sock (w_session v) \<and> w_app v = w_app w \<and> w_cfg v = w_cfg w"
proof (induction fs arbitrary: w)
  case (Cons f fs)
  obtain x ret where x: "(if f = AF_INET \<or> f = AF_INET6 then try_to_connect w else (w, -1)) = (x, ret)" by fastforce
  obtain y ok where y: "hasConnection x = (y, ok)" by fastforce
  have ret: "ret \<noteq> -1" using Cons.prems x by auto
  then have s: "w_app x = w_app w" "w_cfg x = w_cfg w" "0 \<le> s_sock (w_session x)"
    using x try_to_connect_stands [of w x ret] by (auto split: if_splits)
  show ?case
    using Cons.prems Cons.IH [of "socket_close y"] x y ret s has_connection_same [OF y]
    by (auto simp: socket_close_def simp del: connect_first.simps(1) split: if_splits)
qed simp

lemma connect_stands:
  assumes "connect_to_server w dns r = (v, 0)"
  shows "0 \<le> s_sock (w_session v) \<and> w_app v = w_app w \<and> w_cfg v = w_cfg w
    \<and> s_incoming_offset (w_session v) = s_incoming_offset (w_session w)"
proof -
  obtain server n where names: "c_ircServer (w_cfg w) = Some server" "c_nick (w_cfg w) = Some n"
    using assms by (auto simp: connect_to_server_eq irc_connect_generic_def Let_def split: option.splits)
  let ?u = "on_session (store_names server None n None None) w"
  obtain fs x where x: "connect_first fs ?u = (x, 0)" "s_sock (w_session v) = s_sock (w_session x)"
    "s_incoming_offset (w_session v) = s_incoming_offset (w_session x)" "w_app v = w_app x" "w_cfg v = w_cfg x"
    using assms names by (auto simp: connect_to_server_eq irc_connect_generic_def Let_def split: option.splits prod.splits if_splits)
  have "s_incoming_offset (w_session x) = s_incoming_offset (w_session w)"
    using connect_first_setup [of "w_session ?u" ?u fs] x(1)
    by (simp add: setup_kept_def store_names_def free_ircsession_strings_def Let_def)
  then show ?thesis using connect_first_stands [OF x(1)] x by simp
qed

lemma ending_codes: "errcode e = 15 \<longleftrightarrow> e = LIBIRC_ERR_TERMINATED" "errcode e = 5 \<longleftrightarrow> e = LIBIRC_ERR_CLOSED"
  by (cases e; simp)+

text \<open>The loop from a connection that stands.\<close>

lemma loop_after_connect:
  assumes "session_wf (w_session v)" and "s_incoming_offset (w_session v) = 0"
    and "s_state (w_session v) = LIBIRC_STATE_CONNECTING" and "0 \<le> s_sock (w_session v)"
    and "c_targetDir (w_cfg v) = Some dir" and "a_contexts (w_app v) = []"
  shows "leads_to (\<lambda>q x. sandboxed dir (a_files (w_app v)) (r_world q)
      \<and> (if x = None then irc_is_connected (r_session q) else x = Some 1))
    (irc_run (initCallbacks dns time) answers (start_run v))"
proof -
  have inv: "stream_inv (s_ssl (w_session v)) (start_run v)" by (rule start_inv [OF assms(1,2)])
  have run: "running (start_run v)" using assms(3,4) by (simp add: running_def start_run_def r_session_def irc_is_connected_def)
  have box: "sandboxed dir (a_files (w_app v)) (r_world (start_run v))"
    using assms(5,6) by (simp add: sandboxed_def start_run_def)
  obtain res where res: "irc_run (initCallbacks dns time) answers (start_run v) = Some res" using run_inv [OF inv] by blast
  show ?thesis
  proof (rule leads_toI [OF res])
    fix q x
    assume q: "res = Inr (q, x)"
    have "irc_run_loop (initCallbacks dns time) answers (start_run v) = Some (Inr (q, x))"
      using res q assms(3) by (simp add: irc_run_def start_run_def r_session_def)
    from xdccget_io.loop_status [OF inv run this]
    have "if x = None then irc_is_connected (r_session q) else x = Some 1" by (auto simp: running_def split: if_splits)
    then show "sandboxed dir (a_files (w_app v)) (r_world q)
      \<and> (if x = None then irc_is_connected (r_session q) else x = Some 1)"
      using sandbox.run_law [OF _ box, of dns time answers q x] res q by simp
  qed
qed

lemma leads_to_after:
  assumes "leads_to P res" and "\<And>q. P q None \<Longrightarrow> Q q None"
    and "\<And>q ret status. P q (Some ret) \<Longrightarrow> main_status (r_world q) ret = Inr status \<Longrightarrow> Q q (Some status)"
  shows "leads_to Q (after_loop res)"
  using assms by (auto simp: leads_to_def after_loop_def split: option.splits sum.splits)

lemma main_status_success:
  "main_status v 1 = Inr status \<Longrightarrow> status = 0 \<and> s_lasterror (w_session v) \<in> {LIBIRC_ERR_TERMINATED, LIBIRC_ERR_CLOSED}"
  by (auto simp: main_status_def irc_errno_def ending_codes split: option.splits if_splits)

section \<open>What the program does\<close>


text \<open>A first start on the command line \<open>irc.net #a bot xdcc send #1\<close>, with a system that makes a socket and
  connects it, and a watcher that fails in the second round.\<close>

definition first_run :: app_world where
  "first_run = first_start\<lparr>w_os := (w_os first_start)\<lparr>os_rets := [0, 0, 0, 0, 0, 0, 3, 0, 0, 1, 0, 0, 0]\<rparr>\<rparr>"

definition first_items :: "arg_item list" where
  "first_items = [Arg ''irc.net'', Arg ''#a'', Arg ''bot xdcc send #1'']"


end
