(* ===== verification/Spec2Isabelle.thy ===== *)
theory Spec2Isabelle
  imports Line_Faults Session_Io Dcc_Requests Sds_Text Sds_Args Tls_Context Settings_Windows Download_File Checksum Fd_Select Fd_Poll Fd_Epoll Program_Properties
    Sph_Codec Terminal Sockets Os_Windows Config_File Md5_Narrow Sds_Test Main_Program
begin

text \<open>
  A model of \<open>xdccget\<close>, a program that downloads files from IRC bots over DCC (the repository
  \<open>xdccget-for-windows\<close>), with the theorems that make it correct and the ones that show where it is not. Paths
  are those of the repository; \<open>lib/\<close> stands for \<open>libircclient-src/\<close>.

  \<^bold>\<open>The program.\<close> \<open>xdccget.c\<close> reads its options (\<open>argument_parser.c\<close>, \<open>config.c\<close>), creates an IRC session and runs
  the main loop of a changed libircclient. A round of the loop (\<open>lib/libircclient.c\<close>) waits for the sockets
  (\<open>lib/fd_watcher.c\<close>), moves bytes between them and the session's two buffers (\<open>lib/ssl.c\<close> for TLS), cuts the bytes
  that arrived into lines, parses each (\<open>lib/irc_parser.c\<close> into \<open>lib/irc_line_parser.c\<close>), hands it to a handler
  (\<open>lib/commands.c\<close>) and serves the transfers (\<open>lib/dcc.c\<close>). Handlers call the program's events; these send
  the requests to the bots, open files (\<open>file.c\<close>) when an offer arrives, store what is received, and check the
  MD5 of the result (\<open>hashing_algo.c\<close>, \<open>sph_md5.c\<close>). Strings are those of \<open>sds.c\<close>.

  \<^bold>\<open>Conventions.\<close> C code that fails or leaves its memory is \<open>Inl\<close> of a fault or of an exit, anything else \<open>Inr\<close> of the
  result (\<open>Prelude\<close>, \<open>World.stop\<close>). Sizes are natural numbers with the wrap-around of \<open>size_t\<close> written out, 32-bit
  arithmetic of MD5 and the flags are words. What the operating system, OpenSSL, the watcher and \<open>random\<close>
  answer is read from tapes in the world or given as arguments; a theorem that holds for all of them holds
  for every network, server and bot. A locale states each interface between components and is interpreted
  on the model's own definitions in the theory of the component that provides it.

  \<^bold>\<open>Theories, in the order of their dependence.\<close>
  \<^item> \<open>Prelude\<close>, \<open>Numbers\<close>: C strings, the error monad, \<open>sscanf\<close> and \<open>printf\<close> for numbers, with their round trips.
  \<^item> \<open>Irc_Parser\<close> (\<open>lib/irc_parser.c\<close>); \<open>_Safety\<close>: no byte outside the 513-byte buffer but in one state that is
    reachable only by a longer line; \<open>_Messages\<close>: what is reported of a well-formed message, as the interface
    \<open>parser_client\<close>; \<open>_Recovery\<close>: what is left after a line that is no message.
  \<^item> \<open>Session\<close> (\<open>lib/session.h\<close>, \<open>params.h\<close>, \<open>errors.c\<close>, the commands to the server and the queue of
    \<open>libircclient.c\<close>), \<open>Config\<close> (\<open>helper.c\<close>, \<open>helper.h\<close>, \<open>argument_parser.h\<close>), \<open>World\<close> (the state the handlers share:
    heap, parser result, session, configuration, system, the client's own state).
  \<^item> \<open>Dcc\<close> (\<open>lib/dcc.c\<close>), \<open>Dcc_Lists\<close> (what its operations keep of the session list and the lock, and the interface
    \<open>dcc_client\<close>), \<open>Dcc_Requests\<close> (requests as text: round trips).
  \<^item> \<open>Commands\<close> (\<open>lib/commands.c\<close>), \<open>Line_Parser\<close> (\<open>lib/irc_line_parser.c\<close>), \<open>Line_Memory\<close> (a line is handled with exactly
    its texts, and every block is released), \<open>Line_Faults\<close> (the lines for which that fails).
  \<^item> \<open>Session_Io\<close> (socket reads and writes of \<open>lib/ssl.c\<close>, the outgoing queue is a queue), \<open>Irc_Connect\<close> (address,
    socket, registration), \<open>Irc_Run\<close> (the loop), \<open>Io_Frame\<close> (the interface \<open>world_law\<close>: what the callbacks of a
    client keep, every handler keeps), \<open>Irc_Stream\<close> (the lines parsed are the lines of the stream),
    \<open>Irc_Status\<close> (how the loop ends), \<open>Irc_Flush\<close> (the queue drains).
  \<^item> \<open>Sds\<close> (strings as texts), \<open>Sds_Memory\<close> (header, capacity, buffer), \<open>Sds_Refine\<close> (the second implements the
    first), \<open>Sds_Text\<close> (numbers, \<open>sdscatprintf\<close>, \<open>sdscatfmt\<close>, joining; the interface \<open>text_buffer\<close>), \<open>Sds_Args\<close> (quoting and
    splitting a line of arguments), \<open>Sds_Test\<close> (the test program of \<open>sds.c\<close>, which reports no failure).
  \<^item> \<open>Settings\<close> (configuration file, options as \<open>argp\<close> reports them, lists of bots), \<open>Getopt\<close> (\<open>getopt.c\<close>),
    \<open>Getopt_Permute\<close> (the exchange by cycles), \<open>Getopt_Scan\<close> (all calls for a command line against a reading from
    left to right), \<open>Settings_Windows\<close> (the Windows loop over it).
  \<^item> \<open>Colors\<close> (\<open>lib/colors.c\<close>), \<open>Files\<close> (\<open>file.c\<close>), \<open>Download\<close> (\<open>xdccget.c\<close>), \<open>Download_Safety\<close> and \<open>Download_File\<close> (a round over
    the transfers is safe, a transfer stores the file), \<open>File_Sandbox\<close> and \<open>Client_Law\<close> (nothing is written outside
    the target directory), \<open>Program_Run\<close> and \<open>Program_Properties\<close> (the loop with the program's callbacks).
  \<^item> \<open>Trust\<close> (the certificate callback and its question, \<open>helper.c\<close>), \<open>Tls_Context\<close> (the context of \<open>lib/ssl.c\<close>).
  \<^item> \<open>Md5\<close>, \<open>Md5_Stream\<close>, \<open>Md5_Correct\<close>, \<open>Hashing\<close>, \<open>Checksum\<close> (\<open>sph_md5.c\<close>, \<open>md_helper.c\<close>, \<open>hashing_algo.c\<close>: pieces hash like
    the whole, and the verdict on a download), \<open>Md5_Narrow\<close> (the branches for machines without 64-bit integers).
  \<^item> \<open>Sph_Codec\<close> (\<open>sph_types.h\<close>: which machine the macros of the compiler stand for, byte swaps, encoders and decoders;
    the interface \<open>word_codec\<close>; all machines agree with the variants for single bytes that \<open>Md5\<close> uses).
  \<^item> \<open>Doubles\<close> (arithmetic of \<open>double\<close> as exact rational results rounded to the nearest, ties to even), \<open>Terminal\<close>
    (log lines and the line of progress of \<open>helper.c\<close>: its width, and the time that is left).
  \<^item> \<open>Sockets\<close> (\<open>lib/sockets.c\<close>: calls repeated until an answer decides, the array of resolved addresses),
    \<open>Os_Windows\<close> (\<open>os_windows.c\<close>: timers, handlers, colours, random numbers), \<open>Config_File\<close> (\<open>config.c\<close>: where the
    configuration is, its default, and what \<open>main\<close> ends up with), \<open>Main_Program\<close> (\<open>main\<close> from the
    configuration to its status, on the loop of \<open>Program_Properties\<close>).
  \<^item> \<open>Fd_Watcher\<close>, \<open>Fd_Poll\<close>, \<open>Fd_Select\<close>, \<open>Fd_Epoll\<close> (\<open>lib/fd_watcher.c\<close>: the first two implement the watcher's
    interface, the third does not).

  \<^bold>\<open>Loops, bounds and fuel.\<close> The loop over the lines of a buffer and the one that prints into a doubling buffer are
  partial functions whose end is proved. \<open>irc_run\<close> runs over a list of answers of the watcher and returns
  nothing when the list ends first; the theorems about its end say so. \<open>split_from\<close> has the length of the text as
  fuel, one step for each character; \<open>collect\<close> and \<open>options_loop\<close> have one round more than there are words, and
  the theorem says that this is enough. The strings of \<open>sds\<close> are bounded by \<open>2 ^ 62\<close> characters where a capacity is
  computed. A call that is repeated is a partial function, which returns exactly when some answer decides; the
  divisions of a size by 1024 end because a rounded quotient is less than the size less one. Rounding is for
  numbers in the normal range of a double, without its largest and smallest exponents, which no size, speed
  or time of the program leaves. Searches for a free file name take the random numbers as a list.

  \<^bold>\<open>Not modelled.\<close> What the code cannot see of libraries: OpenSSL's protocol, \<open>printf\<close> beyond numbers and strings, \<open>argp\<close>
  (its events are the input), the resolver, the timers and consoles of Windows (their answers are arguments).
  Usage and version texts. Wrappers of system calls without logic: mutexes and Winsock start-up (\<open>portable.c\<close>),
  signal set-up (\<open>os_unix.c\<close>), the size of the console. Threads are not interleaved, the checksum thread is one
  step, signal handlers set their variable between rounds. The variants of \<open>md_helper.c\<close> for other hash
  functions, the macros of \<open>sph_types.h\<close> that choose integer types and shifts (the words of the model stand for
  them). Headers that only declare (\<open>libircclient.h\<close>, \<open>libirc_rfcnumeric.h\<close>).
\<close>

end
